(* ===== verification/Go_Prelude.thy ===== *)
theory Go_Prelude
  imports Main "HOL-Library.Word" "HOL-Library.AList" "HOL-Library.List_Lexorder"
    "HOL-Library.Char_ord"
begin

text \<open>
  What every component of the development uses of the Go language and its standard library:
  error values, \<^verbatim>\<open>time.Time\<close> and \<^verbatim>\<open>time.Duration\<close>, the 64-bit wrap-around of \<^verbatim>\<open>int64\<close>
  products, big-endian byte fields (\<^verbatim>\<open>encoding/binary\<close>), the string helpers of \<^verbatim>\<open>strings\<close>,
  and Go maps as association lists with distinct keys. The generic lemmas the component
  proofs share are collected here, under the \<open>go_simps\<close> and \<open>go_map\<close> collections.
\<close>

named_theorems go_simps \<open>definitions of the Go base operations, unfolded on demand\<close>
named_theorems go_map \<open>look-up laws of the operations on Go maps\<close>

section \<open>Errors\<close>

text \<open>
  An \<^verbatim>\<open>error\<close> value is its message; the sentinel errors of a package are compared by
  identity in Go and are told apart by their (distinct) messages here. A function that returns
  \<^verbatim>\<open>(T, error)\<close> is a value of \<open>go_error + T\<close>.
\<close>

datatype go_error = Error_New string

type_synonym 'a result = "go_error + 'a"

definition io_EOF :: go_error where
  "io_EOF = Error_New ''EOF''"

definition io_ErrUnexpectedEOF :: go_error where
  "io_ErrUnexpectedEOF = Error_New ''unexpected EOF''"

definition io_ErrShortWrite :: go_error where
  "io_ErrShortWrite = Error_New ''short write''"

fun bind_result :: "'a result \<Rightarrow> ('a \<Rightarrow> 'b result) \<Rightarrow> 'b result" where
  "bind_result (Inl e) f = Inl e"
| "bind_result (Inr a) f = f a"

lemma bind_result_Inr [simp]:
  "bind_result r f = Inr b \<longleftrightarrow> (\<exists>a. r = Inr a \<and> f a = Inr b)"
  by (cases r) auto

lemma bind_result_Inl:
  "bind_result r f = Inl e \<longleftrightarrow> r = Inl e \<or> (\<exists>a. r = Inr a \<and> f a = Inl e)"
  by (cases r) auto

section \<open>Machine integers\<close>

text \<open>\<^verbatim>\<open>int64\<close> arithmetic: the mathematical value, reduced to two's complement.\<close>

definition wrap64 :: "int \<Rightarrow> int" where
  "wrap64 x = (x + 2 ^ 63) mod 2 ^ 64 - 2 ^ 63"

lemma wrap64_id: "- (2 ^ 63) \<le> x \<Longrightarrow> x < 2 ^ 63 \<Longrightarrow> wrap64 x = x"
  by (simp add: wrap64_def)

lemma wrap64_bounds: "- (2 ^ 63) \<le> wrap64 x" "wrap64 x < 2 ^ 63"
proof -
  have "0 \<le> (x + 2 ^ 63) mod 2 ^ 64" "(x + 2 ^ 63) mod 2 ^ 64 < 2 ^ 64"
    by simp_all
  then show "- (2 ^ 63) \<le> wrap64 x" "wrap64 x < 2 ^ 63"
    by (simp_all add: wrap64_def)
qed

section \<open>Time\<close>

text \<open>
  An instant is its distance in nanoseconds from the zero \<^verbatim>\<open>time.Time\<close>, so that \<^verbatim>\<open>IsZero\<close> is a
  comparison with 0; \<^verbatim>\<open>Before\<close> and \<^verbatim>\<open>After\<close> are \<open><\<close> and \<open>>\<close>. A \<^verbatim>\<open>Duration\<close> is an \<^verbatim>\<open>int64\<close>
  number of nanoseconds. \<^verbatim>\<open>Sub\<close> saturates at the ends of that range. Multiplication of a
  duration wraps.
\<close>

type_synonym gotime = int
type_synonym duration = int

definition is_zero :: "gotime \<Rightarrow> bool" where
  "is_zero t \<longleftrightarrow> t = 0"

definition time_sub :: "gotime \<Rightarrow> gotime \<Rightarrow> duration" where
  "time_sub t u = max (- (2 ^ 63)) (min (2 ^ 63 - 1) (t - u))"

definition millisecond :: duration where
  "millisecond = 1000000"

definition second :: duration where
  "second = 1000000000"

definition minute :: duration where
  "minute = 60 * 1000000000"

definition hour :: duration where
  "hour = 3600 * 1000000000"

definition dur_mul :: "int \<Rightarrow> duration \<Rightarrow> duration" where
  "dur_mul n d = wrap64 (n * d)"

lemmas duration_defs = millisecond_def second_def minute_def hour_def

declare is_zero_def [go_simps] time_sub_def [go_simps] duration_defs [go_simps]

lemma time_sub_le: "- (2 ^ 63) \<le> d \<Longrightarrow> d < 2 ^ 63 - 1 \<Longrightarrow> time_sub t u \<le> d \<longleftrightarrow> t - u \<le> d"
  by (auto simp: time_sub_def)

lemma time_sub_less: "- (2 ^ 63) < d \<Longrightarrow> d \<le> 2 ^ 63 - 1 \<Longrightarrow> time_sub t u < d \<longleftrightarrow> t - u < d"
  by (auto simp: time_sub_def)

lemma time_sub_self [simp]: "time_sub t t = 0"
  by (simp add: time_sub_def)

section \<open>Bytes\<close>

type_synonym byte = "8 word"
type_synonym bytes = "8 word list"
type_synonym uint16 = "16 word"
type_synonym uint32 = "32 word"
type_synonym uint64 = "64 word"

text \<open>\<^verbatim>\<open>binary.BigEndian\<close>: the \<open>k\<close> bytes of a number, most significant first, and back.\<close>

fun be_bytes :: "nat \<Rightarrow> nat \<Rightarrow> bytes" where
  "be_bytes 0 n = []"
| "be_bytes (Suc k) n = be_bytes k (n div 256) @ [word_of_nat (n mod 256)]"

definition be_nat :: "bytes \<Rightarrow> nat" where
  "be_nat bs = foldl (\<lambda>a b. a * 256 + unat b) 0 bs"

definition PutUint16 :: "uint16 \<Rightarrow> bytes" where
  "PutUint16 w = be_bytes 2 (unat w)"

definition PutUint32 :: "uint32 \<Rightarrow> bytes" where
  "PutUint32 w = be_bytes 4 (unat w)"

definition PutUint64 :: "uint64 \<Rightarrow> bytes" where
  "PutUint64 w = be_bytes 8 (unat w)"

definition Uint16 :: "bytes \<Rightarrow> uint16" where
  "Uint16 bs = word_of_nat (be_nat (take 2 bs))"

definition Uint32 :: "bytes \<Rightarrow> uint32" where
  "Uint32 bs = word_of_nat (be_nat (take 4 bs))"

definition Uint64 :: "bytes \<Rightarrow> uint64" where
  "Uint64 bs = word_of_nat (be_nat (take 8 bs))"

lemma length_be_bytes [simp]: "length (be_bytes k n) = k"
  by (induction k arbitrary: n) auto

lemma be_bytes_numeral [simp]:
  "be_bytes (numeral k) n = be_bytes (pred_numeral k) (n div 256) @ [word_of_nat (n mod 256)]"
  by (subst numeral_eq_Suc) (rule be_bytes.simps(2))

lemma be_nat_Nil [simp]: "be_nat [] = 0"
  by (simp add: be_nat_def)

lemma be_nat_snoc [simp]: "be_nat (bs @ [b]) = be_nat bs * 256 + unat b"
  by (simp add: be_nat_def)

lemma unat_byte_less: "unat (b :: byte) < 256"
  using unsigned_less [of b, where 'a = nat] by simp

lemma unat_byte_mod [simp]: "unat (word_of_nat (n mod 256) :: byte) = n mod 256"
  by (simp add: unat_of_nat)

lemma be_nat_be_bytes: "be_nat (be_bytes k n) = n mod 256 ^ k"
proof (induction k arbitrary: n)
  case 0
  show ?case by simp
next
  case (Suc k)
  have "n mod 256 ^ Suc k = 256 * (n div 256 mod 256 ^ k) + n mod 256"
    by (simp add: mod_mult2_eq)
  then show ?case
    by (simp add: Suc.IH)
qed

lemma be_nat_less: "be_nat bs < 256 ^ length bs"
proof (induction bs rule: rev_induct)
  case Nil
  show ?case by simp
next
  case (snoc b bs)
  have "be_nat bs * 256 + unat b < be_nat bs * 256 + 256"
    using unat_byte_less [of b] by simp
  also have "\<dots> \<le> 256 ^ length (bs @ [b])"
    using snoc by simp
  finally show ?case by simp
qed

lemma be_bytes_be_nat: "length bs = k \<Longrightarrow> be_bytes k (be_nat bs) = bs"
proof (induction bs arbitrary: k rule: rev_induct)
  case Nil
  then show ?case by simp
next
  case (snoc b bs)
  have "(be_nat bs * 256 + unat b) div 256 = be_nat bs"
    using unat_byte_less [of b] by simp
  moreover have "word_of_nat ((be_nat bs * 256 + unat b) mod 256) = b"
    using unat_byte_less [of b] by simp
  ultimately show ?case
    using snoc by auto
qed

lemma Put_lengths [simp]:
  "length (PutUint16 v) = 2" "length (PutUint32 w) = 4" "length (PutUint64 x) = 8"
  by (simp_all add: PutUint16_def PutUint32_def PutUint64_def)

lemma Uint16_PutUint16 [simp]: "Uint16 (PutUint16 w @ r) = w"
  using unsigned_less [of w, where 'a = nat]
  by (simp add: Uint16_def PutUint16_def be_nat_be_bytes del: be_bytes_numeral)

lemma Uint32_PutUint32 [simp]: "Uint32 (PutUint32 w @ r) = w"
  using unsigned_less [of w, where 'a = nat] by (simp add: Uint32_def PutUint32_def be_nat_be_bytes del: be_bytes_numeral)

lemma Uint64_PutUint64 [simp]: "Uint64 (PutUint64 w @ r) = w"
  using unsigned_less [of w, where 'a = nat] by (simp add: Uint64_def PutUint64_def be_nat_be_bytes del: be_bytes_numeral)

section \<open>Maps\<close>

text \<open>
  A Go map is an association list with distinct keys: \<open>map_of\<close> is the look-up (\<open>None\<close> for an
  absent key), \<open>AList.update\<close> the assignment \<^verbatim>\<open>m[k] = v\<close>, \<open>AList.delete\<close> the built-in
  \<^verbatim>\<open>delete\<close>. The order of the list stands for one iteration order; where a result could depend
  on it the source sorts first, and so does the model.
\<close>

type_synonym ('k, 'v) gomap = "('k \<times> 'v) list"

definition gomap_ok :: "('k, 'v) gomap \<Rightarrow> bool" where
  "gomap_ok m \<longleftrightarrow> distinct (map fst m)"

lemma gomap_ok_Nil [simp]: "gomap_ok []"
  by (simp add: gomap_ok_def)

lemma gomap_ok_update [simp]: "gomap_ok m \<Longrightarrow> gomap_ok (AList.update k v m)"
  by (simp add: gomap_ok_def distinct_update)

lemma gomap_ok_delete [simp]: "gomap_ok m \<Longrightarrow> gomap_ok (AList.delete k m)"
  by (simp add: gomap_ok_def distinct_delete)

lemma gomap_ok_filter [simp]: "gomap_ok m \<Longrightarrow> gomap_ok (filter P m)"
  unfolding gomap_ok_def by (rule distinct_map_filter)

lemma gomap_ok_map [simp]: "gomap_ok (map (\<lambda>(k, v). (k, f k v)) m) = gomap_ok m"
  by (simp add: gomap_ok_def case_prod_beta comp_def)

lemma map_of_mapv [simp, go_map]: "map_of (map (\<lambda>(k, v). (k, f k v)) m) x = map_option (f x) (map_of m x)"
  by (induction m) auto

lemma map_of_filter_key [simp, go_map]:
  "map_of (filter (\<lambda>(k, v). P k) m) x = (if P x then map_of m x else None)"
  by (induction m) auto

lemma gomap_ok_set: "gomap_ok m \<Longrightarrow> map_of m k = Some v \<longleftrightarrow> (k, v) \<in> set m"
  by (simp add: gomap_ok_def)

declare update_conv' [simp, go_map] delete_conv' [simp, go_map]

lemma set_update: "gomap_ok m \<Longrightarrow> set (AList.update k v m) = insert (k, v) {(x, y) \<in> set m. x \<noteq> k}"
  by (auto simp: gomap_ok_set [symmetric] split: if_splits)

section \<open>Strings\<close>

text \<open>A Go string is its bytes, a list of characters; ranges of ASCII characters compare as such.\<close>

definition is_lower :: "char \<Rightarrow> bool" where
  "is_lower c \<longleftrightarrow> CHR ''a'' \<le> c \<and> c \<le> CHR ''z''"

definition is_upper :: "char \<Rightarrow> bool" where
  "is_upper c \<longleftrightarrow> CHR ''A'' \<le> c \<and> c \<le> CHR ''Z''"

definition is_digit :: "char \<Rightarrow> bool" where
  "is_digit c \<longleftrightarrow> CHR ''0'' \<le> c \<and> c \<le> CHR ''9''"

definition is_lower_hex :: "char \<Rightarrow> bool" where
  "is_lower_hex c \<longleftrightarrow> is_digit c \<or> CHR ''a'' \<le> c \<and> c \<le> CHR ''f''"

lemmas char_class_defs = is_lower_def is_upper_def is_digit_def is_lower_hex_def

text \<open>\<^verbatim>\<open>hex.EncodeToString\<close>.\<close>

definition hex_digit :: "nat \<Rightarrow> char" where
  "hex_digit n = ''0123456789abcdef'' ! n"

definition hex_encode :: "bytes \<Rightarrow> string" where
  "hex_encode bs = concat (map (\<lambda>b. [hex_digit (unat b div 16), hex_digit (unat b mod 16)]) bs)"

lemma hex_digit_class: "n < 16 \<Longrightarrow> is_lower_hex (hex_digit n)"
proof -
  assume "n < 16"
  then have "hex_digit n \<in> set ''0123456789abcdef''"
    unfolding hex_digit_def by (intro nth_mem) simp
  moreover have "\<forall>c \<in> set ''0123456789abcdef''. is_lower_hex c"
    by code_simp
  ultimately show ?thesis by blast
qed

lemma length_hex_encode [simp]: "length (hex_encode bs) = 2 * length bs"
  by (induction bs) (simp_all add: hex_encode_def)

lemma hex_encode_class: "c \<in> set (hex_encode bs) \<Longrightarrow> is_lower_hex c"
proof -
  have "unat b div 16 < 16" for b :: byte
    using unat_byte_less [of b] by simp
  then show "c \<in> set (hex_encode bs) \<Longrightarrow> is_lower_hex c"
    by (auto simp: hex_encode_def intro: hex_digit_class)
qed

lemma hex_digit_inject: "m < 16 \<Longrightarrow> n < 16 \<Longrightarrow> hex_digit m = hex_digit n \<Longrightarrow> m = n"
  unfolding hex_digit_def by (subst (asm) nth_eq_iff_index_eq) simp_all

lemma hex_encode_inject: "hex_encode xs = hex_encode ys \<Longrightarrow> xs = ys"
proof (induction xs arbitrary: ys)
  case Nil
  then show ?case by (cases ys) (simp_all add: hex_encode_def)
next
  case (Cons x xs)
  then obtain y ys' where ys: "ys = y # ys'" by (cases ys) (simp_all add: hex_encode_def)
  have lt: "unat b div 16 < 16" for b :: byte
    using unat_byte_less [of b] by simp
  have "unat x div 16 = unat y div 16" "unat x mod 16 = unat y mod 16"
    using Cons.prems ys by (auto simp: hex_encode_def intro: hex_digit_inject lt)
  then have "unat x = unat y"
    by (metis div_mult_mod_eq)
  then have "x = y" by (simp add: word_unat_eq_iff)
  then show ?case
    using Cons ys by (simp add: hex_encode_def)
qed

end
