(* ===== verification/Continuity_Wire.thy ===== *)
theory Continuity_Wire
  imports Go_Prelude
begin

text \<open>
  The framing of the continuity protocol, \<^verbatim>\<open>internal/continuity/wire.go\<close>: the binary frame
  (\<^verbatim>\<open>writeFrame\<close>, \<^verbatim>\<open>writeAll\<close>, \<^verbatim>\<open>readFrame\<close>) and the length-prefixed handshake record
  (\<^verbatim>\<open>writeJSON\<close>, \<^verbatim>\<open>readJSON\<close>). A connection that is read is the list of the bytes it will
  yield before it ends; a connection that is written is a state \<open>'w\<close> with a \<^verbatim>\<open>Write\<close>
  function, whose \<^verbatim>\<open>io.Writer\<close> contract is \<open>writer_contract\<close>. The shared contract of the two
  record formats is the locale \<open>stream_codec\<close>.
\<close>

section \<open>Frames\<close>

text \<open>The frame kinds are the constants 1 to 13 of the source, in its order.\<close>

definition frameOpen :: byte where "frameOpen = 1"
definition frameOpened :: byte where "frameOpened = 2"
definition frameData :: byte where "frameData = 3"
definition frameACK :: byte where "frameACK = 4"
definition frameFIN :: byte where "frameFIN = 5"
definition frameFINACK :: byte where "frameFINACK = 6"
definition frameClose :: byte where "frameClose = 7"
definition frameUDP :: byte where "frameUDP = 8"
definition frameUDPACK :: byte where "frameUDPACK = 9"
definition framePing :: byte where "framePing = 10"
definition framePong :: byte where "framePong = 11"
definition frameSelect :: byte where "frameSelect = 12"
definition frameClosed :: byte where "frameClosed = 13"

lemmas frame_kind_defs = frameOpen_def frameOpened_def frameData_def frameACK_def frameFIN_def
  frameFINACK_def frameClose_def frameUDP_def frameUDPACK_def framePing_def framePong_def
  frameSelect_def frameClosed_def

definition chunkSize :: nat where "chunkSize = 16 * 1024"
definition maxPayload :: nat where "maxPayload = 65507"
definition segmentOverhead :: int where "segmentOverhead = 192"
definition flowOverhead :: int where "flowOverhead = 2048"
definition controlOverhead :: int where "controlOverhead = 96"
definition carrierQueueBytes :: int where "carrierQueueBytes = 4096"
definition headerSize :: nat where "headerSize = 25"

record frame =
  f_kind :: byte
  f_flow :: uint64
  f_offset :: uint64
  f_value :: uint64
  f_data :: bytes

definition empty_frame :: frame where
  "empty_frame = \<lparr>f_kind = 0, f_flow = 0, f_offset = 0, f_value = 0, f_data = []\<rparr>"

section \<open>Writing\<close>

text \<open>One \<^verbatim>\<open>Write\<close> call: the number of bytes taken, the error, and the connection afterwards.\<close>

type_synonym 'w writer = "'w \<Rightarrow> bytes \<Rightarrow> nat \<times> go_error option \<times> 'w"

function writeAll :: "'w writer \<Rightarrow> 'w \<Rightarrow> bytes \<Rightarrow> go_error option \<times> 'w" where
  "writeAll wr w b =
     (if b = [] then (None, w)
      else case wr w b of (n, err, w') \<Rightarrow>
        (case err of
           Some e \<Rightarrow> (Some e, w')
         | None \<Rightarrow> if n = 0 then (Some io_ErrShortWrite, w') else writeAll wr w' (drop n b)))"
  by pat_completeness auto
termination
  by (relation "measure (\<lambda>(wr, w, b). length b)") auto

declare writeAll.simps [simp del]

definition frame_header :: "frame \<Rightarrow> bytes" where
  "frame_header f =
     PutUint32 (word_of_nat (headerSize + length (f_data f))) @
     [f_kind f] @ PutUint64 (f_flow f) @ PutUint64 (f_offset f) @ PutUint64 (f_value f)"

definition writeFrame :: "'w writer \<Rightarrow> 'w \<Rightarrow> frame \<Rightarrow> go_error option \<times> 'w" where
  "writeFrame wr w f =
     (if length (f_data f) > maxPayload then (Some (Error_New ''oversized continuity frame''), w)
      else case writeAll wr w (frame_header f) of
        (Some e, w') \<Rightarrow> (Some e, w')
      | (None, w') \<Rightarrow> writeAll wr w' (f_data f))"

text \<open>
  The documented contract of \<^verbatim>\<open>io.Writer\<close>: at most the given bytes are taken, they are sent in
  order, and taking fewer comes with an error.
\<close>

definition writer_contract :: "'w writer \<Rightarrow> ('w \<Rightarrow> bytes) \<Rightarrow> bool" where
  "writer_contract wr sent \<longleftrightarrow>
     (\<forall>w b n e w'. wr w b = (n, e, w') \<longrightarrow>
        n \<le> length b \<and> sent w' = sent w @ take n b \<and> (n < length b \<longrightarrow> e \<noteq> None))"

lemma writeAll_sent:
  assumes contract: "writer_contract wr sent"
  shows "writeAll wr w b = (r, w') \<Longrightarrow>
    \<exists>k \<le> length b. sent w' = sent w @ take k b \<and> (r = None \<longrightarrow> k = length b)"
proof (induction b arbitrary: w rule: length_induct)
  case (1 b)
  show ?case
  proof (cases "b = []")
    case True
    with "1.prems" show ?thesis by (simp add: writeAll.simps [of wr w "[]"])
  next
    case False
    obtain n e w1 where w1: "wr w b = (n, e, w1)" by (cases "wr w b") auto
    with contract have n: "n \<le> length b \<and> sent w1 = sent w @ take n b"
      unfolding writer_contract_def by blast
    show ?thesis
    proof (cases "e = None \<and> n \<noteq> 0")
      case True
      with "1.prems" False w1 have "writeAll wr w1 (drop n b) = (r, w')"
        by (simp add: writeAll.simps [of wr w b])
      moreover have "length (drop n b) < length b"
        using True False by simp
      ultimately obtain k where k: "k \<le> length b - n" "sent w' = sent w1 @ take k (drop n b)"
        "r = None \<longrightarrow> k = length b - n"
        using "1.IH" by fastforce
      have "sent w' = sent w @ take (n + k) b"
        using k(2) n by (simp add: take_add)
      with k n show ?thesis
        by (intro exI [of _ "n + k"]) auto
    next
      case stop: False
      with "1.prems" False w1 have "w' = w1" "r \<noteq> None"
        by (auto simp: writeAll.simps [of wr w b] split: option.splits if_splits)
      with n show ?thesis by blast
    qed
  qed
qed

lemma writeAll_sent_all:
  "writer_contract wr sent \<Longrightarrow> writeAll wr w b = (None, w') \<Longrightarrow> sent w' = sent w @ b"
  using writeAll_sent by fastforce

section \<open>Reading\<close>

text \<open>\<^verbatim>\<open>io.ReadFull\<close> on the bytes a connection still yields: the field and the rest.\<close>

definition io_ReadFull :: "bytes \<Rightarrow> nat \<Rightarrow> (bytes \<times> bytes) result" where
  "io_ReadFull r n =
     (if n \<le> length r then Inr (take n r, drop n r)
      else if r = [] then Inl io_EOF else Inl io_ErrUnexpectedEOF)"

definition readFrame :: "bytes \<Rightarrow> (frame \<times> bytes) result" where
  "readFrame r =
     bind_result (io_ReadFull r 4) (\<lambda>(h, r1).
       let n = Uint32 h in
       if n < word_of_nat headerSize \<or> n > word_of_nat (headerSize + maxPayload)
       then Inl (Error_New ''invalid continuity frame size'')
       else bind_result (io_ReadFull r1 headerSize) (\<lambda>(b, r2).
         let kind = b ! 0; flow = Uint64 (drop 1 b); offset = Uint64 (drop 9 b);
             val = Uint64 (drop 17 b) in
         if kind < frameOpen \<or> kind > frameClosed
         then Inl (Error_New ''invalid continuity frame type'')
         else bind_result (io_ReadFull r2 (unat n - headerSize)) (\<lambda>(d, r3).
           Inr (\<lparr>f_kind = kind, f_flow = flow, f_offset = offset, f_value = val, f_data = d\<rparr>, r3))))"

definition valid_frame :: "frame \<Rightarrow> bool" where
  "valid_frame f \<longleftrightarrow> frameOpen \<le> f_kind f \<and> f_kind f \<le> frameClosed \<and> length (f_data f) \<le> maxPayload"

lemma io_ReadFull_append [simp]: "length a = n \<Longrightarrow> io_ReadFull (a @ r) n = Inr (a, r)"
  by (simp add: io_ReadFull_def)

lemma io_ReadFull_Inr: "io_ReadFull r n = Inr (a, r') \<longleftrightarrow> r = a @ r' \<and> length a = n"
  by (auto simp: io_ReadFull_def split: if_splits)

lemma frame_header_length [simp]: "length (frame_header f) = 4 + headerSize"
  by (simp add: frame_header_def headerSize_def)

lemma frame_size_word:
  assumes "k \<le> maxPayload"
  shows "unat (word_of_nat (headerSize + k) :: uint32) = headerSize + k"
  using assms by (simp add: unat_of_nat maxPayload_def headerSize_def del: of_nat_add)

lemma header_fields:
  assumes "b = k # PutUint64 x @ PutUint64 y @ PutUint64 z"
  shows "b ! 0 = k" "Uint64 (drop 1 b) = x" "Uint64 (drop 9 b) = y" "Uint64 (drop 17 b) = z"
  using assms by (simp_all add: drop_Cons' Uint64_PutUint64 [of z "[]", simplified])

lemma readFrame_frame:
  assumes "valid_frame f"
  shows "readFrame (frame_header f @ f_data f @ r) = Inr (f, r)"
proof -
  define n :: uint32 where "n = word_of_nat (headerSize + length (f_data f))"
  define b where "b = f_kind f # PutUint64 (f_flow f) @ PutUint64 (f_offset f) @ PutUint64 (f_value f)"
  have header: "frame_header f @ f_data f @ r = PutUint32 n @ b @ f_data f @ r"
    by (simp add: frame_header_def n_def b_def)
  have n: "unat n = headerSize + length (f_data f)"
    using assms by (simp add: n_def frame_size_word valid_frame_def del: of_nat_add)
  have size: "\<not> n < word_of_nat headerSize" "\<not> n > word_of_nat (headerSize + maxPayload)"
    using assms n by (simp_all add: word_less_nat_alt frame_size_word valid_frame_def
        frame_size_word [of 0, simplified] del: of_nat_add)
  have b: "length b = headerSize"
    by (simp add: b_def headerSize_def)
  show ?thesis
    unfolding header readFrame_def
    using size b n assms header_fields [OF b_def] Uint32_PutUint32 [of n "[]"]
    by (simp add: Let_def valid_frame_def not_less)
qed

lemma Uint64_inverse: "8 \<le> length b \<Longrightarrow> PutUint64 (Uint64 b) = take 8 b"
proof -
  assume len: "8 \<le> length b"
  then have "be_nat (take 8 b) < 2 ^ 64"
    using be_nat_less [of "take 8 b"] by (simp add: min_absorb2)
  then show ?thesis
    using len by (simp add: PutUint64_def Uint64_def unat_of_nat be_bytes_be_nat min_absorb2 del: be_bytes_numeral)
qed

lemma Uint32_inverse: "length b = 4 \<Longrightarrow> PutUint32 (Uint32 b) = b"
proof -
  assume len: "length b = 4"
  then have "be_nat b < 2 ^ 32"
    using be_nat_less [of b] by simp
  then show ?thesis
    using len by (simp add: PutUint32_def Uint32_def unat_of_nat be_bytes_be_nat del: be_bytes_numeral)
qed

lemma header_split:
  assumes "length b = headerSize"
  shows "b ! 0 # PutUint64 (Uint64 (drop 1 b)) @ PutUint64 (Uint64 (drop 9 b)) @
    PutUint64 (Uint64 (drop 17 b)) = b"
proof -
  have step: "take 8 (drop k b) @ drop (k + 8) b = drop k b" for k
    by (metis append_take_drop_id drop_drop add.commute)
  have "b ! 0 # drop 1 b = b"
    using assms Cons_nth_drop_Suc [of 0 b] by (simp add: headerSize_def)
  moreover have "take 8 (drop 17 b) = drop 17 b"
    using assms by (simp add: headerSize_def)
  ultimately show ?thesis
    using assms step [of 1] step [of 9] by (simp add: Uint64_inverse headerSize_def)
qed

lemma readFrame_sound:
  assumes "readFrame r = Inr (f, r')"
  shows "valid_frame f \<and> r = frame_header f @ f_data f @ r'"
proof -
  from assms obtain h r1 b r2 d where
    h: "r = h @ r1" "length h = 4" and b: "r1 = b @ r2" "length b = headerSize" and
    d: "r2 = d @ r'" "length d = unat (Uint32 h) - headerSize" and
    lo: "\<not> Uint32 h < word_of_nat headerSize" and hi: "\<not> Uint32 h > word_of_nat (headerSize + maxPayload)" and
    kind: "\<not> b ! 0 < frameOpen" "\<not> b ! 0 > frameClosed" and
    f: "f = \<lparr>f_kind = b ! 0, f_flow = Uint64 (drop 1 b), f_offset = Uint64 (drop 9 b),
             f_value = Uint64 (drop 17 b), f_data = d\<rparr>"
    by (auto simp: readFrame_def Let_def io_ReadFull_Inr split: if_splits)
  have "headerSize \<le> unat (Uint32 h)" "unat (Uint32 h) \<le> headerSize + maxPayload"
    using lo hi by (simp_all add: word_less_nat_alt frame_size_word frame_size_word [of 0, simplified]
        del: of_nat_add)
  then have len: "headerSize + length d = unat (Uint32 h)" "length d \<le> maxPayload"
    using d(2) by simp_all
  have "PutUint32 (word_of_nat (headerSize + length d)) = h"
    unfolding len using h(2) by (simp add: Uint32_inverse)
  then show ?thesis
    using f h b d kind len header_split [OF b(2)]
    by (auto simp: valid_frame_def frame_header_def not_less)
qed

section \<open>The contract of a record format\<close>

text \<open>
  What the carriers' read loop relies on: a well-formed record that was written is read back
  whole, whatever follows it, and whatever is read is a well-formed record that was written.
\<close>

locale stream_codec =
  fixes enc :: "'a \<Rightarrow> bytes"
    and dec :: "bytes \<Rightarrow> ('a \<times> bytes) result"
    and ok :: "'a \<Rightarrow> bool"
  assumes dec_enc: "ok x \<Longrightarrow> dec (enc x @ r) = Inr (x, r)"
    and dec_sound: "dec r = Inr (x, r') \<Longrightarrow> ok x \<and> r = enc x @ r'"
    and enc_nonempty: "ok x \<Longrightarrow> enc x \<noteq> []"
begin

lemma enc_prefix_free: "ok x \<Longrightarrow> ok y \<Longrightarrow> enc x @ r = enc y @ s \<Longrightarrow> x = y \<and> r = s"
  by (metis dec_enc prod.inject sum.inject(2))

lemma dec_shrinks: "dec r = Inr (x, r') \<Longrightarrow> length r' < length r"
  using dec_sound [of r x r'] enc_nonempty [of x] by (cases "enc x") auto

end

text \<open>
  The loop of \<^verbatim>\<open>carrier.readLoop\<close>: records are read until the first error, which ends the loop.
  The fuel bounds the number of rounds; a round takes at least one byte, so one more than the
  number of bytes is enough (\<open>stream_codec.read_loop_ends\<close> below).
\<close>

fun read_loop :: "(bytes \<Rightarrow> ('a \<times> bytes) result) \<Rightarrow> nat \<Rightarrow> bytes \<Rightarrow> 'a list \<times> go_error option" where
  "read_loop dec 0 r = ([], None)"
| "read_loop dec (Suc fuel) r =
     (case dec r of
        Inl e \<Rightarrow> ([], Some e)
      | Inr (x, r') \<Rightarrow> (case read_loop dec fuel r' of (xs, e) \<Rightarrow> (x # xs, e)))"

context stream_codec begin

lemma read_loop_ends: "length r < fuel \<Longrightarrow> \<exists>xs e. read_loop dec fuel r = (xs, Some e)"
proof (induction fuel arbitrary: r)
  case 0
  then show ?case by simp
next
  case (Suc fuel)
  show ?case
  proof (cases "dec r")
    case (Inr p)
    then obtain x r' where r': "dec r = Inr (x, r')" by (cases p) auto
    from dec_shrinks [OF r'] Suc.prems have "length r' < fuel" by simp
    then obtain xs e where "read_loop dec fuel r' = (xs, Some e)" using Suc.IH by blast
    with r' show ?thesis by simp
  qed simp
qed

lemma read_loop_written:
  assumes "\<And>x. x \<in> set xs \<Longrightarrow> ok x" and "dec r = Inl e" and "length xs < fuel"
  shows "read_loop dec fuel (concat (map enc xs) @ r) = (xs, Some e)"
  using assms
proof (induction xs arbitrary: fuel)
  case Nil
  then show ?case by (cases fuel) auto
next
  case (Cons x xs)
  then obtain fuel' where fuel': "fuel = Suc fuel'" "length xs < fuel'"
    by (cases fuel) auto
  have "read_loop dec fuel' (concat (map enc xs) @ r) = (xs, Some e)"
    using Cons fuel'(2) by simp
  then show ?case
    using Cons.prems(1) [of x] fuel'(1) by (simp add: dec_enc)
qed

end

context stream_codec begin

lemma dec_torn:
  assumes "ok x" and "k < length (enc x)"
  shows "\<exists>e. dec (take k (enc x)) = Inl e"
proof (cases "dec (take k (enc x))")
  case (Inr p)
  then obtain y r' where y: "ok y" "take k (enc x) = enc y @ r'"
    using dec_sound by (cases p) blast
  then have "enc x @ [] = enc y @ r' @ drop k (enc x)"
    by (metis append_assoc append_Nil2 append_take_drop_id)
  with assms(1) y(1) have "[] = r' @ drop k (enc x)"
    using enc_prefix_free by blast
  with assms(2) show ?thesis by simp
qed simp

end

interpretation frame_codec: stream_codec "\<lambda>f. frame_header f @ f_data f" readFrame valid_frame
proof unfold_locales
  fix f r assume "valid_frame f"
  then show "readFrame ((frame_header f @ f_data f) @ r) = Inr (f, r)"
    using readFrame_frame by simp
next
  fix r f r' assume "readFrame r = Inr (f, r')"
  then show "valid_frame f \<and> r = (frame_header f @ f_data f) @ r'"
    using readFrame_sound by fastforce
next
  fix f show "frame_header f @ f_data f \<noteq> []"
    by (simp add: frame_header_def)
qed

definition readLoop :: "bytes \<Rightarrow> frame list \<times> go_error option" where
  "readLoop r = read_loop readFrame (Suc (length r)) r"

section \<open>Handshake records\<close>

text \<open>
  \<^verbatim>\<open>writeJSON\<close> and \<^verbatim>\<open>readJSON\<close>. The JSON rendering of the value (\<^verbatim>\<open>encoding/json\<close>) is the
  argument \<open>marshal\<close>/\<open>unmarshal\<close>; the framing and its limits are the program's.
\<close>

definition writeJSON :: "('v \<Rightarrow> bytes result) \<Rightarrow> 'w writer \<Rightarrow> 'w \<Rightarrow> 'v \<Rightarrow> go_error option \<times> 'w" where
  "writeJSON marshal wr w v =
     (case marshal v of
        Inl e \<Rightarrow> (Some e, w)
      | Inr b \<Rightarrow>
          if length b > 4096 then (Some (Error_New ''handshake too large''), w)
          else case writeAll wr w (PutUint32 (word_of_nat (length b))) of
            (Some e, w') \<Rightarrow> (Some e, w')
          | (None, w') \<Rightarrow> writeAll wr w' b)"

definition readRecord :: "bytes \<Rightarrow> (bytes \<times> bytes) result" where
  "readRecord r =
     bind_result (io_ReadFull r 4) (\<lambda>(h, r1).
       let n = Uint32 h in
       if n = 0 \<or> n > 4096 then Inl (Error_New ''invalid handshake size'')
       else io_ReadFull r1 (unat n))"

definition readJSON :: "(bytes \<Rightarrow> 'v result) \<Rightarrow> bytes \<Rightarrow> ('v \<times> bytes) result" where
  "readJSON unmarshal r =
     bind_result (readRecord r) (\<lambda>(b, r'). bind_result (unmarshal b) (\<lambda>v. Inr (v, r')))"

definition record_bytes :: "bytes \<Rightarrow> bytes" where
  "record_bytes b = PutUint32 (word_of_nat (length b)) @ b"

definition valid_record :: "bytes \<Rightarrow> bool" where
  "valid_record b \<longleftrightarrow> b \<noteq> [] \<and> length b \<le> 4096"

lemma record_size_word: "k \<le> 4096 \<Longrightarrow> unat (word_of_nat k :: uint32) = k"
  by (simp add: unat_of_nat)

interpretation record_codec: stream_codec record_bytes readRecord valid_record
proof unfold_locales
  fix b r assume b: "valid_record b"
  define n :: uint32 where "n = word_of_nat (length b)"
  have n: "unat n = length b"
    using b by (simp add: n_def record_size_word valid_record_def)
  have "n \<noteq> 0" "\<not> n > 4096"
    using b n by (auto simp: valid_record_def word_less_nat_alt)
  then show "readRecord (record_bytes b @ r) = Inr (b, r)"
    using n Uint32_PutUint32 [of n "[]"]
    by (simp add: readRecord_def record_bytes_def n_def [symmetric] Let_def)
next
  fix r b r' assume "readRecord r = Inr (b, r')"
  then obtain h where h: "r = h @ b @ r'" "length h = 4" "Uint32 h \<noteq> 0" "\<not> Uint32 h > 4096"
    "length b = unat (Uint32 h)"
    by (auto simp: readRecord_def Let_def io_ReadFull_Inr split: if_splits)
  have "PutUint32 (word_of_nat (length b)) = h"
    using h by (simp add: Uint32_inverse)
  moreover have "unat (Uint32 h) \<noteq> 0" "unat (Uint32 h) \<le> 4096"
    using h(3,4) by (simp_all add: word_less_nat_alt unat_eq_0)
  ultimately show "valid_record b \<and> r = record_bytes b @ r'"
    using h(1,5) by (auto simp: valid_record_def record_bytes_def)
next
  fix b show "record_bytes b \<noteq> []" if "valid_record b"
    using that by (simp add: valid_record_def record_bytes_def)
qed

section \<open>Properties\<close>

text \<open>A writer that accepts everything, the instance at which the hypotheses are discharged.\<close>

definition buffer_writer :: "bytes writer" where
  "buffer_writer w b = (length b, None, w @ b)"

lemma buffer_writer_contract: "writer_contract buffer_writer (\<lambda>w. w)"
  by (simp add: writer_contract_def buffer_writer_def)

lemma writeAll_buffer: "writeAll buffer_writer w b = (None, w @ b)"
  by (cases "b = []") (simp_all add: writeAll.simps [of buffer_writer] buffer_writer_def)

text \<open>
  A frame that \<^verbatim>\<open>writeFrame\<close> reports as written has put bytes on the connection from which
  \<^verbatim>\<open>readFrame\<close> returns exactly that frame and leaves whatever follows untouched.
\<close>

theorem frame_written_read_back:
  assumes "writer_contract wr sent"
    and "writeFrame wr w f = (None, w')"
    and "frameOpen \<le> f_kind f" "f_kind f \<le> frameClosed"
  shows "\<exists>bs. sent w' = sent w @ bs \<and> (\<forall>r. readFrame (bs @ r) = Inr (f, r))"
proof -
  from assms(2) obtain w1 where
    len: "length (f_data f) \<le> maxPayload" and
    w1: "writeAll wr w (frame_header f) = (None, w1)" "writeAll wr w1 (f_data f) = (None, w')"
    by (auto simp: writeFrame_def split: if_splits prod.splits option.splits)
  have "sent w' = sent w @ frame_header f @ f_data f"
    using writeAll_sent_all [OF assms(1)] w1 by simp
  moreover have "valid_frame f"
    using assms(3,4) len by (simp add: valid_frame_def)
  ultimately show ?thesis
    using frame_codec.dec_enc by fastforce
qed

theorem frame_written_read_back_witness:
  "\<exists>bs. frame_header (empty_frame\<lparr>f_kind := framePing\<rparr>) = [] @ bs \<and>
     (\<forall>r. readFrame (bs @ r) = Inr (empty_frame\<lparr>f_kind := framePing\<rparr>, r))"
proof -
  let ?f = "empty_frame\<lparr>f_kind := framePing\<rparr>"
  have "writeFrame buffer_writer [] ?f = (None, frame_header ?f)"
    by (simp add: writeFrame_def writeAll_buffer empty_frame_def)
  then show ?thesis
    using frame_written_read_back [OF buffer_writer_contract, of "[]" ?f "frame_header ?f"]
    by (simp add: empty_frame_def frame_kind_defs)
qed

text \<open>
  C16: the read loop of a carrier hands over exactly the frames that were sent, in order, and
  then stops with an error, even when the connection breaks in the middle of a further frame:
  a torn frame is never delivered.
\<close>

theorem readLoop_delivers_sent_frames:
  assumes "\<forall>f \<in> set fs. valid_frame f" and "valid_frame g"
    and "k < length (frame_header g @ f_data g)"
  shows "\<exists>e. readLoop (concat (map (\<lambda>f. frame_header f @ f_data f) fs)
            @ take k (frame_header g @ f_data g)) = (fs, Some e)"
proof -
  let ?enc = "\<lambda>f. frame_header f @ f_data f"
  let ?r = "concat (map ?enc fs) @ take k (?enc g)"
  obtain e where e: "readFrame (take k (?enc g)) = Inl e"
    using frame_codec.dec_torn [OF assms(2,3)] by blast
  have "length fs \<le> length (concat (map ?enc fs))"
    by (induction fs) (simp_all add: headerSize_def)
  then have "length fs < Suc (length ?r)"
    by simp
  then have "read_loop readFrame (Suc (length ?r)) ?r = (fs, Some e)"
    using assms(1) by (intro frame_codec.read_loop_written e) auto
  then show ?thesis
    unfolding readLoop_def by blast
qed

theorem readLoop_delivers_sent_frames_witness:
  "\<exists>e. readLoop (concat (map (\<lambda>f. frame_header f @ f_data f) [empty_frame\<lparr>f_kind := framePing\<rparr>])
      @ take 3 (frame_header (empty_frame\<lparr>f_kind := framePong\<rparr>) @ []))
    = ([empty_frame\<lparr>f_kind := framePing\<rparr>], Some e)"
  using readLoop_delivers_sent_frames
    [of "[empty_frame\<lparr>f_kind := framePing\<rparr>]" "empty_frame\<lparr>f_kind := framePong\<rparr>" 3]
  by (simp add: valid_frame_def empty_frame_def frame_kind_defs)

text \<open>
  A handshake value that \<^verbatim>\<open>writeJSON\<close> reports as sent is the value \<^verbatim>\<open>readJSON\<close> returns, given
  that JSON decoding inverts JSON encoding on that value and that an encoding is not empty.
\<close>

theorem handshake_roundtrip:
  assumes "writer_contract wr sent"
    and "writeJSON marshal wr w v = (None, w')"
    and json_inverse: "\<And>b. marshal v = Inr b \<Longrightarrow> unmarshal b = Inr v"
    and json_nonempty: "marshal v \<noteq> Inr []"
  shows "\<exists>bs. sent w' = sent w @ bs \<and> (\<forall>r. readJSON unmarshal (bs @ r) = Inr (v, r))"
proof -
  from assms(2) obtain b w1 where
    b: "marshal v = Inr b" "length b \<le> 4096" and
    w1: "writeAll wr w (PutUint32 (word_of_nat (length b))) = (None, w1)" "writeAll wr w1 b = (None, w')"
    by (auto simp: writeJSON_def split: if_splits prod.splits option.splits sum.splits)
  have "sent w' = sent w @ record_bytes b"
    using writeAll_sent_all [OF assms(1)] w1 by (simp add: record_bytes_def)
  moreover have "valid_record b"
    using b json_nonempty by (auto simp: valid_record_def)
  ultimately show ?thesis
    using record_codec.dec_enc json_inverse [OF b(1)] by (fastforce simp: readJSON_def)
qed

theorem handshake_roundtrip_witness:
  "\<exists>bs. [0, 0, 0, 2, 123, 125] = ([] :: bytes) @ bs \<and> (\<forall>r. readJSON Inr (bs @ r) = Inr ([123, 125], r))"
proof -
  have "writeJSON Inr buffer_writer [] [123, 125] = (None, [0, 0, 0, 2, 123, 125])"
    by (simp add: writeJSON_def writeAll_buffer PutUint32_def)
  then show ?thesis
    using handshake_roundtrip [OF buffer_writer_contract, of Inr "[]" "[123, 125]"
        "[0, 0, 0, 2, 123, 125]" Inr]
    by simp
qed

end
