(* ===== verification/Datagram_Window.thy ===== *)
theory Datagram_Window
  imports Go_Prelude
begin

unbundle bit_operations_syntax

text \<open>
  The sliding bitmap \<^verbatim>\<open>datagramWindow\<close> of \<^verbatim>\<open>internal/continuity/peer.go\<close>, which tells datagrams
  and flow numbers that were already accepted from new ones in constant space. Its contract, the
  locale \<open>dedup_window\<close>, relates the bitmap to the set of accepted numbers; the bitmap's
  \<^verbatim>\<open>contains\<close> and \<^verbatim>\<open>add\<close> interpret it.
\<close>

section \<open>The bitmap\<close>

text \<open>The 64 words of the bitmap are a list of length 64 (\<open>window_ok\<close>).\<close>

record datagramWindow =
  w_high :: uint64
  w_bits :: "uint64 list"

definition new_window :: datagramWindow where
  "new_window = \<lparr>w_high = 0, w_bits = replicate 64 0\<rparr>"

definition slot :: "uint64 \<Rightarrow> nat" where
  "slot n = unat ((n mod 4096) div 64)"

definition bit_mask :: "uint64 \<Rightarrow> uint64" where
  "bit_mask n = push_bit (unat (n mod 64)) 1"

definition contains :: "datagramWindow \<Rightarrow> uint64 \<Rightarrow> bool" where
  "contains w n =
     (if n = 0 then True
      else if w_high w \<ge> n \<and> w_high w - n \<ge> 4096 then True
      else n \<le> w_high w \<and> (w_bits w ! slot n) AND bit_mask n \<noteq> 0)"

text \<open>The loop of \<^verbatim>\<open>add\<close>: the bits of the numbers \<open>k\<close> to \<open>n\<close> are cleared.\<close>

function clear_bits :: "uint64 list \<Rightarrow> uint64 \<Rightarrow> uint64 \<Rightarrow> uint64 list" where
  "clear_bits bits k n =
     (let bits' = bits[slot k := (bits ! slot k) AND NOT (bit_mask k)]
      in if k = n then bits' else clear_bits bits' (k + 1) n)"
  by pat_completeness auto
termination
proof (relation "measure (\<lambda>(bits, k, n). unat (n - k))", goal_cases)
  case (2 bits k n x)
  then have "n - k \<noteq> 0" by simp
  then have "unat (n - k - 1) < unat (n - k)"
    by (simp add: unat_minus_one unat_gt_0)
  then show ?case by (simp add: diff_diff_eq)
qed simp

declare clear_bits.simps [simp del]

definition add :: "datagramWindow \<Rightarrow> uint64 \<Rightarrow> datagramWindow" where
  "add w n =
     (let w' = (if n > w_high w
                then (if n - w_high w \<ge> 4096 then w\<lparr>w_bits := replicate 64 0\<rparr>
                      else w\<lparr>w_bits := clear_bits (w_bits w) (w_high w + 1) n\<rparr>)\<lparr>w_high := n\<rparr>
                else w)
      in w'\<lparr>w_bits := (w_bits w')[slot n := (w_bits w' ! slot n) OR bit_mask n]\<rparr>)"

section \<open>The contract\<close>

text \<open>
  \<open>rel w S\<close>: the window \<open>w\<close> stands for the set \<open>S\<close> of accepted numbers. Nothing accepted is
  accepted again, and accepting a number records it.
\<close>

locale dedup_window =
  fixes has :: "'w \<Rightarrow> 'n \<Rightarrow> bool"
    and put :: "'w \<Rightarrow> 'n \<Rightarrow> 'w"
    and rel :: "'w \<Rightarrow> 'n set \<Rightarrow> bool"
  assumes has_member: "rel w S \<Longrightarrow> n \<in> S \<Longrightarrow> has w n"
    and rel_put: "rel w S \<Longrightarrow> \<not> has w n \<Longrightarrow> rel (put w n) (insert n S)"

text \<open>The client: of a sequence of arriving numbers, those that are let through.\<close>

fun accepted :: "('w \<Rightarrow> 'n \<Rightarrow> bool) \<Rightarrow> ('w \<Rightarrow> 'n \<Rightarrow> 'w) \<Rightarrow> 'w \<Rightarrow> 'n list \<Rightarrow> 'n list" where
  "accepted has put w [] = []"
| "accepted has put w (n # ns) =
     (if has w n then accepted has put w ns else n # accepted has put (put w n) ns)"

context dedup_window begin

lemma accepted_fresh: "rel w S \<Longrightarrow> set (accepted has put w ns) \<inter> S = {}"
proof (induction ns arbitrary: w S)
  case Nil
  then show ?case by simp
next
  case (Cons n ns)
  show ?case
  proof (cases "has w n")
    case True
    with Cons show ?thesis by simp
  next
    case False
    with Cons.prems have "rel (put w n) (insert n S)" by (rule rel_put)
    from Cons.IH [OF this] False has_member [OF Cons.prems] show ?thesis by auto
  qed
qed

lemma accepted_distinct: "rel w S \<Longrightarrow> distinct (accepted has put w ns)"
proof (induction ns arbitrary: w S)
  case Nil
  then show ?case by simp
next
  case (Cons n ns)
  show ?case
  proof (cases "has w n")
    case True
    with Cons show ?thesis by simp
  next
    case False
    with Cons.prems have r: "rel (put w n) (insert n S)" by (rule rel_put)
    from Cons.IH [OF r] accepted_fresh [OF r, of ns] False show ?thesis by simp
  qed
qed

end

section \<open>The bitmap meets the contract\<close>

text \<open>Whether the bit of a number is set, over natural numbers.\<close>

definition wbit :: "uint64 list \<Rightarrow> nat \<Rightarrow> bool" where
  "wbit bits m = bit (bits ! ((m mod 4096) div 64)) (m mod 64)"

definition window_rel :: "datagramWindow \<Rightarrow> uint64 set \<Rightarrow> bool" where
  "window_rel w S \<longleftrightarrow>
     length (w_bits w) = 64 \<and> (\<forall>m \<in> S. m \<le> w_high w) \<and>
     (\<forall>m. m \<le> w_high w \<longrightarrow> unat (w_high w) < unat m + 4096 \<longrightarrow> (wbit (w_bits w) (unat m) \<longleftrightarrow> m \<in> S))"

lemma slot_nat: "slot n = (unat n mod 4096) div 64"
  by (simp add: slot_def unat_div unat_mod)

lemma slot_less [simp]: "slot n < 64"
  by (simp add: slot_nat less_mult_imp_div_less)

lemma bit_bit_mask: "bit (bit_mask n) i \<longleftrightarrow> i = unat n mod 64"
proof -
  have "unat (n mod 64) < 64" by (simp add: unat_mod)
  then show ?thesis
    by (auto simp: bit_mask_def bit_exp_iff unat_mod)
qed

lemma bit_mask_neq_0 [simp]: "bit_mask n \<noteq> 0"
  using bit_bit_mask [of n "unat n mod 64"] by auto

lemma mask_test: "x AND bit_mask n \<noteq> 0 \<longleftrightarrow> bit x (unat n mod 64)"
proof -
  have "x AND bit_mask n \<noteq> 0 \<longleftrightarrow> (\<exists>i. bit (x AND bit_mask n) i)"
    by (metis bit_eq_iff bit_0_eq bot_apply bot_bool_def)
  then show ?thesis by (auto simp: bit_and_iff bit_bit_mask)
qed

lemma same_place:
  "a mod 4096 = b mod (4096 :: nat) \<longleftrightarrow> a mod 4096 div 64 = b mod 4096 div 64 \<and> a mod 64 = b mod 64"
proof -
  have split: "x mod 4096 = 64 * (x mod 4096 div 64) + x mod 64" for x :: nat
    using mult_div_mod_eq [of 64 "x mod 4096"] mod_mod_cancel [of 64 4096 x] by simp
  have "a mod 64 = b mod 64" if "a mod 4096 = b mod 4096"
    using that mod_mod_cancel [of 64 4096 a] mod_mod_cancel [of 64 4096 b] by simp
  with split [of a] split [of b] show ?thesis by auto
qed

lemma window_cong: "a \<le> b \<Longrightarrow> b < a + 4096 \<Longrightarrow> a mod 4096 = b mod (4096 :: nat) \<longleftrightarrow> a = b"
proof
  assume le: "a \<le> b" and less: "b < a + 4096" and eq: "a mod 4096 = b mod 4096"
  then have "4096 dvd b - a"
    by (metis mod_eq_dvd_iff_nat)
  moreover have "b - a < 4096" using le less by simp
  ultimately have "b - a = 0" by (metis dvd_imp_le leD not_gr_zero)
  with le show "a = b" by simp
qed simp

lemma wbit_set:
  assumes "length bits = 64"
  shows "wbit (bits[slot n := (bits ! slot n) OR bit_mask n]) m \<longleftrightarrow>
    m mod 4096 = unat n mod 4096 \<or> wbit bits m"
  using assms by (auto simp: wbit_def slot_nat nth_list_update bit_or_iff bit_bit_mask same_place
      less_mult_imp_div_less)

lemma wbit_clear:
  assumes "length bits = 64"
  shows "wbit (bits[slot n := (bits ! slot n) AND NOT (bit_mask n)]) m \<longleftrightarrow>
    m mod 4096 \<noteq> unat n mod 4096 \<and> wbit bits m"
  using assms by (auto simp: wbit_def slot_nat nth_list_update bit_and_iff bit_not_iff bit_bit_mask
      same_place less_mult_imp_div_less)

lemma clear_bits_length [simp]: "length (clear_bits bits k n) = length bits"
proof (induction bits k n rule: clear_bits.induct)
  case (1 bits k n)
  then show ?case by (simp add: clear_bits.simps [of bits k n] Let_def)
qed

lemma wbit_clear_bits:
  "length bits = 64 \<Longrightarrow> k \<le> n \<Longrightarrow> wbit (clear_bits bits k n) m \<longleftrightarrow>
     wbit bits m \<and> (\<forall>x \<in> {unat k..unat n}. m mod 4096 \<noteq> x mod 4096)"
proof (induction bits k n rule: clear_bits.induct)
  case (1 bits k n)
  show ?case
  proof (cases "k = n")
    case True
    with "1.prems" show ?thesis
      by (auto simp: clear_bits.simps [of bits n n] wbit_clear)
  next
    case False
    with "1.prems" have less: "unat k < unat n"
      by (simp add: word_le_nat_alt unat_arith_simps)
    then have suc: "unat (k + 1) = Suc (unat k)"
      using unsigned_less [of n, where 'a = nat] by (simp add: unat_word_ariths)
    with less have le: "k + 1 \<le> n" by (simp add: word_le_nat_alt)
    have "{unat k..unat n} = insert (unat k) {Suc (unat k)..unat n}"
      using less by auto
    moreover have "clear_bits bits k n =
        clear_bits (bits[slot k := (bits ! slot k) AND NOT (bit_mask k)]) (k + 1) n"
      using False by (simp add: clear_bits.simps [of bits k n] Let_def)
    ultimately show ?thesis
      using "1.IH" [OF refl False _ le] "1.prems"(1) by (auto simp: suc wbit_clear)
  qed
qed

lemma window_rel_add:
  assumes "window_rel w S" and "\<not> contains w n"
  shows "window_rel (add w n) (insert n S)"
proof -
  let ?H = "unat (w_high w)" and ?N = "unat n"
  from assms(1) have len: "length (w_bits w) = 64"
    and below: "\<And>m. m \<in> S \<Longrightarrow> unat m \<le> ?H"
    and bits: "\<And>m. unat m \<le> ?H \<Longrightarrow> ?H < unat m + 4096 \<Longrightarrow> wbit (w_bits w) (unat m) \<longleftrightarrow> m \<in> S"
    by (auto simp: window_rel_def word_le_nat_alt)
  have eq: "unat m = ?N \<longleftrightarrow> m = n" for m :: uint64 by (simp add: word_unat_eq_iff)
  consider (jump) "?H + 4096 \<le> ?N" | (slide) "?H < ?N" "?N < ?H + 4096" | (old) "?N \<le> ?H" "?H < ?N + 4096"
    using assms(2) by (fastforce simp: contains_def word_le_nat_alt unat_sub_if' split: if_splits)
  then show ?thesis
  proof cases
    case jump
    then have "n > w_high w" "n - w_high w \<ge> 4096"
      by (simp_all add: word_less_nat_alt word_le_nat_alt unat_sub_if')
    then have w': "w_high (add w n) = n"
      "w_bits (add w n) = (replicate 64 0)[slot n := (replicate 64 0 ! slot n) OR bit_mask n]"
      by (simp_all add: add_def)
    have zero: "\<not> wbit (replicate 64 0) m" for m
      by (simp add: wbit_def less_mult_imp_div_less)
    have only_n: "wbit (w_bits (add w n)) m \<longleftrightarrow> m mod 4096 = ?N mod 4096" for m
      unfolding w'(2) by (subst wbit_set) (simp_all add: zero)
    have "wbit (w_bits (add w n)) (unat m) \<longleftrightarrow> m \<in> insert n S"
      if m: "unat m \<le> ?N" "?N < unat m + 4096" for m
      using m jump below [of m] by (auto simp: only_n window_cong eq)
    then show ?thesis
      using jump below by (fastforce simp: window_rel_def word_le_nat_alt w')
  next
    case slide
    then have gt: "n > w_high w" "\<not> n - w_high w \<ge> 4096"
      by (simp_all add: word_less_nat_alt word_le_nat_alt unat_sub_if')
    let ?c = "clear_bits (w_bits w) (w_high w + 1) n"
    from gt have w': "w_high (add w n) = n" "w_bits (add w n) = ?c[slot n := (?c ! slot n) OR bit_mask n]"
      by (simp_all add: add_def)
    have suc: "unat (w_high w + 1) = Suc ?H"
      using slide unsigned_less [of n, where 'a = nat] by (simp add: unat_word_ariths)
    then have "w_high w + 1 \<le> n" using slide by (simp add: word_le_nat_alt)
    then have c: "wbit ?c m \<longleftrightarrow> wbit (w_bits w) m \<and> (\<forall>x \<in> {Suc ?H..?N}. m mod 4096 \<noteq> x mod 4096)" for m
      using len by (simp add: wbit_clear_bits suc)
    have "wbit (w_bits (add w n)) (unat m) \<longleftrightarrow> m \<in> insert n S"
      if m: "unat m \<le> ?N" "?N < unat m + 4096" for m
    proof (cases "unat m \<le> ?H")
      case True
      have "unat m mod 4096 \<noteq> x mod 4096" if "x \<in> {Suc ?H..?N}" for x
        using window_cong [of "unat m" x] that True m by auto
      with True m slide show ?thesis
        by (simp add: w' wbit_set len c bits window_cong eq)
    next
      case False
      then have "m \<notin> S" "unat m \<in> {Suc ?H..?N}" using below m by auto
      with m show ?thesis
        by (auto simp: w' wbit_set len c window_cong eq)
    qed
    then show ?thesis
      using below slide len by (fastforce simp: window_rel_def word_le_nat_alt w')
  next
    case old
    then have w': "w_high (add w n) = w_high w"
      "w_bits (add w n) = (w_bits w)[slot n := (w_bits w ! slot n) OR bit_mask n]"
      by (simp_all add: add_def word_less_nat_alt)
    have "wbit (w_bits (add w n)) (unat m) \<longleftrightarrow> m \<in> insert n S"
      if m: "unat m \<le> ?H" "?H < unat m + 4096" for m
      using m old bits [OF m] window_cong [of "unat m" ?N] window_cong [of ?N "unat m"] eq [of m]
      by (cases "unat m \<le> ?N") (auto simp: w' wbit_set len)
    then show ?thesis
      using below old len by (auto simp: window_rel_def word_le_nat_alt w')
  qed
qed

interpretation datagram: dedup_window contains add window_rel
proof unfold_locales
  fix w S n assume rel: "window_rel w S" "n \<in> S"
  then have "n \<le> w_high w" by (simp add: window_rel_def)
  with rel show "contains w n"
    by (auto simp: contains_def window_rel_def mask_test wbit_def slot_nat word_le_nat_alt unat_sub_if'
        not_le)
next
  fix w S n assume "window_rel w S" "\<not> contains w n"
  then show "window_rel (add w n) (insert n S)" by (rule window_rel_add)
qed

lemma window_rel_new: "window_rel new_window {}"
  by (auto simp: window_rel_def new_window_def wbit_def)

section \<open>Properties\<close>

text \<open>
  C17: of any sequence of arriving numbers (repeated, reordered, replayed over another path), the
  window lets each number through at most once.
\<close>

theorem window_accepts_at_most_once:
  "distinct (accepted contains add new_window ns)"
  by (rule datagram.accepted_distinct) (rule window_rel_new)

text \<open>
  The window over a history of arrivals: a number the window knows is dropped; of the others the
  client admits some (it may lack the memory for a datagram) and records those it admits.
\<close>

definition arrive :: "uint64 \<times> bool \<Rightarrow> datagramWindow \<Rightarrow> datagramWindow" where
  "arrive a w = (case a of (n, admit) \<Rightarrow> if contains w n \<or> \<not> admit then w else add w n)"

definition window_after :: "(uint64 \<times> bool) list \<Rightarrow> datagramWindow" where
  "window_after arrivals = fold arrive arrivals new_window"

definition admitted :: "(uint64 \<times> bool) list \<Rightarrow> uint64 set" where
  "admitted arrivals = {n. (n, True) \<in> set arrivals}"

lemma contains_exact:
  assumes "window_rel w S" and "n \<noteq> 0" and "unat (w_high w) < unat n + 4096"
  shows "contains w n \<longleftrightarrow> n \<in> S"
  using assms
  by (auto simp: contains_def window_rel_def mask_test wbit_def slot_nat word_le_nat_alt unat_sub_if')

lemma add_high: "w_high (add w n) = max (w_high w) n"
  by (auto simp: add_def Let_def max_def)

text \<open>
  The numbers recorded after a history are admitted arrivals, and every admitted arrival is
  recorded or has fallen out of the span.
\<close>

lemma window_after_rel:
  "\<exists>S. window_rel (window_after arrivals) S \<and> S \<subseteq> admitted arrivals \<and>
     (\<forall>n \<in> admitted arrivals. n = 0 \<or> n \<in> S \<or> unat n + 4096 \<le> unat (w_high (window_after arrivals)))"
proof (induction arrivals rule: rev_induct)
  case Nil
  show ?case using window_rel_new by (auto simp: window_after_def admitted_def)
next
  case (snoc a arrivals)
  obtain n ok where a: "a = (n, ok)" by (cases a)
  let ?w = "window_after arrivals"
  from snoc obtain S where S: "window_rel ?w S" "S \<subseteq> admitted arrivals"
    "\<forall>m \<in> admitted arrivals. m = 0 \<or> m \<in> S \<or> unat m + 4096 \<le> unat (w_high ?w)" by blast
  have w: "window_after (arrivals @ [a]) = (if contains ?w n \<or> \<not> ok then ?w else add ?w n)"
    by (simp add: window_after_def arrive_def a)
  have adm: "admitted (arrivals @ [a]) = (if ok then insert n (admitted arrivals) else admitted arrivals)"
    by (auto simp: admitted_def a)
  show ?case
  proof (cases "contains ?w n \<or> \<not> ok")
    case True
    have "n = 0 \<or> n \<in> S \<or> unat n + 4096 \<le> unat (w_high ?w)" if "contains ?w n"
      using that contains_exact [OF S(1)] by fastforce
    with S True show ?thesis unfolding w adm by auto
  next
    case False
    then have "window_rel (add ?w n) (insert n S)" using window_rel_add [OF S(1)] by simp
    moreover have "unat (w_high ?w) \<le> unat (w_high (add ?w n))"
      by (simp add: add_high word_le_nat_alt [symmetric])
    ultimately show ?thesis
      using S(2,3) False unfolding w adm
      by (intro exI [of _ "insert n S"]) (auto dest: order.trans)
  qed
qed

text \<open>
  C24: after any history of arrivals, a number that is not more than 4095 behind the highest
  recorded one is refused exactly when it was admitted before: within its span the bitmap neither
  forgets a number nor invents one (a slot that belonged to a number 4096 further back is cleared
  before it stands for a new one). Number zero is never admitted.
\<close>

theorem window_exact_within_span:
  assumes "n \<noteq> 0" and "unat (w_high (window_after arrivals)) < unat n + 4096"
  shows "contains (window_after arrivals) n \<longleftrightarrow> n \<in> admitted arrivals"
proof -
  obtain S where S: "window_rel (window_after arrivals) S" "S \<subseteq> admitted arrivals"
    "\<forall>m \<in> admitted arrivals. m = 0 \<or> m \<in> S \<or> unat m + 4096 \<le> unat (w_high (window_after arrivals))"
    using window_after_rel by blast
  from contains_exact [OF S(1) assms] S(2,3) assms show ?thesis by fastforce
qed

text \<open>The number 4099 has the slot of 3, which arrived before; 4100 has moved the window past both.\<close>

theorem window_exact_within_span_witness:
  "(contains (window_after [(3, True), (4100, True), (7, False)]) 4099 \<longleftrightarrow> (4099 :: uint64) \<in> {3, 4100}) \<and>
   (contains (window_after [(3, True), (4100, True), (7, False)]) 7 \<longleftrightarrow> (7 :: uint64) \<in> {3, 4100}) \<and>
   (contains (window_after [(3, True), (4100, True), (7, False)]) 4100 \<longleftrightarrow> (4100 :: uint64) \<in> {3, 4100})"
proof -
  let ?a = "[(3, True), (4100, True), (7, False)] :: (uint64 \<times> bool) list"
  have "admitted ?a = {3, 4100}" by (auto simp: admitted_def)
  moreover have "w_high (window_after ?a) \<le> 4100"
    by (simp add: window_after_def arrive_def add_high new_window_def)
  then have "unat (w_high (window_after ?a)) \<le> 4100"
    by (simp add: word_le_nat_alt)
  ultimately show ?thesis
    using window_exact_within_span [of 4099 ?a] window_exact_within_span [of 7 ?a] window_exact_within_span [of 4100 ?a]
    by simp
qed

end
