(* ===== verification/Go_Float.thy ===== *)
theory Go_Float
  imports Go_Prelude "HOL-Library.Log_Nat"
begin

text \<open>
  Go's \<^verbatim>\<open>float64\<close>: finite values are rationals, every operation rounds its exact result to the
  nearest binary64 value (ties to even, gradual underflow, overflow to infinity), and infinities
  and NaN follow IEEE 754. The two zeros are not told apart, which no comparison of the program
  can see. Fused multiply-add, which Go permits a compiler to use, is not modelled.
\<close>

section \<open>Values and rounding\<close>

datatype f64 = F64 rat | F64_Inf bool | F64_NaN

text \<open>The rounding of a positive rational to a multiple of a power of two, ties to even.\<close>

definition round_half_even :: "rat \<Rightarrow> int" where
  "round_half_even x =
     (let n = \<lfloor>x\<rfloor>; r = x - of_int n in
      if r < 1 / 2 then n else if 1 / 2 < r then n + 1 else if even n then n else n + 1)"

text \<open>The binary exponent of a positive rational: \<open>2 ^ e \<le> x < 2 ^ (e + 1)\<close>.\<close>

definition exponent :: "rat \<Rightarrow> int" where
  "exponent x =
     (case quotient_of x of (n, d) \<Rightarrow>
       let e = bitlen n - bitlen d in if 2 powi e \<le> x then e else e - 1)"

definition quantum :: "rat \<Rightarrow> int" where
  "quantum x = max (exponent x - 52) (- 1074)"

definition rnd :: "rat \<Rightarrow> rat" where
  "rnd x = (if x = 0 then 0
     else let q = 2 powi quantum x in of_int (round_half_even (x / q)) * q)"

definition round64 :: "rat \<Rightarrow> f64" where
  "round64 x =
     (let v = rnd \<bar>x\<bar> in if v \<ge> 2 ^ 1024 then F64_Inf (x < 0) else F64 (if x < 0 then - v else v))"

section \<open>Operations\<close>

fun f_add :: "f64 \<Rightarrow> f64 \<Rightarrow> f64" where
  "f_add (F64 a) (F64 b) = round64 (a + b)"
| "f_add F64_NaN _ = F64_NaN"
| "f_add _ F64_NaN = F64_NaN"
| "f_add (F64_Inf s) (F64_Inf t) = (if s = t then F64_Inf s else F64_NaN)"
| "f_add (F64_Inf s) _ = F64_Inf s"
| "f_add _ (F64_Inf t) = F64_Inf t"

fun f_mul :: "f64 \<Rightarrow> f64 \<Rightarrow> f64" where
  "f_mul (F64 a) (F64 b) = round64 (a * b)"
| "f_mul F64_NaN _ = F64_NaN"
| "f_mul _ F64_NaN = F64_NaN"
| "f_mul (F64_Inf s) (F64_Inf t) = F64_Inf (s \<noteq> t)"
| "f_mul (F64_Inf s) (F64 b) = (if b = 0 then F64_NaN else F64_Inf (s \<noteq> (b < 0)))"
| "f_mul (F64 a) (F64_Inf t) = (if a = 0 then F64_NaN else F64_Inf (t \<noteq> (a < 0)))"

fun f_div :: "f64 \<Rightarrow> f64 \<Rightarrow> f64" where
  "f_div (F64 a) (F64 b) =
     (if b = 0 then (if a = 0 then F64_NaN else F64_Inf (a < 0)) else round64 (a / b))"
| "f_div F64_NaN _ = F64_NaN"
| "f_div _ F64_NaN = F64_NaN"
| "f_div (F64_Inf s) (F64_Inf t) = F64_NaN"
| "f_div (F64_Inf s) (F64 b) = F64_Inf (s \<noteq> (b < 0))"
| "f_div (F64 a) (F64_Inf t) = F64 0"

fun f_less :: "f64 \<Rightarrow> f64 \<Rightarrow> bool" where
  "f_less (F64 a) (F64 b) = (a < b)"
| "f_less F64_NaN _ = False"
| "f_less _ F64_NaN = False"
| "f_less (F64_Inf s) (F64_Inf t) = (s \<and> \<not> t)"
| "f_less (F64_Inf s) (F64 b) = s"
| "f_less (F64 a) (F64_Inf t) = (\<not> t)"

definition f_of_int :: "int \<Rightarrow> f64" where
  "f_of_int n = round64 (of_int n)"

text \<open>\<^verbatim>\<open>finite\<close> of \<^verbatim>\<open>internal/selection/selector.go\<close>: neither NaN nor an infinity.\<close>

fun finite_f64 :: "f64 \<Rightarrow> bool" where
  "finite_f64 (F64 _) = True"
| "finite_f64 _ = False"

lemma finite_f64_iff: "finite_f64 v \<longleftrightarrow> (\<exists>q. v = F64 q)"
  by (cases v) auto

section \<open>Rounding is monotone\<close>

lemma powi2_pos [simp]: "0 < (2 :: rat) powi k"
  by (simp add: zero_less_power_int)

lemma powi2_mono: "j \<le> k \<Longrightarrow> (2 :: rat) powi j \<le> 2 powi k"
  by (rule power_int_increasing) auto

lemma bitlen_powi:
  assumes "0 < k"
  shows "of_int k < (2 :: rat) powi bitlen k" "2 powi (bitlen k - 1) \<le> (of_int k :: rat)"
proof -
  have "1 \<le> bitlen k" using assms bitlen_nonneg [of k] bitlen_eq_zero_iff [of k] by linarith
  then have "(2 :: rat) powi bitlen k = of_int (2 ^ nat (bitlen k))"
    "(2 :: rat) powi (bitlen k - 1) = of_int (2 ^ nat (bitlen k - 1))"
    by (simp_all add: power_int_nonneg_exp)
  with bitlen_bounds [OF assms] show "of_int k < (2 :: rat) powi bitlen k"
    "2 powi (bitlen k - 1) \<le> (of_int k :: rat)"
    by (simp_all only: of_int_less_iff of_int_le_iff)
qed

lemma exponent_bounds:
  assumes "0 < x"
  shows "2 powi exponent x \<le> x" "x < 2 powi (exponent x + 1)"
proof -
  obtain n d where nd: "quotient_of x = (n, d)" by (cases "quotient_of x")
  then have d: "0 < d" and x: "x = of_int n / of_int d"
    using quotient_of_denom_pos quotient_of_div by blast+
  with assms have n: "0 < n" by (simp add: zero_less_divide_iff)
  define e where "e = bitlen n - bitlen d"
  have "2 powi (e - 1) = (2 :: rat) powi (bitlen n - 1) / 2 powi bitlen d"
    by (simp add: e_def power_int_diff)
  also have "\<dots> \<le> x"
    unfolding x using bitlen_powi(2) [OF n] bitlen_powi(1) [OF d] n d
    by (intro frac_le) (auto simp: less_imp_le)
  finally have lo: "2 powi (e - 1) \<le> x" .
  have "x < 2 powi bitlen n / 2 powi (bitlen d - 1)"
    unfolding x using bitlen_powi(1) [OF n] bitlen_powi(2) [OF d] n d
    by (intro frac_less) auto
  also have "\<dots> = 2 powi (e + 1)"
    by (simp add: e_def power_int_diff power_int_add)
  finally have hi: "x < 2 powi (e + 1)" .
  have "exponent x = (if 2 powi e \<le> x then e else e - 1)"
    by (simp add: exponent_def nd e_def Let_def)
  with lo hi show "2 powi exponent x \<le> x" "x < 2 powi (exponent x + 1)"
    by (simp_all split: if_splits)
qed

lemma round_half_even_le: "x \<le> of_int k \<Longrightarrow> round_half_even x \<le> k"
proof -
  assume "x \<le> of_int k"
  then have "\<lfloor>x\<rfloor> \<le> k" using floor_mono [of x "of_int k"] by simp
  then consider "\<lfloor>x\<rfloor> = k" "x = of_int k" | "\<lfloor>x\<rfloor> + 1 \<le> k"
    using \<open>x \<le> of_int k\<close> of_int_floor_le [of x] by fastforce
  then show ?thesis
    by cases (auto simp: round_half_even_def Let_def)
qed

lemma round_half_even_ge: "of_int k \<le> x \<Longrightarrow> k \<le> round_half_even x"
  using le_floor_iff [of k x] by (auto simp: round_half_even_def Let_def)

lemma round_half_even_mono: "x \<le> y \<Longrightarrow> round_half_even x \<le> round_half_even y"
proof (cases "\<lfloor>x\<rfloor> = \<lfloor>y\<rfloor>")
  case True
  assume "x \<le> y"
  with True show ?thesis by (auto simp: round_half_even_def Let_def)
next
  case False
  assume "x \<le> y"
  with False have "\<lfloor>x\<rfloor> + 1 \<le> \<lfloor>y\<rfloor>" using floor_mono [of x y] by simp
  moreover have "round_half_even x \<le> \<lfloor>x\<rfloor> + 1" "\<lfloor>y\<rfloor> \<le> round_half_even y"
    by (auto simp: round_half_even_def Let_def)
  ultimately show ?thesis by simp
qed

lemma rnd_nonneg: "0 \<le> x \<Longrightarrow> 0 \<le> rnd x"
proof -
  assume "0 \<le> x"
  then have "0 \<le> round_half_even (x / 2 powi quantum x)"
    by (intro round_half_even_ge) (simp add: divide_nonneg_pos)
  then show ?thesis by (simp add: rnd_def Let_def)
qed

lemma powi_ratio: "q \<le> e \<Longrightarrow> (2 :: rat) powi e / 2 powi q = of_int (2 ^ nat (e - q))"
  by (simp add: power_int_diff [symmetric] power_int_nonneg_exp)

lemma rnd_le_powi: "0 < x \<Longrightarrow> x \<le> 2 powi e \<Longrightarrow> quantum x \<le> e \<Longrightarrow> rnd x \<le> 2 powi e"
proof -
  assume x: "0 < x" "x \<le> 2 powi e" "quantum x \<le> e"
  let ?q = "(2 :: rat) powi quantum x"
  have "x / ?q \<le> of_int (2 ^ nat (e - quantum x))"
    using x(2) powi_ratio [OF x(3)] by (metis divide_right_mono less_imp_le powi2_pos)
  then have "round_half_even (x / ?q) \<le> 2 ^ nat (e - quantum x)"
    by (rule round_half_even_le)
  then have "of_int (round_half_even (x / ?q)) \<le> (2 :: rat) powi e / ?q"
    unfolding powi_ratio [OF x(3)] by (simp only: of_int_le_iff)
  with x(1) show ?thesis
    by (simp add: rnd_def Let_def pos_le_divide_eq)
qed

lemma rnd_ge_powi: "2 powi e \<le> x \<Longrightarrow> quantum x \<le> e \<Longrightarrow> 2 powi e \<le> rnd x"
proof -
  assume x: "2 powi e \<le> x" "quantum x \<le> e"
  let ?q = "(2 :: rat) powi quantum x"
  have "of_int (2 ^ nat (e - quantum x)) \<le> x / ?q"
    using x(1) powi_ratio [OF x(2)] by (metis divide_right_mono less_imp_le powi2_pos)
  then have "2 ^ nat (e - quantum x) \<le> round_half_even (x / ?q)"
    by (rule round_half_even_ge)
  then have "(2 :: rat) powi e / ?q \<le> of_int (round_half_even (x / ?q))"
    unfolding powi_ratio [OF x(2)] by (simp only: of_int_le_iff)
  moreover have "0 < x" using x(1) powi2_pos [of e] by (rule less_le_trans [rotated])
  ultimately show ?thesis
    by (simp add: rnd_def Let_def pos_divide_le_eq)
qed

lemma rnd_mono:
  assumes "0 \<le> x" "x \<le> y"
  shows "rnd x \<le> rnd y"
proof (cases "x = 0")
  case True
  with assms show ?thesis by (simp add: rnd_def [of 0] rnd_nonneg)
next
  case False
  with assms have pos: "0 < x" "0 < y" by simp_all
  have "(2 :: rat) powi exponent x < 2 powi (exponent y + 1)"
    using exponent_bounds(1) [OF pos(1)] exponent_bounds(2) [OF pos(2)] assms(2) by linarith
  then have exp: "exponent x \<le> exponent y"
    using powi2_mono [of "exponent y + 1" "exponent x"] by linarith
  show ?thesis
  proof (cases "quantum x = quantum y")
    case True
    have "x / 2 powi quantum y \<le> y / 2 powi quantum y"
      using assms(2) by (simp add: divide_right_mono)
    then show ?thesis
      using True pos by (simp add: rnd_def Let_def round_half_even_mono)
  next
    case False
    with exp have q: "quantum x \<le> exponent y" "quantum y \<le> exponent y" "exponent x + 1 \<le> exponent y"
      by (auto simp: quantum_def split: if_splits)
    have "x \<le> 2 powi exponent y"
      using exponent_bounds(2) [OF pos(1)] powi2_mono [OF q(3)] by linarith
    then have "rnd x \<le> 2 powi exponent y"
      using pos(1) q(1) by (intro rnd_le_powi)
    also have "\<dots> \<le> rnd y"
      using exponent_bounds(1) [OF pos(2)] q(2) by (rule rnd_ge_powi)
    finally show ?thesis .
  qed
qed

section \<open>The unit interval\<close>

lemma round_half_even_near:
  "of_int k - 1 / 2 < x \<Longrightarrow> x < of_int k + 1 / 2 \<Longrightarrow> round_half_even x = k"
proof -
  assume lo: "of_int k - 1 / 2 < x" and hi: "x < of_int k + 1 / 2"
  then have "\<lfloor>x\<rfloor> = k \<or> \<lfloor>x\<rfloor> = k - 1 \<and> x < of_int k"
    by (auto simp: floor_eq_iff)
  then show ?thesis
    using lo hi by (auto simp: round_half_even_def Let_def)
qed

lemma exponent_eqI: "2 powi e \<le> x \<Longrightarrow> x < 2 powi (e + 1) \<Longrightarrow> exponent x = e"
proof -
  assume e: "2 powi e \<le> x" "x < 2 powi (e + 1)"
  have pos: "0 < x" using e(1) powi2_pos [of e] by linarith
  have "(2 :: rat) powi e < 2 powi (exponent x + 1)" "(2 :: rat) powi exponent x < 2 powi (e + 1)"
    using e exponent_bounds [OF pos] by linarith+
  then show ?thesis
    using powi2_mono [of "exponent x + 1" e] powi2_mono [of "e + 1" "exponent x"] by linarith
qed

lemma powi_neg: "(2 :: rat) powi (- numeral k) = 1 / 2 ^ numeral k"
  by (subst power_int_minus_divide) simp

lemma rnd_3_10: "rnd (3 / 10) = 5404319552844595 / 18014398509481984"
proof -
  have "exponent (3 / 10) = - 2"
    by (rule exponent_eqI) (simp_all add: powi_neg)
  moreover have "round_half_even (3 / 10 * 18014398509481984) = 5404319552844595"
    by (rule round_half_even_near) simp_all
  ultimately show ?thesis
    by (simp add: rnd_def quantum_def powi_neg)
qed

lemma rnd_3_10_fixed: "rnd (5404319552844595 / 18014398509481984) = 5404319552844595 / 18014398509481984"
proof -
  have "exponent (5404319552844595 / 18014398509481984) = - 2"
    by (rule exponent_eqI) (simp_all add: powi_neg)
  moreover have "round_half_even 5404319552844595 = 5404319552844595"
    by (rule round_half_even_near) simp_all
  ultimately show ?thesis
    by (simp add: rnd_def quantum_def powi_neg)
qed

lemma rnd_7_10: "rnd (7 / 10) = 3152519739159347 / 4503599627370496"
proof -
  have "exponent (7 / 10) = - 1"
    by (rule exponent_eqI) (simp_all add: powi_neg)
  moreover have "round_half_even (7 / 10 * 9007199254740992) = 6305039478318694"
    by (rule round_half_even_near) simp_all
  ultimately show ?thesis
    by (simp add: rnd_def quantum_def powi_neg)
qed

lemma rnd_7_10_fixed: "rnd (3152519739159347 / 4503599627370496) = 3152519739159347 / 4503599627370496"
proof -
  have "exponent (3152519739159347 / 4503599627370496) = - 1"
    by (rule exponent_eqI) (simp_all add: powi_neg)
  moreover have "round_half_even 6305039478318694 = 6305039478318694"
    by (rule round_half_even_near) simp_all
  ultimately show ?thesis
    by (simp add: rnd_def quantum_def powi_neg)
qed

lemma rnd_powi: "- 1022 \<le> e \<Longrightarrow> rnd (2 powi e) = 2 powi e"
proof -
  assume e: "- 1022 \<le> e"
  have "exponent (2 powi e) = e"
    by (rule exponent_eqI) (simp_all add: power_int_strict_increasing)
  then have "quantum (2 powi e) \<le> e" using e by (simp add: quantum_def)
  then show ?thesis
    using rnd_le_powi [of "2 powi e" e] rnd_ge_powi [of e "2 powi e"] by (simp add: antisym)
qed
lemma rnd_1 [simp]: "rnd 1 = 1"
  using rnd_powi [of 0] by simp

definition in_unit :: "f64 \<Rightarrow> bool" where
  "in_unit v \<longleftrightarrow> (\<exists>q. v = F64 q \<and> 0 \<le> q \<and> q \<le> 1)"

lemma round64_small: "0 \<le> x \<Longrightarrow> x \<le> 2 powi e \<Longrightarrow> - 1022 \<le> e \<Longrightarrow> e < 1024 \<Longrightarrow>
    round64 x = F64 (rnd x) \<and> 0 \<le> rnd x \<and> rnd x \<le> 2 powi e"
proof -
  assume x: "0 \<le> x" "x \<le> 2 powi e" "- 1022 \<le> e" "e < 1024"
  then have le: "rnd x \<le> 2 powi e"
    using rnd_mono [of x "2 powi e"] by (simp add: rnd_powi)
  moreover have "(2 :: rat) powi e < 2 powi 1024"
    using x(4) by (intro power_int_strict_increasing) auto
  ultimately have "rnd x < 2 ^ 1024"
    by (simp only: power_int_numeral)
  then show ?thesis
    using x(1) le rnd_nonneg [OF x(1)] by (simp add: round64_def not_le)
qed

lemma round64_unit: "0 \<le> x \<Longrightarrow> x \<le> 1 \<Longrightarrow> round64 x = F64 (rnd x) \<and> 0 \<le> rnd x \<and> rnd x \<le> 1"
  using round64_small [of x 0] by simp

lemma f_div_unit: "0 \<le> a \<Longrightarrow> a \<le> b \<Longrightarrow> 0 < b \<Longrightarrow> in_unit (f_div (F64 a) (F64 b))"
  using round64_unit [of "a / b"] by (simp add: in_unit_def)

lemma f_of_int_small: "0 \<le> n \<Longrightarrow> n < 2 ^ 63 \<Longrightarrow> f_of_int n = F64 (rnd (of_int n))"
proof -
  assume "0 \<le> n" "n < 2 ^ 63"
  then have "(of_int n :: rat) \<le> of_int (2 ^ 63)" by (simp only: of_int_le_iff)
  then show ?thesis
    using \<open>0 \<le> n\<close> round64_small [of "of_int n" 63] by (simp add: f_of_int_def)
qed

lemma ratio_unit:
  assumes "0 \<le> m" "m \<le> n" "0 < n" "n < 2 ^ 63"
  shows "in_unit (f_div (f_of_int m) (f_of_int n))"
proof -
  have "rnd 1 \<le> rnd (of_int n)" using assms by (intro rnd_mono) simp_all
  then have "0 < rnd (of_int n)" by simp
  then show ?thesis
    using assms rnd_mono [of "of_int m" "of_int n"] rnd_nonneg [of "of_int m"]
    by (simp add: f_of_int_small f_div_unit del: f_div.simps)
qed

text \<open>A convex combination with the weights 0.3 and 0.7 stays in the unit interval.\<close>

lemma weighted_unit:
  assumes "in_unit u" "in_unit v"
  shows "in_unit (f_add (f_mul (round64 (3 / 10)) u) (f_mul (round64 (7 / 10)) v))"
proof -
  from assms obtain p q where pq: "u = F64 p" "0 \<le> p" "p \<le> 1" "v = F64 q" "0 \<le> q" "q \<le> 1"
    by (auto simp: in_unit_def)
  let ?a = "rnd (3 / 10)" and ?b = "rnd (7 / 10)"
  have ab: "round64 (3 / 10) = F64 ?a" "round64 (7 / 10) = F64 ?b" "0 \<le> ?a" "0 \<le> ?b" "?a \<le> 1" "?b \<le> 1"
    using round64_unit [of "3 / 10"] round64_unit [of "7 / 10"] by simp_all
  have "?a * p \<le> ?a * 1" "?b * q \<le> ?b * 1"
    using pq ab by (intro mult_left_mono; simp)+
  then have "rnd (?a * p) \<le> rnd ?a" "rnd (?b * q) \<le> rnd ?b"
    using pq ab by (auto intro: rnd_mono)
  moreover have "rnd ?a = ?a" "rnd ?b = ?b" "?a + ?b \<le> 1"
    by (simp_all add: rnd_3_10 rnd_7_10 rnd_3_10_fixed rnd_7_10_fixed)
  ultimately have "0 \<le> rnd (?a * p) + rnd (?b * q)" "rnd (?a * p) + rnd (?b * q) \<le> 1"
    using pq ab by (auto intro!: add_nonneg_nonneg rnd_nonneg)
  then have "in_unit (round64 (rnd (?a * p) + rnd (?b * q)))"
    using round64_unit by (simp add: in_unit_def)
  moreover have "round64 (?a * p) = F64 (rnd (?a * p))" "round64 (?b * q) = F64 (rnd (?b * q))"
    using pq ab \<open>?a * p \<le> ?a * 1\<close> \<open>?b * q \<le> ?b * 1\<close> round64_unit [of "?a * p"] round64_unit [of "?b * q"]
    by simp_all
  ultimately show ?thesis
    by (simp add: pq ab)
qed

lemma round64_0_1 [simp]: "round64 0 = F64 0" "round64 1 = F64 1" "f_of_int 1 = F64 1"
  using round64_unit [of 0] round64_unit [of 1] by (simp_all add: rnd_def [of 0] f_of_int_def)

lemma round64_powi: "- 1022 \<le> e \<Longrightarrow> e < 1024 \<Longrightarrow> round64 (2 powi e) = F64 (2 powi e)"
  using round64_small [of "2 powi e" e] by (simp add: rnd_powi)

lemma round64_small_powers [simp]:
  "round64 2 = F64 2" "round64 4 = F64 4" "round64 (1 / 2) = F64 (1 / 2)" "round64 (1 / 4) = F64 (1 / 4)"
  using round64_powi [of 1] round64_powi [of 2] round64_powi [of "- 1"] round64_powi [of "- 2"]
  by (simp_all add: powi_neg power_int_minus_divide [of _ 1])

end
