(* ===== verification/Selection.thy ===== *)
theory Selection
  imports Go_Prelude Go_Float
begin

text \<open>
  The path selector, \<^verbatim>\<open>internal/selection/selector.go\<close>, with the data types it uses from
  \<^verbatim>\<open>internal/model/model.go\<close>. The selector's mutex makes every exported method one atomic step:
  each is a function from the selector's state to its new state (and result). The \<^verbatim>\<open>clone\<close>
  helpers of the source copy values, which the model's values are anyway. A reason that the
  source renders with \<^verbatim>\<open>fmt.Sprintf\<close> is kept as its format's arguments.
\<close>

section \<open>Data\<close>

record target =
  t_ID :: string
  t_URL :: string
  t_Required :: bool
  t_StatusCodes :: "int list"
  t_MaxBytes :: int

record source =
  s_ID :: string
  s_Name :: string
  s_Type :: string
  s_Enabled :: bool
  s_Auto :: bool

record policy =
  p_Mode :: string
  p_Pinned :: string
  p_Fallback :: string
  p_ImprovementPercent :: f64
  p_Confirmations :: int
  p_FailureConfirmations :: int
  p_RecoveryConfirmations :: int
  p_MinDwellSeconds :: int
  p_CooldownSeconds :: int
  p_StaleAfterSeconds :: int
  p_BreakExisting :: bool

record resource_result =
  r_TargetID :: string
  r_Required :: bool
  r_Success :: bool
  r_StatusCode :: int
  r_LatencyMS :: f64
  r_Bytes :: int
  r_SpeedBPS :: "f64 option"
  r_ErrorCode :: string

record measurement =
  m_SourceID :: string
  m_At :: gotime
  m_Path :: string
  m_Resources :: "resource_result list"
  m_PacketLoss :: "f64 option"

record source_health =
  h_SourceID :: string
  h_State :: string
  h_LastAt :: gotime
  h_SuccessRate :: f64
  h_LatencyMS :: f64
  h_SpeedBPS :: "f64 option"
  h_PacketLoss :: "f64 option"
  h_ConsecutiveFailures :: int
  h_ConsecutiveSuccesses :: int
  h_Resources :: "resource_result list"

datatype reason =
    Text string
  | Degraded int int
  | Confirming int int
  | Sustained f64 int

record decision =
  d_At :: gotime
  d_Previous :: string
  d_Selected :: string
  d_Changed :: bool
  d_State :: string
  d_Reason :: reason

record observation =
  o_health :: source_health
  o_history :: "measurement list"
  o_failedRequired :: int
  o_fullFailure :: bool
  o_needsRecovery :: bool
  o_speedAt :: gotime
  o_lossAt :: gotime

record selector =
  sel_policy :: policy
  sel_sources :: "(string, observation) gomap"
  sel_required :: "string list"
  sel_targetSignature :: string
  sel_historyLimit :: int
  sel_selected :: string
  sel_selectedAt :: gotime
  sel_lastSwitch :: gotime
  sel_candidate :: string
  sel_confirmations :: int
  sel_candidateAt :: gotime

section \<open>Configuration\<close>

definition safePolicy :: "policy \<Rightarrow> policy" where
  "safePolicy p =
     \<lparr>p_Mode = (if p_Mode p \<noteq> ''auto'' \<and> p_Mode p \<noteq> ''manual'' then ''off'' else p_Mode p),
      p_Pinned = p_Pinned p,
      p_Fallback = (if p_Fallback p \<noteq> ''direct'' then ''closed'' else p_Fallback p),
      p_ImprovementPercent =
        (if \<not> finite_f64 (p_ImprovementPercent p) \<or> f_less (p_ImprovementPercent p) (F64 1)
         then F64 20 else p_ImprovementPercent p),
      p_Confirmations = (if p_Confirmations p < 1 then 3 else p_Confirmations p),
      p_FailureConfirmations = (if p_FailureConfirmations p < 1 then 3 else p_FailureConfirmations p),
      p_RecoveryConfirmations = (if p_RecoveryConfirmations p < 1 then 3 else p_RecoveryConfirmations p),
      p_MinDwellSeconds = (if p_MinDwellSeconds p < 0 then 0 else p_MinDwellSeconds p),
      p_CooldownSeconds = (if p_CooldownSeconds p < 0 then 0 else p_CooldownSeconds p),
      p_StaleAfterSeconds = (if p_StaleAfterSeconds p < 1 then 90 else p_StaleAfterSeconds p),
      p_BreakExisting = p_BreakExisting p\<rparr>"

definition New :: "policy \<Rightarrow> selector" where
  "New p = \<lparr>sel_policy = safePolicy p, sel_sources = [], sel_required = [],
     sel_targetSignature = '''', sel_historyLimit = 32, sel_selected = '''', sel_selectedAt = 0,
     sel_lastSwitch = 0, sel_candidate = '''', sel_confirmations = 0, sel_candidateAt = 0\<rparr>"

definition clearCandidate :: "selector \<Rightarrow> selector" where
  "clearCandidate s = s\<lparr>sel_candidate := '''', sel_confirmations := 0, sel_candidateAt := 0\<rparr>"

definition Configure :: "selector \<Rightarrow> policy \<Rightarrow> selector" where
  "Configure s p = clearCandidate (s\<lparr>sel_policy := safePolicy p\<rparr>)"

text \<open>
  The signature of the targets is their JSON text; only its equality with the stored one is
  used, so the rendering is the argument \<open>marshal\<close>.
\<close>

definition SetTargets :: "(target list \<Rightarrow> string) \<Rightarrow> selector \<Rightarrow> target list \<Rightarrow> selector" where
  "SetTargets marshal s targets =
     (let next = remdups (map t_ID (filter t_Required targets));
          signature = marshal targets;
          s1 = (if signature \<noteq> sel_targetSignature s then clearCandidate (s\<lparr>sel_sources := []\<rparr>) else s)
      in s1\<lparr>sel_targetSignature := signature, sel_required := next\<rparr>)"

definition trim_history :: "int \<Rightarrow> measurement list \<Rightarrow> measurement list" where
  "trim_history limit hist =
     (if int (length hist) > limit then drop (length hist - nat limit) hist else hist)"

definition SetHistoryLimit :: "selector \<Rightarrow> int \<Rightarrow> selector" where
  "SetHistoryLimit s limit0 =
     (let limit1 = (if limit0 < 1 then 1 else limit0);
          limit = (if limit1 > 256 then 256 else limit1)
      in s\<lparr>sel_historyLimit := limit,
           sel_sources := map (\<lambda>(k, ob). (k, ob\<lparr>o_history := trim_history limit (o_history ob)\<rparr>)) (sel_sources s)\<rparr>)"

section \<open>Observations\<close>

definition smooth :: "f64 \<Rightarrow> f64 \<Rightarrow> bool \<Rightarrow> f64" where
  "smooth old next first =
     (if first then next else f_add (f_mul (round64 (3 / 10)) next) (f_mul (round64 (7 / 10)) old))"

text \<open>The loop over the resources of a measurement: every entry is well formed and new.\<close>

fun resources_ok :: "string list \<Rightarrow> resource_result list \<Rightarrow> bool" where
  "resources_ok seen [] = True"
| "resources_ok seen (r # rs) =
     (if r_TargetID r = '''' \<or> r_TargetID r \<in> set seen \<or> \<not> finite_f64 (r_LatencyMS r) \<or>
         f_less (r_LatencyMS r) (F64 0) \<or> r_Bytes r < 0 \<or>
         (case r_SpeedBPS r of None \<Rightarrow> False | Some v \<Rightarrow> \<not> finite_f64 v \<or> f_less v (F64 0))
      then False else resources_ok (r_TargetID r # seen) rs)"

definition loss_ok :: "f64 option \<Rightarrow> bool" where
  "loss_ok l = (case l of None \<Rightarrow> True
     | Some v \<Rightarrow> \<not> (\<not> finite_f64 v \<or> f_less v (F64 0) \<or> f_less (F64 1) v))"

text \<open>The second loop: succeeded, failed required and measured counts, latency and speed sums.\<close>

record tally =
  y_succeeded :: int
  y_failedRequired :: int
  y_measured :: int
  y_latency :: f64
  y_speed :: f64

definition tally_one :: "string list \<Rightarrow> resource_result \<Rightarrow> tally \<Rightarrow> tally" where
  "tally_one required r y =
     (let y1 = (if r_Success r
                then y\<lparr>y_succeeded := y_succeeded y + 1, y_latency := f_add (y_latency y) (r_LatencyMS r),
                       y_speed := (case r_SpeedBPS r of None \<Rightarrow> y_speed y | Some v \<Rightarrow> f_add (y_speed y) v),
                       y_measured := (case r_SpeedBPS r of None \<Rightarrow> y_measured y | Some _ \<Rightarrow> y_measured y + 1)\<rparr>
                else y)
      in if \<not> r_Success r \<and> (r_Required r \<or> r_TargetID r \<in> set required)
         then y1\<lparr>y_failedRequired := y_failedRequired y1 + 1\<rparr> else y1)"

definition zero_tally :: tally where
  "zero_tally = \<lparr>y_succeeded = 0, y_failedRequired = 0, y_measured = 0, y_latency = F64 0, y_speed = F64 0\<rparr>"

text \<open>Required targets the measurement does not mention count as failed.\<close>

definition tally_of :: "string list \<Rightarrow> resource_result list \<Rightarrow> tally" where
  "tally_of required rs =
     (let y = fold (tally_one required) rs zero_tally;
          missing = filter (\<lambda>i. i \<notin> set (map r_TargetID rs)) required
      in y\<lparr>y_failedRequired := y_failedRequired y + int (length missing)\<rparr>)"

definition zero_health :: source_health where
  "zero_health = \<lparr>h_SourceID = '''', h_State = '''', h_LastAt = 0, h_SuccessRate = F64 0,
     h_LatencyMS = F64 0, h_SpeedBPS = None, h_PacketLoss = None, h_ConsecutiveFailures = 0,
     h_ConsecutiveSuccesses = 0, h_Resources = []\<rparr>"

definition new_observation :: "string \<Rightarrow> observation" where
  "new_observation i = \<lparr>o_health = zero_health\<lparr>h_SourceID := i, h_State := ''unknown''\<rparr>, o_history = [],
     o_failedRequired = 0, o_fullFailure = False, o_needsRecovery = False, o_speedAt = 0, o_lossAt = 0\<rparr>"

text \<open>The numeric part of \<^verbatim>\<open>Observe\<close>: the smoothed figures of a source after a measurement.\<close>

definition observe_metrics :: "tally \<Rightarrow> measurement \<Rightarrow> observation \<Rightarrow> observation" where
  "observe_metrics y m ob =
     (let h = o_health ob;
          first = is_zero (h_LastAt h);
          h1 = h\<lparr>h_SuccessRate := smooth (h_SuccessRate h)
                   (f_div (f_of_int (y_succeeded y)) (f_of_int (int (length (m_Resources m))))) first\<rparr>;
          h2 = (if y_succeeded y > 0
                then h1\<lparr>h_LatencyMS := smooth (h_LatencyMS h1)
                        (f_div (y_latency y) (f_of_int (y_succeeded y))) (first \<or> h_LatencyMS h1 = F64 0)\<rparr>
                else h1);
          ob1 = (if y_measured y > 0
                 then let val = f_div (y_speed y) (f_of_int (y_measured y));
                          val' = (case h_SpeedBPS h2 of None \<Rightarrow> val | Some old \<Rightarrow> smooth old val False)
                      in ob\<lparr>o_health := h2\<lparr>h_SpeedBPS := Some val'\<rparr>, o_speedAt := m_At m\<rparr>
                 else ob\<lparr>o_health := h2\<rparr>)
      in (case m_PacketLoss m of None \<Rightarrow> ob1
          | Some l \<Rightarrow>
              let l' = (case h_PacketLoss (o_health ob1) of None \<Rightarrow> l | Some old \<Rightarrow> smooth old l False)
              in ob1\<lparr>o_health := (o_health ob1)\<lparr>h_PacketLoss := Some l'\<rparr>, o_lossAt := m_At m\<rparr>))"

text \<open>The verdict part: the counters of consecutive outcomes and the recovery flag.\<close>

definition observe_verdict :: "policy \<Rightarrow> tally \<Rightarrow> measurement \<Rightarrow> observation \<Rightarrow> observation" where
  "observe_verdict p y m ob =
     (let full = (y_succeeded y = 0);
          h = (o_health ob)\<lparr>h_LastAt := m_At m, h_Resources := m_Resources m\<rparr>;
          ob1 = ob\<lparr>o_failedRequired := y_failedRequired y, o_fullFailure := full\<rparr>
      in if y_failedRequired y > 0 \<or> full
         then let h' = h\<lparr>h_ConsecutiveFailures := h_ConsecutiveFailures h + 1, h_ConsecutiveSuccesses := 0\<rparr>
              in ob1\<lparr>o_health := h',
                     o_needsRecovery := (if full \<or> h_ConsecutiveFailures h' \<ge> p_FailureConfirmations p
                                         then True else o_needsRecovery ob1)\<rparr>
         else let h' = h\<lparr>h_ConsecutiveSuccesses := h_ConsecutiveSuccesses h + 1, h_ConsecutiveFailures := 0\<rparr>
              in ob1\<lparr>o_health := h',
                     o_needsRecovery := (if h_ConsecutiveSuccesses h' \<ge> p_RecoveryConfirmations p
                                         then False else o_needsRecovery ob1)\<rparr>)"

definition measurement_ok :: "measurement \<Rightarrow> bool" where
  "measurement_ok m \<longleftrightarrow>
     \<not> (m_SourceID m = '''' \<or> length (m_SourceID m) > 64 \<or> is_zero (m_At m) \<or> m_Resources m = []) \<and>
     resources_ok [] (m_Resources m) \<and> loss_ok (m_PacketLoss m)"

definition observe_source :: "selector \<Rightarrow> measurement \<Rightarrow> observation \<Rightarrow> observation" where
  "observe_source s m ob =
     (let ob1 = ob\<lparr>o_history := trim_history (sel_historyLimit s) (o_history ob @ [m])\<rparr>;
          y = tally_of (sel_required s) (m_Resources m)
      in observe_verdict (sel_policy s) y m (observe_metrics y m ob1))"

definition Observe :: "selector \<Rightarrow> measurement \<Rightarrow> selector" where
  "Observe s m =
     (if \<not> measurement_ok m then s
      else case map_of (sel_sources s) (m_SourceID m) of
        Some ob \<Rightarrow>
          if \<not> m_At m > h_LastAt (o_health ob) then s
          else s\<lparr>sel_sources := AList.update (m_SourceID m) (observe_source s m ob) (sel_sources s)\<rparr>
      | None \<Rightarrow>
          s\<lparr>sel_sources := AList.update (m_SourceID m)
              (observe_source s m (new_observation (m_SourceID m))) (sel_sources s)\<rparr>)"

section \<open>Health\<close>

definition stale_after :: "policy \<Rightarrow> duration" where
  "stale_after p = dur_mul (p_StaleAfterSeconds p) second"

definition health_state :: "policy \<Rightarrow> observation \<Rightarrow> gotime \<Rightarrow> string" where
  "health_state p ob now =
     (let age = time_sub now (h_LastAt (o_health ob)) in
      if age < 0 then ''unknown''
      else if age > stale_after p then ''stale''
      else if o_fullFailure ob \<or> h_ConsecutiveFailures (o_health ob) \<ge> p_FailureConfirmations p then ''unhealthy''
      else if o_failedRequired ob > 0 then ''degraded''
      else if o_needsRecovery ob then ''recovering''
      else ''healthy'')"

definition health :: "policy \<Rightarrow> observation \<Rightarrow> gotime \<Rightarrow> source_health" where
  "health p ob now =
     (let h = (o_health ob)\<lparr>h_State := health_state p ob now\<rparr>;
          metricTTL = max (dur_mul (dur_mul (p_StaleAfterSeconds p) 10) second) (5 * minute);
          h1 = (if time_sub now (o_speedAt ob) > metricTTL then h\<lparr>h_SpeedBPS := None\<rparr> else h)
      in if time_sub now (o_lossAt ob) > stale_after p then h1\<lparr>h_PacketLoss := None\<rparr> else h1)"

definition Health :: "selector \<Rightarrow> gotime \<Rightarrow> source_health list" where
  "Health s now = sort_key h_SourceID (map (\<lambda>(k, ob). health (sel_policy s) ob now) (sel_sources s))"

definition History :: "selector \<Rightarrow> string \<Rightarrow> measurement list" where
  "History s i = (case map_of (sel_sources s) i of None \<Rightarrow> [] | Some ob \<Rightarrow> o_history ob)"

section \<open>Decisions\<close>

definition quality :: "source_health \<Rightarrow> f64" where
  "quality h =
     (let q = f_div (h_SuccessRate h) (f_add (F64 1) (f_div (h_LatencyMS h) (F64 1000)))
      in case h_PacketLoss h of None \<Rightarrow> q
         | Some l \<Rightarrow> f_div q (f_add (F64 1) (f_mul (F64 4) l)))"

definition better :: "source_health \<Rightarrow> source_health \<Rightarrow> f64 \<Rightarrow> bool" where
  "better a b improvement =
     (let (qa, qb) =
        (case (h_SpeedBPS a, h_SpeedBPS b) of
           (Some u, Some v) \<Rightarrow> (f_mul (quality a) u, f_mul (quality b) v)
         | _ \<Rightarrow> (quality a, quality b))
      in f_less (f_mul qb (f_add (F64 1) (f_div improvement (F64 100)))) qa)"

text \<open>The closure \<^verbatim>\<open>decision\<close> of \<^verbatim>\<open>Evaluate\<close>, which records a changed selection.\<close>

definition decide :: "selector \<Rightarrow> gotime \<Rightarrow> string \<Rightarrow> string \<Rightarrow> reason \<Rightarrow> decision \<times> selector" where
  "decide s now selected state why =
     (let previous = sel_selected s;
          changed = (selected \<noteq> previous)
      in (\<lparr>d_At = now, d_Previous = previous, d_Selected = selected, d_Changed = changed,
           d_State = state, d_Reason = why\<rparr>,
          if changed
          then clearCandidate (s\<lparr>sel_selected := selected, sel_selectedAt := now, sel_lastSwitch := now\<rparr>)
          else s))"

text \<open>The map \<^verbatim>\<open>available\<close>: of several sources with one ID the last one counts.\<close>

definition available_of :: "source list \<Rightarrow> (string, source) gomap" where
  "available_of srcs = fold (\<lambda>src m. AList.update (s_ID src) src m) srcs []"

definition prune :: "(string, source) gomap \<Rightarrow> selector \<Rightarrow> selector" where
  "prune av s = s\<lparr>sel_sources := filter (\<lambda>(i, ob). map_of av i \<noteq> None) (sel_sources s)\<rparr>"

text \<open>A look-up in the map \<^verbatim>\<open>h\<close> of current health values; an absent key gives the zero value.\<close>

definition health_at :: "selector \<Rightarrow> gotime \<Rightarrow> string \<Rightarrow> source_health" where
  "health_at s now i =
     (case map_of (sel_sources s) i of None \<Rightarrow> zero_health | Some ob \<Rightarrow> health (sel_policy s) ob now)"

definition healthy :: "(string, source) gomap \<Rightarrow> selector \<Rightarrow> gotime \<Rightarrow> string \<Rightarrow> bool" where
  "healthy av s now i =
     (case map_of av i of None \<Rightarrow> False
      | Some src \<Rightarrow> s_Enabled src \<and> h_State (health_at s now i) = ''healthy'')"

definition fallback :: "(string, source) gomap \<Rightarrow> selector \<Rightarrow> gotime \<Rightarrow> string \<Rightarrow> decision \<times> selector" where
  "fallback av s now why =
     (if p_Fallback (sel_policy s) = ''direct''
      then case sort (map fst (filter (\<lambda>(i, src). s_Type src = ''direct'' \<and> healthy av s now i) av)) of
        i # _ \<Rightarrow> decide s now i ''fallback''
           (Text (why @ ''; explicitly permitted direct fallback passed fresh resource checks''))
      | [] \<Rightarrow> decide s now '''' ''unavailable''
           (Text (why @ ''; direct fallback has no freshly verified source''))
      else decide s now '''' ''unavailable'' (Text (why @ ''; fallback policy is closed'')))"

text \<open>The loop over the sorted candidates.\<close>

definition pick_best :: "(string \<Rightarrow> source_health) \<Rightarrow> string list \<Rightarrow> string" where
  "pick_best h ids = fold (\<lambda>i best. if best = '''' \<or> better (h i) (h best) (F64 0) then i else best) ids ''''"

text \<open>The tail of \<^verbatim>\<open>Evaluate\<close>: the current source is usable and another one is better.\<close>

definition confirm_candidate :: "selector \<Rightarrow> gotime \<Rightarrow> string \<Rightarrow> decision \<times> selector" where
  "confirm_candidate s now best =
     (let previous = sel_selected s;
          h = health_at s now;
          p = sel_policy s;
          s1 = (if sel_candidate s \<noteq> best then (clearCandidate s)\<lparr>sel_candidate := best\<rparr> else s);
          s2 = (if h_LastAt (h best) > sel_candidateAt s1
                then s1\<lparr>sel_confirmations := sel_confirmations s1 + 1, sel_candidateAt := h_LastAt (h best)\<rparr>
                else s1)
      in if sel_confirmations s2 < p_Confirmations p
         then decide s2 now previous ''selected'' (Confirming (sel_confirmations s2) (p_Confirmations p))
         else if time_sub now (sel_selectedAt s2) < dur_mul (p_MinDwellSeconds p) second
         then decide s2 now previous ''selected''
                (Text ''Candidate is better; minimum channel dwell is still active'')
         else if time_sub now (sel_lastSwitch s2) < dur_mul (p_CooldownSeconds p) second
         then decide s2 now previous ''selected''
                (Text ''Candidate is better; switch cooldown is still active'')
         else decide s2 now best ''selected'' (Sustained (p_ImprovementPercent p) (sel_confirmations s2)))"

definition candidates :: "(string, source) gomap \<Rightarrow> selector \<Rightarrow> gotime \<Rightarrow> string list" where
  "candidates av s now = sort (map fst (filter (\<lambda>(i, src). s_Auto src \<and> healthy av s now i) av))"

definition current_usable :: "(string, source) gomap \<Rightarrow> selector \<Rightarrow> gotime \<Rightarrow> bool" where
  "current_usable av s now =
     (case map_of av (sel_selected s) of None \<Rightarrow> False
      | Some cur \<Rightarrow> s_Enabled cur \<and> s_Auto cur \<and>
          (h_State (health_at s now (sel_selected s)) = ''healthy'' \<or>
           h_State (health_at s now (sel_selected s)) = ''degraded''))"

definition failed_required_of :: "selector \<Rightarrow> string \<Rightarrow> int" where
  "failed_required_of s i = (case map_of (sel_sources s) i of None \<Rightarrow> 0 | Some ob \<Rightarrow> o_failedRequired ob)"

definition evaluate_auto :: "(string, source) gomap \<Rightarrow> selector \<Rightarrow> gotime \<Rightarrow> decision \<times> selector" where
  "evaluate_auto av s now =
     (let previous = sel_selected s;
          h = health_at s now;
          best = pick_best h (candidates av s now)
      in if \<not> current_usable av s now
         then if best = '''' then fallback av s now ''No eligible source has fresh successful resource checks''
              else decide s now best ''selected''
                (Text (if previous \<noteq> ''''
                       then ''Current source is disabled, excluded, stale, or failed required resources; verified replacement selected without normal dwell''
                       else ''Initial eligible source passed fresh required-resource checks''))
         else if best = '''' \<or> best = previous \<or>
                 \<not> better (h best) (h previous) (p_ImprovementPercent (sel_policy s))
         then let s1 = clearCandidate s
              in if h_State (h previous) = ''degraded''
                 then decide s1 now previous ''degraded''
                        (Degraded (failed_required_of s previous) (h_ConsecutiveFailures (h previous)))
                 else decide s1 now previous ''selected''
                        (Text ''Current source remains eligible; no confirmed superior candidate'')
         else confirm_candidate s now best)"

definition Evaluate :: "selector \<Rightarrow> source list \<Rightarrow> gotime \<Rightarrow> decision \<times> selector" where
  "Evaluate s0 srcs now =
     (if p_Mode (sel_policy s0) = ''off''
      then decide s0 now '''' ''off'' (Text ''Automatic and manual selection are disabled'')
      else let av = available_of srcs; s = prune av s0
           in if p_Mode (sel_policy s) = ''manual''
              then if healthy av s now (p_Pinned (sel_policy s))
                   then decide s now (p_Pinned (sel_policy s)) ''manual''
                          (Text ''The pinned source passed fresh required-resource checks'')
                   else fallback av s now ''The pinned source is disabled, unverified, stale, or unhealthy''
              else evaluate_auto av s now)"

end
