(* ===== verification/Selection_Props.thy ===== *)
theory Selection_Props
  imports Selection
begin

text \<open>
  Properties of the path selector: what a decision may select, what a switch away from a
  working source takes, the invariant of the selector's state over every sequence of
  operations, and the recovery discipline of a failed source.
\<close>

section \<open>A sample run\<close>

text \<open>One source that was measured once, successfully, and is pinned: inputs for the witnesses.\<close>

definition sample_policy :: policy where
  "sample_policy = \<lparr>p_Mode = ''manual'', p_Pinned = ''a'', p_Fallback = ''closed'', p_ImprovementPercent = F64 20,
     p_Confirmations = 3, p_FailureConfirmations = 3, p_RecoveryConfirmations = 3, p_MinDwellSeconds = 0,
     p_CooldownSeconds = 0, p_StaleAfterSeconds = 90, p_BreakExisting = False\<rparr>"

definition sample_resource :: "bool \<Rightarrow> resource_result" where
  "sample_resource ok = \<lparr>r_TargetID = ''t'', r_Required = True, r_Success = ok, r_StatusCode = 200, r_LatencyMS = F64 0,
     r_Bytes = 1, r_SpeedBPS = None, r_ErrorCode = ''''\<rparr>"

definition sample_measurement :: "gotime \<Rightarrow> bool \<Rightarrow> measurement" where
  "sample_measurement t ok = \<lparr>m_SourceID = ''a'', m_At = t, m_Path = '''', m_Resources = [sample_resource ok], m_PacketLoss = None\<rparr>"

definition sample_sources :: "source list" where
  "sample_sources = [\<lparr>s_ID = ''a'', s_Name = '''', s_Type = ''socks5'', s_Enabled = True, s_Auto = True\<rparr>]"

definition sample_selector :: selector where
  "sample_selector = Observe (New sample_policy) (sample_measurement 5 True)"

lemmas sample_defs = sample_policy_def sample_resource_def sample_measurement_def sample_sources_def
  New_def safePolicy_def Observe_def measurement_ok_def loss_ok_def observe_source_def observe_metrics_def
  observe_verdict_def tally_of_def tally_one_def zero_tally_def trim_history_def new_observation_def
  zero_health_def smooth_def go_simps

lemma sample_selector_eq: "sel_sources sample_selector =
    [(''a'', \<lparr>o_health = zero_health\<lparr>h_SourceID := ''a'', h_State := ''unknown'', h_LastAt := 5, h_SuccessRate := F64 1,
        h_ConsecutiveSuccesses := 1, h_Resources := [sample_resource True]\<rparr>,
      o_history = [sample_measurement 5 True], o_failedRequired = 0, o_fullFailure = False,
      o_needsRecovery = False, o_speedAt = 0, o_lossAt = 0\<rparr>)]"
  "sel_policy sample_selector = sample_policy" "sel_selected sample_selector = ''''"
  by (simp_all add: sample_selector_def sample_defs)

lemma sample_selection: "d_Selected (fst (Evaluate sample_selector sample_sources 6)) = ''a''"
  by (simp add: Evaluate_def sample_selector_eq Let_def prune_def available_of_def sample_sources_def
      healthy_def health_at_def health_def health_state_def stale_after_def dur_mul_def wrap64_def sample_policy_def
      zero_health_def decide_def go_simps)

section \<open>Decisions\<close>

lemma decide_simps [simp]:
  "d_Selected (fst (decide s now x st w)) = x"
  "d_Changed (fst (decide s now x st w)) = (x \<noteq> sel_selected s)"
  "d_State (fst (decide s now x st w)) = st"
  "d_Previous (fst (decide s now x st w)) = sel_selected s"
  "sel_selected (snd (decide s now x st w)) = x"
  "sel_policy (snd (decide s now x st w)) = sel_policy s"
  "sel_sources (snd (decide s now x st w)) = sel_sources s"
  "sel_required (snd (decide s now x st w)) = sel_required s"
  "sel_historyLimit (snd (decide s now x st w)) = sel_historyLimit s"
  by (simp_all add: decide_def Let_def clearCandidate_def)

lemma clearCandidate_simps [simp]:
  "sel_selected (clearCandidate s) = sel_selected s"
  "sel_policy (clearCandidate s) = sel_policy s"
  "sel_sources (clearCandidate s) = sel_sources s"
  "sel_required (clearCandidate s) = sel_required s"
  "sel_historyLimit (clearCandidate s) = sel_historyLimit s"
  "sel_candidate (clearCandidate s) = ''''"
  "sel_confirmations (clearCandidate s) = 0"
  "sel_candidateAt (clearCandidate s) = 0"
  "sel_selectedAt (clearCandidate s) = sel_selectedAt s"
  "sel_lastSwitch (clearCandidate s) = sel_lastSwitch s"
  by (simp_all add: clearCandidate_def)

lemma prune_simps [simp]:
  "sel_selected (prune av s) = sel_selected s"
  "sel_policy (prune av s) = sel_policy s"
  "sel_required (prune av s) = sel_required s"
  "sel_historyLimit (prune av s) = sel_historyLimit s"
  "sel_candidate (prune av s) = sel_candidate s"
  "sel_confirmations (prune av s) = sel_confirmations s"
  "sel_candidateAt (prune av s) = sel_candidateAt s"
  "sel_selectedAt (prune av s) = sel_selectedAt s"
  "sel_lastSwitch (prune av s) = sel_lastSwitch s"
  "map_of (sel_sources (prune av s)) i = (if map_of av i = None then None else map_of (sel_sources s) i)"
  by (simp_all add: prune_def)

lemma pick_best_in: "pick_best h ids = '''' \<or> pick_best h ids \<in> set ids"
proof -
  have "fold (\<lambda>i best. if best = '''' \<or> better (h i) (h best) (F64 0) then i else best) ids b
      \<in> insert b (set ids)" for b
    by (induction ids arbitrary: b) (auto split: if_splits)
  from this [of "''''"] show ?thesis by (auto simp: pick_best_def)
qed

lemma candidates_healthy: "i \<in> set (candidates av s now) \<Longrightarrow> healthy av s now i"
  by (auto simp: candidates_def)

lemma pick_best_healthy:
  "pick_best h (candidates av s now) \<noteq> '''' \<Longrightarrow> healthy av s now (pick_best h (candidates av s now))"
  using pick_best_in [of h] candidates_healthy by blast

lemma healthyD:
  assumes "healthy av s now i"
  obtains src ob where "map_of av i = Some src" "s_Enabled src" "map_of (sel_sources s) i = Some ob"
    "health_state (sel_policy s) ob now = ''healthy''"
  using assms by (auto simp: healthy_def health_at_def health_def zero_health_def Let_def
      split: option.splits if_splits)

lemma current_usableD:
  assumes "current_usable av s now"
  obtains src ob where "map_of av (sel_selected s) = Some src" "s_Enabled src" "s_Auto src"
    "map_of (sel_sources s) (sel_selected s) = Some ob"
    "health_state (sel_policy s) ob now \<in> {''healthy'', ''degraded''}"
  using assms by (auto simp: current_usable_def health_at_def health_def zero_health_def Let_def
      split: option.splits if_splits)

lemma fallback_outcome:
  "d_Selected (fst (fallback av s now w)) = '''' \<or>
   p_Fallback (sel_policy s) = ''direct'' \<and> healthy av s now (d_Selected (fst (fallback av s now w)))"
proof (cases "p_Fallback (sel_policy s) = ''direct''")
  case True
  let ?ids = "sort (map fst (filter (\<lambda>(i, src). s_Type src = ''direct'' \<and> healthy av s now i) av))"
  show ?thesis
  proof (cases ?ids)
    case (Cons i rest)
    then have "i \<in> set ?ids" by simp
    then have "healthy av s now i" by auto
    with True Cons show ?thesis by (simp add: fallback_def)
  qed (simp add: fallback_def True)
qed (simp add: fallback_def)

lemma confirm_candidate_outcome:
  "d_Selected (fst (confirm_candidate s now best)) \<in> {sel_selected s, best}"
  by (auto simp: confirm_candidate_def Let_def)

lemma evaluate_auto_outcome:
  fixes av s now
  defines "x \<equiv> d_Selected (fst (evaluate_auto av s now))"
  shows "x = '''' \<or> healthy av s now x \<or> x = sel_selected s \<and> current_usable av s now"
proof -
  let ?best = "pick_best (health_at s now) (candidates av s now)"
  let ?better = "better (health_at s now ?best) (health_at s now (sel_selected s)) (p_ImprovementPercent (sel_policy s))"
  consider (fb) "\<not> current_usable av s now" "?best = ''''"
    | (first) "\<not> current_usable av s now" "?best \<noteq> ''''"
    | (stay) "current_usable av s now" "?best = '''' \<or> ?best = sel_selected s \<or> \<not> ?better"
    | (cand) "current_usable av s now" "?best \<noteq> ''''" "?best \<noteq> sel_selected s" "?better"
    by blast
  then show ?thesis
  proof cases
    case fb
    with fallback_outcome show ?thesis by (auto simp: x_def evaluate_auto_def Let_def)
  next
    case first
    with pick_best_healthy show ?thesis by (simp add: x_def evaluate_auto_def Let_def)
  next
    case stay
    then have "x = sel_selected s" by (auto simp: x_def evaluate_auto_def Let_def)
    with stay show ?thesis by simp
  next
    case cand
    then have "evaluate_auto av s now = confirm_candidate s now ?best"
      by (simp add: evaluate_auto_def Let_def)
    with cand pick_best_healthy [of "health_at s now" av s now] confirm_candidate_outcome [of s now ?best]
    show ?thesis by (auto simp: x_def)
  qed
qed

text \<open>
  C8: whatever \<^verbatim>\<open>Evaluate\<close> selects is an available, enabled source with an observation of its own,
  and that source is healthy at that moment (fresh, every required resource reachable, recovered);
  only the source that is already selected may also be merely degraded.
\<close>

theorem selects_only_verified_sources:
  assumes "Evaluate s srcs now = (d, s')" and "d_Selected d \<noteq> ''''"
  shows "\<exists>src ob. map_of (available_of srcs) (d_Selected d) = Some src \<and> s_Enabled src \<and>
    map_of (sel_sources s) (d_Selected d) = Some ob \<and>
    (health_state (sel_policy s) ob now = ''healthy'' \<or>
     health_state (sel_policy s) ob now = ''degraded'' \<and> d_Selected d = sel_selected s \<and> s_Auto src)"
proof -
  let ?av = "available_of srcs"
  let ?s = "prune ?av s"
  have "healthy ?av ?s now (d_Selected d) \<or> d_Selected d = sel_selected ?s \<and> current_usable ?av ?s now"
    using assms evaluate_auto_outcome [of ?av ?s now] fallback_outcome [of ?av ?s now]
    by (auto simp: Evaluate_def Let_def split: if_splits dest!: arg_cong [of _ "(d, s')" fst]) blast+
  then show ?thesis
  proof
    assume "healthy ?av ?s now (d_Selected d)"
    then show ?thesis by (rule healthyD) (auto split: if_splits)
  next
    assume *: "d_Selected d = sel_selected ?s \<and> current_usable ?av ?s now"
    then have "current_usable ?av ?s now" by simp
    then show ?thesis using * by (auto elim!: current_usableD split: if_splits)
  qed
qed

theorem selects_only_verified_sources_witness:
  "\<exists>src ob. map_of (available_of sample_sources) ''a'' = Some src \<and> s_Enabled src \<and>
    map_of (sel_sources sample_selector) ''a'' = Some ob \<and>
    (health_state (sel_policy sample_selector) ob 6 = ''healthy'' \<or>
     health_state (sel_policy sample_selector) ob 6 = ''degraded'' \<and> ''a'' = sel_selected sample_selector \<and> s_Auto src)"
  using selects_only_verified_sources
    [of sample_selector sample_sources 6 "fst (Evaluate sample_selector sample_sources 6)"
      "snd (Evaluate sample_selector sample_sources 6)"]
  unfolding sample_selection by simp

section \<open>Hysteresis\<close>

text \<open>
  The number of confirmations the pending candidate has once this evaluation has counted the
  newest measurement of \<open>best\<close>.
\<close>

definition confirmed_after :: "selector \<Rightarrow> gotime \<Rightarrow> string \<Rightarrow> int" where
  "confirmed_after s now best =
     (let (n, since) = (if sel_candidate s = best then (sel_confirmations s, sel_candidateAt s) else (0, 0))
      in if h_LastAt (health_at s now best) > since then n + 1 else n)"

lemma confirm_candidate_switch:
  assumes "d_Changed (fst (confirm_candidate s now best))"
  shows "d_Selected (fst (confirm_candidate s now best)) = best \<and>
    p_Confirmations (sel_policy s) \<le> confirmed_after s now best \<and>
    dur_mul (p_MinDwellSeconds (sel_policy s)) second \<le> time_sub now (sel_selectedAt s) \<and>
    dur_mul (p_CooldownSeconds (sel_policy s)) second \<le> time_sub now (sel_lastSwitch s)"
  using assms
  by (auto simp: confirm_candidate_def confirmed_after_def Let_def split: if_splits)

lemma evaluate_auto_switch:
  assumes "current_usable av s now" and "d_Changed (fst (evaluate_auto av s now))"
  shows "evaluate_auto av s now = confirm_candidate s now (d_Selected (fst (evaluate_auto av s now)))"
    and "healthy av s now (d_Selected (fst (evaluate_auto av s now)))"
    and "better (health_at s now (d_Selected (fst (evaluate_auto av s now))))
           (health_at s now (sel_selected s)) (p_ImprovementPercent (sel_policy s))"
    and "d_Selected (fst (evaluate_auto av s now)) = pick_best (health_at s now) (candidates av s now)"
    and "d_Selected (fst (evaluate_auto av s now)) \<noteq> ''''"
    and "d_Selected (fst (evaluate_auto av s now)) \<noteq> sel_selected s"
proof -
  let ?best = "pick_best (health_at s now) (candidates av s now)"
  have best: "?best \<noteq> ''''" "better (health_at s now ?best) (health_at s now (sel_selected s))
      (p_ImprovementPercent (sel_policy s))"
    and conf: "evaluate_auto av s now = confirm_candidate s now ?best"
    using assms by (auto simp: evaluate_auto_def Let_def split: if_splits)
  from assms(2) conf have sel: "d_Selected (fst (evaluate_auto av s now)) = ?best"
    using confirm_candidate_switch by simp
  show "evaluate_auto av s now = confirm_candidate s now (d_Selected (fst (evaluate_auto av s now)))"
    using conf sel by simp
  show "healthy av s now (d_Selected (fst (evaluate_auto av s now)))"
    "better (health_at s now (d_Selected (fst (evaluate_auto av s now))))
           (health_at s now (sel_selected s)) (p_ImprovementPercent (sel_policy s))"
    "d_Selected (fst (evaluate_auto av s now)) = ?best" "d_Selected (fst (evaluate_auto av s now)) \<noteq> ''''"
    using best pick_best_healthy sel by simp_all
  from assms(2) conf confirm_candidate_switch [of s now ?best] sel
  show "d_Selected (fst (evaluate_auto av s now)) \<noteq> sel_selected s"
    by (auto simp: confirm_candidate_def Let_def split: if_splits)
qed

text \<open>Every exported operation of the selector, and the run of a sequence of them.\<close>

datatype sel_op =
    Op_Configure policy
  | Op_SetTargets "target list"
  | Op_SetHistoryLimit int
  | Op_Observe measurement
  | Op_Evaluate "source list" gotime

fun sel_step :: "(target list \<Rightarrow> string) \<Rightarrow> sel_op \<Rightarrow> selector \<Rightarrow> selector" where
  "sel_step marshal (Op_Configure p) s = Configure s p"
| "sel_step marshal (Op_SetTargets ts) s = SetTargets marshal s ts"
| "sel_step marshal (Op_SetHistoryLimit n) s = SetHistoryLimit s n"
| "sel_step marshal (Op_Observe m) s = Observe s m"
| "sel_step marshal (Op_Evaluate srcs now) s = snd (Evaluate s srcs now)"

definition sel_run :: "(target list \<Rightarrow> string) \<Rightarrow> policy \<Rightarrow> sel_op list \<Rightarrow> selector" where
  "sel_run marshal p ops = fold (sel_step marshal) ops (New p)"

text \<open>The instants of the measurements of a source that a sequence of operations reported.\<close>

definition measured_at :: "sel_op list \<Rightarrow> string \<Rightarrow> gotime set" where
  "measured_at ops i = {m_At m | m. Op_Observe m \<in> set ops \<and> m_SourceID m = i}"

lemma measured_at_append: "measured_at ops i \<subseteq> measured_at (ops @ ops') i"
  by (auto simp: measured_at_def)

text \<open>
  \<^verbatim>\<open>Evaluate\<close> compares the sources in every mode but \<^verbatim>\<open>off\<close> and \<^verbatim>\<open>manual\<close>.
\<close>

definition automatic :: "selector \<Rightarrow> bool" where
  "automatic s \<longleftrightarrow> p_Mode (sel_policy s) \<noteq> ''off'' \<and> p_Mode (sel_policy s) \<noteq> ''manual''"

text \<open>
  At an evaluation a source has the advantage when automatic selection finds the current source
  usable and that source the best of the candidates, by more than the configured percentage.
\<close>

definition advantage :: "selector \<Rightarrow> source list \<Rightarrow> gotime \<Rightarrow> string \<Rightarrow> bool" where
  "advantage s0 srcs now x =
     (let av = available_of srcs; s = prune av s0
      in automatic s \<and> current_usable av s now \<and>
         x = pick_best (health_at s now) (candidates av s now) \<and> x \<noteq> '''' \<and> x \<noteq> sel_selected s \<and>
         better (health_at s now x) (health_at s now (sel_selected s)) (p_ImprovementPercent (sel_policy s)))"

text \<open>
  One kind of evaluation compares nothing: no source is eligible, the current one included, and the
  fallback keeps the current one. It neither counts for a candidate nor against it.
\<close>

definition nothing_compared :: "selector \<Rightarrow> source list \<Rightarrow> gotime \<Rightarrow> bool" where
  "nothing_compared s0 srcs now =
     (let av = available_of srcs; s = prune av s0
      in \<not> current_usable av s now \<and> pick_best (health_at s now) (candidates av s now) = '''' \<and>
         \<not> d_Changed (fst (Evaluate s0 srcs now)))"

text \<open>
  Over a stretch of operations a source \<open>x\<close> keeps its advantage over the selected source \<open>cur\<close>:
  every evaluation finds it again, and neither the policy nor the targets change.
\<close>

fun keeps_advantage :: "(target list \<Rightarrow> string) \<Rightarrow> string \<Rightarrow> string \<Rightarrow> selector \<Rightarrow> sel_op \<Rightarrow> bool" where
  "keeps_advantage marshal cur x s (Op_Configure p) = False"
| "keeps_advantage marshal cur x s (Op_SetTargets ts) = (marshal ts = sel_targetSignature s)"
| "keeps_advantage marshal cur x s (Op_SetHistoryLimit n) = True"
| "keeps_advantage marshal cur x s (Op_Observe m) = True"
| "keeps_advantage marshal cur x s (Op_Evaluate srcs now) =
     (sel_selected s = cur \<and> (advantage s srcs now x \<or> nothing_compared s srcs now))"

primrec sustained :: "(target list \<Rightarrow> string) \<Rightarrow> string \<Rightarrow> string \<Rightarrow> selector \<Rightarrow> sel_op list \<Rightarrow> bool" where
  "sustained marshal cur x s [] = True"
| "sustained marshal cur x s (y # ys) =
     (keeps_advantage marshal cur x s y \<and> sustained marshal cur x (sel_step marshal y s) ys)"

text \<open>The instants of the measurements on which the evaluations of a stretch found the advantage.\<close>

fun confirmed_by :: "string \<Rightarrow> selector \<Rightarrow> sel_op \<Rightarrow> gotime set" where
  "confirmed_by x s (Op_Evaluate srcs now) =
     (if advantage s srcs now x then {h_LastAt (health_at s now x)} else {})"
| "confirmed_by x s _ = {}"

primrec confirmed_at :: "(target list \<Rightarrow> string) \<Rightarrow> string \<Rightarrow> selector \<Rightarrow> sel_op list \<Rightarrow> gotime set" where
  "confirmed_at marshal x s [] = {}"
| "confirmed_at marshal x s (y # ys) = confirmed_by x s y \<union> confirmed_at marshal x (sel_step marshal y s) ys"

lemma sustained_append:
  "sustained marshal cur x s (ys @ zs) \<longleftrightarrow>
     sustained marshal cur x s ys \<and> sustained marshal cur x (fold (sel_step marshal) ys s) zs"
  by (induction ys arbitrary: s) auto

lemma confirmed_at_append:
  "confirmed_at marshal x s (ys @ zs) =
     confirmed_at marshal x s ys \<union> confirmed_at marshal x (fold (sel_step marshal) ys s) zs"
  by (induction ys arbitrary: s) auto

lemma finite_confirmed_at [simp]: "finite (confirmed_at marshal x s ys)"
proof (induction ys arbitrary: s)
  case (Cons y ys)
  have "finite (confirmed_by x s y)" by (cases y) auto
  with Cons show ?case by simp
qed simp

lemma sel_run_append: "fold (sel_step marshal) ys (sel_run marshal p ops) = sel_run marshal p (ops @ ys)"
  by (simp add: sel_run_def)

lemma sel_run_snoc: "sel_run marshal p (ops @ [y]) = sel_step marshal y (sel_run marshal p ops)"
  by (simp add: sel_run_def)

lemma observe_verdict_simps [simp]:
  "h_LastAt (o_health (observe_verdict p y m ob)) = m_At m"
  "h_SuccessRate (o_health (observe_verdict p y m ob)) = h_SuccessRate (o_health ob)"
  "h_LatencyMS (o_health (observe_verdict p y m ob)) = h_LatencyMS (o_health ob)"
  "h_PacketLoss (o_health (observe_verdict p y m ob)) = h_PacketLoss (o_health ob)"
  "h_SourceID (o_health (observe_verdict p y m ob)) = h_SourceID (o_health ob)"
  "o_history (observe_verdict p y m ob) = o_history ob"
  by (simp_all add: observe_verdict_def Let_def)

lemma observe_metrics_simps [simp]:
  "h_ConsecutiveFailures (o_health (observe_metrics y m ob)) = h_ConsecutiveFailures (o_health ob)"
  "h_ConsecutiveSuccesses (o_health (observe_metrics y m ob)) = h_ConsecutiveSuccesses (o_health ob)"
  "h_SourceID (o_health (observe_metrics y m ob)) = h_SourceID (o_health ob)"
  "o_history (observe_metrics y m ob) = o_history ob"
  "o_needsRecovery (observe_metrics y m ob) = o_needsRecovery ob"
  by (simp_all add: observe_metrics_def Let_def split: option.splits)

lemma observe_source_LastAt [simp]: "h_LastAt (o_health (observe_source s m ob)) = m_At m"
  by (simp add: observe_source_def Let_def)

lemma Observe_cases:
  obtains (ignored) "Observe s m = s"
  | (taken) ob where "measurement_ok m"
      "map_of (sel_sources s) (m_SourceID m) = Some ob \<and> h_LastAt (o_health ob) < m_At m \<or>
       map_of (sel_sources s) (m_SourceID m) = None \<and> ob = new_observation (m_SourceID m)"
      "Observe s m = s\<lparr>sel_sources := AList.update (m_SourceID m) (observe_source s m ob) (sel_sources s)\<rparr>"
proof (cases "measurement_ok m")
  case True
  note ok = this
  show ?thesis
  proof (cases "map_of (sel_sources s) (m_SourceID m)")
    case None
    with ok taken show ?thesis by (simp add: Observe_def)
  next
    case (Some ob)
    with ok ignored taken show ?thesis
      by (cases "h_LastAt (o_health ob) < m_At m") (auto simp: Observe_def)
  qed
qed (use ignored in \<open>simp add: Observe_def\<close>)

lemma Observe_taken_neq:
  assumes "measurement_ok m"
    and "map_of (sel_sources s) (m_SourceID m) = Some ob \<and> h_LastAt (o_health ob) < m_At m \<or>
       map_of (sel_sources s) (m_SourceID m) = None \<and> ob = new_observation (m_SourceID m)"
    and "Observe s m = s\<lparr>sel_sources := AList.update (m_SourceID m) (observe_source s m ob) (sel_sources s)\<rparr>"
  shows "Observe s m \<noteq> s"
proof
  assume same: "Observe s m = s"
  have "map_of (sel_sources (Observe s m)) (m_SourceID m) = Some (observe_source s m ob)"
    by (subst assms(3)) simp
  with same assms(2) have "ob = observe_source s m ob" "h_LastAt (o_health ob) < m_At m" by auto
  then show False using observe_source_LastAt [of s m ob] by (metis less_irrefl)
qed

lemma fallback_frame:
  "sel_sources (snd (fallback av s now w)) = sel_sources s \<and> sel_policy (snd (fallback av s now w)) = sel_policy s \<and>
   sel_historyLimit (snd (fallback av s now w)) = sel_historyLimit s \<and>
   sel_required (snd (fallback av s now w)) = sel_required s"
  by (simp add: fallback_def split: list.splits)

lemma confirm_candidate_frame:
  "sel_sources (snd (confirm_candidate s now b)) = sel_sources s \<and> sel_policy (snd (confirm_candidate s now b)) = sel_policy s \<and>
   sel_historyLimit (snd (confirm_candidate s now b)) = sel_historyLimit s \<and>
   sel_required (snd (confirm_candidate s now b)) = sel_required s"
  by (simp add: confirm_candidate_def Let_def)

lemma Evaluate_frame:
  "sel_policy (snd (Evaluate s srcs now)) = sel_policy s"
  "sel_required (snd (Evaluate s srcs now)) = sel_required s"
  "sel_sources (snd (Evaluate s srcs now)) = sel_sources s \<or>
   sel_sources (snd (Evaluate s srcs now)) = sel_sources (prune (available_of srcs) s)"
  by (simp_all add: Evaluate_def evaluate_auto_def Let_def fallback_frame confirm_candidate_frame)

text \<open>
  What an operation leaves of the observations: it forgets some, trims a history, or counts one
  measurement for its source.
\<close>

lemma sel_step_observation:
  assumes "map_of (sel_sources (sel_step marshal y s)) i = Some ob"
  obtains (kept) ob0 hist where "map_of (sel_sources s) i = Some ob0" "ob = ob0\<lparr>o_history := hist\<rparr>"
      "\<And>m. y = Op_Observe m \<Longrightarrow> m_SourceID m = i \<Longrightarrow> Observe s m = s"
  | (measured) m ob0 where "y = Op_Observe m" "m_SourceID m = i" "measurement_ok m" "Observe s m \<noteq> s"
      "ob = observe_source s m ob0"
      "map_of (sel_sources s) i = Some ob0 \<or> map_of (sel_sources s) i = None \<and> ob0 = new_observation i"
proof -
  note same = kept [of ob "o_history ob"]
  show ?thesis
  proof (cases y)
    case (Op_Observe m)
    show ?thesis
    proof (cases rule: Observe_cases [of s m])
      case ignored
      with assms Op_Observe same show ?thesis by simp
    next
      case (taken ob0)
      have neq: "Observe s m \<noteq> s" by (rule Observe_taken_neq [OF taken])
      show ?thesis
      proof (cases "m_SourceID m = i")
        case True
        with taken assms Op_Observe neq show ?thesis by (intro measured [of m ob0]) auto
      next
        case False
        with taken assms Op_Observe same show ?thesis by simp
      qed
    qed
  next
    case (Op_Evaluate srcs now)
    with assms Evaluate_frame(3) [of s srcs now] have "map_of (sel_sources s) i = Some ob"
      by (auto split: if_splits)
    with Op_Evaluate same show ?thesis by simp
  next
    case (Op_SetHistoryLimit n)
    with assms kept show ?thesis by (auto simp: SetHistoryLimit_def Let_def)
  next
    case (Op_SetTargets ts)
    with assms same show ?thesis by (simp add: SetTargets_def Let_def split: if_splits)
  next
    case (Op_Configure q)
    with assms same show ?thesis by (simp add: Configure_def)
  qed
qed

lemma observed_is_measured:
  "map_of (sel_sources (sel_run marshal p ops)) i = Some ob \<Longrightarrow> h_LastAt (o_health ob) \<in> measured_at ops i"
proof (induction ops arbitrary: ob rule: rev_induct)
  case Nil
  then show ?case by (simp add: sel_run_def New_def)
next
  case (snoc y ops)
  from snoc.prems [unfolded sel_run_snoc] show ?case
  proof (cases rule: sel_step_observation)
    case (kept ob0 hist)
    with snoc.IH measured_at_append show ?thesis by fastforce
  qed (auto simp: measured_at_def)
qed

lemma health_at_prune: "map_of av i \<noteq> None \<Longrightarrow> health_at (prune av s) now i = health_at s now i"
  by (auto simp: health_at_def split: option.splits)

lemma current_usable_prune: "current_usable av (prune av s) now = current_usable av s now"
  by (auto simp: current_usable_def health_at_prune split: option.splits)

lemma advantage_observed:
  assumes "advantage s srcs now x"
  shows "map_of (available_of srcs) x \<noteq> None"
    and "\<exists>ob. map_of (sel_sources s) x = Some ob \<and> h_LastAt (health_at s now x) = h_LastAt (o_health ob)"
proof -
  let ?av = "available_of srcs"
  have "healthy ?av (prune ?av s) now x"
    using assms pick_best_healthy unfolding advantage_def Let_def by metis
  then obtain src ob where "map_of ?av x = Some src" "map_of (sel_sources (prune ?av s)) x = Some ob"
    by (rule healthyD)
  then show "map_of ?av x \<noteq> None"
    and "\<exists>ob. map_of (sel_sources s) x = Some ob \<and> h_LastAt (health_at s now x) = h_LastAt (o_health ob)"
    by (auto simp: health_at_def health_def Let_def)
qed

lemma confirmed_is_measured:
  "confirmed_at marshal x (sel_run marshal p ops) ys \<subseteq> measured_at (ops @ ys) x"
proof (induction ys arbitrary: ops)
  case (Cons y ys)
  have "confirmed_by x (sel_run marshal p ops) y \<subseteq> measured_at ops x"
  proof (cases y)
    case (Op_Evaluate srcs now)
    show ?thesis
    proof (cases "advantage (sel_run marshal p ops) srcs now x")
      case True
      from advantage_observed(2) [OF this] obtain ob where
        "map_of (sel_sources (sel_run marshal p ops)) x = Some ob"
        "h_LastAt (health_at (sel_run marshal p ops) now x) = h_LastAt (o_health ob)" by blast
      with observed_is_measured [OF this(1)] Op_Evaluate show ?thesis by simp
    qed (simp add: Op_Evaluate)
  qed simp_all
  with measured_at_append [of ops x "y # ys"] Cons.IH [of "ops @ [y]"] show ?case
    by (auto simp: sel_run_snoc)
qed simp

section \<open>The confirmations of the pending candidate\<close>

text \<open>
  The confirmations counted for the pending candidate are backed by a last stretch of the history
  over which it kept its advantage: they are at most the distinct measurements on which the
  evaluations of that stretch found it.
\<close>

definition streak :: "(target list \<Rightarrow> string) \<Rightarrow> policy \<Rightarrow> sel_op list \<Rightarrow> string \<Rightarrow> int \<Rightarrow> gotime \<Rightarrow> bool" where
  "streak marshal p ops x n since \<longleftrightarrow>
     (\<exists>pre post. ops = pre @ post \<and>
        sustained marshal (sel_selected (sel_run marshal p ops)) x (sel_run marshal p pre) post \<and>
        n \<le> int (card (confirmed_at marshal x (sel_run marshal p pre) post)) \<and>
        (\<forall>t \<in> confirmed_at marshal x (sel_run marshal p pre) post. t \<le> since))"

definition candidate_backed :: "(target list \<Rightarrow> string) \<Rightarrow> policy \<Rightarrow> sel_op list \<Rightarrow> bool" where
  "candidate_backed marshal p ops =
     (let s = sel_run marshal p ops
      in (\<not> automatic s \<longrightarrow> sel_confirmations s = 0) \<and>
         streak marshal p ops (sel_candidate s) (sel_confirmations s) (sel_candidateAt s))"

lemma streak_zero: "n \<le> 0 \<Longrightarrow> streak marshal p ops x n since"
  unfolding streak_def by (rule exI [of _ ops], rule exI [of _ "[]"]) simp

text \<open>An operation that keeps the advantage lengthens the stretch by the measurement it counts.\<close>

lemma streak_snoc:
  assumes "streak marshal p ops x n since"
    and "keeps_advantage marshal cur x (sel_run marshal p ops) y"
    and "sel_selected (sel_run marshal p ops) = cur" "sel_selected (sel_run marshal p (ops @ [y])) = cur"
    and "n' = n \<and> since' = since \<and> (\<forall>t \<in> confirmed_by x (sel_run marshal p ops) y. t \<le> since) \<or>
         n' = n + 1 \<and> since < since' \<and> confirmed_by x (sel_run marshal p ops) y = {since'}"
  shows "streak marshal p (ops @ [y]) x n' since'"
proof -
  from assms(1,3) obtain pre post where *: "ops = pre @ post"
    "sustained marshal cur x (sel_run marshal p pre) post"
    "n \<le> int (card (confirmed_at marshal x (sel_run marshal p pre) post))"
    "\<forall>t \<in> confirmed_at marshal x (sel_run marshal p pre) post. t \<le> since"
    unfolding streak_def by blast
  let ?A = "confirmed_at marshal x (sel_run marshal p pre) post" and ?B = "confirmed_by x (sel_run marshal p ops) y"
  have seen: "confirmed_at marshal x (sel_run marshal p pre) (post @ [y]) = ?A \<union> ?B"
    using *(1) by (simp add: confirmed_at_append sel_run_append)
  have "finite ?B" by (cases y) auto
  have "n' \<le> int (card (?A \<union> ?B)) \<and> (\<forall>t \<in> ?A \<union> ?B. t \<le> since')"
    using assms(5)
  proof (elim disjE conjE)
    assume "n' = n" "since' = since" "\<forall>t \<in> ?B. t \<le> since"
    with *(3,4) card_mono [of "?A \<union> ?B" ?A] \<open>finite ?B\<close> show ?thesis by force
  next
    assume new: "n' = n + 1" "since < since'" "?B = {since'}"
    with *(4) have "since' \<notin> ?A" by fastforce
    then have "card (?A \<union> ?B) = Suc (card ?A)" using new(3) by simp
    with new *(3,4) show ?thesis by fastforce
  qed
  moreover have "sustained marshal cur x (sel_run marshal p pre) (post @ [y])"
    using *(1,2) assms(2) by (simp add: sustained_append sel_run_append)
  ultimately show ?thesis
    unfolding streak_def assms(4) seen [symmetric]
    by (intro exI [of _ pre] exI [of _ "post @ [y]"]) (simp add: *(1))
qed

text \<open>How an evaluation changes the pending candidate.\<close>

definition counting_since :: "selector \<Rightarrow> string \<Rightarrow> int \<times> gotime" where
  "counting_since s x = (if sel_candidate s = x then (sel_confirmations s, sel_candidateAt s) else (0, 0))"

lemma decide_same:
  "\<not> d_Changed (fst (decide s now y st w)) \<Longrightarrow> snd (decide s now y st w) = s"
  by (simp add: decide_def Let_def)

lemma decide_changed:
  "d_Changed (fst (decide s now y st w)) \<Longrightarrow> sel_confirmations (snd (decide s now y st w)) = 0"
  by (simp add: decide_def Let_def)

lemma fallback_same:
  "\<not> d_Changed (fst (fallback av s now w)) \<Longrightarrow> snd (fallback av s now w) = s"
  "d_Changed (fst (fallback av s now w)) \<Longrightarrow> sel_confirmations (snd (fallback av s now w)) = 0"
  unfolding fallback_def by (auto split: list.splits if_splits intro: decide_same decide_changed)

lemma confirm_candidate_state:
  fixes s now best
  defines "s' \<equiv> snd (confirm_candidate s now best)" and "t \<equiv> h_LastAt (health_at s now best)"
  assumes "best \<noteq> sel_selected s"
  shows "sel_confirmations s' = 0 \<or>
    sel_selected s' = sel_selected s \<and> sel_candidate s' = best \<and>
    (case counting_since s best of (n, since) \<Rightarrow>
       if since < t then sel_confirmations s' = n + 1 \<and> sel_candidateAt s' = t
       else sel_confirmations s' = n \<and> sel_candidateAt s' = since)"
  using assms(3) unfolding s'_def t_def
  by (auto simp: confirm_candidate_def counting_since_def decide_def Let_def clearCandidate_def)

lemma decide_candidate:
  "sel_confirmations (snd (decide s now y st w)) = 0 \<or>
   sel_candidate (snd (decide s now y st w)) = sel_candidate s \<and>
   sel_candidateAt (snd (decide s now y st w)) = sel_candidateAt s \<and>
   sel_confirmations (snd (decide s now y st w)) = sel_confirmations s"
  by (simp add: decide_def Let_def)

lemma available_of_ok: "gomap_ok (available_of srcs)"
proof -
  have "gomap_ok m \<Longrightarrow> gomap_ok (fold (\<lambda>src m. AList.update (s_ID src) src m) srcs m)" for m
    by (induction srcs arbitrary: m) auto
  then show ?thesis by (simp add: available_of_def)
qed

lemma candidate_usable:
  assumes "gomap_ok av" and "sel_selected s \<in> set (candidates av s now)"
  shows "current_usable av s now"
proof -
  from assms(2) obtain src where "(sel_selected s, src) \<in> set av" "s_Auto src" "healthy av s now (sel_selected s)"
    by (auto simp: candidates_def)
  with assms(1) have "map_of av (sel_selected s) = Some src" by (simp add: gomap_ok_set)
  with \<open>s_Auto src\<close> \<open>healthy av s now (sel_selected s)\<close> show ?thesis
    by (simp add: healthy_def current_usable_def)
qed

lemma Evaluate_not_automatic:
  assumes "\<not> automatic s"
  shows "sel_confirmations (snd (Evaluate s srcs now)) = 0 \<or>
    sel_confirmations (snd (Evaluate s srcs now)) = sel_confirmations s"
proof -
  let ?av = "available_of srcs"
  have "sel_confirmations (snd (fallback ?av (prune ?av s) now w)) \<in> {0, sel_confirmations s}" for w
    using fallback_same [of ?av "prune ?av s" now w]
    by (cases "d_Changed (fst (fallback ?av (prune ?av s) now w))") simp_all
  with assms decide_candidate [of s now "''''"] decide_candidate [of "prune ?av s" now "p_Pinned (sel_policy s)"]
  show ?thesis
    by (auto simp: Evaluate_def automatic_def Let_def split: if_splits)
qed

lemma Evaluate_candidate_cases:
  fixes s srcs now
  defines "s' \<equiv> snd (Evaluate s srcs now)"
  obtains (none) "sel_confirmations s' = 0"
  | (manual) "\<not> automatic s" "sel_confirmations s' = sel_confirmations s"
  | (skipped) "nothing_compared s srcs now" "\<And>x. \<not> advantage s srcs now x" "sel_selected s' = sel_selected s" "sel_candidate s' = sel_candidate s"
      "sel_confirmations s' = sel_confirmations s" "sel_candidateAt s' = sel_candidateAt s"
  | (counted) x n since where "advantage s srcs now x" "sel_selected s' = sel_selected s" "sel_candidate s' = x"
      "counting_since s x = (n, since)"
      "if since < h_LastAt (health_at s now x)
       then sel_confirmations s' = n + 1 \<and> sel_candidateAt s' = h_LastAt (health_at s now x)
       else sel_confirmations s' = n \<and> sel_candidateAt s' = since"
proof (cases "automatic s")
  case False
  with Evaluate_not_automatic [OF this, of srcs now] none manual show ?thesis
    unfolding s'_def by blast
next
  case True
  let ?av = "available_of srcs"
  let ?s = "prune ?av s"
  let ?best = "pick_best (health_at ?s now) (candidates ?av ?s now)"
  let ?better = "better (health_at ?s now ?best) (health_at ?s now (sel_selected ?s)) (p_ImprovementPercent (sel_policy ?s))"
  have ev: "Evaluate s srcs now = evaluate_auto ?av ?s now"
    using True by (simp add: Evaluate_def automatic_def Let_def)
  consider (fb) "\<not> current_usable ?av ?s now" "?best = ''''"
    | (first) "\<not> current_usable ?av ?s now" "?best \<noteq> ''''"
    | (stay) "current_usable ?av ?s now" "?best = '''' \<or> ?best = sel_selected ?s \<or> \<not> ?better"
    | (cand) "current_usable ?av ?s now" "?best \<noteq> ''''" "?best \<noteq> sel_selected ?s" "?better"
    by blast
  then show ?thesis
  proof cases
    case fb
    let ?w = "''No eligible source has fresh successful resource checks''"
    have e: "Evaluate s srcs now = fallback ?av ?s now ?w"
      using fb ev by (simp add: evaluate_auto_def Let_def)
    show ?thesis
    proof (cases "d_Changed (fst (fallback ?av ?s now ?w))")
      case True
      with fallback_same(2) e none show ?thesis by (simp add: s'_def)
    next
      case False
      with fallback_same(1) e have "s' = ?s" by (simp add: s'_def)
      moreover have "nothing_compared s srcs now" "\<And>x. \<not> advantage s srcs now x"
        using fb e False by (simp_all add: nothing_compared_def advantage_def Let_def)
      ultimately show ?thesis using skipped by simp
    qed
  next
    case first
    have "?best \<in> set (candidates ?av ?s now)" using first(2) pick_best_in by blast
    then have "?best \<noteq> sel_selected ?s"
      using first(1) candidate_usable [OF available_of_ok] by metis
    then show ?thesis
      using first none ev by (simp add: s'_def evaluate_auto_def Let_def decide_changed)
  next
    case stay
    have "sel_confirmations (snd (decide (clearCandidate ?s) now y st w)) = 0" for y st w
      by (simp add: decide_def Let_def)
    with stay ev have "sel_confirmations s' = 0"
      by (simp add: s'_def evaluate_auto_def Let_def)
    then show ?thesis by (rule none)
  next
    case cand
    then have e: "Evaluate s srcs now = confirm_candidate ?s now ?best"
      using ev by (simp add: evaluate_auto_def Let_def)
    have adv: "advantage s srcs now ?best"
      using cand True by (simp add: advantage_def automatic_def Let_def)
    have "h_LastAt (health_at ?s now ?best) = h_LastAt (health_at s now ?best)"
      "counting_since ?s ?best = counting_since s ?best"
      using advantage_observed(1) [OF adv] by (simp_all add: health_at_prune counting_since_def)
    with confirm_candidate_state [OF cand(3), of now] e show ?thesis
      using none counted [OF adv] by (auto simp: s'_def split: prod.splits)
  qed
qed

lemma candidate_backed_run: "candidate_backed marshal p ops"
proof (induction ops rule: rev_induct)
  case Nil
  show ?case by (simp add: candidate_backed_def Let_def streak_zero) (simp add: sel_run_def New_def streak_zero)
next
  case (snoc y ops)
  let ?s = "sel_run marshal p ops" and ?s' = "sel_run marshal p (ops @ [y])"
  from snoc have auto_only: "\<not> automatic ?s \<Longrightarrow> sel_confirmations ?s = 0"
    and IH: "streak marshal p ops (sel_candidate ?s) (sel_confirmations ?s) (sel_candidateAt ?s)"
    by (simp_all add: candidate_backed_def Let_def)
  have quiet: "candidate_backed marshal p (ops @ [y])"
    if "keeps_advantage marshal (sel_selected ?s) (sel_candidate ?s) ?s y" "confirmed_by (sel_candidate ?s) ?s y = {}"
      "sel_selected ?s' = sel_selected ?s" "sel_candidate ?s' = sel_candidate ?s"
      "sel_confirmations ?s' = sel_confirmations ?s" "sel_candidateAt ?s' = sel_candidateAt ?s"
      "sel_policy ?s' = sel_policy ?s"
    using that streak_snoc [OF IH that(1) refl that(3)] auto_only by (simp add: candidate_backed_def automatic_def Let_def)
  have zero: "candidate_backed marshal p (ops @ [y])" if "sel_confirmations ?s' = 0"
    using that by (simp add: candidate_backed_def Let_def streak_zero)
  show ?case
  proof (cases y)
    case (Op_Configure q)
    then show ?thesis by (intro zero) (simp add: sel_run_snoc Configure_def)
  next
    case (Op_SetTargets ts)
    show ?thesis
    proof (cases "marshal ts = sel_targetSignature ?s")
      case True
      with Op_SetTargets show ?thesis by (intro quiet) (simp_all add: sel_run_snoc SetTargets_def Let_def)
    next
      case False
      with Op_SetTargets show ?thesis by (intro zero) (simp add: sel_run_snoc SetTargets_def Let_def)
    qed
  next
    case (Op_SetHistoryLimit n)
    then show ?thesis by (intro quiet) (simp_all add: sel_run_snoc SetHistoryLimit_def Let_def)
  next
    case (Op_Observe m)
    then show ?thesis
      by (intro quiet; cases rule: Observe_cases [of ?s m]) (simp_all add: sel_run_snoc)
  next
    case (Op_Evaluate srcs now)
    then have s': "?s' = snd (Evaluate ?s srcs now)" by (simp add: sel_run_snoc)
    have pol: "sel_policy ?s' = sel_policy ?s"
      unfolding s' by (rule Evaluate_frame)
    show ?thesis
    proof (cases rule: Evaluate_candidate_cases [of ?s srcs now])
      case none
      with s' show ?thesis by (intro zero) simp
    next
      case manual
      with auto_only s' show ?thesis by (intro zero) simp
    next
      case skipped
      with Op_Evaluate pol s' show ?thesis by (intro quiet) simp_all
    next
      case (counted x n since)
      have start: "streak marshal p ops x n since"
        using IH counted(4) streak_zero by (auto simp: counting_since_def split: if_splits)
      have "automatic ?s"
        using counted(1) by (simp add: advantage_def automatic_def Let_def)
      moreover have "streak marshal p (ops @ [y]) x (sel_confirmations ?s') (sel_candidateAt ?s')"
        by (rule streak_snoc [OF start, of "sel_selected ?s"])
          (use counted Op_Evaluate s' in \<open>auto split: if_splits\<close>)
      ultimately show ?thesis
        using counted(3) pol s' by (simp add: candidate_backed_def automatic_def Let_def)
    qed
  qed
qed

text \<open>
  C5: in automatic mode, after any sequence of operations, a decision that leaves a source which
  is still usable does so only for the best of the healthy candidates, whose quality exceeds the
  current source's by the configured percentage, and only at the end of a stretch of operations
  over which it kept that advantage over the same selected source: with the policy and the targets
  unchanged, every evaluation of the stretch that compared sources found it again the best by that
  margin, and these evaluations and the present one rested on at least as many measurements of it,
  reported at distinct instants, as the policy asks confirmations. An evaluation that misses the
  advantage ends the stretch. The minimum dwell time and the cooldown have passed as well.
\<close>

theorem switch_needs_sustained_advantage:
  fixes marshal p ops srcs now
  defines "s \<equiv> sel_run marshal p ops"
  assumes "p_Mode (sel_policy s) = ''auto''"
    and "current_usable (available_of srcs) s now"
    and "Evaluate s srcs now = (d, s')" and "d_Changed d"
  shows "advantage s srcs now (d_Selected d) \<and>
    better (health_at s now (d_Selected d)) (health_at s now (sel_selected s)) (p_ImprovementPercent (sel_policy s)) \<and>
    (\<exists>pre post. ops = pre @ post \<and>
       sustained marshal (sel_selected s) (d_Selected d) (sel_run marshal p pre) post \<and>
       (let instants = insert (h_LastAt (health_at s now (d_Selected d)))
                         (confirmed_at marshal (d_Selected d) (sel_run marshal p pre) post)
        in instants \<subseteq> measured_at ops (d_Selected d) \<and>
           p_Confirmations (sel_policy s) \<le> int (card instants))) \<and>
    dur_mul (p_MinDwellSeconds (sel_policy s)) second \<le> time_sub now (sel_selectedAt s) \<and>
    dur_mul (p_CooldownSeconds (sel_policy s)) second \<le> time_sub now (sel_lastSwitch s)"
proof -
  let ?av = "available_of srcs" and ?x = "d_Selected d"
  let ?s = "prune ?av s"
  have ev: "evaluate_auto ?av ?s now = (d, s')"
    using assms(2,4) by (simp add: Evaluate_def Let_def)
  have us: "current_usable ?av ?s now"
    using assms(3) by (simp add: current_usable_prune)
  note switch = evaluate_auto_switch [OF us, unfolded ev fst_conv, OF assms(5)]
  have adv: "advantage s srcs now ?x"
    using switch assms(2) us by (simp add: advantage_def automatic_def Let_def)
  have "map_of ?av (sel_selected s) \<noteq> None" "map_of ?av ?x \<noteq> None"
    using assms(3) advantage_observed(1) [OF adv] by (auto elim: current_usableD)
  then have at: "health_at ?s now ?x = health_at s now ?x"
    "health_at ?s now (sel_selected s) = health_at s now (sel_selected s)"
    by (simp_all add: health_at_prune)
  have "d_Changed (fst (confirm_candidate ?s now ?x))"
    using switch(1) assms(5) by (metis fst_conv)
  note conf = confirm_candidate_switch [OF this, unfolded confirmed_after_def at, simplified]
  have "candidate_backed marshal p ops" by (rule candidate_backed_run)
  then have "streak marshal p ops ?x n since" if "counting_since s ?x = (n, since)" for n since
    using that streak_zero by (auto simp: counting_since_def candidate_backed_def Let_def s_def split: if_splits)
  then obtain n since where n: "counting_since s ?x = (n, since)" "streak marshal p ops ?x n since"
    by (cases "counting_since s ?x") blast
  from n(2) obtain pre post where ops: "ops = pre @ post"
    "sustained marshal (sel_selected s) ?x (sel_run marshal p pre) post"
    "n \<le> int (card (confirmed_at marshal ?x (sel_run marshal p pre) post))"
    "\<forall>t \<in> confirmed_at marshal ?x (sel_run marshal p pre) post. t \<le> since"
    unfolding streak_def s_def by blast
  let ?A = "confirmed_at marshal ?x (sel_run marshal p pre) post" and ?t = "h_LastAt (health_at s now ?x)"
  have "?t \<in> measured_at ops ?x"
    using advantage_observed(2) [OF adv] observed_is_measured unfolding s_def by fastforce
  then have inst: "insert ?t ?A \<subseteq> measured_at ops ?x"
    using confirmed_is_measured [of marshal ?x p pre post] ops(1) by simp
  have "(if since < ?t then n + 1 else n) \<le> int (card (insert ?t ?A))"
  proof (cases "since < ?t")
    case True
    with ops(4) have "?t \<notin> ?A" by fastforce
    with True ops(3) show ?thesis by simp
  next
    case False
    with ops(3) card_mono [of "insert ?t ?A" ?A] show ?thesis by force
  qed
  with conf n(1) have "p_Confirmations (sel_policy s) \<le> int (card (insert ?t ?A))"
    by (auto simp: counting_since_def split: if_splits)
  with inst ops(1,2) have "\<exists>pre post. ops = pre @ post \<and>
       sustained marshal (sel_selected s) ?x (sel_run marshal p pre) post \<and>
       (let instants = insert ?t (confirmed_at marshal ?x (sel_run marshal p pre) post)
        in instants \<subseteq> measured_at ops ?x \<and> p_Confirmations (sel_policy s) \<le> int (card instants))"
    unfolding Let_def by blast
  with adv switch(3) conf at show ?thesis by simp
qed

text \<open>
  A run with two sources in which the second one takes over once two measurements of it have
  confirmed its advantage: the evaluation at 8 still keeps the first source, the one at 10 switches.
\<close>

definition sample_auto :: policy where
  "sample_auto = sample_policy\<lparr>p_Mode := ''auto'', p_Confirmations := 2, p_ImprovementPercent := F64 100\<rparr>"

definition sample_pair :: "source list" where
  "sample_pair = map (\<lambda>i. \<lparr>s_ID = i, s_Name = '''', s_Type = ''socks5'', s_Enabled = True, s_Auto = True\<rparr>) [''a'', ''b'']"

definition sample_weak :: measurement where
  "sample_weak = (sample_measurement 5 True)\<lparr>m_Resources := sample_resource True #
     map (\<lambda>i. (sample_resource False)\<lparr>r_TargetID := i, r_Required := False\<rparr>) [''u'', ''v'', ''w'']\<rparr>"

definition sample_strong :: "gotime \<Rightarrow> measurement" where
  "sample_strong t = (sample_measurement t True)\<lparr>m_SourceID := ''b''\<rparr>"

definition sample_ops :: "sel_op list" where
  "sample_ops = [Op_Observe sample_weak, Op_Evaluate sample_pair 6, Op_Observe (sample_strong 7),
     Op_Evaluate sample_pair 8, Op_Observe (sample_strong 9)]"

lemmas evaluate_defs = Evaluate_def prune_def available_of_def healthy_def health_at_def health_def
  health_state_def stale_after_def dur_mul_def wrap64_def decide_def clearCandidate_def evaluate_auto_def
  current_usable_def candidates_def pick_best_def confirm_candidate_def better_def quality_def Let_def

lemma f_of_int_numeral_4 [simp]: "f_of_int 4 = F64 4"
  by (simp add: f_of_int_def)

lemma smooth_one: "smooth (F64 1) (F64 1) False = F64 1"
proof -
  have "exponent (18014398509481983 / 18014398509481984) = - 1"
    by (rule exponent_eqI) (simp_all add: powi_neg)
  moreover have "round_half_even (18014398509481983 / 2) = 9007199254740992"
  proof -
    have "\<lfloor>18014398509481983 / 2 :: rat\<rfloor> = 9007199254740991" by (simp add: floor_eq_iff)
    then show ?thesis by (simp add: round_half_even_def Let_def)
  qed
  ultimately have "rnd (18014398509481983 / 18014398509481984) = 1"
    by (simp add: rnd_def quantum_def powi_neg)
  then have "round64 (18014398509481983 / 18014398509481984) = F64 1"
    using round64_unit [of "18014398509481983 / 18014398509481984"] by simp
  moreover have "round64 (3 / 10) = F64 (rnd (3 / 10))" "round64 (7 / 10) = F64 (rnd (7 / 10))"
    "round64 (rnd (3 / 10)) = F64 (rnd (3 / 10))" "round64 (rnd (7 / 10)) = F64 (rnd (7 / 10))"
    using round64_unit [of "3 / 10"] round64_unit [of "7 / 10"] round64_unit [of "rnd (3 / 10)"] round64_unit [of "rnd (7 / 10)"]
    by (simp_all add: rnd_3_10 rnd_7_10 rnd_3_10_fixed rnd_7_10_fixed)
  ultimately show ?thesis
    by (simp add: smooth_def rnd_3_10 rnd_7_10)
qed

definition sample_seen :: "string \<Rightarrow> gotime \<Rightarrow> f64 \<Rightarrow> int \<Rightarrow> measurement list \<Rightarrow> observation" where
  "sample_seen i t rate n hist = \<lparr>o_health = zero_health\<lparr>h_SourceID := i, h_State := ''unknown'', h_LastAt := t,
       h_SuccessRate := rate, h_ConsecutiveSuccesses := n, h_Resources := m_Resources (last hist)\<rparr>,
     o_history = hist, o_failedRequired = 0, o_fullFailure = False, o_needsRecovery = False, o_speedAt = 0, o_lossAt = 0\<rparr>"

definition sample_state :: "(string, observation) gomap \<Rightarrow> selector" where
  "sample_state obs = (New sample_auto)\<lparr>sel_sources := (''a'', sample_seen ''a'' 5 (F64 (1 / 4)) 1 [sample_weak]) # obs,
     sel_selected := ''a'', sel_selectedAt := 6, sel_lastSwitch := 6\<rparr>"

lemmas sample_state_defs = sample_state_def sample_seen_def sample_strong_def sample_weak_def sample_pair_def sample_auto_def

lemma sample_run_start: "sel_run (\<lambda>_. '''') sample_auto [Op_Observe sample_weak, Op_Evaluate sample_pair 6] = sample_state []"
proof -
  have "Observe (New sample_auto) sample_weak =
      (New sample_auto)\<lparr>sel_sources := [(''a'', sample_seen ''a'' 5 (F64 (1 / 4)) 1 [sample_weak])]\<rparr>"
    by (simp add: sample_state_defs sample_defs)
  then show ?thesis
    by (simp add: sel_run_def evaluate_defs sample_state_defs sample_policy_def New_def safePolicy_def zero_health_def go_simps)
qed

lemma sample_first_seen: "Observe (sample_state []) (sample_strong 7) =
    sample_state [(''b'', sample_seen ''b'' 7 (F64 1) 1 [sample_strong 7])]"
  by (simp add: sample_state_defs sample_defs)

lemma sample_first_confirmation:
  "snd (Evaluate (sample_state [(''b'', sample_seen ''b'' 7 (F64 1) 1 [sample_strong 7])]) sample_pair 8) =
   (sample_state [(''b'', sample_seen ''b'' 7 (F64 1) 1 [sample_strong 7])])
     \<lparr>sel_candidate := ''b'', sel_confirmations := 1, sel_candidateAt := 7\<rparr>"
  by (simp add: evaluate_defs sample_state_defs sample_policy_def New_def safePolicy_def zero_health_def go_simps)

lemma sample_second_seen:
  "Observe ((sample_state [(''b'', sample_seen ''b'' 7 (F64 1) 1 [sample_strong 7])])
     \<lparr>sel_candidate := ''b'', sel_confirmations := 1, sel_candidateAt := 7\<rparr>) (sample_strong 9) =
   (sample_state [(''b'', sample_seen ''b'' 9 (F64 1) 2 [sample_strong 7, sample_strong 9])])
     \<lparr>sel_candidate := ''b'', sel_confirmations := 1, sel_candidateAt := 7\<rparr>"
  using smooth_one by (simp add: sample_state_defs sample_defs)

lemma sample_run: "sel_run (\<lambda>_. '''') sample_auto sample_ops =
   (sample_state [(''b'', sample_seen ''b'' 9 (F64 1) 2 [sample_strong 7, sample_strong 9])])
     \<lparr>sel_candidate := ''b'', sel_confirmations := 1, sel_candidateAt := 7\<rparr>"
proof -
  have ops: "sample_ops = [Op_Observe sample_weak, Op_Evaluate sample_pair 6] @
      [Op_Observe (sample_strong 7), Op_Evaluate sample_pair 8, Op_Observe (sample_strong 9)]"
    by (simp add: sample_ops_def)
  show ?thesis
    unfolding ops sel_run_append [symmetric] sample_run_start
    by (simp add: sample_first_seen sample_first_confirmation sample_second_seen)
qed

theorem switch_needs_sustained_advantage_witness:
  "d_Selected (fst (Evaluate (sel_run (\<lambda>_. '''') sample_auto sample_ops) sample_pair 10)) = ''b'' \<and>
   (\<exists>pre post. sample_ops = pre @ post \<and>
     sustained (\<lambda>_. '''') ''a'' ''b'' (sel_run (\<lambda>_. '''') sample_auto pre) post \<and>
     2 \<le> int (card (insert 9 (confirmed_at (\<lambda>_. '''') ''b'' (sel_run (\<lambda>_. '''') sample_auto pre) post))))"
proof -
  let ?s = "sel_run (\<lambda>_. '''') sample_auto sample_ops"
  have pol: "p_Mode (sel_policy ?s) = ''auto''" "p_Confirmations (sel_policy ?s) = 2"
    "sel_selected ?s = ''a''" "h_LastAt (health_at ?s 10 ''b'') = 9"
    unfolding sample_run
    by (simp_all add: evaluate_defs sample_state_defs sample_policy_def New_def safePolicy_def zero_health_def)
  have us: "current_usable (available_of sample_pair) ?s 10"
    unfolding sample_run
    by (simp add: evaluate_defs sample_state_defs sample_policy_def New_def safePolicy_def zero_health_def go_simps)
  have d: "d_Selected (fst (Evaluate ?s sample_pair 10)) = ''b''" "d_Changed (fst (Evaluate ?s sample_pair 10))"
    unfolding sample_run
    by (simp_all add: evaluate_defs sample_state_defs sample_policy_def New_def safePolicy_def zero_health_def go_simps)
  show ?thesis
    using switch_needs_sustained_advantage [OF pol(1) us, of "fst (Evaluate ?s sample_pair 10)" "snd (Evaluate ?s sample_pair 10)"]
    unfolding Let_def by (auto simp: d pol)
qed

section \<open>The invariant of the selector\<close>

text \<open>
  Every observation has a bounded, non-empty history that ends in the newest measurement, figures
  in their ranges, and never both kinds of consecutive outcomes; the policy is a safe one.
\<close>

definition observation_ok :: "int \<Rightarrow> string \<Rightarrow> observation \<Rightarrow> bool" where
  "observation_ok limit i ob \<longleftrightarrow>
     h_SourceID (o_health ob) = i \<and>
     0 < length (o_history ob) \<and> int (length (o_history ob)) \<le> limit \<and>
     m_At (last (o_history ob)) = h_LastAt (o_health ob) \<and> m_SourceID (last (o_history ob)) = i \<and>
     in_unit (h_SuccessRate (o_health ob)) \<and>
     (\<forall>l. h_PacketLoss (o_health ob) = Some l \<longrightarrow> in_unit l) \<and>
     0 \<le> h_ConsecutiveFailures (o_health ob) \<and> 0 \<le> h_ConsecutiveSuccesses (o_health ob) \<and>
     (h_ConsecutiveFailures (o_health ob) = 0 \<or> h_ConsecutiveSuccesses (o_health ob) = 0)"

definition selector_ok :: "selector \<Rightarrow> bool" where
  "selector_ok s \<longleftrightarrow>
     gomap_ok (sel_sources s) \<and> 1 \<le> sel_historyLimit s \<and> sel_historyLimit s \<le> 256 \<and>
     (\<forall>i ob. map_of (sel_sources s) i = Some ob \<longrightarrow> observation_ok (sel_historyLimit s) i ob) \<and>
     (\<exists>p. sel_policy s = safePolicy p)"

lemma trim_history_props:
  assumes "1 \<le> limit" and "hist \<noteq> []"
  shows "trim_history limit hist \<noteq> []" "int (length (trim_history limit hist)) \<le> limit"
    "last (trim_history limit hist) = last hist"
  using assms by (auto simp: trim_history_def)

lemma tally_one_succeeded:
  "y_succeeded (tally_one req r y) = y_succeeded y + (if r_Success r then 1 else 0)"
  by (simp add: tally_one_def Let_def)

lemma fold_tally_succeeded:
  "y_succeeded (fold (tally_one req) rs y) = y_succeeded y + int (length (filter r_Success rs))"
  by (induction rs arbitrary: y) (auto simp: tally_one_succeeded)

lemma tally_succeeded: "y_succeeded (tally_of req rs) = int (length (filter r_Success rs))"
  by (simp add: tally_of_def Let_def fold_tally_succeeded zero_tally_def)

lemma in_unit_zero [simp]: "in_unit (F64 0)"
  by (simp add: in_unit_def)

lemma smooth_unit: "in_unit old \<Longrightarrow> in_unit next \<Longrightarrow> in_unit (smooth old next first)"
  by (simp add: smooth_def weighted_unit)

lemma loss_unit: "loss_ok (Some l) \<Longrightarrow> in_unit l"
  by (cases l) (auto simp: loss_ok_def in_unit_def not_less)

lemma observe_metrics_unit:
  fixes req m ob
  assumes "in_unit (h_SuccessRate (o_health ob))"
    and "\<And>l. h_PacketLoss (o_health ob) = Some l \<Longrightarrow> in_unit l"
    and "m_Resources m \<noteq> []" and "length (m_Resources m) < 2 ^ 63" and "loss_ok (m_PacketLoss m)"
  defines "ob' \<equiv> observe_metrics (tally_of req (m_Resources m)) m ob"
  shows "in_unit (h_SuccessRate (o_health ob'))" "h_PacketLoss (o_health ob') = Some l \<Longrightarrow> in_unit l"
proof -
  let ?y = "tally_of req (m_Resources m)"
  have "in_unit (f_div (f_of_int (y_succeeded ?y)) (f_of_int (int (length (m_Resources m)))))"
    using assms(3,4) by (intro ratio_unit) (auto simp: tally_succeeded)
  then show "in_unit (h_SuccessRate (o_health ob'))"
    using assms(1) by (simp add: ob'_def observe_metrics_def Let_def smooth_unit split: option.splits)
  show "in_unit l" if "h_PacketLoss (o_health ob') = Some l"
    using that assms(2,5)
    by (auto simp: ob'_def observe_metrics_def Let_def loss_unit intro!: smooth_unit
        split: option.splits if_splits)
qed

lemma observe_verdict_counters:
  fixes p y m ob
  defines "h \<equiv> o_health (observe_verdict p y m ob)"
  assumes "0 \<le> h_ConsecutiveFailures (o_health ob)" "0 \<le> h_ConsecutiveSuccesses (o_health ob)"
  shows "0 \<le> h_ConsecutiveFailures h \<and> 0 \<le> h_ConsecutiveSuccesses h \<and>
    (h_ConsecutiveFailures h = 0 \<or> h_ConsecutiveSuccesses h = 0)"
  using assms by (simp add: observe_verdict_def Let_def)

lemma observe_source_ok:
  assumes "1 \<le> sel_historyLimit s" and "measurement_ok m" and "length (m_Resources m) < 2 ^ 63"
    and "observation_ok (sel_historyLimit s) (m_SourceID m) ob \<or> ob = new_observation (m_SourceID m)"
  shows "observation_ok (sel_historyLimit s) (m_SourceID m) (observe_source s m ob)"
proof -
  have start: "in_unit (h_SuccessRate (o_health ob))" "h_SourceID (o_health ob) = m_SourceID m"
    "0 \<le> h_ConsecutiveFailures (o_health ob)" "0 \<le> h_ConsecutiveSuccesses (o_health ob)"
    and loss: "\<And>l. h_PacketLoss (o_health ob) = Some l \<Longrightarrow> in_unit l"
    using assms(4) by (auto simp: observation_ok_def new_observation_def zero_health_def)
  let ?hist = "o_history ob @ [m]"
  let ?ob = "ob\<lparr>o_history := trim_history (sel_historyLimit s) ?hist\<rparr>"
  let ?y = "tally_of (sel_required s) (m_Resources m)"
  have m: "m_Resources m \<noteq> []" "loss_ok (m_PacketLoss m)"
    using assms(2) by (simp_all add: measurement_ok_def)
  have start': "in_unit (h_SuccessRate (o_health ?ob))" "\<And>l. h_PacketLoss (o_health ?ob) = Some l \<Longrightarrow> in_unit l"
    using start(1) loss by simp_all
  have unit: "in_unit (h_SuccessRate (o_health (observe_metrics ?y m ?ob)))"
    "\<forall>l. h_PacketLoss (o_health (observe_metrics ?y m ?ob)) = Some l \<longrightarrow> in_unit l"
    using observe_metrics_unit [OF start' m(1) assms(3) m(2)] by blast+
  have counters: "0 \<le> h_ConsecutiveFailures (o_health (observe_source s m ob)) \<and>
    0 \<le> h_ConsecutiveSuccesses (o_health (observe_source s m ob)) \<and>
    (h_ConsecutiveFailures (o_health (observe_source s m ob)) = 0 \<or>
     h_ConsecutiveSuccesses (o_health (observe_source s m ob)) = 0)"
    unfolding observe_source_def Let_def using start(3,4) by (intro observe_verdict_counters) simp_all
  have "h_SourceID (o_health (observe_source s m ob)) = m_SourceID m"
    "o_history (observe_source s m ob) = trim_history (sel_historyLimit s) ?hist"
    "h_SuccessRate (o_health (observe_source s m ob)) = h_SuccessRate (o_health (observe_metrics ?y m ?ob))"
    "h_PacketLoss (o_health (observe_source s m ob)) = h_PacketLoss (o_health (observe_metrics ?y m ?ob))"
    using start(2) by (simp_all add: observe_source_def Let_def)
  then show ?thesis
    using trim_history_props [OF assms(1), of ?hist] unit counters
    unfolding observation_ok_def by simp
qed

lemma Observe_ok:
  assumes "selector_ok s" and "length (m_Resources m) < 2 ^ 63"
  shows "selector_ok (Observe s m)"
proof (cases rule: Observe_cases [of s m])
  case ignored
  with assms show ?thesis by simp
next
  case (taken ob)
  have "observation_ok (sel_historyLimit s) (m_SourceID m) ob \<or> ob = new_observation (m_SourceID m)"
    using taken(2) assms(1) by (auto simp: selector_ok_def)
  then have "observation_ok (sel_historyLimit s) (m_SourceID m) (observe_source s m ob)"
    using assms taken(1) by (intro observe_source_ok) (auto simp: selector_ok_def)
  with assms(1) show ?thesis
    unfolding taken(3) by (auto simp: selector_ok_def)
qed

lemma SetHistoryLimit_ok: "selector_ok s \<Longrightarrow> selector_ok (SetHistoryLimit s n)"
proof -
  assume ok: "selector_ok s"
  define limit where "limit = sel_historyLimit (SetHistoryLimit s n)"
  have limit: "1 \<le> limit" "limit \<le> 256"
    by (simp_all add: limit_def SetHistoryLimit_def Let_def)
  have sources: "sel_sources (SetHistoryLimit s n) =
      map (\<lambda>(k, ob). (k, ob\<lparr>o_history := trim_history limit (o_history ob)\<rparr>)) (sel_sources s)"
    by (simp add: limit_def SetHistoryLimit_def Let_def)
  have "observation_ok limit i (ob\<lparr>o_history := trim_history limit (o_history ob)\<rparr>)"
    if "map_of (sel_sources s) i = Some ob" for i ob
    using that ok trim_history_props [OF limit(1), of "o_history ob"]
    by (auto simp: selector_ok_def observation_ok_def)
  moreover have "sel_policy (SetHistoryLimit s n) = sel_policy s"
    by (simp add: SetHistoryLimit_def Let_def)
  ultimately show ?thesis
    using ok limit unfolding selector_ok_def limit_def [symmetric] sources by auto
qed

lemma prune_ok: "selector_ok s \<Longrightarrow> selector_ok (prune av s)"
  by (auto simp: selector_ok_def prune_def split: if_splits)

lemma selector_ok_cong:
  "selector_ok s \<Longrightarrow> sel_sources s' = sel_sources s \<Longrightarrow> sel_policy s' = sel_policy s \<Longrightarrow>
   sel_historyLimit s' = sel_historyLimit s \<Longrightarrow> selector_ok s'"
  by (simp add: selector_ok_def)

lemma Evaluate_ok: "selector_ok s \<Longrightarrow> selector_ok (snd (Evaluate s srcs now))"
proof -
  assume ok: "selector_ok s"
  let ?av = "available_of srcs"
  have "selector_ok (snd (evaluate_auto ?av (prune ?av s) now))"
    by (rule selector_ok_cong [OF prune_ok [OF ok, of ?av]])
      (simp_all add: evaluate_auto_def Let_def fallback_frame confirm_candidate_frame)
  moreover have "selector_ok (snd (fallback ?av (prune ?av s) now w))" for w
    by (rule selector_ok_cong [OF prune_ok [OF ok, of ?av]]) (simp_all add: fallback_frame)
  moreover have "selector_ok (snd (decide (prune ?av s) now x st w))" for x st w
    by (rule selector_ok_cong [OF prune_ok [OF ok, of ?av]]) simp_all
  moreover have "selector_ok (snd (decide s now x st w))" for x st w
    by (rule selector_ok_cong [OF ok]) simp_all
  ultimately show ?thesis
    by (simp add: Evaluate_def Let_def)
qed

text \<open>
  C25: every state a selector reaches by any sequence of its operations is well formed: histories
  are non-empty and within the limit of at most 256, the success rate and the packet loss lie in
  the unit interval whatever the rounding, the outcome counters are consistent, and the policy in
  force is one that \<^verbatim>\<open>safePolicy\<close> produced. (A slice has fewer than \<open>2 ^ 63\<close> elements.)
\<close>

theorem selector_invariant:
  assumes "\<forall>m. Op_Observe m \<in> set ops \<longrightarrow> length (m_Resources m) < 2 ^ 63"
  shows "selector_ok (sel_run marshal p ops)"
  using assms
proof (induction ops rule: rev_induct)
  case Nil
  show ?case by (auto simp: sel_run_def New_def selector_ok_def)
next
  case (snoc x ops)
  then have "selector_ok (sel_run marshal p ops)" by simp
  then have "selector_ok (sel_step marshal x (sel_run marshal p ops))"
    using snoc.prems Evaluate_ok Observe_ok SetHistoryLimit_ok
    by (cases x) (auto simp: selector_ok_def Configure_def SetTargets_def Let_def)
  then show ?case by (simp add: sel_run_def)
qed

theorem selector_invariant_witness:
  "selector_ok (sel_run (\<lambda>_. '''') sample_auto sample_ops)"
proof -
  have "\<forall>m. Op_Observe m \<in> set sample_ops \<longrightarrow> length (m_Resources m) < 2 ^ 63"
    by (auto simp: sample_ops_def sample_weak_def sample_strong_def sample_measurement_def)
  then show ?thesis by (rule selector_invariant)
qed

section \<open>Measurements\<close>

text \<open>
  A measurement that repeats or precedes one already counted for its source changes nothing:
  not the figures, not the history, not a counter.
\<close>

theorem replayed_measurement_ignored:
  assumes "Observe s m \<noteq> s" and "m_SourceID m' = m_SourceID m" and "m_At m' \<le> m_At m"
  shows "Observe (Observe s m) m' = Observe s m"
proof (cases rule: Observe_cases [of s m])
  case ignored
  with assms(1) show ?thesis by simp
next
  case (taken ob)
  then have "map_of (sel_sources (Observe s m)) (m_SourceID m') = Some (observe_source s m ob)"
    using assms(2) by simp
  with assms(3) show ?thesis
    by (simp add: Observe_def [of "Observe s m"])
qed

lemma sample_observed: "Observe (New sample_policy) (sample_measurement 5 True) \<noteq> New sample_policy"
proof
  assume "Observe (New sample_policy) (sample_measurement 5 True) = New sample_policy"
  then have "sel_sources sample_selector = sel_sources (New sample_policy)"
    by (simp add: sample_selector_def)
  then show False by (simp add: sample_selector_eq New_def)
qed

theorem replayed_measurement_ignored_witness:
  "Observe sample_selector (sample_measurement 4 False) = sample_selector"
  unfolding sample_selector_def
  by (rule replayed_measurement_ignored [OF sample_observed]) (simp_all add: sample_measurement_def)

section \<open>Recovery\<close>

text \<open>The measurements of a source that a stretch of operations counted, in order.\<close>

fun counted_by :: "string \<Rightarrow> selector \<Rightarrow> sel_op \<Rightarrow> measurement list" where
  "counted_by i s (Op_Observe m) = (if m_SourceID m = i \<and> Observe s m \<noteq> s then [m] else [])"
| "counted_by i s _ = []"

primrec counted :: "(target list \<Rightarrow> string) \<Rightarrow> string \<Rightarrow> selector \<Rightarrow> sel_op list \<Rightarrow> measurement list" where
  "counted marshal i s [] = []"
| "counted marshal i s (y # ys) = counted_by i s y @ counted marshal i (sel_step marshal y s) ys"

text \<open>The selector knows the source at every moment of the stretch: it is never pruned or reset.\<close>

primrec remembers :: "(target list \<Rightarrow> string) \<Rightarrow> string \<Rightarrow> selector \<Rightarrow> sel_op list \<Rightarrow> bool" where
  "remembers marshal i s [] = (map_of (sel_sources s) i \<noteq> None)"
| "remembers marshal i s (y # ys) =
     (map_of (sel_sources s) i \<noteq> None \<and> remembers marshal i (sel_step marshal y s) ys)"

lemma remembers_now: "remembers marshal i s ys \<Longrightarrow> \<exists>ob. map_of (sel_sources s) i = Some ob"
  by (cases ys) auto

lemma Observe_remembers: "map_of (sel_sources s) i \<noteq> None \<Longrightarrow> map_of (sel_sources (Observe s m)) i \<noteq> None"
  by (cases rule: Observe_cases [of s m]) auto

text \<open>A measurement succeeds when it reached something and every required target it had to reach.\<close>

definition successful :: "string list \<Rightarrow> measurement \<Rightarrow> bool" where
  "successful required m \<longleftrightarrow>
     (\<exists>r \<in> set (m_Resources m). r_Success r) \<and>
     (\<forall>r \<in> set (m_Resources m). r_Required r \<or> r_TargetID r \<in> set required \<longrightarrow> r_Success r) \<and>
     set required \<subseteq> r_TargetID ` set (m_Resources m)"

lemma tally_failedRequired:
  "y_failedRequired (tally_of req rs) =
     int (length (filter (\<lambda>r. \<not> r_Success r \<and> (r_Required r \<or> r_TargetID r \<in> set req)) rs)) +
     int (length (filter (\<lambda>i. i \<notin> r_TargetID ` set rs) req))"
proof -
  have "y_failedRequired (fold (tally_one req) rs y) = y_failedRequired y +
      int (length (filter (\<lambda>r. \<not> r_Success r \<and> (r_Required r \<or> r_TargetID r \<in> set req)) rs))" for y
    by (induction rs arbitrary: y) (auto simp: tally_one_def Let_def)
  then show ?thesis by (simp add: tally_of_def Let_def zero_tally_def)
qed

lemma verdict_successful:
  "successful req m \<longleftrightarrow>
     \<not> (y_failedRequired (tally_of req (m_Resources m)) > 0 \<or> y_succeeded (tally_of req (m_Resources m)) = 0)"
proof -
  have "0 < int a + int b \<longleftrightarrow> a \<noteq> 0 \<or> b \<noteq> 0" for a b by auto
  then show ?thesis
    unfolding tally_failedRequired tally_succeeded successful_def
    by (auto simp: filter_empty_conv)
qed

text \<open>
  After the measurements \<open>ms\<close> since a full failure, either the source still has to recover and the
  latest of them account for its successes, or enough consecutive ones succeeded.
\<close>

definition recovering :: "policy \<Rightarrow> string list \<Rightarrow> measurement list \<Rightarrow> observation \<Rightarrow> bool" where
  "recovering p req ms ob \<longleftrightarrow>
     o_needsRecovery ob \<and>
       (\<exists>pre run. ms = pre @ run \<and> h_ConsecutiveSuccesses (o_health ob) \<le> int (length run) \<and> list_all (successful req) run) \<or>
     (\<exists>pre run post. ms = pre @ run @ post \<and> p_RecoveryConfirmations p \<le> int (length run) \<and> list_all (successful req) run)"

lemma observe_source_recovering:
  assumes "recovering (sel_policy s) (sel_required s) ms ob"
  shows "recovering (sel_policy s) (sel_required s) (ms @ [m]) (observe_source s m ob)"
  using assms unfolding recovering_def [of _ _ ms]
proof (elim disjE conjE exE)
  fix pre run
  assume needs: "o_needsRecovery ob" and ms: "ms = pre @ run"
    and run: "h_ConsecutiveSuccesses (o_health ob) \<le> int (length run)" "list_all (successful (sel_required s)) run"
  let ?ob = "observe_source s m ob"
  show ?thesis
  proof (cases "successful (sel_required s) m")
    case False
    then have "o_needsRecovery ?ob" "h_ConsecutiveSuccesses (o_health ?ob) = 0"
      using needs by (auto simp: verdict_successful observe_source_def observe_verdict_def Let_def)
    then show ?thesis
      unfolding recovering_def by (intro disjI1 conjI exI [of _ "ms @ [m]"] exI [of _ "[]"]) simp_all
  next
    case True
    then have "h_ConsecutiveSuccesses (o_health ?ob) \<le> int (length (run @ [m]))"
      "o_needsRecovery ?ob \<or> p_RecoveryConfirmations (sel_policy s) \<le> int (length (run @ [m]))"
      using needs run(1) by (auto simp: verdict_successful observe_source_def observe_verdict_def Let_def)
    moreover have "ms @ [m] = pre @ (run @ [m])" "ms @ [m] = pre @ (run @ [m]) @ []"
      "list_all (successful (sel_required s)) (run @ [m])"
      using ms run(2) True by simp_all
    ultimately show ?thesis
      unfolding recovering_def by blast
  qed
next
  fix pre run post
  assume "ms = pre @ run @ post" "p_RecoveryConfirmations (sel_policy s) \<le> int (length run)"
    "list_all (successful (sel_required s)) run"
  moreover from this(1) have "ms @ [m] = pre @ run @ (post @ [m])" by simp
  ultimately show ?thesis unfolding recovering_def by blast
qed

text \<open>Operations that change neither the policy nor the required targets.\<close>

fun same_rules :: "sel_op \<Rightarrow> bool" where
  "same_rules (Op_Configure p) = False"
| "same_rules (Op_SetTargets ts) = False"
| "same_rules _ = True"

lemma sel_step_rules:
  assumes "same_rules y"
  shows "sel_policy (sel_step marshal y s) = sel_policy s \<and> sel_required (sel_step marshal y s) = sel_required s"
proof (cases y)
  case (Op_Observe m)
  then show ?thesis by (cases rule: Observe_cases [of s m]) auto
next
  case (Op_Evaluate srcs now)
  then show ?thesis by (simp add: Evaluate_frame(1,2))
qed (use assms in \<open>auto simp: SetHistoryLimit_def Let_def\<close>)

lemma run_recovering:
  assumes "list_all same_rules ys" and "remembers marshal i s ys" and "map_of (sel_sources s) i = Some ob"
    and "recovering p req ms ob" and "p = sel_policy s" and "req = sel_required s"
  shows "\<exists>ob'. map_of (sel_sources (fold (sel_step marshal) ys s)) i = Some ob' \<and>
    recovering p req (ms @ counted marshal i s ys) ob'"
  using assms
proof (induction ys arbitrary: s ob ms)
  case Nil
  then show ?case by simp
next
  case (Cons y ys)
  let ?s = "sel_step marshal y s"
  from Cons.prems(2) obtain ob1 where ob1: "map_of (sel_sources ?s) i = Some ob1"
    using remembers_now by fastforce
  then have "recovering p req (ms @ counted_by i s y) ob1"
  proof (cases rule: sel_step_observation)
    case (kept ob0 hist)
    then have "counted_by i s y = []" by (cases y) auto
    with kept Cons.prems(3,4) show ?thesis by (simp add: recovering_def)
  next
    case (measured m ob0)
    then have "counted_by i s y = [m]" "ob0 = ob" using Cons.prems(3) by simp_all
    with measured(5) Cons.prems(4-6) observe_source_recovering [of s ms ob m] show ?thesis by simp
  qed
  from Cons.IH [OF _ _ ob1 this] Cons.prems(1,2,5,6) sel_step_rules [of y marshal s] show ?case by simp
qed

text \<open>
  C26: once a measurement found a source entirely unreachable, and as long as the selector keeps
  the source and its rules (policy and targets), the source is healthy again only after as many
  consecutive successful measurements as the policy asks recovery confirmations: among the
  measurements of the source counted since the failure there is a contiguous run of that length,
  each of which reached every required target. A measurement that fails in part starts the count
  again.
\<close>

theorem failed_source_recovers_slowly:
  assumes "Observe s m \<noteq> s" and "\<forall>r \<in> set (m_Resources m). \<not> r_Success r"
    and "list_all same_rules ops" and "remembers marshal (m_SourceID m) (Observe s m) ops"
    and "map_of (sel_sources (fold (sel_step marshal) ops (Observe s m))) (m_SourceID m) = Some ob"
    and "health_state (sel_policy s) ob now = ''healthy''"
  shows "\<exists>pre run post. counted marshal (m_SourceID m) (Observe s m) ops = pre @ run @ post \<and>
    p_RecoveryConfirmations (sel_policy s) \<le> int (length run) \<and> list_all (successful (sel_required s)) run"
proof (cases rule: Observe_cases [of s m])
  case ignored
  with assms(1) show ?thesis by simp
next
  case (taken ob0)
  have "y_succeeded (tally_of (sel_required s) (m_Resources m)) = 0"
    using assms(2) by (simp add: tally_succeeded)
  then have start: "recovering (sel_policy s) (sel_required s) [] (observe_source s m ob0)"
    by (simp add: recovering_def observe_source_def observe_verdict_def Let_def)
  have at: "map_of (sel_sources (Observe s m)) (m_SourceID m) = Some (observe_source s m ob0)"
    and rules: "sel_policy s = sel_policy (Observe s m)" "sel_required s = sel_required (Observe s m)"
    using taken(3) by simp_all
  from run_recovering [OF assms(3,4) at start rules] assms(5)
  have "recovering (sel_policy s) (sel_required s) (counted marshal (m_SourceID m) (Observe s m) ops) ob"
    by simp
  with assms(6) show ?thesis
    by (auto simp: recovering_def health_state_def Let_def split: if_splits)
qed

lemma sample_failed: "Observe (New sample_policy) (sample_measurement 5 False) \<noteq> New sample_policy"
proof
  assume "Observe (New sample_policy) (sample_measurement 5 False) = New sample_policy"
  then have "sel_sources (Observe (New sample_policy) (sample_measurement 5 False)) = []"
    by (simp add: New_def)
  then show False by (simp add: sample_defs)
qed

text \<open>A run in which one success, another failure and then three successes follow the failure.\<close>

definition sample_recovery :: "sel_op list" where
  "sample_recovery = map Op_Observe [sample_measurement 6 True, sample_measurement 7 False,
     sample_measurement 8 True, sample_measurement 9 True, sample_measurement 10 True]"

theorem failed_source_recovers_slowly_witness:
  "\<exists>pre run post. counted (\<lambda>_. '''') ''a'' (Observe (New sample_policy) (sample_measurement 5 False)) sample_recovery
       = pre @ run @ post \<and> 3 \<le> int (length run) \<and> list_all (successful []) run"
proof -
  let ?s = "New sample_policy" and ?m = "sample_measurement 5 False"
  have m: "m_SourceID ?m = ''a''" "\<forall>r \<in> set (m_Resources ?m). \<not> r_Success r"
    by (simp_all add: sample_measurement_def sample_resource_def)
  have p: "sel_policy ?s = sample_policy" "sel_required ?s = []"
    by (simp_all add: New_def safePolicy_def sample_policy_def)
  have ops: "list_all same_rules sample_recovery"
    by (simp add: sample_recovery_def)
  have rem: "remembers (\<lambda>_. '''') ''a'' (Observe ?s ?m) sample_recovery"
    by (simp add: sample_recovery_def sample_defs)
  obtain ob where ob: "map_of (sel_sources (fold (sel_step (\<lambda>_. '''')) sample_recovery (Observe ?s ?m))) ''a'' = Some ob"
    "health_state (sel_policy ?s) ob 11 = ''healthy''"
    by (simp add: sample_recovery_def sample_defs health_state_def stale_after_def dur_mul_def wrap64_def)
  show ?thesis
    using failed_source_recovers_slowly [OF sample_failed m(2) ops, unfolded m(1), OF rem ob] p
    by (simp add: sample_policy_def)
qed

section \<open>Fail-closed modes\<close>

text \<open>
  With a pinned source the selector selects that source, or nothing, or, only when the policy
  explicitly permits the direct fallback, a source of type \<^verbatim>\<open>direct\<close>; a policy whose mode is
  neither \<^verbatim>\<open>auto\<close> nor \<^verbatim>\<open>manual\<close> selects nothing at all.
\<close>

theorem pinned_or_permitted_fallback:
  assumes "p_Mode (sel_policy s) \<noteq> ''auto''" and "sel_policy s = safePolicy p"
  shows "d_Selected (fst (Evaluate s srcs now)) = '''' \<or>
    p_Mode p = ''manual'' \<and>
    (d_Selected (fst (Evaluate s srcs now)) = p_Pinned p \<or>
     p_Fallback p = ''direct'' \<and>
     (\<exists>src. map_of (available_of srcs) (d_Selected (fst (Evaluate s srcs now))) = Some src \<and> s_Type src = ''direct''))"
proof -
  let ?av = "available_of srcs"
  have ok: "gomap_ok ?av" by (rule available_of_ok)
  have fb: "d_Selected (fst (fallback ?av s' now w)) = '''' \<or> p_Fallback (sel_policy s') = ''direct'' \<and>
    (\<exists>src. map_of ?av (d_Selected (fst (fallback ?av s' now w))) = Some src \<and> s_Type src = ''direct'')" for s' w
  proof (cases "sort (map fst (filter (\<lambda>(i, src). s_Type src = ''direct'' \<and> healthy ?av s' now i) ?av))")
    case (Cons i rest)
    then have "i \<in> set (sort (map fst (filter (\<lambda>(i, src). s_Type src = ''direct'' \<and> healthy ?av s' now i) ?av)))"
      by simp
    then obtain src where "(i, src) \<in> set ?av" "s_Type src = ''direct''" by auto
    with ok have "map_of ?av i = Some src" "s_Type src = ''direct''"
      by (simp_all add: gomap_ok_set)
    with Cons show ?thesis by (simp add: fallback_def)
  qed (simp add: fallback_def)
  have policy: "p_Pinned (sel_policy s) = p_Pinned p" "p_Fallback (sel_policy s) = ''direct'' \<longleftrightarrow> p_Fallback p = ''direct''"
    "p_Mode (sel_policy s) = ''manual'' \<longleftrightarrow> p_Mode p = ''manual''"
    "p_Mode (sel_policy s) = ''off'' \<or> p_Mode (sel_policy s) = ''manual''"
    using assms by (auto simp: safePolicy_def)
  then show ?thesis
    using fb [of "prune ?av s"] by (auto simp: Evaluate_def Let_def)
qed

theorem pinned_or_permitted_fallback_witness:
  "d_Selected (fst (Evaluate (New sample_policy) [] 0)) = '''' \<or>
    p_Mode sample_policy = ''manual'' \<and>
    (d_Selected (fst (Evaluate (New sample_policy) [] 0)) = p_Pinned sample_policy \<or>
     p_Fallback sample_policy = ''direct'' \<and>
     (\<exists>src. map_of (available_of []) (d_Selected (fst (Evaluate (New sample_policy) [] 0))) = Some src \<and> s_Type src = ''direct''))"
  by (rule pinned_or_permitted_fallback) (simp_all add: New_def safePolicy_def sample_policy_def)

section \<open>Overflow of the latency figure\<close>

text \<open>
  The sum of the latencies of one measurement is a \<^verbatim>\<open>float64\<close> sum over the resources it reached.
  Latencies that are each finite can overflow it to infinity, and the smoothed latency of the
  source then stays infinite.
\<close>

definition latency_sum :: "measurement \<Rightarrow> f64" where
  "latency_sum m = fold (\<lambda>r v. f_add v (r_LatencyMS r)) (filter r_Success (m_Resources m)) (F64 0)"

definition nonneg :: "f64 \<Rightarrow> bool" where
  "nonneg v \<longleftrightarrow> (\<exists>q. v = F64 q \<and> 0 \<le> q) \<or> v = F64_Inf False"

lemma nonneg_round64: "0 \<le> x \<Longrightarrow> nonneg (round64 x)"
  by (auto simp: nonneg_def round64_def Let_def rnd_nonneg)

lemma nonneg_f_add: "nonneg u \<Longrightarrow> nonneg v \<Longrightarrow> nonneg (f_add u v)"
  unfolding nonneg_def [of u] nonneg_def [of v]
  by (elim disjE exE) (auto intro: nonneg_round64, auto simp: nonneg_def)

lemma resources_ok_latency: "resources_ok seen rs \<Longrightarrow> r \<in> set rs \<Longrightarrow> nonneg (r_LatencyMS r)"
proof (induction seen rs rule: resources_ok.induct)
  case (2 seen r' rs)
  have "nonneg v" if "finite_f64 v" "\<not> f_less v (F64 0)" for v
    using that by (cases v) (auto simp: nonneg_def)
  with 2 show ?case by (auto split: if_splits)
qed simp

lemma resources_ok_finite: "resources_ok seen rs \<Longrightarrow> \<forall>r \<in> set rs. finite_f64 (r_LatencyMS r)"
  by (induction seen rs rule: resources_ok.induct) (auto split: if_splits)

lemma tally_one_latency:
  "y_latency (tally_one req r y) = (if r_Success r then f_add (y_latency y) (r_LatencyMS r) else y_latency y)"
  by (simp add: tally_one_def Let_def)

lemma fold_tally_latency:
  "nonneg (y_latency y) \<Longrightarrow> \<forall>r \<in> set rs. nonneg (r_LatencyMS r) \<Longrightarrow> nonneg (y_latency (fold (tally_one req) rs y))"
  by (induction rs arbitrary: y) (auto simp: tally_one_latency nonneg_f_add)

lemma tally_latency: "resources_ok [] rs \<Longrightarrow> nonneg (y_latency (tally_of req rs))"
  using fold_tally_latency [of zero_tally rs req] resources_ok_latency [of "[]" rs]
  by (simp add: tally_of_def Let_def) (simp add: zero_tally_def nonneg_def)

lemma tally_latency_sum: "y_latency (tally_of req (m_Resources m)) = latency_sum m"
proof -
  have "y_latency (fold (tally_one req) rs y) = fold (\<lambda>r v. f_add v (r_LatencyMS r)) (filter r_Success rs) (y_latency y)" for rs y
    by (induction rs arbitrary: y) (auto simp: tally_one_latency)
  then show ?thesis by (simp add: tally_of_def Let_def zero_tally_def latency_sum_def)
qed

text \<open>The weights of the moving average keep a latency non-negative, infinite ones included.\<close>

lemma smooth_weights:
  obtains a b where "round64 (3 / 10) = F64 a" "0 < a" "round64 (7 / 10) = F64 b" "0 < b"
proof -
  have "0 < rnd (7 / 10)" "0 < rnd (3 / 10)" by (simp_all add: rnd_3_10 rnd_7_10)
  then show ?thesis
    using that round64_unit [of "3 / 10"] round64_unit [of "7 / 10"] by simp
qed

lemma nonneg_scale: "nonneg v \<Longrightarrow> 0 < a \<Longrightarrow> nonneg (f_mul (F64 a) v)"
  unfolding nonneg_def [of v] by (elim disjE exE conjE) (auto simp: nonneg_round64 nonneg_def [of "F64_Inf False"])

lemma nonneg_smooth: "nonneg u \<Longrightarrow> nonneg v \<Longrightarrow> nonneg (smooth u v first)"
  by (rule smooth_weights) (auto simp: smooth_def intro!: nonneg_f_add nonneg_scale)

lemma smooth_infinite: "nonneg u \<Longrightarrow> smooth u (F64_Inf False) first = F64_Inf False"
  "nonneg v \<Longrightarrow> smooth (F64_Inf False) v False = F64_Inf False"
proof -
  obtain a b where w: "round64 (3 / 10) = F64 a" "0 < a" "round64 (7 / 10) = F64 b" "0 < b"
    by (rule smooth_weights)
  have sum: "nonneg x \<Longrightarrow> f_add (F64_Inf False) x = F64_Inf False" "nonneg x \<Longrightarrow> f_add x (F64_Inf False) = F64_Inf False" for x
    by (auto simp: nonneg_def)
  show "nonneg u \<Longrightarrow> smooth u (F64_Inf False) first = F64_Inf False"
    "nonneg v \<Longrightarrow> smooth (F64_Inf False) v False = F64_Inf False"
    using w nonneg_scale [of u b] nonneg_scale [of v a] by (simp_all add: smooth_def sum)
qed

text \<open>The figure a measurement contributes: the mean latency of the resources it reached.\<close>

lemma mean_latency:
  assumes "measurement_ok m" and "length (m_Resources m) < 2 ^ 63" and "y_succeeded (tally_of req (m_Resources m)) > 0"
  shows "nonneg (f_div (latency_sum m) (f_of_int (y_succeeded (tally_of req (m_Resources m)))))"
    and "latency_sum m = F64_Inf False \<Longrightarrow>
      f_div (latency_sum m) (f_of_int (y_succeeded (tally_of req (m_Resources m)))) = F64_Inf False"
proof -
  let ?n = "y_succeeded (tally_of req (m_Resources m))"
  have lat: "nonneg (latency_sum m)"
    using assms(1) tally_latency by (simp add: measurement_ok_def flip: tally_latency_sum [of "[]"])
  have "length (filter r_Success (m_Resources m)) < 2 ^ 63"
    using assms(2) length_filter_le [of r_Success "m_Resources m"] by linarith
  then have "f_of_int ?n = F64 (rnd (of_int ?n))"
    by (intro f_of_int_small) (simp_all add: tally_succeeded)
  moreover have "1 \<le> rnd (of_int ?n)"
    using assms(3) rnd_mono [of 1 "of_int ?n"] by simp
  ultimately obtain k where k: "f_of_int ?n = F64 k" "0 < k" by auto
  show "nonneg (f_div (latency_sum m) (f_of_int ?n))"
  proof (cases "latency_sum m")
    case (F64 q)
    with lat k show ?thesis by (simp add: nonneg_def [of "F64 q"] nonneg_round64)
  qed (use lat k in \<open>auto simp: nonneg_def\<close>)
  show "latency_sum m = F64_Inf False \<Longrightarrow> f_div (latency_sum m) (f_of_int ?n) = F64_Inf False"
    using k by simp
qed

lemma observe_latency:
  "h_LatencyMS (o_health (observe_source s m ob)) =
     (let n = y_succeeded (tally_of (sel_required s) (m_Resources m)); old = h_LatencyMS (o_health ob)
      in if n > 0 then smooth old (f_div (latency_sum m) (f_of_int n)) (is_zero (h_LastAt (o_health ob)) \<or> old = F64 0)
         else old)"
  by (auto simp: observe_source_def observe_metrics_def Let_def tally_latency_sum split: option.splits)

text \<open>Every latency figure of a reachable selector is non-negative and belongs to a measured source.\<close>

definition slices_ok :: "sel_op list \<Rightarrow> bool" where
  "slices_ok ops \<longleftrightarrow> (\<forall>m. Op_Observe m \<in> set ops \<longrightarrow> length (m_Resources m) < 2 ^ 63)"

definition latency_ok :: "observation \<Rightarrow> bool" where
  "latency_ok ob \<longleftrightarrow> nonneg (h_LatencyMS (o_health ob))"

lemma new_latency_ok: "latency_ok (new_observation i)"
  by (simp add: latency_ok_def new_observation_def zero_health_def nonneg_def)

lemma observe_latency_ok:
  assumes "measurement_ok m" and "length (m_Resources m) < 2 ^ 63" and "latency_ok ob"
  shows "latency_ok (observe_source s m ob)"
  using assms mean_latency(1) [OF assms(1,2)] nonneg_smooth by (simp add: latency_ok_def observe_latency Let_def)

lemma run_latency_ok:
  assumes "slices_ok ops" and "map_of (sel_sources (sel_run marshal p ops)) i = Some ob"
  shows "latency_ok ob"
  using assms
proof (induction ops arbitrary: ob rule: rev_induct)
  case Nil
  then show ?case by (simp add: sel_run_def New_def)
next
  case (snoc y ops)
  have IH: "map_of (sel_sources (sel_run marshal p ops)) i = Some ob0 \<Longrightarrow> latency_ok ob0" for ob0
    using snoc.IH snoc.prems(1) by (simp add: slices_ok_def)
  from snoc.prems(2) [unfolded sel_run_snoc] show ?case
  proof (cases rule: sel_step_observation)
    case (kept ob0 hist)
    with IH show ?thesis by (simp add: latency_ok_def)
  next
    case (measured m ob0)
    with IH new_latency_ok have "latency_ok ob0" by auto
    with measured snoc.prems(1) show ?thesis
      using observe_latency_ok by (simp add: slices_ok_def)
  qed
qed

lemma run_latency_infinite:
  assumes "slices_ok ys" and "remembers marshal i s ys" and "map_of (sel_sources s) i = Some ob"
    and "h_LatencyMS (o_health ob) = F64_Inf False" and "\<not> is_zero (h_LastAt (o_health ob))"
  shows "\<exists>ob'. map_of (sel_sources (fold (sel_step marshal) ys s)) i = Some ob' \<and> h_LatencyMS (o_health ob') = F64_Inf False"
  using assms
proof (induction ys arbitrary: s ob)
  case Nil
  then show ?case by simp
next
  case (Cons y ys)
  from Cons.prems(2) obtain ob1 where ob1: "map_of (sel_sources (sel_step marshal y s)) i = Some ob1"
    using remembers_now by fastforce
  then have "h_LatencyMS (o_health ob1) = F64_Inf False \<and> \<not> is_zero (h_LastAt (o_health ob1))"
  proof (cases rule: sel_step_observation)
    case (kept ob0 hist)
    with Cons.prems(3-5) show ?thesis by simp
  next
    case (measured m ob0)
    then have "ob0 = ob" "length (m_Resources m) < 2 ^ 63" using Cons.prems(1,3) by (simp_all add: slices_ok_def)
    with measured(3,5) Cons.prems(4,5) show ?thesis
      using mean_latency(1) [OF measured(3)] smooth_infinite(2)
      by (simp add: observe_latency Let_def) (simp add: measurement_ok_def)
  qed
  with Cons.IH [OF _ _ ob1] Cons.prems(1,2) show ?case by (simp add: slices_ok_def)
qed

text \<open>
  C27: whatever operations a selector has performed, a measurement that \<^verbatim>\<open>Observe\<close> accepts has
  finite latencies only; when the \<^verbatim>\<open>float64\<close> sum of the latencies it reached overflows, the smoothed
  latency of its source is infinite, and it stays infinite over any further operations for as long
  as the selector keeps the source: the range check on the single values does not protect the
  moving average. (Slices have fewer than \<open>2 ^ 63\<close> elements.)
\<close>

theorem finite_latencies_poison_average:
  fixes marshal p before
  defines "s \<equiv> sel_run marshal p before"
  assumes "slices_ok (before @ Op_Observe m # later)"
    and "Observe s m \<noteq> s" and "latency_sum m = F64_Inf False"
    and "remembers marshal (m_SourceID m) (Observe s m) later"
  shows "(\<forall>r \<in> set (m_Resources m). finite_f64 (r_LatencyMS r)) \<and>
    map_option (\<lambda>ob. h_LatencyMS (o_health ob))
      (map_of (sel_sources (fold (sel_step marshal) later (Observe s m))) (m_SourceID m)) = Some (F64_Inf False)"
proof (cases rule: Observe_cases [of s m])
  case ignored
  with assms(3) show ?thesis by simp
next
  case (taken ob0)
  have slices: "slices_ok before" "slices_ok later" "length (m_Resources m) < 2 ^ 63"
    using assms(2) by (auto simp: slices_ok_def)
  have at: "map_of (sel_sources (Observe s m)) (m_SourceID m) = Some (observe_source s m ob0)"
    using taken(3) by simp
  have "latency_ok ob0"
    using taken(2) run_latency_ok [OF slices(1)] new_latency_ok unfolding s_def by blast
  moreover have "y_succeeded (tally_of (sel_required s) (m_Resources m)) > 0"
    using assms(4) by (cases "filter r_Success (m_Resources m)") (auto simp: tally_succeeded latency_sum_def)
  ultimately have "h_LatencyMS (o_health (observe_source s m ob0)) = F64_Inf False"
    using mean_latency(2) [OF taken(1) slices(3) _ assms(4)] smooth_infinite(1)
    by (simp add: observe_latency Let_def latency_ok_def)
  moreover have "\<not> is_zero (h_LastAt (o_health (observe_source s m ob0)))"
    using taken(1) by (simp add: measurement_ok_def)
  ultimately have "map_option (\<lambda>ob. h_LatencyMS (o_health ob))
      (map_of (sel_sources (fold (sel_step marshal) later (Observe s m))) (m_SourceID m)) = Some (F64_Inf False)"
    using run_latency_infinite [OF slices(2) assms(5) at] by fastforce
  moreover have "\<forall>r \<in> set (m_Resources m). finite_f64 (r_LatencyMS r)"
    using taken(1) by (intro resources_ok_finite [of "[]"]) (simp add: measurement_ok_def)
  ultimately show ?thesis by simp
qed

text \<open>Two latencies of \<open>2 ^ 1023\<close> milliseconds, after an ordinary measurement of the same source.\<close>

definition huge :: rat where
  "huge = 2 powi 1023"

definition overflow_measurement :: measurement where
  "overflow_measurement = (sample_measurement 6 True)\<lparr>m_Resources :=
     map (\<lambda>i. (sample_resource True)\<lparr>r_TargetID := i, r_LatencyMS := F64 huge\<rparr>) [''t'', ''u'']\<rparr>"

lemma huge_sums: "0 < huge" "round64 huge = F64 huge" "round64 (huge + huge) = F64_Inf False"
proof -
  show "0 < huge" "round64 huge = F64 huge"
    unfolding huge_def by (rule powi2_pos, rule round64_powi) simp_all
  have sum: "huge + huge = 2 powi 1024"
    using power_int_add_1 [of "2 :: rat" 1023] unfolding huge_def mult_2_right by simp
  have "rnd (2 powi 1024) = 2 powi 1024" by (rule rnd_powi) simp
  then show "round64 (huge + huge) = F64_Inf False"
    unfolding sum round64_def by (simp only: abs_of_pos [OF powi2_pos] power_int_numeral Let_def) simp
qed

lemma overflow_sum: "latency_sum overflow_measurement = F64_Inf False"
  using huge_sums by (simp add: latency_sum_def overflow_measurement_def sample_resource_def)

lemma overflow_ok: "measurement_ok overflow_measurement"
  using huge_sums(1)
  by (simp add: measurement_ok_def overflow_measurement_def sample_measurement_def sample_resource_def
      loss_ok_def is_zero_def)

theorem finite_latencies_poison_average_witness:
  "map_option (\<lambda>ob. h_LatencyMS (o_health ob))
     (map_of (sel_sources (Observe (Observe sample_selector overflow_measurement) (sample_measurement 7 True))) ''a'')
   = Some (F64_Inf False)"
proof -
  let ?s = "sel_run (\<lambda>_. '''') sample_policy [Op_Observe (sample_measurement 5 True)]"
  let ?later = "[Op_Observe (sample_measurement 7 True)]"
  have s: "?s = sample_selector" by (simp add: sel_run_def sample_selector_def)
  have id: "m_SourceID overflow_measurement = ''a''" "m_At overflow_measurement = 6"
    by (simp_all add: overflow_measurement_def sample_measurement_def)
  have slices: "slices_ok ([Op_Observe (sample_measurement 5 True)] @ Op_Observe overflow_measurement # ?later)"
    by (auto simp: slices_ok_def sample_measurement_def overflow_measurement_def)
  obtain ob where "map_of (sel_sources sample_selector) ''a'' = Some ob" "h_LastAt (o_health ob) = 5"
    by (simp add: sample_selector_eq)
  then have neq: "Observe sample_selector overflow_measurement \<noteq> sample_selector"
    using overflow_ok id by (intro Observe_taken_neq [of _ _ ob]) (simp_all add: Observe_def)
  have "map_of (sel_sources sample_selector) ''a'' \<noteq> None" by (simp add: sample_selector_eq)
  then have rem: "remembers (\<lambda>_. '''') ''a'' (Observe ?s overflow_measurement) ?later"
    unfolding s remembers.simps sel_step.simps by (intro conjI Observe_remembers)
  show ?thesis
    using finite_latencies_poison_average [OF slices, of "\<lambda>_. ''''" sample_policy] overflow_sum rem neq
    unfolding s id by simp
qed

end
