(* ===== verification/Crash_Safety.thy ===== *)
theory Crash_Safety
  imports Go_Prelude
begin

text \<open>
  What the two transaction managers (the gateway's, \<^verbatim>\<open>internal/coverage\<close>, and the node's,
  \<^verbatim>\<open>internal/node\<close>) share: the private journal file and the crash model. The file holds one
  journal value; \<^verbatim>\<open>writePrivate\<close> replaces it by writing a temporary file and renaming it, so a
  write that fails leaves the old value, except that the final directory sync may fail after the
  rename. An operation passes through a sequence of externally visible worlds (file and device); a
  crash stops it after any of them. The contract of such an operation is the locale
  \<open>crash_safe\<close>.
\<close>

section \<open>The journal file\<close>

datatype write_outcome =
    Write_ok
  | Write_failed go_error
  | Write_unsynced go_error

record ('j, 'b) world =
  w_disk :: "'j option"
  w_back :: 'b

text \<open>
  An operation in progress: the world, the outcomes of its next file writes, and the worlds it
  has passed through, newest first.
\<close>

record ('j, 'b) run =
  r_world :: "('j, 'b) world"
  r_writes :: "write_outcome list"
  r_trace :: "('j, 'b) world list"

definition visit :: "('j, 'b) world \<Rightarrow> ('j, 'b) run \<Rightarrow> ('j, 'b) run" where
  "visit w r = r\<lparr>r_world := w, r_trace := w # r_trace r\<rparr>"

definition start_run :: "('j, 'b) world \<Rightarrow> write_outcome list \<Rightarrow> ('j, 'b) run" where
  "start_run w outcomes = \<lparr>r_world = w, r_writes = outcomes, r_trace = [w]\<rparr>"

definition maxStateBytes :: nat where
  "maxStateBytes = 2 * 1024 * 1024"

text \<open>The size of a journal is the length of its JSON text; \<open>pkg\<close> is the subject of the package's error message.\<close>

definition writePrivate :: "string \<Rightarrow> ('j \<Rightarrow> nat) \<Rightarrow> 'j \<Rightarrow> ('j, 'b) run \<Rightarrow> go_error option \<times> ('j, 'b) run" where
  "writePrivate pkg sz j r =
     (if sz j > maxStateBytes then (Some (Error_New (pkg @ '' state exceeds byte limit'')), r)
      else let put = visit ((r_world r)\<lparr>w_disk := Some j\<rparr>) in
        (case r_writes r of
           [] \<Rightarrow> (None, put r)
         | Write_ok # ws \<Rightarrow> (None, put (r\<lparr>r_writes := ws\<rparr>))
         | Write_failed e # ws \<Rightarrow> (Some e, r\<lparr>r_writes := ws\<rparr>)
         | Write_unsynced e # ws \<Rightarrow> (Some e, put (r\<lparr>r_writes := ws\<rparr>))))"

definition device_step :: "('b \<Rightarrow> go_error option \<times> 'b) \<Rightarrow> ('j, 'b) run \<Rightarrow> go_error option \<times> ('j, 'b) run" where
  "device_step f r =
     (case f (w_back (r_world r)) of (e, b) \<Rightarrow> (e, visit ((r_world r)\<lparr>w_back := b\<rparr>) r))"

text \<open>Every world of the run satisfies a predicate.\<close>

definition run_all :: "(('j, 'b) world \<Rightarrow> bool) \<Rightarrow> ('j, 'b) run \<Rightarrow> bool" where
  "run_all P r \<longleftrightarrow> P (r_world r) \<and> (\<forall>w \<in> set (r_trace r). P w)"

lemma run_all_start [simp]: "run_all P (start_run w outcomes) \<longleftrightarrow> P w"
  by (simp add: run_all_def start_run_def)

lemma run_all_visit: "run_all P r \<Longrightarrow> P w \<Longrightarrow> run_all P (visit w r)"
  by (simp add: run_all_def visit_def)

lemma visit_simps [simp]: "r_world (visit w r) = w" "r_writes (visit w r) = r_writes r"
  by (simp_all add: visit_def)

text \<open>A write keeps the predicate if the new file content does; it changes nothing else.\<close>

lemma writePrivate_run_all:
  assumes "run_all P r" and "P ((r_world r)\<lparr>w_disk := Some j\<rparr>)"
  shows "run_all P (snd (writePrivate pkg sz j r))"
proof -
  have "run_all P (visit ((r_world r)\<lparr>w_disk := Some j\<rparr>) (r\<lparr>r_writes := ws\<rparr>))" for ws
    using assms by (simp add: run_all_def visit_def)
  moreover have "run_all P (r\<lparr>r_writes := ws\<rparr>)" for ws
    using assms by (simp add: run_all_def)
  ultimately show ?thesis
    using assms by (auto simp: writePrivate_def Let_def run_all_visit split: list.splits write_outcome.splits)
qed

lemma writePrivate_back [simp]: "w_back (r_world (snd (writePrivate pkg sz j r))) = w_back (r_world r)"
  by (auto simp: writePrivate_def Let_def split: list.splits write_outcome.splits)

lemma writePrivate_None:
  "writePrivate pkg sz j r = (None, r') \<Longrightarrow> w_disk (r_world r') = Some j \<and> w_back (r_world r') = w_back (r_world r)"
  by (auto simp: writePrivate_def Let_def split: list.splits write_outcome.splits if_splits)

lemma writePrivate_disk:
  "w_disk (r_world (snd (writePrivate pkg sz j r))) \<in> {Some j, w_disk (r_world r)}"
  by (auto simp: writePrivate_def Let_def split: list.splits write_outcome.splits)

lemma writePrivate_ok: "sz j \<le> maxStateBytes \<Longrightarrow> r_writes r = [] \<Longrightarrow>
    \<exists>r'. writePrivate pkg sz j r = (None, r') \<and> r_writes r' = []"
  by (simp add: writePrivate_def)

lemma device_step_run_all:
  assumes "run_all P r" and "\<And>e b. f (w_back (r_world r)) = (e, b) \<Longrightarrow> P ((r_world r)\<lparr>w_back := b\<rparr>)"
  shows "run_all P (snd (device_step f r))"
  using assms by (simp add: device_step_def run_all_visit split: prod.splits)

lemma device_step_simps [simp]:
  "fst (device_step f r) = fst (f (w_back (r_world r)))"
  "w_back (r_world (snd (device_step f r))) = snd (f (w_back (r_world r)))"
  "w_disk (r_world (snd (device_step f r))) = w_disk (r_world r)"
  "r_writes (snd (device_step f r)) = r_writes r"
  by (simp_all add: device_step_def split: prod.splits)

text \<open>Every two consecutive worlds of the run are related.\<close>

fun chain :: "('w \<Rightarrow> 'w \<Rightarrow> bool) \<Rightarrow> 'w list \<Rightarrow> bool" where
  "chain R (y # x # xs) \<longleftrightarrow> R x y \<and> chain R (x # xs)"
| "chain R xs \<longleftrightarrow> True"

definition run_steps :: "(('j, 'b) world \<Rightarrow> ('j, 'b) world \<Rightarrow> bool) \<Rightarrow> ('j, 'b) world \<Rightarrow> ('j, 'b) run \<Rightarrow> bool" where
  "run_steps R w0 r \<longleftrightarrow> chain R (r_trace r) \<and> (\<exists>xs. r_trace r = r_world r # xs) \<and> last (r_trace r) = w0"

lemma run_steps_start [simp]: "run_steps R w (start_run w outcomes)"
  by (simp add: run_steps_def start_run_def)

lemma run_steps_visit: "run_steps R w0 r \<Longrightarrow> R (r_world r) w \<Longrightarrow> run_steps R w0 (visit w r)"
  by (auto simp: run_steps_def visit_def)

lemma run_steps_writes [simp]: "run_steps R w0 (r\<lparr>r_writes := ws\<rparr>) = run_steps R w0 r"
  by (simp add: run_steps_def)

lemma writePrivate_run_steps:
  assumes "run_steps R w0 r" and "R (r_world r) ((r_world r)\<lparr>w_disk := Some j\<rparr>)"
  shows "run_steps R w0 (snd (writePrivate pkg sz j r))"
proof -
  have "run_steps R w0 (visit ((r_world r)\<lparr>w_disk := Some j\<rparr>) (r\<lparr>r_writes := ws\<rparr>))" for ws
    using assms by (intro run_steps_visit) simp_all
  then show ?thesis
    using assms by (auto simp: writePrivate_def Let_def run_steps_visit split: list.splits write_outcome.splits)
qed

lemma device_step_run_steps:
  assumes "run_steps R w0 r" and "\<And>b. R (r_world r) ((r_world r)\<lparr>w_back := b\<rparr>)"
  shows "run_steps R w0 (snd (device_step f r))"
  using assms by (simp add: device_step_def run_steps_visit split: prod.splits)

lemma chain_invariant:
  "chain R xs \<Longrightarrow> (\<And>x y. R x y \<Longrightarrow> P x \<Longrightarrow> P y) \<Longrightarrow> P (last xs) \<Longrightarrow> w \<in> set xs \<Longrightarrow> P w"
proof (induction R xs arbitrary: w rule: chain.induct)
  case (1 R y x xs)
  have "P x" by (rule "1.IH") (use "1.prems" in auto)
  moreover have "P w" if "w \<in> set (x # xs)"
    by (rule "1.IH") (use "1.prems" that in auto)
  ultimately show ?case using "1.prems" by auto
qed auto

lemma run_steps_invariant:
  assumes "run_steps R w0 r" and "\<And>x y. R x y \<Longrightarrow> P x \<Longrightarrow> P y" and "P w0"
  shows "run_all P r"
  unfolding run_all_def using assms chain_invariant [of R "r_trace r" P] by (auto simp: run_steps_def)

section \<open>The contract of a crash-safe operation\<close>

locale crash_safe =
  fixes worlds :: "'op \<Rightarrow> 'w \<Rightarrow> 'w list"
    and admissible :: "'op \<Rightarrow> bool"
    and safe :: "'w \<Rightarrow> bool"
  assumes worlds_safe: "safe w \<Longrightarrow> admissible op \<Longrightarrow> w' \<in> set (worlds op w) \<Longrightarrow> safe w'"

text \<open>
  The worlds reachable from a start by admissible operations each of which may be cut short by a
  crash.
\<close>

inductive crash_reach :: "('op \<Rightarrow> 'w \<Rightarrow> 'w list) \<Rightarrow> ('op \<Rightarrow> bool) \<Rightarrow> 'w \<Rightarrow> 'w \<Rightarrow> bool"
  for worlds admissible w0 where
  cr_start: "crash_reach worlds admissible w0 w0"
| cr_step: "crash_reach worlds admissible w0 w \<Longrightarrow> admissible op \<Longrightarrow> w' \<in> set (worlds op w) \<Longrightarrow>
    crash_reach worlds admissible w0 w'"

context crash_safe begin

lemma reach_safe: "crash_reach worlds admissible w0 w \<Longrightarrow> safe w0 \<Longrightarrow> safe w"
  by (induction rule: crash_reach.induct) (auto intro: worlds_safe)

end

end
