(* ===== verification/Validation.thy ===== *)
theory Validation
  imports Go_Prelude
begin

text \<open>
  The syntactic checks several components share: the identifiers of transactions and requests
  (regular expressions of \<^verbatim>\<open>internal/coverage/model.go\<close> and \<^verbatim>\<open>internal/node/transaction.go\<close>),
  interface names (\<^verbatim>\<open>internal/platform/detect.go\<close>), text without control characters
  (\<^verbatim>\<open>internal/coverage/backend.go\<close>) and the size limit of \<^verbatim>\<open>adapter.StrictDecode\<close>.
\<close>

definition matches :: "(char \<Rightarrow> bool) \<Rightarrow> nat \<Rightarrow> nat \<Rightarrow> string \<Rightarrow> bool" where
  "matches cls lo hi s \<longleftrightarrow> lo \<le> length s \<and> length s \<le> hi \<and> (\<forall>c \<in> set s. cls c)"

definition fingerprint :: "string \<Rightarrow> bool" where
  "fingerprint s = matches is_lower_hex 64 64 s"

definition transactionID :: "string \<Rightarrow> bool" where
  "transactionID s = matches is_lower_hex 32 32 s"

definition requestKey :: "string \<Rightarrow> bool" where
  "requestKey s = matches (\<lambda>c. is_lower c \<or> is_upper c \<or> is_digit c \<or> c \<in> set ''_.-'') 16 128 s"

definition ValidInterfaceName :: "string \<Rightarrow> bool" where
  "ValidInterfaceName s =
     (if length s = 0 \<or> length s > 15 \<or> s = ''.'' \<or> s = ''..'' \<or> s ! 0 = CHR ''-'' then False
      else \<forall>c \<in> set s. is_lower c \<or> is_upper c \<or> is_digit c \<or> c = CHR ''_'' \<or> c = CHR ''-'' \<or> c = CHR ''.'')"

text \<open>
  \<^verbatim>\<open>strings.IndexFunc(value, unicode.IsControl)\<close>: a control character is a byte below 32 or 127, or
  the UTF-8 encoding (two bytes, the first 194) of a code point from 128 to 159.
\<close>

fun has_control :: "string \<Rightarrow> bool" where
  "has_control [] = False"
| "has_control (c # cs) =
     (of_char c < (32 :: nat) \<or> of_char c = (127 :: nat) \<or>
      of_char c = (194 :: nat) \<and> (case cs of [] \<Rightarrow> False | d # _ \<Rightarrow> (128 :: nat) \<le> of_char d \<and> of_char d \<le> (159 :: nat)) \<or>
      has_control cs)"

definition cleanText :: "string \<Rightarrow> nat \<Rightarrow> nat \<Rightarrow> bool" where
  "cleanText s lo hi \<longleftrightarrow> lo \<le> length s \<and> length s \<le> hi \<and> \<not> has_control s"

text \<open>The size check with which \<^verbatim>\<open>adapter.StrictDecode\<close> begins: at most 64 KiB of JSON text.\<close>

definition strictDecodeLimit :: nat where
  "strictDecodeLimit = 64 * 1024"

lemma transactionID_hex: "length n = 16 \<Longrightarrow> transactionID (hex_encode n)"
  by (auto simp: transactionID_def matches_def hex_encode_class)

lemma fingerprint_hex: "length n = 32 \<Longrightarrow> fingerprint (hex_encode n)"
  by (auto simp: fingerprint_def matches_def hex_encode_class)

end
