(* ===== verification/Gateway_Txn.thy ===== *)
theory Gateway_Txn
  imports Crash_Safety Validation
begin

text \<open>
  The gateway's Wi-Fi backhaul transaction manager, \<^verbatim>\<open>internal/coverage/transaction.go\<close> and
  \<^verbatim>\<open>model.go\<close>. Every exported method holds the manager's mutex and the file lock, loads the
  journal, works on it in memory and saves it at the points the source does. The device
  (\<^verbatim>\<open>Backend\<close>), the watchdog and the JSON texts are what the environment \<open>gw_env\<close> provides; time,
  randomness and the outcomes of file accesses are inputs of each call.
\<close>

section \<open>Data\<close>

record plan =
  pl_Mode :: string
  pl_APSection :: string
  pl_Network :: string
  pl_PeerFingerprint :: string
  pl_AdoptExistingAP :: bool
  pl_PreserveManagementPath :: bool

record operation =
  op_Action :: string
  op_Key :: string
  op_ID :: string
  op_Plan :: "plan option"
  op_TimeoutSeconds :: int

record transaction =
  tx_ID :: string
  tx_State :: string
  tx_CreatedAt :: gotime
  tx_Deadline :: gotime
  tx_Plan :: plan
  tx_ErrorCode :: string

record wifi =
  wf_SSID :: string
  wf_Passphrase :: string
  wf_Channel :: int

type_synonym snapshot = "(string, bytes) gomap"

record wireless_snapshot =
  ws_APSection :: string
  ws_WDS :: "string option"
  ws_WDSOwner :: "string option"
  ws_Mesh :: "(string, string) gomap option"

record journal =
  j_Version :: int
  j_Role :: string
  j_PrivateWiFi :: "wifi option"
  j_Transaction :: "transaction option"
  j_Snapshot :: snapshot
  j_RequestKey :: string
  j_RequestHash :: string

definition empty_journal :: journal where
  "empty_journal = \<lparr>j_Version = 1, j_Role = ''gateway-backhaul'', j_PrivateWiFi = None, j_Transaction = None, j_Snapshot = [], j_RequestKey = '''', j_RequestHash = ''''\<rparr>"

section \<open>Validation\<close>

definition ValidatePlan :: "plan \<Rightarrow> go_error option" where
  "ValidatePlan p =
     (if pl_Mode p \<noteq> ''wds'' \<and> pl_Mode p \<noteq> ''mesh'' then Some (Error_New ''gateway_backhaul_mode_invalid'')
      else if \<not> ValidInterfaceName (pl_APSection p) \<or> \<not> ValidInterfaceName (pl_Network p) \<or>
        pl_Network p = ''wan'' \<or> pl_Network p = ''wan6'' \<or> pl_Network p = ''loopback''
      then Some (Error_New ''gateway_backhaul_scope_invalid'')
      else if \<not> fingerprint (pl_PeerFingerprint p) then Some (Error_New ''gateway_paired_peer_required'')
      else if \<not> pl_AdoptExistingAP p \<or> \<not> pl_PreserveManagementPath p
      then Some (Error_New ''gateway_explicit_ap_adoption_and_management_path_required'')
      else None)"

definition fields_invalid :: "go_error option" where
  "fields_invalid = Some (Error_New ''gateway_operation_fields_invalid'')"

definition ValidateOperation :: "operation \<Rightarrow> go_error option" where
  "ValidateOperation q =
     (if op_Action q = ''inspect'' \<or> op_Action q = ''status''
      then if op_ID q \<noteq> '''' \<or> op_Key q \<noteq> '''' \<or> op_Plan q \<noteq> None \<or> op_TimeoutSeconds q \<noteq> 0 then fields_invalid else None
      else if op_Action q = ''prepare'' \<or> op_Action q = ''validate'' \<and> op_Plan q \<noteq> None
      then (case op_Plan q of
              None \<Rightarrow> fields_invalid
            | Some p \<Rightarrow>
                if op_ID q \<noteq> '''' \<or> op_TimeoutSeconds q \<noteq> 0 then fields_invalid
                else if op_Action q = ''prepare'' \<and> \<not> requestKey (op_Key q)
                then Some (Error_New ''gateway_idempotency_key_required'')
                else if op_Action q = ''validate'' \<and> op_Key q \<noteq> '''' then fields_invalid
                else ValidatePlan p)
      else if \<not> transactionID (op_ID q) \<or> op_Key q \<noteq> '''' \<or> op_Plan q \<noteq> None
      then Some (Error_New ''gateway_operation_identity_invalid'')
      else if op_Action q = ''apply''
      then if op_TimeoutSeconds q < 30 \<or> op_TimeoutSeconds q > 180
           then Some (Error_New ''gateway_confirmation_window_invalid'') else None
      else if op_Action q = ''validate'' \<or> op_Action q = ''confirm'' \<or> op_Action q = ''rollback'' \<or> op_Action q = ''finalize''
      then if op_TimeoutSeconds q \<noteq> 0 then fields_invalid else None
      else Some (Error_New ''unsupported_gateway_operation''))"

definition meshFields :: "string list" where
  "meshFields = [''routeharbor_owner'', ''device'', ''mode'', ''network'', ''mesh_id'', ''encryption'', ''key'', ''disabled'']"

definition mesh_get :: "(string, string) gomap \<Rightarrow> string \<Rightarrow> string" where
  "mesh_get m k = (case map_of m k of None \<Rightarrow> '''' | Some v \<Rightarrow> v)"

definition validateSnapshot :: "wireless_snapshot \<Rightarrow> go_error option" where
  "validateSnapshot s =
     (let bad = Some (Error_New ''invalid_gateway_snapshot'') in
      if \<not> ValidInterfaceName (ws_APSection s) then bad
      else if \<exists>v \<in> {ws_WDS s, ws_WDSOwner s}. v \<noteq> None \<and> v \<noteq> Some ''0'' \<and> v \<noteq> Some ''1'' then bad
      else case ws_Mesh s of
        None \<Rightarrow> None
      | Some m \<Rightarrow>
          if length m \<noteq> length meshFields \<or> mesh_get m ''routeharbor_owner'' \<noteq> ''1'' \<or>
             \<not> ValidInterfaceName (mesh_get m ''device'') \<or> \<not> ValidInterfaceName (mesh_get m ''network'') \<or>
             mesh_get m ''mode'' \<noteq> ''mesh'' \<or> mesh_get m ''encryption'' \<noteq> ''sae'' \<or>
             \<not> cleanText (mesh_get m ''mesh_id'') 1 32 \<or> \<not> cleanText (mesh_get m ''key'') 8 63 \<or>
             (mesh_get m ''disabled'' \<noteq> ''0'' \<and> mesh_get m ''disabled'' \<noteq> ''1'')
          then bad else None)"

section \<open>The environment\<close>

text \<open>
  The device operations of the \<^verbatim>\<open>Backend\<close> interface on a device state \<open>'b\<close>, the watchdog (absent
  when the manager has none), the length of a journal's JSON text, the SHA-256 sum of a plan's JSON text, and the
  decoding of the bytes of a wireless snapshot.
\<close>

record 'b gw_env =
  ge_inspect :: "'b \<Rightarrow> string result"
  ge_check :: "'b \<Rightarrow> plan \<Rightarrow> wifi result"
  ge_snapshot :: "'b \<Rightarrow> plan \<Rightarrow> snapshot result"
  ge_apply :: "plan \<Rightarrow> 'b \<Rightarrow> go_error option \<times> 'b"
  ge_restore :: "snapshot \<Rightarrow> 'b \<Rightarrow> go_error option \<times> 'b"
  ge_arm :: "(string \<Rightarrow> go_error option) option"
  ge_size :: "journal \<Rightarrow> nat"
  ge_hash :: "plan \<Rightarrow> bytes"
  ge_decode :: "bytes \<Rightarrow> wireless_snapshot result"

text \<open>The inputs of one call: the clock, the random bytes and what the file accesses return.\<close>

record call =
  c_now :: gotime
  c_nonce :: "bytes result"
  c_lock :: "go_error option"
  c_read :: "go_error option"
  c_writes :: "write_outcome list"

type_synonym 'b gw_run = "(journal, 'b) run"
type_synonym 'b gw_world = "(journal, 'b) world"

definition validatePrepared :: "'b gw_env \<Rightarrow> snapshot \<Rightarrow> plan \<Rightarrow> wifi option \<Rightarrow> go_error option" where
  "validatePrepared env snap p w =
     (let bad = Some (Error_New ''invalid_gateway_snapshot'');
          data = (case map_of snap ''wireless'' of None \<Rightarrow> [] | Some d \<Rightarrow> d)
      in if length snap \<noteq> 1 \<or> length data = 0 \<or> length data > 256 * 1024 then bad
         else if length data > strictDecodeLimit then bad
         else case ge_decode env data of
           Inl _ \<Rightarrow> bad
         | Inr s \<Rightarrow>
             if validateSnapshot s \<noteq> None \<or> ws_APSection s \<noteq> pl_APSection p then bad
             else case w of
               None \<Rightarrow> Some (Error_New ''invalid_gateway_private_wifi'')
             | Some wi \<Rightarrow>
                 if \<not> cleanText (wf_SSID wi) 1 32 \<or> \<not> cleanText (wf_Passphrase wi) 8 63 \<or>
                    wf_Channel wi < 1 \<or> wf_Channel wi > 233
                 then Some (Error_New ''invalid_gateway_private_wifi'') else None)"

definition active :: "transaction option \<Rightarrow> bool" where
  "active t = (case t of None \<Rightarrow> False
     | Some x \<Rightarrow> tx_State x = ''prepared'' \<or> tx_State x = ''applying'' \<or> tx_State x = ''applied'' \<or> tx_State x = ''rolling-back'')"

definition confirmed :: "transaction option \<Rightarrow> bool" where
  "confirmed t = (case t of None \<Rightarrow> False | Some x \<Rightarrow> tx_State x = ''confirmed'')"

definition known_states :: "string list" where
  "known_states = [''prepared'', ''applying'', ''applied'', ''confirmed'', ''finalized'', ''rolling-back'', ''rolled-back'', ''failed'']"

text \<open>The checks of \<^verbatim>\<open>locked\<close> on a journal that was read.\<close>

definition check_journal :: "'b gw_env \<Rightarrow> journal \<Rightarrow> go_error option" where
  "check_journal env s =
     (case j_Transaction s of
        None \<Rightarrow> None
      | Some t \<Rightarrow>
          if \<not> transactionID (tx_ID t) then Some (Error_New ''invalid_gateway_transaction_identity'')
          else if ValidatePlan (tx_Plan t) \<noteq> None \<or> is_zero (tx_CreatedAt t) \<or>
            \<not> requestKey (j_RequestKey s) \<or> \<not> fingerprint (j_RequestHash s)
          then Some (Error_New ''invalid_gateway_journal'')
          else if tx_State t \<notin> set known_states then Some (Error_New ''invalid_gateway_transaction_state'')
          else if (tx_State t = ''applying'' \<or> tx_State t = ''applied'') \<and> is_zero (tx_Deadline t)
          then Some (Error_New ''invalid_gateway_transaction_deadline'')
          else if active (Some t) \<or> tx_State t = ''confirmed''
          then validatePrepared env (j_Snapshot s) (tx_Plan t) (j_PrivateWiFi s)
          else None)"

text \<open>\<^verbatim>\<open>locked\<close>: the journal its callback works on, or the error that ends the call.\<close>

definition locked :: "'b gw_env \<Rightarrow> call \<Rightarrow> 'b gw_world \<Rightarrow> journal result" where
  "locked env c w =
     (case c_lock c of Some e \<Rightarrow> Inl e | None \<Rightarrow>
      case c_read c of Some e \<Rightarrow> Inl e | None \<Rightarrow>
      case w_disk w of
        None \<Rightarrow> Inr empty_journal
      | Some s \<Rightarrow>
          if ge_size env s > strictDecodeLimit \<or> j_Version s \<noteq> 1 \<or> j_Role s \<noteq> ''gateway-backhaul''
          then Inl (Error_New ''invalid_gateway_journal'')
          else case check_journal env s of Some e \<Rightarrow> Inl e | None \<Rightarrow> Inr s)"

section \<open>The operations\<close>

text \<open>
  The result of an operation is the transaction it returns (\<open>None\<close> for the zero value) with its
  error. Inside an operation the journal \<open>s\<close> and its transaction \<open>t\<close> are the in-memory values;
  \<open>set_tx\<close> writes the transaction back through the pointer the source shares.
\<close>

type_synonym tx_result = "transaction option \<times> go_error option"

definition failed_op :: "string \<Rightarrow> tx_result" where
  "failed_op msg = (None, Some (Error_New msg))"

definition set_tx :: "transaction \<Rightarrow> journal \<Rightarrow> journal" where
  "set_tx t s = s\<lparr>j_Transaction := Some t\<rparr>"

definition drop_private :: "journal \<Rightarrow> journal" where
  "drop_private s = s\<lparr>j_Snapshot := [], j_PrivateWiFi := None\<rparr>"

definition save :: "'b gw_env \<Rightarrow> journal \<Rightarrow> 'b gw_run \<Rightarrow> go_error option \<times> 'b gw_run" where
  "save env s r = writePrivate ''gateway coverage'' (ge_size env) s r"

definition publicTransaction :: "transaction option \<Rightarrow> transaction option" where
  "publicTransaction t = t"

definition Status :: "'b gw_env \<Rightarrow> call \<Rightarrow> 'b gw_world \<Rightarrow> transaction option result" where
  "Status env c w = bind_result (locked env c w) (\<lambda>s. Inr (publicTransaction (j_Transaction s)))"

definition checkCurrent :: "'b gw_env \<Rightarrow> 'b \<Rightarrow> journal \<Rightarrow> go_error option" where
  "checkCurrent env b s =
     (case (j_Transaction s, j_PrivateWiFi s) of
        (Some t, Some pw) \<Rightarrow>
          (case ge_check env b (tx_Plan t) of
             Inl e \<Rightarrow> Some e
           | Inr wi \<Rightarrow> if wi \<noteq> pw then Some (Error_New ''gateway_ap_settings_changed'') else None)
      | _ \<Rightarrow> Some (Error_New ''gateway_private_plan_missing''))"

definition prepared_tx :: "call \<Rightarrow> bytes \<Rightarrow> plan \<Rightarrow> transaction" where
  "prepared_tx c nonce p =
     \<lparr>tx_ID = hex_encode nonce, tx_State = ''prepared'', tx_CreatedAt = c_now c, tx_Deadline = 0,
      tx_Plan = p, tx_ErrorCode = ''''\<rparr>"

text \<open>The callback of \<^verbatim>\<open>Prepare\<close>, on the loaded journal.\<close>

definition prepare_locked :: "'b gw_env \<Rightarrow> call \<Rightarrow> string \<Rightarrow> plan \<Rightarrow> journal \<Rightarrow> 'b gw_run \<Rightarrow> tx_result \<times> 'b gw_run" where
  "prepare_locked env c key p s r =
     (let hash = hex_encode (ge_hash env p); b = w_back (r_world r) in
      if j_RequestKey s = key
      then (if j_RequestHash s \<noteq> hash then failed_op ''idempotency_conflict''
            else if j_Transaction s = None then failed_op ''invalid_gateway_journal''
            else (publicTransaction (j_Transaction s), None), r)
      else if active (j_Transaction s) \<or> confirmed (j_Transaction s)
      then (failed_op ''gateway_transaction_busy'', r)
      else case ge_check env b p of Inl e \<Rightarrow> ((None, Some e), r) | Inr wi \<Rightarrow>
        case ge_snapshot env b p of Inl e \<Rightarrow> ((None, Some e), r) | Inr snap \<Rightarrow>
          case validatePrepared env snap p (Some wi) of Some e \<Rightarrow> ((None, Some e), r) | None \<Rightarrow>
            case c_nonce c of Inl e \<Rightarrow> ((None, Some e), r) | Inr nonce \<Rightarrow>
              let t = prepared_tx c nonce p;
                  s' = s\<lparr>j_Transaction := Some t, j_Snapshot := snap, j_PrivateWiFi := Some wi,
                         j_RequestKey := key, j_RequestHash := hash\<rparr>
              in case save env s' r of
                   (Some e, r') \<Rightarrow> ((None, Some e), r')
                 | (None, r') \<Rightarrow> ((publicTransaction (Some t), None), r'))"

text \<open>An operation runs its callback on the journal that \<^verbatim>\<open>locked\<close> loads.\<close>

definition with_journal ::
  "'b gw_env \<Rightarrow> call \<Rightarrow> (journal \<Rightarrow> 'b gw_run \<Rightarrow> tx_result \<times> 'b gw_run) \<Rightarrow> 'b gw_run \<Rightarrow> tx_result \<times> 'b gw_run" where
  "with_journal env c fn r =
     (case locked env c (r_world r) of Inl e \<Rightarrow> ((None, Some e), r) | Inr s \<Rightarrow> fn s r)"

definition Prepare :: "'b gw_env \<Rightarrow> call \<Rightarrow> string \<Rightarrow> plan \<Rightarrow> 'b gw_run \<Rightarrow> tx_result \<times> 'b gw_run" where
  "Prepare env c key p r =
     (case ValidatePlan p of Some e \<Rightarrow> ((None, Some e), r) | None \<Rightarrow>
      if \<not> requestKey key then (failed_op ''idempotency_key_required'', r)
      else with_journal env c (prepare_locked env c key p) r)"

text \<open>The transaction of the journal, if it has the wanted identifier.\<close>

definition tx_with :: "string \<Rightarrow> journal \<Rightarrow> transaction option" where
  "tx_with i s = (case j_Transaction s of None \<Rightarrow> None | Some t \<Rightarrow> if tx_ID t = i then Some t else None)"

text \<open>The operations on the current transaction run their callback on it, if its identifier is the wanted one.\<close>

definition on_tx ::
  "'b gw_env \<Rightarrow> call \<Rightarrow> string \<Rightarrow> (journal \<Rightarrow> transaction \<Rightarrow> 'b gw_run \<Rightarrow> tx_result \<times> 'b gw_run) \<Rightarrow> 'b gw_run \<Rightarrow>
     tx_result \<times> 'b gw_run" where
  "on_tx env c i fn r = with_journal env c (\<lambda>s r.
     case tx_with i s of
       None \<Rightarrow> (failed_op ''gateway_transaction_not_found'', r)
     | Some t \<Rightarrow> fn s t r) r"

definition Validate :: "'b gw_env \<Rightarrow> call \<Rightarrow> string \<Rightarrow> 'b gw_run \<Rightarrow> tx_result \<times> 'b gw_run" where
  "Validate env c i r = on_tx env c i (\<lambda>s t r.
     (case checkCurrent env (w_back (r_world r)) s of
        Some e \<Rightarrow> (None, Some e)
      | None \<Rightarrow> (publicTransaction (Some t), None), r)) r"

text \<open>\<^verbatim>\<open>rollback\<close>: the transaction as it is in memory afterwards, and the error.\<close>

definition rollback :: "'b gw_env \<Rightarrow> journal \<Rightarrow> 'b gw_run \<Rightarrow> (journal \<times> go_error option) \<times> 'b gw_run" where
  "rollback env s r =
     (case j_Transaction s of
        None \<Rightarrow> ((s, Some (Error_New ''gateway_transaction_not_found'')), r)
      | Some t \<Rightarrow>
          let t1 = t\<lparr>tx_State := ''rolling-back''\<rparr>; s1 = set_tx t1 s in
          case save env s1 r of
            (Some e, r1) \<Rightarrow> ((s1, Some e), r1)
          | (None, r1) \<Rightarrow>
              case device_step (ge_restore env (j_Snapshot s1)) r1 of
                (Some _, r2) \<Rightarrow>
                  let s2 = set_tx (t1\<lparr>tx_ErrorCode := ''rollback_failed''\<rparr>) s1 in
                  (case save env s2 r2 of
                     (Some _, r3) \<Rightarrow> ((s2, Some (Error_New ''gateway_rollback_failed_and_journal_write_failed'')), r3)
                   | (None, r3) \<Rightarrow> ((s2, Some (Error_New ''gateway_rollback_failed'')), r3))
              | (None, r2) \<Rightarrow>
                  let s2 = drop_private (set_tx (t1\<lparr>tx_State := ''rolled-back'', tx_Deadline := 0\<rparr>) s1) in
                  (case save env s2 r2 of (e, r3) \<Rightarrow> ((s2, e), r3)))"

definition watchdog_failed :: "'b gw_env \<Rightarrow> journal \<Rightarrow> transaction \<Rightarrow> 'b gw_run \<Rightarrow> tx_result \<times> 'b gw_run" where
  "watchdog_failed env s t r =
     (case save env (drop_private (set_tx (t\<lparr>tx_State := ''failed'', tx_ErrorCode := ''watchdog_unavailable''\<rparr>) s)) r of
        (Some _, r') \<Rightarrow> (failed_op ''gateway_watchdog_unavailable_and_journal_write_failed'', r')
      | (None, r') \<Rightarrow> (failed_op ''gateway_watchdog_unavailable'', r'))"

text \<open>\<^verbatim>\<open>Apply\<close> once the watchdog is armed: the device change, and what follows it.\<close>

definition apply_armed :: "'b gw_env \<Rightarrow> journal \<Rightarrow> transaction \<Rightarrow> 'b gw_run \<Rightarrow> tx_result \<times> 'b gw_run" where
  "apply_armed env s t r =
     (case device_step (ge_apply env (tx_Plan t)) r of
        (Some _, r1) \<Rightarrow>
          (case rollback env (set_tx (t\<lparr>tx_ErrorCode := ''apply_failed''\<rparr>) s) r1 of
             ((s2, Some e), r2) \<Rightarrow> ((None, Some e), r2)
           | ((s2, None), r2) \<Rightarrow>
               ((publicTransaction (j_Transaction s2), Some (Error_New ''gateway_apply_failed_and_rolled_back'')), r2))
      | (None, r1) \<Rightarrow>
          let t2 = t\<lparr>tx_State := ''applied''\<rparr> in
          (case save env (set_tx t2 s) r1 of
             (Some e, r2) \<Rightarrow> ((None, Some e), r2)
           | (None, r2) \<Rightarrow> ((publicTransaction (Some t2), None), r2)))"

definition apply_tx ::
  "'b gw_env \<Rightarrow> call \<Rightarrow> duration \<Rightarrow> journal \<Rightarrow> transaction \<Rightarrow> 'b gw_run \<Rightarrow> tx_result \<times> 'b gw_run" where
  "apply_tx env c timeout s t r =
     (if tx_State t = ''applied'' \<or> tx_State t = ''confirmed'' then ((publicTransaction (Some t), None), r)
      else if tx_State t \<noteq> ''prepared'' then (failed_op ''gateway_transaction_invalid_state'', r)
      else case checkCurrent env (w_back (r_world r)) s of Some e \<Rightarrow> ((None, Some e), r) | None \<Rightarrow>
        case ge_arm env of None \<Rightarrow> (failed_op ''independent_gateway_watchdog_required'', r) | Some arm \<Rightarrow>
          let t1 = t\<lparr>tx_State := ''applying'', tx_Deadline := c_now c + timeout\<rparr>; s1 = set_tx t1 s in
          case save env s1 r of
            (Some e, r1) \<Rightarrow> ((None, Some e), r1)
          | (None, r1) \<Rightarrow>
              if arm (tx_ID t1) \<noteq> None then watchdog_failed env s1 t1 r1
              else apply_armed env s1 t1 r1)"

definition Apply :: "'b gw_env \<Rightarrow> call \<Rightarrow> string \<Rightarrow> duration \<Rightarrow> 'b gw_run \<Rightarrow> tx_result \<times> 'b gw_run" where
  "Apply env c i timeout r =
     (if timeout < 30 * second \<or> timeout > 180 * second
      then (failed_op ''confirmation_window_must_be_30_to_180_seconds'', r)
      else on_tx env c i (apply_tx env c timeout) r)"

definition confirm_tx :: "'b gw_env \<Rightarrow> call \<Rightarrow> journal \<Rightarrow> transaction \<Rightarrow> 'b gw_run \<Rightarrow> tx_result \<times> 'b gw_run" where
  "confirm_tx env c s t r =
     (if tx_State t = ''confirmed'' \<or> tx_State t = ''finalized'' then ((publicTransaction (Some t), None), r)
      else if tx_State t \<noteq> ''applied'' then (failed_op ''gateway_transaction_invalid_state'', r)
      else if \<not> c_now c < tx_Deadline t
      then (case rollback env s r of
              ((_, Some e), r1) \<Rightarrow> ((None, Some e), r1)
            | ((_, None), r1) \<Rightarrow> (failed_op ''gateway_confirmation_expired'', r1))
      else case checkCurrent env (w_back (r_world r)) s of Some e \<Rightarrow> ((None, Some e), r) | None \<Rightarrow>
        let t1 = t\<lparr>tx_State := ''confirmed'', tx_Deadline := 0\<rparr> in
        (case save env (set_tx t1 s) r of
           (Some e, r1) \<Rightarrow> ((None, Some e), r1)
         | (None, r1) \<Rightarrow> ((publicTransaction (Some t1), None), r1)))"

definition Confirm :: "'b gw_env \<Rightarrow> call \<Rightarrow> string \<Rightarrow> 'b gw_run \<Rightarrow> tx_result \<times> 'b gw_run" where
  "Confirm env c i r = on_tx env c i (confirm_tx env c) r"

definition rollback_tx :: "'b gw_env \<Rightarrow> journal \<Rightarrow> transaction \<Rightarrow> 'b gw_run \<Rightarrow> tx_result \<times> 'b gw_run" where
  "rollback_tx env s t r =
     (if tx_State t = ''rolled-back'' then ((publicTransaction (Some t), None), r)
      else if tx_State t = ''finalized'' \<or> tx_State t = ''failed''
      then (failed_op ''gateway_transaction_invalid_state'', r)
      else if tx_State t = ''prepared''
      then let t1 = t\<lparr>tx_State := ''rolled-back''\<rparr> in
           (case save env (drop_private (set_tx t1 s)) r of
              (Some e, r1) \<Rightarrow> ((None, Some e), r1)
            | (None, r1) \<Rightarrow> ((publicTransaction (Some t1), None), r1))
      else (case rollback env s r of
              ((_, Some e), r1) \<Rightarrow> ((None, Some e), r1)
            | ((s1, None), r1) \<Rightarrow> ((publicTransaction (j_Transaction s1), None), r1)))"

definition Rollback :: "'b gw_env \<Rightarrow> call \<Rightarrow> string \<Rightarrow> 'b gw_run \<Rightarrow> tx_result \<times> 'b gw_run" where
  "Rollback env c i r = on_tx env c i (rollback_tx env) r"

definition finalize_tx :: "'b gw_env \<Rightarrow> journal \<Rightarrow> transaction \<Rightarrow> 'b gw_run \<Rightarrow> tx_result \<times> 'b gw_run" where
  "finalize_tx env s t r =
     (if tx_State t = ''finalized'' then ((publicTransaction (Some t), None), r)
      else if tx_State t \<noteq> ''confirmed'' then (failed_op ''gateway_transaction_invalid_state'', r)
      else let t1 = t\<lparr>tx_State := ''finalized''\<rparr> in
           (case save env (drop_private (set_tx t1 s)) r of
              (Some e, r1) \<Rightarrow> ((None, Some e), r1)
            | (None, r1) \<Rightarrow> ((publicTransaction (Some t1), None), r1)))"

definition Finalize :: "'b gw_env \<Rightarrow> call \<Rightarrow> string \<Rightarrow> 'b gw_run \<Rightarrow> tx_result \<times> 'b gw_run" where
  "Finalize env c i r = on_tx env c i (finalize_tx env) r"

text \<open>\<^verbatim>\<open>Recover\<close> returns whether the transaction needs no further attention.\<close>

definition Recover :: "'b gw_env \<Rightarrow> call \<Rightarrow> 'b gw_run \<Rightarrow> (bool \<times> go_error option) \<times> 'b gw_run" where
  "Recover env c r =
     (case locked env c (r_world r) of
        Inl e \<Rightarrow> ((False, Some e), r)
      | Inr s \<Rightarrow>
          (case j_Transaction s of
             None \<Rightarrow> ((True, None), r)
           | Some t \<Rightarrow>
               if \<not> active (Some t) \<or> tx_State t = ''prepared'' then ((True, None), r)
               else if tx_State t = ''rolling-back'' \<or> (\<not> is_zero (tx_Deadline t) \<and> \<not> c_now c < tx_Deadline t)
               then (case rollback env s r of
                       ((_, Some e), r1) \<Rightarrow> ((False, Some e), r1)
                     | ((_, None), r1) \<Rightarrow> ((True, None), r1))
               else ((False, None), r)))"

definition Resume :: "'b gw_env \<Rightarrow> call \<Rightarrow> 'b gw_world \<Rightarrow> go_error option" where
  "Resume env c w =
     (case locked env c w of
        Inl e \<Rightarrow> Some e
      | Inr s \<Rightarrow>
          (case j_Transaction s of
             None \<Rightarrow> None
           | Some t \<Rightarrow>
               if \<not> active (Some t) \<or> tx_State t = ''prepared'' then None
               else case ge_arm env of
                 None \<Rightarrow> Some (Error_New ''independent_gateway_watchdog_required'')
               | Some arm \<Rightarrow> arm (tx_ID t)))"

definition CanRemove :: "'b gw_env \<Rightarrow> call \<Rightarrow> 'b gw_world \<Rightarrow> go_error option" where
  "CanRemove env c w =
     (case locked env c w of
        Inl e \<Rightarrow> Some e
      | Inr s \<Rightarrow> if active (j_Transaction s) \<or> confirmed (j_Transaction s)
                 then Some (Error_New ''gateway_transaction_requires_resolution'') else None)"

definition material :: "'b gw_env \<Rightarrow> call \<Rightarrow> string \<Rightarrow> 'b gw_world \<Rightarrow> wifi result" where
  "material env c i w = bind_result (locked env c w) (\<lambda>s.
     case (tx_with i s, j_PrivateWiFi s) of
       (Some _, Some wi) \<Rightarrow> Inr wi
     | _ \<Rightarrow> Inl (Error_New ''gateway_private_plan_missing''))"

text \<open>
  What \<^verbatim>\<open>Do\<close> returns: the values of the map it builds. A call that runs two operations reads its
  inputs for the second from \<open>c2\<close>.
\<close>

datatype reply =
    Reply_setup string
  | Reply_status "transaction option"
  | Reply_prepared transaction wifi
  | Reply_plan plan wifi
  | Reply_tx transaction

definition reply_tx :: "tx_result \<times> 'b gw_run \<Rightarrow> reply result \<times> 'b gw_run" where
  "reply_tx x = (case x of ((t, e), r) \<Rightarrow>
     (case e of Some err \<Rightarrow> Inl err
      | None \<Rightarrow> (case t of None \<Rightarrow> Inl (Error_New ''nil transaction'') | Some u \<Rightarrow> Inr (Reply_tx u)), r))"

definition Do :: "'b gw_env \<Rightarrow> call \<Rightarrow> call \<Rightarrow> operation \<Rightarrow> 'b gw_run \<Rightarrow> reply result \<times> 'b gw_run" where
  "Do env c c2 q r =
     (case ValidateOperation q of Some e \<Rightarrow> (Inl e, r) | None \<Rightarrow>
      if op_Action q = ''inspect'' then (map_sum id Reply_setup (ge_inspect env (w_back (r_world r))), r)
      else if op_Action q = ''status'' then (map_sum id Reply_status (Status env c (r_world r)), r)
      else if op_Action q = ''prepare'' then
        (case Prepare env c (op_Key q) (the (op_Plan q)) r of
           ((Some t, None), r1) \<Rightarrow> (map_sum id (Reply_prepared t) (material env c2 (tx_ID t) (r_world r1)), r1)
         | ((t, e), r1) \<Rightarrow> (Inl (case e of Some err \<Rightarrow> err | None \<Rightarrow> Error_New ''nil transaction''), r1))
      else if op_Action q = ''validate'' \<and> op_Plan q \<noteq> None then
        (map_sum id (Reply_plan (the (op_Plan q))) (ge_check env (w_back (r_world r)) (the (op_Plan q))), r)
      else if op_Action q = ''validate'' then reply_tx (Validate env c (op_ID q) r)
      else if op_Action q = ''apply'' then reply_tx (Apply env c (op_ID q) (dur_mul (op_TimeoutSeconds q) second) r)
      else if op_Action q = ''confirm'' then reply_tx (Confirm env c (op_ID q) r)
      else if op_Action q = ''rollback'' then reply_tx (Rollback env c (op_ID q) r)
      else reply_tx (Finalize env c (op_ID q) r))"

end
