(* ===== verification/Gateway_Props.thy ===== *)
theory Gateway_Props
  imports Gateway_Txn
begin

text \<open>
  What the gateway transaction manager guarantees: the journal on disk stays readable and, as long
  as the device may differ from the configuration that was there before, the journal holds a
  snapshot from which it can be restored, whatever write fails and wherever a crash cuts an
  operation short; \<^verbatim>\<open>Recover\<close> then restores it. The state machine of the transaction and the
  idempotence of \<^verbatim>\<open>Prepare\<close> follow.
\<close>

section \<open>What the environment promises\<close>

text \<open>
  The device states that applying a plan and restoring a snapshot, any number of times and
  successfully or not, lead to.
\<close>

inductive touched :: "'b gw_env \<Rightarrow> plan \<Rightarrow> snapshot \<Rightarrow> 'b \<Rightarrow> 'b \<Rightarrow> bool" for env p snap b0 where
  untouched: "touched env p snap b0 b0"
| after_apply: "touched env p snap b0 b \<Longrightarrow> touched env p snap b0 (snd (ge_apply env p b))"
| after_restore: "touched env p snap b0 b \<Longrightarrow> touched env p snap b0 (snd (ge_restore env snap b))"

text \<open>
  \<open>cfg\<close> is the device's wireless configuration: a restore that reports success undoes the changes
  of the plan its snapshot was taken for.
\<close>

definition restore_law :: "'b gw_env \<Rightarrow> ('b \<Rightarrow> 'c) \<Rightarrow> bool" where
  "restore_law env cfg \<longleftrightarrow> (\<forall>b0 p snap b b'. ge_snapshot env b0 p = Inr snap \<longrightarrow> touched env p snap b0 b \<longrightarrow>
     ge_restore env snap b = (None, b') \<longrightarrow> cfg b' = cfg b0)"

definition hash_law :: "'b gw_env \<Rightarrow> bool" where
  "hash_law env \<longleftrightarrow> (\<forall>p. length (ge_hash env p) = 32)"

section \<open>Operations with crashes\<close>

datatype gw_op = Op_Do operation call call | Op_Recover call

definition gw_exec :: "'b gw_env \<Rightarrow> gw_op \<Rightarrow> 'b gw_world \<Rightarrow> 'b gw_run" where
  "gw_exec env q w = (case q of
     Op_Do o1 c c2 \<Rightarrow> snd (Do env c c2 o1 (start_run w (c_writes c)))
   | Op_Recover c \<Rightarrow> snd (Recover env c (start_run w (c_writes c))))"

definition gw_worlds :: "'b gw_env \<Rightarrow> gw_op \<Rightarrow> 'b gw_world \<Rightarrow> 'b gw_world list" where
  "gw_worlds env q w = r_world (gw_exec env q w) # r_trace (gw_exec env q w)"

text \<open>
  The clock is past the zero time, the random source returns the bytes asked for, and the
  operation does not give up the snapshot for good (\<^verbatim>\<open>finalize\<close>).
\<close>

definition call_ok :: "call \<Rightarrow> bool" where
  "call_ok c \<longleftrightarrow> 0 < c_now c \<and> (case c_nonce c of Inl _ \<Rightarrow> True | Inr n \<Rightarrow> length n = 16)"

definition gw_admissible :: "gw_op \<Rightarrow> bool" where
  "gw_admissible q = (case q of
     Op_Do o1 c c2 \<Rightarrow> call_ok c \<and> op_Action o1 \<noteq> ''finalize''
   | Op_Recover c \<Rightarrow> call_ok c)"

section \<open>The invariant\<close>

definition error_codes :: "string list" where
  "error_codes = ['''', ''watchdog_unavailable'', ''apply_failed'', ''rollback_failed'']"

text \<open>What every journal with a transaction satisfies, whatever the state of the transaction.\<close>

definition well_formed :: "journal \<Rightarrow> transaction \<Rightarrow> bool" where
  "well_formed s t \<longleftrightarrow> j_Version s = 1 \<and> j_Role s = ''gateway-backhaul'' \<and> j_Transaction s = Some t \<and>
     transactionID (tx_ID t) \<and> ValidatePlan (tx_Plan t) = None \<and> \<not> is_zero (tx_CreatedAt t) \<and>
     requestKey (j_RequestKey s) \<and> fingerprint (j_RequestHash s) \<and> tx_ErrorCode t \<in> set error_codes"

definition state_ok :: "transaction \<Rightarrow> bool" where
  "state_ok t \<longleftrightarrow> tx_State t \<in> set known_states \<and>
     (tx_State t = ''applying'' \<or> tx_State t = ''applied'' \<longrightarrow> \<not> is_zero (tx_Deadline t))"

text \<open>A transaction whose snapshot is still needed, and what the journal holds for it.\<close>

definition live :: "transaction \<Rightarrow> bool" where
  "live t \<longleftrightarrow> active (Some t) \<or> confirmed (Some t)"

definition held :: "'b gw_env \<Rightarrow> ('b \<Rightarrow> 'c) \<Rightarrow> 'c \<Rightarrow> journal \<Rightarrow> transaction \<Rightarrow> 'b \<Rightarrow> bool" where
  "held env cfg base s t b \<longleftrightarrow>
     validatePrepared env (j_Snapshot s) (tx_Plan t) (j_PrivateWiFi s) = None \<and>
     (\<exists>b0. cfg b0 = base \<and> ge_snapshot env b0 (tx_Plan t) = Inr (j_Snapshot s) \<and>
       touched env (tx_Plan t) (j_Snapshot s) b0 b)"

definition gw_safe :: "'b gw_env \<Rightarrow> ('b \<Rightarrow> 'c) \<Rightarrow> 'c \<Rightarrow> 'b gw_world \<Rightarrow> bool" where
  "gw_safe env cfg base w \<longleftrightarrow> (case w_disk w of
     None \<Rightarrow> cfg (w_back w) = base
   | Some s \<Rightarrow> \<exists>t. well_formed s t \<and> state_ok t \<and>
       (live t \<longrightarrow> held env cfg base s t (w_back w)) \<and>
       (\<not> live t \<or> tx_State t = ''prepared'' \<longrightarrow> cfg (w_back w) = base))"

lemma locked_Inr:
  assumes "locked env c w = Inr s"
  shows "w_disk w = None \<and> s = empty_journal \<or> w_disk w = Some s"
  using assms by (auto simp: locked_def split: option.splits if_splits)

lemma gw_safe_disk:
  "gw_safe env cfg base w \<Longrightarrow> w_disk w = Some s \<Longrightarrow> j_Transaction s = Some t \<Longrightarrow>
    well_formed s t \<and> state_ok t \<and> (live t \<longrightarrow> held env cfg base s t (w_back w)) \<and>
    (\<not> live t \<or> tx_State t = ''prepared'' \<longrightarrow> cfg (w_back w) = base)"
  by (auto simp: gw_safe_def well_formed_def)

lemma save_safe:
  assumes "run_all (gw_safe env cfg base) r" and "well_formed s t" and "state_ok t"
    and "live t \<Longrightarrow> held env cfg base s t (w_back (r_world r))"
    and "\<not> live t \<or> tx_State t = ''prepared'' \<Longrightarrow> cfg (w_back (r_world r)) = base"
  shows "run_all (gw_safe env cfg base) (snd (save env s r))"
  unfolding save_def using assms by (intro writePrivate_run_all) (auto simp: gw_safe_def)

lemma well_formed_set_tx [simp]:
  "well_formed (set_tx t s) t' \<longleftrightarrow> t' = t \<and> well_formed (s\<lparr>j_Transaction := Some t\<rparr>) t"
  by (auto simp: well_formed_def set_tx_def)

lemma set_tx_simps [simp]: "j_Transaction (set_tx t s) = Some t" "j_Snapshot (set_tx t s) = j_Snapshot s"
  "j_PrivateWiFi (set_tx t s) = j_PrivateWiFi s" "set_tx t (set_tx u s) = set_tx t s"
  "j_Transaction (drop_private s) = j_Transaction s"
  by (simp_all add: set_tx_def drop_private_def)

lemma well_formed_drop [simp]: "well_formed (drop_private s) t = well_formed s t"
  by (simp add: well_formed_def drop_private_def)

lemma held_apply: "held env cfg base s t b \<Longrightarrow> held env cfg base s t (snd (ge_apply env (tx_Plan t) b))"
  unfolding held_def by (blast intro: after_apply)

lemma held_restore: "held env cfg base s t b \<Longrightarrow> held env cfg base s t (snd (ge_restore env (j_Snapshot s) b))"
  unfolding held_def by (blast intro: after_restore)

lemma held_restored:
  "restore_law env cfg \<Longrightarrow> held env cfg base s t b \<Longrightarrow> ge_restore env (j_Snapshot s) b = (None, b') \<Longrightarrow> cfg b' = base"
  unfolding held_def restore_law_def by blast

lemma save_world: "w_back (r_world (snd (save env s r))) = w_back (r_world r)"
  by (simp add: save_def)

lemma save_fst: "save env s r = (e, r') \<Longrightarrow> r' = snd (save env s r)"
  by simp

lemmas state_simps = live_def active_def confirmed_def state_ok_def known_states_def

section \<open>Every operation keeps the invariant\<close>

lemma save_None: "save env s r = (None, r') \<Longrightarrow> w_disk (r_world r') = Some s \<and> w_back (r_world r') = w_back (r_world r)"
  unfolding save_def by (rule writePrivate_None)

lemma device_safe:
  assumes "run_all (gw_safe env cfg base) r" and "w_disk (r_world r) = Some s" and "well_formed s t" and "live t"
    and "tx_State t \<noteq> ''prepared''" and "held env cfg base s t (snd (f (w_back (r_world r))))"
  shows "run_all (gw_safe env cfg base) (snd (device_step f r))"
proof (rule device_step_run_all [OF assms(1)])
  fix e b
  assume "f (w_back (r_world r)) = (e, b)"
  moreover have "state_ok t"
    using assms(1-3) by (auto simp: run_all_def gw_safe_def well_formed_def)
  ultimately show "gw_safe env cfg base ((r_world r)\<lparr>w_back := b\<rparr>)"
    using assms(2-6) by (auto simp: gw_safe_def)
qed

lemma well_formed_update:
  assumes "well_formed s t" and "tx_ID t' = tx_ID t" and "tx_Plan t' = tx_Plan t" and "tx_CreatedAt t' = tx_CreatedAt t"
    and "tx_ErrorCode t' \<in> set error_codes"
  shows "well_formed (s\<lparr>j_Transaction := Some t'\<rparr>) t'"
  using assms by (simp add: well_formed_def)

lemma well_formed_code: "well_formed s t \<Longrightarrow> tx_ErrorCode t \<in> set error_codes"
  by (simp add: well_formed_def)

lemma codes [simp]: "'''' \<in> set error_codes" "''watchdog_unavailable'' \<in> set error_codes"
  "''apply_failed'' \<in> set error_codes" "''rollback_failed'' \<in> set error_codes"
  by (simp_all add: error_codes_def)

text \<open>The two ends of a rollback, from the point where the journal says \<open>rolling-back\<close>.\<close>

definition rollback_end :: "'b gw_env \<Rightarrow> journal \<Rightarrow> transaction \<Rightarrow> go_error option \<Rightarrow> 'b gw_run \<Rightarrow> 'b gw_run" where
  "rollback_end env s t e r =
     (if e \<noteq> None then snd (save env (set_tx (t\<lparr>tx_ErrorCode := ''rollback_failed''\<rparr>) s) r)
      else snd (save env (drop_private (set_tx (t\<lparr>tx_State := ''rolled-back'', tx_Deadline := 0\<rparr>) s)) r))"

lemma rollback_run:
  assumes "j_Transaction s = Some t" and "t1 = t\<lparr>tx_State := ''rolling-back''\<rparr>" and "s1 = set_tx t1 s"
  shows "snd (rollback env s r) =
    (if fst (save env s1 r) \<noteq> None then snd (save env s1 r)
     else let d = device_step (ge_restore env (j_Snapshot s1)) (snd (save env s1 r))
          in rollback_end env s1 t1 (fst d) (snd d))"
  using assms by (auto simp: rollback_def rollback_end_def Let_def simp del: device_step_simps split: prod.splits option.splits)

lemma rollback_end_safe:
  assumes "run_all (gw_safe env cfg base) r" and "well_formed s t" and "tx_State t = ''rolling-back''"
    and "held env cfg base s t (w_back (r_world r))" and "e = None \<Longrightarrow> cfg (w_back (r_world r)) = base"
  shows "run_all (gw_safe env cfg base) (rollback_end env s t e r)"
proof (cases e)
  case None
  have "well_formed (drop_private (set_tx (t\<lparr>tx_State := ''rolled-back'', tx_Deadline := 0\<rparr>) s)) (t\<lparr>tx_State := ''rolled-back'', tx_Deadline := 0\<rparr>)"
    using assms(2) well_formed_code [OF assms(2)] by (simp add: well_formed_update)
  from save_safe [OF assms(1) this] show ?thesis
    using None assms(5) by (simp add: rollback_end_def state_simps)
next
  case (Some err)
  have "well_formed (set_tx (t\<lparr>tx_ErrorCode := ''rollback_failed''\<rparr>) s) (t\<lparr>tx_ErrorCode := ''rollback_failed''\<rparr>)"
    using assms(2) by (simp add: well_formed_update)
  from save_safe [OF assms(1) this] show ?thesis
    using Some assms(3,4) by (simp add: rollback_end_def state_simps held_def)
qed

lemma rollback_safe:
  assumes law: "restore_law env cfg" and run: "run_all (gw_safe env cfg base) r"
    and s: "well_formed s t" and held: "held env cfg base s t (w_back (r_world r))"
  shows "run_all (gw_safe env cfg base) (snd (rollback env s r))"
proof -
  define t1 where "t1 = t\<lparr>tx_State := ''rolling-back''\<rparr>"
  define s1 where "s1 = set_tx t1 s"
  define ra where "ra = snd (save env s1 r)"
  define d where "d = device_step (ge_restore env (j_Snapshot s1)) ra"
  have tx: "j_Transaction s = Some t" using s by (simp add: well_formed_def)
  have wf1: "well_formed s1 t1"
    using s well_formed_code [OF s] by (simp add: s1_def t1_def well_formed_update)
  have live1: "live t1" "tx_State t1 = ''rolling-back''" "state_ok t1" by (simp_all add: t1_def state_simps)
  have held1: "held env cfg base s1 t1 (w_back (r_world ra))"
    using held by (simp add: s1_def t1_def ra_def save_world held_def)
  have safe_a: "run_all (gw_safe env cfg base) ra"
    using run wf1 live1 held1 unfolding ra_def
    by (intro save_safe [of _ _ _ _ _ t1]) (auto simp: save_world)
  have "run_all (gw_safe env cfg base) (rollback_end env s1 t1 (fst d) (snd d))" if "fst (save env s1 r) = None"
  proof (rule rollback_end_safe [OF _ wf1 live1(2)])
    have "w_disk (r_world ra) = Some s1"
      using save_None [of env s1 r ra] that by (simp add: ra_def prod_eq_iff)
    then show "run_all (gw_safe env cfg base) (snd d)"
      unfolding d_def using safe_a wf1 live1 held_restore [OF held1]
      by (intro device_safe [of _ _ _ _ s1 t1]) simp_all
    show "held env cfg base s1 t1 (w_back (r_world (snd d)))"
      using held_restore [OF held1] by (simp add: d_def)
    assume "fst d = None"
    then show "cfg (w_back (r_world (snd d))) = base"
      using held_restored [OF law held1] by (simp add: d_def prod_eq_iff)
  qed
  then show ?thesis
    using safe_a by (simp add: rollback_run [OF tx t1_def s1_def] Let_def ra_def d_def)
qed

text \<open>What an operation knows of the transaction in the journal it has loaded.\<close>

definition known :: "'b gw_env \<Rightarrow> ('b \<Rightarrow> 'c) \<Rightarrow> 'c \<Rightarrow> journal \<Rightarrow> transaction \<Rightarrow> 'b \<Rightarrow> bool" where
  "known env cfg base s t b \<longleftrightarrow> well_formed s t \<and> state_ok t \<and> (live t \<longrightarrow> held env cfg base s t b) \<and>
     (\<not> live t \<or> tx_State t = ''prepared'' \<longrightarrow> cfg b = base)"

lemma locked_known:
  assumes "run_all (gw_safe env cfg base) r" and "locked env c (r_world r) = Inr s" and "j_Transaction s = Some t"
  shows "known env cfg base s t (w_back (r_world r))"
  using locked_Inr [OF assms(2)] gw_safe_disk [of env cfg base "r_world r" s t] assms(1,3)
  by (auto simp: known_def run_all_def empty_journal_def)

lemma tx_with_Some: "tx_with i s = Some t \<longleftrightarrow> j_Transaction s = Some t \<and> tx_ID t = i"
  by (auto simp: tx_with_def split: option.splits if_splits)

lemma on_tx_safe:
  assumes "run_all (gw_safe env cfg base) r"
    and "\<And>s t. known env cfg base s t (w_back (r_world r)) \<Longrightarrow> run_all (gw_safe env cfg base) (snd (fn s t r))"
  shows "run_all (gw_safe env cfg base) (snd (on_tx env c i fn r))"
  using assms locked_known [OF assms(1)]
  by (auto simp: on_tx_def with_journal_def tx_with_Some split: sum.splits option.splits)

lemma known_well_formed: "known env cfg base s t b \<Longrightarrow> well_formed s t"
  by (simp add: known_def)

lemma save_tx_safe:
  assumes "run_all (gw_safe env cfg base) r" and "known env cfg base s t (w_back (r_world r))"
    and "tx_ID t' = tx_ID t" and "tx_Plan t' = tx_Plan t" and "tx_CreatedAt t' = tx_CreatedAt t"
    and "tx_ErrorCode t' \<in> set error_codes" and "state_ok t'" and "live t' \<Longrightarrow> live t"
    and "\<not> live t' \<or> tx_State t' = ''prepared'' \<Longrightarrow> cfg (w_back (r_world r)) = base"
  shows "run_all (gw_safe env cfg base) (snd (save env (set_tx t' s) r))"
  using assms by (intro save_safe [of _ _ _ _ _ t']) (auto simp: known_def well_formed_def set_tx_def held_def)

lemma save_drop_safe:
  assumes "run_all (gw_safe env cfg base) r" and "well_formed s t"
    and "tx_ID t' = tx_ID t" and "tx_Plan t' = tx_Plan t" and "tx_CreatedAt t' = tx_CreatedAt t"
    and "tx_ErrorCode t' \<in> set error_codes" and "tx_State t' \<in> {''rolled-back'', ''failed''}"
    and "cfg (w_back (r_world r)) = base"
  shows "run_all (gw_safe env cfg base) (snd (save env (drop_private (set_tx t' s)) r))"
  using assms by (intro save_safe [of _ _ _ _ _ t']) (auto simp: well_formed_def set_tx_def drop_private_def state_simps)

lemma snd_case_save:
  "snd (case x of (None, r) \<Rightarrow> (f r, r) | (Some e, r) \<Rightarrow> (g e r, r)) = snd x"
  by (auto split: prod.splits option.splits)

lemma snd_case_rollback:
  "snd (case x of ((s, None), r) \<Rightarrow> (f s r, r) | ((s, Some e), r) \<Rightarrow> (g s e r, r)) = snd x"
  by (auto split: prod.splits option.splits)

lemma Validate_run [simp]: "snd (Validate env c i r) = r"
  by (auto simp: Validate_def on_tx_def with_journal_def split: sum.splits option.splits)

lemma confirm_tx_safe:
  assumes "restore_law env cfg" and "run_all (gw_safe env cfg base) r" and k: "known env cfg base s t (w_back (r_world r))"
  shows "run_all (gw_safe env cfg base) (snd (confirm_tx env c s t r))"
proof (cases "tx_State t = ''applied''")
  case False
  then show ?thesis using assms(2) by (simp add: confirm_tx_def)
next
  case True
  then have "held env cfg base s t (w_back (r_world r))" and wft: "well_formed s t"
    using k by (simp_all add: known_def state_simps)
  from rollback_safe [OF assms(1,2) wft this(1)]
  have rb: "run_all (gw_safe env cfg base) (snd (rollback env s r))" .
  have "run_all (gw_safe env cfg base) (snd (save env (set_tx (t\<lparr>tx_State := ''confirmed'', tx_Deadline := 0\<rparr>) s) r))"
    using True well_formed_code [OF wft] by (intro save_tx_safe [OF assms(2) k]) (simp_all add: state_simps)
  then show ?thesis
    using rb assms(2) True by (simp add: confirm_tx_def Let_def snd_case_save snd_case_rollback split: option.splits)
qed

lemma rollback_tx_safe:
  assumes "restore_law env cfg" and "run_all (gw_safe env cfg base) r" and k: "known env cfg base s t (w_back (r_world r))"
  shows "run_all (gw_safe env cfg base) (snd (rollback_tx env s t r))"
proof -
  have wft: "well_formed s t" using k by (rule known_well_formed)
  have "run_all (gw_safe env cfg base) (snd (save env (drop_private (set_tx (t\<lparr>tx_State := ''rolled-back''\<rparr>) s)) r))"
    if "tx_State t = ''prepared''"
    using that k well_formed_code [OF wft]
    by (intro save_drop_safe [OF assms(2) wft]) (simp_all add: known_def)
  moreover have "run_all (gw_safe env cfg base) (snd (rollback env s r))"
    if "tx_State t \<notin> {''rolled-back'', ''finalized'', ''failed'', ''prepared''}"
    using that k by (intro rollback_safe [OF assms(1,2) wft]) (auto simp: known_def state_simps)
  ultimately show ?thesis
    using assms(2) by (simp add: rollback_tx_def Let_def snd_case_save snd_case_rollback)
qed

lemma apply_armed_safe:
  assumes "restore_law env cfg" and "run_all (gw_safe env cfg base) r" and k: "known env cfg base s t (w_back (r_world r))"
    and st: "tx_State t = ''applying''" and "w_disk (r_world r) = Some s"
  shows "run_all (gw_safe env cfg base) (snd (apply_armed env s t r))"
proof -
  define d where "d = device_step (ge_apply env (tx_Plan t)) r"
  have wft: "well_formed s t" and held: "held env cfg base s t (w_back (r_world (snd d)))"
    using k st held_apply [of env cfg base s t] by (simp_all add: known_def state_simps d_def)
  have safe_d: "run_all (gw_safe env cfg base) (snd d)"
    unfolding d_def using assms(2,5) wft held st
    by (intro device_safe [of _ _ _ _ s t]) (simp_all add: state_simps d_def)
  define s1 where "s1 = set_tx (t\<lparr>tx_ErrorCode := ''apply_failed''\<rparr>) s"
  have "run_all (gw_safe env cfg base) (snd (rollback env s1 (snd d)))"
    using wft held by (intro rollback_safe [OF assms(1) safe_d, of _ "t\<lparr>tx_ErrorCode := ''apply_failed''\<rparr>"])
      (simp_all add: s1_def well_formed_update held_def)
  moreover have kd: "known env cfg base s t (w_back (r_world (snd d)))"
    using k held st by (simp add: known_def live_def active_def)
  have "run_all (gw_safe env cfg base) (snd (save env (set_tx (t\<lparr>tx_State := ''applied''\<rparr>) s) (snd d)))"
    using st k well_formed_code [OF wft] by (intro save_tx_safe [OF safe_d kd]) (simp_all add: state_simps known_def)
  ultimately show ?thesis
    by (auto simp: apply_armed_def Let_def d_def s1_def snd_case_save snd_case_rollback simp del: device_step_simps
        split: prod.split option.split)
qed

lemma apply_tx_safe:
  assumes "restore_law env cfg" and "run_all (gw_safe env cfg base) r" and k: "known env cfg base s t (w_back (r_world r))"
    and "0 < c_now c" and "0 \<le> timeout"
  shows "run_all (gw_safe env cfg base) (snd (apply_tx env c timeout s t r))"
proof (cases "tx_State t = ''prepared''")
  case False
  then show ?thesis using assms(2) by (simp add: apply_tx_def)
next
  case True
  define t1 where "t1 = t\<lparr>tx_State := ''applying'', tx_Deadline := c_now c + timeout\<rparr>"
  define s1 where "s1 = set_tx t1 s"
  define ra where "ra = snd (save env s1 r)"
  have wft: "well_formed s t" using k by (rule known_well_formed)
  have safe_a: "run_all (gw_safe env cfg base) ra"
    unfolding ra_def s1_def using True assms(4,5) well_formed_code [OF wft]
    by (intro save_tx_safe [OF assms(2) k]) (simp_all add: state_simps t1_def is_zero_def)
  have "well_formed s1 t1"
    using well_formed_code [OF wft] by (simp add: s1_def t1_def well_formed_update [OF wft])
  then have k1: "known env cfg base s1 t1 (w_back (r_world ra))"
    using True k assms(4,5)
    by (simp add: known_def state_simps s1_def t1_def ra_def save_world held_def is_zero_def)
  have base: "cfg (w_back (r_world ra)) = base"
    using True k by (simp add: known_def ra_def save_world)
  have "run_all (gw_safe env cfg base) (snd (watchdog_failed env s1 t1 ra))"
    using save_drop_safe [OF safe_a known_well_formed [OF k1], of "t1\<lparr>tx_State := ''failed'', tx_ErrorCode := ''watchdog_unavailable''\<rparr>"] base
    by (simp add: watchdog_failed_def snd_case_save)
  moreover have "run_all (gw_safe env cfg base) (snd (apply_armed env s1 t1 ra))" if "save env s1 r = (None, ra)"
    using save_None [OF that] by (intro apply_armed_safe [OF assms(1) safe_a k1]) (simp_all add: t1_def)
  ultimately show ?thesis
    using assms(2) True safe_a
    by (auto simp: apply_tx_def Let_def t1_def [symmetric] s1_def [symmetric] ra_def split: prod.split option.split)
qed

lemma Prepare_safe:
  assumes "hash_law env" and "call_ok c" and run: "run_all (gw_safe env cfg base) r"
  shows "run_all (gw_safe env cfg base) (snd (Prepare env c key p r))"
proof -
  have "run_all (gw_safe env cfg base) (snd (prepare_locked env c key p s r))"
    if ok: "ValidatePlan p = None" "requestKey key" and s: "locked env c (r_world r) = Inr s" for s
  proof -
    have idle: "cfg (w_back (r_world r)) = base \<and> j_Version s = 1 \<and> j_Role s = ''gateway-backhaul''"
      if "\<not> active (j_Transaction s)" "\<not> confirmed (j_Transaction s)"
      using locked_Inr [OF s] run that
      by (auto simp: run_all_def gw_safe_def well_formed_def live_def empty_journal_def)
    show ?thesis
    proof (cases "j_RequestKey s = key \<or> active (j_Transaction s) \<or> confirmed (j_Transaction s)")
      case True
      then show ?thesis using run by (auto simp: prepare_locked_def Let_def)
    next
      case False
      have "run_all (gw_safe env cfg base) (snd (save env (s\<lparr>j_Transaction := Some t, j_Snapshot := snap,
          j_PrivateWiFi := Some wi, j_RequestKey := key, j_RequestHash := hex_encode (ge_hash env p)\<rparr>) r))"
        if "ge_snapshot env (w_back (r_world r)) p = Inr snap" "validatePrepared env snap p (Some wi) = None"
          "c_nonce c = Inr n" "t = prepared_tx c n p" for snap wi n t
        using that False idle ok assms(1,2) run
        by (intro save_safe [of _ _ _ _ _ t])
          (auto simp: well_formed_def prepared_tx_def transactionID_hex fingerprint_hex call_ok_def hash_law_def is_zero_def
            state_simps held_def intro!: exI [of _ "w_back (r_world r)"] touched.intros)
      then show ?thesis
        using run False by (auto simp: prepare_locked_def Let_def snd_case_save split: sum.split option.split)
    qed
  qed
  then show ?thesis
    using run by (auto simp: Prepare_def with_journal_def split: option.split sum.split)
qed

lemma Recover_safe:
  assumes "restore_law env cfg" and "run_all (gw_safe env cfg base) r"
  shows "run_all (gw_safe env cfg base) (snd (Recover env c r))"
proof -
  have "run_all (gw_safe env cfg base) (snd (rollback env s r))"
    if "locked env c (r_world r) = Inr s" "j_Transaction s = Some t" "active (Some t)" for s t
    using locked_known [OF assms(2) that(1,2)] that(3) by (intro rollback_safe [OF assms]) (auto simp: known_def live_def)
  then show ?thesis
    using assms(2) by (auto simp: Recover_def snd_case_rollback split: sum.split option.split)
qed

lemma reply_tx_run [simp]: "snd (reply_tx x) = snd x"
  by (simp add: reply_tx_def split: prod.split)

lemma snd_case_prepare:
  "snd (case x of ((None, e), r1) \<Rightarrow> (g e, r1) | ((Some t, None), r1) \<Rightarrow> (f t r1, r1) | ((Some t, Some e), r1) \<Rightarrow> (h e, r1)) = snd x"
  by (auto split: prod.split option.split)

lemma Do_safe:
  assumes "restore_law env cfg" and "hash_law env" and "call_ok c" and "op_Action q \<noteq> ''finalize''"
    and run: "run_all (gw_safe env cfg base) r"
  shows "run_all (gw_safe env cfg base) (snd (Do env c c2 q r))"
proof -
  have "run_all (gw_safe env cfg base) (snd (Apply env c i timeout r))" for i timeout
    using assms by (auto simp: Apply_def call_ok_def second_def intro!: on_tx_safe apply_tx_safe)
  moreover have "run_all (gw_safe env cfg base) (snd (Confirm env c i r))" for i
    unfolding Confirm_def by (intro on_tx_safe confirm_tx_safe assms)
  moreover have "run_all (gw_safe env cfg base) (snd (Rollback env c i r))" for i
    unfolding Rollback_def by (intro on_tx_safe rollback_tx_safe assms)
  moreover have "op_Action q \<in> set [''inspect'', ''status'', ''prepare'', ''validate'', ''apply'', ''confirm'', ''rollback'']"
    if "ValidateOperation q = None"
    using that assms(4) by (auto simp: ValidateOperation_def fields_invalid_def split: if_splits)
  ultimately show ?thesis
    using run Prepare_safe [OF assms(2,3) run] by (auto simp: Do_def snd_case_prepare split: option.split)
qed

section \<open>Crashes\<close>

text \<open>The manager's operations are crash safe, for an environment that keeps its promises.\<close>

interpretation gw: crash_safe "gw_worlds env" gw_admissible
  "\<lambda>w. restore_law env cfg \<longrightarrow> hash_law env \<longrightarrow> gw_safe env cfg base w" for env cfg base
proof
  fix w q w'
  assume "restore_law env cfg \<longrightarrow> hash_law env \<longrightarrow> gw_safe env cfg base w" "gw_admissible q" "w' \<in> set (gw_worlds env q w)"
  moreover have "run_all (gw_safe env cfg base) (gw_exec env q w)" if "restore_law env cfg" "hash_law env" "gw_safe env cfg base w"
  proof (cases q)
    case (Op_Do o1 c c2)
    then show ?thesis
      using that \<open>gw_admissible q\<close> by (simp add: gw_exec_def gw_admissible_def Do_safe)
  next
    case (Op_Recover c)
    then show ?thesis
      using that by (simp add: gw_exec_def Recover_safe)
  qed
  ultimately show "restore_law env cfg \<longrightarrow> hash_law env \<longrightarrow> gw_safe env cfg base w'"
    by (auto simp: gw_worlds_def run_all_def)
qed

section \<open>The write-ahead state machine\<close>

text \<open>
  How the journal on disk may be replaced: a new transaction begins when none is live; a live one
  advances, keeping its identity, plan and private data; one that ends gives the private data up.
\<close>

definition advances :: "(string \<times> string) list" where
  "advances = [(''prepared'', ''applying''), (''applying'', ''applied''), (''applied'', ''confirmed''),
     (''applying'', ''rolling-back''), (''applied'', ''rolling-back''), (''confirmed'', ''rolling-back''),
     (''rolling-back'', ''rolling-back'')]"

definition closings :: "(string \<times> string) list" where
  "closings = [(''prepared'', ''rolled-back''), (''rolling-back'', ''rolled-back''), (''confirmed'', ''finalized''),
     (''applying'', ''failed'')]"

definition same_tx :: "transaction \<Rightarrow> transaction \<Rightarrow> bool" where
  "same_tx t t' \<longleftrightarrow> tx_ID t' = tx_ID t \<and> tx_Plan t' = tx_Plan t \<and> tx_CreatedAt t' = tx_CreatedAt t"

inductive journal_next :: "journal option \<Rightarrow> journal \<Rightarrow> bool" where
  begin_tx: "(\<And>s t. old = Some s \<Longrightarrow> j_Transaction s = Some t \<Longrightarrow> \<not> live t) \<Longrightarrow>
    j_Transaction s' = Some t' \<Longrightarrow> tx_State t' = ''prepared'' \<Longrightarrow> journal_next old s'"
| advance_tx: "j_Transaction s = Some t \<Longrightarrow> (tx_State t, tx_State t') \<in> set advances \<Longrightarrow> same_tx t t' \<Longrightarrow>
    journal_next (Some s) (set_tx t' s)"
| close_tx: "j_Transaction s = Some t \<Longrightarrow> (tx_State t, tx_State t') \<in> set closings \<Longrightarrow> same_tx t t' \<Longrightarrow>
    journal_next (Some s) (drop_private (set_tx t' s))"

text \<open>
  One visible step: nothing, a journal write of that kind, or a change of the device, which
  happens only while the journal on disk announces it.
\<close>

definition announced :: "journal option \<Rightarrow> bool" where
  "announced d \<longleftrightarrow> (case d of None \<Rightarrow> False
     | Some s \<Rightarrow> (case j_Transaction s of None \<Rightarrow> False | Some t \<Rightarrow> tx_State t = ''applying'' \<or> tx_State t = ''rolling-back''))"

inductive world_next :: "'b gw_world \<Rightarrow> 'b gw_world \<Rightarrow> bool" where
  journal_write: "journal_next (w_disk w) s' \<Longrightarrow> world_next w (w\<lparr>w_disk := Some s'\<rparr>)"
| device_change: "announced (w_disk w) \<Longrightarrow> world_next w (w\<lparr>w_back := b\<rparr>)"

lemma save_steps:
  "run_steps world_next w0 r \<Longrightarrow> journal_next (w_disk (r_world r)) s \<Longrightarrow> run_steps world_next w0 (snd (save env s r))"
  unfolding save_def by (intro writePrivate_run_steps journal_write)

lemma save_advance_steps:
  assumes "run_steps world_next w0 r" and "w_disk (r_world r) = Some s" and "j_Transaction s = Some t"
    and "(tx_State t, tx_State t') \<in> set advances" and "same_tx t t'"
  shows "run_steps world_next w0 (snd (save env (set_tx t' s) r))"
  using assms by (intro save_steps) (auto intro: advance_tx)

lemma save_close_steps:
  assumes "run_steps world_next w0 r" and "w_disk (r_world r) = Some s" and "j_Transaction s = Some t"
    and "(tx_State t, tx_State t') \<in> set closings" and "same_tx t t'"
  shows "run_steps world_next w0 (snd (save env (drop_private (set_tx t' s)) r))"
  using assms by (intro save_steps) (auto intro: close_tx)

lemma device_steps:
  "run_steps world_next w0 r \<Longrightarrow> announced (w_disk (r_world r)) \<Longrightarrow> run_steps world_next w0 (snd (device_step f r))"
  by (intro device_step_run_steps device_change)

lemma rollback_steps:
  assumes run: "run_steps world_next w0 r" and disk: "w_disk (r_world r) = Some s0" and "j_Transaction s0 = Some t0"
    and "(tx_State t0, ''rolling-back'') \<in> set advances" and "same_tx t0 t" and "s = set_tx t s0"
  shows "run_steps world_next w0 (snd (rollback env s r))"
proof -
  define t1 where "t1 = t\<lparr>tx_State := ''rolling-back''\<rparr>"
  define s1 where "s1 = set_tx t1 s"
  define ra where "ra = snd (save env s1 r)"
  define d where "d = device_step (ge_restore env (j_Snapshot s1)) ra"
  have ra: "run_steps world_next w0 ra"
    unfolding ra_def s1_def assms(6) set_tx_simps(4)
    using assms by (intro save_advance_steps [of _ _ s0 t0]) (simp_all add: t1_def same_tx_def)
  have tx: "j_Transaction s = Some t" and tx1: "j_Transaction s1 = Some t1" using assms(6) by (simp_all add: s1_def)
  have "run_steps world_next w0 (rollback_end env s1 t1 e (snd d))" if "fst (save env s1 r) = None" for e
  proof -
    have dk: "w_disk (r_world ra) = Some s1"
      using save_None [of env s1 r ra] that by (simp add: ra_def prod_eq_iff)
    then have rd: "run_steps world_next w0 (snd d)"
      unfolding d_def using ra tx1 by (intro device_steps) (simp_all add: announced_def t1_def)
    have dd: "w_disk (r_world (snd d)) = Some s1" using dk by (simp add: d_def)
    show ?thesis
      using save_advance_steps [OF rd dd tx1, of "t1\<lparr>tx_ErrorCode := ''rollback_failed''\<rparr>"]
        save_close_steps [OF rd dd tx1, of "t1\<lparr>tx_State := ''rolled-back'', tx_Deadline := 0\<rparr>"]
      by (simp add: rollback_end_def t1_def same_tx_def advances_def closings_def)
  qed
  then show ?thesis
    using ra by (simp add: rollback_run [OF tx t1_def s1_def] Let_def ra_def d_def)
qed

lemma locked_tx:
  assumes "locked env c w = Inr s" and "j_Transaction s = Some t"
  shows "w_disk w = Some s \<and> tx_State t \<in> set known_states"
  using assms by (auto simp: locked_def check_journal_def empty_journal_def split: option.splits if_splits)

lemma on_tx_steps:
  assumes "run_steps world_next w0 r"
    and "\<And>s t. w_disk (r_world r) = Some s \<Longrightarrow> j_Transaction s = Some t \<Longrightarrow> tx_State t \<in> set known_states \<Longrightarrow>
      run_steps world_next w0 (snd (fn s t r))"
  shows "run_steps world_next w0 (snd (on_tx env c i fn r))"
  using assms locked_tx [of env c "r_world r"]
  by (auto simp: on_tx_def with_journal_def tx_with_Some split: sum.splits option.splits)

lemma same_tx_simps [simp]: "same_tx t t" "same_tx t (u\<lparr>tx_State := x\<rparr>) = same_tx t u"
  "same_tx t (u\<lparr>tx_Deadline := d\<rparr>) = same_tx t u" "same_tx t (u\<lparr>tx_ErrorCode := x\<rparr>) = same_tx t u"
  by (simp_all add: same_tx_def)

lemma set_tx_same: "j_Transaction s = Some t \<Longrightarrow> set_tx t s = s"
  by (simp add: set_tx_def)

lemma rollback_loaded_steps:
  assumes "run_steps world_next w0 r" and "w_disk (r_world r) = Some s" and "j_Transaction s = Some t"
    and "(tx_State t, ''rolling-back'') \<in> set advances"
  shows "run_steps world_next w0 (snd (rollback env s r))"
  by (rule rollback_steps [OF assms, of t]) (simp_all add: set_tx_same assms)

lemma confirm_tx_steps:
  assumes "run_steps world_next w0 r" and "w_disk (r_world r) = Some s" and "j_Transaction s = Some t"
  shows "run_steps world_next w0 (snd (confirm_tx env c s t r))"
  using assms rollback_loaded_steps [OF assms] save_advance_steps [OF assms, of "t\<lparr>tx_State := ''confirmed'', tx_Deadline := 0\<rparr>"]
  by (auto simp: confirm_tx_def Let_def snd_case_save snd_case_rollback advances_def split: option.split)

lemma rollback_tx_steps:
  assumes "run_steps world_next w0 r" and "w_disk (r_world r) = Some s" and "j_Transaction s = Some t"
    and "tx_State t \<in> set known_states"
  shows "run_steps world_next w0 (snd (rollback_tx env s t r))"
  using assms(1,4) rollback_loaded_steps [OF assms(1-3)] save_close_steps [OF assms(1-3), of "t\<lparr>tx_State := ''rolled-back''\<rparr>"]
  by (auto simp: rollback_tx_def Let_def snd_case_save snd_case_rollback advances_def closings_def known_states_def)

lemma finalize_tx_steps:
  assumes "run_steps world_next w0 r" and "w_disk (r_world r) = Some s" and "j_Transaction s = Some t"
  shows "run_steps world_next w0 (snd (finalize_tx env s t r))"
  using assms(1) save_close_steps [OF assms(1-3), of "t\<lparr>tx_State := ''finalized''\<rparr>"]
  by (auto simp: finalize_tx_def Let_def snd_case_save closings_def)

lemma apply_armed_steps:
  assumes "run_steps world_next w0 r" and disk: "w_disk (r_world r) = Some s" and tx: "j_Transaction s = Some t"
    and st: "tx_State t = ''applying''"
  shows "run_steps world_next w0 (snd (apply_armed env s t r))"
proof -
  define d where "d = device_step (ge_apply env (tx_Plan t)) r"
  have rd: "run_steps world_next w0 (snd d)"
    unfolding d_def using assms by (intro device_steps) (simp_all add: announced_def)
  have dd: "w_disk (r_world (snd d)) = Some s" using disk by (simp add: d_def)
  have "run_steps world_next w0 (snd (rollback env (set_tx (t\<lparr>tx_ErrorCode := ''apply_failed''\<rparr>) s) (snd d)))"
    using st by (intro rollback_steps [OF rd dd tx]) (simp_all add: advances_def)
  moreover have "run_steps world_next w0 (snd (save env (set_tx (t\<lparr>tx_State := ''applied''\<rparr>) s) (snd d)))"
    using st by (intro save_advance_steps [OF rd dd tx]) (simp_all add: advances_def)
  ultimately show ?thesis
    by (auto simp: apply_armed_def Let_def d_def snd_case_save snd_case_rollback simp del: device_step_simps
        split: prod.split option.split)
qed

lemma apply_tx_steps:
  assumes "run_steps world_next w0 r" and disk: "w_disk (r_world r) = Some s" and tx: "j_Transaction s = Some t"
  shows "run_steps world_next w0 (snd (apply_tx env c timeout s t r))"
proof (cases "tx_State t = ''prepared''")
  case False
  then show ?thesis using assms(1) by (simp add: apply_tx_def)
next
  case True
  define t1 where "t1 = t\<lparr>tx_State := ''applying'', tx_Deadline := c_now c + timeout\<rparr>"
  define s1 where "s1 = set_tx t1 s"
  define ra where "ra = snd (save env s1 r)"
  have ra: "run_steps world_next w0 ra"
    unfolding ra_def s1_def using True by (intro save_advance_steps [OF assms]) (simp_all add: t1_def advances_def)
  have tx1: "j_Transaction s1 = Some t1" "tx_State t1 = ''applying''" by (simp_all add: s1_def t1_def)
  have "run_steps world_next w0 (snd (watchdog_failed env s1 t1 ra)) \<and> run_steps world_next w0 (snd (apply_armed env s1 t1 ra))"
    if "save env s1 r = (None, ra)"
    using save_None [OF that] save_close_steps [OF ra _ tx1(1), of "t1\<lparr>tx_State := ''failed'', tx_ErrorCode := ''watchdog_unavailable''\<rparr>"]
      tx1 apply_armed_steps [OF ra _ tx1]
    by (simp add: watchdog_failed_def snd_case_save closings_def)
  then show ?thesis
    using assms(1) True ra
    by (auto simp: apply_tx_def Let_def t1_def [symmetric] s1_def [symmetric] ra_def split: prod.split option.split)
qed

lemma Prepare_steps:
  assumes "run_steps world_next w0 r"
  shows "run_steps world_next w0 (snd (Prepare env c key p r))"
proof -
  have "run_steps world_next w0 (snd (prepare_locked env c key p s r))" if "locked env c (r_world r) = Inr s" for s
  proof (cases "active (j_Transaction s) \<or> confirmed (j_Transaction s)")
    case True
    then show ?thesis using assms by (auto simp: prepare_locked_def Let_def)
  next
    case False
    have "journal_next (w_disk (r_world r)) (s\<lparr>j_Transaction := Some (prepared_tx c n p), j_Snapshot := snap,
        j_PrivateWiFi := wi, j_RequestKey := key, j_RequestHash := hs\<rparr>)" for n snap wi hs
      using False locked_Inr [OF that] by (intro begin_tx) (auto simp: prepared_tx_def live_def empty_journal_def)
    then have "run_steps world_next w0 (snd (save env (s\<lparr>j_Transaction := Some (prepared_tx c n p), j_Snapshot := snap,
        j_PrivateWiFi := wi, j_RequestKey := key, j_RequestHash := hs\<rparr>) r))" for n snap wi hs
      using assms by (intro save_steps)
    then show ?thesis
      using assms False by (auto simp: prepare_locked_def Let_def snd_case_save split: sum.split option.split)
  qed
  then show ?thesis
    using assms by (auto simp: Prepare_def with_journal_def split: option.split sum.split)
qed

lemma Recover_steps:
  assumes "run_steps world_next w0 r"
  shows "run_steps world_next w0 (snd (Recover env c r))"
proof -
  have "run_steps world_next w0 (snd (rollback env s r))"
    if "locked env c (r_world r) = Inr s" "j_Transaction s = Some t" "active (Some t)" "tx_State t \<noteq> ''prepared''" for s t
    using that locked_tx [OF that(1,2)] by (intro rollback_loaded_steps [OF assms]) (auto simp: active_def advances_def)
  then show ?thesis
    using assms by (auto simp: Recover_def snd_case_rollback split: sum.split option.split)
qed

lemma Do_steps:
  assumes "run_steps world_next w0 r"
  shows "run_steps world_next w0 (snd (Do env c c2 q r))"
proof -
  have "run_steps world_next w0 (snd (Apply env c i timeout r))" for i timeout
    using assms by (auto simp: Apply_def intro!: on_tx_steps apply_tx_steps)
  moreover have "run_steps world_next w0 (snd (Confirm env c i r))" for i
    unfolding Confirm_def by (intro on_tx_steps confirm_tx_steps assms)
  moreover have "run_steps world_next w0 (snd (Rollback env c i r))" for i
    unfolding Rollback_def by (intro on_tx_steps rollback_tx_steps assms)
  moreover have "run_steps world_next w0 (snd (Finalize env c i r))" for i
    unfolding Finalize_def by (intro on_tx_steps finalize_tx_steps assms)
  ultimately show ?thesis
    using assms Prepare_steps [OF assms] by (auto simp: Do_def snd_case_prepare split: option.split)
qed

section \<open>Properties of the gateway manager\<close>

text \<open>
  C6: every operation, with any arguments, clock, random bytes and write failures, moves the
  journal file and the device only along the transaction's state machine: a write of the file is
  a new transaction when none is live, a permitted advance of the current one that keeps its
  private data, or its end, which removes them; and the device changes only while the file on disk
  says \<^verbatim>\<open>applying\<close> or \<^verbatim>\<open>rolling-back\<close>.
\<close>

theorem gateway_writes_ahead: "chain world_next (r_trace (gw_exec env q w))"
proof -
  have "run_steps world_next w (gw_exec env q w)"
    by (cases q) (simp_all add: gw_exec_def Do_steps Recover_steps)
  then show ?thesis by (simp add: run_steps_def)
qed

lemma well_formed_readable:
  assumes "well_formed s t" and "state_ok t" and "live t \<Longrightarrow> held env cfg base s t b"
  shows "check_journal env s = None"
  using assms by (auto simp: check_journal_def well_formed_def state_ok_def live_def held_def confirmed_def)

definition faultless :: "call \<Rightarrow> bool" where
  "faultless c \<longleftrightarrow> c_lock c = None \<and> c_read c = None"

text \<open>
  The length of a journal's JSON text grows by at most 256 bytes when its transaction changes
  state, deadline and error code, and private data are removed.
\<close>

definition size_law :: "'b gw_env \<Rightarrow> bool" where
  "size_law env \<longleftrightarrow> (\<forall>s t t'. j_Transaction s = Some t \<longrightarrow> same_tx t t' \<longrightarrow> tx_State t' \<in> set known_states \<longrightarrow>
     tx_ErrorCode t' \<in> set error_codes \<longrightarrow>
     ge_size env (set_tx t' s) \<le> ge_size env s + 256 \<and> ge_size env (drop_private (set_tx t' s)) \<le> ge_size env s + 256)"

text \<open>The device obeys: restoring a snapshot taken from it succeeds.\<close>

definition restore_succeeds :: "'b gw_env \<Rightarrow> bool" where
  "restore_succeeds env \<longleftrightarrow> (\<forall>b0 p snap b. ge_snapshot env b0 p = Inr snap \<longrightarrow> touched env p snap b0 b \<longrightarrow>
     fst (ge_restore env snap b) = None)"

lemma save_ok: "ge_size env s \<le> maxStateBytes \<Longrightarrow> r_writes r = [] \<Longrightarrow>
    \<exists>r'. save env s r = (None, r') \<and> r_writes r' = [] \<and> w_disk (r_world r') = Some s \<and> w_back (r_world r') = w_back (r_world r)"
  using writePrivate_ok [of "ge_size env" s r] writePrivate_None [of _ "ge_size env" s r] by (fastforce simp: save_def)

lemma rollback_ok:
  assumes "well_formed s t" and "r_writes r = []" and "size_law env" and "ge_size env s \<le> strictDecodeLimit"
    and restore: "ge_restore env (j_Snapshot s) (w_back (r_world r)) = (None, b)"
  shows "\<exists>s' r'. rollback env s r = ((s', None), r') \<and> w_back (r_world r') = b"
proof -
  define t1 where "t1 = t\<lparr>tx_State := ''rolling-back''\<rparr>"
  define s2 where "s2 = drop_private (set_tx (t1\<lparr>tx_State := ''rolled-back'', tx_Deadline := 0\<rparr>) (set_tx t1 s))"
  have tx: "j_Transaction s = Some t" using assms(1) by (simp add: well_formed_def)
  have sz: "ge_size env (set_tx t1 s) \<le> maxStateBytes" "ge_size env s2 \<le> maxStateBytes"
    using assms(3) [unfolded size_law_def, rule_format, OF tx, of t1] assms(4) well_formed_code [OF assms(1)]
      assms(3) [unfolded size_law_def, rule_format, OF tx, of "t1\<lparr>tx_State := ''rolled-back'', tx_Deadline := 0\<rparr>"]
    by (simp_all add: t1_def s2_def known_states_def maxStateBytes_def strictDecodeLimit_def)
  obtain r1 where r1: "save env (set_tx t1 s) r = (None, r1)" "r_writes r1 = []" "w_back (r_world r1) = w_back (r_world r)"
    using save_ok [OF sz(1) assms(2)] by blast
  define r2 where "r2 = snd (device_step (ge_restore env (j_Snapshot s)) r1)"
  have r2: "device_step (ge_restore env (j_Snapshot s)) r1 = (None, r2)" "r_writes r2 = []" "w_back (r_world r2) = b"
    using r1 restore by (simp_all add: r2_def prod_eq_iff)
  obtain r3 where "save env s2 r2 = (None, r3)" "w_back (r_world r3) = b"
    using save_ok [OF sz(2) r2(2)] r2(3) by auto
  then show ?thesis
    using tx r1 r2 by (simp add: rollback_def Let_def t1_def [symmetric] s2_def)
qed

lemma Recover_safe_world:
  assumes laws: "restore_law env cfg" "size_law env" "restore_succeeds env" and "faultless c"
    and safe: "gw_safe env cfg base w"
    and due: "\<And>s t. w_disk w = Some s \<Longrightarrow> j_Transaction s = Some t \<Longrightarrow> tx_Deadline t \<le> c_now c \<and> ge_size env s \<le> strictDecodeLimit"
  shows "\<exists>r. Recover env c (start_run w []) = ((True, None), r) \<and>
    (cfg (w_back (r_world r)) = base \<or> Status env c (r_world r) \<in> {Inr (Some t) | t. tx_State t = ''confirmed''})"
proof (cases "w_disk w")
  case None
  then show ?thesis
    using safe assms(4) by (simp add: gw_safe_def Recover_def locked_def faultless_def empty_journal_def start_run_def)
next
  case (Some s)
  then obtain t where s: "well_formed s t" "state_ok t" "live t \<Longrightarrow> held env cfg base s t (w_back w)"
    "\<not> live t \<or> tx_State t = ''prepared'' \<Longrightarrow> cfg (w_back w) = base"
    using safe by (auto simp: gw_safe_def)
  then have tx: "j_Transaction s = Some t" "j_Version s = 1" "j_Role s = ''gateway-backhaul''" by (simp_all add: well_formed_def)
  have l: "locked env c w = Inr s"
    using Some assms(4) due [OF Some tx(1)] well_formed_readable [OF s(1-3)] tx by (simp add: locked_def faultless_def)
  show ?thesis
  proof (cases "active (Some t) \<and> tx_State t \<noteq> ''prepared''")
    case False
    then have "cfg (w_back w) = base \<or> tx_State t = ''confirmed''"
      using s(4) by (auto simp: live_def confirmed_def)
    moreover have "Recover env c (start_run w []) = ((True, None), start_run w [])"
      using False l tx by (auto simp: Recover_def start_run_def)
    ultimately show ?thesis
      using l tx by (auto simp: start_run_def Status_def publicTransaction_def)
  next
    case True
    then have h: "held env cfg base s t (w_back w)" using s(3) by (simp add: live_def)
    obtain b where b: "ge_restore env (j_Snapshot s) (w_back w) = (None, b)"
      using h laws(3) by (auto simp: held_def restore_succeeds_def prod_eq_iff)
    have "cfg b = base" by (rule held_restored [OF laws(1) h b])
    moreover have "\<exists>s' r. rollback env s (start_run w []) = ((s', None), r) \<and> w_back (r_world r) = b"
      using rollback_ok [OF s(1) _ laws(2)] due [OF Some tx(1)] b by (simp add: start_run_def)
    moreover have "tx_State t = ''rolling-back'' \<or> \<not> is_zero (tx_Deadline t) \<and> \<not> c_now c < tx_Deadline t"
      using True due [OF Some tx(1)] s(2) by (auto simp: active_def state_ok_def)
    ultimately show ?thesis
      using True l tx by (auto simp: Recover_def start_run_def)
  qed
qed

text \<open>
  A device with one setting, on which the hypotheses of the theorems hold: its snapshot is one
  byte, applying the plan switches the setting on, restoring writes the byte back.
\<close>

definition sample_wifi :: wifi where
  "sample_wifi = \<lparr>wf_SSID = ''home'', wf_Passphrase = ''correct horse'', wf_Channel = 36\<rparr>"

definition sample_plan :: plan where
  "sample_plan = \<lparr>pl_Mode = ''wds'', pl_APSection = ''ap0'', pl_Network = ''lan'', pl_PeerFingerprint = replicate 64 (CHR ''a''),
     pl_AdoptExistingAP = True, pl_PreserveManagementPath = True\<rparr>"

definition sample_decode :: "bytes \<Rightarrow> wireless_snapshot result" where
  "sample_decode d = Inr \<lparr>ws_APSection = ''ap0'', ws_WDS = Some (if d = [1] then ''1'' else ''0''), ws_WDSOwner = None, ws_Mesh = None\<rparr>"

definition sample_env :: "bool gw_env" where
  "sample_env = \<lparr>ge_inspect = (\<lambda>_. Inr ''setup''), ge_check = (\<lambda>_ _. Inr sample_wifi),
     ge_snapshot = (\<lambda>b _. Inr [(''wireless'', [if b then 1 else 0])]), ge_apply = (\<lambda>_ _. (None, True)),
     ge_restore = (\<lambda>snap _. (None, snap = [(''wireless'', [1])])), ge_arm = Some (\<lambda>_. None),
     ge_size = (\<lambda>j. 1024 + length (j_Snapshot j)), ge_hash = (\<lambda>p. replicate 32 (if pl_Mode p = ''wds'' then 7 else 8)), ge_decode = sample_decode\<rparr>"

definition sample_call :: "int \<Rightarrow> call" where
  "sample_call now = \<lparr>c_now = now, c_nonce = Inr (replicate 16 3), c_lock = None, c_read = None, c_writes = []\<rparr>"

definition sample_op :: "string \<Rightarrow> operation" where
  "sample_op a = \<lparr>op_Action = a, op_Key = (if a = ''prepare'' then replicate 16 (CHR ''k'') else ''''),
     op_ID = (if a = ''prepare'' then '''' else hex_encode (replicate 16 3)),
     op_Plan = (if a = ''prepare'' then Some sample_plan else None), op_TimeoutSeconds = (if a = ''apply'' then 60 else 0)\<rparr>"

definition sample_start :: "bool gw_world" where
  "sample_start = \<lparr>w_disk = None, w_back = False\<rparr>"

definition sample_prepared :: "bool gw_world" where
  "sample_prepared = r_world (gw_exec sample_env (Op_Do (sample_op ''prepare'') (sample_call 10) (sample_call 10)) sample_start)"

text \<open>The world in which a crash leaves the gateway right after the device was changed.\<close>

definition sample_crashed :: "bool gw_world" where
  "sample_crashed = r_trace (gw_exec sample_env (Op_Do (sample_op ''apply'') (sample_call 20) (sample_call 20)) sample_prepared) ! 1"

lemmas sample_defs = sample_env_def sample_call_def sample_op_def sample_start_def sample_plan_def sample_wifi_def sample_decode_def

lemmas gw_eval = gw_exec_def start_run_def Do_def ValidateOperation_def ValidatePlan_def fields_invalid_def Prepare_def Apply_def
  on_tx_def apply_tx_def apply_armed_def tx_with_def checkCurrent_def
  with_journal_def locked_def check_journal_def prepare_locked_def validatePrepared_def validateSnapshot_def
  active_def confirmed_def known_states_def save_def writePrivate_def device_step_def visit_def
  prepared_tx_def material_def reply_tx_def publicTransaction_def failed_op_def empty_journal_def set_tx_def
  requestKey_def transactionID_def fingerprint_def matches_def ValidInterfaceName_def cleanText_def is_lower_def is_digit_def
  is_upper_def is_lower_hex_def hex_encode_def hex_digit_def maxStateBytes_def strictDecodeLimit_def is_zero_def dur_mul_def wrap64_def
  second_def Let_def less_eq_char_def length_concat sum_list_replicate

definition sample_journal :: "string \<Rightarrow> int \<Rightarrow> journal" where
  "sample_journal st deadline = \<lparr>j_Version = 1, j_Role = ''gateway-backhaul'', j_PrivateWiFi = Some sample_wifi,
     j_Transaction = Some \<lparr>tx_ID = hex_encode (replicate 16 3), tx_State = st, tx_CreatedAt = 10, tx_Deadline = deadline,
       tx_Plan = sample_plan, tx_ErrorCode = []\<rparr>,
     j_Snapshot = [(''wireless'', [0])], j_RequestKey = replicate 16 (CHR ''k''), j_RequestHash = hex_encode (replicate 32 7)\<rparr>"

lemma sample_prepared_eq: "sample_prepared = \<lparr>w_disk = Some (sample_journal ''prepared'' 0), w_back = False\<rparr>"
  by (simp add: sample_prepared_def sample_journal_def sample_defs gw_eval)

lemma sample_trace:
  "r_trace (gw_exec sample_env (Op_Do (sample_op ''apply'') (sample_call 20) (sample_call 20)) sample_prepared) =
    [\<lparr>w_disk = Some (sample_journal ''applied'' (20 + 60 * second)), w_back = True\<rparr>,
     \<lparr>w_disk = Some (sample_journal ''applying'' (20 + 60 * second)), w_back = True\<rparr>,
     \<lparr>w_disk = Some (sample_journal ''applying'' (20 + 60 * second)), w_back = False\<rparr>, sample_prepared]"
  unfolding sample_prepared_eq by (simp add: sample_journal_def sample_defs gw_eval)

lemma sample_laws: "restore_law sample_env id" "hash_law sample_env" "size_law sample_env" "restore_succeeds sample_env"
  by (auto simp: restore_law_def hash_law_def size_law_def restore_succeeds_def sample_env_def drop_private_def set_tx_def)

lemma sample_reach: "crash_reach (gw_worlds sample_env) gw_admissible sample_start sample_crashed"
proof -
  have "gw_admissible (Op_Do (sample_op ''prepare'') (sample_call 10) (sample_call 10))"
    "gw_admissible (Op_Do (sample_op ''apply'') (sample_call 20) (sample_call 20))" 
    by (simp_all add: gw_admissible_def call_ok_def sample_call_def sample_op_def)
  moreover have "sample_prepared \<in> set (gw_worlds sample_env (Op_Do (sample_op ''prepare'') (sample_call 10) (sample_call 10)) sample_start)"
    by (simp add: sample_prepared_def gw_worlds_def)
  moreover have "sample_crashed \<in> set (gw_worlds sample_env (Op_Do (sample_op ''apply'') (sample_call 20) (sample_call 20)) sample_prepared)"
    by (simp add: sample_crashed_def gw_worlds_def sample_trace)
  ultimately show ?thesis
    by (blast intro: cr_start cr_step)
qed

text \<open>
  C2: from a gateway without journal, after any sequence of operations other than \<^verbatim>\<open>finalize\<close>
  (which gives up the snapshot), any of which may be cut off by a crash between two visible steps or
  have its file writes fail, one fault-free \<^verbatim>\<open>Recover\<close> at or after the deadline succeeds and the
  device has its original configuration again, unless the operator had confirmed the change. The
  journal on disk is within the 64 KiB its reader accepts, the device's restore operation undoes
  what its snapshot was taken for and succeeds, and the hash of a plan identifies it.
\<close>

theorem gateway_recovers_from_any_crash:
  assumes "restore_law env cfg" and "hash_law env" and "size_law env" and "restore_succeeds env" and "faultless c"
    and "w_disk w0 = None" and "crash_reach (gw_worlds env) gw_admissible w0 w"
    and "\<forall>s t. w_disk w = Some s \<and> j_Transaction s = Some t \<longrightarrow>
      tx_Deadline t \<le> c_now c \<and> ge_size env s \<le> strictDecodeLimit"
  shows "\<exists>r. Recover env c (start_run w []) = ((True, None), r) \<and>
    (cfg (w_back (r_world r)) = cfg (w_back w0) \<or>
     Status env c (r_world r) \<in> {Inr (Some t) | t. tx_State t = ''confirmed''})"
proof -
  have "gw_safe env cfg (cfg (w_back w0)) w0"
    using assms(6) by (simp add: gw_safe_def)
  then have "gw_safe env cfg (cfg (w_back w0)) w"
    using gw.reach_safe [OF assms(7), of cfg "cfg (w_back w0)"] assms(1,2) by blast
  from Recover_safe_world [OF assms(1,3,4,5) this] show ?thesis
    using assms(8) by blast
qed

theorem gateway_recovers_from_any_crash_witness:
  "w_back sample_crashed \<and> \<not> w_back sample_start \<and>
   (\<exists>r. Recover sample_env (sample_call (100 * second)) (start_run sample_crashed []) = ((True, None), r) \<and>
     (w_back (r_world r) = False \<or>
      Status sample_env (sample_call (100 * second)) (r_world r) \<in> {Inr (Some t) | t. tx_State t = ''confirmed''}))"
proof -
  have d: "sample_crashed = \<lparr>w_disk = Some (sample_journal ''applying'' (20 + 60 * second)), w_back = True\<rparr>"
    by (simp add: sample_crashed_def sample_trace)
  have "w_back sample_crashed" unfolding d by simp
  moreover have "\<exists>r. Recover sample_env (sample_call (100 * second)) (start_run sample_crashed []) = ((True, None), r) \<and>
     (id (w_back (r_world r)) = id (w_back sample_start) \<or>
      Status sample_env (sample_call (100 * second)) (r_world r) \<in> {Inr (Some t) | t. tx_State t = ''confirmed''})"
    by (rule gateway_recovers_from_any_crash [OF sample_laws _ _ sample_reach])
      (simp_all add: d faultless_def sample_call_def sample_start_def sample_journal_def sample_env_def strictDecodeLimit_def second_def)
  ultimately show ?thesis by (simp add: sample_start_def)
qed

text \<open>What a successful \<^verbatim>\<open>Prepare\<close> leaves on disk: a readable journal that records the request.\<close>

lemma Prepare_recorded:
  assumes "hash_law env" and "call_ok c" and prep: "Prepare env c key p r = ((Some t, None), r')"
  obtains s where "w_disk (r_world r') = Some s" "check_journal env s = None" "j_Version s = 1" "j_Role s = ''gateway-backhaul''"
    "j_RequestKey s = key" "j_RequestHash s = hex_encode (ge_hash env p)" "j_Transaction s = Some t"
proof -
  have ok: "ValidatePlan p = None" "requestKey key"
    using prep by (auto simp: Prepare_def failed_op_def split: option.splits if_splits)
  then obtain s where l: "locked env c (r_world r) = Inr s" and pl: "prepare_locked env c key p s r = ((Some t, None), r')"
    using prep by (auto simp: Prepare_def with_journal_def split: sum.splits)
  show thesis
  proof (cases "j_RequestKey s = key")
    case True
    then have "r' = r" "j_RequestHash s = hex_encode (ge_hash env p)" "j_Transaction s = Some t"
      using pl by (auto simp: prepare_locked_def Let_def failed_op_def publicTransaction_def split: if_splits)
    moreover from this have "w_disk (r_world r) = Some s" using locked_tx [OF l] by blast
    ultimately show thesis
      using that True l by (auto simp: locked_def split: option.splits if_splits)
  next
    case False
    then obtain wi snap n s' where new: "validatePrepared env snap p (Some wi) = None" "c_nonce c = Inr n"
      "s' = s\<lparr>j_Transaction := Some (prepared_tx c n p), j_Snapshot := snap, j_PrivateWiFi := Some wi,
        j_RequestKey := key, j_RequestHash := hex_encode (ge_hash env p)\<rparr>" "save env s' r = (None, r')" "t = prepared_tx c n p"
      using pl by (auto simp: prepare_locked_def Let_def failed_op_def publicTransaction_def split: if_splits sum.splits option.splits prod.splits)
    have "check_journal env s' = None"
      using new ok assms(1,2) by (auto simp: check_journal_def prepared_tx_def transactionID_hex fingerprint_hex call_ok_def hash_law_def
          is_zero_def known_states_def)
    moreover have "j_Version s = 1" "j_Role s = ''gateway-backhaul''"
      using l by (auto simp: locked_def empty_journal_def split: option.splits if_splits)
    ultimately show thesis
      using that [of s'] new save_None [OF new(4)] by simp
  qed
qed

text \<open>
  C28: \<^verbatim>\<open>Prepare\<close> is idempotent under its key. After it has succeeded, repeating it with the same
  key and plan returns the same transaction and touches neither file nor device; with the same key
  and a plan of another hash it is refused, again without any effect.
\<close>

theorem prepare_idempotent:
  assumes "hash_law env" and "call_ok c" and "Prepare env c key p r = ((Some t, None), r')"
    and "faultless c'" and "\<forall>s. w_disk (r_world r') = Some s \<longrightarrow> ge_size env s \<le> strictDecodeLimit"
  shows "Prepare env c' key p (start_run (r_world r') outcomes) = ((Some t, None), start_run (r_world r') outcomes) \<and>
    (ValidatePlan p' = None \<and> ge_hash env p' \<noteq> ge_hash env p \<longrightarrow>
      Prepare env c' key p' (start_run (r_world r') outcomes) =
        (failed_op ''idempotency_conflict'', start_run (r_world r') outcomes))"
proof -
  have ok: "ValidatePlan p = None" "requestKey key"
    using assms(3) by (auto simp: Prepare_def failed_op_def split: option.splits if_splits)
  obtain s where s: "w_disk (r_world r') = Some s" "check_journal env s = None" "j_Version s = 1" "j_Role s = ''gateway-backhaul''"
    "j_RequestKey s = key" "j_RequestHash s = hex_encode (ge_hash env p)" "j_Transaction s = Some t"
    by (rule Prepare_recorded [OF assms(1-3)])
  then have "locked env c' (r_world (start_run (r_world r') outcomes)) = Inr s"
    using assms(4,5) by (simp add: locked_def faultless_def start_run_def)
  then show ?thesis
    using ok s by (auto simp: Prepare_def with_journal_def prepare_locked_def Let_def publicTransaction_def dest: hex_encode_inject)
qed

theorem prepare_idempotent_witness:
  "\<exists>t r'. Prepare sample_env (sample_call 10) (replicate 16 (CHR ''k'')) sample_plan (start_run sample_start []) = ((Some t, None), r') \<and>
     fst (Prepare sample_env (sample_call 50) (replicate 16 (CHR ''k'')) sample_plan (start_run (r_world r') [])) = (Some t, None) \<and>
     fst (Prepare sample_env (sample_call 50) (replicate 16 (CHR ''k'')) (sample_plan\<lparr>pl_Mode := ''mesh''\<rparr>) (start_run (r_world r') [])) =
       failed_op ''idempotency_conflict''"
proof -
  define k where "k = replicate 16 (CHR ''k'')"
  define x where "x = Prepare sample_env (sample_call 10) k sample_plan (start_run sample_start [])"
  have x1: "fst x = (j_Transaction (sample_journal ''prepared'' 0), None)"
    by (simp add: x_def k_def sample_journal_def sample_defs gw_eval)
  have x2: "r_world (snd x) = \<lparr>w_disk = Some (sample_journal ''prepared'' 0), w_back = False\<rparr>"
    by (simp add: x_def k_def sample_journal_def sample_defs gw_eval)
  obtain t r' where t: "x = ((Some t, None), r')"
    using x1 by (cases x) (simp add: sample_journal_def)
  then have w: "w_disk (r_world r') = Some (sample_journal ''prepared'' 0)" using x2 by simp
  have "call_ok (sample_call 10)" "faultless (sample_call 50)"
    "\<forall>s. w_disk (r_world r') = Some s \<longrightarrow> ge_size sample_env s \<le> strictDecodeLimit"
    by (simp_all add: w call_ok_def faultless_def sample_call_def sample_env_def sample_journal_def strictDecodeLimit_def)
  moreover have "ValidatePlan (sample_plan\<lparr>pl_Mode := ''mesh''\<rparr>) = None" "ge_hash sample_env (sample_plan\<lparr>pl_Mode := ''mesh''\<rparr>) \<noteq> ge_hash sample_env sample_plan"
    by (simp_all add: sample_defs gw_eval)
  ultimately show ?thesis
    using prepare_idempotent [OF sample_laws(2) _ t [unfolded x_def], of "sample_call 50" "[]" "sample_plan\<lparr>pl_Mode := ''mesh''\<rparr>"] t
    by (auto simp: x_def k_def)
qed


end
