(* ===== verification/Node_Txn.thy ===== *)
theory Node_Txn
  imports Crash_Safety Validation
begin

text \<open>
  The transaction manager of a coverage node, \<^verbatim>\<open>internal/node/transaction.go\<close>. It has the shape of
  the gateway's, on a plan that carries the Wi-Fi passphrase: results are redacted, confirming
  drops snapshot and passphrase, and a restore is given the plan as well as the snapshot of the
  four configuration packages.
\<close>

section \<open>Data\<close>

record node_plan =
  np_Name :: string
  np_Mode :: string
  np_ManagementInterface :: string
  np_BridgeSection :: string
  np_BridgeDevice :: string
  np_LANPorts :: "string list"
  np_Uplink :: string
  np_EthernetUplink :: string
  np_ManagementAddress :: string
  np_GatewayAddress :: string
  np_Radio :: string
  np_SSID :: string
  np_Passphrase :: string
  np_Channel :: int
  np_ShareRadio :: bool
  np_DHCPServer :: bool
  np_NAT :: bool
  np_RouterAdvertisements :: bool
  np_PreserveManagementPath :: bool

record node_transaction =
  nt_ID :: string
  nt_State :: string
  nt_CreatedAt :: gotime
  nt_Deadline :: gotime
  nt_Plan :: node_plan
  nt_ErrorCode :: string

type_synonym node_snapshot = "(string, bytes) gomap"

record node_journal =
  nj_Version :: int
  nj_Transaction :: "node_transaction option"
  nj_Snapshot :: node_snapshot
  nj_RequestKey :: string
  nj_RequestHash :: string

definition node_empty_journal :: node_journal where
  "node_empty_journal = \<lparr>nj_Version = 1, nj_Transaction = None, nj_Snapshot = [], nj_RequestKey = '''', nj_RequestHash = ''''\<rparr>"

definition packages :: "string list" where
  "packages = [''network'', ''wireless'', ''dhcp'', ''firewall'']"

definition RedactPlan :: "node_plan \<Rightarrow> node_plan" where
  "RedactPlan p = p\<lparr>np_Passphrase := ''''\<rparr>"

section \<open>The environment\<close>

text \<open>As for the gateway: the device behind the \<^verbatim>\<open>Backend\<close> interface, watchdog, text sizes and plan hash.\<close>

record 'b node_env =
  ne_check :: "'b \<Rightarrow> node_plan \<Rightarrow> go_error option"
  ne_snapshot :: "'b \<Rightarrow> node_snapshot result"
  ne_apply :: "node_plan \<Rightarrow> 'b \<Rightarrow> go_error option \<times> 'b"
  ne_restore :: "node_snapshot \<Rightarrow> node_plan \<Rightarrow> 'b \<Rightarrow> go_error option \<times> 'b"
  ne_arm :: "(string \<Rightarrow> go_error option) option"
  ne_size :: "node_journal \<Rightarrow> nat"
  ne_hash :: "node_plan \<Rightarrow> bytes"

record node_call =
  nc_now :: gotime
  nc_nonce :: "bytes result"
  nc_lock :: "go_error option"
  nc_read :: "go_error option"
  nc_writes :: "write_outcome list"

type_synonym 'b node_run = "(node_journal, 'b) run"
type_synonym 'b node_world = "(node_journal, 'b) world"
type_synonym node_result = "node_transaction option \<times> go_error option"

section \<open>Loading and saving\<close>

definition node_active :: "node_transaction option \<Rightarrow> bool" where
  "node_active t = (case t of None \<Rightarrow> False
     | Some x \<Rightarrow> nt_State x = ''prepared'' \<or> nt_State x = ''applying'' \<or> nt_State x = ''applied'' \<or> nt_State x = ''rolling-back'')"

definition snapshot_get :: "node_snapshot \<Rightarrow> string \<Rightarrow> bytes" where
  "snapshot_get m k = (case map_of m k of None \<Rightarrow> [] | Some d \<Rightarrow> d)"

definition snapshot_ok :: "node_snapshot \<Rightarrow> bool" where
  "snapshot_ok m \<longleftrightarrow> length m = length packages \<and>
     (\<forall>name \<in> set packages. length (snapshot_get m name) \<noteq> 0 \<and> length (snapshot_get m name) \<le> 256 * 1024)"

definition node_states :: "string list" where
  "node_states = [''prepared'', ''applying'', ''applied'', ''confirmed'', ''rolling-back'', ''rolled-back'', ''failed'']"

definition node_check_journal :: "node_journal \<Rightarrow> go_error option" where
  "node_check_journal s =
     (case nj_Transaction s of
        None \<Rightarrow> None
      | Some t \<Rightarrow>
          if \<not> transactionID (nt_ID t) then Some (Error_New ''invalid_node_transaction_identity'')
          else if nt_State t \<notin> set node_states then Some (Error_New ''invalid_node_transaction_state'')
          else if (nt_State t = ''applying'' \<or> nt_State t = ''applied'') \<and> is_zero (nt_Deadline t)
          then Some (Error_New ''invalid_node_transaction_deadline'')
          else if node_active (Some t) \<and> \<not> snapshot_ok (nj_Snapshot s) then Some (Error_New ''invalid_node_snapshot'')
          else None)"

definition node_locked :: "'b node_env \<Rightarrow> node_call \<Rightarrow> 'b node_world \<Rightarrow> node_journal result" where
  "node_locked env c w =
     (case nc_lock c of Some e \<Rightarrow> Inl e | None \<Rightarrow>
      case nc_read c of Some e \<Rightarrow> Inl e | None \<Rightarrow>
      case w_disk w of
        None \<Rightarrow> Inr node_empty_journal
      | Some s \<Rightarrow>
          if ne_size env s > strictDecodeLimit \<or> nj_Version s \<noteq> 1 then Inl (Error_New ''invalid_node_journal'')
          else case node_check_journal s of Some e \<Rightarrow> Inl e | None \<Rightarrow> Inr s)"

definition node_save :: "'b node_env \<Rightarrow> node_journal \<Rightarrow> 'b node_run \<Rightarrow> go_error option \<times> 'b node_run" where
  "node_save env s r = writePrivate ''node'' (ne_size env) s r"

definition node_publicTransaction :: "node_transaction option \<Rightarrow> node_transaction option" where
  "node_publicTransaction t = map_option (\<lambda>x. x\<lparr>nt_Plan := RedactPlan (nt_Plan x)\<rparr>) t"

definition node_failed_op :: "string \<Rightarrow> node_result" where
  "node_failed_op msg = (None, Some (Error_New msg))"

definition node_set_tx :: "node_transaction \<Rightarrow> node_journal \<Rightarrow> node_journal" where
  "node_set_tx t s = s\<lparr>nj_Transaction := Some t\<rparr>"

text \<open>The end of a transaction: the snapshot and the passphrase are dropped.\<close>

definition drop_secrets :: "node_transaction \<Rightarrow> node_journal \<Rightarrow> node_journal" where
  "drop_secrets t s = s\<lparr>nj_Transaction := Some (t\<lparr>nt_Plan := (nt_Plan t)\<lparr>np_Passphrase := ''''\<rparr>\<rparr>), nj_Snapshot := []\<rparr>"

definition node_with_journal ::
  "'b node_env \<Rightarrow> node_call \<Rightarrow> (node_journal \<Rightarrow> 'b node_run \<Rightarrow> node_result \<times> 'b node_run) \<Rightarrow> 'b node_run \<Rightarrow> node_result \<times> 'b node_run" where
  "node_with_journal env c fn r =
     (case node_locked env c (r_world r) of Inl e \<Rightarrow> ((None, Some e), r) | Inr s \<Rightarrow> fn s r)"

definition node_on_tx ::
  "'b node_env \<Rightarrow> node_call \<Rightarrow> string \<Rightarrow> (node_journal \<Rightarrow> node_transaction \<Rightarrow> 'b node_run \<Rightarrow> node_result \<times> 'b node_run) \<Rightarrow>
     'b node_run \<Rightarrow> node_result \<times> 'b node_run" where
  "node_on_tx env c i fn r = node_with_journal env c (\<lambda>s r.
     case nj_Transaction s of
       None \<Rightarrow> (node_failed_op ''node_transaction_not_found'', r)
     | Some t \<Rightarrow> if nt_ID t \<noteq> i then (node_failed_op ''node_transaction_not_found'', r) else fn s t r) r"

section \<open>The operations\<close>

definition node_Status :: "'b node_env \<Rightarrow> node_call \<Rightarrow> 'b node_world \<Rightarrow> node_transaction option result" where
  "node_Status env c w = bind_result (node_locked env c w) (\<lambda>s. Inr (node_publicTransaction (nj_Transaction s)))"

definition node_prepared_tx :: "node_call \<Rightarrow> bytes \<Rightarrow> node_plan \<Rightarrow> node_transaction" where
  "node_prepared_tx c nonce p =
     \<lparr>nt_ID = hex_encode nonce, nt_State = ''prepared'', nt_CreatedAt = nc_now c, nt_Deadline = 0, nt_Plan = p, nt_ErrorCode = ''''\<rparr>"

definition node_prepare_locked ::
  "'b node_env \<Rightarrow> node_call \<Rightarrow> string \<Rightarrow> node_plan \<Rightarrow> node_journal \<Rightarrow> 'b node_run \<Rightarrow> node_result \<times> 'b node_run" where
  "node_prepare_locked env c key p s r =
     (let hash = hex_encode (ne_hash env p); b = w_back (r_world r) in
      if nj_RequestKey s = key
      then (if nj_RequestHash s \<noteq> hash then node_failed_op ''idempotency_conflict''
            else if nj_Transaction s = None then node_failed_op ''invalid_node_journal''
            else (node_publicTransaction (nj_Transaction s), None), r)
      else if node_active (nj_Transaction s) then (node_failed_op ''node_transaction_busy'', r)
      else case ne_check env b p of Some e \<Rightarrow> ((None, Some e), r) | None \<Rightarrow>
        case ne_snapshot env b of Inl e \<Rightarrow> ((None, Some e), r) | Inr snap \<Rightarrow>
          if \<not> snapshot_ok snap then (node_failed_op ''invalid_node_snapshot'', r)
          else case nc_nonce c of Inl e \<Rightarrow> ((None, Some e), r) | Inr nonce \<Rightarrow>
            let t = node_prepared_tx c nonce p;
                s' = s\<lparr>nj_Transaction := Some t, nj_Snapshot := snap, nj_RequestKey := key, nj_RequestHash := hash\<rparr>
            in case node_save env s' r of
                 (Some e, r') \<Rightarrow> ((None, Some e), r')
               | (None, r') \<Rightarrow> ((node_publicTransaction (Some t), None), r'))"

definition node_Prepare :: "'b node_env \<Rightarrow> node_call \<Rightarrow> string \<Rightarrow> node_plan \<Rightarrow> 'b node_run \<Rightarrow> node_result \<times> 'b node_run" where
  "node_Prepare env c key p r =
     (if \<not> requestKey key then (node_failed_op ''idempotency_key_required'', r)
      else node_with_journal env c (node_prepare_locked env c key p) r)"

definition node_Validate :: "'b node_env \<Rightarrow> node_call \<Rightarrow> string \<Rightarrow> 'b node_run \<Rightarrow> node_result \<times> 'b node_run" where
  "node_Validate env c i r = node_on_tx env c i (\<lambda>s t r.
     (case ne_check env (w_back (r_world r)) (nt_Plan t) of
        Some e \<Rightarrow> (None, Some e)
      | None \<Rightarrow> (node_publicTransaction (Some t), None), r)) r"

definition node_rollback :: "'b node_env \<Rightarrow> node_journal \<Rightarrow> node_transaction \<Rightarrow> 'b node_run \<Rightarrow> (node_journal \<times> go_error option) \<times> 'b node_run" where
  "node_rollback env s t r =
     (let t1 = t\<lparr>nt_State := ''rolling-back''\<rparr>; s1 = node_set_tx t1 s in
      case node_save env s1 r of
        (Some e, r1) \<Rightarrow> ((s1, Some e), r1)
      | (None, r1) \<Rightarrow>
          case device_step (ne_restore env (nj_Snapshot s1) (nt_Plan t1)) r1 of
            (Some _, r2) \<Rightarrow>
              let s2 = node_set_tx (t1\<lparr>nt_ErrorCode := ''rollback_failed''\<rparr>) s1 in
              (case node_save env s2 r2 of
                 (Some _, r3) \<Rightarrow> ((s2, Some (Error_New ''node_rollback_failed_and_journal_write_failed'')), r3)
               | (None, r3) \<Rightarrow> ((s2, Some (Error_New ''node_rollback_failed'')), r3))
          | (None, r2) \<Rightarrow>
              let s2 = drop_secrets (t1\<lparr>nt_State := ''rolled-back'', nt_Deadline := 0\<rparr>) s1 in
              (case node_save env s2 r2 of (e, r3) \<Rightarrow> ((s2, e), r3)))"

definition node_watchdog_failed :: "'b node_env \<Rightarrow> node_journal \<Rightarrow> node_transaction \<Rightarrow> 'b node_run \<Rightarrow> node_result \<times> 'b node_run" where
  "node_watchdog_failed env s t r =
     (case node_save env (node_set_tx (t\<lparr>nt_State := ''failed'', nt_ErrorCode := ''watchdog_unavailable''\<rparr>) s) r of
        (Some _, r') \<Rightarrow> (node_failed_op ''node_watchdog_unavailable_and_journal_write_failed'', r')
      | (None, r') \<Rightarrow> (node_failed_op ''node_watchdog_unavailable'', r'))"

definition node_apply_armed :: "'b node_env \<Rightarrow> node_journal \<Rightarrow> node_transaction \<Rightarrow> 'b node_run \<Rightarrow> node_result \<times> 'b node_run" where
  "node_apply_armed env s t r =
     (case device_step (ne_apply env (nt_Plan t)) r of
        (Some _, r1) \<Rightarrow>
          let t1 = t\<lparr>nt_ErrorCode := ''apply_failed''\<rparr> in
          (case node_rollback env (node_set_tx t1 s) t1 r1 of
             ((s2, Some e), r2) \<Rightarrow> ((None, Some e), r2)
           | ((s2, None), r2) \<Rightarrow>
               ((node_publicTransaction (nj_Transaction s2), Some (Error_New ''node_apply_failed_and_rolled_back'')), r2))
      | (None, r1) \<Rightarrow>
          let t2 = t\<lparr>nt_State := ''applied''\<rparr> in
          (case node_save env (node_set_tx t2 s) r1 of
             (Some e, r2) \<Rightarrow> ((None, Some e), r2)
           | (None, r2) \<Rightarrow> ((node_publicTransaction (Some t2), None), r2)))"

definition node_apply_tx ::
  "'b node_env \<Rightarrow> node_call \<Rightarrow> duration \<Rightarrow> node_journal \<Rightarrow> node_transaction \<Rightarrow> 'b node_run \<Rightarrow> node_result \<times> 'b node_run" where
  "node_apply_tx env c timeout s t r =
     (if nt_State t = ''applied'' \<or> nt_State t = ''confirmed'' then ((node_publicTransaction (Some t), None), r)
      else if nt_State t \<noteq> ''prepared'' then (node_failed_op ''node_transaction_invalid_state'', r)
      else case ne_check env (w_back (r_world r)) (nt_Plan t) of Some e \<Rightarrow> ((None, Some e), r) | None \<Rightarrow>
        case ne_arm env of None \<Rightarrow> (node_failed_op ''independent_node_watchdog_required'', r) | Some arm \<Rightarrow>
          let t1 = t\<lparr>nt_State := ''applying'', nt_Deadline := nc_now c + timeout\<rparr>; s1 = node_set_tx t1 s in
          case node_save env s1 r of
            (Some e, r1) \<Rightarrow> ((None, Some e), r1)
          | (None, r1) \<Rightarrow>
              if arm (nt_ID t1) \<noteq> None then node_watchdog_failed env s1 t1 r1
              else node_apply_armed env s1 t1 r1)"

definition node_Apply :: "'b node_env \<Rightarrow> node_call \<Rightarrow> string \<Rightarrow> duration \<Rightarrow> 'b node_run \<Rightarrow> node_result \<times> 'b node_run" where
  "node_Apply env c i timeout r =
     (if timeout < 30 * second \<or> timeout > 180 * second
      then (node_failed_op ''confirmation_window_must_be_30_to_180_seconds'', r)
      else node_on_tx env c i (node_apply_tx env c timeout) r)"

definition node_confirm_tx :: "'b node_env \<Rightarrow> node_call \<Rightarrow> node_journal \<Rightarrow> node_transaction \<Rightarrow> 'b node_run \<Rightarrow> node_result \<times> 'b node_run" where
  "node_confirm_tx env c s t r =
     (if nt_State t = ''confirmed'' then ((node_publicTransaction (Some t), None), r)
      else if nt_State t \<noteq> ''applied'' then (node_failed_op ''node_transaction_invalid_state'', r)
      else if \<not> nc_now c < nt_Deadline t
      then (case node_rollback env s t r of
              ((_, Some e), r1) \<Rightarrow> ((None, Some e), r1)
            | ((_, None), r1) \<Rightarrow> (node_failed_op ''node_confirmation_expired'', r1))
      else case ne_check env (w_back (r_world r)) (nt_Plan t) of Some e \<Rightarrow> ((None, Some e), r) | None \<Rightarrow>
        let s1 = drop_secrets (t\<lparr>nt_State := ''confirmed'', nt_Deadline := 0\<rparr>) s in
        (case node_save env s1 r of
           (Some e, r1) \<Rightarrow> ((None, Some e), r1)
         | (None, r1) \<Rightarrow> ((node_publicTransaction (nj_Transaction s1), None), r1)))"

definition node_Confirm :: "'b node_env \<Rightarrow> node_call \<Rightarrow> string \<Rightarrow> 'b node_run \<Rightarrow> node_result \<times> 'b node_run" where
  "node_Confirm env c i r = node_on_tx env c i (node_confirm_tx env c) r"

definition node_rollback_tx :: "'b node_env \<Rightarrow> node_journal \<Rightarrow> node_transaction \<Rightarrow> 'b node_run \<Rightarrow> node_result \<times> 'b node_run" where
  "node_rollback_tx env s t r =
     (if nt_State t = ''rolled-back'' then ((node_publicTransaction (Some t), None), r)
      else if nt_State t = ''confirmed'' \<or> nt_State t = ''failed''
      then (node_failed_op ''node_transaction_invalid_state'', r)
      else if nt_State t = ''prepared''
      then let s1 = drop_secrets (t\<lparr>nt_State := ''rolled-back''\<rparr>) s in
           (case node_save env s1 r of
              (Some e, r1) \<Rightarrow> ((None, Some e), r1)
            | (None, r1) \<Rightarrow> ((node_publicTransaction (nj_Transaction s1), None), r1))
      else (case node_rollback env s t r of
              ((_, Some e), r1) \<Rightarrow> ((None, Some e), r1)
            | ((s1, None), r1) \<Rightarrow> ((node_publicTransaction (nj_Transaction s1), None), r1)))"

definition node_Rollback :: "'b node_env \<Rightarrow> node_call \<Rightarrow> string \<Rightarrow> 'b node_run \<Rightarrow> node_result \<times> 'b node_run" where
  "node_Rollback env c i r = node_on_tx env c i (node_rollback_tx env) r"

definition node_Recover :: "'b node_env \<Rightarrow> node_call \<Rightarrow> 'b node_run \<Rightarrow> (bool \<times> go_error option) \<times> 'b node_run" where
  "node_Recover env c r =
     (case node_locked env c (r_world r) of
        Inl e \<Rightarrow> ((False, Some e), r)
      | Inr s \<Rightarrow>
          (case nj_Transaction s of
             None \<Rightarrow> ((True, None), r)
           | Some t \<Rightarrow>
               if \<not> node_active (Some t) \<or> nt_State t = ''prepared'' then ((True, None), r)
               else if nt_State t = ''rolling-back'' \<or> (\<not> is_zero (nt_Deadline t) \<and> \<not> nc_now c < nt_Deadline t)
               then (case node_rollback env s t r of
                       ((_, Some e), r1) \<Rightarrow> ((False, Some e), r1)
                     | ((_, None), r1) \<Rightarrow> ((True, None), r1))
               else ((False, None), r)))"

end
