(* ===== verification/Node_Props.thy ===== *)
theory Node_Props
  imports Node_Txn
begin

text \<open>
  What the node's transaction manager guarantees: its state machine with the write-ahead rule, the
  removal of the passphrase and of the snapshot, redacted results, and a limit of the journal
  reader that a successful \<^verbatim>\<open>Prepare\<close> can exceed.
\<close>

section \<open>Operations\<close>

datatype node_op =
    Node_Prepare string node_plan
  | Node_Validate string
  | Node_Apply string duration
  | Node_Confirm string
  | Node_Rollback string

definition node_do :: "'b node_env \<Rightarrow> node_call \<Rightarrow> node_op \<Rightarrow> 'b node_run \<Rightarrow> node_result \<times> 'b node_run" where
  "node_do env c q r = (case q of
     Node_Prepare key p \<Rightarrow> node_Prepare env c key p r
   | Node_Validate i \<Rightarrow> node_Validate env c i r
   | Node_Apply i d \<Rightarrow> node_Apply env c i d r
   | Node_Confirm i \<Rightarrow> node_Confirm env c i r
   | Node_Rollback i \<Rightarrow> node_Rollback env c i r)"

text \<open>All worlds an operation, or \<^verbatim>\<open>Recover\<close> (\<open>None\<close>), passes through.\<close>

definition node_exec :: "'b node_env \<Rightarrow> node_call \<Rightarrow> node_op option \<Rightarrow> 'b node_world \<Rightarrow> 'b node_run" where
  "node_exec env c q w = (case q of
     None \<Rightarrow> snd (node_Recover env c (start_run w (nc_writes c)))
   | Some x \<Rightarrow> snd (node_do env c x (start_run w (nc_writes c))))"

section \<open>The state machine\<close>

definition node_advances :: "(string \<times> string) list" where
  "node_advances = [(''prepared'', ''applying''), (''applying'', ''applied''), (''applying'', ''rolling-back''),
     (''applied'', ''rolling-back''), (''rolling-back'', ''rolling-back''), (''applying'', ''failed'')]"

definition node_closings :: "(string \<times> string) list" where
  "node_closings = [(''prepared'', ''rolled-back''), (''rolling-back'', ''rolled-back''), (''applied'', ''confirmed'')]"

definition node_same :: "node_transaction \<Rightarrow> node_transaction \<Rightarrow> bool" where
  "node_same t t' \<longleftrightarrow> nt_ID t' = nt_ID t \<and> nt_Plan t' = nt_Plan t \<and> nt_CreatedAt t' = nt_CreatedAt t"

inductive node_journal_next :: "node_journal option \<Rightarrow> node_journal \<Rightarrow> bool" where
  node_begin: "(\<And>s. old = Some s \<Longrightarrow> \<not> node_active (nj_Transaction s)) \<Longrightarrow>
    nj_Transaction s' = Some t' \<Longrightarrow> nt_State t' = ''prepared'' \<Longrightarrow> node_journal_next old s'"
| node_advance: "nj_Transaction s = Some t \<Longrightarrow> (nt_State t, nt_State t') \<in> set node_advances \<Longrightarrow> node_same t t' \<Longrightarrow>
    node_journal_next (Some s) (node_set_tx t' s)"
| node_close: "nj_Transaction s = Some t \<Longrightarrow> (nt_State t, nt_State t') \<in> set node_closings \<Longrightarrow> node_same t t' \<Longrightarrow>
    node_journal_next (Some s) (drop_secrets t' s)"

inductive_cases node_journal_nextE: "node_journal_next old s'"

definition node_announced :: "node_journal option \<Rightarrow> bool" where
  "node_announced d \<longleftrightarrow> (case d of None \<Rightarrow> False
     | Some s \<Rightarrow> (case nj_Transaction s of None \<Rightarrow> False | Some t \<Rightarrow> nt_State t = ''applying'' \<or> nt_State t = ''rolling-back''))"

inductive node_world_next :: "'b node_world \<Rightarrow> 'b node_world \<Rightarrow> bool" where
  node_journal_write: "node_journal_next (w_disk w) s' \<Longrightarrow> node_world_next w (w\<lparr>w_disk := Some s'\<rparr>)"
| node_device_change: "node_announced (w_disk w) \<Longrightarrow> node_world_next w (w\<lparr>w_back := b\<rparr>)"

lemma node_save_None: "node_save env s r = (None, r') \<Longrightarrow> w_disk (r_world r') = Some s \<and> w_back (r_world r') = w_back (r_world r)"
  unfolding node_save_def by (rule writePrivate_None)

lemma node_save_steps:
  "run_steps node_world_next w0 r \<Longrightarrow> node_journal_next (w_disk (r_world r)) s \<Longrightarrow> run_steps node_world_next w0 (snd (node_save env s r))"
  unfolding node_save_def by (intro writePrivate_run_steps node_journal_write)

lemma node_advance_steps:
  assumes "run_steps node_world_next w0 r" and "w_disk (r_world r) = Some s" and "nj_Transaction s = Some t"
    and "(nt_State t, nt_State t') \<in> set node_advances" and "node_same t t'"
  shows "run_steps node_world_next w0 (snd (node_save env (node_set_tx t' s) r))"
  using assms by (intro node_save_steps) (auto intro: node_advance)

lemma node_close_steps:
  assumes "run_steps node_world_next w0 r" and "w_disk (r_world r) = Some s" and "nj_Transaction s = Some t"
    and "(nt_State t, nt_State t') \<in> set node_closings" and "node_same t t'"
  shows "run_steps node_world_next w0 (snd (node_save env (drop_secrets t' s) r))"
  using assms by (intro node_save_steps) (auto intro: node_close)

lemma node_device_steps:
  "run_steps node_world_next w0 r \<Longrightarrow> node_announced (w_disk (r_world r)) \<Longrightarrow> run_steps node_world_next w0 (snd (device_step f r))"
  by (intro device_step_run_steps node_device_change)

lemma node_same_simps [simp]: "node_same t t" "node_same t (u\<lparr>nt_State := x\<rparr>) = node_same t u"
  "node_same t (u\<lparr>nt_Deadline := d\<rparr>) = node_same t u" "node_same t (u\<lparr>nt_ErrorCode := x\<rparr>) = node_same t u"
  by (simp_all add: node_same_def)

lemma node_set_tx_simps [simp]: "nj_Transaction (node_set_tx t s) = Some t" "nj_Snapshot (node_set_tx t s) = nj_Snapshot s"
  "node_set_tx t (node_set_tx u s) = node_set_tx t s"
  by (simp_all add: node_set_tx_def)

lemma node_set_tx_same: "nj_Transaction s = Some t \<Longrightarrow> node_set_tx t s = s"
  by (simp add: node_set_tx_def)

definition node_rollback_end :: "'b node_env \<Rightarrow> node_journal \<Rightarrow> node_transaction \<Rightarrow> go_error option \<Rightarrow> 'b node_run \<Rightarrow> 'b node_run" where
  "node_rollback_end env s t e r =
     (if e \<noteq> None then snd (node_save env (node_set_tx (t\<lparr>nt_ErrorCode := ''rollback_failed''\<rparr>) s) r)
      else snd (node_save env (drop_secrets (t\<lparr>nt_State := ''rolled-back'', nt_Deadline := 0\<rparr>) s) r))"

lemma node_rollback_run:
  assumes "t1 = t\<lparr>nt_State := ''rolling-back''\<rparr>" and "s1 = node_set_tx t1 s"
  shows "snd (node_rollback env s t r) =
    (if fst (node_save env s1 r) \<noteq> None then snd (node_save env s1 r)
     else let d = device_step (ne_restore env (nj_Snapshot s1) (nt_Plan t1)) (snd (node_save env s1 r))
          in node_rollback_end env s1 t1 (fst d) (snd d))"
  using assms by (auto simp: node_rollback_def node_rollback_end_def Let_def simp del: device_step_simps split: prod.splits option.splits)

lemma node_rollback_steps:
  assumes run: "run_steps node_world_next w0 r" and disk: "w_disk (r_world r) = Some s0" and "nj_Transaction s0 = Some t0"
    and "(nt_State t0, ''rolling-back'') \<in> set node_advances" and "node_same t0 t" and "s = node_set_tx t s0"
  shows "run_steps node_world_next w0 (snd (node_rollback env s t r))"
proof -
  define t1 where "t1 = t\<lparr>nt_State := ''rolling-back''\<rparr>"
  define s1 where "s1 = node_set_tx t1 s"
  define ra where "ra = snd (node_save env s1 r)"
  define d where "d = device_step (ne_restore env (nj_Snapshot s1) (nt_Plan t1)) ra"
  have ra: "run_steps node_world_next w0 ra"
    unfolding ra_def s1_def assms(6) node_set_tx_simps(3)
    using assms by (intro node_advance_steps [of _ _ s0 t0]) (simp_all add: t1_def node_same_def)
  have tx1: "nj_Transaction s1 = Some t1" by (simp add: s1_def)
  have "run_steps node_world_next w0 (node_rollback_end env s1 t1 e (snd d))" if "fst (node_save env s1 r) = None" for e
  proof -
    have dk: "w_disk (r_world ra) = Some s1"
      using node_save_None [of env s1 r ra] that by (simp add: ra_def prod_eq_iff)
    then have rd: "run_steps node_world_next w0 (snd d)"
      unfolding d_def using ra tx1 by (intro node_device_steps) (simp_all add: node_announced_def t1_def)
    have dd: "w_disk (r_world (snd d)) = Some s1" using dk by (simp add: d_def)
    show ?thesis
      using node_advance_steps [OF rd dd tx1, of "t1\<lparr>nt_ErrorCode := ''rollback_failed''\<rparr>"]
        node_close_steps [OF rd dd tx1, of "t1\<lparr>nt_State := ''rolled-back'', nt_Deadline := 0\<rparr>"]
      by (simp add: node_rollback_end_def t1_def node_same_def node_advances_def node_closings_def)
  qed
  then show ?thesis
    using ra by (simp add: node_rollback_run [OF t1_def s1_def] Let_def ra_def d_def)
qed

lemma node_locked_Inr:
  "node_locked env c w = Inr s \<Longrightarrow> w_disk w = None \<and> s = node_empty_journal \<or> w_disk w = Some s"
  by (auto simp: node_locked_def split: option.splits if_splits)

lemma node_locked_tx:
  assumes "node_locked env c w = Inr s" and "nj_Transaction s = Some t"
  shows "w_disk w = Some s \<and> nt_State t \<in> set node_states"
  using assms by (auto simp: node_locked_def node_check_journal_def node_empty_journal_def split: option.splits if_splits)

lemma node_on_tx_steps:
  assumes "run_steps node_world_next w0 r"
    and "\<And>s t. w_disk (r_world r) = Some s \<Longrightarrow> nj_Transaction s = Some t \<Longrightarrow> nt_State t \<in> set node_states \<Longrightarrow>
      run_steps node_world_next w0 (snd (fn s t r))"
  shows "run_steps node_world_next w0 (snd (node_on_tx env c i fn r))"
  using assms node_locked_tx [of env c "r_world r"]
  by (auto simp: node_on_tx_def node_with_journal_def split: sum.splits option.splits)

lemma node_rollback_loaded_steps:
  assumes "run_steps node_world_next w0 r" and "w_disk (r_world r) = Some s" and "nj_Transaction s = Some t"
    and "(nt_State t, ''rolling-back'') \<in> set node_advances"
  shows "run_steps node_world_next w0 (snd (node_rollback env s t r))"
  by (rule node_rollback_steps [OF assms]) (simp_all add: node_set_tx_same assms)

lemma node_snd_save:
  "snd (case x of (None, r) \<Rightarrow> (f r, r) | (Some e, r) \<Rightarrow> (g e r, r)) = snd x"
  by (auto split: prod.splits option.splits)

lemma node_snd_rollback:
  "snd (case x of ((s, None), r) \<Rightarrow> (f s r, r) | ((s, Some e), r) \<Rightarrow> (g s e r, r)) = snd x"
  by (auto split: prod.splits option.splits)

lemma node_confirm_tx_steps:
  assumes "run_steps node_world_next w0 r" and "w_disk (r_world r) = Some s" and "nj_Transaction s = Some t"
  shows "run_steps node_world_next w0 (snd (node_confirm_tx env c s t r))"
  using assms node_rollback_loaded_steps [OF assms] node_close_steps [OF assms, of "t\<lparr>nt_State := ''confirmed'', nt_Deadline := 0\<rparr>"]
  by (auto simp: node_confirm_tx_def Let_def node_snd_save node_snd_rollback node_advances_def node_closings_def split: option.split)

lemma node_rollback_tx_steps:
  assumes "run_steps node_world_next w0 r" and "w_disk (r_world r) = Some s" and "nj_Transaction s = Some t"
    and "nt_State t \<in> set node_states"
  shows "run_steps node_world_next w0 (snd (node_rollback_tx env s t r))"
  using assms(1,4) node_rollback_loaded_steps [OF assms(1-3)] node_close_steps [OF assms(1-3), of "t\<lparr>nt_State := ''rolled-back''\<rparr>"]
  by (auto simp: node_rollback_tx_def Let_def node_snd_save node_snd_rollback node_advances_def node_closings_def node_states_def)

lemma node_apply_armed_steps:
  assumes "run_steps node_world_next w0 r" and disk: "w_disk (r_world r) = Some s" and tx: "nj_Transaction s = Some t"
    and st: "nt_State t = ''applying''"
  shows "run_steps node_world_next w0 (snd (node_apply_armed env s t r))"
proof -
  define d where "d = device_step (ne_apply env (nt_Plan t)) r"
  define t1 where "t1 = t\<lparr>nt_ErrorCode := ''apply_failed''\<rparr>"
  have rd: "run_steps node_world_next w0 (snd d)"
    unfolding d_def using assms by (intro node_device_steps) (simp_all add: node_announced_def)
  have dd: "w_disk (r_world (snd d)) = Some s" using disk by (simp add: d_def)
  have "run_steps node_world_next w0 (snd (node_rollback env (node_set_tx t1 s) t1 (snd d)))"
    using st by (intro node_rollback_steps [OF rd dd tx]) (simp_all add: node_advances_def t1_def)
  moreover have "run_steps node_world_next w0 (snd (node_save env (node_set_tx (t\<lparr>nt_State := ''applied''\<rparr>) s) (snd d)))"
    using st by (intro node_advance_steps [OF rd dd tx]) (simp_all add: node_advances_def)
  ultimately show ?thesis
    by (auto simp: node_apply_armed_def Let_def d_def t1_def node_snd_save node_snd_rollback simp del: device_step_simps
        split: prod.split option.split)
qed

lemma node_apply_tx_steps:
  assumes "run_steps node_world_next w0 r" and disk: "w_disk (r_world r) = Some s" and tx: "nj_Transaction s = Some t"
  shows "run_steps node_world_next w0 (snd (node_apply_tx env c timeout s t r))"
proof (cases "nt_State t = ''prepared''")
  case False
  then show ?thesis using assms(1) by (simp add: node_apply_tx_def)
next
  case True
  define t1 where "t1 = t\<lparr>nt_State := ''applying'', nt_Deadline := nc_now c + timeout\<rparr>"
  define s1 where "s1 = node_set_tx t1 s"
  define ra where "ra = snd (node_save env s1 r)"
  have ra: "run_steps node_world_next w0 ra"
    unfolding ra_def s1_def using True by (intro node_advance_steps [OF assms]) (simp_all add: t1_def node_advances_def)
  have tx1: "nj_Transaction s1 = Some t1" "nt_State t1 = ''applying''" by (simp_all add: s1_def t1_def)
  have "run_steps node_world_next w0 (snd (node_watchdog_failed env s1 t1 ra)) \<and> run_steps node_world_next w0 (snd (node_apply_armed env s1 t1 ra))"
    if "node_save env s1 r = (None, ra)"
    using node_save_None [OF that] node_advance_steps [OF ra _ tx1(1), of "t1\<lparr>nt_State := ''failed'', nt_ErrorCode := ''watchdog_unavailable''\<rparr>"]
      tx1 node_apply_armed_steps [OF ra _ tx1]
    by (simp add: node_watchdog_failed_def node_snd_save node_advances_def)
  then show ?thesis
    using assms(1) True ra
    by (auto simp: node_apply_tx_def Let_def t1_def [symmetric] s1_def [symmetric] ra_def split: prod.split option.split)
qed

lemma node_Prepare_steps:
  assumes "run_steps node_world_next w0 r"
  shows "run_steps node_world_next w0 (snd (node_Prepare env c key p r))"
proof -
  have "run_steps node_world_next w0 (snd (node_prepare_locked env c key p s r))" if "node_locked env c (r_world r) = Inr s" for s
  proof (cases "node_active (nj_Transaction s)")
    case True
    then show ?thesis using assms by (auto simp: node_prepare_locked_def Let_def)
  next
    case False
    have "node_journal_next (w_disk (r_world r)) (s\<lparr>nj_Transaction := Some (node_prepared_tx c n p), nj_Snapshot := snap,
        nj_RequestKey := key, nj_RequestHash := hs\<rparr>)" for n snap hs
      using False node_locked_Inr [OF that] by (intro node_begin) (auto simp: node_prepared_tx_def node_empty_journal_def)
    then have "run_steps node_world_next w0 (snd (node_save env (s\<lparr>nj_Transaction := Some (node_prepared_tx c n p), nj_Snapshot := snap,
        nj_RequestKey := key, nj_RequestHash := hs\<rparr>) r))" for n snap hs
      using assms by (intro node_save_steps)
    then show ?thesis
      using assms False by (auto simp: node_prepare_locked_def Let_def node_snd_save split: sum.split option.split)
  qed
  then show ?thesis
    using assms by (auto simp: node_Prepare_def node_with_journal_def split: option.split sum.split)
qed

lemma node_Recover_steps:
  assumes "run_steps node_world_next w0 r"
  shows "run_steps node_world_next w0 (snd (node_Recover env c r))"
proof -
  have "run_steps node_world_next w0 (snd (node_rollback env s t r))"
    if "node_locked env c (r_world r) = Inr s" "nj_Transaction s = Some t" "node_active (Some t)" "nt_State t \<noteq> ''prepared''" for s t
    using that node_locked_tx [OF that(1,2)]
    by (intro node_rollback_loaded_steps [OF assms]) (auto simp: node_active_def node_advances_def)
  then show ?thesis
    using assms by (auto simp: node_Recover_def node_snd_rollback split: sum.split option.split)
qed

lemma node_do_steps:
  assumes "run_steps node_world_next w0 r"
  shows "run_steps node_world_next w0 (snd (node_do env c q r))"
proof (cases q)
  case (Node_Prepare key p)
  then show ?thesis using node_Prepare_steps [OF assms] by (simp add: node_do_def)
next
  case (Node_Validate i)
  then show ?thesis using assms by (auto simp: node_do_def node_Validate_def intro!: node_on_tx_steps)
next
  case (Node_Apply i d)
  then show ?thesis using assms by (auto simp: node_do_def node_Apply_def intro!: node_on_tx_steps node_apply_tx_steps)
next
  case (Node_Confirm i)
  then show ?thesis using assms by (auto simp: node_do_def node_Confirm_def intro!: node_on_tx_steps node_confirm_tx_steps)
next
  case (Node_Rollback i)
  then show ?thesis using assms by (auto simp: node_do_def node_Rollback_def intro!: node_on_tx_steps node_rollback_tx_steps)
qed

lemma node_exec_steps: "run_steps node_world_next w (node_exec env c q w)"
  by (cases q) (simp_all add: node_exec_def node_do_steps node_Recover_steps)

section \<open>Properties of the node manager\<close>

text \<open>
  C15: every operation of the node, with any arguments, clock, random bytes and write failures,
  moves its journal file and its device only along the transaction's state machine; the device
  changes only while the file on disk says \<^verbatim>\<open>applying\<close> or \<^verbatim>\<open>rolling-back\<close>.
\<close>

theorem node_writes_ahead: "chain node_world_next (r_trace (node_exec env c q w))"
  using node_exec_steps [of w env c q] by (simp add: run_steps_def)

text \<open>A file whose transaction is over (confirmed or rolled back) holds no passphrase and no snapshot.\<close>

definition forgets :: "'b node_world \<Rightarrow> bool" where
  "forgets w \<longleftrightarrow> (case w_disk w of None \<Rightarrow> True | Some s \<Rightarrow> (case nj_Transaction s of None \<Rightarrow> True
     | Some t \<Rightarrow> nt_State t \<in> {''confirmed'', ''rolled-back''} \<longrightarrow> np_Passphrase (nt_Plan t) = '''' \<and> nj_Snapshot s = []))"

lemma world_next_forgets:
  assumes "node_world_next w w'" and "forgets w"
  shows "forgets w'"
  using assms(1)
proof cases
  case (node_journal_write s')
  from node_journal_write(2) show ?thesis
    by (cases rule: node_journal_nextE)
      (auto simp: node_journal_write(1) forgets_def drop_secrets_def node_set_tx_def node_advances_def)
next
  case (node_device_change b)
  then show ?thesis using assms(2) by (simp add: forgets_def)
qed

definition node_worlds :: "'b node_env \<Rightarrow> node_call \<times> node_op option \<Rightarrow> 'b node_world \<Rightarrow> 'b node_world list" where
  "node_worlds env q w = r_world (node_exec env (fst q) (snd q) w) # r_trace (node_exec env (fst q) (snd q) w)"

interpretation node: crash_safe "node_worlds env" "\<lambda>_. True" forgets for env
proof
  fix w :: "'a node_world" and q w'
  assume "forgets w" "w' \<in> set (node_worlds env q w)"
  then show "forgets w'"
    using run_steps_invariant [OF node_exec_steps [of w env "fst q" "snd q"], of forgets, OF world_next_forgets]
    by (auto simp: node_worlds_def run_all_def)
qed

text \<open>A device with one setting and four packages of configuration, for the witnesses.\<close>

definition node_sample_plan :: node_plan where
  "node_sample_plan = \<lparr>np_Name = ''attic'', np_Mode = ''ethernet'', np_ManagementInterface = ''lan'', np_BridgeSection = ''br'',
     np_BridgeDevice = ''br-lan'', np_LANPorts = [''lan1''], np_Uplink = ''lan1'', np_EthernetUplink = '''', np_ManagementAddress = ''192.168.1.2/24'',
     np_GatewayAddress = ''192.168.1.1'', np_Radio = ''radio0'', np_SSID = ''home'', np_Passphrase = ''correct horse'', np_Channel = 36,
     np_ShareRadio = False, np_DHCPServer = False, np_NAT = False, np_RouterAdvertisements = False, np_PreserveManagementPath = True\<rparr>"

definition node_sample_env :: "nat \<Rightarrow> bool node_env" where
  "node_sample_env n = \<lparr>ne_check = (\<lambda>_ _. None), ne_snapshot = (\<lambda>_. Inr (map (\<lambda>k. (k, replicate n 0)) packages)),
     ne_apply = (\<lambda>_ _. (None, True)), ne_restore = (\<lambda>_ _ _. (None, False)), ne_arm = Some (\<lambda>_. None),
     ne_size = (\<lambda>j. 1024 + sum_list (map (\<lambda>(k, d). 4 * ((length d + 2) div 3)) (nj_Snapshot j))), ne_hash = (\<lambda>_. replicate 32 7)\<rparr>"

definition node_sample_call :: "int \<Rightarrow> node_call" where
  "node_sample_call now = \<lparr>nc_now = now, nc_nonce = Inr (replicate 16 3), nc_lock = None, nc_read = None, nc_writes = []\<rparr>"

definition node_sample_start :: "bool node_world" where
  "node_sample_start = \<lparr>w_disk = None, w_back = False\<rparr>"

definition node_sample_prepared :: "nat \<Rightarrow> bool node_world" where
  "node_sample_prepared n = r_world (snd (node_Prepare (node_sample_env n) (node_sample_call 10) (replicate 16 (CHR ''k'')) node_sample_plan
     (start_run node_sample_start [])))"

lemmas node_sample_defs = node_sample_env_def node_sample_call_def node_sample_start_def node_sample_plan_def

lemmas node_eval = node_exec_def node_do_def start_run_def node_Prepare_def node_with_journal_def node_locked_def node_prepare_locked_def
  node_check_journal_def node_active_def snapshot_ok_def snapshot_get_def packages_def node_states_def node_save_def writePrivate_def visit_def
  node_prepared_tx_def node_publicTransaction_def RedactPlan_def node_failed_op_def node_empty_journal_def node_set_tx_def
  requestKey_def transactionID_def matches_def char_class_defs hex_encode_def hex_digit_def maxStateBytes_def strictDecodeLimit_def
  is_zero_def Let_def less_eq_char_def length_concat sum_list_replicate node_Rollback_def node_on_tx_def node_rollback_tx_def drop_secrets_def

text \<open>
  C14: starting without a journal, after any sequence of node operations, each possibly cut off by
  a crash or disturbed by failing writes, a journal file whose transaction is confirmed or rolled
  back contains neither the Wi-Fi passphrase nor the configuration snapshot.
\<close>

theorem node_forgets_secrets:
  assumes "w_disk w0 = None" and "crash_reach (node_worlds env) (\<lambda>_. True) w0 w" and "w_disk w = Some s"
    and "nj_Transaction s = Some t" and "nt_State t = ''confirmed'' \<or> nt_State t = ''rolled-back''"
  shows "np_Passphrase (nt_Plan t) = '''' \<and> nj_Snapshot s = []"
proof -
  have "forgets w"
    using node.reach_safe [OF assms(2)] assms(1) by (simp add: forgets_def)
  then show ?thesis
    using assms(3-5) by (auto simp: forgets_def)
qed

theorem node_forgets_secrets_witness:
  "\<exists>w s t. crash_reach (node_worlds (node_sample_env 1)) (\<lambda>_. True) node_sample_start w \<and> w_disk w = Some s \<and>
     nj_Transaction s = Some t \<and> nt_State t = ''rolled-back'' \<and> np_Passphrase (nt_Plan t) = '''' \<and> nj_Snapshot s = []"
proof -
  define qp where "qp = (node_sample_call 10, Some (Node_Prepare (replicate 16 (CHR ''k'')) node_sample_plan))"
  define qr where "qr = (node_sample_call 20, Some (Node_Rollback (hex_encode (replicate 16 3))))"
  define w1 where "w1 = r_world (node_exec (node_sample_env 1) (fst qp) (snd qp) node_sample_start)"
  define w2 where "w2 = r_world (node_exec (node_sample_env 1) (fst qr) (snd qr) w1)"
  have "w1 \<in> set (node_worlds (node_sample_env 1) qp node_sample_start)" "w2 \<in> set (node_worlds (node_sample_env 1) qr w1)"
    by (simp_all add: node_worlds_def w1_def w2_def)
  then have reach: "crash_reach (node_worlds (node_sample_env 1)) (\<lambda>_. True) node_sample_start w2"
    by (blast intro: cr_start cr_step)
  have w1: "w1 = \<lparr>w_disk = Some \<lparr>nj_Version = 1, nj_Transaction = Some (node_prepared_tx (node_sample_call 10) (replicate 16 3) node_sample_plan),
      nj_Snapshot = map (\<lambda>k. (k, [0])) packages, nj_RequestKey = replicate 16 (CHR ''k''), nj_RequestHash = hex_encode (replicate 32 7)\<rparr>,
      w_back = False\<rparr>"
    by (simp add: w1_def qp_def node_sample_defs node_eval)
  obtain s t where s: "w_disk w2 = Some s" "nj_Transaction s = Some t" "nt_State t = ''rolled-back''"
    unfolding w2_def w1 by (simp add: qr_def node_sample_defs node_eval)
  with node_forgets_secrets [OF _ reach s(1,2)] reach show ?thesis
    by (auto simp: node_sample_start_def)
qed

lemma public_redacted: "node_publicTransaction x = Some t \<Longrightarrow> np_Passphrase (nt_Plan t) = ''''"
  by (auto simp: node_publicTransaction_def RedactPlan_def)

lemma node_prepare_redacted: "fst (fst (node_prepare_locked env c key p s r)) = Some t \<Longrightarrow> np_Passphrase (nt_Plan t) = ''''"
  by (auto simp: node_prepare_locked_def Let_def node_failed_op_def dest: public_redacted split: if_splits sum.splits option.splits prod.splits)

lemma node_confirm_redacted: "fst (fst (node_confirm_tx env c s u r)) = Some t \<Longrightarrow> np_Passphrase (nt_Plan t) = ''''"
  by (auto simp: node_confirm_tx_def Let_def node_failed_op_def dest: public_redacted split: if_splits option.splits prod.splits)

lemma node_rollback_redacted: "fst (fst (node_rollback_tx env s u r)) = Some t \<Longrightarrow> np_Passphrase (nt_Plan t) = ''''"
  by (auto simp: node_rollback_tx_def Let_def node_failed_op_def dest: public_redacted split: if_splits option.splits prod.splits)

lemma node_armed_redacted: "fst (fst (node_apply_armed env s u r)) = Some t \<Longrightarrow> np_Passphrase (nt_Plan t) = ''''"
  by (auto simp: node_apply_armed_def Let_def dest: public_redacted split: option.splits prod.splits)

lemma node_apply_redacted: "fst (fst (node_apply_tx env c d s u r)) = Some t \<Longrightarrow> np_Passphrase (nt_Plan t) = ''''"
  by (auto simp: node_apply_tx_def Let_def node_failed_op_def node_watchdog_failed_def dest: public_redacted node_armed_redacted
      split: if_splits option.splits prod.splits)

lemma node_on_tx_result:
  assumes "fst (fst (node_on_tx env c i fn r)) = Some t" and "\<And>s u. fst (fst (fn s u r)) = Some t \<Longrightarrow> Q"
  shows Q
  using assms by (auto simp: node_on_tx_def node_with_journal_def node_failed_op_def split: sum.splits option.splits if_splits)

text \<open>
  No operation returns a Wi-Fi passphrase: the transaction in every result, and in the status,
  has an empty one (\<^verbatim>\<open>docs/coverage.md\<close>: status responses omit the passphrase).
\<close>

theorem node_results_redacted:
  "\<forall>t. (fst (fst (node_do env c q r)) = Some t \<or> node_Status env c w = Inr (Some t)) \<longrightarrow> np_Passphrase (nt_Plan t) = ''''"
proof (intro allI impI)
  fix t
  assume "fst (fst (node_do env c q r)) = Some t \<or> node_Status env c w = Inr (Some t)"
  then show "np_Passphrase (nt_Plan t) = ''''"
  proof
    assume "node_Status env c w = Inr (Some t)"
    then show ?thesis by (auto simp: node_Status_def dest: public_redacted)
  next
    assume d: "fst (fst (node_do env c q r)) = Some t"
    show ?thesis
    proof (cases q)
      case (Node_Prepare key p)
      then show ?thesis using d
        by (auto simp: node_do_def node_Prepare_def node_with_journal_def node_failed_op_def dest: node_prepare_redacted split: if_splits sum.splits)
    next
      case (Node_Validate i)
      then show ?thesis using d
        by (auto simp: node_do_def node_Validate_def elim!: node_on_tx_result dest: public_redacted split: option.splits)
    next
      case (Node_Apply i x)
      then show ?thesis using d
        by (auto simp: node_do_def node_Apply_def node_failed_op_def elim!: node_on_tx_result dest: node_apply_redacted split: if_splits)
    next
      case (Node_Confirm i)
      then show ?thesis using d
        by (auto simp: node_do_def node_Confirm_def elim!: node_on_tx_result dest: node_confirm_redacted)
    next
      case (Node_Rollback i)
      then show ?thesis using d
        by (auto simp: node_do_def node_Rollback_def elim!: node_on_tx_result dest: node_rollback_redacted)
    qed
  qed
qed

theorem node_results_redacted_witness:
  "\<exists>t. fst (fst (node_do (node_sample_env 1) (node_sample_call 10) (Node_Prepare (replicate 16 (CHR ''k'')) node_sample_plan)
     (start_run node_sample_start []))) = Some t \<and> np_Passphrase (nt_Plan t) = ''''"
proof -
  obtain t where "fst (fst (node_do (node_sample_env 1) (node_sample_call 10) (Node_Prepare (replicate 16 (CHR ''k'')) node_sample_plan)
     (start_run node_sample_start []))) = Some t"
    by (simp add: node_sample_defs node_eval)
  with node_results_redacted show ?thesis by blast
qed

text \<open>
  C29: the journal reader's limit. \<^verbatim>\<open>Prepare\<close> accepts four packages of up to 256 KiB each and the
  writer up to 2 MiB, but the reader is \<^verbatim>\<open>StrictDecode\<close> with 64 KiB. Once a journal between the
  two limits is on disk, every operation, \<^verbatim>\<open>Recover\<close> included, fails and has no effect.
\<close>

theorem node_oversized_journal_blocks:
  assumes "w_disk (r_world r) = Some s" and "strictDecodeLimit < ne_size env s"
  shows "snd (node_do env c q r) = r \<and> snd (fst (node_do env c q r)) \<noteq> None \<and>
    snd (node_Recover env c r) = r \<and> snd (fst (node_Recover env c r)) \<noteq> None"
proof -
  have l: "\<exists>e. node_locked env c (r_world r) = Inl e"
    using assms by (auto simp: node_locked_def split: option.splits)
  then have "snd (node_with_journal env c fn r) = r \<and> snd (fst (node_with_journal env c fn r)) \<noteq> None" for fn
    by (auto simp: node_with_journal_def)
  then have "snd (node_do env c q r) = r \<and> snd (fst (node_do env c q r)) \<noteq> None"
    by (cases q) (auto simp: node_do_def node_Prepare_def node_Validate_def node_Apply_def node_Confirm_def node_Rollback_def
        node_on_tx_def node_failed_op_def)
  then show ?thesis using l by (auto simp: node_Recover_def)
qed

theorem node_oversized_journal_blocks_witness:
  "snd (fst (node_Prepare (node_sample_env 20000) (node_sample_call 10) (replicate 16 (CHR ''k'')) node_sample_plan
     (start_run node_sample_start []))) = None \<and>
   snd (fst (node_do (node_sample_env 20000) (node_sample_call 20) (Node_Apply (hex_encode (replicate 16 3)) (60 * second))
     (start_run (node_sample_prepared 20000) []))) \<noteq> None"
proof -
  have ok: "snd (fst (node_Prepare (node_sample_env 20000) (node_sample_call 10) (replicate 16 (CHR ''k'')) node_sample_plan
     (start_run node_sample_start []))) = None"
    by (simp add: node_sample_defs node_eval)
  obtain s where s: "w_disk (node_sample_prepared 20000) = Some s" "strictDecodeLimit < ne_size (node_sample_env 20000) s"
    by (simp add: node_sample_prepared_def node_sample_defs node_eval)
  show ?thesis
    using ok node_oversized_journal_blocks [of "start_run (node_sample_prepared 20000) []" s "node_sample_env 20000"] s
    by (simp add: start_run_def)
qed

end
