(* ===== verification/Netip.thy ===== *)
theory Netip
  imports Go_Prelude "HOL-Library.Numeral_Type"
begin

text \<open>
  The part of Go's \<^verbatim>\<open>net/netip\<close> the routing packages use: addresses, prefixes, their tests, and the
  parsers and printers of the standard library, whose loops are transcribed as recursions over the
  remaining text.
\<close>

unbundle bit_operations_syntax

section \<open>Addresses and prefixes\<close>

text \<open>The zero \<^verbatim>\<open>netip.Addr\<close> is \<open>Addr_zero\<close>; an IPv6 address has a zone, empty when absent.\<close>

datatype addr = Addr_zero | V4 "32 word" | V6 "128 word" string

record prefix =
  pf_addr :: addr
  pf_bits :: int

definition prefix_zero :: prefix where
  "prefix_zero = \<lparr>pf_addr = Addr_zero, pf_bits = -1\<rparr>"

definition addr_IsValid :: "addr \<Rightarrow> bool" where
  "addr_IsValid a \<longleftrightarrow> a \<noteq> Addr_zero"

definition addr_Zone :: "addr \<Rightarrow> string" where
  "addr_Zone a = (case a of V6 _ z \<Rightarrow> z | _ \<Rightarrow> '''')"

definition addr_BitLen :: "addr \<Rightarrow> int" where
  "addr_BitLen a = (case a of Addr_zero \<Rightarrow> 0 | V4 _ \<Rightarrow> 32 | V6 _ _ \<Rightarrow> 128)"

definition addr_Is4In6 :: "addr \<Rightarrow> bool" where
  "addr_Is4In6 a = (case a of V6 w _ \<Rightarrow> drop_bit 32 w = 65535 | _ \<Rightarrow> False)"

definition addr_Unmap :: "addr \<Rightarrow> addr" where
  "addr_Unmap a = (case a of V6 w _ \<Rightarrow> if drop_bit 32 w = 65535 then V4 (ucast w) else a | _ \<Rightarrow> a)"

definition addr_IsUnspecified :: "addr \<Rightarrow> bool" where
  "addr_IsUnspecified a = (a = V4 0 \<or> a = V6 0 '''')"

definition addr_IsLoopback :: "addr \<Rightarrow> bool" where
  "addr_IsLoopback a = (case addr_Unmap a of V4 w \<Rightarrow> drop_bit 24 w = 127 | V6 w _ \<Rightarrow> w = 1 | _ \<Rightarrow> False)"

definition addr_IsMulticast :: "addr \<Rightarrow> bool" where
  "addr_IsMulticast a = (case addr_Unmap a of V4 w \<Rightarrow> drop_bit 28 w = 14 | V6 w _ \<Rightarrow> drop_bit 120 w = 255 | _ \<Rightarrow> False)"

definition addr_IsLinkLocalUnicast :: "addr \<Rightarrow> bool" where
  "addr_IsLinkLocalUnicast a = (case addr_Unmap a of V4 w \<Rightarrow> drop_bit 16 w = 43518 | V6 w _ \<Rightarrow> drop_bit 118 w = 1018 | _ \<Rightarrow> False)"

definition addr_IsGlobalUnicast :: "addr \<Rightarrow> bool" where
  "addr_IsGlobalUnicast a =
     (if a = Addr_zero then False
      else if addr_Unmap a = V4 0 \<or> addr_Unmap a = V4 (- 1) then False
      else addr_Unmap a \<noteq> V6 0 [] \<and> \<not> addr_IsLoopback a \<and> \<not> addr_IsMulticast a \<and> \<not> addr_IsLinkLocalUnicast a)"

definition addr_IsPrivate :: "addr \<Rightarrow> bool" where
  "addr_IsPrivate a = (case addr_Unmap a of
     V4 w \<Rightarrow> drop_bit 24 w = 10 \<or> drop_bit 20 w = 2753 \<or> drop_bit 16 w = 49320
   | V6 w _ \<Rightarrow> drop_bit 121 w = 126 | _ \<Rightarrow> False)"

text \<open>\<^verbatim>\<open>PrefixFrom\<close>, \<^verbatim>\<open>IsValid\<close>, \<^verbatim>\<open>Masked\<close>, \<^verbatim>\<open>Contains\<close>, \<^verbatim>\<open>Overlaps\<close>.\<close>

definition prefix_from :: "addr \<Rightarrow> int \<Rightarrow> prefix" where
  "prefix_from a bits =
     \<lparr>pf_addr = (case a of V6 w _ \<Rightarrow> V6 w '''' | _ \<Rightarrow> a),
      pf_bits = (if a = Addr_zero \<or> bits < 0 \<or> bits > addr_BitLen a then -1 else bits)\<rparr>"

definition prefix_IsValid :: "prefix \<Rightarrow> bool" where
  "prefix_IsValid p \<longleftrightarrow> pf_addr p \<noteq> Addr_zero \<and> 0 \<le> pf_bits p \<and> pf_bits p \<le> addr_BitLen (pf_addr p)"

definition keep4 :: "int \<Rightarrow> 32 word \<Rightarrow> 32 word" where
  "keep4 b w = drop_bit (32 - nat b) w"

definition keep6 :: "int \<Rightarrow> 128 word \<Rightarrow> 128 word" where
  "keep6 b w = drop_bit (128 - nat b) w"

definition prefix_Masked :: "prefix \<Rightarrow> prefix" where
  "prefix_Masked p =
     (if \<not> prefix_IsValid p then prefix_zero
      else p\<lparr>pf_addr := (case pf_addr p of
             V4 w \<Rightarrow> V4 (push_bit (32 - nat (pf_bits p)) (keep4 (pf_bits p) w))
           | V6 w z \<Rightarrow> V6 (push_bit (128 - nat (pf_bits p)) (keep6 (pf_bits p) w)) ''''
           | Addr_zero \<Rightarrow> Addr_zero)\<rparr>)"

definition prefix_Contains :: "prefix \<Rightarrow> addr \<Rightarrow> bool" where
  "prefix_Contains p a =
     (prefix_IsValid p \<and> addr_Zone a = '''' \<and>
      (case (pf_addr p, a) of
         (V4 w, V4 v) \<Rightarrow> keep4 (pf_bits p) w = keep4 (pf_bits p) v
       | (V6 w _, V6 v _) \<Rightarrow> keep6 (pf_bits p) w = keep6 (pf_bits p) v
       | _ \<Rightarrow> False))"

definition prefix_Overlaps :: "prefix \<Rightarrow> prefix \<Rightarrow> bool" where
  "prefix_Overlaps p q =
     (if \<not> prefix_IsValid p \<or> \<not> prefix_IsValid q then False
      else if p = q then True
      else let m = min (pf_bits p) (pf_bits q) in
        (case (pf_addr p, pf_addr q) of
           (V4 w, V4 v) \<Rightarrow> m = 0 \<or> keep4 m w = keep4 m v
         | (V6 w _, V6 v _) \<Rightarrow> m = 0 \<or> keep6 m w = keep6 m v
         | _ \<Rightarrow> False))"

section \<open>Parsing\<close>

definition parse_error :: "'a result" where
  "parse_error = Inl (Error_New ''unable to parse IP'')"

definition dig :: "char \<Rightarrow> int" where
  "dig c = of_char c - 48"

text \<open>
  \<^verbatim>\<open>parseIPv4Fields\<close>: the octet value, its number of digits and the octets read so far; \<open>prev\<close> is
  the character before, absent at the start.
\<close>

fun ipv4_fields :: "int \<Rightarrow> nat \<Rightarrow> int list \<Rightarrow> char option \<Rightarrow> string \<Rightarrow> int list result" where
  "ipv4_fields val digits fs prev [] =
     (if length fs < 3 then parse_error else Inr (fs @ [val]))"
| "ipv4_fields val digits fs prev (c # cs) =
     (if is_digit c then
        if digits = 1 \<and> val = 0 then parse_error
        else if val * 10 + dig c > 255 then parse_error
        else ipv4_fields (val * 10 + dig c) (digits + 1) fs (Some c) cs
      else if c = CHR ''.'' then
        if prev = None \<or> cs = [] \<or> prev = Some (CHR ''.'') then parse_error
        else if length fs = 3 then parse_error
        else ipv4_fields 0 0 (fs @ [val]) (Some c) cs
      else parse_error)"

definition octets :: "int list \<Rightarrow> int" where
  "octets xs = foldl (\<lambda>a b. a * 256 + b) 0 xs"

definition parseIPv4 :: "string \<Rightarrow> addr result" where
  "parseIPv4 s = bind_result (ipv4_fields 0 0 [] None s) (\<lambda>f. Inr (V4 (word_of_int (octets f))))"

definition hex_value :: "char \<Rightarrow> int option" where
  "hex_value c =
     (if is_digit c then Some (dig c)
      else if CHR ''a'' \<le> c \<and> c \<le> CHR ''f'' then Some (of_char c - 97 + 10)
      else if CHR ''A'' \<le> c \<and> c \<le> CHR ''F'' then Some (of_char c - 65 + 10)
      else None)"

text \<open>The hexadecimal group at the front: its value and number of digits; more than four digits fail.\<close>

fun hex_group :: "int \<Rightarrow> nat \<Rightarrow> string \<Rightarrow> (int \<times> nat) result" where
  "hex_group acc off [] = Inr (acc, off)"
| "hex_group acc off (c # cs) =
     (case hex_value c of
        None \<Rightarrow> Inr (acc, off)
      | Some v \<Rightarrow> if off > 3 then parse_error else hex_group (acc * 16 + v) (off + 1) cs)"

text \<open>
  The loop of \<^verbatim>\<open>parseIPv6\<close>: the 16-bit groups read, the position of the ellipsis in groups, the
  rest of the text. Eight groups are the most the loop reads.
\<close>

function ipv6_loop :: "int list \<Rightarrow> nat option \<Rightarrow> string \<Rightarrow> (int list \<times> nat option \<times> string) result" where
  "ipv6_loop gs el s =
     (if length gs \<ge> 8 then Inr (gs, el, s)
      else case hex_group 0 0 s of
        Inl e \<Rightarrow> Inl e
      | Inr (acc, off) \<Rightarrow>
          if off = 0 then parse_error
          else if off < length s \<and> s ! off = CHR ''.'' then
            if el = None \<and> length gs \<noteq> 6 then parse_error
            else if length gs + 2 > 8 then parse_error
            else bind_result (ipv4_fields 0 0 [] None s) (\<lambda>f.
              Inr (gs @ [f ! 0 * 256 + f ! 1, f ! 2 * 256 + f ! 3], el, ''''))
          else let gs' = gs @ [acc]; r = drop off s in
            if r = [] then Inr (gs', el, [])
            else if hd r \<noteq> CHR '':'' \<or> length r = 1 then parse_error
            else let t = tl r in
              if hd t = CHR '':'' then
                if el \<noteq> None then parse_error
                else if tl t = [] then Inr (gs', Some (length gs'), [])
                else ipv6_loop gs' (Some (length gs')) (tl t)
              else ipv6_loop gs' el t)"
  by pat_completeness auto
termination
  by (relation "measure (\<lambda>(gs, el, s). 8 - length gs)") auto

declare ipv6_loop.simps [simp del]

definition groups :: "int list \<Rightarrow> int" where
  "groups xs = foldl (\<lambda>a b. a * 65536 + b) 0 xs"

definition parseIPv6 :: "string \<Rightarrow> addr result" where
  "parseIPv6 input =
     (let s0 = takeWhile (\<lambda>c. c \<noteq> CHR ''%'') input;
          z = tl (dropWhile (\<lambda>c. c \<noteq> CHR ''%'') input)
      in if CHR ''%'' \<in> set input \<and> z = '''' then parse_error
         else let zone = (if CHR ''%'' \<in> set input then z else '''');
                  lead = take 2 s0 = ''::'';
                  s = (if lead then drop 2 s0 else s0)
              in if lead \<and> s = '''' then Inr (V6 0 zone)
                 else bind_result (ipv6_loop [] (if lead then Some 0 else None) s) (\<lambda>(gs, el, rest).
                   if rest \<noteq> [] then parse_error
                   else if length gs < 8 then
                     (case el of
                        None \<Rightarrow> parse_error
                      | Some k \<Rightarrow> Inr (V6 (word_of_int (groups (take k gs @ replicate (8 - length gs) 0 @ drop k gs))) zone))
                   else if el \<noteq> None then parse_error
                   else Inr (V6 (word_of_int (groups gs)) zone)))"

text \<open>\<^verbatim>\<open>ParseAddr\<close> looks for the first separator.\<close>

fun parse_by :: "string \<Rightarrow> string \<Rightarrow> addr result" where
  "parse_by s [] = parse_error"
| "parse_by s (c # cs) =
     (if c = CHR ''.'' then parseIPv4 s
      else if c = CHR '':'' then parseIPv6 s
      else if c = CHR ''%'' then parse_error
      else parse_by s cs)"

definition ParseAddr :: "string \<Rightarrow> addr result" where
  "ParseAddr s = parse_by s s"

text \<open>\<^verbatim>\<open>strconv.Atoi\<close> on a string of digits; the caller excludes signs and bounds the result.\<close>

definition digits_value :: "string \<Rightarrow> int option" where
  "digits_value s = (if s = [] \<or> \<not> list_all is_digit s then None else Some (foldl (\<lambda>a c. a * 10 + dig c) 0 s))"

definition ParsePrefix :: "string \<Rightarrow> prefix result" where
  "ParsePrefix s =
     (if CHR ''/'' \<notin> set s then parse_error
      else let bits_text = rev (takeWhile (\<lambda>c. c \<noteq> CHR ''/'') (rev s));
               addr_text = take (length s - length bits_text - 1) s
           in bind_result (ParseAddr addr_text) (\<lambda>a.
             if addr_Zone a \<noteq> '''' then parse_error
             else if length bits_text > 1 \<and> (hd bits_text < CHR ''1'' \<or> hd bits_text > CHR ''9'') then parse_error
             else case digits_value bits_text of
               None \<Rightarrow> parse_error
             | Some n \<Rightarrow> if n > addr_BitLen a then parse_error else Inr (prefix_from a n)))"

section \<open>Printing\<close>

fun dec_text :: "nat \<Rightarrow> string" where
  "dec_text n = (if n < 10 then [hex_digit n] else dec_text (n div 10) @ [hex_digit (n mod 10)])"

declare dec_text.simps [simp del]

fun hex_text :: "nat \<Rightarrow> string" where
  "hex_text n = (if n < 16 then [hex_digit n] else hex_text (n div 16) @ [hex_digit (n mod 16)])"

declare hex_text.simps [simp del]

definition string4 :: "32 word \<Rightarrow> string" where
  "string4 w = (let n = uint w in
     dec_text (nat (n div 2 ^ 24)) @ ''.'' @ dec_text (nat (n div 2 ^ 16 mod 256)) @ ''.'' @
     dec_text (nat (n div 2 ^ 8 mod 256)) @ ''.'' @ dec_text (nat (n mod 256)))"

definition group_list :: "128 word \<Rightarrow> nat list" where
  "group_list w = map (\<lambda>i. nat (uint w div 2 ^ (16 * (7 - i)) mod 65536)) [0..<8]"

text \<open>The longest run of at least two zero groups, the first of the longest ones: start and end.\<close>

definition zero_run :: "nat list \<Rightarrow> nat \<Rightarrow> nat" where
  "zero_run gs i = length (takeWhile (\<lambda>g. g = 0) (drop i gs))"

definition best_run :: "nat list \<Rightarrow> nat \<times> nat" where
  "best_run gs = foldl (\<lambda>(a, b) i. if zero_run gs i \<ge> 2 \<and> zero_run gs i > b - a then (i, i + zero_run gs i) else (a, b)) (255, 255) [0..<8]"

function string6_loop :: "nat list \<Rightarrow> nat \<Rightarrow> nat \<Rightarrow> nat \<Rightarrow> string" where
  "string6_loop gs a b i =
     (if i \<ge> 8 then ''''
      else if i = a \<and> a < b then
        (if b \<ge> 8 then ''::'' else ''::'' @ hex_text (gs ! b) @ string6_loop gs a b (b + 1))
      else (if i > 0 then '':'' else '''') @ hex_text (gs ! i) @ string6_loop gs a b (i + 1))"
  by pat_completeness auto
termination
  by (relation "measure (\<lambda>(gs, a, b, i). 8 - i)") auto

declare string6_loop.simps [simp del]

definition addr_String :: "addr \<Rightarrow> string" where
  "addr_String a = (case a of
     Addr_zero \<Rightarrow> ''invalid IP''
   | V4 w \<Rightarrow> string4 w
   | V6 w z \<Rightarrow>
       (if addr_Is4In6 a then ''::ffff:'' @ string4 (ucast w)
        else (case best_run (group_list w) of (x, y) \<Rightarrow> string6_loop (group_list w) x y 0)) @
       (if z = '''' then '''' else ''%'' @ z))"

definition prefix_String :: "prefix \<Rightarrow> string" where
  "prefix_String p =
     (if \<not> prefix_IsValid p then ''invalid Prefix''
      else addr_String (pf_addr p) @ ''/'' @ dec_text (nat (pf_bits p)))"

section \<open>Laws\<close>

lemma keep4_mono: "0 \<le> b \<Longrightarrow> b \<le> c \<Longrightarrow> c \<le> 32 \<Longrightarrow> keep4 c w = keep4 c v \<Longrightarrow> keep4 b w = keep4 b v"
proof -
  assume b: "0 \<le> b" "b \<le> c" "c \<le> 32" and eq: "keep4 c w = keep4 c v"
  have "drop_bit (32 - nat b) x = drop_bit (nat c - nat b) (drop_bit (32 - nat c) x)" for x :: "32 word"
    using b by (simp add: drop_bit_drop_bit nat_le_iff)
  then show ?thesis using eq unfolding keep4_def by presburger
qed

lemma keep6_mono: "0 \<le> b \<Longrightarrow> b \<le> c \<Longrightarrow> c \<le> 128 \<Longrightarrow> keep6 c w = keep6 c v \<Longrightarrow> keep6 b w = keep6 b v"
proof -
  assume b: "0 \<le> b" "b \<le> c" "c \<le> 128" and eq: "keep6 c w = keep6 c v"
  have "drop_bit (128 - nat b) x = drop_bit (nat c - nat b) (drop_bit (128 - nat c) x)" for x :: "128 word"
    using b by (simp add: drop_bit_drop_bit nat_le_iff)
  then show ?thesis using eq unfolding keep6_def by presburger
qed

text \<open>Two prefixes that contain a common address overlap.\<close>

lemma Contains_Overlaps:
  assumes "prefix_Contains p a" and "prefix_Contains q a"
  shows "prefix_Overlaps p q"
proof -
  have v: "prefix_IsValid p" "prefix_IsValid q" using assms by (simp_all add: prefix_Contains_def)
  define m where "m = min (pf_bits p) (pf_bits q)"
  show ?thesis
  proof (cases a)
    case (V4 x)
    then obtain w u where "pf_addr p = V4 w" "pf_addr q = V4 u" "keep4 (pf_bits p) w = keep4 (pf_bits p) x"
      "keep4 (pf_bits q) u = keep4 (pf_bits q) x"
      using assms by (auto simp: prefix_Contains_def split: addr.splits)
    moreover from this v have "keep4 m w = keep4 m x" "keep4 m u = keep4 m x"
      using keep4_mono [of m "pf_bits p" w x] keep4_mono [of m "pf_bits q" u x]
      by (simp_all add: m_def prefix_IsValid_def addr_BitLen_def)
    ultimately show ?thesis using v by (simp add: prefix_Overlaps_def m_def)
  next
    case (V6 x z)
    then obtain w u zw zu where "pf_addr p = V6 w zw" "pf_addr q = V6 u zu" "keep6 (pf_bits p) w = keep6 (pf_bits p) x"
      "keep6 (pf_bits q) u = keep6 (pf_bits q) x"
      using assms by (auto simp: prefix_Contains_def split: addr.splits)
    moreover from this v have "keep6 m w = keep6 m x" "keep6 m u = keep6 m x"
      using keep6_mono [of m "pf_bits p" w x] keep6_mono [of m "pf_bits q" u x]
      by (simp_all add: m_def prefix_IsValid_def addr_BitLen_def)
    ultimately show ?thesis using v by (simp add: prefix_Overlaps_def m_def)
  qed (use assms in \<open>simp add: prefix_Contains_def split: addr.splits\<close>)
qed

end
