(* ===== verification/Routing_Policy.thy ===== *)
theory Routing_Policy
  imports Netip
begin

text \<open>
  The destination classifier of \<^verbatim>\<open>internal/routing/policy.go\<close> with the public-address policy of
  \<^verbatim>\<open>internal/platform/public.go\<close>: canonical domains and prefixes, rules, and the decision between
  direct and bypass routing.
\<close>

section \<open>Strings\<close>

definition hasSuffix :: "string \<Rightarrow> string \<Rightarrow> bool" where
  "hasSuffix s t \<longleftrightarrow> length t \<le> length s \<and> drop (length s - length t) s = t"

definition trimDot :: "string \<Rightarrow> string" where
  "trimDot s = (if s \<noteq> [] \<and> last s = CHR ''.'' then butlast s else s)"

definition lower_char :: "char \<Rightarrow> char" where
  "lower_char c = (if is_upper c then char_of (of_char c + (32 :: nat)) else c)"

text \<open>
  \<^verbatim>\<open>strings.ToLower\<close> on UTF-8 text. Of the code points beyond ASCII only two have an ASCII lower
  case: the Kelvin sign (bytes 226 132 170), which becomes \<open>k\<close>, and the dotted capital I (196 176),
  which becomes \<open>i\<close>. Any other stays beyond ASCII; the functions here reject such text whatever
  the exact code point is, so it is left as it stands.
\<close>

fun to_lower :: "string \<Rightarrow> string" where
  "to_lower [] = []"
| "to_lower [a] = [lower_char a]"
| "to_lower [a, b] =
     (if of_char a = (196 :: nat) \<and> of_char b = (176 :: nat) then ''i'' else [lower_char a, lower_char b])"
| "to_lower (a # b # c # r) =
     (if of_char a = (226 :: nat) \<and> of_char b = (132 :: nat) \<and> of_char c = (170 :: nat) then CHR ''k'' # to_lower r
      else if of_char a = (196 :: nat) \<and> of_char b = (176 :: nat) then CHR ''i'' # to_lower (c # r)
      else lower_char a # to_lower (b # c # r))"

definition is_space :: "char \<Rightarrow> bool" where
  "is_space c \<longleftrightarrow> (of_char c :: nat) \<in> {9, 10, 11, 12, 13, 32}"

definition spaced :: "string \<Rightarrow> bool" where
  "spaced s \<longleftrightarrow> s \<noteq> [] \<and> (is_space (hd s) \<or> is_space (last s))"

text \<open>\<^verbatim>\<open>strings.Split(s, ".")\<close>.\<close>

fun split_dots :: "string \<Rightarrow> string list" where
  "split_dots [] = [[]]"
| "split_dots (c # cs) =
     (if c = CHR ''.'' then [] # split_dots cs
      else case split_dots cs of l # ls \<Rightarrow> (c # l) # ls | [] \<Rightarrow> [[c]])"

section \<open>Domains\<close>

definition label_char :: "char \<Rightarrow> bool" where
  "label_char c \<longleftrightarrow> is_lower c \<or> is_digit c \<or> c = CHR ''-'' \<or> c = CHR ''_''"

definition label_error :: "string \<Rightarrow> go_error option" where
  "label_error l =
     (if length l = 0 \<or> length l > 63 \<or> hd l = CHR ''-'' \<or> last l = CHR ''-'' then Some (Error_New ''invalid domain label'')
      else if \<not> list_all label_char l then Some (Error_New ''domain must use ASCII DNS labels'')
      else None)"

fun first_error :: "go_error option list \<Rightarrow> go_error option" where
  "first_error [] = None"
| "first_error (Some e # es) = Some e"
| "first_error (None # es) = first_error es"

definition CanonicalDomain :: "string \<Rightarrow> string result" where
  "CanonicalDomain value =
     (let d = to_lower (trimDot value) in
      if length d = 0 \<or> length d > 253 \<or> spaced d then Inl (Error_New ''invalid domain'')
      else if \<not> isl (ParseAddr d) then Inl (Error_New ''domain cannot be an IP literal'')
      else case first_error (map label_error (split_dots d)) of Some e \<Rightarrow> Inl e | None \<Rightarrow> Inr d)"

definition local_suffixes :: "string list" where
  "local_suffixes = [''.localhost'', ''.local'', ''.lan'', ''.home.arpa'', ''.in-addr.arpa'', ''.ip6.arpa'']"

definition LocalDomain :: "string \<Rightarrow> bool" where
  "LocalDomain value =
     (let d = to_lower (trimDot value) in
      CHR ''.'' \<notin> set d \<or> d = ''localhost'' \<or> d = ''local'' \<or> d = ''lan'' \<or> d = ''home.arpa'' \<or>
      list_ex (hasSuffix d) local_suffixes)"

section \<open>Prefixes\<close>

definition must_parse :: "string \<Rightarrow> prefix" where
  "must_parse s = (case ParsePrefix s of Inl _ \<Rightarrow> prefix_zero | Inr p \<Rightarrow> p)"

definition nonPublicPrefixes :: "prefix list" where
  "nonPublicPrefixes = map must_parse
     [''0.0.0.0/8'', ''10.0.0.0/8'', ''100.64.0.0/10'', ''127.0.0.0/8'', ''169.254.0.0/16'', ''172.16.0.0/12'',
      ''192.0.0.0/24'', ''192.0.2.0/24'', ''192.168.0.0/16'', ''198.18.0.0/15'', ''198.51.100.0/24'', ''203.0.113.0/24'',
      ''224.0.0.0/4'', ''240.0.0.0/4'', ''::/96'', ''64:ff9b::/96'', ''64:ff9b:1::/48'', ''100::/64'', ''2001::/23'',
      ''2001:db8::/32'', ''2002::/16'', ''3fff::/20'', ''fec0::/10'', ''fc00::/7'', ''fe80::/10'', ''ff00::/8'']"

definition PublicAddress :: "addr \<Rightarrow> bool" where
  "PublicAddress a0 =
     (let ip = addr_Unmap a0 in
      if \<not> addr_IsValid ip \<or> addr_Zone ip \<noteq> '''' \<or> \<not> addr_IsGlobalUnicast ip \<or> addr_IsPrivate ip \<or>
         addr_IsLoopback ip \<or> addr_IsLinkLocalUnicast ip
      then False
      else \<not> list_ex (\<lambda>p. prefix_Contains p ip) nonPublicPrefixes)"

definition reserved :: "prefix list" where
  "reserved = map must_parse
     [''0.0.0.0/8'', ''10.0.0.0/8'', ''100.64.0.0/10'', ''127.0.0.0/8'', ''169.254.0.0/16'', ''172.16.0.0/12'',
      ''192.0.0.0/24'', ''192.0.2.0/24'', ''192.168.0.0/16'', ''198.18.0.0/15'', ''198.51.100.0/24'', ''203.0.113.0/24'',
      ''224.0.0.0/4'', ''240.0.0.0/4'', ''::/96'', ''::ffff:0:0/96'', ''64:ff9b::/96'', ''64:ff9b:1::/48'', ''100::/64'',
      ''2001::/23'', ''2001:db8::/32'', ''2002::/16'', ''3fff::/20'', ''fec0::/10'', ''fc00::/7'', ''fe80::/10'', ''ff00::/8'']"

definition CanonicalPrefix :: "string \<Rightarrow> prefix result" where
  "CanonicalPrefix value =
     bind_result
       (case ParsePrefix value of
          Inr p \<Rightarrow> Inr p
        | Inl _ \<Rightarrow>
            (case ParseAddr value of
               Inl _ \<Rightarrow> Inl (Error_New ''invalid address prefix'')
             | Inr a \<Rightarrow> if addr_Zone a \<noteq> '''' \<or> addr_Is4In6 a then Inl (Error_New ''invalid address prefix'')
                        else Inr (prefix_from a (addr_BitLen a))))
       (\<lambda>p. if addr_Is4In6 (pf_addr p) \<or> p \<noteq> prefix_Masked p \<or> \<not> PublicAddress (pf_addr p)
            then Inl (Error_New ''prefix must be canonical and public'')
            else if list_ex (prefix_Overlaps p) reserved then Inl (Error_New ''prefix includes special-use addresses'')
            else Inr p)"

section \<open>Rules and decisions\<close>

record routing_rule =
  rr_Action :: string
  rr_Domain :: string
  rr_IncludeSubdomains :: bool
  rr_CIDR :: string

definition ValidateRule :: "routing_rule \<Rightarrow> go_error option" where
  "ValidateRule r =
     (if rr_Action r \<noteq> ''direct'' \<and> rr_Action r \<noteq> ''bypass'' then Some (Error_New ''routing action must be direct or bypass'')
      else if (rr_Domain r = '''') = (rr_CIDR r = '''')
      then Some (Error_New ''routing rule requires exactly one domain or address prefix'')
      else if rr_Domain r \<noteq> '''' then
        (case CanonicalDomain (rr_Domain r) of
           Inl e \<Rightarrow> Some e
         | Inr d \<Rightarrow> if LocalDomain d then Some (Error_New ''local domains cannot be overridden'') else None)
      else if rr_IncludeSubdomains r then Some (Error_New ''subdomain matching requires a domain'')
      else (case CanonicalPrefix (rr_CIDR r) of Inl e \<Rightarrow> Some e | Inr _ \<Rightarrow> None))"

record registry_snapshot =
  rs_Generation :: nat
  rs_CreatedAt :: gotime
  rs_Domains :: "string list"
  rs_CIDRs :: "string list"
  rs_RejectedDomains :: int

record route_decision =
  rd_Action :: string
  rd_Reason :: string

record classifier =
  cl_rules :: "routing_rule list"
  cl_domains :: "string list"
  cl_prefixes :: "prefix list"
  cl_learned :: "(string, gotime) gomap"

definition canonical_rule :: "routing_rule \<Rightarrow> routing_rule result" where
  "canonical_rule r =
     (case ValidateRule r of
        Some e \<Rightarrow> Inl e
      | None \<Rightarrow>
          if rr_Domain r \<noteq> '''' then bind_result (CanonicalDomain (rr_Domain r)) (\<lambda>d. Inr (r\<lparr>rr_Domain := d\<rparr>))
          else bind_result (CanonicalPrefix (rr_CIDR r)) (\<lambda>p. Inr (r\<lparr>rr_CIDR := prefix_String p\<rparr>)))"

text \<open>Run a fallible function over a list and stop at the first error.\<close>

fun map_result :: "('a \<Rightarrow> 'b result) \<Rightarrow> 'a list \<Rightarrow> 'b list result" where
  "map_result f [] = Inr []"
| "map_result f (x # xs) = bind_result (f x) (\<lambda>y. bind_result (map_result f xs) (\<lambda>ys. Inr (y # ys)))"

definition listed_domain :: "string \<Rightarrow> string \<Rightarrow> string result" where
  "listed_domain kind d =
     (case CanonicalDomain d of
        Inl _ \<Rightarrow> Inl (Error_New (''invalid '' @ kind @ '' domain''))
      | Inr v \<Rightarrow> if LocalDomain v then Inl (Error_New (''invalid '' @ kind @ '' domain'')) else Inr v)"

definition NewClassifier :: "routing_rule list \<Rightarrow> registry_snapshot \<Rightarrow> (string, gotime) gomap \<Rightarrow> classifier result" where
  "NewClassifier rules snap learned =
     bind_result (map_result canonical_rule rules) (\<lambda>rs.
     bind_result (map_result (listed_domain ''listed'') (rs_Domains snap)) (\<lambda>ds.
     bind_result (map_result CanonicalPrefix (rs_CIDRs snap)) (\<lambda>ps.
     bind_result (map_result (\<lambda>(d, expiry). bind_result (listed_domain ''learned'' d) (\<lambda>v. Inr (v, expiry))) learned) (\<lambda>ls.
       Inr \<lparr>cl_rules = rs, cl_domains = ds, cl_prefixes = ps, cl_learned = foldl (\<lambda>m (d, e). AList.update d e m) [] ls\<rparr>))))"

definition rule_matches :: "routing_rule \<Rightarrow> string \<Rightarrow> addr \<Rightarrow> bool" where
  "rule_matches r d ip =
     (if rr_CIDR r \<noteq> '''' \<and> addr_IsValid ip
      then prefix_Contains (must_parse (rr_CIDR r)) (addr_Unmap ip)
      else rr_Domain r \<noteq> '''' \<and> d \<noteq> '''' \<and>
        (rr_Domain r = d \<or> rr_IncludeSubdomains r \<and> hasSuffix d (''.'' @ rr_Domain r)))"

definition local_destination :: "string \<Rightarrow> addr \<Rightarrow> bool" where
  "local_destination d ip \<longleftrightarrow> (d \<noteq> '''' \<and> LocalDomain d) \<or> (addr_IsValid ip \<and> \<not> PublicAddress ip)"

definition domain_key :: "string \<Rightarrow> string" where
  "domain_key domain = (case CanonicalDomain domain of Inl _ \<Rightarrow> '''' | Inr d \<Rightarrow> d)"

definition Decide :: "classifier \<Rightarrow> string \<Rightarrow> addr \<Rightarrow> gotime \<Rightarrow> route_decision" where
  "Decide c domain ip now =
     (let d = domain_key domain in
      if local_destination d ip then \<lparr>rd_Action = ''direct'', rd_Reason = ''Local destination''\<rparr>
      else case find (\<lambda>(action, r). rr_Action r = action \<and> rule_matches r d ip)
                  (map (Pair ''direct'') (cl_rules c) @ map (Pair ''bypass'') (cl_rules c)) of
        Some (action, _) \<Rightarrow> \<lparr>rd_Action = action, rd_Reason = ''Manual exception''\<rparr>
      | None \<Rightarrow>
          if d \<in> set (cl_domains c) then \<lparr>rd_Action = ''bypass'', rd_Reason = ''Antifilter registry''\<rparr>
          else if list_ex (\<lambda>p. prefix_Contains p (addr_Unmap ip)) (cl_prefixes c)
          then \<lparr>rd_Action = ''bypass'', rd_Reason = ''Antifilter registry''\<rparr>
          else if (case map_of (cl_learned c) d of None \<Rightarrow> False | Some expiry \<Rightarrow> now < expiry)
          then \<lparr>rd_Action = ''bypass'', rd_Reason = ''Detected restriction''\<rparr>
          else \<lparr>rd_Action = ''direct'', rd_Reason = ''Default direct''\<rparr>)"

text \<open>\<^verbatim>\<open>uniqueSorted\<close>: sort, then keep each value once.\<close>

fun unique_adjacent :: "string list \<Rightarrow> string list" where
  "unique_adjacent (x # y # r) = (if x = y then unique_adjacent (y # r) else x # unique_adjacent (y # r))"
| "unique_adjacent xs = xs"

definition uniqueSorted :: "string list \<Rightarrow> string list" where
  "uniqueSorted values = unique_adjacent (sort values)"

end
