(* ===== verification/Routing_Props.thy ===== *)
theory Routing_Props
  imports Routing_Policy
begin

text \<open>
  What the classifier guarantees: an accepted prefix covers public addresses only, canonical
  domains are stable, and the order in which rules, registry and learned domains decide.
\<close>

section \<open>The address tables\<close>

lemma reserved_eq: "reserved =
    [\<lparr>pf_addr = V4 0, pf_bits = 8\<rparr>,
     \<lparr>pf_addr = V4 167772160, pf_bits = 8\<rparr>,
     \<lparr>pf_addr = V4 1681915904, pf_bits = 10\<rparr>,
     \<lparr>pf_addr = V4 2130706432, pf_bits = 8\<rparr>,
     \<lparr>pf_addr = V4 2851995648, pf_bits = 16\<rparr>,
     \<lparr>pf_addr = V4 2886729728, pf_bits = 12\<rparr>,
     \<lparr>pf_addr = V4 3221225472, pf_bits = 24\<rparr>,
     \<lparr>pf_addr = V4 3221225984, pf_bits = 24\<rparr>,
     \<lparr>pf_addr = V4 3232235520, pf_bits = 16\<rparr>,
     \<lparr>pf_addr = V4 3323068416, pf_bits = 15\<rparr>,
     \<lparr>pf_addr = V4 3325256704, pf_bits = 24\<rparr>,
     \<lparr>pf_addr = V4 3405803776, pf_bits = 24\<rparr>,
     \<lparr>pf_addr = V4 3758096384, pf_bits = 4\<rparr>,
     \<lparr>pf_addr = V4 4026531840, pf_bits = 4\<rparr>,
     \<lparr>pf_addr = V6 0 [], pf_bits = 96\<rparr>,
     \<lparr>pf_addr = V6 281470681743360 [], pf_bits = 96\<rparr>,
     \<lparr>pf_addr = V6 524413980667603649783483181312245760 [], pf_bits = 96\<rparr>,
     \<lparr>pf_addr = V6 524413980668812575603097810486951936 [], pf_bits = 48\<rparr>,
     \<lparr>pf_addr = V6 1329227995784915872903807060280344576 [], pf_bits = 64\<rparr>,
     \<lparr>pf_addr = V6 42540488161975842760550356425300246528 [], pf_bits = 23\<rparr>,
     \<lparr>pf_addr = V6 42540766411282592856903984951653826560 [], pf_bits = 32\<rparr>,
     \<lparr>pf_addr = V6 42545680458834377588178886921629466624 [], pf_bits = 16\<rparr>,
     \<lparr>pf_addr = V6 85065399433376081038215121361612832768 [], pf_bits = 20\<rparr>,
     \<lparr>pf_addr = V6 338620831926207318622244848606417780736 [], pf_bits = 10\<rparr>,
     \<lparr>pf_addr = V6 334965454937798799971759379190646833152 [], pf_bits = 7\<rparr>,
     \<lparr>pf_addr = V6 338288524927261089654018896841347694592 [], pf_bits = 10\<rparr>,
     \<lparr>pf_addr = V6 338953138925153547590470800371487866880 [], pf_bits = 8\<rparr>]"
  by code_simp

lemma nonPublicPrefixes_eq: "nonPublicPrefixes =
    [\<lparr>pf_addr = V4 0, pf_bits = 8\<rparr>,
     \<lparr>pf_addr = V4 167772160, pf_bits = 8\<rparr>,
     \<lparr>pf_addr = V4 1681915904, pf_bits = 10\<rparr>,
     \<lparr>pf_addr = V4 2130706432, pf_bits = 8\<rparr>,
     \<lparr>pf_addr = V4 2851995648, pf_bits = 16\<rparr>,
     \<lparr>pf_addr = V4 2886729728, pf_bits = 12\<rparr>,
     \<lparr>pf_addr = V4 3221225472, pf_bits = 24\<rparr>,
     \<lparr>pf_addr = V4 3221225984, pf_bits = 24\<rparr>,
     \<lparr>pf_addr = V4 3232235520, pf_bits = 16\<rparr>,
     \<lparr>pf_addr = V4 3323068416, pf_bits = 15\<rparr>,
     \<lparr>pf_addr = V4 3325256704, pf_bits = 24\<rparr>,
     \<lparr>pf_addr = V4 3405803776, pf_bits = 24\<rparr>,
     \<lparr>pf_addr = V4 3758096384, pf_bits = 4\<rparr>,
     \<lparr>pf_addr = V4 4026531840, pf_bits = 4\<rparr>,
     \<lparr>pf_addr = V6 0 [], pf_bits = 96\<rparr>,
     \<lparr>pf_addr = V6 524413980667603649783483181312245760 [], pf_bits = 96\<rparr>,
     \<lparr>pf_addr = V6 524413980668812575603097810486951936 [], pf_bits = 48\<rparr>,
     \<lparr>pf_addr = V6 1329227995784915872903807060280344576 [], pf_bits = 64\<rparr>,
     \<lparr>pf_addr = V6 42540488161975842760550356425300246528 [], pf_bits = 23\<rparr>,
     \<lparr>pf_addr = V6 42540766411282592856903984951653826560 [], pf_bits = 32\<rparr>,
     \<lparr>pf_addr = V6 42545680458834377588178886921629466624 [], pf_bits = 16\<rparr>,
     \<lparr>pf_addr = V6 85065399433376081038215121361612832768 [], pf_bits = 20\<rparr>,
     \<lparr>pf_addr = V6 338620831926207318622244848606417780736 [], pf_bits = 10\<rparr>,
     \<lparr>pf_addr = V6 334965454937798799971759379190646833152 [], pf_bits = 7\<rparr>,
     \<lparr>pf_addr = V6 338288524927261089654018896841347694592 [], pf_bits = 10\<rparr>,
     \<lparr>pf_addr = V6 338953138925153547590470800371487866880 [], pf_bits = 8\<rparr>]"
  by code_simp

lemma nonPublic_reserved: "set nonPublicPrefixes \<subseteq> set reserved"
  unfolding nonPublicPrefixes_def reserved_def by auto

text \<open>An address outside every reserved prefix is public.\<close>

lemma Contains4: "0 \<le> b \<Longrightarrow> b \<le> 32 \<Longrightarrow> prefix_Contains \<lparr>pf_addr = V4 w, pf_bits = b\<rparr> (V4 v) \<longleftrightarrow> keep4 b w = keep4 b v"
  by (simp add: prefix_Contains_def prefix_IsValid_def addr_BitLen_def addr_Zone_def)

lemma Contains6: "0 \<le> b \<Longrightarrow> b \<le> 128 \<Longrightarrow> prefix_Contains \<lparr>pf_addr = V6 w [], pf_bits = b\<rparr> (V6 v []) \<longleftrightarrow> keep6 b w = keep6 b v"
  by (simp add: prefix_Contains_def prefix_IsValid_def addr_BitLen_def addr_Zone_def)

lemma public4:
  assumes out: "list_all (\<lambda>p. \<not> prefix_Contains p (V4 v)) reserved"
  shows "PublicAddress (V4 v)"
proof -
  have n: "drop_bit 24 v \<noteq> 0" "drop_bit 24 v \<noteq> 10" "drop_bit 24 v \<noteq> 127" "drop_bit 16 v \<noteq> 43518" "drop_bit 20 v \<noteq> 2753"
    "drop_bit 16 v \<noteq> 49320" "drop_bit 28 v \<noteq> 14" "drop_bit 28 v \<noteq> 15"
    using out unfolding reserved_eq by (simp_all add: Contains4 keep4_def)
  have "v \<noteq> 0" "v \<noteq> - 1"
    using n(1) n(8) by (auto simp: drop_bit_eq_div)
  then show ?thesis
    using n out nonPublic_reserved
    by (auto simp: PublicAddress_def addr_IsValid_def addr_Zone_def addr_IsGlobalUnicast_def addr_IsLoopback_def addr_IsMulticast_def
        addr_IsLinkLocalUnicast_def addr_IsPrivate_def addr_Unmap_def list_ex_iff list_all_iff)
qed

lemma public6:
  assumes out: "list_all (\<lambda>p. \<not> prefix_Contains p (V6 v [])) reserved"
  shows "PublicAddress (V6 v [])"
proof -
  have n: "drop_bit 32 v \<noteq> 0" "drop_bit 32 v \<noteq> 65535" "drop_bit 118 v \<noteq> 1018" "drop_bit 121 v \<noteq> 126" "drop_bit 120 v \<noteq> 255"
    using out unfolding reserved_eq by (simp_all add: Contains6 keep6_def)
  have "v \<noteq> 0" "v \<noteq> 1"
    using n(1) by auto
  then show ?thesis
    using n out nonPublic_reserved
    by (auto simp: PublicAddress_def addr_IsValid_def addr_Zone_def addr_IsGlobalUnicast_def addr_IsLoopback_def addr_IsMulticast_def
        addr_IsLinkLocalUnicast_def addr_IsPrivate_def addr_Unmap_def list_ex_iff list_all_iff)
qed

lemma Contains_zone: "prefix_Contains p (V6 v z) \<Longrightarrow> z = []"
  by (simp add: prefix_Contains_def addr_Zone_def)

text \<open>
  C10: a prefix that \<^verbatim>\<open>CanonicalPrefix\<close> accepts, from whatever text, contains public addresses only:
  none of them is private, loopback, link-local, multicast, unspecified, mapped or in any other
  special-use range, although the function looks at the base address and the overlap of prefixes.
\<close>

theorem canonical_prefix_covers_only_public:
  assumes "CanonicalPrefix value = Inr p" and "prefix_Contains p ip"
  shows "PublicAddress ip"
proof -
  have "\<not> list_ex (prefix_Overlaps p) reserved"
    using assms(1) by (auto simp: CanonicalPrefix_def split: if_splits)
  then have out: "list_all (\<lambda>q. \<not> prefix_Contains q ip) reserved"
    using Contains_Overlaps [OF assms(2)] by (auto simp: list_ex_iff list_all_iff)
  show ?thesis
  proof (cases ip)
    case Addr_zero
    then show ?thesis using assms(2) by (simp add: prefix_Contains_def split: addr.splits)
  next
    case (V4 v)
    then show ?thesis using public4 out by simp
  next
    case (V6 v z)
    then show ?thesis using public6 out Contains_zone assms(2) by blast
  qed
qed

theorem canonical_prefix_covers_only_public_witness:
  "CanonicalPrefix ''8.8.8.0/24'' = Inr \<lparr>pf_addr = V4 134744064, pf_bits = 24\<rparr> \<and> PublicAddress (V4 134744072)"
proof -
  have "CanonicalPrefix ''8.8.8.0/24'' = Inr \<lparr>pf_addr = V4 134744064, pf_bits = 24\<rparr>"
    by code_simp
  moreover have "prefix_Contains \<lparr>pf_addr = V4 134744064, pf_bits = 24\<rparr> (V4 134744072)"
    by code_simp
  ultimately show ?thesis
    using canonical_prefix_covers_only_public by blast
qed

section \<open>Domains\<close>

definition plain :: "char \<Rightarrow> bool" where
  "plain c \<longleftrightarrow> label_char c \<or> c = CHR ''.''"

lemma plain_small: "plain c \<Longrightarrow> of_char c < (128 :: nat)"
  by (auto simp: plain_def label_char_def is_lower_def is_digit_def less_eq_char_def)

lemma plain_lower: "plain c \<Longrightarrow> lower_char c = c"
  by (auto simp: plain_def label_char_def is_lower_def is_digit_def is_upper_def less_eq_char_def lower_char_def)

lemma to_lower_plain: "list_all plain s \<Longrightarrow> to_lower s = s"
  by (induction s rule: to_lower.induct) (auto simp: plain_lower dest!: plain_small)

lemma split_dots_nonempty: "split_dots s \<noteq> []"
  by (induction s) (auto split: list.splits)

lemma split_dots_plain:
  assumes "\<forall>l \<in> set (split_dots s). list_all label_char l"
  shows "list_all plain s"
  using assms
proof (induction s)
  case Nil
  then show ?case by simp
next
  case (Cons c cs)
  then show ?case
    using split_dots_nonempty [of cs] by (cases "split_dots cs") (auto simp: plain_def split: if_splits)
qed

lemma split_dots_last: "s \<noteq> [] \<Longrightarrow> last s = CHR ''.'' \<Longrightarrow> last (split_dots s) = []"
proof (induction s)
  case Nil
  then show ?case by simp
next
  case (Cons c cs)
  show ?case
  proof (cases cs)
    case Nil
    then show ?thesis using Cons.prems by simp
  next
    case (Cons d ds)
    then have "last (split_dots cs) = []"
      using Cons.IH Cons.prems by simp
    moreover obtain l ls where ls: "split_dots cs = l # ls" using split_dots_nonempty [of cs] by (cases "split_dots cs") auto
    moreover have "ls \<noteq> []"
    proof
      assume "ls = []"
      then have "l = []" using \<open>last (split_dots cs) = []\<close> ls by simp
      then show False using ls Cons \<open>ls = []\<close> split_dots_nonempty [of ds] by (auto split: if_splits list.splits)
    qed
    ultimately show ?thesis by auto
  qed
qed

lemma first_error_None: "first_error es = None \<longleftrightarrow> (\<forall>e \<in> set es. e = None)"
  by (induction es rule: first_error.induct) auto

lemma CanonicalDomain_Inr:
  assumes "CanonicalDomain value = Inr d"
  shows "to_lower d = d" and "trimDot d = d" and "d = to_lower (trimDot value)" and "list_all plain d" and "d \<noteq> []"
proof -
  have d: "d = to_lower (trimDot value)" "d \<noteq> []" "\<forall>l \<in> set (split_dots d). label_error l = None"
    using assms by (auto simp: CanonicalDomain_def Let_def first_error_None split: if_splits option.splits)
  then have labels: "\<forall>l \<in> set (split_dots d). l \<noteq> [] \<and> list_all label_char l"
    by (fastforce simp: label_error_def split: if_splits)
  then show p: "list_all plain d" by (intro split_dots_plain) auto
  show "to_lower d = d" by (rule to_lower_plain [OF p])
  have "last d \<noteq> CHR ''.''"
    using split_dots_last [OF d(2)] labels last_in_set [OF split_dots_nonempty [of d]] by auto
  then show "trimDot d = d" by (simp add: trimDot_def)
  show "d = to_lower (trimDot value)" "d \<noteq> []" using d by simp_all
qed

lemma canonical_idem:
  assumes "CanonicalDomain value = Inr d"
  shows "CanonicalDomain d = Inr d"
proof -
  note d = CanonicalDomain_Inr [OF assms]
  have "to_lower (trimDot d) = to_lower (trimDot value)"
    using d(1-3) by metis
  then show ?thesis
    using assms unfolding CanonicalDomain_def by (simp only:)
qed

text \<open>
  C30: canonicalisation is stable, and the classifier sees only the canonical form: a domain and
  its canonical form (lower case, without the final dot) always get the same decision.
\<close>

theorem canonical_domain_stable:
  assumes "CanonicalDomain value = Inr d"
  shows "CanonicalDomain d = Inr d \<and> LocalDomain value = LocalDomain d \<and> Decide c value ip now = Decide c d ip now"
proof -
  note d = CanonicalDomain_Inr [OF assms]
  have "CanonicalDomain d = Inr d" by (rule canonical_idem [OF assms])
  then show ?thesis
    using d assms by (simp add: LocalDomain_def Decide_def domain_key_def)
qed

theorem canonical_domain_stable_witness:
  "CanonicalDomain ''WWW.Example.ORG.'' = Inr ''www.example.org'' \<and> CanonicalDomain ''www.example.org'' = Inr ''www.example.org''"
proof -
  have "CanonicalDomain ''WWW.Example.ORG.'' = Inr ''www.example.org''" by code_simp
  with canonical_domain_stable show ?thesis by blast
qed

lemma find_rules:
  "find (\<lambda>(action, r). rr_Action r = action \<and> rule_matches r d ip) (map (Pair a) rs) =
    map_option (Pair a) (find (\<lambda>r. rr_Action r = a \<and> rule_matches r d ip) rs)"
  by (induction rs) auto

lemma find_append: "find P (xs @ ys) = (case find P xs of None \<Rightarrow> find P ys | Some x \<Rightarrow> Some x)"
  by (induction xs) auto

text \<open>
  C20: when a destination is sent through the bypass. Local and non-public destinations never are;
  a matching direct rule wins over every bypass rule, the registry and what was detected; otherwise
  a matching bypass rule, a registered domain or prefix, or a domain whose detected restriction has
  not expired decides for the bypass. Everything else is direct.
\<close>

theorem decide_bypass_iff:
  "rd_Action (Decide c domain ip now) = ''bypass'' \<longleftrightarrow>
     \<not> local_destination (domain_key domain) ip \<and>
     (\<nexists>r. r \<in> set (cl_rules c) \<and> rr_Action r = ''direct'' \<and> rule_matches r (domain_key domain) ip) \<and>
     ((\<exists>r. r \<in> set (cl_rules c) \<and> rr_Action r = ''bypass'' \<and> rule_matches r (domain_key domain) ip) \<or>
      domain_key domain \<in> set (cl_domains c) \<or>
      (\<exists>p. p \<in> set (cl_prefixes c) \<and> prefix_Contains p (addr_Unmap ip)) \<or>
      (\<exists>expiry. map_of (cl_learned c) (domain_key domain) = Some expiry \<and> now < expiry))"
proof -
  define hit where "hit a = find (\<lambda>r. rr_Action r = a \<and> rule_matches r (domain_key domain) ip) (cl_rules c)" for a
  have hit: "(\<exists>r. r \<in> set (cl_rules c) \<and> rr_Action r = a \<and> rule_matches r (domain_key domain) ip) = (hit a \<noteq> None)" for a
    by (auto simp: hit_def find_None_iff)
  show ?thesis
    unfolding hit by (cases "hit ''direct''"; cases "hit ''bypass''")
      (auto simp: Decide_def Let_def find_append find_rules hit_def [symmetric] list_ex_iff split: option.splits)
qed

text \<open>The UTF-8 bytes of the Kelvin sign, U+212A.\<close>

definition kelvin_sign :: string where
  "kelvin_sign = map char_of [226, 132, 170 :: nat]"

lemma of_char_char_of: "n < 256 \<Longrightarrow> of_char (char_of n) = (n :: nat)"
  by simp

lemma to_lower_small:
  "of_char a < (128 :: nat) \<Longrightarrow> to_lower (a # x) = lower_char a # to_lower x"
  by (cases "a # x" rule: to_lower.cases) auto

lemma to_lower_append: "list_all plain s \<Longrightarrow> to_lower (s @ x) = s @ to_lower x"
  by (induction s) (auto simp: to_lower_small plain_small plain_lower)

lemma to_lower_kelvin: "to_lower (kelvin_sign @ t) = CHR ''k'' # to_lower t"
  by (cases t) (simp_all add: kelvin_sign_def)

text \<open>
  C39: \<^verbatim>\<open>CanonicalDomain\<close> does not reject every name outside ASCII, as its comment says: with the
  Kelvin sign in place of a letter \<open>k\<close> the name is accepted and stands for the ASCII name.
\<close>

theorem kelvin_sign_is_folded:
  assumes "list_all plain s" and "list_all plain t"
  shows "CanonicalDomain (s @ kelvin_sign @ t) = CanonicalDomain (s @ ''k'' @ t)"
proof -
  have "last kelvin_sign \<noteq> CHR ''.''" "kelvin_sign \<noteq> []" by code_simp+
  then have "trimDot (s @ kelvin_sign @ t) = s @ kelvin_sign @ trimDot t"
    by (auto simp: trimDot_def butlast_append)
  moreover have "trimDot (s @ ''k'' @ t) = s @ ''k'' @ trimDot t"
    by (auto simp: trimDot_def butlast_append)
  moreover have "lower_char (CHR ''k'') = CHR ''k''" by code_simp
  ultimately have "to_lower (trimDot (s @ kelvin_sign @ t)) = to_lower (trimDot (s @ ''k'' @ t))"
    using assms(1) by (simp add: to_lower_append to_lower_kelvin to_lower_small)
  then show ?thesis by (simp add: CanonicalDomain_def)
qed

theorem kelvin_sign_is_folded_witness:
  "CanonicalDomain (''ban'' @ kelvin_sign @ ''.example.com'') = Inr ''bank.example.com''"
proof -
  have "list_all plain ''ban''" "list_all plain ''.example.com''" by code_simp+
  from kelvin_sign_is_folded [OF this] have "CanonicalDomain (''ban'' @ kelvin_sign @ ''.example.com'') = CanonicalDomain ''bank.example.com''"
    by simp
  also have "\<dots> = Inr ''bank.example.com''" by code_simp
  finally show ?thesis .
qed

end
