(* ===== verification/Detector.thy ===== *)
theory Detector
  imports Routing_Policy
begin

text \<open>
  The restriction detector, \<^verbatim>\<open>internal/routing/detector.go\<close>: candidate domains seen in DNS, the
  probe schedule, the evaluation of probe rounds, and the domains learned to need the bypass. The
  mutex makes every method one step on the state.
\<close>

section \<open>State\<close>

definition MaxCandidates :: nat where "MaxCandidates = 2048"
definition MaxLearned :: nat where "MaxLearned = 1024"
definition DetectionTTL :: duration where "DetectionTTL = hour"
definition DetectionSpacing :: duration where "DetectionSpacing = 10 * second"
definition DetectionRecheck :: duration where "DetectionRecheck = 10 * minute"
definition CandidateRetention :: duration where "CandidateRetention = 5 * minute"
definition ControlFreshness :: duration where "ControlFreshness = 30 * second"
definition DetectionPerMinute :: int where "DetectionPerMinute = 12"

record address_result =
  ar_IP :: addr
  ar_DirectSuccess :: bool
  ar_BypassSuccess :: bool
  ar_CertificateError :: bool

record probe_round =
  ro_Addresses :: "address_result list"
  ro_Complete :: bool
  ro_ControlOK :: bool
  ro_ControlAt :: gotime
  ro_DNSError :: bool

record candidate =
  ca_Domain :: string
  ca_Epoch :: string
  ca_Token :: uint64
  ca_Recheck :: bool

record candidate_state =
  cs_seen :: gotime
  cs_checked :: gotime
  cs_due :: gotime
  cs_expires :: gotime
  cs_inFlight :: uint64
  cs_started :: gotime
  cs_failures :: int
  cs_successes :: int

record detector =
  dt_enabled :: bool
  dt_epoch :: string
  dt_nextToken :: uint64
  dt_entries :: "(string, candidate_state) gomap"
  dt_window :: gotime
  dt_budget :: int
  dt_dropped :: uint64
  dt_indeterminate :: uint64

definition NewDetector :: "bool \<Rightarrow> detector" where
  "NewDetector enabled =
     \<lparr>dt_enabled = enabled, dt_epoch = '''', dt_nextToken = 0, dt_entries = [], dt_window = 0, dt_budget = 0,
      dt_dropped = 0, dt_indeterminate = 0\<rparr>"

definition new_candidate :: "gotime \<Rightarrow> candidate_state" where
  "new_candidate now =
     \<lparr>cs_seen = now, cs_checked = 0, cs_due = 0, cs_expires = 0, cs_inFlight = 0, cs_started = 0, cs_failures = 0, cs_successes = 0\<rparr>"

section \<open>Operations\<close>

text \<open>One pass of \<^verbatim>\<open>expire\<close> over an entry: a probe that hung, a learned restriction that ran out.\<close>

definition timed_out :: "gotime \<Rightarrow> candidate_state \<Rightarrow> bool" where
  "timed_out now c \<longleftrightarrow> cs_inFlight c \<noteq> 0 \<and> time_sub now (cs_started c) > 2 * minute"

definition expire_one :: "gotime \<Rightarrow> candidate_state \<Rightarrow> candidate_state" where
  "expire_one now c =
     (let c1 = (if timed_out now c then c\<lparr>cs_inFlight := 0, cs_failures := 0, cs_successes := 0\<rparr> else c) in
      if \<not> is_zero (cs_expires c1) \<and> \<not> now < cs_expires c1
      then c1\<lparr>cs_expires := 0, cs_failures := 0, cs_successes := 0\<rparr> else c1)"

definition forgotten :: "gotime \<Rightarrow> candidate_state \<Rightarrow> bool" where
  "forgotten now c \<longleftrightarrow> is_zero (cs_expires c) \<and> cs_inFlight c = 0 \<and> time_sub now (cs_seen c) > CandidateRetention"

definition expire :: "gotime \<Rightarrow> detector \<Rightarrow> detector" where
  "expire now d = d\<lparr>
     dt_indeterminate := dt_indeterminate d + word_of_nat (length (filter (\<lambda>(k, c). timed_out now c) (dt_entries d))),
     dt_entries := filter (\<lambda>(k, c). \<not> forgotten now c) (map (\<lambda>(k, c). (k, expire_one now c)) (dt_entries d))\<rparr>"

definition Observe_domain :: "string \<Rightarrow> gotime \<Rightarrow> detector \<Rightarrow> bool \<times> detector" where
  "Observe_domain value now d =
     (case CanonicalDomain value of
        Inl _ \<Rightarrow> (False, d)
      | Inr domain \<Rightarrow>
          if LocalDomain domain then (False, d)
          else if \<not> dt_enabled d then (False, d)
          else let d1 = expire now d in
            case map_of (dt_entries d1) domain of
              Some c \<Rightarrow> (True, d1\<lparr>dt_entries := AList.update domain (c\<lparr>cs_seen := now\<rparr>) (dt_entries d1)\<rparr>)
            | None \<Rightarrow>
                if length (dt_entries d1) \<ge> MaxCandidates then (False, d1\<lparr>dt_dropped := dt_dropped d1 + 1\<rparr>)
                else (True, d1\<lparr>dt_entries := AList.update domain (new_candidate now) (dt_entries d1)\<rparr>))"

definition new_epoch :: "string \<Rightarrow> detector \<Rightarrow> detector" where
  "new_epoch epoch d =
     (if epoch \<noteq> dt_epoch d
      then d\<lparr>dt_epoch := epoch, dt_entries := map (\<lambda>(k, c). (k, c\<lparr>cs_failures := 0, cs_successes := 0, cs_inFlight := 0,
             cs_checked := 0, cs_due := 0\<rparr>)) (dt_entries d)\<rparr>
      else d)"

text \<open>The candidate whose last check is oldest, the first of them by name.\<close>

definition pick_candidate :: "gotime \<Rightarrow> (string, candidate_state) gomap \<Rightarrow> (string \<times> candidate_state) option" where
  "pick_candidate now es =
     foldl (\<lambda>best name.
       (case map_of es name of
          None \<Rightarrow> best
        | Some c \<Rightarrow>
            if cs_inFlight c \<noteq> 0 \<or> now < cs_due c then best
            else (case best of
                    None \<Rightarrow> Some (name, c)
                  | Some (n, first) \<Rightarrow> if cs_checked c < cs_checked first then Some (name, c) else best)))
       None (sort (map fst es))"

text \<open>The budget of probes starts anew every minute.\<close>

definition open_window :: "gotime \<Rightarrow> detector \<Rightarrow> detector" where
  "open_window now d =
     (if is_zero (dt_window d) \<or> time_sub now (dt_window d) \<ge> minute then d\<lparr>dt_window := now, dt_budget := 0\<rparr> else d)"

definition Next :: "gotime \<Rightarrow> string \<Rightarrow> detector \<Rightarrow> candidate option \<times> detector" where
  "Next now epoch d =
     (if \<not> dt_enabled d \<or> epoch = '''' then (None, d)
      else
        let d2 = open_window now (expire now (new_epoch epoch d)) in
        if dt_budget d2 \<ge> DetectionPerMinute then (None, d2)
           else case pick_candidate now (dt_entries d2) of
             None \<Rightarrow> (None, d2)
           | Some (name, c) \<Rightarrow>
               let token = dt_nextToken d2 + 1 in
               (Some \<lparr>ca_Domain = name, ca_Epoch = epoch, ca_Token = token, ca_Recheck = \<not> is_zero (cs_expires c)\<rparr>,
                d2\<lparr>dt_nextToken := token, dt_budget := dt_budget d2 + 1,
                   dt_entries := AList.update name (c\<lparr>cs_inFlight := token, cs_started := now, cs_checked := now\<rparr>) (dt_entries d2)\<rparr>))"

text \<open>What a round of probes shows of a candidate.\<close>

datatype verdict = Invalid_round | Reachable | Inconclusive | Blocked

fun addresses_ok :: "addr list \<Rightarrow> address_result list \<Rightarrow> bool" where
  "addresses_ok seen [] = True"
| "addresses_ok seen (a # as) =
     (let ip = addr_Unmap (ar_IP a) in
      PublicAddress ip \<and> ip \<notin> set seen \<and> \<not> ar_CertificateError a \<and> addresses_ok (ip # seen) as)"

definition control_fresh :: "probe_round \<Rightarrow> gotime \<Rightarrow> bool" where
  "control_fresh ro now \<longleftrightarrow> ro_ControlOK ro \<and> \<not> is_zero (ro_ControlAt ro) \<and> \<not> now < ro_ControlAt ro \<and>
     time_sub now (ro_ControlAt ro) \<le> ControlFreshness"

definition round_verdict :: "candidate_state \<Rightarrow> probe_round \<Rightarrow> gotime \<Rightarrow> verdict" where
  "round_verdict c ro now =
     (if \<not> (ro_Complete ro \<and> \<not> ro_DNSError ro \<and> length (ro_Addresses ro) > 0 \<and> length (ro_Addresses ro) \<le> 64 \<and>
           \<not> now < cs_started c \<and> time_sub now (cs_started c) \<le> 2 * minute \<and> addresses_ok [] (ro_Addresses ro))
      then Invalid_round
      else if list_ex ar_DirectSuccess (ro_Addresses ro) then Reachable
      else if \<not> list_all ar_BypassSuccess (ro_Addresses ro) \<or> \<not> control_fresh ro now then Inconclusive
      else Blocked)"

definition learned_count :: "gotime \<Rightarrow> detector \<Rightarrow> nat" where
  "learned_count now d = length (filter (\<lambda>(k, e). now < cs_expires e) (dt_entries d))"

definition put_candidate :: "string \<Rightarrow> candidate_state \<Rightarrow> detector \<Rightarrow> detector" where
  "put_candidate domain c d = d\<lparr>dt_entries := AList.update domain c (dt_entries d)\<rparr>"

definition record_verdict :: "verdict \<Rightarrow> string \<Rightarrow> candidate_state \<Rightarrow> gotime \<Rightarrow> detector \<Rightarrow> bool \<times> detector" where
  "record_verdict v domain c now d =
     (case v of
        Reachable \<Rightarrow>
          let c1 = c\<lparr>cs_failures := 0, cs_successes := cs_successes c + 1\<rparr> in
          if \<not> is_zero (cs_expires c1) \<and> cs_successes c1 \<ge> 3
          then (True, put_candidate domain (c1\<lparr>cs_expires := 0, cs_successes := 0, cs_due := now + minute\<rparr>) d)
          else (False, put_candidate domain (c1\<lparr>cs_due := now + (if \<not> is_zero (cs_expires c1) then DetectionSpacing else minute)\<rparr>) d)
      | Blocked \<Rightarrow>
          let c1 = c\<lparr>cs_successes := 0, cs_failures := cs_failures c + 1\<rparr> in
          if cs_failures c1 < 3 then (False, put_candidate domain (c1\<lparr>cs_due := now + DetectionSpacing\<rparr>) d)
          else if is_zero (cs_expires c1) \<and> learned_count now d \<ge> MaxLearned
          then (False, put_candidate domain (c1\<lparr>cs_failures := 0, cs_due := now + DetectionRecheck\<rparr>)
                        (d\<lparr>dt_dropped := dt_dropped d + 1\<rparr>))
          else (True, put_candidate domain (c1\<lparr>cs_expires := now + DetectionTTL, cs_failures := 0, cs_due := now + DetectionRecheck\<rparr>) d)
      | _ \<Rightarrow>
          (False, put_candidate domain (c\<lparr>cs_failures := 0, cs_successes := 0, cs_due := now + minute\<rparr>)
                    (d\<lparr>dt_indeterminate := dt_indeterminate d + 1\<rparr>)))"

text \<open>The candidate a result belongs to, if the result is still awaited.\<close>

definition awaited :: "candidate \<Rightarrow> detector \<Rightarrow> candidate_state option" where
  "awaited ca d =
     (case map_of (dt_entries d) (ca_Domain ca) of
        None \<Rightarrow> None
      | Some c \<Rightarrow>
          if \<not> dt_enabled d \<or> ca_Epoch ca \<noteq> dt_epoch d \<or> ca_Token ca = 0 \<or> cs_inFlight c \<noteq> ca_Token ca then None
          else Some c)"

definition Record :: "candidate \<Rightarrow> probe_round \<Rightarrow> gotime \<Rightarrow> detector \<Rightarrow> bool \<times> detector" where
  "Record ca ro now d =
     (case awaited ca d of
        None \<Rightarrow> (False, d)
      | Some c \<Rightarrow> record_verdict (round_verdict c ro now) (ca_Domain ca) (c\<lparr>cs_inFlight := 0\<rparr>) now d)"

definition Learned :: "gotime \<Rightarrow> detector \<Rightarrow> (string, gotime) gomap \<times> detector" where
  "Learned now d =
     (let d1 = expire now d in
      (map (\<lambda>(k, c). (k, cs_expires c)) (filter (\<lambda>(k, c). now < cs_expires c) (dt_entries d1)), d1))"

record detector_status =
  ds_Enabled :: bool
  ds_Candidates :: nat
  ds_Learned :: nat
  ds_InFlight :: nat
  ds_Dropped :: uint64
  ds_Indeterminate :: uint64

definition Status_detector :: "gotime \<Rightarrow> detector \<Rightarrow> detector_status \<times> detector" where
  "Status_detector now d =
     (let d1 = expire now d in
      (\<lparr>ds_Enabled = dt_enabled d1, ds_Candidates = length (dt_entries d1), ds_Learned = learned_count now d1,
        ds_InFlight = length (filter (\<lambda>(k, c). cs_inFlight c \<noteq> 0) (dt_entries d1)),
        ds_Dropped = dt_dropped d1, ds_Indeterminate = dt_indeterminate d1\<rparr>, d1))"

end
