(* ===== verification/Detector_Props.thy ===== *)
theory Detector_Props
  imports Detector Routing_Props
begin

text \<open>
  What the detector guarantees over any sequence of calls: its bounds, the rate of the probes it
  issues, that a domain is learned only from three consecutive conclusive rounds, that results
  nobody waits for change nothing, and how many domains can be learned at a time.
\<close>

section \<open>Sequences of calls\<close>

datatype det_op =
    Det_Observe string gotime
  | Det_Next gotime string
  | Det_Record candidate probe_round gotime
  | Det_Learned gotime
  | Det_Status gotime

text \<open>With the state goes the log of the verdicts on the rounds that were awaited, newest first.\<close>

type_synonym det_log = "(string \<times> verdict) list"

definition round_log :: "candidate \<Rightarrow> probe_round \<Rightarrow> gotime \<Rightarrow> detector \<Rightarrow> det_log" where
  "round_log ca ro now d = (case awaited ca d of None \<Rightarrow> [] | Some c \<Rightarrow> [(ca_Domain ca, round_verdict c ro now)])"

fun det_step :: "detector \<times> det_log \<Rightarrow> det_op \<Rightarrow> detector \<times> det_log" where
  "det_step (d, log) (Det_Observe v now) = (snd (Observe_domain v now d), log)"
| "det_step (d, log) (Det_Next now epoch) = (snd (Next now epoch d), log)"
| "det_step (d, log) (Det_Record ca ro now) = (snd (Record ca ro now d), round_log ca ro now d @ log)"
| "det_step (d, log) (Det_Learned now) = (snd (Learned now d), log)"
| "det_step (d, log) (Det_Status now) = (snd (Status_detector now d), log)"

definition det_run :: "bool \<Rightarrow> det_op list \<Rightarrow> detector \<times> det_log" where
  "det_run enabled ops = foldl det_step (NewDetector enabled, []) ops"

section \<open>The invariant\<close>

definition rounds_of :: "string \<Rightarrow> det_log \<Rightarrow> verdict list" where
  "rounds_of k log = map snd (filter (\<lambda>x. fst x = k) log)"

definition streak :: "string \<Rightarrow> det_log \<Rightarrow> nat" where
  "streak k log = length (takeWhile (\<lambda>v. v = Blocked) (rounds_of k log))"

definition blocked_thrice :: "string \<Rightarrow> det_log \<Rightarrow> bool" where
  "blocked_thrice k log \<longleftrightarrow> (\<exists>newer older. rounds_of k log = newer @ [Blocked, Blocked, Blocked] @ older)"

definition candidate_ok :: "det_log \<Rightarrow> string \<Rightarrow> candidate_state \<Rightarrow> bool" where
  "candidate_ok log k c \<longleftrightarrow> CanonicalDomain k = Inr k \<and> \<not> LocalDomain k \<and> 0 \<le> cs_failures c \<and> cs_failures c \<le> 2 \<and>
     cs_failures c \<le> int (streak k log) \<and> (cs_expires c \<noteq> 0 \<longrightarrow> blocked_thrice k log)"

definition detector_ok :: "det_log \<Rightarrow> detector \<Rightarrow> bool" where
  "detector_ok log d \<longleftrightarrow> gomap_ok (dt_entries d) \<and> length (dt_entries d) \<le> MaxCandidates \<and>
     0 \<le> dt_budget d \<and> dt_budget d \<le> DetectionPerMinute \<and>
     (\<forall>k c. map_of (dt_entries d) k = Some c \<longrightarrow> candidate_ok log k c)"

lemma expire_one_simps [simp]:
  "cs_expires (expire_one now c) \<in> {0, cs_expires c}" "cs_failures (expire_one now c) \<in> {0, cs_failures c}"
  by (auto simp: expire_one_def Let_def)

lemma expire_one_ok: "candidate_ok log k c \<Longrightarrow> candidate_ok log k (expire_one now c)"
  using expire_one_simps [of now c] by (auto simp: candidate_ok_def)

lemma map_of_filter_value:
  "gomap_ok m \<Longrightarrow> map_of (filter (\<lambda>(k, v). P v) m) k = (case map_of m k of None \<Rightarrow> None | Some v \<Rightarrow> if P v then Some v else None)"
proof (induction m)
  case Nil
  then show ?case by simp
next
  case (Cons a m)
  moreover have "map_of m (fst a) = None"
    using Cons.prems by (auto simp: gomap_ok_def map_of_eq_None_iff)
  ultimately show ?case
    by (auto simp: gomap_ok_def split: option.splits)
qed

lemma expire_ok:
  assumes "detector_ok log d"
  shows "detector_ok log (expire now d)"
proof -
  have g: "gomap_ok (map (\<lambda>(k, c). (k, expire_one now c)) (dt_entries d))"
    using assms by (simp add: detector_ok_def)
  have "length (dt_entries (expire now d)) \<le> length (dt_entries d)"
    by (simp add: expire_def le_trans [OF length_filter_le])
  moreover have "gomap_ok (dt_entries (expire now d))"
    using assms by (simp add: expire_def detector_ok_def)
  moreover have "candidate_ok log k c" if "map_of (dt_entries (expire now d)) k = Some c" for k c
    using that assms map_of_filter_value [OF g, of "\<lambda>c. \<not> forgotten now c" k]
    by (auto simp: expire_def detector_ok_def expire_one_ok split: option.splits if_splits)
  moreover have "dt_budget (expire now d) = dt_budget d" by (simp add: expire_def)
  ultimately show ?thesis
    using assms by (simp add: detector_ok_def)
qed

lemma length_update: "length (AList.update k v m) = (if k \<in> fst ` set m then length m else Suc (length m))"
  by (induction m) auto

lemma put_ok:
  assumes "detector_ok log d" and "candidate_ok log k c" and "map_of (dt_entries d) k \<noteq> None \<or> length (dt_entries d) < MaxCandidates"
  shows "detector_ok log (put_candidate k c d)"
  using assms by (auto simp: detector_ok_def put_candidate_def length_update map_of_eq_None_iff)

lemma detector_ok_fields [simp]:
  "detector_ok log (d\<lparr>dt_dropped := x\<rparr>) = detector_ok log d" "detector_ok log (d\<lparr>dt_indeterminate := x\<rparr>) = detector_ok log d"
  "detector_ok log (d\<lparr>dt_nextToken := y\<rparr>) = detector_ok log d" "detector_ok log (d\<lparr>dt_window := w\<rparr>) = detector_ok log d"
  "detector_ok log (d\<lparr>dt_epoch := e\<rparr>) = detector_ok log d"
  by (simp_all add: detector_ok_def)

lemma Observe_domain_ok:
  assumes "detector_ok log d"
  shows "detector_ok log (snd (Observe_domain v now d))"
proof (cases "CanonicalDomain v")
  case (Inl e)
  then show ?thesis using assms by (simp add: Observe_domain_def)
next
  case (Inr k)
  have e: "detector_ok log (expire now d)" by (rule expire_ok [OF assms])
  have k: "CanonicalDomain k = Inr k"
    using Inr canonical_idem by blast
  have "detector_ok log (put_candidate k (c\<lparr>cs_seen := now\<rparr>) (expire now d))"
    if "map_of (dt_entries (expire now d)) k = Some c" for c
    using that e by (intro put_ok) (auto simp: detector_ok_def candidate_ok_def)
  moreover have "detector_ok log (put_candidate k (new_candidate now) (expire now d))"
    if "length (dt_entries (expire now d)) < MaxCandidates" "\<not> LocalDomain k"
    using that e k by (intro put_ok) (auto simp: candidate_ok_def new_candidate_def)
  ultimately show ?thesis
    using assms Inr e by (auto simp: Observe_domain_def Let_def put_candidate_def split: option.split)
qed

lemma new_epoch_ok:
  assumes "detector_ok log d"
  shows "detector_ok log (new_epoch epoch d)"
  using assms by (auto simp: new_epoch_def detector_ok_def candidate_ok_def)

lemma pick_candidate_Some:
  assumes "pick_candidate now es = Some (name, c)"
  shows "map_of es name = Some c"
proof -
  let ?f = "\<lambda>best name. (case map_of es name of
          None \<Rightarrow> best
        | Some c \<Rightarrow>
            if cs_inFlight c \<noteq> 0 \<or> now < cs_due c then best
            else (case best of
                    None \<Rightarrow> Some (name, c)
                  | Some (n, first) \<Rightarrow> if cs_checked c < cs_checked first then Some (name, c) else best))"
  have "foldl ?f best names = Some (name, c) \<Longrightarrow> (\<And>n x. best = Some (n, x) \<Longrightarrow> map_of es n = Some x) \<Longrightarrow> map_of es name = Some c" for best names
  proof (induction names arbitrary: best)
    case Nil
    then show ?case by simp
  next
    case (Cons n ns)
    show ?case
    proof (rule Cons.IH [of "?f best n"])
      show "foldl ?f (?f best n) ns = Some (name, c)" using Cons.prems(1) by simp
      show "map_of es m = Some x" if "?f best n = Some (m, x)" for m x
        using that Cons.prems(2) by (auto split: option.splits if_splits prod.splits)
    qed
  qed
  from this [of None "sort (map fst es)"] show ?thesis
    using assms unfolding pick_candidate_def by simp
qed

lemma Next_ok:
  assumes "detector_ok log d"
  shows "detector_ok log (snd (Next now epoch d))"
proof -
  define d2 where "d2 = open_window now (expire now (new_epoch epoch d))"
  have "detector_ok log (expire now (new_epoch epoch d))" by (intro expire_ok new_epoch_ok assms)
  then have d2: "detector_ok log d2" by (auto simp: d2_def open_window_def detector_ok_def DetectionPerMinute_def)
  have "detector_ok log (d2\<lparr>dt_nextToken := dt_nextToken d2 + 1, dt_budget := dt_budget d2 + 1,
      dt_entries := AList.update name (c\<lparr>cs_inFlight := dt_nextToken d2 + 1, cs_started := now, cs_checked := now\<rparr>) (dt_entries d2)\<rparr>)"
    if "dt_budget d2 < DetectionPerMinute" "pick_candidate now (dt_entries d2) = Some (name, c)" for name c
  proof -
    have m: "map_of (dt_entries d2) name = Some c" by (rule pick_candidate_Some [OF that(2)])
    then have "detector_ok log (put_candidate name (c\<lparr>cs_inFlight := dt_nextToken d2 + 1, cs_started := now, cs_checked := now\<rparr>) d2)"
      using d2 by (intro put_ok) (auto simp: detector_ok_def candidate_ok_def)
    then show ?thesis using that(1) d2 by (simp add: detector_ok_def put_candidate_def)
  qed
  then show ?thesis
    using assms d2 by (auto simp: Next_def Let_def d2_def [symmetric] split: option.split)
qed

lemma rounds_of_Cons: "rounds_of k ((j, v) # log) = (if j = k then v # rounds_of k log else rounds_of k log)"
  by (simp add: rounds_of_def)

lemma streak_Cons: "streak k ((j, v) # log) = (if j \<noteq> k then streak k log else if v = Blocked then Suc (streak k log) else 0)"
  by (simp add: streak_def rounds_of_Cons)

lemma blocked_thrice_Cons: "blocked_thrice k log \<Longrightarrow> blocked_thrice k ((j, v) # log)"
  unfolding blocked_thrice_def rounds_of_Cons by (metis append_Cons)

lemma streak_thrice: "3 \<le> streak k log \<Longrightarrow> blocked_thrice k log"
proof -
  assume "3 \<le> streak k log"
  then obtain a b c r where "rounds_of k log = a # b # c # r" "a = Blocked" "b = Blocked" "c = Blocked"
    unfolding streak_def
    by (cases "rounds_of k log"; cases "tl (rounds_of k log)"; cases "tl (tl (rounds_of k log))") (auto split: if_splits)
  then show ?thesis unfolding blocked_thrice_def by (intro exI [of _ "[]"] exI [of _ r]) simp
qed

lemma candidate_ok_log:
  assumes "candidate_ok log k c" and "j \<noteq> k"
  shows "candidate_ok ((j, v) # log) k c"
  using assms by (auto simp: candidate_ok_def streak_Cons blocked_thrice_Cons)

lemma put_verdict_ok:
  assumes "detector_ok log d" and "map_of (dt_entries d) k \<noteq> None" and "candidate_ok ((k, v) # log) k c"
  shows "detector_ok ((k, v) # log) (put_candidate k c d)"
  using assms by (auto simp: detector_ok_def put_candidate_def length_update map_of_eq_None_iff candidate_ok_log)

lemma record_verdict_ok:
  assumes "detector_ok log d" and "map_of (dt_entries d) k \<noteq> None" and c: "candidate_ok log k c"
  shows "detector_ok ((k, v) # log) (snd (record_verdict v k c now d))"
proof -
  have p: "detector_ok ((k, u) # log) (put_candidate k c' d)"
    "detector_ok ((k, u) # log) (put_candidate k c' (d\<lparr>dt_dropped := x\<rparr>))"
    "detector_ok ((k, u) # log) (put_candidate k c' (d\<lparr>dt_indeterminate := x\<rparr>))"
    if "candidate_ok ((k, u) # log) k c'" for c' u x
    using that assms(1,2) by (auto intro!: put_verdict_ok)
  have thrice: "blocked_thrice k ((k, Blocked) # log)" if "2 \<le> cs_failures c"
    using that c by (intro streak_thrice) (simp add: candidate_ok_def streak_Cons)
  show ?thesis
  proof (cases v)
    case Blocked
    then show ?thesis
      using c thrice by (auto simp: record_verdict_def Let_def candidate_ok_def streak_Cons blocked_thrice_Cons is_zero_def intro!: p)
  qed (use c in \<open>auto simp: record_verdict_def Let_def candidate_ok_def streak_Cons blocked_thrice_Cons intro!: p\<close>)
qed

lemma Record_ok:
  assumes "detector_ok log d"
  shows "detector_ok (round_log ca ro now d @ log) (snd (Record ca ro now d))"
proof (cases "awaited ca d")
  case None
  then show ?thesis using assms by (simp add: Record_def round_log_def)
next
  case (Some c)
  then have m: "map_of (dt_entries d) (ca_Domain ca) = Some c"
    by (auto simp: awaited_def split: option.splits if_splits)
  then have "candidate_ok log (ca_Domain ca) (c\<lparr>cs_inFlight := 0\<rparr>)"
    using assms by (auto simp: detector_ok_def candidate_ok_def)
  from record_verdict_ok [OF assms _ this] show ?thesis
    using m Some by (simp add: Record_def round_log_def)
qed

lemma det_step_ok: "detector_ok (snd s) (fst s) \<Longrightarrow> detector_ok (snd (det_step s q)) (fst (det_step s q))"
  by (cases s; cases q) (simp_all add: Observe_domain_ok Next_ok Record_ok expire_ok Learned_def Status_detector_def Let_def)

lemma det_run_ok: "detector_ok (snd (det_run enabled ops)) (fst (det_run enabled ops))"
proof (induction ops rule: rev_induct)
  case Nil
  show ?case by (simp add: det_run_def detector_ok_def NewDetector_def DetectionPerMinute_def)
next
  case (snoc q ops)
  then show ?case using det_step_ok by (simp add: det_run_def)
qed

section \<open>The probes that were issued\<close>

text \<open>
  Every candidate that \<^verbatim>\<open>Next\<close> hands out is one probe: its instant, its domain, and the budget
  window it is charged to.
\<close>

record probe =
  pb_window :: gotime
  pb_at :: gotime
  pb_domain :: string

fun issued_by :: "detector \<Rightarrow> det_op \<Rightarrow> probe list" where
  "issued_by d (Det_Next now epoch) =
     (case Next now epoch d of
        (None, d') \<Rightarrow> []
      | (Some ca, d') \<Rightarrow> [\<lparr>pb_window = dt_window d', pb_at = now, pb_domain = ca_Domain ca\<rparr>])"
| "issued_by d _ = []"

primrec probes_from :: "detector \<times> det_log \<Rightarrow> det_op list \<Rightarrow> probe list" where
  "probes_from s [] = []"
| "probes_from s (q # qs) = issued_by (fst s) q @ probes_from (det_step s q) qs"

definition probes :: "bool \<Rightarrow> det_op list \<Rightarrow> probe list" where
  "probes enabled ops = probes_from (NewDetector enabled, []) ops"

lemma probes_from_append: "probes_from s (qs @ rs) = probes_from s qs @ probes_from (foldl det_step s qs) rs"
  by (induction qs arbitrary: s) simp_all

lemma probes_snoc: "probes enabled (ops @ [q]) = probes enabled ops @ issued_by (fst (det_run enabled ops)) q"
  by (simp add: probes_def probes_from_append det_run_def)

lemma det_run_snoc: "det_run enabled (ops @ [q]) = det_step (det_run enabled ops) q"
  by (simp add: det_run_def)

text \<open>The calls read a clock that does not run backwards.\<close>

fun op_time :: "det_op \<Rightarrow> gotime" where
  "op_time (Det_Observe v now) = now"
| "op_time (Det_Next now epoch) = now"
| "op_time (Det_Record ca ro now) = now"
| "op_time (Det_Learned now) = now"
| "op_time (Det_Status now) = now"

definition clock_ok :: "det_op list \<Rightarrow> bool" where
  "clock_ok ops \<longleftrightarrow> sorted (map op_time ops) \<and> (\<forall>q \<in> set ops. 0 < op_time q)"

lemma clock_ok_snoc:
  "clock_ok (ops @ [q]) \<longleftrightarrow> clock_ok ops \<and> 0 < op_time q \<and> (\<forall>r \<in> set ops. op_time r \<le> op_time q)"
  by (auto simp: clock_ok_def sorted_append)

section \<open>The probe budget\<close>

definition charges :: "gotime \<Rightarrow> probe list \<Rightarrow> nat" where
  "charges w ps = length (filter (\<lambda>pb. pb_window pb = w) ps)"

text \<open>
  The probes issued so far, charged to windows of a minute: at most twelve to each, the newest
  window is the detector's, and its charges are the detector's budget.
\<close>

definition charged :: "gotime \<Rightarrow> detector \<Rightarrow> probe list \<Rightarrow> bool" where
  "charged now d ps \<longleftrightarrow>
     0 \<le> dt_window d \<and> dt_window d \<le> now \<and>
     (\<forall>pb \<in> set ps. 0 < pb_window pb \<and> pb_window pb \<le> pb_at pb \<and> pb_at pb < pb_window pb + minute \<and> pb_at pb \<le> now \<and>
        (pb_window pb = dt_window d \<or> pb_window pb + minute \<le> dt_window d)) \<and>
     (\<forall>pb \<in> set ps. \<forall>pb' \<in> set ps. pb_window pb < pb_window pb' \<longrightarrow> pb_window pb + minute \<le> pb_window pb') \<and>
     (\<forall>w. charges w ps \<le> 12) \<and> dt_budget d = int (charges (dt_window d) ps)"

lemma charged_cong:
  "charged now d ps \<Longrightarrow> now \<le> now' \<Longrightarrow> dt_window d' = dt_window d \<Longrightarrow> dt_budget d' = dt_budget d \<Longrightarrow> charged now' d' ps"
  unfolding charged_def by (auto dest: order.trans)

lemma charges_zero: "(\<And>pb. pb \<in> set ps \<Longrightarrow> pb_window pb \<noteq> w) \<Longrightarrow> charges w ps = 0"
  by (simp add: charges_def filter_empty_conv)

lemma open_window_charged:
  assumes "charged t d ps" and "t \<le> now" and "0 < now"
  shows "charged now (open_window now d) ps" "0 < dt_window (open_window now d)"
    "now < dt_window (open_window now d) + minute"
proof -
  have minute: "0 < minute" by (simp add: minute_def)
  show window: "0 < dt_window (open_window now d)" "now < dt_window (open_window now d) + minute"
    using assms by (auto simp: open_window_def charged_def is_zero_def time_sub_def minute_def)
  show "charged now (open_window now d) ps"
  proof (cases "is_zero (dt_window d) \<or> time_sub now (dt_window d) \<ge> minute")
    case True
    have gap: "pb_window pb + minute \<le> now" if "pb \<in> set ps" for pb
    proof -
      from that assms(1) have "0 < pb_window pb" "pb_window pb = dt_window d \<or> pb_window pb + minute \<le> dt_window d"
        "dt_window d \<le> t" by (auto simp: charged_def)
      with True assms(2) minute show ?thesis by (auto simp: is_zero_def time_sub_def minute_def)
    qed
    then have "charges now ps = 0" using minute by (intro charges_zero) force
    with True assms gap show ?thesis
      by (auto simp: charged_def open_window_def dest: order.trans)
  next
    case False
    then have "open_window now d = d" by (simp add: open_window_def)
    with charged_cong [OF assms(1,2)] show ?thesis by simp
  qed
qed

lemma charges_snoc: "charges w (ps @ [pb]) = (if pb_window pb = w then Suc (charges w ps) else charges w ps)"
  by (simp add: charges_def)

lemma issue_charged:
  assumes "charged now d ps" and "0 < dt_window d" and "now < dt_window d + minute"
    and "dt_budget d < DetectionPerMinute" and "dt_window d' = dt_window d" and "dt_budget d' = dt_budget d + 1"
  shows "charged now d' (ps @ [\<lparr>pb_window = dt_window d, pb_at = now, pb_domain = k\<rparr>])"
proof -
  have "charges (dt_window d) ps < 12"
    using assms(1,4) by (simp add: charged_def DetectionPerMinute_def)
  then have "charges w (ps @ [\<lparr>pb_window = dt_window d, pb_at = now, pb_domain = k\<rparr>]) \<le> 12" for w
    using assms(1) by (auto simp: charges_snoc charged_def)
  then show ?thesis
    using assms by (auto simp: charged_def charges_snoc)
qed

lemma window_fields [simp]:
  "dt_window (expire now d) = dt_window d" "dt_budget (expire now d) = dt_budget d"
  "dt_window (new_epoch e d) = dt_window d" "dt_budget (new_epoch e d) = dt_budget d"
  "dt_window (put_candidate k c d) = dt_window d" "dt_budget (put_candidate k c d) = dt_budget d"
  by (simp_all add: expire_def new_epoch_def put_candidate_def)

lemma record_verdict_window [simp]:
  "dt_window (snd (record_verdict v k c now d)) = dt_window d" "dt_budget (snd (record_verdict v k c now d)) = dt_budget d"
  by (simp_all add: record_verdict_def Let_def put_candidate_def split: verdict.split)

lemma Next_charged:
  assumes "charged t d ps" and "t \<le> now" and "0 < now"
  shows "charged now (snd (Next now epoch d)) (ps @ issued_by d (Det_Next now epoch))"
proof (cases "\<not> dt_enabled d \<or> epoch = ''''")
  case True
  with charged_cong [OF assms(1,2)] show ?thesis by (auto simp: Next_def)
next
  case False
  define d2 where "d2 = open_window now (expire now (new_epoch epoch d))"
  have "charged t (expire now (new_epoch epoch d)) ps"
    by (rule charged_cong [OF assms(1)]) simp_all
  note d2 = open_window_charged [OF this assms(2,3), folded d2_def]
  show ?thesis
  proof (cases "dt_budget d2 \<ge> DetectionPerMinute \<or> pick_candidate now (dt_entries d2) = None")
    case True
    with False d2 show ?thesis by (auto simp: Next_def Let_def d2_def [symmetric])
  next
    case pick: False
    then obtain name c where "pick_candidate now (dt_entries d2) = Some (name, c)" by auto
    with False pick issue_charged [OF d2] show ?thesis
      by (simp add: Next_def Let_def d2_def [symmetric])
  qed
qed

lemma det_run_charged:
  "clock_ok ops \<Longrightarrow> \<forall>q \<in> set ops. op_time q \<le> now \<Longrightarrow> 0 \<le> now \<Longrightarrow>
     charged now (fst (det_run enabled ops)) (probes enabled ops)"
proof (induction ops arbitrary: now rule: rev_induct)
  case Nil
  then show ?case by (simp add: charged_def det_run_def NewDetector_def probes_def charges_def)
next
  case (snoc q ops)
  let ?d = "fst (det_run enabled ops)" and ?t = "op_time q"
  have IH: "charged ?t ?d (probes enabled ops)"
    using snoc by (simp add: clock_ok_snoc)
  have t: "0 < ?t" "?t \<le> now" using snoc.prems by (simp_all add: clock_ok_snoc)
  obtain d log where d: "det_run enabled ops = (d, log)" by (cases "det_run enabled ops")
  have "charged ?t (fst (det_step (d, log) q)) (probes enabled ops @ issued_by d q)"
  proof (cases q)
    case (Det_Next u epoch)
    with Next_charged [OF IH order_refl, of epoch] t(1) d show ?thesis by simp
  next
    case (Det_Observe v u)
    have "dt_window (snd (Observe_domain v u d)) = dt_window d" "dt_budget (snd (Observe_domain v u d)) = dt_budget d"
      by (simp_all add: Observe_domain_def Let_def split: sum.split option.split)
    with Det_Observe charged_cong [OF IH order_refl] d show ?thesis by simp
  next
    case (Det_Record ca ro u)
    with charged_cong [OF IH order_refl] d show ?thesis by (simp add: Record_def split: option.split)
  qed (use charged_cong [OF IH order_refl] d in \<open>simp_all add: Learned_def Status_detector_def Let_def\<close>)
  then show ?case
    using charged_cong t(2) by (simp add: probes_snoc det_run_snoc d)
qed

text \<open>Windows a minute apart: a period of \<open>n\<close> minutes meets at most \<open>n + 1\<close> of them.\<close>

lemma card_spaced:
  fixes W :: "int set"
  assumes "finite W" and "0 < m" and "\<And>u v. u \<in> W \<Longrightarrow> v \<in> W \<Longrightarrow> u < v \<Longrightarrow> u + m \<le> v"
    and "\<And>w. w \<in> W \<Longrightarrow> a < w \<and> w \<le> a + int n * m"
  shows "card W \<le> n"
proof -
  let ?f = "\<lambda>w. (w - a - 1) div m"
  have mono: "?f u < ?f v" if "u \<in> W" "v \<in> W" "u < v" for u v
  proof -
    have "?f u + 1 = (u - a - 1 + m) div m" using assms(2) by (simp add: div_add_self2)
    also have "\<dots> \<le> ?f v" using assms(2) assms(3) [OF that] by (intro zdiv_mono1) simp_all
    finally show ?thesis by simp
  qed
  have "inj_on ?f W"
    by (rule inj_onI) (metis less_irrefl linorder_neqE mono)
  moreover have "?f ` W \<subseteq> {0..<int n}"
  proof -
    have "0 \<le> ?f w \<and> ?f w < int n" if "w \<in> W" for w
    proof -
      have "?f w * m + (w - a - 1) mod m = w - a - 1" "0 \<le> (w - a - 1) mod m"
        using assms(2) by simp_all
      with assms(4) [OF that] have "?f w * m < int n * m" by linarith
      with assms(2) assms(4) [OF that] show ?thesis by (simp add: pos_imp_zdiv_nonneg_iff)
    qed
    then show ?thesis by auto
  qed
  ultimately have "card W \<le> card {0..<int n}" by (intro card_inj_on_le) simp_all
  then show ?thesis by simp
qed

lemma charges_sum:
  assumes "finite W" and "\<And>w. charges w ps \<le> b"
  shows "length (filter (\<lambda>pb. pb_window pb \<in> W) ps) \<le> b * card W"
  using assms(1)
proof (induction W rule: finite_induct)
  case empty
  show ?case by simp
next
  case (insert w W)
  have "length (filter (\<lambda>pb. pb_window pb \<in> insert w W) ps) \<le> charges w ps + length (filter (\<lambda>pb. pb_window pb \<in> W) ps)"
    unfolding charges_def by (induction ps) auto
  with insert assms(2) [of w] show ?case by simp
qed

lemma length_filter_imp: "(\<And>x. x \<in> set xs \<Longrightarrow> P x \<Longrightarrow> Q x) \<Longrightarrow> length (filter P xs) \<le> length (filter Q xs)"
  by (induction xs) (auto simp: le_SucI)

lemma probes_in_period:
  assumes "charged now d ps"
  shows "length (filter (\<lambda>pb. t < pb_at pb \<and> pb_at pb \<le> t + int n * minute) ps) \<le> 12 * (n + 1)"
proof -
  let ?P = "\<lambda>pb. t < pb_at pb \<and> pb_at pb \<le> t + int n * minute"
  define W where "W = pb_window ` {pb \<in> set ps. ?P pb}"
  have "card W \<le> n + 1"
  proof (rule card_spaced [where m = minute and a = "t - minute"])
    show "u + minute \<le> v" if "u \<in> W" "v \<in> W" "u < v" for u v
      using that assms unfolding W_def charged_def by blast
    show "t - minute < w \<and> w \<le> t - minute + int (n + 1) * minute" if "w \<in> W" for w
    proof -
      from that obtain pb where "pb \<in> set ps" "?P pb" "w = pb_window pb" by (auto simp: W_def)
      moreover from this(1) assms have "pb_window pb \<le> pb_at pb" "pb_at pb < pb_window pb + minute"
        by (auto simp: charged_def)
      ultimately show ?thesis by (auto simp: distrib_right)
    qed
  qed (simp_all add: W_def minute_def)
  moreover have "length (filter ?P ps) \<le> length (filter (\<lambda>pb. pb_window pb \<in> W) ps)"
    by (rule length_filter_imp) (auto simp: W_def)
  moreover have "length (filter (\<lambda>pb. pb_window pb \<in> W) ps) \<le> 12 * card W"
    using assms by (intro charges_sum) (simp_all add: W_def charged_def)
  ultimately show ?thesis by (simp add: order.trans)
qed

section \<open>Probes and the rounds they bring\<close>

text \<open>
  A candidate in flight stands for the probe issued for it when its round began, and a learned
  domain for a probe issued at most two minutes before the last conclusive round.
\<close>

definition accounted :: "probe list \<Rightarrow> string \<Rightarrow> candidate_state \<Rightarrow> bool" where
  "accounted ps k c \<longleftrightarrow>
     (cs_inFlight c \<noteq> 0 \<longrightarrow> (\<exists>pb \<in> set ps. pb_domain pb = k \<and> pb_at pb = cs_started c)) \<and>
     (cs_expires c \<noteq> 0 \<longrightarrow> (\<exists>pb \<in> set ps. pb_domain pb = k \<and> cs_expires c \<le> pb_at pb + 2 * minute + DetectionTTL))"

definition in_flight :: "detector \<Rightarrow> nat" where
  "in_flight d = length (filter (\<lambda>(k, c). cs_inFlight c \<noteq> 0) (dt_entries d))"

definition rounds_ok :: "det_log \<Rightarrow> detector \<Rightarrow> probe list \<Rightarrow> bool" where
  "rounds_ok log d ps \<longleftrightarrow> gomap_ok (dt_entries d) \<and> length log + in_flight d \<le> length ps \<and>
     (\<forall>k c. map_of (dt_entries d) k = Some c \<longrightarrow> accounted ps k c)"

lemma accounted_mono: "accounted ps k c \<Longrightarrow> accounted (ps @ qs) k c"
  by (auto simp: accounted_def)

lemma length_filter_update:
  assumes "gomap_ok m"
  shows "length (filter (\<lambda>(k, e). P e) (AList.update k c' m)) + (case map_of m k of None \<Rightarrow> 0 | Some c \<Rightarrow> if P c then 1 else 0) =
    length (filter (\<lambda>(k, e). P e) m) + (if P c' then 1 else 0)"
  using assms
proof (induction m)
  case (Cons a m)
  then show ?case
    by (cases a) (auto simp: gomap_ok_def map_of_eq_None_iff split: option.splits if_splits)
qed simp

lemma in_flight_put:
  assumes "gomap_ok (dt_entries d)"
  shows "in_flight (put_candidate k c' d) + (case map_of (dt_entries d) k of None \<Rightarrow> 0 | Some c \<Rightarrow> if cs_inFlight c \<noteq> 0 then 1 else 0) =
    in_flight d + (if cs_inFlight c' \<noteq> 0 then 1 else 0)"
  using length_filter_update [OF assms, of "\<lambda>c. cs_inFlight c \<noteq> 0"] by (simp add: in_flight_def put_candidate_def)

lemma put_rounds_ok:
  assumes "rounds_ok log d ps" and "accounted (ps @ qs) k c'"
    and "length log' + in_flight (put_candidate k c' d) \<le> length (ps @ qs)"
  shows "rounds_ok log' (put_candidate k c' d) (ps @ qs)"
  using assms accounted_mono by (auto simp: rounds_ok_def put_candidate_def)

lemma expire_one_flight:
  "cs_inFlight (expire_one now c) \<noteq> 0 \<Longrightarrow> cs_inFlight c \<noteq> 0"
  "accounted ps k c \<Longrightarrow> accounted ps k (expire_one now c)"
  by (auto simp: expire_one_def accounted_def Let_def split: if_splits)

lemma expire_rounds_ok:
  assumes "rounds_ok log d ps"
  shows "rounds_ok log (expire now d) ps"
proof -
  let ?m = "map (\<lambda>(k, c). (k, expire_one now c)) (dt_entries d)"
  have g: "gomap_ok ?m" using assms by (simp add: rounds_ok_def)
  have "in_flight (expire now d) \<le> in_flight d"
  proof -
    have "length (filter (\<lambda>(k, c). cs_inFlight c \<noteq> 0) (filter (\<lambda>(k, c). \<not> forgotten now c)
        (map (\<lambda>(k, c). (k, expire_one now c)) es))) \<le> length (filter (\<lambda>(k, c). cs_inFlight c \<noteq> 0) es)" for es :: "(string, candidate_state) gomap"
      by (induction es) (auto dest: expire_one_flight(1))
    then show ?thesis by (simp add: in_flight_def expire_def)
  qed
  moreover have "accounted ps k c" if "map_of (dt_entries (expire now d)) k = Some c" for k c
    using that assms map_of_filter_value [OF g, of "\<lambda>c. \<not> forgotten now c" k] expire_one_flight(2)
    by (auto simp: expire_def rounds_ok_def split: option.splits if_splits)
  ultimately show ?thesis
    using assms by (simp add: rounds_ok_def) (simp add: expire_def)
qed

lemma new_epoch_rounds_ok:
  assumes "rounds_ok log d ps"
  shows "rounds_ok log (new_epoch e d) ps"
proof -
  have "in_flight (new_epoch e d) \<le> in_flight d"
    by (simp add: in_flight_def new_epoch_def filter_map comp_def split_beta)
  with assms show ?thesis
    by (auto simp: rounds_ok_def new_epoch_def accounted_def)
qed

lemma rounds_ok_cong:
  "rounds_ok log d ps \<Longrightarrow> dt_entries d' = dt_entries d \<Longrightarrow> rounds_ok log d' ps"
  by (simp add: rounds_ok_def in_flight_def)

lemma Next_rounds_ok:
  assumes "rounds_ok log d ps"
  shows "rounds_ok log (snd (Next now epoch d)) (ps @ issued_by d (Det_Next now epoch))"
proof (cases "\<not> dt_enabled d \<or> epoch = ''''")
  case True
  with assms show ?thesis by (auto simp: Next_def)
next
  case False
  define d2 where "d2 = open_window now (expire now (new_epoch epoch d))"
  have d2: "rounds_ok log d2 ps"
    unfolding d2_def by (rule rounds_ok_cong [OF expire_rounds_ok [OF new_epoch_rounds_ok [OF assms, of epoch], of now]]) (simp add: open_window_def)
  show ?thesis
  proof (cases "dt_budget d2 \<ge> DetectionPerMinute \<or> pick_candidate now (dt_entries d2) = None")
    case True
    with False d2 show ?thesis by (auto simp: Next_def Let_def d2_def [symmetric])
  next
    case pick: False
    then obtain name c where c: "pick_candidate now (dt_entries d2) = Some (name, c)" by auto
    let ?c = "c\<lparr>cs_inFlight := dt_nextToken d2 + 1, cs_started := now, cs_checked := now\<rparr>"
    let ?pb = "\<lparr>pb_window = dt_window d2, pb_at = now, pb_domain = name\<rparr>"
    have m: "map_of (dt_entries d2) name = Some c" by (rule pick_candidate_Some [OF c])
    have "rounds_ok log (put_candidate name ?c d2) (ps @ [?pb])"
    proof (rule put_rounds_ok [OF d2])
      show "accounted (ps @ [?pb]) name ?c" using d2 m by (auto simp: accounted_def rounds_ok_def)
      show "length log + in_flight (put_candidate name ?c d2) \<le> length (ps @ [?pb])"
        using d2 m in_flight_put [of d2 name ?c] by (auto simp: rounds_ok_def split: if_splits)
    qed
    then show ?thesis
      using False pick c by (simp add: Next_def Let_def d2_def [symmetric] rounds_ok_def in_flight_def put_candidate_def)
  qed
qed

lemma Observe_domain_rounds_ok:
  assumes "rounds_ok log d ps"
  shows "rounds_ok log (snd (Observe_domain v now d)) ps"
proof -
  let ?d = "expire now d"
  have e: "rounds_ok log ?d ps" by (rule expire_rounds_ok [OF assms])
  have "rounds_ok log (put_candidate k c' ?d) (ps @ [])"
    if "accounted ps k c'" "cs_inFlight c' = (case map_of (dt_entries ?d) k of None \<Rightarrow> 0 | Some c \<Rightarrow> cs_inFlight c)" for k c'
    using that e in_flight_put [of ?d k c']
    by (intro put_rounds_ok [OF e]) (auto simp: rounds_ok_def split: option.splits if_splits)
  moreover have "accounted ps k (new_candidate now)" for k by (simp add: accounted_def new_candidate_def)
  moreover have "accounted ps k (c\<lparr>cs_seen := now\<rparr>)" if "map_of (dt_entries ?d) k = Some c" for k c
    using that e by (auto simp: rounds_ok_def accounted_def)
  ultimately show ?thesis
    using assms e rounds_ok_cong [OF e]
    by (auto simp: Observe_domain_def Let_def put_candidate_def new_candidate_def split: sum.split option.split)
qed

lemma record_verdict_put:
  "\<exists>c'. dt_entries (snd (record_verdict v k c now d)) = dt_entries (put_candidate k c' d) \<and>
     cs_inFlight c' = cs_inFlight c \<and>
     (cs_expires c' = cs_expires c \<or> cs_expires c' = 0 \<or> v = Blocked \<and> cs_expires c' = now + DetectionTTL)"
  by (rule exI [of _ "the (map_of (dt_entries (snd (record_verdict v k c now d))) k)"], cases v)
    (simp_all add: record_verdict_def put_candidate_def Let_def)

lemma Record_rounds_ok:
  assumes "rounds_ok log d ps"
  shows "rounds_ok (round_log ca ro now d @ log) (snd (Record ca ro now d)) ps"
proof (cases "awaited ca d")
  case None
  with assms show ?thesis by (simp add: Record_def round_log_def)
next
  case (Some c)
  let ?k = "ca_Domain ca"
  from Some have m: "map_of (dt_entries d) ?k = Some c" "cs_inFlight c \<noteq> 0"
    by (auto simp: awaited_def split: option.splits if_splits)
  with assms have acc: "accounted ps ?k c" and g: "gomap_ok (dt_entries d)" by (simp_all add: rounds_ok_def)
  obtain c' where rv: "dt_entries (snd (Record ca ro now d)) = dt_entries (put_candidate ?k c' d)" "cs_inFlight c' = 0"
    "cs_expires c' = cs_expires c \<or> cs_expires c' = 0 \<or> round_verdict c ro now = Blocked \<and> cs_expires c' = now + DetectionTTL"
    using record_verdict_put [of "round_verdict c ro now" ?k "c\<lparr>cs_inFlight := 0\<rparr>" now d] Some by (auto simp: Record_def)
  have "now \<le> cs_started c + 2 * minute" if "round_verdict c ro now = Blocked"
    using that by (auto simp: round_verdict_def time_sub_def minute_def split: if_splits)
  with rv(2,3) acc m(2) have "accounted (ps @ []) ?k c'" by (fastforce simp: accounted_def)
  moreover have "length ((?k, round_verdict c ro now) # log) + in_flight (put_candidate ?k c' d) \<le> length (ps @ [])"
    using in_flight_put [OF g, of ?k c'] m rv(2) assms by (simp add: rounds_ok_def)
  ultimately have "rounds_ok ((?k, round_verdict c ro now) # log) (put_candidate ?k c' d) (ps @ [])"
    by (rule put_rounds_ok [OF assms])
  from rounds_ok_cong [OF this rv(1)] Some show ?thesis by (simp add: round_log_def)
qed

lemma det_run_rounds_ok: "rounds_ok (snd (det_run enabled ops)) (fst (det_run enabled ops)) (probes enabled ops)"
proof (induction ops rule: rev_induct)
  case Nil
  show ?case by (simp add: rounds_ok_def det_run_def NewDetector_def in_flight_def)
next
  case (snoc q ops)
  obtain d log where d: "det_run enabled ops = (d, log)" by (cases "det_run enabled ops")
  with snoc have IH: "rounds_ok log d (probes enabled ops)" by simp
  show ?case
    using Next_rounds_ok [OF IH] Observe_domain_rounds_ok [OF IH] Record_rounds_ok [OF IH] expire_rounds_ok [OF IH]
    by (cases q) (simp_all add: probes_snoc det_run_snoc d Learned_def Status_detector_def Let_def)
qed

text \<open>Every learned domain has a probe of its own, issued less than 62 minutes ago.\<close>

lemma learned_probes:
  assumes "rounds_ok log d ps" and "0 < now" and "\<forall>pb \<in> set ps. pb_at pb \<le> now"
  shows "learned_count now d \<le> length (filter (\<lambda>pb. now - 62 * minute < pb_at pb \<and> pb_at pb \<le> now) ps)"
proof -
  let ?L = "filter (\<lambda>(k, e). now < cs_expires e) (dt_entries d)"
  let ?R = "filter (\<lambda>pb. now - 62 * minute < pb_at pb \<and> pb_at pb \<le> now) ps"
  have g: "gomap_ok (dt_entries d)" using assms(1) by (simp add: rounds_ok_def)
  then have "distinct (map fst ?L)" by (simp add: gomap_ok_def distinct_map_filter)
  from distinct_card [OF this] have count: "learned_count now d = card (fst ` set ?L)"
    unfolding learned_count_def set_map length_map by (rule sym)
  have "fst ` set ?L \<subseteq> pb_domain ` set ?R"
  proof
    fix k assume "k \<in> fst ` set ?L"
    then obtain c where "(k, c) \<in> set (dt_entries d)" "now < cs_expires c" by auto
    then have "map_of (dt_entries d) k = Some c" using g by (simp add: gomap_ok_set)
    then have "accounted ps k c" using assms(1) by (simp add: rounds_ok_def)
    moreover have "cs_expires c \<noteq> 0" using \<open>now < cs_expires c\<close> assms(2) by simp
    ultimately obtain pb where "pb \<in> set ps" "pb_domain pb = k" "cs_expires c \<le> pb_at pb + 2 * minute + DetectionTTL"
      by (auto simp: accounted_def)
    moreover from this(3) \<open>now < cs_expires c\<close> have "now - 62 * minute < pb_at pb"
      by (simp add: DetectionTTL_def hour_def minute_def)
    ultimately show "k \<in> pb_domain ` set ?R" using assms(3) by auto
  qed
  then have "card (fst ` set ?L) \<le> card (pb_domain ` set ?R)"
    by (rule card_mono [rotated]) (rule finite_imageI, rule finite_set)
  also have "\<dots> \<le> card (set ?R)" by (rule card_image_le) (rule finite_set)
  also have "\<dots> \<le> length ?R" by (rule card_length)
  finally show ?thesis unfolding count .
qed

lemma clock_bound: "\<exists>now. (\<forall>q \<in> set ops. op_time q \<le> now) \<and> 0 \<le> now"
proof (induction ops)
  case (Cons q ops)
  then obtain now where "\<forall>r \<in> set ops. op_time r \<le> now" "0 \<le> now" by blast
  then show ?case by (intro exI [of _ "max now (op_time q)"]) auto
qed auto

section \<open>Properties of the detector\<close>

text \<open>
  C31: over any sequence of calls the detector keeps its bounds: at most 2048 candidates, each a
  distinct canonical domain that is not local, and no more rounds recorded than probes that
  \<^verbatim>\<open>Next\<close> issued. When the clock does not run backwards, every probe is charged to one window of a
  minute, no window is charged more than twelve times and the budget counts the charges of the
  current one, so that in any period of \<open>n\<close> minutes at most \<open>12 * (n + 1)\<close> probes are issued.
\<close>

theorem detector_keeps_bounds:
  fixes enabled ops
  defines "d \<equiv> fst (det_run enabled ops)" and "ps \<equiv> probes enabled ops"
  shows "length (dt_entries d) \<le> MaxCandidates \<and>
   0 \<le> dt_budget d \<and> dt_budget d \<le> DetectionPerMinute \<and>
   distinct (map fst (dt_entries d)) \<and>
   fst ` set (dt_entries d) \<subseteq> {k. CanonicalDomain k = Inr k \<and> \<not> LocalDomain k} \<and>
   length (snd (det_run enabled ops)) \<le> length ps \<and>
   (clock_ok ops \<longrightarrow>
     dt_budget d = int (charges (dt_window d) ps) \<and>
     (\<forall>w. int (charges w ps) \<le> DetectionPerMinute) \<and>
     (\<forall>t n. length (filter (\<lambda>pb. t < pb_at pb \<and> pb_at pb \<le> t + int n * minute) ps) \<le> 12 * (n + 1)))"
proof -
  have ok: "detector_ok (snd (det_run enabled ops)) d"
    unfolding d_def by (rule det_run_ok)
  have "CanonicalDomain k = Inr k \<and> \<not> LocalDomain k" if k: "k \<in> fst ` set (dt_entries d)" for k
  proof -
    obtain c where "map_of (dt_entries d) k = Some c"
      using k by (cases "map_of (dt_entries d) k") (auto simp: map_of_eq_None_iff)
    then have "candidate_ok (snd (det_run enabled ops)) k c"
      using ok unfolding detector_ok_def by blast
    then show ?thesis unfolding candidate_ok_def by blast
  qed
  then have "fst ` set (dt_entries d) \<subseteq> {k. CanonicalDomain k = Inr k \<and> \<not> LocalDomain k}"
    by blast
  moreover have "length (dt_entries d) \<le> MaxCandidates \<and> 0 \<le> dt_budget d \<and> dt_budget d \<le> DetectionPerMinute \<and> distinct (map fst (dt_entries d))"
    using ok by (simp add: detector_ok_def gomap_ok_def)
  moreover have "length (snd (det_run enabled ops)) \<le> length ps"
    using det_run_rounds_ok [of enabled ops] by (simp add: rounds_ok_def ps_def)
  moreover have "dt_budget d = int (charges (dt_window d) ps) \<and> (\<forall>w. int (charges w ps) \<le> DetectionPerMinute) \<and>
     (\<forall>t n. length (filter (\<lambda>pb. t < pb_at pb \<and> pb_at pb \<le> t + int n * minute) ps) \<le> 12 * (n + 1))" if "clock_ok ops"
  proof -
    obtain now where "\<forall>q \<in> set ops. op_time q \<le> now" "0 \<le> now"
      using clock_bound by blast
    from det_run_charged [OF that this] have "charged now d ps" by (simp add: d_def ps_def)
    then show ?thesis
      using probes_in_period [OF \<open>charged now d ps\<close>] unfolding charged_def DetectionPerMinute_def by simp
  qed
  ultimately show ?thesis by blast
qed

text \<open>
  C19: a domain is reported as restricted only if, at some time before, three consecutive awaited
  rounds for it were conclusive: complete, all addresses public and distinct, none reachable
  directly, all reachable through the bypass, with a fresh control measurement; and the report has
  not expired.
\<close>

theorem learned_needs_three_blocked_rounds:
  assumes "0 \<le> now" and "map_of (fst (Learned now (fst (det_run enabled ops)))) k = Some expiry"
  shows "now < expiry \<and> blocked_thrice k (snd (det_run enabled ops))"
proof -
  define d where "d = expire now (fst (det_run enabled ops))"
  have ok: "detector_ok (snd (det_run enabled ops)) d"
    unfolding d_def by (rule expire_ok [OF det_run_ok])
  have "map_of (map (\<lambda>(k, c). (k, cs_expires c)) (filter (\<lambda>(k, c). now < cs_expires c) (dt_entries d))) k = Some expiry"
    using assms(2) by (simp add: Learned_def Let_def d_def)
  then obtain c where c: "map_of (filter (\<lambda>(k, c). now < cs_expires c) (dt_entries d)) k = Some c" "expiry = cs_expires c"
    by auto
  moreover have "gomap_ok (dt_entries d)" using ok by (simp add: detector_ok_def)
  ultimately have m: "map_of (dt_entries d) k = Some c" "now < cs_expires c"
    by (auto simp: map_of_filter_value split: option.splits if_splits)
  then have "cs_expires c \<noteq> 0"
    using assms(1) by simp
  then show ?thesis
    using m c(2) ok by (auto simp: detector_ok_def candidate_ok_def)
qed

text \<open>A run of the detector with three conclusive rounds, for the witnesses.\<close>

definition sample_round :: "gotime \<Rightarrow> probe_round" where
  "sample_round now = \<lparr>ro_Addresses = [\<lparr>ar_IP = V4 134744072, ar_DirectSuccess = False, ar_BypassSuccess = True, ar_CertificateError = False\<rparr>],
     ro_Complete = True, ro_ControlOK = True, ro_ControlAt = now, ro_DNSError = False\<rparr>"

definition sample_candidate :: "uint64 \<Rightarrow> candidate" where
  "sample_candidate token = \<lparr>ca_Domain = ''example.org'', ca_Epoch = ''e'', ca_Token = token, ca_Recheck = False\<rparr>"

definition sample_det_ops :: "det_op list" where
  "sample_det_ops =
     [Det_Observe ''example.org'' 1,
      Det_Next 2 ''e'', Det_Record (sample_candidate 1) (sample_round 3) 3,
      Det_Next (20 * second) ''e'', Det_Record (sample_candidate 2) (sample_round (20 * second)) (20 * second),
      Det_Next (40 * second) ''e'', Det_Record (sample_candidate 3) (sample_round (40 * second)) (40 * second)]"

theorem learned_needs_three_blocked_rounds_witness:
  "map_of (fst (Learned (41 * second) (fst (det_run True sample_det_ops)))) ''example.org'' = Some (40 * second + hour) \<and>
   blocked_thrice ''example.org'' (snd (det_run True sample_det_ops))"
proof -
  have l: "map_of (fst (Learned (41 * second) (fst (det_run True sample_det_ops)))) ''example.org'' = Some (40 * second + hour)"
    by code_simp
  moreover have "0 \<le> 41 * second" by (simp add: second_def)
  ultimately show ?thesis
    using learned_needs_three_blocked_rounds by blast
qed

lemma record_verdict_entry:
  "(\<exists>c'. map_of (dt_entries (snd (record_verdict v k c now d))) k = Some c' \<and> cs_inFlight c' = cs_inFlight c) \<and>
    dt_enabled (snd (record_verdict v k c now d)) = dt_enabled d \<and> dt_epoch (snd (record_verdict v k c now d)) = dt_epoch d"
  by (cases v) (auto simp: record_verdict_def put_candidate_def Let_def)

text \<open>
  A probe result counts once. After \<^verbatim>\<open>Record\<close> has seen a candidate's token, whatever the
  outcome, recording any round for the same candidate again returns false and changes nothing.
\<close>

theorem result_counts_once:
  "Record ca ro' now' (snd (Record ca ro now d)) = (False, snd (Record ca ro now d))"
proof (cases "awaited ca d")
  case None
  then show ?thesis by (simp add: Record_def)
next
  case (Some c)
  have "ca_Token ca \<noteq> 0" using Some by (auto simp: awaited_def split: option.splits if_splits)
  moreover obtain c' where "map_of (dt_entries (snd (Record ca ro now d))) (ca_Domain ca) = Some c'" "cs_inFlight c' = 0"
    using Some record_verdict_entry [of "round_verdict c ro now" "ca_Domain ca" "c\<lparr>cs_inFlight := 0\<rparr>" now d]
    by (auto simp: Record_def)
  ultimately have "awaited ca (snd (Record ca ro now d)) = None"
    by (auto simp: awaited_def)
  then show ?thesis
    by (subst Record_def) simp
qed

theorem detector_keeps_bounds_witness:
  "clock_ok sample_det_ops \<and> length (probes True sample_det_ops) = 3 \<and>
   dt_budget (fst (det_run True sample_det_ops)) = int (charges 2 (probes True sample_det_ops)) \<and>
   length (filter (\<lambda>pb. 2 < pb_at pb \<and> pb_at pb \<le> 2 + minute) (probes True sample_det_ops)) \<le> 24"
proof -
  have run: "clock_ok sample_det_ops" "length (probes True sample_det_ops) = 3" "dt_window (fst (det_run True sample_det_ops)) = 2"
    by code_simp+
  with detector_keeps_bounds [of True sample_det_ops]
  have bound: "\<forall>t n. length (filter (\<lambda>pb. t < pb_at pb \<and> pb_at pb \<le> t + int n * minute) (probes True sample_det_ops)) \<le> 12 * (n + 1)"
    and "dt_budget (fst (det_run True sample_det_ops)) = int (charges 2 (probes True sample_det_ops))"
    by simp_all
  with run bound [rule_format, of 2 1] show ?thesis by simp
qed

text \<open>
  C40: the number of domains that are learned at one time is at most 756 and so below
  \<^verbatim>\<open>MaxLearned\<close>, when the clock does not run backwards: every one of them has a probe of its own
  issued in the last 62 minutes, and the probe budget allows no more. The limit of 1024 that
  \<^verbatim>\<open>Record\<close> checks, only for candidates that have no expiry, is therefore never the one that binds,
  and the set of learned domains handed to the rule compiler is never too large.
\<close>

theorem learned_within_limit:
  assumes "clock_ok (ops @ [Det_Learned now])"
  shows "learned_count now (fst (det_run enabled ops)) \<le> 756 \<and>
    length (fst (Learned now (fst (det_run enabled ops)))) \<le> 756 \<and> 756 < MaxLearned"
proof -
  let ?d = "fst (det_run enabled ops)" and ?ps = "probes enabled ops"
  have now: "0 < now" "\<forall>q \<in> set ops. op_time q \<le> now" and clock: "clock_ok ops"
    using assms by (simp_all add: clock_ok_snoc)
  have run: "rounds_ok (snd (det_run enabled ops)) ?d ?ps" "charged now ?d ?ps"
    using det_run_rounds_ok det_run_charged [OF clock now(2)] now(1) by simp_all
  have "learned_count now d' \<le> 756" if "rounds_ok log d' ?ps" for log d'
    using learned_probes [OF that now(1)] probes_in_period [OF run(2), of "now - 62 * minute" 62] run(2)
    by (simp add: charged_def)
  from this [OF run(1)] this [OF expire_rounds_ok [OF run(1), of now]] show ?thesis
    by (simp add: Learned_def Let_def learned_count_def MaxLearned_def)
qed

theorem learned_within_limit_witness:
  "learned_count (41 * second) (fst (det_run True sample_det_ops)) = 1 \<and>
   length (fst (Learned (41 * second) (fst (det_run True sample_det_ops)))) \<le> 756"
proof -
  have "clock_ok (sample_det_ops @ [Det_Learned (41 * second)])" by code_simp
  moreover have "learned_count (41 * second) (fst (det_run True sample_det_ops)) = 1" by code_simp
  ultimately show ?thesis using learned_within_limit by blast
qed
end
