(* ===== verification/Registry.thy ===== *)
theory Registry
  imports Routing_Props Detector
begin

text \<open>
  The registry lists of \<^verbatim>\<open>internal/routing/snapshot.go\<close>: parsing the published lists, validating a
  snapshot and compiling the rule set of the dispatcher. The reader of a list is its bytes with the
  error that ends it, if any.
\<close>

section \<open>Lines\<close>

definition MaxListBytes :: nat where "MaxListBytes = 64 * 1024 * 1024"
definition MaxDomains :: nat where "MaxDomains = 2000000"
definition MaxPrefixes :: nat where "MaxPrefixes = 65536"
definition MaxRejectedDomains :: int where "MaxRejectedDomains = 1024"
definition scanBuffer :: nat where "scanBuffer = 4096"

fun split_newlines :: "string \<Rightarrow> string list" where
  "split_newlines [] = [[]]"
| "split_newlines (c # cs) =
     (if of_char c = (10 :: nat) then [] # split_newlines cs
      else case split_newlines cs of l # ls \<Rightarrow> (c # l) # ls | [] \<Rightarrow> [[c]])"

definition drop_cr :: "string \<Rightarrow> string" where
  "drop_cr l = (if l \<noteq> [] \<and> of_char (last l) = (13 :: nat) then butlast l else l)"

text \<open>
  \<^verbatim>\<open>bufio.Scanner\<close> with \<^verbatim>\<open>ScanLines\<close> and a buffer of 4096 bytes: the lines up to one that does not
  fit with its end of line, and whether there was such a line.
\<close>

definition scan_lines :: "string \<Rightarrow> string list \<times> bool" where
  "scan_lines text =
     (let raw = split_newlines text; ls = (if last raw = [] then butlast raw else raw)
      in (map drop_cr (takeWhile (\<lambda>l. length l < scanBuffer) ls), list_ex (\<lambda>l. length l \<ge> scanBuffer) ls))"

text \<open>\<^verbatim>\<open>strings.TrimSpace\<close>: the bytes of a white-space character at the front, in UTF-8.\<close>

definition byte_at :: "string \<Rightarrow> nat \<Rightarrow> nat" where
  "byte_at s i = (if i < length s then of_char (s ! i) else 256)"

definition space3 :: "nat \<Rightarrow> nat \<Rightarrow> nat \<Rightarrow> bool" where
  "space3 a b c \<longleftrightarrow> a = 225 \<and> b = 154 \<and> c = 128 \<or> a = 226 \<and> b = 128 \<and> (128 \<le> c \<and> c \<le> 138 \<or> c = 168 \<or> c = 169 \<or> c = 175) \<or>
     a = 226 \<and> b = 129 \<and> c = 159 \<or> a = 227 \<and> b = 128 \<and> c = 128"

definition front_space :: "string \<Rightarrow> nat" where
  "front_space s =
     (if s \<noteq> [] \<and> is_space (hd s) then 1
      else if byte_at s 0 = 194 \<and> (byte_at s 1 = 133 \<or> byte_at s 1 = 160) then 2
      else if space3 (byte_at s 0) (byte_at s 1) (byte_at s 2) then 3 else 0)"

definition back_space :: "string \<Rightarrow> nat" where
  "back_space s = (let r = rev s in
     if r \<noteq> [] \<and> is_space (hd r) then 1
     else if byte_at r 1 = 194 \<and> (byte_at r 0 = 133 \<or> byte_at r 0 = 160) then 2
     else if space3 (byte_at r 2) (byte_at r 1) (byte_at r 0) then 3 else 0)"

function trim_left :: "string \<Rightarrow> string" where
  "trim_left s = (if front_space s = 0 \<or> s = [] then s else trim_left (drop (front_space s) s))"
  by pat_completeness auto
termination by (relation "measure length") (auto simp: length_greater_0_conv)

declare trim_left.simps [simp del]

function trim_right :: "string \<Rightarrow> string" where
  "trim_right s = (if back_space s = 0 \<or> s = [] then s else trim_right (take (length s - back_space s) s))"
  by pat_completeness auto
termination
proof (relation "measure length")
  show "(take (length s - back_space s) s, s) \<in> measure length" if "\<not> (back_space s = 0 \<or> s = [])" for s
    using that by (cases s) auto
qed simp

declare trim_right.simps [simp del]

definition trim_space :: "string \<Rightarrow> string" where
  "trim_space s = trim_right (trim_left s)"

section \<open>Parsing lists\<close>

definition list_item :: "bool \<Rightarrow> string \<Rightarrow> string result" where
  "list_item domains line =
     (if domains then
        (case CanonicalDomain line of
           Inl _ \<Rightarrow> Inl (Error_New ''invalid registry domain'')
         | Inr d \<Rightarrow> if LocalDomain d then Inl (Error_New ''invalid registry domain'') else Inr d)
      else
        (case CanonicalPrefix line of
           Inl _ \<Rightarrow> Inl (Error_New ''invalid registry subnet'')
         | Inr p \<Rightarrow> Inr (prefix_String p)))"

fun list_items :: "bool \<Rightarrow> nat \<Rightarrow> string list \<Rightarrow> string list \<Rightarrow> string list result" where
  "list_items domains limit vals [] = Inr vals"
| "list_items domains limit vals (raw # rest) =
     (let line = trim_space raw in
      if line = '''' \<or> hd line = CHR ''#'' then list_items domains limit vals rest
      else if length vals \<ge> limit then Inl (Error_New ''registry entry limit exceeded'')
      else bind_result (list_item domains line) (\<lambda>v. list_items domains limit (vals @ [v]) rest))"

definition parseList :: "string \<times> go_error option \<Rightarrow> bool \<Rightarrow> string list result" where
  "parseList r domains =
     (let limit = (if domains then MaxDomains else MaxPrefixes);
          scanned = scan_lines (take (MaxListBytes + 1) (fst r))
      in bind_result (list_items domains limit [] (fst scanned)) (\<lambda>vals.
        if snd r \<noteq> None \<or> snd scanned \<or> length (fst r) > MaxListBytes
        then Inl (Error_New ''registry list exceeds size or line limit'')
        else if vals = [] then Inl (Error_New ''empty registry list'')
        else Inr (uniqueSorted vals)))"

definition ParseDomains :: "string \<times> go_error option \<Rightarrow> string list result" where
  "ParseDomains r = parseList r True"

definition ParseSubnets :: "string \<times> go_error option \<Rightarrow> string list result" where
  "ParseSubnets r = parseList r False"

section \<open>Snapshots\<close>

text \<open>
  The loops of \<^verbatim>\<open>ValidateSnapshot\<close>: every element canonical and greater than the one before.
\<close>

fun domains_ok :: "string option \<Rightarrow> string list \<Rightarrow> bool" where
  "domains_ok prev [] = True"
| "domains_ok prev (d # ds) =
     ((case CanonicalDomain d of Inl _ \<Rightarrow> False | Inr v \<Rightarrow> v = d \<and> \<not> LocalDomain v) \<and>
      (case prev of None \<Rightarrow> True | Some p \<Rightarrow> p < d) \<and> domains_ok (Some d) ds)"

fun cidrs_ok :: "string option \<Rightarrow> string list \<Rightarrow> bool" where
  "cidrs_ok prev [] = True"
| "cidrs_ok prev (c # cs) =
     ((case CanonicalPrefix c of Inl _ \<Rightarrow> False | Inr p \<Rightarrow> prefix_String p = c) \<and>
      (case prev of None \<Rightarrow> True | Some p \<Rightarrow> p < c) \<and> cidrs_ok (Some c) cs)"

definition ValidateSnapshot :: "registry_snapshot \<Rightarrow> go_error option" where
  "ValidateSnapshot s =
     (if rs_Generation s = 0 \<or> is_zero (rs_CreatedAt s) \<or> length (rs_Domains s) > MaxDomains \<or> length (rs_CIDRs s) > MaxPrefixes \<or>
         rs_RejectedDomains s < 0 \<or> rs_RejectedDomains s > MaxRejectedDomains
      then Some (Error_New ''invalid registry snapshot metadata'')
      else if \<not> domains_ok None (rs_Domains s) then Some (Error_New ''registry domains must be canonical, sorted and unique'')
      else if \<not> cidrs_ok None (rs_CIDRs s) then Some (Error_New ''registry subnets must be canonical, sorted and unique'')
      else None)"

section \<open>The rule set\<close>

record rule_set_rule =
  ru_Domain :: "string list"
  ru_IPCIDR :: "string list"

definition domainsPerRule :: nat where "domainsPerRule = 16 * 1024"

function domain_rules :: "string list \<Rightarrow> rule_set_rule list" where
  "domain_rules ds =
     (if ds = [] then [] else \<lparr>ru_Domain = take domainsPerRule ds, ru_IPCIDR = []\<rparr> # domain_rules (drop domainsPerRule ds))"
  by pat_completeness auto
termination by (relation "measure length") (auto simp: domainsPerRule_def)

declare domain_rules.simps [simp del]

text \<open>The rules that \<^verbatim>\<open>CompileRuleSet\<close> serialises.\<close>

definition CompileRuleSet :: "registry_snapshot \<Rightarrow> string list \<Rightarrow> rule_set_rule list result" where
  "CompileRuleSet s learned =
     (case ValidateSnapshot s of Some e \<Rightarrow> Inl e | None \<Rightarrow>
      if length learned > MaxLearned then Inl (Error_New ''learned domain limit exceeded'')
      else bind_result (map_result (listed_domain ''learned'') learned) (\<lambda>ls.
        let domains = rs_Domains s @ ls in
        Inr ((if domains = [] then [] else domain_rules (uniqueSorted domains)) @
             (if rs_CIDRs s = [] then [] else [\<lparr>ru_Domain = [], ru_IPCIDR = rs_CIDRs s\<rparr>]))))"

section \<open>Properties\<close>

lemma set_unique_adjacent: "set (unique_adjacent xs) = set xs"
  by (induction xs rule: unique_adjacent.induct) auto

lemma unique_adjacent_le: "sorted (x # xs) \<Longrightarrow> \<exists>ys. unique_adjacent (x # xs) = x # ys"
proof (induction xs arbitrary: x)
  case Nil
  then show ?case by simp
next
  case (Cons y r)
  then show ?case by (cases "x = y") auto
qed

lemma unique_adjacent_sorted: "sorted xs \<Longrightarrow> sorted_wrt (<) (unique_adjacent xs)"
proof (induction xs rule: unique_adjacent.induct)
  case (1 x y r)
  then have "sorted_wrt (<) (unique_adjacent (y # r))" by (cases "x = y") simp_all
  moreover have "\<forall>z \<in> set (unique_adjacent (y # r)). x < z" if "x \<noteq> y"
    using 1(3) that by (auto simp: set_unique_adjacent)
  ultimately show ?case by simp
qed auto

lemma uniqueSorted_set: "set (uniqueSorted vals) = set vals"
  by (simp add: uniqueSorted_def set_unique_adjacent)

lemma uniqueSorted_sorted: "sorted_wrt (<) (uniqueSorted vals)"
  by (simp add: uniqueSorted_def unique_adjacent_sorted)

lemma length_unique_adjacent: "length (unique_adjacent xs) \<le> length xs"
  by (induction xs rule: unique_adjacent.induct) auto

lemma uniqueSorted_length: "length (uniqueSorted vals) \<le> length vals"
  using length_unique_adjacent [of "sort vals"] by (simp add: uniqueSorted_def)

text \<open>The validator accepts exactly the strictly increasing lists of canonical elements.\<close>

definition good_domain :: "string \<Rightarrow> bool" where
  "good_domain d \<longleftrightarrow> CanonicalDomain d = Inr d \<and> \<not> LocalDomain d"

definition good_cidr :: "string \<Rightarrow> bool" where
  "good_cidr c \<longleftrightarrow> (\<exists>p. CanonicalPrefix c = Inr p \<and> prefix_String p = c)"

lemma sorted_head: "sorted_wrt (<) xs \<Longrightarrow> xs \<noteq> [] \<longrightarrow> a < hd xs \<Longrightarrow> x \<in> set xs \<Longrightarrow> a < (x :: string)"
  by (cases xs) (auto intro: less_trans)

lemma domains_ok_iff:
  "domains_ok prev ds \<longleftrightarrow> (\<forall>d \<in> set ds. good_domain d) \<and> sorted_wrt (<) ds \<and> (prev \<noteq> None \<and> ds \<noteq> [] \<longrightarrow> the prev < hd ds)"
  by (induction ds arbitrary: prev)
    (auto simp: good_domain_def split: sum.splits option.splits dest: sorted_head)

lemma cidrs_ok_iff:
  "cidrs_ok prev cs \<longleftrightarrow> (\<forall>c \<in> set cs. good_cidr c) \<and> sorted_wrt (<) cs \<and> (prev \<noteq> None \<and> cs \<noteq> [] \<longrightarrow> the prev < hd cs)"
  by (induction cs arbitrary: prev)
    (auto simp: good_cidr_def split: sum.splits option.splits dest: sorted_head)

lemma list_items_props:
  assumes "list_items domains limit vals ls = Inr vs" and "length vals \<le> limit"
  shows "set vs \<subseteq> set vals \<union> {v. \<exists>raw \<in> set ls. list_item domains (trim_space raw) = Inr v} \<and> length vs \<le> limit"
  using assms
proof (induction domains limit vals ls rule: list_items.induct)
  case (1 domains limit vals)
  then show ?case by simp
next
  case (2 domains limit vals raw rest)
  show ?case
  proof (cases "trim_space raw = [] \<or> hd (trim_space raw) = CHR ''#''")
    case True
    then show ?thesis using 2(1) [OF refl True] "2.prems" by auto
  next
    case False
    then obtain v where v: "\<not> limit \<le> length vals" "list_item domains (trim_space raw) = Inr v" "list_items domains limit (vals @ [v]) rest = Inr vs"
      using "2.prems"(1) by (auto simp: Let_def split: if_splits)
    then have "set vs \<subseteq> set (vals @ [v]) \<union> {v. \<exists>raw \<in> set rest. list_item domains (trim_space raw) = Inr v} \<and> length vs \<le> limit"
      by (intro 2(2) [OF refl False v(1,3)]) auto
    then show ?thesis using v(2) by auto
  qed
qed

definition list_lines :: "string \<times> go_error option \<Rightarrow> string list" where
  "list_lines r = map trim_space (fst (scan_lines (take (MaxListBytes + 1) (fst r))))"

lemma parseList_props:
  assumes "parseList r domains = Inr vs"
  shows "(\<forall>v \<in> set vs. \<exists>l \<in> set (list_lines r). list_item domains l = Inr v) \<and> sorted_wrt (<) vs \<and>
    length vs \<le> (if domains then MaxDomains else MaxPrefixes)"
proof -
  define ls where "ls = fst (scan_lines (take (MaxListBytes + 1) (fst r)))"
  define limit where "limit = (if domains then MaxDomains else MaxPrefixes)"
  obtain vals where vs: "vs = uniqueSorted vals" and "list_items domains limit [] ls = Inr vals"
    using assms by (auto simp: parseList_def Let_def ls_def limit_def split: if_splits)
  then have "set vals \<subseteq> {v. \<exists>raw \<in> set ls. list_item domains (trim_space raw) = Inr v} \<and> length vals \<le> limit"
    using list_items_props [of domains limit "[]" ls vals] by simp
  then show ?thesis
    using uniqueSorted_length [of vals] by (auto simp: vs uniqueSorted_set uniqueSorted_sorted list_lines_def ls_def limit_def)
qed

lemma canonical_printed:
  assumes "CanonicalPrefix l = Inr p" and "ParsePrefix (prefix_String p) = Inr p"
  shows "CanonicalPrefix (prefix_String p) = Inr p"
  using assms by (auto simp: CanonicalPrefix_def split: if_splits)

lemma parsed_subnets:
  assumes "ParseSubnets rc = Inr cs"
    and "\<forall>l p. l \<in> set (list_lines rc) \<and> CanonicalPrefix l = Inr p \<longrightarrow> ParsePrefix (prefix_String p) = Inr p"
  shows "cidrs_ok None cs" and "length cs \<le> MaxPrefixes"
proof -
  have c: "\<forall>v \<in> set cs. \<exists>l \<in> set (list_lines rc). list_item False l = Inr v" "sorted_wrt (<) cs" "length cs \<le> MaxPrefixes"
    using parseList_props [OF assms(1) [unfolded ParseSubnets_def]] by auto
  have "good_cidr v" if v: "v \<in> set cs" for v
  proof -
    obtain l p where "l \<in> set (list_lines rc)" "CanonicalPrefix l = Inr p" "v = prefix_String p"
      using v c(1) by (fastforce simp: list_item_def split: sum.splits)
    then show ?thesis using assms(2) canonical_printed by (auto simp: good_cidr_def)
  qed
  then show "cidrs_ok None cs" "length cs \<le> MaxPrefixes" using c(2,3) by (simp_all add: cidrs_ok_iff)
qed

text \<open>
  What the parsers produce the validator accepts. If both published lists parse, the snapshot
  made of them passes \<^verbatim>\<open>ValidateSnapshot\<close>: every entry canonical and not local, sorted without
  repetition, within the limits. For the subnets, reading back a printed prefix must give the same
  prefix, as \<^verbatim>\<open>net/netip\<close> promises.
\<close>

theorem parsed_lists_validate:
  assumes "ParseDomains rd = Inr ds" and "ParseSubnets rc = Inr cs" and "generation \<noteq> 0" and "\<not> is_zero created"
    and "\<forall>l p. l \<in> set (list_lines rc) \<and> CanonicalPrefix l = Inr p \<longrightarrow> ParsePrefix (prefix_String p) = Inr p"
  shows "ValidateSnapshot \<lparr>rs_Generation = generation, rs_CreatedAt = created, rs_Domains = ds, rs_CIDRs = cs, rs_RejectedDomains = 0\<rparr> = None"
proof -
  have d: "\<forall>v \<in> set ds. \<exists>l. list_item True l = Inr v" "sorted_wrt (<) ds" "length ds \<le> MaxDomains"
    using parseList_props [OF assms(1) [unfolded ParseDomains_def]] by auto
  have "good_domain v" if "v \<in> set ds" for v
    using that d(1) canonical_idem by (fastforce simp: good_domain_def list_item_def split: sum.splits if_splits)
  then show ?thesis
    using d parsed_subnets [OF assms(2,5)] assms(3,4) by (simp add: ValidateSnapshot_def domains_ok_iff MaxRejectedDomains_def)
qed

definition sample_list :: "string list \<Rightarrow> string \<times> go_error option" where
  "sample_list ls = (concat (map (\<lambda>l. l @ [CHR 0x0A]) ls), None)"

lemma parseList_small:
  assumes "length (fst r) \<le> MaxListBytes" and "snd r = None" and "scan_lines (fst r) = (ls, False)"
    and "list_items domains (if domains then MaxDomains else MaxPrefixes) [] ls = Inr vals" and "vals \<noteq> []"
  shows "parseList r domains = Inr (uniqueSorted vals)"
  using assms by (simp add: parseList_def)

lemma sample_subnets:
  "ParseSubnets (sample_list [''8.8.8.0/24'']) = Inr [''8.8.8.0/24'']"
  "\<forall>l p. l \<in> set (list_lines (sample_list [''8.8.8.0/24''])) \<and> CanonicalPrefix l = Inr p \<longrightarrow> ParsePrefix (prefix_String p) = Inr p"
proof -
  let ?rc = "sample_list [''8.8.8.0/24'']"
  have e: "scan_lines (fst ?rc) = ([''8.8.8.0/24''], False)" "trim_space ''8.8.8.0/24'' = ''8.8.8.0/24''"
    "list_item False ''8.8.8.0/24'' = Inr ''8.8.8.0/24''" "uniqueSorted [''8.8.8.0/24''] = [''8.8.8.0/24'']"
    by code_simp+
  have small: "length (fst ?rc) \<le> MaxListBytes" "snd ?rc = None" by (simp_all add: sample_list_def MaxListBytes_def)
  show "ParseSubnets ?rc = Inr [''8.8.8.0/24'']"
    unfolding ParseSubnets_def
    using parseList_small [OF small e(1), of False "[''8.8.8.0/24'']"] by (simp add: e MaxPrefixes_def Let_def)
  have "CanonicalPrefix ''8.8.8.0/24'' = Inr (must_parse ''8.8.8.0/24'')" "ParsePrefix (prefix_String (must_parse ''8.8.8.0/24'')) = Inr (must_parse ''8.8.8.0/24'')"
    by code_simp+
  moreover have "list_lines ?rc = [''8.8.8.0/24'']"
    using small(1) by (simp add: list_lines_def e)
  ultimately show "\<forall>l p. l \<in> set (list_lines ?rc) \<and> CanonicalPrefix l = Inr p \<longrightarrow> ParsePrefix (prefix_String p) = Inr p"
    by simp
qed

theorem parsed_lists_validate_witness:
  "ParseDomains (sample_list [''b.example.org'', ''# note'', ''A.example.com'', ''b.example.org'']) = Inr [''a.example.com'', ''b.example.org''] \<and>
   ParseSubnets (sample_list [''8.8.8.0/24'']) = Inr [''8.8.8.0/24''] \<and>
   ValidateSnapshot \<lparr>rs_Generation = 1, rs_CreatedAt = 5, rs_Domains = [''a.example.com'', ''b.example.org''],
     rs_CIDRs = [''8.8.8.0/24''], rs_RejectedDomains = 0\<rparr> = None"
proof -
  let ?rd = "sample_list [''b.example.org'', ''# note'', ''A.example.com'', ''b.example.org'']"
  have scan: "scan_lines (fst ?rd) = ([''b.example.org'', ''# note'', ''A.example.com'', ''b.example.org''], False)" by code_simp
  have trim: "trim_space ''b.example.org'' = ''b.example.org''" "trim_space ''# note'' = ''# note''" "trim_space ''A.example.com'' = ''A.example.com''"
    by code_simp+
  have item: "list_item True ''b.example.org'' = Inr ''b.example.org''" "list_item True ''A.example.com'' = Inr ''a.example.com''" by code_simp+
  have us: "uniqueSorted [''b.example.org'', ''a.example.com'', ''b.example.org''] = [''a.example.com'', ''b.example.org'']" by code_simp
  have small: "length (fst ?rd) \<le> MaxListBytes" "snd ?rd = None" by (simp_all add: sample_list_def MaxListBytes_def)
  have pd: "ParseDomains ?rd = Inr [''a.example.com'', ''b.example.org'']"
    unfolding ParseDomains_def
    using parseList_small [OF small scan, of True "[''b.example.org'', ''a.example.com'', ''b.example.org'']"]
    by (simp add: trim item MaxDomains_def us Let_def)
  from parsed_lists_validate [OF pd sample_subnets(1) _ _ sample_subnets(2), of 1 5] pd sample_subnets(1) show ?thesis
    by (simp add: is_zero_def)
qed

lemma domain_rules_props:
  "concat (map ru_Domain (domain_rules ds)) = ds \<and>
    (\<forall>r \<in> set (domain_rules ds). ru_Domain r \<noteq> [] \<and> length (ru_Domain r) \<le> domainsPerRule \<and> ru_IPCIDR r = [])"
proof (induction ds rule: domain_rules.induct)
  case (1 ds)
  then show ?case by (subst (1 2) domain_rules.simps) (auto simp: domainsPerRule_def)
qed

lemma map_result_Inr: "map_result f xs = Inr ys \<longleftrightarrow> list_all2 (\<lambda>x y. f x = Inr y) xs ys"
  by (induction xs arbitrary: ys) (auto simp: list_all2_Cons1)

text \<open>
  C33: the compiled rule set is complete and bounded. Its domain rules together list each domain of
  the snapshot and the canonical form of each learned domain, exactly once and in order, in pieces
  of at most 16384, and its address rule lists the prefixes of the snapshot.
\<close>

theorem rule_set_complete:
  assumes "CompileRuleSet s learned = Inr rules"
  shows "set (concat (map ru_Domain rules)) = set (rs_Domains s) \<union> {d. \<exists>l. l \<in> set learned \<and> CanonicalDomain l = Inr d} \<and>
    sorted_wrt (<) (concat (map ru_Domain rules)) \<and> concat (map ru_IPCIDR rules) = rs_CIDRs s \<and>
    (\<forall>r \<in> set rules. length (ru_Domain r) \<le> domainsPerRule)"
proof -
  obtain ls where ls: "map_result (listed_domain ''learned'') learned = Inr ls"
    and rules: "rules = (if rs_Domains s @ ls = [] then [] else domain_rules (uniqueSorted (rs_Domains s @ ls))) @
             (if rs_CIDRs s = [] then [] else [\<lparr>ru_Domain = [], ru_IPCIDR = rs_CIDRs s\<rparr>])"
    using assms by (auto simp: CompileRuleSet_def Let_def split: option.splits if_splits)
  have "list_all2 (\<lambda>l d. CanonicalDomain l = Inr d) learned ls"
    using ls unfolding map_result_Inr
    by (rule list_all2_mono) (auto simp: listed_domain_def split: sum.splits if_splits)
  then have set_ls: "set ls = {d. \<exists>l. l \<in> set learned \<and> CanonicalDomain l = Inr d}"
    by (induction rule: list_all2_induct) auto
  define ds where "ds = uniqueSorted (rs_Domains s @ ls)"
  have "ds = []" if "rs_Domains s @ ls = []"
    using that by (simp add: ds_def uniqueSorted_def)
  moreover have "domain_rules [] = []" by (simp add: domain_rules.simps)
  ultimately have r: "rules = domain_rules ds @ (if rs_CIDRs s = [] then [] else [\<lparr>ru_Domain = [], ru_IPCIDR = rs_CIDRs s\<rparr>])"
    by (auto simp: rules ds_def)
  have "concat (map ru_Domain rules) = ds" "concat (map ru_IPCIDR rules) = rs_CIDRs s"
    using domain_rules_props [of ds] by (auto simp: r)
  moreover have "\<forall>r \<in> set rules. length (ru_Domain r) \<le> domainsPerRule"
    using domain_rules_props [of ds] by (auto simp: r)
  ultimately show ?thesis
    by (simp add: ds_def uniqueSorted_set uniqueSorted_sorted set_ls)
qed

theorem rule_set_complete_witness:
  "\<exists>rules. CompileRuleSet \<lparr>rs_Generation = 1, rs_CreatedAt = 5, rs_Domains = [''a.example.com''], rs_CIDRs = [], rs_RejectedDomains = 0\<rparr>
       [''B.example.com''] = Inr rules \<and>
     set (concat (map ru_Domain rules)) = {''a.example.com''} \<union> {d. \<exists>l. l \<in> {''B.example.com''} \<and> CanonicalDomain l = Inr d}"
proof -
  let ?s = "\<lparr>rs_Generation = 1, rs_CreatedAt = 5, rs_Domains = [''a.example.com''], rs_CIDRs = [], rs_RejectedDomains = 0\<rparr>"
  have "domains_ok None [''a.example.com'']" "listed_domain ''learned'' ''B.example.com'' = Inr ''b.example.com''"
    by code_simp+
  then obtain rules where r: "CompileRuleSet ?s [''B.example.com''] = Inr rules"
    by (simp add: CompileRuleSet_def ValidateSnapshot_def MaxLearned_def MaxDomains_def MaxPrefixes_def MaxRejectedDomains_def is_zero_def)
  then show ?thesis
    using rule_set_complete [OF r] by auto
qed

end
