(* ===== verification/Dns_Proxy.thy ===== *)
theory Dns_Proxy
  imports Routing_Props
begin

text \<open>
  The DNS front end, \<^verbatim>\<open>internal/routing/dns.go\<close>: parsing of questions with compression pointers,
  the choice of the upstream, the empty answer for service-binding queries, and the checks on what
  an upstream returns. The upstream is the argument \<open>query\<close>, a function of transport, endpoint and
  request; a call of \<^verbatim>\<open>Observe\<close> is an element of the list of observed names.
\<close>

section \<open>Data\<close>

definition DNSHealthName :: string where
  "DNSHealthName = ''routeharbor-health.invalid''"

definition MaxDNSMessage :: nat where
  "MaxDNSMessage = 65535"

record dns_proxy =
  dp_LocalDNS :: string
  dp_ExternalDNS :: string
  dp_AllowedClients :: "prefix list"
  dp_LocalSuffixes :: "string list"
  dp_Timeout :: duration
  dp_MaxConcurrent :: int

record dns_question =
  dq_name :: string
  dq_typ :: uint16
  dq_class :: uint16
  dq_end :: nat

section \<open>Endpoints\<close>

text \<open>\<^verbatim>\<open>netip.ParseAddrPort\<close>: the text before and after the last colon, the former in brackets for IPv6.\<close>

definition ParseAddrPort :: "string \<Rightarrow> (addr \<times> int) result" where
  "ParseAddrPort s =
     (if CHR '':'' \<notin> set s then parse_error
      else let port = rev (takeWhile (\<lambda>c. c \<noteq> CHR '':'') (rev s));
               ip = take (length s - length port - 1) s;
               v6 = (ip \<noteq> [] \<and> hd ip = CHR ''['')
           in if ip = [] \<or> port = [] then parse_error
              else if v6 \<and> (length ip < 2 \<or> last ip \<noteq> CHR '']'') then parse_error
              else case digits_value port of
                None \<Rightarrow> parse_error
              | Some n \<Rightarrow>
                  if n > 65535 then parse_error
                  else bind_result (ParseAddr (if v6 then butlast (tl ip) else ip)) (\<lambda>a.
                    case a of
                      V4 _ \<Rightarrow> if v6 then parse_error else Inr (a, n)
                    | _ \<Rightarrow> if v6 then Inr (a, n) else parse_error))"

definition upstream_ok :: "string \<Rightarrow> bool" where
  "upstream_ok s = (case ParseAddrPort s of
     Inl _ \<Rightarrow> False
   | Inr (a, port) \<Rightarrow> addr_IsLoopback a \<and> port \<noteq> 0 \<and> addr_Zone a = '''')"

definition suffix_error :: "string \<Rightarrow> go_error option" where
  "suffix_error s = (case CanonicalDomain s of Inl e \<Rightarrow> Some e | Inr _ \<Rightarrow> None)"

definition dns_Validate :: "dns_proxy \<Rightarrow> go_error option" where
  "dns_Validate p =
     (if \<not> upstream_ok (dp_LocalDNS p) \<or> \<not> upstream_ok (dp_ExternalDNS p)
      then Some (Error_New ''DNS upstream must be an explicit loopback endpoint'')
      else if dp_LocalDNS p = dp_ExternalDNS p then Some (Error_New ''local and FakeIP DNS upstreams must differ'')
      else if dp_MaxConcurrent p < 0 \<or> dp_MaxConcurrent p > 256 \<or> dp_Timeout p < 0 \<or> dp_Timeout p > 30 * second
      then Some (Error_New ''invalid DNS limits'')
      else if list_ex (\<lambda>q. \<not> prefix_IsValid q \<or> q \<noteq> prefix_Masked q \<or> pf_bits q = 0) (dp_AllowedClients p)
      then Some (Error_New ''invalid DNS client prefix'')
      else first_error (map suffix_error (dp_LocalSuffixes p)))"

definition dns_timeout :: "dns_proxy \<Rightarrow> duration" where
  "dns_timeout p = (if dp_Timeout p = 0 then 5 * second else dp_Timeout p)"

definition dns_local :: "dns_proxy \<Rightarrow> dns_question \<Rightarrow> bool" where
  "dns_local p q \<longleftrightarrow> dq_typ q = 12 \<or> LocalDomain (dq_name q) \<or>
     list_ex (\<lambda>suffix. let s = domain_key suffix in dq_name q = s \<or> hasSuffix (dq_name q) (''.'' @ s)) (dp_LocalSuffixes p)"

section \<open>Messages\<close>

definition char_byte :: "byte \<Rightarrow> char" where
  "char_byte b = char_of (unat b)"

definition byte_char :: "char \<Rightarrow> byte" where
  "byte_char c = of_nat (of_char c)"

fun join_dots :: "string list \<Rightarrow> string" where
  "join_dots [] = ''''"
| "join_dots [l] = l"
| "join_dots (l # ls) = l @ ''.'' @ join_dots ls"

definition label_byte_ok :: "byte \<Rightarrow> bool" where
  "label_byte_ok b \<longleftrightarrow> 33 \<le> unat b \<and> unat b \<le> 126 \<and> unat b \<noteq> 46 \<and> unat b \<noteq> 92"

definition bad_name :: "(string \<times> nat) result" where
  "bad_name = Inl (Error_New ''invalid DNS name'')"

text \<open>
  The loop of \<^verbatim>\<open>dnsName\<close>: the hops left of 128, the message, the offset, the labels, the end of the
  name in the message once known, the length of the name and the offsets visited.
\<close>

fun dns_name_loop :: "nat \<Rightarrow> bytes \<Rightarrow> nat \<Rightarrow> string list \<Rightarrow> nat option \<Rightarrow> nat \<Rightarrow> nat list \<Rightarrow> (string \<times> nat) result" where
  "dns_name_loop 0 msg off labels fin tot visits = bad_name"
| "dns_name_loop (Suc hops) msg off labels fin tot visits =
     (if off \<ge> length msg \<or> off \<in> set visits then bad_name
      else let n = unat (msg ! off); o1 = off + 1 in
        if n = 0 then Inr (to_lower (join_dots labels), case fin of None \<Rightarrow> o1 | Some e \<Rightarrow> e)
        else if n \<ge> 192 then
          if o1 \<ge> length msg then bad_name
          else dns_name_loop hops msg ((n - 192) * 256 + unat (msg ! o1)) labels
                 (case fin of None \<Rightarrow> Some (o1 + 1) | Some e \<Rightarrow> Some e) tot (off # visits)
        else if n > 63 \<or> o1 + n > length msg then bad_name
        else if tot + (n + 1) > 254 then bad_name
        else let label = take n (drop o1 msg) in
          if \<not> list_all label_byte_ok label then Inl (Error_New ''invalid DNS label'')
          else dns_name_loop hops msg (o1 + n) (labels @ [map char_byte label]) fin (tot + (n + 1)) (off # visits))"

definition dnsName :: "bytes \<Rightarrow> nat \<Rightarrow> (string \<times> nat) result" where
  "dnsName msg off = dns_name_loop 128 msg off [] None 0 []"

definition u16_at :: "bytes \<Rightarrow> nat \<Rightarrow> uint16" where
  "u16_at msg i = Uint16 (drop i msg)"

definition parseDNSQuestion :: "bytes \<Rightarrow> bool \<Rightarrow> dns_question result" where
  "parseDNSQuestion msg response =
     (if length msg < 12 \<or> length msg > MaxDNSMessage \<or> msg ! 2 AND 0x78 \<noteq> 0 \<or> (msg ! 2 AND 0x80 \<noteq> 0) \<noteq> response \<or> u16_at msg 4 \<noteq> 1
      then Inl (Error_New ''invalid DNS message'')
      else case dnsName msg 12 of
        Inl _ \<Rightarrow> Inl (Error_New ''invalid DNS question'')
      | Inr (name, nxt) \<Rightarrow>
          if nxt + 4 > length msg then Inl (Error_New ''invalid DNS question'')
          else let q = \<lparr>dq_name = name, dq_typ = u16_at msg nxt, dq_class = u16_at msg (nxt + 2), dq_end = nxt + 4\<rparr>
               in if dq_class q \<noteq> 1 then Inl (Error_New ''unsupported DNS class'') else Inr q)"

definition encode_label :: "string \<Rightarrow> bytes" where
  "encode_label l = of_nat (length l) # map byte_char l"

definition dnsEmpty :: "bytes \<Rightarrow> dns_question \<Rightarrow> byte \<Rightarrow> bytes" where
  "dnsEmpty request q rcode =
     take 2 request @ [0x80 OR (request ! 2 AND 1), 0x80 OR rcode] @ PutUint16 1 @ replicate 6 0 @
     (if dq_name q \<noteq> '''' then concat (map encode_label (split_dots (dq_name q))) else []) @
     [0] @ PutUint16 (dq_typ q) @ [0, 1]"

section \<open>The exchange\<close>

type_synonym dns_query = "string \<Rightarrow> string \<Rightarrow> bytes \<Rightarrow> bytes result"

definition dns_observed :: "dns_question \<Rightarrow> string list" where
  "dns_observed q =
     (if dq_name q = DNSHealthName then []
      else case CanonicalDomain (dq_name q) of Inl _ \<Rightarrow> [] | Inr name \<Rightarrow> if LocalDomain name then [] else [name])"

definition check_response :: "bool \<Rightarrow> dns_question \<Rightarrow> bytes \<Rightarrow> bytes \<Rightarrow> bytes result" where
  "check_response is_local q request response =
     (case parseDNSQuestion response True of
        Inl _ \<Rightarrow> Inl (Error_New ''DNS upstream returned mismatched response'')
      | Inr got \<Rightarrow>
          if response ! 0 \<noteq> request ! 0 \<or> response ! 1 \<noteq> request ! 1 \<or> dq_name got \<noteq> dq_name q \<or>
             dq_typ got \<noteq> dq_typ q \<or> dq_class got \<noteq> dq_class q
          then Inl (Error_New ''DNS upstream returned mismatched response'')
          else Inr (if is_local then response else response[3 := response ! 3 AND NOT 0x20]))"

definition Exchange :: "dns_proxy \<Rightarrow> dns_query \<Rightarrow> string \<Rightarrow> bytes \<Rightarrow> bytes result \<times> string list" where
  "Exchange p query network request =
     (case dns_Validate p of Some e \<Rightarrow> (Inl e, []) | None \<Rightarrow>
      if network \<noteq> ''udp'' \<and> network \<noteq> ''tcp'' then (Inl (Error_New ''invalid DNS transport''), [])
      else case parseDNSQuestion request False of Inl e \<Rightarrow> (Inl e, []) | Inr q \<Rightarrow>
        if u16_at request 6 \<noteq> 0 \<or> u16_at request 8 \<noteq> 0
        then (Inl (Error_New ''DNS request contains answer or authority records''), [])
        else let is_local = dns_local p q in
          if \<not> is_local \<and> (dq_typ q = 64 \<or> dq_typ q = 65) then (Inr (dnsEmpty request q 0), [])
          else let observed = (if is_local then [] else dns_observed q) in
            (case query network (if is_local then dp_LocalDNS p else dp_ExternalDNS p) request of
               Inl _ \<Rightarrow> Inl (Error_New ''DNS upstream unavailable'')
             | Inr response \<Rightarrow> check_response is_local q request response, observed))"

definition ValidDNSHealthResponse :: "bytes \<Rightarrow> bytes \<Rightarrow> prefix \<Rightarrow> bool" where
  "ValidDNSHealthResponse request response pool =
     (case parseDNSQuestion request False of Inl _ \<Rightarrow> False | Inr want \<Rightarrow>
      if dq_name want \<noteq> DNSHealthName \<or> dq_typ want \<noteq> 1 \<or> \<not> prefix_IsValid pool then False
      else case parseDNSQuestion response True of Inl _ \<Rightarrow> False | Inr got \<Rightarrow>
        if response ! 0 \<noteq> request ! 0 \<or> response ! 1 \<noteq> request ! 1 \<or> dq_name got \<noteq> dq_name want \<or> dq_typ got \<noteq> 1 \<or>
           response ! 2 AND 2 \<noteq> 0 \<or> response ! 3 AND 15 \<noteq> 0 \<or> u16_at response 6 \<noteq> 1 \<or> u16_at response 8 \<noteq> 0 \<or> u16_at response 10 \<noteq> 0
        then False
        else case dnsName response (dq_end got) of Inl _ \<Rightarrow> False | Inr (name, off) \<Rightarrow>
          if name \<noteq> DNSHealthName \<or> off + 14 \<noteq> length response then False
          else let rr = drop off response in
            if u16_at rr 0 \<noteq> 1 \<or> u16_at rr 2 \<noteq> 1 \<or> u16_at rr 8 \<noteq> 4 then False
            else prefix_Contains pool (V4 (word_of_nat (be_nat (take 4 (drop 10 rr))))))"

end
