(* ===== verification/Dns_Props.thy ===== *)
theory Dns_Props
  imports Dns_Proxy
begin

text \<open>
  What the DNS front end guarantees: parsed names are bounded sequences of valid labels, the empty
  answer carries the question it answers, local names never reach the external upstream, and an
  answer that is passed on belongs to the request.
\<close>

section \<open>Names\<close>

definition name_char :: "char \<Rightarrow> bool" where
  "name_char c \<longleftrightarrow> (33 :: nat) \<le> of_char c \<and> of_char c \<le> (126 :: nat) \<and> c \<noteq> CHR ''.'' \<and> c \<noteq> CHR 0x5C"

definition name_label :: "string \<Rightarrow> bool" where
  "name_label l \<longleftrightarrow> l \<noteq> [] \<and> length l \<le> 63 \<and> list_all name_char l"

definition wire_length :: "string list \<Rightarrow> nat" where
  "wire_length ls = sum_list (map (\<lambda>l. length l + 1) ls)"

lemma char_byte_ok: "label_byte_ok b \<Longrightarrow> name_char (char_byte b)"
proof -
  assume ok: "label_byte_ok b"
  have o: "of_char (char_byte b) = unat b"
    using unat_byte_less [of b] by (simp add: char_byte_def)
  then have "char_byte b \<noteq> CHR ''.''" "char_byte b \<noteq> CHR 0x5C"
    using ok by (auto simp: label_byte_ok_def)
  then show ?thesis using ok o by (simp add: name_char_def label_byte_ok_def)
qed

lemma wire_length_simps [simp]: "wire_length [] = 0" "wire_length (l # ls) = length l + 1 + wire_length ls"
  "wire_length (xs @ ys) = wire_length xs + wire_length ys"
  by (simp_all add: wire_length_def)

lemma dns_name_loop_Inr:
  assumes "dns_name_loop hops msg off labels fin tot visits = Inr (name, e)" and "list_all name_label labels" and "tot = wire_length labels" and "tot \<le> 254"
  shows "\<exists>ls. name = to_lower (join_dots ls) \<and> list_all name_label ls \<and> wire_length ls \<le> 254"
  using assms
proof (induction hops msg off labels fin tot visits rule: dns_name_loop.induct)
  case (1 msg off labels fin tot visits)
  then show ?case by (simp add: bad_name_def)
next
  case (2 hops msg off labels fin tot visits)
  define n where "n = unat (msg ! off)"
  have go: "\<not> (length msg \<le> off \<or> off \<in> set visits)"
    using "2.prems"(1) by (auto simp: bad_name_def)
  show ?case
  proof (cases "n = 0")
    case True
    then have "name = to_lower (join_dots labels)"
      using "2.prems"(1) go by (simp add: n_def Let_def)
    then show ?thesis using "2.prems"(2-4) by blast
  next
    case nz: False
    show ?thesis
    proof (cases "192 \<le> n")
      case True
      then have o1: "\<not> length msg \<le> off + 1"
        using "2.prems"(1) go nz by (auto simp: n_def Let_def bad_name_def split: if_splits)
      then show ?thesis
        using 2(1) [OF go refl refl] "2.prems" True nz go by (cases fin) (simp_all add: n_def Let_def)
    next
      case False
      define label where "label = take n (drop (off + 1) msg)"
      have ok: "n \<le> 63" "off + 1 + n \<le> length msg" "tot + (n + 1) \<le> 254" "list_all label_byte_ok label"
        and rec: "dns_name_loop hops msg (off + 1 + n) (labels @ [map char_byte label]) fin (tot + (n + 1)) (off # visits) = Inr (name, e)"
        using "2.prems"(1) go nz False by (auto simp: n_def Let_def bad_name_def label_def split: if_splits)
      have "length label = n" using ok(2) by (simp add: label_def)
      then have "name_label (map char_byte label)"
        using nz ok by (auto simp: name_label_def list_all_iff char_byte_ok)
      moreover have "\<not> (63 < n \<or> length msg < off + 1 + n)" "\<not> 254 < tot + (n + 1)" "\<not> \<not> list_all label_byte_ok label"
        using ok by auto
      ultimately show ?thesis
        using 2(2) [OF go refl refl, folded n_def, OF nz False _ _ refl, folded label_def] rec "2.prems"(2,3) \<open>length label = n\<close> ok
        by simp
    qed
  qed
qed

lemma dnsName_Inr:
  assumes "dnsName msg off = Inr (name, e)"
  shows "\<exists>ls. name = to_lower (join_dots ls) \<and> list_all name_label ls \<and> wire_length ls \<le> 254"
  using dns_name_loop_Inr [OF assms [unfolded dnsName_def]] by simp

text \<open>Lower case of names.\<close>

lemma name_char_small: "name_char c \<Longrightarrow> of_char c < (128 :: nat)"
  by (simp add: name_char_def)

lemma to_lower_ascii: "list_all (\<lambda>c. of_char c < (128 :: nat)) s \<Longrightarrow> to_lower s = map lower_char s"
  by (induction s) (auto simp: to_lower_small)

lemma lower_char_name: "name_char c \<Longrightarrow> name_char (lower_char c) \<and> lower_char (lower_char c) = lower_char c"
proof (cases "is_upper c")
  case True
  assume "name_char c"
  have u: "(65 :: nat) \<le> of_char c" "of_char c \<le> (90 :: nat)"
    using True by (auto simp: is_upper_def less_eq_char_def)
  define d where "d = lower_char c"
  have d: "of_char d = of_char c + (32 :: nat)"
    using True u by (simp add: d_def lower_char_def)
  have "d \<noteq> CHR ''.''" "d \<noteq> CHR 0x5C" "\<not> is_upper d"
    using d u by (auto simp: is_upper_def less_eq_char_def)
  then show ?thesis
    using d u unfolding d_def [symmetric] by (simp add: name_char_def lower_char_def)
next
  case False
  assume "name_char c"
  then show ?thesis using False by (simp add: lower_char_def)
qed

lemma join_dots_ascii: "list_all name_label ls \<Longrightarrow> list_all (\<lambda>c. of_char c < (128 :: nat)) (join_dots ls)"
  by (induction ls rule: join_dots.induct) (auto simp: name_label_def list_all_iff dest: name_char_small)

lemma map_join_dots: "map lower_char (join_dots ls) = join_dots (map (map lower_char) ls)"
proof (induction ls rule: join_dots.induct)
  case (3 l m ms)
  have "lower_char (CHR ''.'') = CHR ''.''" by code_simp
  then show ?case using 3 by simp
qed simp_all

lemma split_dots_plain_label: "CHR ''.'' \<notin> set l \<Longrightarrow> split_dots l = [l]"
  by (induction l) auto

lemma split_dots_append: "CHR ''.'' \<notin> set l \<Longrightarrow> split_dots (l @ CHR ''.'' # r) = l # split_dots r"
  by (induction l) auto

lemma name_label_dotless: "name_label l \<Longrightarrow> CHR ''.'' \<notin> set l"
  by (auto simp: name_label_def name_char_def list_all_iff)

lemma split_join: "list_all name_label ls \<Longrightarrow> ls \<noteq> [] \<Longrightarrow> split_dots (join_dots ls) = ls"
proof (induction ls)
  case Nil
  then show ?case by simp
next
  case (Cons l ls)
  have l: "CHR ''.'' \<notin> set l" using Cons.prems by (simp add: name_label_dotless)
  show ?case
  proof (cases ls)
    case Nil
    then show ?thesis using split_dots_plain_label [OF l] by simp
  next
    case (Cons m ms)
    then have "join_dots (l # ls) = l @ CHR ''.'' # join_dots ls" by simp
    moreover have "split_dots (join_dots ls) = ls" using Cons.IH Cons.prems Cons by simp
    ultimately show ?thesis using split_dots_append [OF l, of "join_dots ls"] by simp
  qed
qed

section \<open>Encoded names are read back\<close>

lemma char_byte_char [simp]: "char_byte (byte_char c) = c"
  using nat_of_char_less_256 [of c] by (simp add: char_byte_def byte_char_def unat_of_nat)

lemma byte_char_ok: "name_char c \<Longrightarrow> label_byte_ok (byte_char c)"
proof -
  assume n: "name_char c"
  have "unat (byte_char c) = of_char c"
    using n by (simp add: byte_char_def unat_of_nat name_char_def)
  moreover have "of_char c \<noteq> (46 :: nat)" "of_char c \<noteq> (92 :: nat)"
    using n of_char_eq_iff [of c "CHR ''.''", where 'a = nat] of_char_eq_iff [of c "CHR 0x5C", where 'a = nat]
    by (auto simp: name_char_def)
  ultimately show ?thesis using n by (simp add: label_byte_ok_def name_char_def)
qed

lemma length_encode [simp]: "length (encode_label l) = length l + 1"
  by (simp add: encode_label_def)

lemma length_encode_labels [simp]: "length (concat (map encode_label ls)) = wire_length ls"
  by (induction ls) simp_all

lemma dns_name_encoded:
  assumes "list_all name_label ls" and "length ls < hops" and "tot + wire_length ls \<le> 254" and "set visits \<subseteq> {..<length pre}"
    and "msg = pre @ concat (map encode_label ls) @ 0 # rest"
  shows "dns_name_loop hops msg (length pre) labels None tot visits =
    Inr (to_lower (join_dots (labels @ ls)), length pre + wire_length ls + 1)"
  using assms
proof (induction ls arbitrary: hops tot visits pre labels)
  case Nil
  then show ?case by (cases hops) (auto simp: nth_append)
next
  case (Cons l ls)
  obtain h where h: "hops = Suc h" using Cons.prems(2) by (cases hops) auto
  have l: "name_label l" "length l \<noteq> 0" "length l \<le> 63" using Cons.prems(1) by (auto simp: name_label_def)
  have msg: "msg = pre @ of_nat (length l) # map byte_char l @ concat (map encode_label ls) @ 0 # rest"
    using Cons.prems(5) by (simp add: encode_label_def [of l])
  have n: "unat (msg ! length pre) = length l"
    using l(3) by (simp add: msg nth_append unat_of_nat)
  have label: "take (length l) (drop (length pre + 1) msg) = map byte_char l" by (simp add: msg)
  have ok: "list_all label_byte_ok (map byte_char l)"
    using l(1) by (auto simp: name_label_def list_all_iff byte_char_ok)
  have rec: "dns_name_loop h msg (length (pre @ encode_label l)) (labels @ [l]) None (tot + (length l + 1)) (length pre # visits) =
      Inr (to_lower (join_dots ((labels @ [l]) @ ls)), length (pre @ encode_label l) + wire_length ls + 1)"
  proof (rule Cons.IH)
    show "msg = (pre @ encode_label l) @ concat (map encode_label ls) @ 0 # rest" using Cons.prems(5) by simp
    show "set (length pre # visits) \<subseteq> {..<length (pre @ encode_label l)}" using Cons.prems(4) by auto
  qed (use Cons.prems(1-3) h in simp_all)
  have "length pre \<notin> set visits" "length pre < length msg" "length pre + 1 + length l \<le> length msg"
    using Cons.prems(4) by (auto simp: msg)
  moreover have "map char_byte (map byte_char l) = l" by (simp add: comp_def)
  ultimately show ?case
    using rec l(2,3) n label ok Cons.prems(3) unfolding h by (simp add: Let_def)
qed

lemma wire_length_count: "list_all name_label ls \<Longrightarrow> 2 * length ls \<le> wire_length ls"
proof (induction ls)
  case (Cons l ls)
  then have "1 \<le> length l" by (cases l) (auto simp: name_label_def)
  then show ?case using Cons by (simp del: length_0_conv length_greater_0_conv)
qed simp

lemma parseDNSQuestion_Inr:
  assumes "parseDNSQuestion msg response = Inr q"
  shows "12 \<le> length msg" and "\<exists>ls. dq_name q = to_lower (join_dots ls) \<and> list_all name_label ls \<and> wire_length ls \<le> 254" and "dq_class q = 1"
proof -
  obtain name e where n: "dnsName msg 12 = Inr (name, e)" "dq_name q = name"
    and rest: "12 \<le> length msg" "dq_class q = 1"
    using assms by (auto simp: parseDNSQuestion_def Let_def split: if_splits sum.splits)
  show "\<exists>ls. dq_name q = to_lower (join_dots ls) \<and> list_all name_label ls \<and> wire_length ls \<le> 254"
    using dnsName_Inr [OF n(1)] n(2) by simp
  show "12 \<le> length msg" "dq_class q = 1" by (fact rest)+
qed

lemma lower_join:
  "list_all name_label ls \<Longrightarrow> to_lower (join_dots ls) = join_dots (map (map lower_char) ls)"
  by (simp add: to_lower_ascii join_dots_ascii map_join_dots)

lemma lower_labels:
  assumes "list_all name_label ls" and "name = to_lower (join_dots ls)"
  obtains ms where "list_all name_label ms" "wire_length ms = wire_length ls" "name = join_dots ms" "to_lower (join_dots ms) = name"
proof
  define ms where "ms = map (map lower_char) ls"
  show ms: "list_all name_label ms"
    using assms(1) by (auto simp: ms_def list_all_iff name_label_def lower_char_name)
  show "wire_length ms = wire_length ls" by (simp add: ms_def wire_length_def comp_def)
  show name: "name = join_dots ms" using lower_join [OF assms(1)] assms(2) by (simp add: ms_def)
  have "map (map lower_char) ms = ms"
    using assms(1) by (auto simp: ms_def list_all_iff name_label_def lower_char_name)
  then show "to_lower (join_dots ms) = name" using lower_join [OF ms] name by simp
qed

text \<open>The name of a question, encoded label by label.\<close>

lemma encoded_question:
  assumes "parseDNSQuestion msg response = Inr q"
  obtains ms where "list_all name_label ms" "wire_length ms \<le> 254" "to_lower (join_dots ms) = dq_name q"
    "(if dq_name q \<noteq> '''' then concat (map encode_label (split_dots (dq_name q))) else []) = concat (map encode_label ms)"
proof -
  obtain ls where ls: "dq_name q = to_lower (join_dots ls)" "list_all name_label ls" "wire_length ls \<le> 254"
    using parseDNSQuestion_Inr(2) [OF assms] by blast
  obtain ms where ms: "list_all name_label ms" "wire_length ms = wire_length ls" "dq_name q = join_dots ms" "to_lower (join_dots ms) = dq_name q"
    using lower_labels [OF ls(2,1)] by blast
  have "dq_name q = '''' \<longleftrightarrow> ms = []"
    using ms(1,3) by (cases ms rule: join_dots.cases) (auto simp: name_label_def)
  then show thesis
    using that [OF ms(1)] ms ls(3) split_join [OF ms(1)] by simp
qed

section \<open>The empty answer\<close>

lemma take_id: "2 \<le> length r \<Longrightarrow> take 2 r = [r ! 0, r ! 1]"
  by (cases r; cases "tl r") auto

lemma and_flag: "(0x80 OR ((b :: byte) AND 1)) AND 0x78 = 0" "(0x80 OR (b AND 1)) AND 0x80 \<noteq> 0"
proof -
  show "(0x80 OR (b AND 1)) AND 0x78 = 0"
    by (simp add: bit.conj_disj_distrib2 and.assoc)
  have "(0x80 OR (b AND 1)) AND 0x80 = 0x80"
    by (simp add: bit.conj_disj_distrib2 and.assoc)
  then show "(0x80 OR (b AND 1)) AND 0x80 \<noteq> 0" by simp
qed

lemma Uint16_zero_one: "Uint16 [0, 1] = 1"
  by (simp add: Uint16_def be_nat_def)

lemma dnsEmpty_shape:
  assumes "parseDNSQuestion request False = Inr q"
  obtains hdr ms where "dnsEmpty request q rcode = hdr @ concat (map encode_label ms) @ 0 # (PutUint16 (dq_typ q) @ [0, 1])"
    "length hdr = 12" "take 2 hdr = take 2 request" "hdr ! 2 = 0x80 OR (request ! 2 AND 1)" "\<And>r. u16_at (hdr @ r) 4 = 1"
    "list_all name_label ms" "wire_length ms \<le> 254" "to_lower (join_dots ms) = dq_name q"
proof -
  obtain ms where ms: "list_all name_label ms" "wire_length ms \<le> 254" "to_lower (join_dots ms) = dq_name q"
    "(if dq_name q \<noteq> '''' then concat (map encode_label (split_dots (dq_name q))) else []) = concat (map encode_label ms)"
    using encoded_question [OF assms] by blast
  have len: "2 \<le> length request" using parseDNSQuestion_Inr(1) [OF assms] by simp
  define hdr where "hdr = [request ! 0, request ! 1, 0x80 OR (request ! 2 AND 1), 0x80 OR rcode] @ PutUint16 1 @ replicate 6 0"
  show thesis
  proof (rule that [OF _ _ _ _ _ ms(1-3)])
    show "dnsEmpty request q rcode = hdr @ concat (map encode_label ms) @ 0 # (PutUint16 (dq_typ q) @ [0, 1])"
      unfolding dnsEmpty_def ms(4) by (simp add: hdr_def take_id [OF len])
    show "length hdr = 12" "hdr ! 2 = 0x80 OR (request ! 2 AND 1)" by (simp_all add: hdr_def)
    show "take 2 hdr = take 2 request" by (simp add: hdr_def take_id [OF len])
    show "u16_at (hdr @ r) 4 = 1" for r by (simp add: hdr_def u16_at_def)
  qed
qed

text \<open>
  C34: The synthetic empty answer is a well-formed response to the question it answers: it carries the
  transaction id of the request, parses as a response, and its question has the name, the type
  and the class of the request, whatever compression the request used for the name.
\<close>

theorem empty_answer_parses:
  assumes "parseDNSQuestion request False = Inr q"
  shows "take 2 (dnsEmpty request q rcode) = take 2 request \<and>
    parseDNSQuestion (dnsEmpty request q rcode) True = Inr (q\<lparr>dq_end := length (dnsEmpty request q rcode)\<rparr>)"
proof -
  obtain hdr ms where e: "dnsEmpty request q rcode = hdr @ concat (map encode_label ms) @ 0 # (PutUint16 (dq_typ q) @ [0, 1])"
    and hdr: "length hdr = 12" "take 2 hdr = take 2 request" "hdr ! 2 = 0x80 OR (request ! 2 AND 1)" "\<And>r. u16_at (hdr @ r) 4 = 1"
    and ms: "list_all name_label ms" "wire_length ms \<le> 254" "to_lower (join_dots ms) = dq_name q"
    using dnsEmpty_shape [OF assms] by blast
  let ?m = "dnsEmpty request q rcode" and ?n = "12 + wire_length ms + 1"
  have len: "length ?m = ?n + 4" using hdr(1) by (simp add: e)
  have "length ms < 128" using wire_length_count [OF ms(1)] ms(2) by simp
  then have name: "dnsName ?m 12 = Inr (dq_name q, ?n)"
    using dns_name_encoded [of ms 128 0 "[]" hdr ?m _ "[]"] ms hdr(1) by (simp add: e dnsName_def)
  have "?m = (hdr @ concat (map encode_label ms) @ [0]) @ PutUint16 (dq_typ q) @ [0, 1]" by (simp add: e)
  then have "drop ?n ?m = PutUint16 (dq_typ q) @ [0, 1]" "drop (?n + 2) ?m = [0, 1]"
    using hdr(1) by (simp_all add: drop_append)
  then have q: "u16_at ?m ?n = dq_typ q" "u16_at ?m (?n + 2) = 1"
    by (simp_all add: u16_at_def Uint16_zero_one)
  have "?m ! 2 = 0x80 OR (request ! 2 AND 1)" "u16_at ?m 4 = 1"
    using hdr by (simp_all add: e nth_append)
  then have "parseDNSQuestion ?m True = Inr \<lparr>dq_name = dq_name q, dq_typ = dq_typ q, dq_class = 1, dq_end = ?n + 4\<rparr>"
    using len ms(2) and_flag q by (simp add: parseDNSQuestion_def name MaxDNSMessage_def Let_def)
  moreover have "take 2 ?m = take 2 request" using hdr(1,2) by (simp add: e)
  moreover have "dq_class q = 1" by (fact parseDNSQuestion_Inr(3) [OF assms])
  ultimately show ?thesis by (simp add: len)
qed

section \<open>The exchange\<close>

text \<open>A request for the address of \<^verbatim>\<open>example.org\<close>, and one for its HTTPS records.\<close>

definition sample_query :: "byte \<Rightarrow> bytes" where
  "sample_query typ = [0x12, 0x34, 1, 0, 0, 1, 0, 0, 0, 0, 0, 0] @ encode_label ''eXample'' @ encode_label ''org'' @ [0, 0, typ, 0, 1]"

definition sample_question :: dns_question where
  "sample_question = \<lparr>dq_name = ''example.org'', dq_typ = 65, dq_class = 1, dq_end = 29\<rparr>"

lemma sample_query_parses: "parseDNSQuestion (sample_query 65) False = Inr sample_question"
proof -
  have name: "dnsName (sample_query 65) 12 = Inr (dq_name sample_question, 25)" by code_simp
  have parts: "length (sample_query 65) = 29" "sample_query 65 ! 2 = 1" "u16_at (sample_query 65) 4 = 1"
    "u16_at (sample_query 65) 25 = 65" "u16_at (sample_query 65) 27 = 1" by code_simp+
  show ?thesis
    by (simp add: parseDNSQuestion_def name parts MaxDNSMessage_def Let_def sample_question_def)
qed

theorem empty_answer_parses_witness:
  "parseDNSQuestion (sample_query 65) False = Inr sample_question \<and>
   parseDNSQuestion (dnsEmpty (sample_query 65) sample_question 0) True =
     Inr (sample_question\<lparr>dq_end := length (dnsEmpty (sample_query 65) sample_question 0)\<rparr>)"
  using empty_answer_parses [OF sample_query_parses, of 0] sample_query_parses by simp

lemma parse_response_flag: "parseDNSQuestion msg True = Inr q \<Longrightarrow> msg ! 2 AND 0x80 \<noteq> 0"
  by (auto simp: parseDNSQuestion_def split: if_splits)

lemma cleared_bit: "(b AND - 33) AND 0x20 = (0 :: byte)"
  by (simp add: and.assoc)

lemma check_response_Inr:
  assumes "check_response is_local q request raw = Inr response" and "2 \<le> length request"
  shows "take 2 response = take 2 request" and "response ! 2 AND 0x80 \<noteq> 0" and "\<not> is_local \<Longrightarrow> response ! 3 AND 0x20 = 0"
    and "\<exists>got. parseDNSQuestion raw True = Inr got \<and> dq_name got = dq_name q \<and> dq_typ got = dq_typ q"
proof -
  obtain got where got: "parseDNSQuestion raw True = Inr got" "raw ! 0 = request ! 0" "raw ! 1 = request ! 1"
    "dq_name got = dq_name q" "dq_typ got = dq_typ q"
    and r: "response = (if is_local then raw else raw[3 := raw ! 3 AND NOT 0x20])"
    using assms(1) by (auto simp: check_response_def split: sum.splits if_splits)
  have len: "12 \<le> length raw" by (fact parseDNSQuestion_Inr(1) [OF got(1)])
  show "take 2 response = take 2 request"
    using assms(2) len got(2,3) by (simp add: take_id r)
  show "response ! 2 AND 0x80 \<noteq> 0" using parse_response_flag [OF got(1)] by (simp add: r)
  show "response ! 3 AND 0x20 = 0" if "\<not> is_local" using that len by (simp add: r cleared_bit)
  show "\<exists>got. parseDNSQuestion raw True = Inr got \<and> dq_name got = dq_name q \<and> dq_typ got = dq_typ q"
    using got by blast
qed

lemma Exchange_Inr:
  assumes "fst (Exchange p query network request) = Inr response"
  obtains q where "parseDNSQuestion request False = Inr q" "\<not> dns_local p q" "response = dnsEmpty request q 0"
  | q raw where "parseDNSQuestion request False = Inr q" "query network (if dns_local p q then dp_LocalDNS p else dp_ExternalDNS p) request = Inr raw"
    "check_response (dns_local p q) q request raw = Inr response"
  using assms by (auto simp: Exchange_def Let_def split: option.splits if_splits sum.splits)

text \<open>
  C35: Whatever the upstream does, an answer that \<^verbatim>\<open>Exchange\<close> returns carries the transaction id of the
  request and the response flag, and an answer to a name that is not local never claims
  authenticated data: the AD bit is clear.
\<close>

theorem exchange_answers_the_request:
  assumes "fst (Exchange p query network request) = Inr response"
  shows "\<exists>q. parseDNSQuestion request False = Inr q \<and> take 2 response = take 2 request \<and> response ! 2 AND 0x80 \<noteq> 0 \<and>
    (\<not> dns_local p q \<longrightarrow> response ! 3 AND 0x20 = 0)"
  using assms
proof (cases rule: Exchange_Inr)
  case (1 q)
  have len: "12 \<le> length request" by (fact parseDNSQuestion_Inr(1) [OF 1(1)])
  have "response ! 2 = 0x80 OR (request ! 2 AND 1)" "response ! 3 = 0x80"
    using len by (simp_all add: 1 dnsEmpty_def nth_append)
  moreover have "take 2 response = take 2 request" using len by (simp add: 1 dnsEmpty_def)
  ultimately show ?thesis using 1(1) and_flag by auto
next
  case (2 q raw)
  have "2 \<le> length request" using parseDNSQuestion_Inr(1) [OF 2(1)] by simp
  then show ?thesis using check_response_Inr [OF 2(3)] 2(1) by blast
qed

text \<open>
  C36: Local names stay local: the answer to a request for a local name depends on the local upstream
  only, so nothing an external upstream says (or whether it is asked) can change it, and no
  local name is handed to the observer. A name that is handed on is canonical and not local, and
  belongs to the request.
\<close>

theorem local_names_stay_local:
  "(\<forall>query' q. parseDNSQuestion request False = Inr q \<and> dns_local p q \<and>
       query network (dp_LocalDNS p) request = query' network (dp_LocalDNS p) request \<longrightarrow>
     Exchange p query network request = Exchange p query' network request \<and> snd (Exchange p query network request) = []) \<and>
   (\<forall>name \<in> set (snd (Exchange p query network request)).
     CanonicalDomain name = Inr name \<and> \<not> LocalDomain name \<and>
     (\<exists>q. parseDNSQuestion request False = Inr q \<and> \<not> dns_local p q \<and> CanonicalDomain (dq_name q) = Inr name))"
proof (intro conjI ballI allI impI)
  fix query' q
  assume "parseDNSQuestion request False = Inr q \<and> dns_local p q \<and>
    query network (dp_LocalDNS p) request = query' network (dp_LocalDNS p) request"
  then show "Exchange p query network request = Exchange p query' network request" "snd (Exchange p query network request) = []"
    by (auto simp: Exchange_def split: option.split)
next
  fix name
  assume "name \<in> set (snd (Exchange p query network request))"
  then obtain q where q: "parseDNSQuestion request False = Inr q" "\<not> dns_local p q" "name \<in> set (dns_observed q)"
    by (auto simp: Exchange_def Let_def split: option.splits if_splits sum.splits)
  then have c: "CanonicalDomain (dq_name q) = Inr name" "\<not> LocalDomain name"
    by (auto simp: dns_observed_def split: if_splits sum.splits)
  then show "\<not> LocalDomain name" "CanonicalDomain name = Inr name" using canonical_idem by blast+
  show "\<exists>q. parseDNSQuestion request False = Inr q \<and> \<not> dns_local p q \<and> CanonicalDomain (dq_name q) = Inr name"
    using q c by blast
qed

text \<open>A proxy with two loopback upstreams; the external one echoes the request as a response with the AD bit.\<close>

definition sample_proxy :: dns_proxy where
  "sample_proxy = \<lparr>dp_LocalDNS = ''127.0.0.1:53'', dp_ExternalDNS = ''127.0.0.1:5353'', dp_AllowedClients = [],
     dp_LocalSuffixes = [''corp''], dp_Timeout = 0, dp_MaxConcurrent = 0\<rparr>"

definition echo_upstream :: dns_query where
  "echo_upstream network endpoint request = Inr (request[2 := 0x81, 3 := 0xA0])"

lemma sample_query_questions:
  "parseDNSQuestion (sample_query 1) False = Inr (sample_question\<lparr>dq_typ := 1\<rparr>)"
  "parseDNSQuestion ((sample_query 1)[2 := 0x81, 3 := 0xA0]) True = Inr (sample_question\<lparr>dq_typ := 1\<rparr>)"
proof -
  let ?m = "sample_query 1" and ?r = "(sample_query 1)[2 := 0x81, 3 := 0xA0]"
  have name: "dnsName ?m 12 = Inr (dq_name sample_question, 25)" "dnsName ?r 12 = Inr (dq_name sample_question, 25)" by code_simp+
  have m: "length ?m = 29" "?m ! 2 = 1" "u16_at ?m 4 = 1" "u16_at ?m 25 = 1" "u16_at ?m 27 = 1" by code_simp+
  have r: "length ?r = 29" "?r ! 2 = 0x81" "u16_at ?r 4 = 1" "u16_at ?r 25 = 1" "u16_at ?r 27 = 1" by code_simp+
  show "parseDNSQuestion ?m False = Inr (sample_question\<lparr>dq_typ := 1\<rparr>)"
    by (simp add: parseDNSQuestion_def name m MaxDNSMessage_def Let_def sample_question_def)
  show "parseDNSQuestion ?r True = Inr (sample_question\<lparr>dq_typ := 1\<rparr>)"
    unfolding parseDNSQuestion_def name r by (simp add: r MaxDNSMessage_def Let_def sample_question_def)
qed

lemma sample_exchange:
  "Exchange sample_proxy echo_upstream ''udp'' (sample_query 1) = (Inr ((sample_query 1)[2 := 0x81, 3 := 0x80]), [''example.org''])"
proof -
  let ?q = "sample_question\<lparr>dq_typ := 1\<rparr>"
  have facts: "dns_Validate sample_proxy = None" "\<not> dns_local sample_proxy ?q" "dns_observed ?q = [''example.org'']"
    "u16_at (sample_query 1) 6 = 0" "u16_at (sample_query 1) 8 = 0" by code_simp+
  have resp: "((sample_query 1)[2 := 0x81, 3 := 0xA0]) ! 0 = sample_query 1 ! 0" "((sample_query 1)[2 := 0x81, 3 := 0xA0]) ! 1 = sample_query 1 ! 1"
    "((sample_query 1)[2 := 0x81, 3 := 0xA0])[3 := ((sample_query 1)[2 := 0x81, 3 := 0xA0]) ! 3 AND NOT 0x20] = (sample_query 1)[2 := 0x81, 3 := 0x80]"
    by code_simp+
  have "check_response False ?q (sample_query 1) ((sample_query 1)[2 := 0x81, 3 := 0xA0]) = Inr ((sample_query 1)[2 := 0x81, 3 := 0x80])"
    unfolding check_response_def sample_query_questions resp by simp
  then show ?thesis
    unfolding Exchange_def echo_upstream_def sample_query_questions facts by (simp add: facts Let_def)
qed

theorem exchange_answers_the_request_witness:
  "\<exists>q. parseDNSQuestion (sample_query 1) False = Inr q \<and>
     take 2 ((sample_query 1)[2 := 0x81, 3 := 0x80]) = take 2 (sample_query 1) \<and>
     ((sample_query 1)[2 := 0x81, 3 := 0x80]) ! 2 AND 0x80 \<noteq> 0 \<and>
     (\<not> dns_local sample_proxy q \<longrightarrow> ((sample_query 1)[2 := 0x81, 3 := 0x80]) ! 3 AND 0x20 = 0)"
  using exchange_answers_the_request [of sample_proxy echo_upstream "''udp''" "sample_query 1"] sample_exchange by simp

theorem local_names_stay_local_witness:
  "CanonicalDomain ''example.org'' = Inr ''example.org'' \<and> snd (Exchange sample_proxy echo_upstream ''udp'' (sample_query 1)) = [''example.org'']"
  using local_names_stay_local [of "sample_query 1" sample_proxy echo_upstream "''udp''"] sample_exchange by simp

end
