(* ===== verification/Peer_State.thy ===== *)
theory Peer_State
  imports Continuity_Wire Datagram_Window
begin

text \<open>
  The state of a continuity peer and its primitive operations, \<^verbatim>\<open>internal/continuity/peer.go\<close> and
  the resource profile of \<^verbatim>\<open>types.go\<close>. Segments, carriers and flows are shared by pointer in the
  source: a pointer is an index into an append-only heap (a list) of the peer. What a goroutine
  holds between two critical sections (the frame a writer is sending, the segment an endpoint is
  delivering, the budget a reader has reserved) is a field of the object it works for. A peer is
  the last argument of every operation. \<^verbatim>\<open>int64\<close> byte counters are integers: the budget theorems
  bound them by the profile, far from the ends of the range.
\<close>

section \<open>Resource profile\<close>

record limits =
  lm_BufferBytes :: int
  lm_UDPReserveBytes :: int
  lm_FlowBytes :: int
  lm_ControlBytes :: int
  lm_MaxTCP :: int
  lm_MaxUDP :: int
  lm_DisconnectedGrace :: duration
  lm_UDPIdle :: duration
  lm_UDPReplay :: duration

definition DefaultLimits :: limits where
  "DefaultLimits = \<lparr>lm_BufferBytes = 33554432, lm_UDPReserveBytes = 4194304, lm_FlowBytes = 2097152, lm_ControlBytes = 262144,
     lm_MaxTCP = 512, lm_MaxUDP = 256, lm_DisconnectedGrace = 30 * second, lm_UDPIdle = 120 * second, lm_UDPReplay = 100 * millisecond\<rparr>"

definition or_default :: "int \<Rightarrow> int \<Rightarrow> int" where
  "or_default x d = (if x = 0 then d else x)"

definition apply_defaults :: "limits \<Rightarrow> limits" where
  "apply_defaults l = \<lparr>
     lm_BufferBytes = or_default (lm_BufferBytes l) (lm_BufferBytes DefaultLimits),
     lm_UDPReserveBytes = or_default (lm_UDPReserveBytes l) (lm_UDPReserveBytes DefaultLimits),
     lm_FlowBytes = or_default (lm_FlowBytes l) (lm_FlowBytes DefaultLimits),
     lm_ControlBytes = or_default (lm_ControlBytes l) (lm_ControlBytes DefaultLimits),
     lm_MaxTCP = or_default (lm_MaxTCP l) (lm_MaxTCP DefaultLimits),
     lm_MaxUDP = or_default (lm_MaxUDP l) (lm_MaxUDP DefaultLimits),
     lm_DisconnectedGrace = or_default (lm_DisconnectedGrace l) (lm_DisconnectedGrace DefaultLimits),
     lm_UDPIdle = or_default (lm_UDPIdle l) (lm_UDPIdle DefaultLimits),
     lm_UDPReplay = or_default (lm_UDPReplay l) (lm_UDPReplay DefaultLimits)\<rparr>"

definition limits_invalid :: "limits \<Rightarrow> bool" where
  "limits_invalid l \<longleftrightarrow>
     lm_BufferBytes l < 524288 \<or> lm_BufferBytes l > 1073741824 \<or> lm_UDPReserveBytes l < 262144 \<or>
     lm_UDPReserveBytes l \<ge> lm_BufferBytes l \<or> lm_FlowBytes l < 16384 \<or> lm_FlowBytes l > 16777216 \<or>
     lm_ControlBytes l < 65536 \<or> lm_ControlBytes l > 4194304 \<or>
     lm_MaxTCP l < 1 \<or> lm_MaxTCP l > 4096 \<or> lm_MaxUDP l < 1 \<or> lm_MaxUDP l > 4096 \<or>
     lm_DisconnectedGrace l < second \<or> lm_DisconnectedGrace l > 5 * minute \<or>
     lm_UDPIdle l < second \<or> lm_UDPIdle l > hour \<or> lm_UDPReplay l < millisecond \<or> lm_UDPReplay l > second"

definition normalized :: "limits \<Rightarrow> limits result" where
  "normalized l = (let l' = apply_defaults l in
     if limits_invalid l' then Inl (Error_New ''invalid continuity limits'') else Inr l')"

section \<open>Data\<close>

definition CarriersPerPath :: nat where "CarriersPerPath = 6"

definition ErrClosed :: go_error where "ErrClosed = Error_New ''continuity closed''"
definition ErrGeneration :: go_error where "ErrGeneration = Error_New ''relay session generation changed''"
definition ErrCapacity :: go_error where "ErrCapacity = Error_New ''continuity resource limit''"
definition ErrNoPath :: go_error where "ErrNoPath = Error_New ''no ready continuity path''"
definition ErrDestination :: go_error where "ErrDestination = Error_New ''relay destination is not permitted''"

record segment =
  sg_f :: frame
  sg_cost :: int
  sg_sending :: bool
  sg_udp :: bool
  sg_owned :: bool
  sg_refs :: int
  sg_sentPath :: string
  sg_sentAt :: gotime

record queued =
  q_f :: frame
  q_segment :: "nat option"
  q_cost :: int

text \<open>
  A carrier with its two bounded channels. \<open>c_hand\<close> is the entry its writer has taken from a
  channel and not yet released, \<open>c_running\<close> says that the writer has not yet drained the channels.
\<close>

record carrier =
  c_path :: string
  c_lane :: nat
  c_control :: "queued list"
  c_data :: "queued list"
  c_closed :: bool
  c_lastPong :: gotime
  c_lastPing :: gotime
  c_pendingSince :: gotime
  c_lastProgress :: gotime
  c_srtt :: duration
  c_variance :: duration
  c_pingID :: uint64
  c_hand :: "queued option"
  c_running :: bool

text \<open>
  A logical flow. \<open>fl_conn\<close> says that the endpoint connection is set, \<open>fl_reader\<close> and \<open>fl_writer\<close>
  that the endpoint goroutines run, \<open>fl_reading\<close> is the size and cost reserved by a read in
  progress, \<open>fl_writing\<close> the segment being delivered.
\<close>

record logicalFlow =
  fl_id :: uint64
  fl_destination :: string
  fl_udp :: bool
  fl_conn :: bool
  fl_opened :: bool
  fl_opening :: bool
  fl_closed :: bool
  fl_ackDirty :: bool
  fl_lastActive :: gotime
  fl_next :: uint64
  fl_acked :: uint64
  fl_window :: uint64
  fl_pending :: "nat list"
  fl_sendBytes :: int
  fl_recv :: "(uint64, nat) gomap"
  fl_ready :: "nat list"
  fl_recvNext :: uint64
  fl_consumed :: uint64
  fl_recvBytes :: int
  fl_readEOF :: bool
  fl_finACK :: bool
  fl_recvFIN :: bool
  fl_finApplied :: bool
  fl_finOffset :: uint64
  fl_seen :: datagramWindow
  fl_err :: "go_error option"
  fl_reader :: bool
  fl_writer :: bool
  fl_reading :: "(nat \<times> int) option"
  fl_writing :: "nat option"

text \<open>The budget \<^verbatim>\<open>used[d][k]\<close> is a function of the direction (send) and the class (UDP).\<close>

record peer =
  pr_limits :: limits
  pr_generation :: string
  pr_server :: bool
  pr_paths :: "(string, nat option list) gomap"
  pr_preferred :: string
  pr_active :: string
  pr_flows :: "(uint64, nat) gomap"
  pr_seen :: datagramWindow
  pr_keys :: "(string, uint64) gomap"
  pr_closing :: "(uint64, gotime) gomap"
  pr_lastCloseRetry :: gotime
  pr_lastWindowRefresh :: gotime
  pr_nextID :: uint64
  pr_used :: "bool \<Rightarrow> bool \<Rightarrow> int"
  pr_controlBytes :: int
  pr_closed :: bool
  pr_terminalErr :: "go_error option"
  pr_lastReady :: gotime
  pr_switchedAt :: gotime
  pr_replayed :: uint64
  pr_expired :: uint64
  pr_dropped :: uint64
  pr_switches :: uint64
  pr_pause :: duration
  pr_segs :: "segment list"
  pr_carriers :: "carrier list"
  pr_heap :: "logicalFlow list"

definition newPeer :: "limits \<Rightarrow> string \<Rightarrow> bool \<Rightarrow> gotime \<Rightarrow> peer" where
  "newPeer l generation server now = \<lparr>pr_limits = l, pr_generation = generation, pr_server = server, pr_paths = [],
     pr_preferred = '''', pr_active = '''', pr_flows = [], pr_seen = new_window, pr_keys = [], pr_closing = [],
     pr_lastCloseRetry = 0, pr_lastWindowRefresh = 0, pr_nextID = 0, pr_used = (\<lambda>_ _. 0), pr_controlBytes = 0,
     pr_closed = False, pr_terminalErr = None, pr_lastReady = now, pr_switchedAt = 0, pr_replayed = 0, pr_expired = 0,
     pr_dropped = 0, pr_switches = 0, pr_pause = 0, pr_segs = [], pr_carriers = [], pr_heap = []\<rparr>"

text \<open>Reading and updating an object through its pointer.\<close>

abbreviation seg :: "peer \<Rightarrow> nat \<Rightarrow> segment" where "seg p a \<equiv> pr_segs p ! a"
abbreviation car :: "peer \<Rightarrow> nat \<Rightarrow> carrier" where "car p a \<equiv> pr_carriers p ! a"
abbreviation flow :: "peer \<Rightarrow> nat \<Rightarrow> logicalFlow" where "flow p a \<equiv> pr_heap p ! a"

definition upd_seg :: "nat \<Rightarrow> (segment \<Rightarrow> segment) \<Rightarrow> peer \<Rightarrow> peer" where
  "upd_seg a h p = p\<lparr>pr_segs := (pr_segs p)[a := h (seg p a)]\<rparr>"

definition upd_car :: "nat \<Rightarrow> (carrier \<Rightarrow> carrier) \<Rightarrow> peer \<Rightarrow> peer" where
  "upd_car a h p = p\<lparr>pr_carriers := (pr_carriers p)[a := h (car p a)]\<rparr>"

definition upd_flow :: "nat \<Rightarrow> (logicalFlow \<Rightarrow> logicalFlow) \<Rightarrow> peer \<Rightarrow> peer" where
  "upd_flow a h p = p\<lparr>pr_heap := (pr_heap p)[a := h (flow p a)]\<rparr>"

definition new_seg :: "segment \<Rightarrow> peer \<Rightarrow> nat \<times> peer" where
  "new_seg s p = (length (pr_segs p), p\<lparr>pr_segs := pr_segs p @ [s]\<rparr>)"

section \<open>Budgets\<close>

text \<open>Go's integer division truncates towards zero.\<close>

definition quot :: "int \<Rightarrow> int \<Rightarrow> int" where
  "quot a b = (if (a < 0) = (b < 0) then \<bar>a\<bar> div \<bar>b\<bar> else - (\<bar>a\<bar> div \<bar>b\<bar>))"

definition class_limit :: "limits \<Rightarrow> bool \<Rightarrow> int" where
  "class_limit l udp = (if udp then quot (lm_UDPReserveBytes l) 2 else quot (lm_BufferBytes l - lm_UDPReserveBytes l) 2)"

definition add_used :: "bool \<Rightarrow> bool \<Rightarrow> int \<Rightarrow> peer \<Rightarrow> peer" where
  "add_used d k n p = p\<lparr>pr_used := (\<lambda>d' k'. if d' = d \<and> k' = k then pr_used p d' k' + n else pr_used p d' k')\<rparr>"

definition add_control :: "int \<Rightarrow> peer \<Rightarrow> peer" where
  "add_control n p = p\<lparr>pr_controlBytes := pr_controlBytes p + n\<rparr>"

definition reserve :: "bool \<Rightarrow> bool \<Rightarrow> int \<Rightarrow> peer \<Rightarrow> peer option" where
  "reserve send udp n p =
     (if n < 0 \<or> pr_used p send udp + n > class_limit (pr_limits p) udp then None else Some (add_used send udp n p))"

definition release :: "nat \<Rightarrow> peer \<Rightarrow> peer" where
  "release a p = (let s = seg p a in
     if sg_owned s \<or> sg_refs s > 0 then p
     else upd_seg a (\<lambda>s. s\<lparr>sg_cost := 0, sg_f := (sg_f s)\<lparr>f_data := []\<rparr>\<rparr>)
            (add_used (sg_sending s) (sg_udp s) (- sg_cost s) p))"

definition discard :: "nat \<Rightarrow> peer \<Rightarrow> peer" where
  "discard a p = release a (upd_seg a (\<lambda>s. s\<lparr>sg_owned := False\<rparr>) p)"

section \<open>Paths and carriers\<close>

definition rto :: "carrier \<Rightarrow> duration" where
  "rto c = (let d = wrap64 (c_srtt c + 4 * c_variance c + 2 * millisecond) in if d < 60 * millisecond then 60 * millisecond else d)"

definition no_carriers :: "nat option list" where
  "no_carriers = replicate CarriersPerPath None"

text \<open>Indexing the map of paths: an absent name yields the array of nil pointers.\<close>

definition path_lanes :: "peer \<Rightarrow> string \<Rightarrow> nat option list" where
  "path_lanes p path = (case map_of (pr_paths p) path of None \<Rightarrow> no_carriers | Some cs \<Rightarrow> cs)"

definition live :: "peer \<Rightarrow> nat option \<Rightarrow> bool" where
  "live p c = (case c of None \<Rightarrow> False | Some a \<Rightarrow> \<not> c_closed (car p a))"

definition ready :: "peer \<Rightarrow> string \<Rightarrow> bool" where
  "ready p path = (case map_of (pr_paths p) path of None \<Rightarrow> False | Some cs \<Rightarrow> list_all (live p) cs)"

definition choose_path :: "peer \<Rightarrow> string" where
  "choose_path p =
     (if \<not> ready p (pr_active p) \<and> ready p (pr_preferred p) then pr_preferred p
      else if \<not> ready p (pr_active p)
      then (case find (ready p) (sort (map fst (pr_paths p))) of None \<Rightarrow> '''' | Some n \<Rightarrow> n)
      else pr_active p)"

definition selectPath :: "gotime \<Rightarrow> peer \<Rightarrow> peer" where
  "selectPath now p =
     (let chosen = choose_path p;
          p1 = (if chosen \<noteq> '''' then p\<lparr>pr_lastReady := now\<rparr> else p)
      in if chosen \<noteq> pr_active p
         then (if pr_active p \<noteq> '''' \<and> chosen \<noteq> '''' then p1\<lparr>pr_switches := pr_switches p + 1, pr_switchedAt := now\<rparr> else p1)\<lparr>pr_active := chosen\<rparr>
         else p1)"

definition closeCarrier :: "nat \<Rightarrow> peer \<Rightarrow> peer" where
  "closeCarrier a p = upd_car a (\<lambda>c. c\<lparr>c_closed := True\<rparr>) p"

definition close_lane :: "nat option \<Rightarrow> peer \<Rightarrow> peer" where
  "close_lane c p = (case c of None \<Rightarrow> p | Some a \<Rightarrow> closeCarrier a p)"

definition new_carrier :: "string \<Rightarrow> nat \<Rightarrow> duration \<Rightarrow> gotime \<Rightarrow> carrier" where
  "new_carrier path lane rtt now = \<lparr>c_path = path, c_lane = lane, c_control = [], c_data = [], c_closed = False,
     c_lastPong = now, c_lastPing = 0, c_pendingSince = 0, c_lastProgress = 0, c_srtt = rtt, c_variance = quot rtt 2,
     c_pingID = 0, c_hand = None, c_running = True\<rparr>"

definition attach_carrier :: "string \<Rightarrow> nat \<Rightarrow> duration \<Rightarrow> gotime \<Rightarrow> peer \<Rightarrow> peer" where
  "attach_carrier path lane rtt now p =
     (let cs = path_lanes p path;
          p1 = close_lane (cs ! lane) p;
          a = length (pr_carriers p1);
          c = new_carrier path lane (if rtt < millisecond then millisecond else rtt) now;
          p2 = (add_control carrierQueueBytes p1)\<lparr>pr_carriers := pr_carriers p1 @ [c],
                 pr_paths := AList.update path (cs[lane := Some a]) (pr_paths p1)\<rparr>;
          p3 = (if pr_preferred p2 = '''' then p2\<lparr>pr_preferred := path\<rparr> else p2)
      in selectPath now p3)"

definition addCarrier :: "string \<Rightarrow> nat \<Rightarrow> duration \<Rightarrow> gotime \<Rightarrow> peer \<Rightarrow> go_error option \<times> peer" where
  "addCarrier path lane rtt now p =
     (if pr_closed p then (Some ErrClosed, p)
      else if pr_terminalErr p \<noteq> None then (pr_terminalErr p, p)
      else if map_of (pr_paths p) path = None \<and> length (pr_paths p) \<ge> 2 then (Some ErrCapacity, p)
      else if pr_controlBytes p + carrierQueueBytes > lm_ControlBytes (pr_limits p) then (Some ErrCapacity, p)
      else (None, attach_carrier path lane rtt now p))"

text \<open>The channels of a carrier hold 16 control entries and 32 data entries; a send to a full one fails.\<close>

definition channel_full :: "carrier \<Rightarrow> nat option \<Rightarrow> bool" where
  "channel_full c s = (if s = None then length (c_control c) \<ge> 16 else length (c_data c) \<ge> 32)"

definition push_channel :: "queued \<Rightarrow> carrier \<Rightarrow> carrier" where
  "push_channel q c = (if q_segment q = None then c\<lparr>c_control := c_control c @ [q]\<rparr> else c\<lparr>c_data := c_data c @ [q]\<rparr>)"

definition add_refs :: "int \<Rightarrow> nat option \<Rightarrow> peer \<Rightarrow> peer" where
  "add_refs n s p = (case s of None \<Rightarrow> p | Some a \<Rightarrow> upd_seg a (\<lambda>s. s\<lparr>sg_refs := sg_refs s + n\<rparr>) p)"

definition enqueue :: "nat option \<Rightarrow> frame \<Rightarrow> nat option \<Rightarrow> peer \<Rightarrow> bool \<times> peer" where
  "enqueue c f s p = (case c of None \<Rightarrow> (False, p) | Some a \<Rightarrow>
     if c_closed (car p a) then (False, p)
     else let cost = controlOverhead + (if s = None then int (length (f_data f)) else 0) in
       if pr_controlBytes p + cost > lm_ControlBytes (pr_limits p) then (False, p)
       else if channel_full (car p a) s then (False, p)
       else (True, add_refs 1 s (add_control cost (upd_car a (push_channel \<lparr>q_f = f, q_segment = s, q_cost = cost\<rparr>) p))))"

definition send :: "nat option \<Rightarrow> frame \<Rightarrow> peer \<Rightarrow> peer" where
  "send c f p = snd (enqueue c f None p)"

definition releaseQueued :: "queued \<Rightarrow> peer \<Rightarrow> peer" where
  "releaseQueued q p = (let p1 = add_control (- q_cost q) p in
     case q_segment q of None \<Rightarrow> p1 | Some a \<Rightarrow> release a (add_refs (-1) (Some a) p1))"

text \<open>
  The writer of a carrier: it takes an entry from a channel, writes the frame outside the lock
  (the outcome is \<open>ok\<close>), releases it, and closes the carrier on an error. Once the carrier is
  closed it drains both channels and ends.
\<close>

definition writeLoop_take :: "bool \<Rightarrow> nat \<Rightarrow> peer \<Rightarrow> peer" where
  "writeLoop_take from_data a p =
     (let c = car p a in
      if \<not> c_running c \<or> c_hand c \<noteq> None then p
      else case (if from_data then c_data c else c_control c) of
        [] \<Rightarrow> p
      | q # qs \<Rightarrow> upd_car a (\<lambda>c. (if from_data then c\<lparr>c_data := qs\<rparr> else c\<lparr>c_control := qs\<rparr>)\<lparr>c_hand := Some q\<rparr>) p)"

definition writeLoop_done :: "nat \<Rightarrow> bool \<Rightarrow> gotime \<Rightarrow> peer \<Rightarrow> peer" where
  "writeLoop_done a ok now p = (case c_hand (car p a) of None \<Rightarrow> p | Some q \<Rightarrow>
     let p1 = releaseQueued q (upd_car a (\<lambda>c. c\<lparr>c_hand := None\<rparr>) p)
     in if ok then p1 else selectPath now (closeCarrier a p1))"

definition writeLoop_exit :: "nat \<Rightarrow> peer \<Rightarrow> peer" where
  "writeLoop_exit a p =
     (let c = car p a in
      if \<not> c_closed c \<or> \<not> c_running c \<or> c_hand c \<noteq> None then p
      else fold releaseQueued (c_control c @ c_data c)
             (add_control (- carrierQueueBytes)
               (upd_car a (\<lambda>c. c\<lparr>c_control := [], c_data := [], c_running := False\<rparr>) p)))"

definition readLoop_fail :: "nat \<Rightarrow> gotime \<Rightarrow> peer \<Rightarrow> peer" where
  "readLoop_fail a now p = selectPath now (closeCarrier a p)"

end
