(* ===== verification/Peer_Flow.thy ===== *)
theory Peer_Flow
  imports Peer_State Validation
begin

text \<open>
  The flows of a continuity peer and its event handlers, \<^verbatim>\<open>internal/continuity/peer.go\<close> and the
  operations of \<^verbatim>\<open>internal/continuity/gateway.go\<close> on its peer. Each definition is one critical
  section of the source; \<open>peer_step\<close> at the end runs one of them. A map that the source ranges over
  is traversed in the order of its list.
\<close>

section \<open>Opening and closing flows\<close>

definition is_closed :: "peer \<Rightarrow> nat \<Rightarrow> bool" where
  "is_closed p a \<longleftrightarrow> fl_closed (flow p a)"

definition new_flow :: "uint64 \<Rightarrow> string \<Rightarrow> bool \<Rightarrow> gotime \<Rightarrow> logicalFlow" where
  "new_flow i dest udp now = \<lparr>fl_id = i, fl_destination = dest, fl_udp = udp, fl_conn = False, fl_opened = False,
     fl_opening = False, fl_closed = False, fl_ackDirty = False, fl_lastActive = now, fl_next = 0, fl_acked = 0,
     fl_window = 0, fl_pending = [], fl_sendBytes = 0, fl_recv = [], fl_ready = [], fl_recvNext = 0, fl_consumed = 0,
     fl_recvBytes = 0, fl_readEOF = False, fl_finACK = False, fl_recvFIN = False, fl_finApplied = False, fl_finOffset = 0,
     fl_seen = new_window, fl_err = None, fl_reader = False, fl_writer = False, fl_reading = None, fl_writing = None\<rparr>"

definition newFlow :: "uint64 \<Rightarrow> string \<Rightarrow> bool \<Rightarrow> gotime \<Rightarrow> peer \<Rightarrow> (nat \<times> peer) result" where
  "newFlow i dest udp now p =
     (let n = int (length (filter (\<lambda>(_, a). fl_udp (flow p a) = udp) (pr_flows p)));
          l = pr_limits p;
          limit = (if udp then lm_MaxUDP l else lm_MaxTCP l)
      in if n \<ge> limit \<or> int (length (pr_flows p) + length (pr_closing p)) \<ge> lm_MaxTCP l + lm_MaxUDP l \<or>
            pr_controlBytes p + 128 > lm_ControlBytes l then Inl ErrCapacity
         else case reserve False udp flowOverhead p of
           None \<Rightarrow> Inl ErrCapacity
         | Some p1 \<Rightarrow> let a = length (pr_heap p1); p2 = add_control 128 p1 in
             Inr (a, p2\<lparr>pr_heap := pr_heap p2 @ [new_flow i dest udp now], pr_flows := AList.update i a (pr_flows p2)\<rparr>))"

definition closeFlow :: "nat \<Rightarrow> go_error option \<Rightarrow> bool \<Rightarrow> gotime \<Rightarrow> peer \<Rightarrow> peer" where
  "closeFlow a err notify now p =
     (let f = flow p a in
      if fl_closed f then p
      else let p1 = upd_flow a (\<lambda>f. f\<lparr>fl_closed := True, fl_err := err\<rparr>) p;
               p2 = fold discard (fl_pending f @ map snd (fl_recv f) @ fl_ready f) p1;
               p3 = add_used False (fl_udp f) (- flowOverhead) p2;
               p4 = p3\<lparr>pr_flows := AList.delete (fl_id f) (pr_flows p3), pr_keys := filter (\<lambda>(_, i). i \<noteq> fl_id f) (pr_keys p3)\<rparr>
           in if notify then p4\<lparr>pr_closing := AList.update (fl_id f) (now + lm_DisconnectedGrace (pr_limits p4)) (pr_closing p4)\<rparr>
              else add_control (- 128) p4)"

section \<open>Acknowledgements and progress\<close>

definition receiveWindow :: "peer \<Rightarrow> logicalFlow \<Rightarrow> uint64" where
  "receiveWindow p f =
     (let available = min (lm_FlowBytes (pr_limits p) - fl_recvBytes f)
            (quot (lm_BufferBytes (pr_limits p) - lm_UDPReserveBytes (pr_limits p)) 2 - pr_used p False False) - segmentOverhead
      in fl_recvNext f + word_of_int (if available < 0 then 0 else available))"

definition control_frame :: "byte \<Rightarrow> uint64 \<Rightarrow> uint64 \<Rightarrow> uint64 \<Rightarrow> bytes \<Rightarrow> frame" where
  "control_frame kind i offset v data = \<lparr>f_kind = kind, f_flow = i, f_offset = offset, f_value = v, f_data = data\<rparr>"

definition controlCarrier :: "peer \<Rightarrow> nat option \<Rightarrow> nat option" where
  "controlCarrier p c = (case c of None \<Rightarrow> None | Some a \<Rightarrow>
     (case map_of (pr_paths p) (c_path (car p a)) of
        None \<Rightarrow> c
      | Some cs \<Rightarrow>
          if live p (cs ! 5) then cs ! 5
          else let other = path_lanes p (pr_active p) ! 5 in if live p other then other else None))"

definition acknowledge :: "nat option \<Rightarrow> nat \<Rightarrow> peer \<Rightarrow> peer" where
  "acknowledge c a p =
     (let f = flow p a;
          (sent, p1) = enqueue (controlCarrier p c) (control_frame frameACK (fl_id f) (fl_recvNext f) (receiveWindow p f) []) None p
      in upd_flow a (\<lambda>f. f\<lparr>fl_ackDirty := \<not> sent\<rparr>) p1)"

definition laneFor :: "logicalFlow \<Rightarrow> nat" where
  "laneFor f = (if fl_udp f then 4 else unat (fl_id f mod 4))"

definition frame_end :: "frame \<Rightarrow> uint64" where
  "frame_end f = f_offset f + word_of_nat (length (f_data f))"

definition outstanding :: "peer \<Rightarrow> carrier \<Rightarrow> bool" where
  "outstanding p c \<longleftrightarrow>
     list_ex (\<lambda>(_, a). let f = flow p a in laneFor f = c_lane c \<and>
       list_ex (\<lambda>s. sg_sentPath (seg p s) = c_path c \<and> sg_sentAt (seg p s) \<noteq> 0 \<and>
         (fl_udp f \<or> frame_end (sg_f (seg p s)) \<le> fl_window f)) (fl_pending f)) (pr_flows p)"

definition progress :: "nat \<Rightarrow> gotime \<Rightarrow> peer \<Rightarrow> peer" where
  "progress a now p =
     (let p1 = upd_car a (\<lambda>c. c\<lparr>c_lastProgress := now, c_pendingSince := (if outstanding p c then now else 0)\<rparr>) p
      in if pr_switchedAt p1 \<noteq> 0 then p1\<lparr>pr_pause := time_sub now (pr_switchedAt p1), pr_switchedAt := 0\<rparr> else p1)"

definition dataProgress :: "nat \<Rightarrow> nat \<Rightarrow> gotime \<Rightarrow> peer \<Rightarrow> peer" where
  "dataProgress c a now p = (case map_of (pr_paths p) (c_path (car p c)) of
     None \<Rightarrow> progress c now p
   | Some cs \<Rightarrow> (case cs ! laneFor (flow p a) of
       None \<Rightarrow> p
     | Some d \<Rightarrow> if c_closed (car p d) then p else progress d now p))"

text \<open>
  The loops that keep part of \<^verbatim>\<open>f.pending\<close>: a segment with property \<open>P\<close> gives its bytes back and is
  discarded, the others are kept in order.
\<close>

fun sweep :: "(segment \<Rightarrow> bool) \<Rightarrow> nat \<Rightarrow> nat list \<Rightarrow> peer \<Rightarrow> nat list \<times> peer" where
  "sweep P a [] p = ([], p)"
| "sweep P a (s # ss) p =
     (if P (seg p s)
      then sweep P a ss (discard s (upd_flow a (\<lambda>f. f\<lparr>fl_sendBytes := fl_sendBytes f - sg_cost (seg p s)\<rparr>) p))
      else case sweep P a ss p of (keep, p1) \<Rightarrow> (s # keep, p1))"

definition sweep_pending :: "(segment \<Rightarrow> bool) \<Rightarrow> nat \<Rightarrow> peer \<Rightarrow> peer" where
  "sweep_pending P a p = (case sweep P a (fl_pending (flow p a)) p of
     (keep, p1) \<Rightarrow> upd_flow a (\<lambda>f. f\<lparr>fl_pending := keep\<rparr>) p1)"

section \<open>The timer\<close>

text \<open>\<^verbatim>\<open>UnixNano\<close> and \<^verbatim>\<open>time.Unix\<close>: the zero time is 62135596800 seconds before the epoch.\<close>

definition unix_epoch :: gotime where
  "unix_epoch = 62135596800 * second"

definition UnixNano :: "gotime \<Rightarrow> uint64" where
  "UnixNano t = word_of_int (t - unix_epoch)"

definition time_Unix :: "uint64 \<Rightarrow> gotime" where
  "time_Unix v = sint v + unix_epoch"

text \<open>Conversions between strings and byte slices.\<close>

definition bytes_of :: "string \<Rightarrow> bytes" where
  "bytes_of s = map (\<lambda>c. of_nat (of_char c)) s"

definition string_of :: "bytes \<Rightarrow> string" where
  "string_of bs = map (\<lambda>b. char_of (unat b)) bs"

definition tick_ping :: "gotime \<Rightarrow> nat \<Rightarrow> peer \<Rightarrow> peer" where
  "tick_ping now a p =
     (let p1 = upd_car a (\<lambda>c. c\<lparr>c_pingID := c_pingID c + 1\<rparr>) p;
          (sent, p2) = enqueue (Some a) (control_frame framePing 0 (c_pingID (car p1 a)) (UnixNano now) []) None p1;
          p3 = (if sent then upd_car a (\<lambda>c. c\<lparr>c_lastPing := now\<rparr>) p2 else p2)
      in if \<not> pr_server p3 \<and> c_lane (car p3 a) = 5 \<and> pr_active p3 \<noteq> ''''
         then send (Some a) (control_frame frameSelect 0 0 0 (bytes_of (pr_active p3))) p3 else p3)"

definition tick_carrier :: "gotime \<Rightarrow> nat option \<Rightarrow> peer \<Rightarrow> peer" where
  "tick_carrier now lane p = (case lane of None \<Rightarrow> p | Some a \<Rightarrow>
     if c_closed (car p a) then p
     else let p1 = (if c_pendingSince (car p a) \<noteq> 0 \<and> \<not> outstanding p (car p a) then upd_car a (\<lambda>c. c\<lparr>c_pendingSince := 0\<rparr>) p else p);
              c = car p1 a
          in if time_sub now (c_lastPong c) > rto c \<or> c_pendingSince c \<noteq> 0 \<and> time_sub now (c_lastProgress c) > rto c
             then closeCarrier a p1
             else if time_sub now (c_lastPing c) \<ge> 20 * millisecond then tick_ping now a p1 else p1)"

definition tick_closing :: "gotime \<Rightarrow> uint64 \<times> gotime \<Rightarrow> peer \<Rightarrow> peer" where
  "tick_closing now e p = (case e of (i, deadline) \<Rightarrow>
     if now > deadline then add_control (- 128) (p\<lparr>pr_closing := AList.delete i (pr_closing p)\<rparr>)
     else if pr_active p \<noteq> '''' then send (path_lanes p (pr_active p) ! 5) (control_frame frameClose i 0 0 []) p
     else p)"

definition tick_retry :: "gotime \<Rightarrow> peer \<Rightarrow> peer" where
  "tick_retry now p =
     (if time_sub now (pr_lastCloseRetry p) \<ge> 20 * millisecond
      then fold (tick_closing now) (pr_closing p) (p\<lparr>pr_lastCloseRetry := now\<rparr>) else p)"

definition clear_idle :: "nat option \<Rightarrow> peer \<Rightarrow> peer" where
  "clear_idle lane p = (case lane of None \<Rightarrow> p | Some a \<Rightarrow>
     if \<not> c_closed (car p a) \<and> \<not> outstanding p (car p a) then upd_car a (\<lambda>c. c\<lparr>c_pendingSince := 0\<rparr>) p else p)"

definition tick_expire :: "gotime \<Rightarrow> nat \<Rightarrow> peer \<Rightarrow> peer" where
  "tick_expire now a p =
     (let p1 = sweep_pending (\<lambda>s. time_sub now (time_Unix (f_value (sg_f s))) > lm_UDPReplay (pr_limits p)) a p;
          p2 = p1\<lparr>pr_expired := pr_expired p1 + of_nat (length (fl_pending (flow p a)) - length (fl_pending (flow p1 a)))\<rparr>
      in fold clear_idle (map (\<lambda>(_, cs). cs ! 4) (pr_paths p2)) p2)"

text \<open>
  The loop over \<^verbatim>\<open>f.pending\<close> stops at the first segment the carrier does not take. It runs with an
  active path, whose carriers are all there.
\<close>

fun tick_send :: "gotime \<Rightarrow> nat option \<Rightarrow> nat \<Rightarrow> nat list \<Rightarrow> peer \<Rightarrow> peer" where
  "tick_send now c a [] p = p"
| "tick_send now c a (s # ss) p =
     (let sg = seg p s; f = flow p a in
      if sg_refs sg > 0 \<or> \<not> fl_udp f \<and> frame_end (sg_f sg) > fl_window f \<or>
         sg_sentPath sg = pr_active p \<and> time_sub now (sg_sentAt sg) < (case c of None \<Rightarrow> 0 | Some k \<Rightarrow> rto (car p k))
      then tick_send now c a ss p
      else case enqueue c (sg_f sg) (Some s) p of
        (False, p1) \<Rightarrow> p1
      | (True, p1) \<Rightarrow>
          let p2 = (if sg_sentAt sg \<noteq> 0 then p1\<lparr>pr_replayed := pr_replayed p1 + 1\<rparr> else p1);
              p3 = upd_seg s (\<lambda>x. x\<lparr>sg_sentPath := pr_active p2, sg_sentAt := now\<rparr>) p2;
              p4 = (case c of None \<Rightarrow> p3 | Some k \<Rightarrow>
                     if c_pendingSince (car p3 k) = 0 then upd_car k (\<lambda>x. x\<lparr>c_pendingSince := now, c_lastProgress := now\<rparr>) p3 else p3)
          in tick_send now c a ss p4)"

definition boolUint :: "bool \<Rightarrow> uint64" where
  "boolUint b = (if b then 1 else 0)"

definition tick_active :: "gotime \<Rightarrow> nat \<Rightarrow> peer \<Rightarrow> peer" where
  "tick_active now a p =
     (let c = path_lanes p (pr_active p) ! laneFor (flow p a);
          p1 = (if fl_ackDirty (flow p a) \<and> \<not> fl_udp (flow p a) then acknowledge c a p else p);
          f = flow p1 a
      in if \<not> fl_opened f
         then (if \<not> pr_server p1 \<and> \<not> fl_opening f
               then send c (control_frame frameOpen (fl_id f) 0 (boolUint (fl_udp f)) (bytes_of (fl_destination f))) p1 else p1)
         else let p2 = tick_send now c a (fl_pending f) p1; g = flow p2 a in
           if fl_readEOF g \<and> \<not> fl_finACK g
           then send (controlCarrier p2 c) (control_frame frameFIN (fl_id g) (fl_next g) 0 []) p2 else p2)"

definition tick_flow :: "gotime \<Rightarrow> bool \<Rightarrow> nat \<Rightarrow> peer \<Rightarrow> peer" where
  "tick_flow now refresh a p =
     (if fl_udp (flow p a) \<and> time_sub now (fl_lastActive (flow p a)) > lm_UDPIdle (pr_limits p) then closeFlow a None True now p
      else let p1 = (if refresh \<and> fl_opened (flow p a) \<and> \<not> fl_udp (flow p a) then upd_flow a (\<lambda>f. f\<lparr>fl_ackDirty := True\<rparr>) p else p);
               p2 = (if fl_udp (flow p1 a) then tick_expire now a p1 else p1)
           in if pr_active p2 = '''' then p2 else tick_active now a p2)"

definition tick :: "gotime \<Rightarrow> peer \<Rightarrow> peer" where
  "tick now p =
     (if pr_closed p then p
      else let p1 = selectPath now (fold (tick_carrier now) (concat (map snd (pr_paths p))) p);
               refresh = (time_sub now (pr_lastWindowRefresh p1) \<ge> 20 * millisecond);
               p2 = (if refresh then p1\<lparr>pr_lastWindowRefresh := now\<rparr> else p1);
               p3 = tick_retry now p2
           in if pr_active p3 = '''' \<and> time_sub now (pr_lastReady p3) \<ge> lm_DisconnectedGrace (pr_limits p3)
              then fold (\<lambda>a. closeFlow a (Some ErrNoPath) False now) (map snd (pr_flows p3)) p3
              else fold (tick_flow now refresh) (map snd (pr_flows p3)) p3)"

section \<open>Received frames\<close>

text \<open>The regular expression \<^verbatim>\<open>pathName\<close>.\<close>

definition path_name :: "string \<Rightarrow> bool" where
  "path_name s \<longleftrightarrow> s \<noteq> [] \<and> length s \<le> 64 \<and> (is_lower (hd s) \<or> is_upper (hd s) \<or> is_digit (hd s)) \<and>
     (\<forall>c \<in> set (tl s). is_lower c \<or> is_upper c \<or> is_digit c \<or> c \<in> set ''_.-'')"

definition handle_select :: "nat \<Rightarrow> frame \<Rightarrow> gotime \<Rightarrow> peer \<Rightarrow> peer" where
  "handle_select c m now p =
     (let name = string_of (f_data m) in
      if \<not> pr_server p \<or> c_lane (car p c) \<noteq> 5 \<or> \<not> path_name name then closeCarrier c p
      else if ready p name \<and> pr_active p \<noteq> name
      then p\<lparr>pr_preferred := name, pr_active := name, pr_switches := pr_switches p + 1, pr_switchedAt := now\<rparr>
      else p)"

definition handle_closed :: "frame \<Rightarrow> peer \<Rightarrow> peer" where
  "handle_closed m p = (case map_of (pr_closing p) (f_flow m) of
     None \<Rightarrow> p
   | Some _ \<Rightarrow> add_control (- 128) (p\<lparr>pr_closing := AList.delete (f_flow m) (pr_closing p)\<rparr>))"

definition rtt_sample :: "gotime \<Rightarrow> duration \<Rightarrow> carrier \<Rightarrow> carrier" where
  "rtt_sample now sample c =
     (let delta = wrap64 (c_srtt c - sample); delta = (if delta < 0 then wrap64 (- delta) else delta)
      in c\<lparr>c_variance := quot (wrap64 (3 * c_variance c + delta)) 4, c_srtt := quot (wrap64 (7 * c_srtt c + sample)) 8, c_lastPong := now\<rparr>)"

definition handle_pong :: "nat \<Rightarrow> frame \<Rightarrow> gotime \<Rightarrow> peer \<Rightarrow> peer" where
  "handle_pong c m now p =
     (let sample = time_sub now (time_Unix (f_value m)) in
      if f_offset m \<le> c_pingID (car p c) \<and> sint (f_value m) > 0 \<and> sample > 0 \<and> sample < minute
      then upd_car c (rtt_sample now sample) p else p)"

definition handle_open :: "nat \<Rightarrow> frame \<Rightarrow> gotime \<Rightarrow> peer \<Rightarrow> peer" where
  "handle_open c m now p =
     (if \<not> pr_server p \<or> f_flow m = 0 \<or> f_data m = [] \<or> length (f_data m) > 300 \<or> f_value m > 1 then closeCarrier c p
      else case map_of (pr_flows p) (f_flow m) of
        Some a \<Rightarrow>
          if fl_destination (flow p a) \<noteq> string_of (f_data m) \<or> fl_udp (flow p a) \<noteq> (f_value m = 1) then closeCarrier c p
          else if fl_opened (flow p a)
          then send (Some c) (control_frame frameOpened (fl_id (flow p a)) 0 (word_of_int (lm_FlowBytes (pr_limits p))) []) p
          else p
      | None \<Rightarrow>
          if contains (pr_seen p) (f_flow m) then send (Some c) (control_frame frameClose (f_flow m) 0 0 []) p
          else case newFlow (f_flow m) (string_of (f_data m)) (f_value m = 1) now p of
            Inl _ \<Rightarrow> send (Some c) (control_frame frameClose (f_flow m) 0 0 []) p
          | Inr (a, p1) \<Rightarrow> upd_flow a (\<lambda>f. f\<lparr>fl_opening := True\<rparr>) (p1\<lparr>pr_seen := add (pr_seen p1) (f_flow m)\<rparr>))"

text \<open>The loop that moves the segments that have become contiguous from \<^verbatim>\<open>f.recv\<close> to \<^verbatim>\<open>f.ready\<close>.\<close>

function drain_recv :: "segment list \<Rightarrow> (uint64, nat) gomap \<Rightarrow> uint64 \<Rightarrow> nat list \<Rightarrow> (uint64, nat) gomap \<times> uint64 \<times> nat list" where
  "drain_recv segs recv nxt rdy = (case map_of recv nxt of
     None \<Rightarrow> (recv, nxt, rdy)
   | Some s \<Rightarrow> drain_recv segs (AList.delete nxt recv) (nxt + word_of_nat (length (f_data (sg_f (segs ! s))))) (rdy @ [s]))"
  by pat_completeness auto
termination
proof (relation "measure (\<lambda>(segs, recv, nxt, rdy). length recv)", goal_cases)
  case (2 segs recv nxt rdy s)
  then have "(nxt, s) \<in> set recv" by (simp add: map_of_SomeD)
  then show ?case
    by (auto simp: AList.delete_eq intro!: length_filter_less [where P = "\<lambda>(k, v). nxt \<noteq> k"])
qed simp

declare drain_recv.simps [simp del]

text \<open>
  The comparison of a DATA frame with the segments that wait for earlier data: it is a duplicate,
  it overlaps one of them, or it is new.
\<close>

datatype clash = Duplicate | Overlap | Fresh

fun recv_clash :: "segment list \<Rightarrow> uint64 \<Rightarrow> bytes \<Rightarrow> (uint64, nat) gomap \<Rightarrow> clash" where
  "recv_clash segs off data [] = Fresh"
| "recv_clash segs off data ((o2, s) # rest) =
     (let old = f_data (sg_f (segs ! s)) in
      if off = o2 \<and> length data = length old then Duplicate
      else if off < o2 + word_of_nat (length old) \<and> o2 < off + word_of_nat (length data) then Overlap
      else recv_clash segs off data rest)"

definition accept_data :: "nat \<Rightarrow> frame \<Rightarrow> int \<Rightarrow> peer \<Rightarrow> peer" where
  "accept_data a m cost p =
     (let (s, p1) = new_seg \<lparr>sg_f = m, sg_cost = cost, sg_sending = False, sg_udp = False, sg_owned = True, sg_refs = 0,
            sg_sentPath = '''', sg_sentAt = 0\<rparr> p;
          f = flow p1 a;
          (recv, nxt, rdy) = drain_recv (pr_segs p1) (AList.update (f_offset m) s (fl_recv f)) (fl_recvNext f) (fl_ready f)
      in upd_flow a (\<lambda>f. f\<lparr>fl_recv := recv, fl_recvBytes := fl_recvBytes f + cost, fl_recvNext := nxt, fl_ready := rdy\<rparr>) p1)"

definition handle_fresh :: "nat \<Rightarrow> nat \<Rightarrow> frame \<Rightarrow> gotime \<Rightarrow> peer \<Rightarrow> peer" where
  "handle_fresh c a m now p =
     (let f = flow p a in
      if frame_end m > fl_consumed f + word_of_int (lm_FlowBytes (pr_limits p)) then acknowledge (Some c) a p
      else case recv_clash (pr_segs p) (f_offset m) (f_data m) (fl_recv f) of
        Duplicate \<Rightarrow> acknowledge (Some c) a p
      | Overlap \<Rightarrow> closeFlow a (Some (Error_New ''overlapping stream frame'')) True now p
      | Fresh \<Rightarrow>
          let cost = int (length (f_data m)) + segmentOverhead in
          if fl_recvBytes f + cost > lm_FlowBytes (pr_limits p) then acknowledge (Some c) a p
          else case reserve False False cost p of
            None \<Rightarrow> acknowledge (Some c) a p
          | Some p1 \<Rightarrow> acknowledge (Some c) a (accept_data a m cost p1))"

definition handle_data :: "nat \<Rightarrow> nat \<Rightarrow> frame \<Rightarrow> gotime \<Rightarrow> peer \<Rightarrow> peer" where
  "handle_data c a m now p =
     (let f = flow p a in
      if fl_udp f \<or> \<not> fl_opened f \<or> f_data m = [] \<or> length (f_data m) > chunkSize \<or>
         f_offset m > NOT 0 - word_of_nat (length (f_data m))
      then closeFlow a (Some (Error_New ''invalid stream frame'')) True now p
      else if fl_recvFIN f \<and> frame_end m > fl_finOffset f
      then closeFlow a (Some (Error_New ''data beyond stream finish'')) True now p
      else if frame_end m \<le> fl_recvNext f then acknowledge (Some c) a p
      else if f_offset m < fl_recvNext f
      then handle_fresh c a (m\<lparr>f_data := drop (unat (fl_recvNext f - f_offset m)) (f_data m), f_offset := fl_recvNext f\<rparr>) now p
      else handle_fresh c a m now p)"

definition handle_ack :: "nat \<Rightarrow> nat \<Rightarrow> frame \<Rightarrow> gotime \<Rightarrow> peer \<Rightarrow> peer" where
  "handle_ack c a m now p =
     (let f = flow p a in
      if fl_udp f \<or> f_offset m > fl_next f \<or> f_value m < f_offset m \<or>
         f_value m - f_offset m > word_of_int (lm_FlowBytes (pr_limits p))
      then closeFlow a (Some (Error_New ''invalid stream acknowledgement'')) True now p
      else let p1 = upd_flow a (\<lambda>f. f\<lparr>fl_window := f_value m\<rparr>) p in
        if f_offset m > fl_acked f
        then dataProgress c a now (sweep_pending (\<lambda>s. frame_end (sg_f s) \<le> f_offset m) a (upd_flow a (\<lambda>f. f\<lparr>fl_acked := f_offset m\<rparr>) p1))
        else p1)"

definition handle_fin :: "nat \<Rightarrow> nat \<Rightarrow> frame \<Rightarrow> gotime \<Rightarrow> peer \<Rightarrow> peer" where
  "handle_fin c a m now p =
     (let f = flow p a in
      if fl_udp f \<or> f_offset m < fl_recvNext f \<or> fl_recvFIN f \<and> fl_finOffset f \<noteq> f_offset m
      then closeFlow a (Some (Error_New ''invalid stream finish'')) True now p
      else let p1 = upd_flow a (\<lambda>f. f\<lparr>fl_recvFIN := True, fl_finOffset := f_offset m\<rparr>) p
           in send (controlCarrier p1 (Some c)) (control_frame frameFINACK (fl_id f) (f_offset m) 0 []) p1)"

definition handle_udp :: "nat \<Rightarrow> nat \<Rightarrow> frame \<Rightarrow> gotime \<Rightarrow> peer \<Rightarrow> peer" where
  "handle_udp c a m now p =
     (let f = flow p a; ack = control_frame frameUDPACK (fl_id f) (f_offset m) 0 [] in
      if \<not> fl_udp f \<or> \<not> fl_opened f \<or> length (f_data m) > maxPayload
      then closeFlow a (Some (Error_New ''invalid datagram'')) True now p
      else if contains (fl_seen f) (f_offset m) then send (controlCarrier p (Some c)) ack p
      else let cost = int (length (f_data m)) + segmentOverhead in
        case reserve False True cost p of
          None \<Rightarrow> p\<lparr>pr_dropped := pr_dropped p + 1\<rparr>
        | Some p1 \<Rightarrow>
            let (s, p2) = new_seg \<lparr>sg_f = m, sg_cost = cost, sg_sending = False, sg_udp = True, sg_owned = True, sg_refs = 0,
                  sg_sentPath = '''', sg_sentAt = 0\<rparr> p1;
                p3 = upd_flow a (\<lambda>f. f\<lparr>fl_seen := add (fl_seen f) (f_offset m), fl_ready := fl_ready f @ [s],
                       fl_recvBytes := fl_recvBytes f + cost\<rparr>) p2
            in send (controlCarrier p3 (Some c)) ack p3)"

definition handle_udpack :: "nat \<Rightarrow> nat \<Rightarrow> frame \<Rightarrow> gotime \<Rightarrow> peer \<Rightarrow> peer" where
  "handle_udpack c a m now p =
     (if \<not> fl_udp (flow p a) then p
      else let advanced = list_ex (\<lambda>s. f_offset (sg_f (seg p s)) = f_offset m) (fl_pending (flow p a));
               p1 = sweep_pending (\<lambda>s. f_offset (sg_f s) = f_offset m) a p
           in if advanced then dataProgress c a now p1 else p1)"

text \<open>A frame for an open flow.\<close>

definition handle_flow :: "nat \<Rightarrow> nat \<Rightarrow> frame \<Rightarrow> gotime \<Rightarrow> peer \<Rightarrow> peer" where
  "handle_flow c a m now p0 =
     (let p = upd_flow a (\<lambda>f. f\<lparr>fl_lastActive := now\<rparr>) p0; f = flow p a; kind = f_kind m in
      if kind = frameOpened
      then (if \<not> pr_server p \<and> \<not> fl_opened f then upd_flow a (\<lambda>f. f\<lparr>fl_opened := True, fl_window := f_value m\<rparr>) p else p)
      else if kind = frameData then handle_data c a m now p
      else if kind = frameACK then handle_ack c a m now p
      else if kind = frameFIN then handle_fin c a m now p
      else if kind = frameFINACK
      then (if fl_readEOF f \<and> f_offset m = fl_next f then upd_flow a (\<lambda>f. f\<lparr>fl_finACK := True\<rparr>) p else p)
      else if kind = frameClose
      then send (Some c) (control_frame frameClosed (f_flow m) 0 0 []) (closeFlow a None False now p)
      else if kind = frameUDP then handle_udp c a m now p
      else if kind = frameUDPACK then handle_udpack c a m now p
      else p)"

definition handle :: "nat \<Rightarrow> frame \<Rightarrow> gotime \<Rightarrow> peer \<Rightarrow> peer" where
  "handle c m now p =
     (if pr_closed p \<or> c_closed (car p c) then p
      else let kind = f_kind m in
        if kind = frameSelect then handle_select c m now p
        else if kind = frameClosed then handle_closed m p
        else if kind = framePing then send (Some c) (control_frame framePong 0 (f_offset m) (f_value m) []) p
        else if kind = framePong then handle_pong c m now p
        else if kind = frameOpen then handle_open c m now p
        else case map_of (pr_flows p) (f_flow m) of
          None \<Rightarrow> send (Some c) (control_frame (if kind = frameClose then frameClosed else frameClose) (f_flow m) 0 0 []) p
        | Some a \<Rightarrow> handle_flow c a m now p)"

section \<open>Endpoints\<close>

text \<open>
  \<^verbatim>\<open>startFlow\<close> starts the writer of the endpoint and, with a connection, its reader. \<open>dial\<close> is the
  outcome of the call of the target dialler in \<^verbatim>\<open>openTarget\<close>.
\<close>

definition startFlow :: "nat \<Rightarrow> peer \<Rightarrow> peer" where
  "startFlow a p = upd_flow a (\<lambda>f. f\<lparr>fl_writer := True, fl_reader := fl_conn f\<rparr>) p"

definition openTarget :: "nat \<Rightarrow> bool \<Rightarrow> gotime \<Rightarrow> peer \<Rightarrow> peer" where
  "openTarget a dial_ok now p =
     (if fl_closed (flow p a) \<or> pr_closed p then p
      else if \<not> dial_ok then closeFlow a (Some ErrDestination) True now p
      else let p1 = upd_flow a (\<lambda>f. f\<lparr>fl_conn := True, fl_opening := False, fl_opened := True,
                     fl_window := word_of_int (lm_FlowBytes (pr_limits p))\<rparr>) p;
               f = flow p1 a;
               p2 = (if pr_active p1 \<noteq> ''''
                     then send (path_lanes p1 (pr_active p1) ! laneFor f)
                            (control_frame frameOpened (fl_id f) 0 (word_of_int (lm_FlowBytes (pr_limits p))) []) p1 else p1)
           in startFlow a p2)"

text \<open>The size of the next read; \<open>None\<close> when the reader has to wait.\<close>

definition read_size :: "peer \<Rightarrow> logicalFlow \<Rightarrow> nat option" where
  "read_size p f =
     (let sz = (if fl_udp f then maxPayload
                  else if int chunkSize + segmentOverhead > lm_FlowBytes (pr_limits p) then nat (lm_FlowBytes (pr_limits p) - segmentOverhead)
                  else chunkSize)
      in if \<not> fl_opened f \<or> \<not> fl_udp f \<and> (fl_next f \<ge> fl_window f \<or> fl_sendBytes f + int sz + segmentOverhead > lm_FlowBytes (pr_limits p))
         then None
         else if \<not> fl_udp f \<and> word_of_nat sz > fl_window f - fl_next f then Some (unat (fl_window f - fl_next f))
         else Some sz)"

definition readEndpoint_begin :: "nat \<Rightarrow> peer \<Rightarrow> peer" where
  "readEndpoint_begin a p =
     (let f = flow p a in
      if \<not> fl_reader f \<or> fl_reading f \<noteq> None then p
      else if fl_closed f \<or> pr_closed p then upd_flow a (\<lambda>f. f\<lparr>fl_reader := False\<rparr>) p
      else case read_size p f of None \<Rightarrow> p | Some sz \<Rightarrow>
        let cost = int sz + segmentOverhead in
        (case reserve True (fl_udp f) cost p of None \<Rightarrow> p
         | Some p1 \<Rightarrow> upd_flow a (\<lambda>f. f\<lparr>fl_reading := Some (sz, cost)\<rparr>) p1))"

datatype read_outcome = Read_ok | Read_timeout | Read_eof | Read_failed go_error

text \<open>The frame for the bytes a read returned: a datagram is numbered and stamped, stream data is at the offset reached.\<close>

definition read_frame :: "logicalFlow \<Rightarrow> bytes \<Rightarrow> gotime \<Rightarrow> frame" where
  "read_frame f data now =
     (if fl_udp f then control_frame frameUDP (fl_id f) (fl_next f + 1) (UnixNano now) data
      else control_frame frameData (fl_id f) (fl_next f) 0 data)"

definition queue_read :: "nat \<Rightarrow> bytes \<Rightarrow> int \<Rightarrow> gotime \<Rightarrow> peer \<Rightarrow> peer" where
  "queue_read a data cost now p =
     (let f = flow p a;
          actual = int (length data) + segmentOverhead;
          p1 = add_used True (fl_udp f) (- (cost - actual)) p;
          (s, p2) = new_seg \<lparr>sg_f = read_frame f data now, sg_cost = actual, sg_sending = True, sg_udp = fl_udp f, sg_owned = True,
             sg_refs = 0, sg_sentPath = '''', sg_sentAt = 0\<rparr> p1
      in upd_flow a (\<lambda>f. f\<lparr>fl_next := (if fl_udp f then fl_next f + 1 else fl_next f + word_of_nat (length data)),
           fl_pending := fl_pending f @ [s], fl_sendBytes := fl_sendBytes f + actual, fl_lastActive := now\<rparr>) p2)"

text \<open>
  After the read. The local segment that carries the reservation is released when the flow has
  been closed meanwhile and when nothing was read.
\<close>

definition readEndpoint_end :: "nat \<Rightarrow> bytes \<Rightarrow> read_outcome \<Rightarrow> gotime \<Rightarrow> peer \<Rightarrow> peer" where
  "readEndpoint_end a data err now p = (case fl_reading (flow p a) of None \<Rightarrow> p | Some (sz, cost) \<Rightarrow>
     if length data > sz then p
     else let p0 = upd_flow a (\<lambda>f. f\<lparr>fl_reading := None\<rparr>) p;
              f = flow p0 a in
       if fl_closed f \<or> pr_closed p0 then add_used True (fl_udp f) (- cost) (upd_flow a (\<lambda>f. f\<lparr>fl_reader := False\<rparr>) p0)
       else let p1 = (if data \<noteq> [] then queue_read a data cost now p0 else add_used True (fl_udp f) (- cost) p0)
            in if err = Read_ok \<or> err = Read_timeout \<and> fl_udp f then p1
               else let p2 = upd_flow a (\<lambda>f. f\<lparr>fl_reader := False\<rparr>) p1 in
                 if err = Read_eof \<and> \<not> fl_udp f then upd_flow a (\<lambda>f. f\<lparr>fl_readEOF := True\<rparr>) p2
                 else closeFlow a (Some (case err of Read_failed e \<Rightarrow> e | Read_eof \<Rightarrow> io_EOF | _ \<Rightarrow> Error_New ''i/o timeout'')) True now p2)"

definition finish_writer :: "nat \<Rightarrow> gotime \<Rightarrow> peer \<Rightarrow> peer" where
  "finish_writer a now p =
     (let f = flow p a;
          p1 = (if fl_recvFIN f \<and> fl_recvNext f = fl_finOffset f \<and> \<not> fl_finApplied f then upd_flow a (\<lambda>f. f\<lparr>fl_finApplied := True\<rparr>) p else p);
          g = flow p1 a
      in if fl_finApplied g \<and> fl_readEOF g \<and> fl_finACK g \<and> fl_pending g = []
         then closeFlow a None False now (upd_flow a (\<lambda>f. f\<lparr>fl_writer := False\<rparr>) p1) else p1)"

definition writeEndpoint_begin :: "nat \<Rightarrow> gotime \<Rightarrow> peer \<Rightarrow> peer" where
  "writeEndpoint_begin a now p =
     (let f = flow p a in
      if \<not> fl_writer f \<or> fl_writing f \<noteq> None then p
      else if fl_closed f \<or> pr_closed p then upd_flow a (\<lambda>f. f\<lparr>fl_writer := False\<rparr>) p
      else case fl_ready f of
        [] \<Rightarrow> finish_writer a now p
      | s # _ \<Rightarrow> add_refs 1 (Some s) (upd_flow a (\<lambda>f. f\<lparr>fl_writing := Some s\<rparr>) p))"

definition writeEndpoint_end :: "nat \<Rightarrow> go_error option \<Rightarrow> gotime \<Rightarrow> peer \<Rightarrow> peer" where
  "writeEndpoint_end a err now p = (case fl_writing (flow p a) of None \<Rightarrow> p | Some s \<Rightarrow>
     let p1 = add_refs (- 1) (Some s) (upd_flow a (\<lambda>f. f\<lparr>fl_writing := None\<rparr>) p) in
     if fl_closed (flow p1 a) then release s (upd_flow a (\<lambda>f. f\<lparr>fl_writer := False\<rparr>) p1)
     else let p2 = upd_flow a (\<lambda>f. f\<lparr>fl_ready := tl (fl_ready f), fl_recvBytes := fl_recvBytes f - sg_cost (seg p1 s),
                     fl_consumed := fl_consumed f + word_of_nat (length (f_data (sg_f (seg p1 s))))\<rparr>) p1;
              p3 = discard s p2
          in if err \<noteq> None then closeFlow a err True now (upd_flow a (\<lambda>f. f\<lparr>fl_writer := False\<rparr>) p3)
             else if \<not> fl_udp (flow p3 a) \<and> pr_active p3 \<noteq> ''''
             then acknowledge (path_lanes p3 (pr_active p3) ! unat (fl_id (flow p3 a) mod 4)) a p3 else p3)"

definition close_flows :: "go_error \<Rightarrow> gotime \<Rightarrow> peer \<Rightarrow> peer" where
  "close_flows e now p = fold (\<lambda>a. closeFlow a (Some e) False now) (map snd (pr_flows p)) p"

definition close_lanes :: "peer \<Rightarrow> peer" where
  "close_lanes p = fold close_lane (concat (map snd (pr_paths p))) p"

definition close_peer :: "gotime \<Rightarrow> peer \<Rightarrow> peer" where
  "close_peer now p =
     (if pr_closed p then p
      else let p1 = close_flows ErrClosed now (close_lanes (p\<lparr>pr_closed := True\<rparr>))
           in (add_control (- int (length (pr_closing p1)) * 128) p1)\<lparr>pr_closing := []\<rparr>)"

section \<open>The gateway's operations\<close>

text \<open>\<^verbatim>\<open>net.SplitHostPort\<close>, with the errors it distinguishes collapsed to \<open>None\<close>.\<close>

definition index_of :: "char \<Rightarrow> string \<Rightarrow> nat option" where
  "index_of c s = (if c \<in> set s then Some (length (takeWhile (\<lambda>x. x \<noteq> c) s)) else None)"

definition SplitHostPort :: "string \<Rightarrow> (string \<times> string) option" where
  "SplitHostPort s =
     (if CHR '':'' \<notin> set s then None
      else let port = rev (takeWhile (\<lambda>c. c \<noteq> CHR '':'') (rev s)); i = length s - length port - 1 in
        if hd s = CHR ''[''
        then (case index_of (CHR '']'') s of
                None \<Rightarrow> None
              | Some e \<Rightarrow> if e + 1 \<noteq> i \<or> CHR ''['' \<in> set (drop 1 s) \<or> CHR '']'' \<in> set (drop (e + 1) s) then None
                          else Some (take (e - 1) (drop 1 s), port))
        else if CHR '':'' \<in> set (take i s) \<or> CHR ''['' \<in> set s \<or> CHR '']'' \<in> set s then None
        else Some (take i s, port))"

text \<open>A port that \<^verbatim>\<open>Sscanf\<close> reads and \<^verbatim>\<open>Sprint\<close> prints back is the decimal text of a number.\<close>

definition canonical_port :: "string \<Rightarrow> bool" where
  "canonical_port s \<longleftrightarrow> s \<noteq> [] \<and> list_all is_digit s \<and> hd s \<noteq> CHR ''0'' \<and>
     foldl (\<lambda>n c. n * 10 + (int (of_char c) - 48)) 0 s \<le> 65535"

definition validDestination :: "string \<Rightarrow> go_error option" where
  "validDestination destination = (case SplitHostPort destination of
     None \<Rightarrow> Some ErrDestination
   | Some (host, port) \<Rightarrow> if host = [] \<or> length destination > 300 \<or> \<not> canonical_port port then Some ErrDestination else None)"

definition gateway_error :: "peer \<Rightarrow> go_error option" where
  "gateway_error p = (if pr_closed p then Some ErrClosed else pr_terminalErr p)"

definition ServeTCP :: "string \<Rightarrow> gotime \<Rightarrow> peer \<Rightarrow> nat result \<times> peer" where
  "ServeTCP destination now p = (case validDestination destination of Some e \<Rightarrow> (Inl e, p) | None \<Rightarrow>
     (case gateway_error p of Some e \<Rightarrow> (Inl e, p) | None \<Rightarrow>
        let p1 = p\<lparr>pr_nextID := pr_nextID p + 1\<rparr> in
        (case newFlow (pr_nextID p1) destination False now p1 of
           Inl e \<Rightarrow> (Inl e, p1)
         | Inr (a, p2) \<Rightarrow> (Inr a, startFlow a (upd_flow a (\<lambda>f. f\<lparr>fl_conn := True\<rparr>) p2)))))"

definition udp_flow :: "string \<Rightarrow> peer \<Rightarrow> nat option" where
  "udp_flow key p = map_of (pr_flows p) (case map_of (pr_keys p) key of None \<Rightarrow> 0 | Some i \<Rightarrow> i)"

definition queue_datagram :: "nat \<Rightarrow> bytes \<Rightarrow> gotime \<Rightarrow> peer \<Rightarrow> go_error option \<times> peer" where
  "queue_datagram a payload now p =
     (let cost = int (length payload) + segmentOverhead in
      case reserve True True cost p of
        None \<Rightarrow> (Some ErrCapacity, p\<lparr>pr_dropped := pr_dropped p + 1\<rparr>)
      | Some p1 \<Rightarrow>
          let p2 = upd_flow a (\<lambda>f. f\<lparr>fl_next := fl_next f + 1, fl_lastActive := now\<rparr>) p1;
              f = flow p2 a;
              (s, p3) = new_seg \<lparr>sg_f = control_frame frameUDP (fl_id f) (fl_next f) (UnixNano now) payload, sg_cost = cost,
                 sg_sending = True, sg_udp = True, sg_owned = True, sg_refs = 0, sg_sentPath = '''', sg_sentAt = 0\<rparr> p2
          in (None, upd_flow a (\<lambda>f. f\<lparr>fl_pending := fl_pending f @ [s], fl_sendBytes := fl_sendBytes f + cost\<rparr>) p3))"

definition SendUDP :: "string \<Rightarrow> string \<Rightarrow> bytes \<Rightarrow> gotime \<Rightarrow> peer \<Rightarrow> go_error option \<times> peer" where
  "SendUDP key destination payload now p =
     (if key = [] \<or> length key > 256 \<or> length payload > maxPayload then (Some (Error_New ''invalid UDP mapping''), p)
      else case validDestination destination of Some e \<Rightarrow> (Some e, p) | None \<Rightarrow>
        (case gateway_error p of Some e \<Rightarrow> (Some e, p) | None \<Rightarrow>
           (case udp_flow key p of
              Some a \<Rightarrow> if fl_destination (flow p a) \<noteq> destination then (Some (Error_New ''UDP mapping destination changed''), p)
                        else queue_datagram a payload now p
            | None \<Rightarrow>
                let p1 = p\<lparr>pr_nextID := pr_nextID p + 1\<rparr> in
                (case newFlow (pr_nextID p1) destination True now p1 of
                   Inl e \<Rightarrow> (Some e, p1)
                 | Inr (a, p2) \<Rightarrow>
                     queue_datagram a payload now (startFlow a (p2\<lparr>pr_keys := AList.update key (fl_id (flow p2 a)) (pr_keys p2)\<rparr>))))))"

definition CloseUDP :: "string \<Rightarrow> gotime \<Rightarrow> peer \<Rightarrow> peer" where
  "CloseUDP key now p = (case udp_flow key p of None \<Rightarrow> p | Some a \<Rightarrow> closeFlow a None True now p)"

definition SetPreferred :: "string \<Rightarrow> gotime \<Rightarrow> peer \<Rightarrow> go_error option \<times> peer" where
  "SetPreferred name now p = (case gateway_error p of Some e \<Rightarrow> (Some e, p) | None \<Rightarrow>
     if \<not> ready p name then (Some ErrNoPath, p)
     else let p1 = p\<lparr>pr_preferred := name\<rparr> in
       (None, if pr_active p1 \<noteq> name then p1\<lparr>pr_active := name, pr_switches := pr_switches p1 + 1, pr_switchedAt := now\<rparr> else p1))"

definition RemovePath :: "string \<Rightarrow> gotime \<Rightarrow> peer \<Rightarrow> peer" where
  "RemovePath name now p =
     selectPath now (case map_of (pr_paths p) name of
       None \<Rightarrow> p
     | Some cs \<Rightarrow> let p1 = fold close_lane cs p in p1\<lparr>pr_paths := AList.delete name (pr_paths p1)\<rparr>)"

text \<open>What \<^verbatim>\<open>connect\<close> does with the relay's welcome: the loss of the session, and the first agreement on its generation and flow window.\<close>

definition lose_generation :: "gotime \<Rightarrow> peer \<Rightarrow> peer" where
  "lose_generation now p = selectPath now (close_lanes (close_flows ErrGeneration now (p\<lparr>pr_terminalErr := Some ErrGeneration\<rparr>)))"

definition accept_welcome :: "string \<Rightarrow> int \<Rightarrow> peer \<Rightarrow> go_error option \<times> peer" where
  "accept_welcome generation flowBytes p =
     (if length generation \<noteq> 32 then (Some (Error_New ''invalid relay generation''), p)
      else if flowBytes < 16384 \<or> flowBytes > lm_FlowBytes (pr_limits p) \<or> pr_generation p \<noteq> '''' \<and> flowBytes \<noteq> lm_FlowBytes (pr_limits p)
      then (Some (Error_New ''invalid relay flow window''), p)
      else if pr_generation p \<noteq> '''' \<and> pr_generation p \<noteq> generation then (Some ErrGeneration, p)
      else (None, p\<lparr>pr_generation := generation, pr_limits := (pr_limits p)\<lparr>lm_FlowBytes := flowBytes\<rparr>\<rparr>))"

section \<open>Steps\<close>

text \<open>
  One critical section of one of the goroutines. A pointer that does not exist is ignored, and a
  gateway's operations do nothing on the relay's side.
\<close>

datatype event =
    Tick gotime
  | Handle nat frame gotime
  | Add_carrier string nat duration gotime
  | Write_take bool nat
  | Write_done nat bool gotime
  | Write_exit nat
  | Read_fail nat gotime
  | Dialled nat bool gotime
  | Read_begin nat
  | Read_end nat bytes read_outcome gotime
  | Deliver_begin nat gotime
  | Deliver_end nat "go_error option" gotime
  | Serve_TCP string gotime
  | Cancel_TCP nat go_error gotime
  | Send_UDP string string bytes gotime
  | Close_UDP string gotime
  | Set_preferred string gotime
  | Remove_path string gotime
  | Generation_lost gotime
  | Welcome string int
  | Close gotime

definition at_carrier :: "nat \<Rightarrow> (nat \<Rightarrow> peer \<Rightarrow> peer) \<Rightarrow> peer \<Rightarrow> peer" where
  "at_carrier a h p = (if a < length (pr_carriers p) then h a p else p)"

definition at_flow :: "nat \<Rightarrow> (nat \<Rightarrow> peer \<Rightarrow> peer) \<Rightarrow> peer \<Rightarrow> peer" where
  "at_flow a h p = (if a < length (pr_heap p) then h a p else p)"

definition on_gateway :: "(peer \<Rightarrow> peer) \<Rightarrow> peer \<Rightarrow> peer" where
  "on_gateway h p = (if pr_server p then p else h p)"

fun peer_step :: "event \<Rightarrow> peer \<Rightarrow> peer" where
  "peer_step (Tick now) p = tick now p"
| "peer_step (Handle c m now) p = at_carrier c (\<lambda>c. handle c m now) p"
| "peer_step (Add_carrier path lane rtt now) p = (if lane < CarriersPerPath \<and> path_name path then snd (addCarrier path lane rtt now p) else p)"
| "peer_step (Write_take from_data a) p = at_carrier a (writeLoop_take from_data) p"
| "peer_step (Write_done a ok now) p = at_carrier a (\<lambda>a. writeLoop_done a ok now) p"
| "peer_step (Write_exit a) p = at_carrier a writeLoop_exit p"
| "peer_step (Read_fail a now) p = at_carrier a (\<lambda>a. readLoop_fail a now) p"
| "peer_step (Dialled a ok now) p = at_flow a (\<lambda>a p. if fl_opening (flow p a) then openTarget a ok now p else p) p"
| "peer_step (Read_begin a) p = at_flow a readEndpoint_begin p"
| "peer_step (Read_end a data err now) p = at_flow a (\<lambda>a. readEndpoint_end a data err now) p"
| "peer_step (Deliver_begin a now) p = at_flow a (\<lambda>a. writeEndpoint_begin a now) p"
| "peer_step (Deliver_end a err now) p = at_flow a (\<lambda>a. writeEndpoint_end a err now) p"
| "peer_step (Serve_TCP destination now) p = on_gateway (snd \<circ> ServeTCP destination now) p"
| "peer_step (Cancel_TCP a e now) p = on_gateway (at_flow a (\<lambda>a. closeFlow a (Some e) True now)) p"
| "peer_step (Send_UDP key destination payload now) p = on_gateway (snd \<circ> SendUDP key destination payload now) p"
| "peer_step (Close_UDP key now) p = on_gateway (CloseUDP key now) p"
| "peer_step (Set_preferred name now) p = on_gateway (snd \<circ> SetPreferred name now) p"
| "peer_step (Remove_path name now) p = on_gateway (RemovePath name now) p"
| "peer_step (Generation_lost now) p = on_gateway (lose_generation now) p"
| "peer_step (Welcome generation flowBytes) p = on_gateway (snd \<circ> accept_welcome generation flowBytes) p"
| "peer_step (Close now) p = close_peer now p"

definition peer_run :: "event list \<Rightarrow> peer \<Rightarrow> peer" where
  "peer_run es p = fold peer_step es p"

end
