(* ===== verification/Peer_Budget.thy ===== *)
theory Peer_Budget
  imports Peer_Flow
begin

text \<open>
  The memory accounts of a continuity peer. The predicate \<open>accounts\<close> says that the byte counters of
  a peer are exactly the sums over the objects that exist, that a segment is owned exactly while
  one open flow lists it, and that its reference count is the number of queue entries and
  deliveries that hold it. Its first arguments are what a running operation holds in local
  variables: owned segments, references, budget and control bytes.
\<close>

section \<open>Sums over the heaps\<close>

definition tot :: "('a \<Rightarrow> int) \<Rightarrow> 'a list \<Rightarrow> int" where
  "tot g xs = sum_list (map g xs)"

definition cnt :: "nat list \<Rightarrow> nat \<Rightarrow> int" where
  "cnt xs s = int (count_list xs s)"

lemma tot_Nil [simp]: "tot g [] = 0" by (simp add: tot_def)
lemma tot_append [simp]: "tot g (xs @ ys) = tot g xs + tot g ys" by (simp add: tot_def)
lemma tot_Cons [simp]: "tot g (x # xs) = g x + tot g xs" by (simp add: tot_def)

lemma tot_update: "a < length xs \<Longrightarrow> tot g (xs[a := v]) = tot g xs - g (xs ! a) + g v"
proof (induction xs arbitrary: a)
  case (Cons x xs)
  then show ?case by (cases a) auto
qed simp

lemma tot_update_same: "g v = g (xs ! a) \<Longrightarrow> tot g (xs[a := v]) = tot g xs"
  by (cases "a < length xs") (auto simp: tot_update list_update_beyond)

lemma tot_nonneg: "(\<And>x. x \<in> set xs \<Longrightarrow> 0 \<le> g x) \<Longrightarrow> 0 \<le> tot g xs"
  by (induction xs) auto

lemma tot_zero: "(\<And>x. x \<in> set xs \<Longrightarrow> g x = 0) \<Longrightarrow> tot g xs = 0"
  by (induction xs) auto

lemma cnt_simps [simp]: "cnt [] s = 0" "cnt (x # xs) s = (if x = s then 1 else 0) + cnt xs s"
  "cnt (xs @ ys) s = cnt xs s + cnt ys s"
  by (simp_all add: cnt_def)

lemma cnt_nonneg [simp]: "0 \<le> cnt xs s" by (simp add: cnt_def)

lemma tot_cnt_nonneg [simp]: "0 \<le> tot (\<lambda>x. cnt (h x) s) xs"
  by (rule tot_nonneg) simp

section \<open>The accounts\<close>

definition flow_lists :: "logicalFlow \<Rightarrow> nat list" where
  "flow_lists f = fl_pending f @ map snd (fl_recv f) @ fl_ready f"

definition flow_held :: "logicalFlow \<Rightarrow> nat list" where
  "flow_held f = (if fl_closed f then [] else flow_lists f)"

definition flow_refs :: "logicalFlow \<Rightarrow> nat list" where
  "flow_refs f = (case fl_writing f of None \<Rightarrow> [] | Some s \<Rightarrow> [s])"

definition q_refs :: "queued \<Rightarrow> nat list" where
  "q_refs q = (case q_segment q of None \<Rightarrow> [] | Some s \<Rightarrow> [s])"

definition queue_refs :: "queued list \<Rightarrow> nat list" where
  "queue_refs qs = concat (map q_refs qs)"

lemma queue_refs_simps [simp]: "queue_refs [] = []" "queue_refs (q # qs) = q_refs q @ queue_refs qs" "queue_refs (qs @ qs') = queue_refs qs @ queue_refs qs'"
  by (simp_all add: queue_refs_def)

definition car_queue :: "carrier \<Rightarrow> queued list" where
  "car_queue c = c_control c @ c_data c @ (case c_hand c of None \<Rightarrow> [] | Some q \<Rightarrow> [q])"

definition car_refs :: "carrier \<Rightarrow> nat list" where
  "car_refs c = queue_refs (car_queue c)"

definition car_ctl :: "carrier \<Rightarrow> int" where
  "car_ctl c = (if c_running c then carrierQueueBytes else 0) + tot q_cost (car_queue c)"

definition flow_ctl :: "logicalFlow \<Rightarrow> int" where
  "flow_ctl f = (if fl_closed f then 0 else 128)"

definition seg_cost :: "bool \<Rightarrow> bool \<Rightarrow> segment \<Rightarrow> int" where
  "seg_cost d k s = (if sg_sending s = d \<and> sg_udp s = k then sg_cost s else 0)"

definition reading_cost :: "logicalFlow \<Rightarrow> int" where
  "reading_cost f = (case fl_reading f of None \<Rightarrow> 0 | Some (_, c) \<Rightarrow> c)"

definition flow_cost :: "bool \<Rightarrow> bool \<Rightarrow> logicalFlow \<Rightarrow> int" where
  "flow_cost d k f = (if fl_udp f \<noteq> k then 0 else if d then reading_cost f else if fl_closed f then 0 else flowOverhead)"

definition used_total :: "segment list \<Rightarrow> logicalFlow list \<Rightarrow> bool \<Rightarrow> bool \<Rightarrow> int" where
  "used_total segs heap d k = tot (seg_cost d k) segs + tot (flow_cost d k) heap"

definition control_total :: "carrier list \<Rightarrow> logicalFlow list \<Rightarrow> nat \<Rightarrow> int" where
  "control_total cars heap n = tot car_ctl cars + tot flow_ctl heap + 128 * int n"

definition owners :: "logicalFlow list \<Rightarrow> nat \<Rightarrow> int" where
  "owners heap s = tot (\<lambda>f. cnt (flow_held f) s) heap"

definition referrers :: "carrier list \<Rightarrow> logicalFlow list \<Rightarrow> nat \<Rightarrow> int" where
  "referrers cars heap s = tot (\<lambda>c. cnt (car_refs c) s) cars + tot (\<lambda>f. cnt (flow_refs f) s) heap"

definition seg_ok :: "int \<Rightarrow> int \<Rightarrow> segment \<Rightarrow> bool" where
  "seg_ok own refs s \<longleftrightarrow> of_bool (sg_owned s) = own \<and> sg_refs s = refs \<and> 0 \<le> sg_cost s \<and>
     (\<not> sg_owned s \<and> sg_refs s = 0 \<longrightarrow> sg_cost s = 0)"

definition pointers_ok :: "nat \<Rightarrow> carrier list \<Rightarrow> logicalFlow list \<Rightarrow> bool" where
  "pointers_ok n cars heap \<longleftrightarrow>
     (\<forall>f \<in> set heap. (\<forall>s \<in> set (flow_lists f) \<union> set (flow_refs f). s < n) \<and> 0 \<le> reading_cost f) \<and>
     (\<forall>c \<in> set cars. (\<forall>s \<in> set (car_refs c). s < n) \<and> (\<forall>q \<in> set (car_queue c). 0 \<le> q_cost q))"

definition accounts :: "(nat \<Rightarrow> int) \<Rightarrow> (nat \<Rightarrow> int) \<Rightarrow> (bool \<Rightarrow> bool \<Rightarrow> int) \<Rightarrow> int \<Rightarrow> peer \<Rightarrow> bool" where
  "accounts X Y U V p \<longleftrightarrow>
     (\<forall>d k. pr_used p d k = used_total (pr_segs p) (pr_heap p) d k + U d k) \<and>
     pr_controlBytes p = control_total (pr_carriers p) (pr_heap p) (length (pr_closing p)) + V \<and>
     (\<forall>s < length (pr_segs p). seg_ok (owners (pr_heap p) s + X s) (referrers (pr_carriers p) (pr_heap p) s + Y s) (seg p s)) \<and>
     pointers_ok (length (pr_segs p)) (pr_carriers p) (pr_heap p)"

abbreviation none1 :: "nat \<Rightarrow> int" where "none1 \<equiv> \<lambda>_. 0"
abbreviation none2 :: "bool \<Rightarrow> bool \<Rightarrow> int" where "none2 \<equiv> \<lambda>_ _. 0"

lemmas accounts_defs = accounts_def used_total_def control_total_def owners_def referrers_def

text \<open>Fields the accounts do not mention.\<close>

lemma accounts_frame [simp]:
  "accounts X Y U V (p\<lparr>pr_limits := l\<rparr>) = accounts X Y U V p"
  "accounts X Y U V (p\<lparr>pr_generation := g\<rparr>) = accounts X Y U V p"
  "accounts X Y U V (p\<lparr>pr_paths := ps\<rparr>) = accounts X Y U V p"
  "accounts X Y U V (p\<lparr>pr_preferred := n\<rparr>) = accounts X Y U V p"
  "accounts X Y U V (p\<lparr>pr_active := n\<rparr>) = accounts X Y U V p"
  "accounts X Y U V (p\<lparr>pr_flows := fs\<rparr>) = accounts X Y U V p"
  "accounts X Y U V (p\<lparr>pr_seen := w\<rparr>) = accounts X Y U V p"
  "accounts X Y U V (p\<lparr>pr_keys := ks\<rparr>) = accounts X Y U V p"
  "accounts X Y U V (p\<lparr>pr_lastCloseRetry := t\<rparr>) = accounts X Y U V p"
  "accounts X Y U V (p\<lparr>pr_lastWindowRefresh := t\<rparr>) = accounts X Y U V p"
  "accounts X Y U V (p\<lparr>pr_nextID := i\<rparr>) = accounts X Y U V p"
  "accounts X Y U V (p\<lparr>pr_closed := b\<rparr>) = accounts X Y U V p"
  "accounts X Y U V (p\<lparr>pr_terminalErr := e\<rparr>) = accounts X Y U V p"
  "accounts X Y U V (p\<lparr>pr_lastReady := t\<rparr>) = accounts X Y U V p"
  "accounts X Y U V (p\<lparr>pr_switchedAt := t\<rparr>) = accounts X Y U V p"
  "accounts X Y U V (p\<lparr>pr_replayed := i\<rparr>) = accounts X Y U V p"
  "accounts X Y U V (p\<lparr>pr_expired := i\<rparr>) = accounts X Y U V p"
  "accounts X Y U V (p\<lparr>pr_dropped := i\<rparr>) = accounts X Y U V p"
  "accounts X Y U V (p\<lparr>pr_switches := i\<rparr>) = accounts X Y U V p"
  "accounts X Y U V (p\<lparr>pr_pause := t\<rparr>) = accounts X Y U V p"
  by (simp_all add: accounts_def)

section \<open>Primitive steps\<close>

lemma accounts_cong:
  assumes "accounts X Y U V p" and "\<And>s. s < length (pr_segs p) \<Longrightarrow> X s = X' s" "\<And>s. s < length (pr_segs p) \<Longrightarrow> Y s = Y' s"
    "\<And>d k. U d k = U' d k" "V = V'"
  shows "accounts X' Y' U' V' p"
  using assms by (simp add: accounts_def)

lemma pointers_ok_mono: "pointers_ok n cars heap \<Longrightarrow> n \<le> m \<Longrightarrow> pointers_ok m cars heap"
  unfolding pointers_ok_def using less_le_trans by blast

lemma pointers_flow: "pointers_ok n cars heap \<Longrightarrow> \<forall>s \<in> set (flow_lists f) \<union> set (flow_refs f). s < n \<Longrightarrow> 0 \<le> reading_cost f \<Longrightarrow>
    pointers_ok n cars (heap[a := f])"
  unfolding pointers_ok_def by (auto dest!: set_update_subset_insert [THEN subsetD])

lemma pointers_car: "pointers_ok n cars heap \<Longrightarrow> \<forall>s \<in> set (car_refs c). s < n \<Longrightarrow> \<forall>q \<in> set (car_queue c). 0 \<le> q_cost q \<Longrightarrow>
    pointers_ok n (cars[a := c]) heap"
  unfolding pointers_ok_def by (auto dest!: set_update_subset_insert [THEN subsetD])

lemma accounts_add_used:
  "accounts X Y U V p \<Longrightarrow> accounts X Y (\<lambda>d' k'. U d' k' + (if d' = d \<and> k' = k then n else 0)) V (add_used d k n p)"
  by (simp add: accounts_def add_used_def)

lemma accounts_add_control: "accounts X Y U V p \<Longrightarrow> accounts X Y U (V + n) (add_control n p)"
  by (simp add: accounts_def add_control_def)

lemma accounts_upd_flow:
  assumes "accounts X Y U V p" and a: "a < length (pr_heap p)" and f: "f = flow p a" and f': "f' = h f"
    and ptrs: "\<forall>s \<in> set (flow_lists f') \<union> set (flow_refs f'). s < length (pr_segs p)" "0 \<le> reading_cost f'"
  shows "accounts (\<lambda>s. X s + cnt (flow_held f) s - cnt (flow_held f') s) (\<lambda>s. Y s + cnt (flow_refs f) s - cnt (flow_refs f') s)
    (\<lambda>d k. U d k + flow_cost d k f - flow_cost d k f') (V + flow_ctl f - flow_ctl f') (upd_flow a h p)"
  using assms(1) ptrs by (simp add: accounts_defs upd_flow_def tot_update [OF a] f [symmetric] f' [symmetric] pointers_flow algebra_simps)

lemma accounts_upd_car:
  assumes "accounts X Y U V p" and a: "a < length (pr_carriers p)" and c: "c = car p a" and c': "c' = h c"
    and ptrs: "\<forall>s \<in> set (car_refs c'). s < length (pr_segs p)" "\<forall>q \<in> set (car_queue c'). 0 \<le> q_cost q"
  shows "accounts X (\<lambda>s. Y s + cnt (car_refs c) s - cnt (car_refs c') s) U (V + car_ctl c - car_ctl c') (upd_car a h p)"
  using assms(1) ptrs by (simp add: accounts_defs upd_car_def tot_update [OF a] c [symmetric] c' [symmetric] pointers_car algebra_simps)

text \<open>Updates that keep what the accounts mention.\<close>

definition same_flow :: "logicalFlow \<Rightarrow> logicalFlow \<Rightarrow> bool" where
  "same_flow f g \<longleftrightarrow> fl_udp g = fl_udp f \<and> fl_closed g = fl_closed f \<and> flow_lists g = flow_lists f \<and>
     fl_writing g = fl_writing f \<and> fl_reading g = fl_reading f"

definition same_car :: "carrier \<Rightarrow> carrier \<Rightarrow> bool" where
  "same_car c d \<longleftrightarrow> car_queue d = car_queue c \<and> c_running d = c_running c"

lemma accounts_same_flow:
  assumes ok: "accounts X Y U V p" and same: "same_flow (flow p a) (h (flow p a))"
  shows "accounts X Y U V (upd_flow a h p)"
proof (cases "a < length (pr_heap p)")
  case True
  let ?f = "flow p a" and ?g = "h (flow p a)"
  have eqs: "flow_held ?g = flow_held ?f" "flow_refs ?g = flow_refs ?f" "flow_lists ?g = flow_lists ?f" "reading_cost ?g = reading_cost ?f"
    "flow_ctl ?g = flow_ctl ?f" "\<And>d k. flow_cost d k ?g = flow_cost d k ?f"
    using same by (simp_all add: same_flow_def flow_held_def flow_refs_def reading_cost_def flow_ctl_def flow_cost_def)
  have "pointers_ok (length (pr_segs p)) (pr_carriers p) (pr_heap p)" using ok by (simp add: accounts_def)
  then have "pointers_ok (length (pr_segs p)) (pr_carriers p) ((pr_heap p)[a := ?g])"
    using nth_mem [OF True] eqs by (intro pointers_flow) (auto simp: pointers_ok_def)
  then show ?thesis
    using ok by (simp add: accounts_defs upd_flow_def tot_update_same eqs)
qed (use ok in \<open>simp add: upd_flow_def list_update_beyond\<close>)

lemma accounts_same_car:
  assumes ok: "accounts X Y U V p" and same: "same_car (car p a) (h (car p a))"
  shows "accounts X Y U V (upd_car a h p)"
proof (cases "a < length (pr_carriers p)")
  case True
  let ?c = "car p a" and ?d = "h (car p a)"
  have eqs: "car_queue ?d = car_queue ?c" "car_refs ?d = car_refs ?c" "car_ctl ?d = car_ctl ?c"
    using same by (simp_all add: same_car_def car_refs_def car_ctl_def)
  have "pointers_ok (length (pr_segs p)) (pr_carriers p) (pr_heap p)" using ok by (simp add: accounts_def)
  then have "pointers_ok (length (pr_segs p)) ((pr_carriers p)[a := ?d]) (pr_heap p)"
    using nth_mem [OF True] eqs by (intro pointers_car) (auto simp: pointers_ok_def)
  then show ?thesis
    using ok by (simp add: accounts_defs upd_car_def tot_update_same eqs)
qed (use ok in \<open>simp add: upd_car_def list_update_beyond\<close>)

lemma accounts_sent_mark:
  "accounts X Y U V (upd_seg s (\<lambda>x. x\<lparr>sg_sentPath := n, sg_sentAt := t\<rparr>) p) = accounts X Y U V p"
proof -
  have "tot (seg_cost d k) ((pr_segs p)[s := (seg p s)\<lparr>sg_sentPath := n, sg_sentAt := t\<rparr>]) = tot (seg_cost d k) (pr_segs p)" for d k
    by (rule tot_update_same) (simp add: seg_cost_def)
  moreover have "seg_ok x y ((pr_segs p)[s := (seg p s)\<lparr>sg_sentPath := n, sg_sentAt := t\<rparr>] ! u) = seg_ok x y (seg p u)" if "u < length (pr_segs p)" for x y u
    using that by (cases "u = s") (auto simp: seg_ok_def)
  ultimately show ?thesis by (simp add: accounts_defs upd_seg_def)
qed

text \<open>A new segment, owned by the running operation.\<close>

lemma no_referrers:
  assumes "pointers_ok n cars heap"
  shows "owners heap n = 0" "referrers cars heap n = 0"
proof -
  have z: "cnt xs n = 0" if "\<forall>s \<in> set xs. s < n" for xs
    using that by (auto simp: cnt_def count_list_0_iff)
  have "set (flow_held f) \<subseteq> set (flow_lists f)" for f by (simp add: flow_held_def)
  then have "tot (\<lambda>f. cnt (flow_held f) n) heap = 0" "tot (\<lambda>f. cnt (flow_refs f) n) heap = 0" "tot (\<lambda>c. cnt (car_refs c) n) cars = 0"
    using assms unfolding pointers_ok_def by (auto simp: subset_iff intro!: tot_zero z)
  then show "owners heap n = 0" "referrers cars heap n = 0" by (simp_all add: owners_def referrers_def)
qed

lemma accounts_new_seg:
  assumes ok: "accounts X Y U V p" and s: "0 \<le> sg_cost s" "sg_owned s" "sg_refs s = 0" and new: "new_seg s p = (a, q)"
    and X: "X a = 0" and Y: "Y a = 0"
  shows "accounts (\<lambda>x. X x + (if x = a then 1 else 0)) Y (\<lambda>d k. U d k - seg_cost d k s) V q"
proof -
  have q: "q = p\<lparr>pr_segs := pr_segs p @ [s]\<rparr>" and a: "a = length (pr_segs p)" using new by (auto simp: new_seg_def)
  have ptr: "pointers_ok a (pr_carriers p) (pr_heap p)" using ok by (simp add: accounts_def a)
  show ?thesis
    using ok s X Y no_referrers [OF ptr] pointers_ok_mono [OF ptr, of "Suc a"]
    by (auto simp: accounts_defs q a nth_append less_Suc_eq seg_ok_def)
qed

text \<open>Giving up a segment: \<^verbatim>\<open>discard\<close> after it was taken from its list, \<^verbatim>\<open>release\<close> after a reference was dropped.\<close>

lemma accounts_seg_ok: "accounts X Y U V p \<Longrightarrow> s < length (pr_segs p) \<Longrightarrow>
    seg_ok (owners (pr_heap p) s + X s) (referrers (pr_carriers p) (pr_heap p) s + Y s) (seg p s)"
  by (simp add: accounts_def)

lemma owners_nonneg [simp]: "0 \<le> owners heap s" "0 \<le> referrers cars heap s"
  by (simp_all add: owners_def referrers_def)

text \<open>Replacing segment \<open>s\<close> by \<open>t\<close>, with the difference of their costs.\<close>

lemma accounts_upd_seg:
  assumes ok: "accounts X Y U V p" and s: "s < length (pr_segs p)" and t: "t = h (seg p s)"
    and same: "sg_sending t = sg_sending (seg p s)" "sg_udp t = sg_udp (seg p s)"
    and X: "\<And>x. x \<noteq> s \<Longrightarrow> X' x = X x" and Y: "\<And>x. x \<noteq> s \<Longrightarrow> Y' x = Y x"
    and t_ok: "seg_ok (owners (pr_heap p) s + X' s) (referrers (pr_carriers p) (pr_heap p) s + Y' s) t"
  shows "accounts X' Y' (\<lambda>d k. U d k + seg_cost d k (seg p s) - seg_cost d k t) V (upd_seg s h p)"
proof -
  have "seg_ok (owners (pr_heap p) u + X' u) (referrers (pr_carriers p) (pr_heap p) u + Y' u) ((pr_segs p)[s := t] ! u)"
    if "u < length (pr_segs p)" for u
    using that t_ok X Y accounts_seg_ok [OF ok that] by (cases "u = s") auto
  then show ?thesis
    using ok by (simp add: accounts_def used_total_def upd_seg_def tot_update [OF s] t [symmetric])
qed

lemma upd_seg_twice: "s < length (pr_segs p) \<Longrightarrow> upd_seg s g (upd_seg s h p) = upd_seg s (g \<circ> h) p"
  by (simp add: upd_seg_def)

lemma add_used_upd_seg: "upd_seg s h (add_used d k n p) = add_used d k n (upd_seg s h p)"
  by (simp add: upd_seg_def add_used_def cong: if_cong)

lemma accounts_release:
  assumes ok: "accounts X Y U V p0" and p: "p = upd_seg s h p0" and s: "s < length (pr_segs p0)" and t: "t = h (seg p0 s)"
    and same: "sg_sending t = sg_sending (seg p0 s)" "sg_udp t = sg_udp (seg p0 s)" "sg_cost t = sg_cost (seg p0 s)"
    and X: "\<And>x. x \<noteq> s \<Longrightarrow> X' x = X x" and Y: "\<And>x. x \<noteq> s \<Longrightarrow> Y' x = Y x"
    and own: "of_bool (sg_owned t) = owners (pr_heap p0) s + X' s" and refs: "sg_refs t = referrers (pr_carriers p0) (pr_heap p0) s + Y' s"
    and Y': "0 \<le> Y' s"
  shows "accounts X' Y' U V (release s p)"
proof -
  have cost: "0 \<le> sg_cost t" using accounts_seg_ok [OF ok s] same by (simp add: seg_ok_def)
  have nonneg: "0 \<le> sg_refs t" using refs Y' by simp
  have seg: "seg p s = t" using s by (simp add: p upd_seg_def t)
  show ?thesis
  proof (cases "sg_owned t \<or> sg_refs t > 0")
    case True
    have "seg_ok (owners (pr_heap p0) s + X' s) (referrers (pr_carriers p0) (pr_heap p0) s + Y' s) t"
      using True cost own refs by (auto simp: seg_ok_def)
    from accounts_upd_seg [where X' = X' and Y' = Y' and h = h, OF ok s t same(1,2) X Y this] have "accounts X' Y' (\<lambda>d k. U d k + seg_cost d k (seg p0 s) - seg_cost d k t) V p"
      by (simp add: p)
    then have "accounts X' Y' U V p" by (rule accounts_cong) (simp_all add: seg_cost_def same)
    moreover have "release s p = p" using True seg by (simp add: release_def)
    ultimately show ?thesis by simp
  next
    case False
    let ?z = "\<lambda>x. x\<lparr>sg_cost := 0, sg_f := (sg_f x)\<lparr>f_data := []\<rparr>\<rparr>"
    have "release s p = add_used (sg_sending t) (sg_udp t) (- sg_cost t) (upd_seg s ?z p)"
      using False unfolding release_def seg Let_def by (simp only: if_False add_used_upd_seg)
    then have r: "release s p = add_used (sg_sending t) (sg_udp t) (- sg_cost t) (upd_seg s (?z \<circ> h) p0)"
      unfolding p upd_seg_twice [OF s] .
    have "seg_ok (owners (pr_heap p0) s + X' s) (referrers (pr_carriers p0) (pr_heap p0) s + Y' s) (?z t)"
      using False nonneg own refs by (auto simp: seg_ok_def)
    from accounts_upd_seg [where X' = X' and Y' = Y' and h = "?z \<circ> h", OF ok s _ _ _ X Y this] same t
    have "accounts X' Y' (\<lambda>d k. U d k + seg_cost d k (seg p0 s) - seg_cost d k (?z t)) V (upd_seg s (?z \<circ> h) p0)"
      by simp
    from accounts_add_used [OF this, of "sg_sending t" "sg_udp t" "- sg_cost t"] show ?thesis
      unfolding r by (rule accounts_cong) (auto simp: seg_cost_def same)
  qed
qed

lemma accounts_discard:
  assumes ok: "accounts (\<lambda>x. X x + (if x = s then 1 else 0)) Y U V p" and s: "s < length (pr_segs p)"
    and X: "0 \<le> owners (pr_heap p) s + X s" and Y: "0 \<le> Y s"
  shows "accounts X Y U V (discard s p)"
proof -
  have o: "of_bool (sg_owned (seg p s)) = owners (pr_heap p) s + X s + 1"
    and r: "sg_refs (seg p s) = referrers (pr_carriers p) (pr_heap p) s + Y s"
    using accounts_seg_ok [OF ok s] by (simp_all add: seg_ok_def)
  have "owners (pr_heap p) s + X s = 0" using o X by (cases "sg_owned (seg p s)") auto
  then show ?thesis
    unfolding discard_def by (intro accounts_release [OF ok refl s refl]) (simp_all add: r Y)
qed

lemma length_segs [simp]: "length (pr_segs (upd_seg s h p)) = length (pr_segs p)" "length (pr_segs (release s p)) = length (pr_segs p)"
  "length (pr_segs (discard s p)) = length (pr_segs p)" "length (pr_segs (fold discard ss p)) = length (pr_segs p)"
proof -
  show r: "length (pr_segs (upd_seg s h p)) = length (pr_segs p)" "length (pr_segs (release s p)) = length (pr_segs p)" for h p s
    by (simp_all add: upd_seg_def release_def add_used_def Let_def)
  then show d: "length (pr_segs (discard s p)) = length (pr_segs p)" for s p
    by (simp add: discard_def)
  show "length (pr_segs (fold discard ss p)) = length (pr_segs p)"
    by (induction ss arbitrary: p) (simp_all add: d)
qed

lemma accounts_discards:
  assumes "accounts (\<lambda>x. X x + cnt ss x) Y U V p" and "\<forall>s \<in> set ss. s < length (pr_segs p)" and "\<And>s. 0 \<le> X s" and "\<And>s. 0 \<le> Y s"
  shows "accounts X Y U V (fold discard ss p)"
  using assms
proof (induction ss arbitrary: p)
  case (Cons s ss)
  have "accounts (\<lambda>x. (X x + cnt ss x) + (if x = s then 1 else 0)) Y U V p"
    by (rule accounts_cong [OF Cons.prems(1)]) auto
  then have "accounts (\<lambda>x. X x + cnt ss x) Y U V (discard s p)"
    using Cons.prems owners_nonneg(1) [of "pr_heap p" s] by (intro accounts_discard) auto
  then show ?case using Cons by simp
qed simp

lemma accounts_releaseQueued:
  assumes ok: "accounts X (\<lambda>x. Y x + cnt (q_refs q) x) U (V + q_cost q) p"
    and s: "\<forall>s \<in> set (q_refs q). s < length (pr_segs p)" and Y: "\<And>s. 0 \<le> Y s"
  shows "accounts X Y U V (releaseQueued q p)"
proof -
  from accounts_add_control [OF ok, of "- q_cost q"]
  have 1: "accounts X (\<lambda>x. Y x + cnt (q_refs q) x) U V (add_control (- q_cost q) p)" by simp
  show ?thesis
  proof (cases "q_segment q")
    case None
    then show ?thesis using 1 by (simp add: releaseQueued_def q_refs_def)
  next
    case (Some a)
    let ?p = "add_control (- q_cost q) p"
    have a: "a < length (pr_segs ?p)" using s Some by (simp add: q_refs_def add_control_def)
    have "seg_ok (owners (pr_heap ?p) a + X a) (referrers (pr_carriers ?p) (pr_heap ?p) a + (Y a + 1)) (seg ?p a)"
      using accounts_seg_ok [OF 1 a] Some by (simp add: q_refs_def)
    then have "accounts X Y U V (release a (upd_seg a (\<lambda>s. s\<lparr>sg_refs := sg_refs s + (- 1)\<rparr>) ?p))"
      using Some by (intro accounts_release [OF 1 refl a refl]) (auto simp: seg_ok_def q_refs_def Y)
    then show ?thesis using Some by (simp add: releaseQueued_def add_refs_def)
  qed
qed

lemma releaseQueued_length [simp]: "length (pr_segs (releaseQueued q p)) = length (pr_segs p)"
  by (simp add: releaseQueued_def add_control_def add_refs_def Let_def split: option.split)

lemma accounts_drain:
  assumes "accounts X (\<lambda>x. Y x + cnt (queue_refs qs) x) U (V + tot q_cost qs) p"
    and "\<forall>s \<in> set (queue_refs qs). s < length (pr_segs p)" and "\<And>s. 0 \<le> Y s"
  shows "accounts X Y U V (fold releaseQueued qs p)"
  using assms
proof (induction qs arbitrary: p)
  case (Cons q qs)
  have "accounts X (\<lambda>x. (Y x + cnt (queue_refs qs) x) + cnt (q_refs q) x) U (V + tot q_cost qs + q_cost q) p"
    by (rule accounts_cong [OF Cons.prems(1)]) simp_all
  then have "accounts X (\<lambda>x. Y x + cnt (queue_refs qs) x) U (V + tot q_cost qs) (releaseQueued q p)"
    using Cons.prems(2,3) by (intro accounts_releaseQueued) auto
  then show ?case using Cons by simp
qed simp

section \<open>Bounds and shape\<close>

text \<open>The counters respect the profile.\<close>

definition bounded :: "peer \<Rightarrow> bool" where
  "bounded p \<longleftrightarrow> (\<forall>d k. pr_used p d k \<le> class_limit (pr_limits p) k) \<and> pr_controlBytes p \<le> lm_ControlBytes (pr_limits p)"

text \<open>
  The maps point to what they should: a flow is listed under its number exactly while it is open,
  numbers of open and closing flows are disjoint and known to the peer, and paths have six lanes
  of existing carriers.
\<close>

definition flows_ok :: "(uint64, nat) gomap \<Rightarrow> logicalFlow list \<Rightarrow> bool" where
  "flows_ok flows heap \<longleftrightarrow> gomap_ok flows \<and>
     (\<forall>(i, a) \<in> set flows. a < length heap \<and> fl_id (heap ! a) = i \<and> \<not> fl_closed (heap ! a)) \<and>
     (\<forall>a < length heap. \<not> fl_closed (heap ! a) \<longrightarrow> (fl_id (heap ! a), a) \<in> set flows)"

definition known_id :: "peer \<Rightarrow> uint64 set \<Rightarrow> uint64 \<Rightarrow> bool" where
  "known_id p S i \<longleftrightarrow> i \<noteq> 0 \<and> (if pr_server p then i \<in> S else i \<le> pr_nextID p)"

definition ids_ok :: "peer \<Rightarrow> bool" where
  "ids_ok p \<longleftrightarrow> gomap_ok (pr_closing p) \<and> fst ` set (pr_flows p) \<inter> fst ` set (pr_closing p) = {} \<and>
     (\<exists>S. window_rel (pr_seen p) S \<and> (\<forall>i \<in> fst ` set (pr_flows p) \<union> fst ` set (pr_closing p). known_id p S i))"

definition paths_ok :: "nat \<Rightarrow> (string, nat option list) gomap \<Rightarrow> bool" where
  "paths_ok n paths \<longleftrightarrow> (\<forall>(_, cs) \<in> set paths. length cs = CarriersPerPath \<and> (\<forall>a. Some a \<in> set cs \<longrightarrow> a < n))"

definition shape :: "peer \<Rightarrow> bool" where
  "shape p \<longleftrightarrow> flows_ok (pr_flows p) (pr_heap p) \<and> ids_ok p \<and> paths_ok (length (pr_carriers p)) (pr_paths p)"

definition peer_ok :: "peer \<Rightarrow> bool" where
  "peer_ok p \<longleftrightarrow> accounts none1 none1 none2 0 p \<and> bounded p \<and> shape p"

text \<open>The part of the state that \<open>shape\<close> is about; most operations keep it.\<close>

definition skeleton :: "peer \<Rightarrow> (uint64 \<times> bool) list \<times> (uint64, nat) gomap \<times> (uint64, gotime) gomap \<times> datagramWindow \<times> uint64 \<times> bool \<times> (string, nat option list) gomap \<times> nat" where
  "skeleton p = (map (\<lambda>f. (fl_id f, fl_closed f)) (pr_heap p), pr_flows p, pr_closing p, pr_seen p, pr_nextID p, pr_server p, pr_paths p, length (pr_carriers p))"

lemma flows_ok_cong: "map (\<lambda>f. (fl_id f, fl_closed f)) heap = map (\<lambda>f. (fl_id f, fl_closed f)) heap' \<Longrightarrow> flows_ok flows heap = flows_ok flows heap'"
proof -
  assume eq: "map (\<lambda>f. (fl_id f, fl_closed f)) heap = map (\<lambda>f. (fl_id f, fl_closed f)) heap'"
  then have "length heap = length heap'" using map_eq_imp_length_eq by blast
  moreover have "fl_id (heap ! a) = fl_id (heap' ! a) \<and> fl_closed (heap ! a) = fl_closed (heap' ! a)" if "a < length heap" for a
    using that eq calculation by (metis (mono_tags, lifting) Pair_inject nth_map)
  ultimately show ?thesis unfolding flows_ok_def by (auto 0 4)
qed

lemma shape_skeleton: "skeleton p = skeleton q \<Longrightarrow> shape p = shape q"
  using flows_ok_cong [of "pr_heap p" "pr_heap q" "pr_flows q"]
  by (auto simp: skeleton_def shape_def ids_ok_def known_id_def)

lemma skeleton_lengths: "skeleton p = skeleton q \<Longrightarrow> length (pr_heap p) = length (pr_heap q) \<and> length (pr_carriers p) = length (pr_carriers q)"
  using map_eq_imp_length_eq by (auto simp: skeleton_def)

section \<open>Operations that keep the skeleton\<close>

lemma skeleton_scalar [simp]:
  "skeleton (p\<lparr>pr_limits := l\<rparr>) = skeleton p" "skeleton (p\<lparr>pr_generation := g\<rparr>) = skeleton p"
  "skeleton (p\<lparr>pr_preferred := n\<rparr>) = skeleton p" "skeleton (p\<lparr>pr_active := n\<rparr>) = skeleton p"
  "skeleton (p\<lparr>pr_keys := ks\<rparr>) = skeleton p" "skeleton (p\<lparr>pr_lastCloseRetry := t\<rparr>) = skeleton p"
  "skeleton (p\<lparr>pr_lastWindowRefresh := t\<rparr>) = skeleton p" "skeleton (p\<lparr>pr_closed := b\<rparr>) = skeleton p"
  "skeleton (p\<lparr>pr_terminalErr := e\<rparr>) = skeleton p" "skeleton (p\<lparr>pr_lastReady := t\<rparr>) = skeleton p"
  "skeleton (p\<lparr>pr_switchedAt := t\<rparr>) = skeleton p" "skeleton (p\<lparr>pr_replayed := i\<rparr>) = skeleton p"
  "skeleton (p\<lparr>pr_expired := i\<rparr>) = skeleton p" "skeleton (p\<lparr>pr_dropped := i\<rparr>) = skeleton p"
  "skeleton (p\<lparr>pr_switches := i\<rparr>) = skeleton p" "skeleton (p\<lparr>pr_pause := t\<rparr>) = skeleton p"
  "skeleton (p\<lparr>pr_segs := ss\<rparr>) = skeleton p" "skeleton (p\<lparr>pr_used := u\<rparr>) = skeleton p"
  "skeleton (p\<lparr>pr_controlBytes := n'\<rparr>) = skeleton p"
  by (simp_all add: skeleton_def)

lemma skeleton_primitive [simp]:
  "skeleton (upd_seg s h p) = skeleton p" "skeleton (upd_car a g p) = skeleton p"
  "skeleton (add_used d k n p) = skeleton p" "skeleton (add_control m p) = skeleton p"
  "skeleton (release s p) = skeleton p" "skeleton (discard s p) = skeleton p" "skeleton (fold discard ss p) = skeleton p"
  "skeleton (snd (new_seg x p)) = skeleton p" "skeleton (add_refs m r p) = skeleton p"
  "skeleton (closeCarrier a p) = skeleton p" "skeleton (close_lane l p) = skeleton p"
  "skeleton (selectPath now p) = skeleton p" "skeleton (releaseQueued q p) = skeleton p" "skeleton (fold releaseQueued qs p) = skeleton p"
proof -
  show b [simp]: "skeleton (upd_seg s h p) = skeleton p" "skeleton (upd_car a g p) = skeleton p" for s h a g and p :: peer
    by (simp_all add: upd_seg_def upd_car_def skeleton_def)
  show c [simp]: "skeleton (add_used d k n p) = skeleton p" "skeleton (add_control m p) = skeleton p" for d k n m and p :: peer
    by (simp_all add: add_used_def add_control_def skeleton_def)
  show d [simp]: "skeleton (release s p) = skeleton p" for s p by (simp add: release_def Let_def)
  show e [simp]: "skeleton (discard s p) = skeleton p" for s p by (simp add: discard_def)
  show "skeleton (fold discard ss p) = skeleton p" by (induction ss arbitrary: p) simp_all
  show f [simp]: "skeleton (snd (new_seg x p)) = skeleton p" "skeleton (add_refs m r p) = skeleton p" for x m r p
    by (auto simp: new_seg_def add_refs_def split: option.split)
  show [simp]: "skeleton (closeCarrier a p) = skeleton p" for a p by (simp add: closeCarrier_def)
  show "skeleton (close_lane l p) = skeleton p" by (simp add: close_lane_def split: option.split)
  show "skeleton (selectPath now p) = skeleton p" by (simp add: selectPath_def Let_def)
  show g [simp]: "skeleton (releaseQueued q p) = skeleton p" for q p by (simp add: releaseQueued_def Let_def split: option.split)
  show "skeleton (fold releaseQueued qs p) = skeleton p" by (induction qs arbitrary: p) simp_all
qed

definition same_id :: "logicalFlow \<Rightarrow> logicalFlow \<Rightarrow> bool" where
  "same_id f g \<longleftrightarrow> fl_id g = fl_id f \<and> fl_closed g = fl_closed f"

lemma skeleton_upd_flow: "same_id (flow p a) (h (flow p a)) \<Longrightarrow> skeleton (upd_flow a h p) = skeleton p"
  unfolding skeleton_def upd_flow_def same_id_def
  by (cases "a < length (pr_heap p)") (auto simp: map_update list_update_beyond intro!: list_update_same_conv [THEN iffD2])

lemma skeleton_enqueue [simp]: "skeleton (snd (enqueue c f s p)) = skeleton p"
  by (simp add: enqueue_def Let_def split: option.split)

lemma skeleton_send [simp]: "skeleton (send c f p) = skeleton p"
  by (simp add: send_def)

lemma skeleton_acknowledge [simp]: "skeleton (acknowledge c a p) = skeleton p"
  by (simp add: acknowledge_def case_prod_beta Let_def skeleton_upd_flow same_id_def)

lemma lengths_of_skeleton:
  assumes "skeleton q = skeleton p"
  shows "length (pr_heap q) = length (pr_heap p)" "length (pr_carriers q) = length (pr_carriers p)"
  using skeleton_lengths [OF assms] by auto

section \<open>Bounds of primitive steps\<close>

lemma bounded_scalar [simp]:
  "bounded (p\<lparr>pr_generation := g\<rparr>) = bounded p" "bounded (p\<lparr>pr_paths := ps\<rparr>) = bounded p"
  "bounded (p\<lparr>pr_preferred := n\<rparr>) = bounded p" "bounded (p\<lparr>pr_active := n\<rparr>) = bounded p"
  "bounded (p\<lparr>pr_flows := fs\<rparr>) = bounded p" "bounded (p\<lparr>pr_seen := w\<rparr>) = bounded p" "bounded (p\<lparr>pr_closing := cl\<rparr>) = bounded p"
  "bounded (p\<lparr>pr_keys := ks\<rparr>) = bounded p" "bounded (p\<lparr>pr_lastCloseRetry := t\<rparr>) = bounded p" "bounded (p\<lparr>pr_nextID := i\<rparr>) = bounded p"
  "bounded (p\<lparr>pr_lastWindowRefresh := t\<rparr>) = bounded p" "bounded (p\<lparr>pr_closed := b\<rparr>) = bounded p"
  "bounded (p\<lparr>pr_terminalErr := e\<rparr>) = bounded p" "bounded (p\<lparr>pr_lastReady := t\<rparr>) = bounded p"
  "bounded (p\<lparr>pr_switchedAt := t\<rparr>) = bounded p" "bounded (p\<lparr>pr_replayed := i\<rparr>) = bounded p"
  "bounded (p\<lparr>pr_expired := i\<rparr>) = bounded p" "bounded (p\<lparr>pr_dropped := i\<rparr>) = bounded p"
  "bounded (p\<lparr>pr_switches := i\<rparr>) = bounded p" "bounded (p\<lparr>pr_pause := t\<rparr>) = bounded p"
  "bounded (p\<lparr>pr_segs := ss\<rparr>) = bounded p" "bounded (p\<lparr>pr_carriers := cs\<rparr>) = bounded p" "bounded (p\<lparr>pr_heap := hs\<rparr>) = bounded p"
  "bounded (upd_seg s h p) = bounded p" "bounded (upd_car a h' p) = bounded p" "bounded (upd_flow a h'' p) = bounded p"
  "bounded (add_refs m r p) = bounded p" "bounded (snd (new_seg x p)) = bounded p"
  by (auto simp: bounded_def upd_seg_def upd_car_def upd_flow_def add_refs_def new_seg_def split: option.split)

lemma bounded_less: "n \<le> 0 \<Longrightarrow> bounded p \<Longrightarrow> bounded (add_used d k n p)" "n \<le> 0 \<Longrightarrow> bounded p \<Longrightarrow> bounded (add_control n p)"
  unfolding bounded_def add_used_def add_control_def by (auto simp: add_increasing2 intro: add_mono [of _ _ n 0, simplified])

lemma bounded_more:
  "reserve d k n p = Some q \<Longrightarrow> bounded p \<Longrightarrow> bounded q" "pr_controlBytes p + m \<le> lm_ControlBytes (pr_limits p) \<Longrightarrow> bounded p \<Longrightarrow> bounded (add_control m p)"
  by (auto simp: bounded_def reserve_def add_used_def add_control_def split: if_splits)

lemma bounded_selectPath [simp]: "bounded (selectPath now p) = bounded p"
  by (simp add: selectPath_def Let_def)

lemma bounded_closeCarrier [simp]: "bounded (closeCarrier a p) = bounded p" "bounded (close_lane l p) = bounded p"
  by (auto simp: closeCarrier_def close_lane_def split: option.split)

lemma bounded_release: "0 \<le> sg_cost (seg p s) \<Longrightarrow> bounded p \<Longrightarrow> bounded (release s p)"
  by (simp add: release_def Let_def bounded_less)

section \<open>Composite operations\<close>

lemma peer_okI: "accounts none1 none1 none2 0 p \<Longrightarrow> bounded p \<Longrightarrow> shape p \<Longrightarrow> peer_ok p"
  by (simp add: peer_ok_def)

lemma peer_ok_same:
  assumes "peer_ok p" and "skeleton q = skeleton p" and "accounts none1 none1 none2 0 q" and "bounded q"
  shows "peer_ok q"
  using assms shape_skeleton [OF assms(2)] by (simp add: peer_ok_def)

lemma peer_ok_scalar [simp]:
  "peer_ok (p\<lparr>pr_generation := g\<rparr>) = peer_ok p"
  "peer_ok (p\<lparr>pr_preferred := n\<rparr>) = peer_ok p" "peer_ok (p\<lparr>pr_active := n\<rparr>) = peer_ok p"
  "peer_ok (p\<lparr>pr_keys := ks\<rparr>) = peer_ok p" "peer_ok (p\<lparr>pr_lastCloseRetry := t\<rparr>) = peer_ok p"
  "peer_ok (p\<lparr>pr_lastWindowRefresh := t\<rparr>) = peer_ok p" "peer_ok (p\<lparr>pr_closed := b\<rparr>) = peer_ok p"
  "peer_ok (p\<lparr>pr_terminalErr := e\<rparr>) = peer_ok p" "peer_ok (p\<lparr>pr_lastReady := t\<rparr>) = peer_ok p"
  "peer_ok (p\<lparr>pr_switchedAt := t\<rparr>) = peer_ok p" "peer_ok (p\<lparr>pr_replayed := i\<rparr>) = peer_ok p"
  "peer_ok (p\<lparr>pr_expired := i\<rparr>) = peer_ok p" "peer_ok (p\<lparr>pr_dropped := i\<rparr>) = peer_ok p"
  "peer_ok (p\<lparr>pr_switches := i\<rparr>) = peer_ok p" "peer_ok (p\<lparr>pr_pause := t\<rparr>) = peer_ok p"
  by (simp_all add: peer_ok_def shape_def ids_ok_def known_id_def)

lemma peer_ok_selectPath [simp]: "peer_ok (selectPath now p) = peer_ok p"
  by (simp add: selectPath_def Let_def)

lemma peer_ok_upd_car: "peer_ok p \<Longrightarrow> same_car (car p a) (h (car p a)) \<Longrightarrow> peer_ok (upd_car a h p)"
  by (rule peer_ok_same) (auto simp: peer_ok_def intro: accounts_same_car)

lemma peer_ok_upd_flow: "peer_ok p \<Longrightarrow> same_flow (flow p a) (h (flow p a)) \<Longrightarrow> same_id (flow p a) (h (flow p a)) \<Longrightarrow> peer_ok (upd_flow a h p)"
  by (rule peer_ok_same) (auto simp: peer_ok_def skeleton_upd_flow intro: accounts_same_flow)

lemma peer_ok_sent_mark: "peer_ok p \<Longrightarrow> peer_ok (upd_seg s (\<lambda>x. x\<lparr>sg_sentPath := n, sg_sentAt := t\<rparr>) p)"
  by (rule peer_ok_same) (auto simp: peer_ok_def accounts_sent_mark)

lemma peer_ok_closeCarrier: "peer_ok p \<Longrightarrow> peer_ok (closeCarrier a p)"
  unfolding closeCarrier_def by (rule peer_ok_upd_car) (simp_all add: same_car_def car_queue_def)

lemma peer_ok_close_lane: "peer_ok p \<Longrightarrow> peer_ok (close_lane l p)"
  by (auto simp: close_lane_def peer_ok_closeCarrier split: option.split)

definition car_ptr :: "peer \<Rightarrow> nat option \<Rightarrow> bool" where
  "car_ptr p c \<longleftrightarrow> (\<forall>a. c = Some a \<longrightarrow> a < length (pr_carriers p))"

lemma car_refs_push: "cnt (car_refs (push_channel q c)) s = cnt (car_refs c) s + cnt (q_refs q) s"
  "car_ctl (push_channel q c) = car_ctl c + q_cost q" "set (car_queue (push_channel q c)) = insert q (set (car_queue c))"
  "set (car_refs (push_channel q c)) = set (q_refs q) \<union> set (car_refs c)"
  by (auto simp: push_channel_def car_refs_def car_ctl_def car_queue_def)

lemma peer_ok_pointers: "peer_ok p \<Longrightarrow> pointers_ok (length (pr_segs p)) (pr_carriers p) (pr_heap p)"
  by (simp add: peer_ok_def accounts_def)

lemma car_pointers: "pointers_ok n (pr_carriers p) heap \<Longrightarrow> a < length (pr_carriers p) \<Longrightarrow>
    (\<forall>s \<in> set (car_refs (car p a)). s < n) \<and> (\<forall>q \<in> set (car_queue (car p a)). 0 \<le> q_cost q)"
  unfolding pointers_ok_def using nth_mem by blast

lemma flow_pointers: "pointers_ok n cars (pr_heap p) \<Longrightarrow> a < length (pr_heap p) \<Longrightarrow>
    (\<forall>s \<in> set (flow_lists (flow p a)) \<union> set (flow_refs (flow p a)). s < n) \<and> 0 \<le> reading_cost (flow p a)"
  unfolding pointers_ok_def using nth_mem by blast

lemma accounts_add_refs:
  assumes ok: "accounts X (\<lambda>x. Y x - cnt [s] x) U V p" and s: "s < length (pr_segs p)" and Y: "\<And>x. 0 \<le> Y x"
    and pos: "0 \<le> sg_refs (seg p s)"
  shows "accounts X Y U V (add_refs 1 (Some s) p)"
proof -
  let ?h = "\<lambda>x. x\<lparr>sg_refs := sg_refs x + 1\<rparr>"
  have "seg_ok (owners (pr_heap p) s + X s) (referrers (pr_carriers p) (pr_heap p) s + Y s) (?h (seg p s))"
    using accounts_seg_ok [OF ok s] pos by (simp add: seg_ok_def)
  then have "accounts X Y (\<lambda>d k. U d k + seg_cost d k (seg p s) - seg_cost d k (?h (seg p s))) V (upd_seg s ?h p)"
    by (intro accounts_upd_seg [OF ok s refl]) auto
  then have "accounts X Y U V (upd_seg s ?h p)" by (rule accounts_cong) (simp_all add: seg_cost_def)
  then show ?thesis by (simp add: add_refs_def)
qed

lemma refs_nonneg:
  assumes "peer_ok p" and s: "s < length (pr_segs p)"
  shows "0 \<le> sg_refs (seg p s)"
proof -
  have "accounts none1 none1 none2 0 p" using assms(1) by (simp add: peer_ok_def)
  from accounts_seg_ok [OF this s] show ?thesis by (simp add: seg_ok_def)
qed

lemma peer_ok_enqueue:
  assumes ok: "peer_ok p" and c: "car_ptr p c" and s: "\<forall>a. s = Some a \<longrightarrow> a < length (pr_segs p)"
  shows "peer_ok (snd (enqueue c f s p))"
proof (cases "fst (enqueue c f s p)")
  case False
  then have "snd (enqueue c f s p) = p" by (auto simp: enqueue_def Let_def split: option.splits if_splits)
  then show ?thesis using ok by simp
next
  case True
  define cost where "cost = controlOverhead + (if s = None then int (length (f_data f)) else 0)"
  define q where "q = \<lparr>q_f = f, q_segment = s, q_cost = cost\<rparr>"
  obtain a where a: "c = Some a" "a < length (pr_carriers p)" "pr_controlBytes p + cost \<le> lm_ControlBytes (pr_limits p)"
    and e: "snd (enqueue c f s p) = add_refs 1 s (add_control cost (upd_car a (push_channel q) p))"
    using True c by (auto simp: enqueue_def Let_def cost_def q_def car_ptr_def split: option.splits if_splits)
  have q: "0 \<le> q_cost q" "set (q_refs q) = {x. s = Some x}" by (auto simp: q_def cost_def controlOverhead_def q_refs_def split: option.split)
  have acc: "accounts none1 none1 none2 0 p" using ok by (simp add: peer_ok_def)
  have ptr: "\<forall>s \<in> set (car_refs (push_channel q (car p a))). s < length (pr_segs p)" "\<forall>q \<in> set (car_queue (push_channel q (car p a))). 0 \<le> q_cost q"
    using car_pointers [OF peer_ok_pointers [OF ok] a(2)] q s by (auto simp: car_refs_push)
  from accounts_add_control [OF accounts_upd_car [where h = "push_channel q", OF acc a(2) refl refl ptr], of cost]
  have 1: "accounts none1 (\<lambda>x. 0 - cnt (q_refs q) x) none2 0 (add_control cost (upd_car a (push_channel q) p))" (is "accounts _ _ _ _ ?p")
    by (rule accounts_cong) (simp_all add: car_refs_push q_def)
  have "accounts none1 none1 none2 0 (add_refs 1 s ?p)"
  proof (cases s)
    case None
    then show ?thesis using 1 by (simp add: add_refs_def q_def q_refs_def)
  next
    case (Some x)
    have "pr_segs ?p = pr_segs p" by (simp add: add_control_def upd_car_def)
    moreover have "accounts none1 (\<lambda>y. 0 - cnt [x] y) none2 0 ?p"
      by (rule accounts_cong [OF 1]) (simp_all add: q_def q_refs_def Some)
    ultimately show ?thesis
      using s Some refs_nonneg [OF ok, of x] by (simp only: Some) (rule accounts_add_refs, simp_all)
  qed
  moreover have "bounded (add_refs 1 s ?p)"
    using ok a(3) bounded_more(2) [of "upd_car a (push_channel q) p" cost] by (simp add: peer_ok_def) (simp add: upd_car_def)
  ultimately show ?thesis
    unfolding e by (intro peer_ok_same [OF ok]) simp_all
qed

end
