(* ===== verification/Peer_Inv.thy ===== *)
theory Peer_Inv
  imports Peer_Budget
begin

text \<open>
  Every step of a continuity peer keeps its accounts exact, its budgets within the profile and its
  maps consistent; a peer that was closed and whose writers have ended holds no budget.
\<close>

section \<open>Control frames\<close>

lemma peer_ok_send: "peer_ok p \<Longrightarrow> car_ptr p c \<Longrightarrow> peer_ok (send c f p)"
  unfolding send_def by (rule peer_ok_enqueue) simp_all

lemma shape_of: "peer_ok p \<Longrightarrow> shape p" by (simp add: peer_ok_def)

lemma path_lane_ptr: "shape p \<Longrightarrow> i < CarriersPerPath \<Longrightarrow> car_ptr p (path_lanes p n ! i)"
proof (cases "map_of (pr_paths p) n")
  case None
  assume "i < CarriersPerPath"
  then show ?thesis using None by (simp add: path_lanes_def no_carriers_def car_ptr_def)
next
  case (Some cs)
  assume "shape p" "i < CarriersPerPath"
  then show ?thesis
    using Some map_of_SomeD [OF Some] nth_mem [of i cs] by (fastforce simp: path_lanes_def car_ptr_def shape_def paths_ok_def)
qed

lemma path_entry_ptr: "shape p \<Longrightarrow> map_of (pr_paths p) n = Some cs \<Longrightarrow> i < CarriersPerPath \<Longrightarrow> car_ptr p (cs ! i)"
  using path_lane_ptr [of p i n] by (simp add: path_lanes_def)

lemma car_ptr_Some [simp]: "car_ptr p (Some a) \<longleftrightarrow> a < length (pr_carriers p)" "car_ptr p None"
  by (simp_all add: car_ptr_def)

lemma car_ptr_skeleton: "skeleton q = skeleton p \<Longrightarrow> car_ptr q c = car_ptr p c"
  using lengths_of_skeleton(2) [of q p] by (simp add: car_ptr_def)

lemma controlCarrier_cases:
  "controlCarrier p c \<in> {None, c, path_lanes p (pr_active p) ! 5} \<or> (\<exists>n cs. map_of (pr_paths p) n = Some cs \<and> controlCarrier p c = cs ! 5)"
  unfolding controlCarrier_def Let_def by (cases c) (auto split: option.split)

lemma controlCarrier_ptr: "shape p \<Longrightarrow> car_ptr p c \<Longrightarrow> car_ptr p (controlCarrier p c)"
  using controlCarrier_cases [of p c] path_lane_ptr [of p 5 "pr_active p"] path_entry_ptr [of p _ _ 5]
  by (elim disjE) (auto simp: CarriersPerPath_def)

lemma peer_ok_acknowledge:
  assumes "peer_ok p" and "car_ptr p c"
  shows "peer_ok (acknowledge c a p)"
  unfolding acknowledge_def Let_def case_prod_beta
  by (intro peer_ok_upd_flow peer_ok_enqueue controlCarrier_ptr shape_of assms)
    (simp_all add: same_flow_def same_id_def flow_lists_def)

lemma peer_ok_progress: "peer_ok p \<Longrightarrow> peer_ok (progress a now p)"
  by (auto simp: progress_def Let_def same_car_def car_queue_def intro!: peer_ok_upd_car)

lemma peer_ok_dataProgress: "peer_ok p \<Longrightarrow> peer_ok (dataProgress c a now p)"
  by (auto simp: dataProgress_def peer_ok_progress split: option.split)

lemma skeleton_progress [simp]: "skeleton (progress a now p) = skeleton p" "skeleton (dataProgress c b now p) = skeleton p"
  by (auto simp: progress_def dataProgress_def Let_def split: option.split)

section \<open>Sweeping the send queue\<close>

text \<open>
  A sweep over \<open>ss\<close> owns the segments of \<open>ss\<close>; it discards those with the property and hands the
  others back.
\<close>

lemma same_bytes: "same_flow f (f\<lparr>fl_sendBytes := n\<rparr>)" "same_id f (f\<lparr>fl_sendBytes := n\<rparr>)"
  by (simp_all add: same_flow_def same_id_def flow_lists_def)

lemma bounded_discard:
  assumes "accounts X Y U V p" and "s < length (pr_segs p)" and "bounded p"
  shows "bounded (discard s p)"
proof -
  have "0 \<le> sg_cost (seg p s)" using accounts_seg_ok [OF assms(1,2)] by (simp add: seg_ok_def)
  then show ?thesis
    unfolding discard_def using assms(2,3) by (intro bounded_release) (simp_all add: upd_seg_def)
qed

lemma upd_flow_length [simp]: "length (pr_segs (upd_flow a h p)) = length (pr_segs p)" "length (pr_heap (upd_flow a h p)) = length (pr_heap p)"
  by (simp_all add: upd_flow_def)

lemma upd_flow_flow: "a < length (pr_heap p) \<Longrightarrow> flow (upd_flow a h p) a = h (flow p a)"
  by (simp add: upd_flow_def)

lemma heap_release [simp]: "pr_heap (release s p) = pr_heap p" "pr_heap (discard s p) = pr_heap p" "pr_heap (fold discard ss p) = pr_heap p"
proof -
  show r: "pr_heap (release s p) = pr_heap p" for s p by (simp add: release_def upd_seg_def add_used_def Let_def)
  show d: "pr_heap (discard s p) = pr_heap p" for s p by (simp add: discard_def r) (simp add: upd_seg_def)
  show "pr_heap (fold discard ss p) = pr_heap p" by (induction ss arbitrary: p) (simp_all add: d)
qed

lemma sweep_accounts:
  assumes "sweep P a ss p = (keep, q)" and "accounts (\<lambda>x. X x + cnt ss x) none1 U V p" and "\<forall>s \<in> set ss. s < length (pr_segs p)"
    and "bounded p" and "a < length (pr_heap p)" and "\<And>x. 0 \<le> owners (pr_heap p) x + X x"
  shows "accounts (\<lambda>x. X x + cnt keep x) none1 U V q \<and> set keep \<subseteq> set ss \<and> bounded q \<and> length (pr_segs q) = length (pr_segs p) \<and>
    skeleton q = skeleton p \<and> (\<exists>n. flow q a = (flow p a)\<lparr>fl_sendBytes := n\<rparr>)"
  using assms
proof (induction ss arbitrary: p keep X)
  case Nil
  then show ?case by (auto intro!: exI [of _ "fl_sendBytes (flow p a)"])
next
  case (Cons s ss)
  show ?case
  proof (cases "P (seg p s)")
    case True
    define p1 where "p1 = upd_flow a (\<lambda>f. f\<lparr>fl_sendBytes := fl_sendBytes f - sg_cost (seg p s)\<rparr>) p"
    have "accounts (\<lambda>x. X x + cnt (s # ss) x) none1 U V p1"
      unfolding p1_def by (rule accounts_same_flow [OF Cons.prems(2)]) (simp add: same_bytes)
    then have acc: "accounts (\<lambda>x. (X x + cnt ss x) + (if x = s then 1 else 0)) none1 U V p1"
      by (rule accounts_cong) auto
    have p1: "s < length (pr_segs p1)" "bounded p1" "skeleton p1 = skeleton p" "flow p1 a = (flow p a)\<lparr>fl_sendBytes := fl_sendBytes (flow p a) - sg_cost (seg p s)\<rparr>"
      using Cons.prems(3-5) by (simp_all add: p1_def skeleton_upd_flow same_bytes upd_flow_flow)
    have owners: "owners (pr_heap p1) x = owners (pr_heap p) x" for x
      unfolding owners_def p1_def upd_flow_def by (simp add: tot_update_same flow_held_def flow_lists_def)
    have "0 \<le> owners (pr_heap p1) s + (X s + cnt ss s)" using Cons.prems(6) [of s] cnt_nonneg [of ss s] unfolding owners by linarith
    then have "accounts (\<lambda>x. X x + cnt ss x) none1 U V (discard s p1)" using accounts_discard [OF acc p1(1)] by simp
    moreover have "bounded (discard s p1)" by (rule bounded_discard [OF acc p1(1,2)])
    moreover have "sweep P a ss (discard s p1) = (keep, q)" using Cons.prems(1) True by (simp add: p1_def)
    ultimately show ?thesis
      using Cons.IH [of "discard s p1" keep X] Cons.prems(3,5,6) p1 owners by (auto simp: p1_def)
  next
    case False
    obtain keep' where k: "sweep P a ss p = (keep', q)" "keep = s # keep'"
      using Cons.prems(1) False by (auto split: prod.splits)
    have "accounts (\<lambda>x. (X x + cnt [s] x) + cnt ss x) none1 U V p"
      by (rule accounts_cong [OF Cons.prems(2)]) simp_all
    moreover have "0 \<le> owners (pr_heap p) x + (X x + cnt [s] x)" for x using Cons.prems(6) [of x] by simp
    ultimately have acc: "accounts (\<lambda>x. (X x + cnt [s] x) + cnt keep' x) none1 U V q" and rest: "set keep' \<subseteq> set ss" "bounded q" "length (pr_segs q) = length (pr_segs p)"
      "skeleton q = skeleton p" "\<exists>n. flow q a = (flow p a)\<lparr>fl_sendBytes := n\<rparr>"
      using Cons.IH [OF k(1), of "\<lambda>x. X x + cnt [s] x"] Cons.prems(3-5) by auto
    from acc have "accounts (\<lambda>x. X x + cnt keep x) none1 U V q" by (rule accounts_cong) (simp_all add: k(2))
    then show ?thesis using rest k(2) by auto
  qed
qed

lemma peer_ok_sweep_pending:
  assumes ok: "peer_ok p" and a: "a < length (pr_heap p)" and opened: "\<not> fl_closed (flow p a)"
  shows "peer_ok (sweep_pending P a p)" and "skeleton (sweep_pending P a p) = skeleton p"
proof -
  let ?f = "flow p a"
  obtain keep q where s: "sweep P a (fl_pending ?f) p = (keep, q)" by force
  have ptr: "\<forall>s \<in> set (flow_lists ?f) \<union> set (flow_refs ?f). s < length (pr_segs p)" "0 \<le> reading_cost ?f"
    using flow_pointers [OF peer_ok_pointers [OF ok] a] by auto
  have "accounts none1 none1 none2 0 p" "bounded p" using ok by (simp_all add: peer_ok_def)
  moreover have "0 \<le> owners (pr_heap p) x - cnt (fl_pending ?f) x" for x
  proof -
    have "cnt (fl_pending ?f) x \<le> cnt (flow_held ?f) x" using opened by (simp add: flow_held_def flow_lists_def)
    also have "\<dots> \<le> owners (pr_heap p) x"
      using tot_update [OF a, of "\<lambda>f. cnt (flow_held f) x" "?f\<lparr>fl_closed := True\<rparr>"] tot_cnt_nonneg [of flow_held x "(pr_heap p)[a := ?f\<lparr>fl_closed := True\<rparr>]"]
      by (simp add: owners_def flow_held_def)
    finally show ?thesis by simp
  qed
  ultimately have q: "accounts (\<lambda>x. - cnt (fl_pending ?f) x + cnt keep x) none1 none2 0 q" "set keep \<subseteq> set (fl_pending ?f)" "bounded q"
      "length (pr_segs q) = length (pr_segs p)" "skeleton q = skeleton p" "\<exists>n. flow q a = ?f\<lparr>fl_sendBytes := n\<rparr>"
    using sweep_accounts [OF s, of "\<lambda>x. - cnt (fl_pending ?f) x" none2 0] a ptr by (auto simp: flow_lists_def)
  obtain n where n: "flow q a = ?f\<lparr>fl_sendBytes := n\<rparr>" using q(6) by blast
  have aq: "a < length (pr_heap q)" using a lengths_of_skeleton(1) [OF q(5)] by simp
  let ?h = "\<lambda>f. f\<lparr>fl_pending := keep\<rparr>"
  have e: "sweep_pending P a p = upd_flow a ?h q" by (simp add: sweep_pending_def s)
  have "\<forall>s \<in> set (flow_lists (?h (flow q a))) \<union> set (flow_refs (?h (flow q a))). s < length (pr_segs q)" "0 \<le> reading_cost (?h (flow q a))"
    using ptr q(2,4) by (auto simp: n flow_lists_def flow_refs_def reading_cost_def)
  from accounts_upd_flow [where h = ?h, OF q(1) aq refl refl this]
  have "accounts none1 none1 none2 0 (upd_flow a ?h q)"
    by (rule accounts_cong) (simp_all add: n opened flow_held_def flow_lists_def flow_refs_def flow_cost_def reading_cost_def flow_ctl_def)
  moreover show sk: "skeleton (sweep_pending P a p) = skeleton p" using q(5) by (simp add: e skeleton_upd_flow same_id_def)
  ultimately show "peer_ok (sweep_pending P a p)" using ok q(3) by (intro peer_ok_same [OF ok sk]) (simp_all add: e)
qed

section \<open>Opening and closing flows\<close>

lemma tot_flow_ctl_frame: "pr_closing (fold discard ss p) = pr_closing p" "pr_flows (fold discard ss p) = pr_flows p" "pr_limits (fold discard ss p) = pr_limits p"
  "pr_keys (fold discard ss p) = pr_keys p"
proof -
  have "pr_closing (discard s p) = pr_closing p \<and> pr_flows (discard s p) = pr_flows p \<and> pr_limits (discard s p) = pr_limits p \<and> pr_keys (discard s p) = pr_keys p" for s p
    by (simp add: discard_def release_def upd_seg_def add_used_def Let_def)
  then show "pr_closing (fold discard ss p) = pr_closing p" "pr_flows (fold discard ss p) = pr_flows p" "pr_limits (fold discard ss p) = pr_limits p"
    "pr_keys (fold discard ss p) = pr_keys p"
    by (induction ss arbitrary: p) simp_all
qed

lemma accounts_bounded_discards:
  assumes "accounts (\<lambda>x. X x + cnt ss x) Y U V p" and "\<forall>s \<in> set ss. s < length (pr_segs p)" and "\<And>s. 0 \<le> X s" and "\<And>s. 0 \<le> Y s" and "bounded p"
  shows "bounded (fold discard ss p)"
  using assms
proof (induction ss arbitrary: p)
  case (Cons s ss)
  have acc: "accounts (\<lambda>x. (X x + cnt ss x) + (if x = s then 1 else 0)) Y U V p"
    by (rule accounts_cong [OF Cons.prems(1)]) auto
  then have "accounts (\<lambda>x. X x + cnt ss x) Y U V (discard s p)"
    using Cons.prems owners_nonneg(1) [of "pr_heap p" s] by (intro accounts_discard) auto
  moreover have "bounded (discard s p)" using bounded_discard [OF acc] Cons.prems by simp
  ultimately show ?case using Cons by simp
qed simp

lemma accounts_closing:
  "accounts X Y U V p \<Longrightarrow> accounts X Y U (V + 128 * int (length (pr_closing p)) - 128 * int (length cl)) (p\<lparr>pr_closing := cl\<rparr>)"
  by (simp add: accounts_def control_total_def)

lemma length_update_fresh: "k \<notin> fst ` set m \<Longrightarrow> length (AList.update k v m) = Suc (length m)"
  by (induction m) auto

text \<open>A flow is closed in its accounts.\<close>

lemma closeFlow_accounts:
  assumes ok: "peer_ok p" and a: "a < length (pr_heap p)" and o: "\<not> fl_closed (flow p a)"
    and fresh: "notify \<Longrightarrow> fl_id (flow p a) \<notin> fst ` set (pr_closing p)"
  shows "accounts none1 none1 none2 0 (closeFlow a err notify now p) \<and> bounded (closeFlow a err notify now p)"
proof -
  let ?f = "flow p a" and ?h = "\<lambda>f. f\<lparr>fl_closed := True, fl_err := err\<rparr>"
  let ?p1 = "upd_flow a ?h p"
  let ?ss = "fl_pending ?f @ map snd (fl_recv ?f) @ fl_ready ?f"
  have acc: "accounts none1 none1 none2 0 p" "bounded p" using ok by (simp_all add: peer_ok_def)
  have ptr: "\<forall>s \<in> set (flow_lists ?f) \<union> set (flow_refs ?f). s < length (pr_segs p)" "0 \<le> reading_cost ?f"
    using flow_pointers [OF peer_ok_pointers [OF ok] a] by auto
  have "\<forall>s \<in> set (flow_lists (?h ?f)) \<union> set (flow_refs (?h ?f)). s < length (pr_segs p)" "0 \<le> reading_cost (?h ?f)"
    using ptr by (simp_all add: flow_lists_def flow_refs_def reading_cost_def)
  from accounts_upd_flow [where h = ?h, OF acc(1) a refl refl this]
  have 1: "accounts (\<lambda>x. 0 + cnt ?ss x) none1 (\<lambda>d k. if d = False \<and> k = fl_udp ?f then flowOverhead else 0) 128 ?p1"
    by (rule accounts_cong) (auto simp: o flow_held_def flow_lists_def flow_refs_def flow_cost_def reading_cost_def flow_ctl_def)
  have ss: "\<forall>s \<in> set ?ss. s < length (pr_segs ?p1)" using ptr by (auto simp: flow_lists_def)
  let ?p2 = "fold discard ?ss ?p1"
  have 2: "accounts none1 none1 (\<lambda>d k. if d = False \<and> k = fl_udp ?f then flowOverhead else 0) 128 ?p2" "bounded ?p2"
    using accounts_discards [OF 1 ss] accounts_bounded_discards [OF 1 ss] acc(2) by simp_all
  define p3 where "p3 = add_used False (fl_udp ?f) (- flowOverhead) ?p2"
  define p4 where "p4 = p3\<lparr>pr_flows := AList.delete (fl_id ?f) (pr_flows p3), pr_keys := filter (\<lambda>(_, i). i \<noteq> fl_id ?f) (pr_keys p3)\<rparr>"
  from accounts_add_used [OF 2(1), of False "fl_udp ?f" "- flowOverhead"]
  have "accounts none1 none1 none2 128 p3" unfolding p3_def by (rule accounts_cong) auto
  moreover have "bounded p3" using bounded_less(1) [OF _ 2(2), of "- flowOverhead"] by (simp add: p3_def flowOverhead_def)
  ultimately have 4: "accounts none1 none1 none2 128 p4" "bounded p4" by (simp_all add: p4_def)
  have cl: "pr_closing p4 = pr_closing p" by (simp add: p4_def p3_def add_used_def tot_flow_ctl_frame upd_flow_def)
  show ?thesis
  proof (cases notify)
    case True
    define m where "m = AList.update (fl_id ?f) (now + lm_DisconnectedGrace (pr_limits p4)) (pr_closing p4)"
    have e: "closeFlow a err notify now p = p4\<lparr>pr_closing := m\<rparr>"
      using o True by (simp add: closeFlow_def Let_def p3_def p4_def m_def)
    have "length m = Suc (length (pr_closing p4))"
      using fresh [OF True] unfolding m_def by (simp only: length_update_fresh cl not_False_eq_True)
    then show ?thesis unfolding e using accounts_closing [OF 4(1), of m] 4(2) by simp
  next
    case False
    have e: "closeFlow a err notify now p = add_control (- 128) p4"
      using o False by (simp add: closeFlow_def Let_def p3_def p4_def)
    show ?thesis
      unfolding e using accounts_add_control [OF 4(1), of "- 128"] bounded_less(2) [OF _ 4(2), of "- 128"] by simp
  qed
qed

lemma discards_frame: "pr_seen (fold discard ss p) = pr_seen p" "pr_nextID (fold discard ss p) = pr_nextID p" "pr_server (fold discard ss p) = pr_server p"
  "pr_paths (fold discard ss p) = pr_paths p" "pr_carriers (fold discard ss p) = pr_carriers p" "pr_active (fold discard ss p) = pr_active p"
  "pr_closed (fold discard ss p) = pr_closed p"
proof -
  have "pr_seen (discard s p) = pr_seen p \<and> pr_nextID (discard s p) = pr_nextID p \<and> pr_server (discard s p) = pr_server p \<and>
      pr_paths (discard s p) = pr_paths p \<and> pr_carriers (discard s p) = pr_carriers p \<and> pr_active (discard s p) = pr_active p \<and> pr_closed (discard s p) = pr_closed p" for s p
    by (simp add: discard_def release_def upd_seg_def add_used_def Let_def)
  then show "pr_seen (fold discard ss p) = pr_seen p" "pr_nextID (fold discard ss p) = pr_nextID p" "pr_server (fold discard ss p) = pr_server p"
    "pr_paths (fold discard ss p) = pr_paths p" "pr_carriers (fold discard ss p) = pr_carriers p" "pr_active (fold discard ss p) = pr_active p"
    "pr_closed (fold discard ss p) = pr_closed p"
    by (induction ss arbitrary: p) simp_all
qed

lemma closeFlow_fields:
  assumes "\<not> fl_closed (flow p a)"
  shows "pr_heap (closeFlow a err notify now p) = (pr_heap p)[a := (flow p a)\<lparr>fl_closed := True, fl_err := err\<rparr>]"
    and "pr_flows (closeFlow a err notify now p) = AList.delete (fl_id (flow p a)) (pr_flows p)"
    and "pr_closing (closeFlow a err notify now p) =
      (if notify then AList.update (fl_id (flow p a)) (now + lm_DisconnectedGrace (pr_limits p)) (pr_closing p) else pr_closing p)"
    and "pr_seen (closeFlow a err notify now p) = pr_seen p" "pr_nextID (closeFlow a err notify now p) = pr_nextID p"
      "pr_server (closeFlow a err notify now p) = pr_server p" "pr_paths (closeFlow a err notify now p) = pr_paths p"
      "pr_carriers (closeFlow a err notify now p) = pr_carriers p"
  using assms by (simp_all add: closeFlow_def Let_def add_used_def add_control_def discards_frame tot_flow_ctl_frame upd_flow_def)

lemma flows_ok_close:
  assumes ok: "flows_ok flows heap" and a: "a < length heap" and o: "\<not> fl_closed (heap ! a)" and f: "fl_id f = fl_id (heap ! a)" "fl_closed f"
  shows "flows_ok (AList.delete (fl_id (heap ! a)) flows) (heap[a := f])"
proof -
  have "gomap_ok (AList.delete (fl_id (heap ! a)) flows)" using ok by (simp add: flows_ok_def)
  moreover have "b < length heap \<and> fl_id (heap[a := f] ! b) = i \<and> \<not> fl_closed (heap[a := f] ! b)"
    if "(i, b) \<in> set (AList.delete (fl_id (heap ! a)) flows)" for i b
  proof -
    have "(i, b) \<in> set flows" "i \<noteq> fl_id (heap ! a)" using that by (auto simp: AList.delete_eq)
    then show ?thesis using ok by (cases "b = a") (auto simp: flows_ok_def)
  qed
  moreover have "(fl_id (heap[a := f] ! b), b) \<in> set (AList.delete (fl_id (heap ! a)) flows)"
    if b: "b < length heap" "\<not> fl_closed (heap[a := f] ! b)" for b
  proof -
    have "b \<noteq> a" using b a f by auto
    then have l: "(fl_id (heap ! b), b) \<in> set flows" "heap[a := f] ! b = heap ! b" using ok b by (auto simp: flows_ok_def)
    have "fl_id (heap ! b) \<noteq> fl_id (heap ! a)"
    proof
      assume "fl_id (heap ! b) = fl_id (heap ! a)"
      moreover have "(fl_id (heap ! a), a) \<in> set flows" using ok a o by (simp add: flows_ok_def)
      ultimately have "map_of flows (fl_id (heap ! a)) = Some a" "map_of flows (fl_id (heap ! a)) = Some b"
        using l(1) ok by (auto simp: flows_ok_def gomap_ok_set)
      then show False using \<open>b \<noteq> a\<close> by simp
    qed
    then show ?thesis using l by (auto simp: AList.delete_eq)
  qed
  ultimately show ?thesis unfolding flows_ok_def by auto
qed

lemma keys_delete: "fst ` set (AList.delete k m) = fst ` set m - {k}"
  by (auto simp: AList.delete_eq)

lemma keys_update: "fst ` set (AList.update k v m) = insert k (fst ` set m)"
  using dom_update [of k v m] by (simp add: dom_map_of_conv_image_fst)

lemma flow_listed: "shape p \<Longrightarrow> a < length (pr_heap p) \<Longrightarrow> \<not> fl_closed (flow p a) \<Longrightarrow>
    fl_id (flow p a) \<in> fst ` set (pr_flows p) \<and> fl_id (flow p a) \<notin> fst ` set (pr_closing p)"
  unfolding shape_def flows_ok_def ids_ok_def by force

lemma ids_ok_fewer:
  assumes "ids_ok p" and "gomap_ok (pr_closing q)" and "fst ` set (pr_flows q) \<inter> fst ` set (pr_closing q) = {}"
    and "fst ` set (pr_flows q) \<union> fst ` set (pr_closing q) \<subseteq> fst ` set (pr_flows p) \<union> fst ` set (pr_closing p)"
    and "pr_seen q = pr_seen p" "pr_nextID q = pr_nextID p" "pr_server q = pr_server p"
  shows "ids_ok q"
proof -
  have k: "known_id q = known_id p" using assms(6,7) by (intro ext) (simp add: known_id_def)
  obtain S where "window_rel (pr_seen p) S" "\<forall>i \<in> fst ` set (pr_flows p) \<union> fst ` set (pr_closing p). known_id p S i"
    using assms(1) unfolding ids_ok_def by blast
  then have "window_rel (pr_seen q) S \<and> (\<forall>i \<in> fst ` set (pr_flows q) \<union> fst ` set (pr_closing q). known_id q S i)"
    using assms(4) unfolding assms(5) k by blast
  then show ?thesis using assms(2,3) unfolding ids_ok_def by blast
qed

lemma closeFlow_shape:
  assumes sh: "shape p" and a: "a < length (pr_heap p)" and o: "\<not> fl_closed (flow p a)"
  shows "shape (closeFlow a err notify now p)"
proof -
  let ?q = "closeFlow a err notify now p"
  note f = closeFlow_fields [OF o, of err notify now]
  have "flows_ok (pr_flows ?q) (pr_heap ?q)"
    unfolding f using sh o by (intro flows_ok_close a) (simp_all add: shape_def)
  moreover have "ids_ok ?q"
  proof (rule ids_ok_fewer)
    show ids: "ids_ok p" using sh by (simp add: shape_def)
    show "gomap_ok (pr_closing ?q)" using ids by (simp add: f ids_ok_def)
    show "fst ` set (pr_flows ?q) \<inter> fst ` set (pr_closing ?q) = {}" using ids by (auto simp: f keys_delete keys_update ids_ok_def)
    show "fst ` set (pr_flows ?q) \<union> fst ` set (pr_closing ?q) \<subseteq> fst ` set (pr_flows p) \<union> fst ` set (pr_closing p)"
      using flow_listed [OF sh a o] by (auto simp: f keys_delete keys_update)
  qed (simp_all add: f)
  ultimately show ?thesis using sh by (simp add: shape_def f)
qed

lemma peer_ok_closeFlow:
  assumes "peer_ok p" and "a < length (pr_heap p)"
  shows "peer_ok (closeFlow a err notify now p)"
proof (cases "fl_closed (flow p a)")
  case True
  then show ?thesis using assms by (simp add: closeFlow_def Let_def)
next
  case False
  then show ?thesis
    using closeFlow_accounts [OF assms False] closeFlow_shape [OF shape_of [OF assms(1)] assms(2) False] flow_listed [OF shape_of [OF assms(1)] assms(2) False]
    by (intro peer_okI) auto
qed

text \<open>What a step may do to the lists: carriers and flows are only added, and only one flow is closed.\<close>

lemma closeFlow_lengths [simp]: "length (pr_heap (closeFlow a err notify now p)) = length (pr_heap p)"
  "pr_carriers (closeFlow a err notify now p) = pr_carriers p"
proof -
  have "length (pr_heap (closeFlow a err notify now p)) = length (pr_heap p) \<and> pr_carriers (closeFlow a err notify now p) = pr_carriers p"
  proof (cases "fl_closed (flow p a)")
    case True
    then show ?thesis by (simp add: closeFlow_def Let_def)
  qed (simp add: closeFlow_fields)
  then show "length (pr_heap (closeFlow a err notify now p)) = length (pr_heap p)" "pr_carriers (closeFlow a err notify now p) = pr_carriers p" by auto
qed

text \<open>Opening.\<close>

lemma newFlow_Inr:
  assumes "newFlow i dest udp now p = Inr (a, q)"
  shows "a = length (pr_heap p)" and "pr_controlBytes p + 128 \<le> lm_ControlBytes (pr_limits p)"
    and "\<exists>p1. reserve False udp flowOverhead p = Some p1 \<and>
      q = (add_control 128 p1)\<lparr>pr_heap := pr_heap p @ [new_flow i dest udp now], pr_flows := AList.update i a (pr_flows p)\<rparr>"
  using assms by (auto simp: newFlow_def Let_def reserve_def add_used_def add_control_def split: if_splits option.splits)

lemma accounts_new_flow:
  assumes "accounts X Y U V p" and "\<not> fl_closed f" "flow_lists f = []" "flow_refs f = []" "fl_reading f = None"
  shows "accounts X Y (\<lambda>d k. U d k - (if d = False \<and> k = fl_udp f then flowOverhead else 0)) (V - 128) (p\<lparr>pr_heap := pr_heap p @ [f]\<rparr>)"
  using assms by (auto simp: accounts_defs pointers_ok_def flow_held_def flow_ctl_def flow_cost_def reading_cost_def)

lemma new_flow_simps [simp]: "\<not> fl_closed (new_flow i dest udp now)" "flow_lists (new_flow i dest udp now) = []"
  "flow_refs (new_flow i dest udp now) = []" "fl_reading (new_flow i dest udp now) = None" "fl_udp (new_flow i dest udp now) = udp"
  "fl_id (new_flow i dest udp now) = i"
  by (simp_all add: new_flow_def flow_lists_def flow_refs_def)

lemma flows_ok_new:
  assumes "flows_ok flows heap" and "i \<notin> fst ` set flows" and "fl_id f = i" "\<not> fl_closed f"
  shows "flows_ok (AList.update i (length heap) flows) (heap @ [f])"
proof -
  have "set (AList.update i (length heap) flows) = insert (i, length heap) (set flows)"
    using assms(1,2) by (subst set_update) (auto simp: flows_ok_def image_iff)
  then show ?thesis
    using assms unfolding flows_ok_def by (auto simp: nth_append less_Suc_eq)
qed

lemma newFlow_accounts:
  assumes ok: "accounts none1 none1 none2 0 p" "bounded p" and new: "newFlow i dest udp now p = Inr (a, q)"
  shows "accounts none1 none1 none2 0 q \<and> bounded q"
proof -
  obtain p1 where p1: "reserve False udp flowOverhead p = Some p1"
    and q: "q = (add_control 128 p1)\<lparr>pr_heap := pr_heap p @ [new_flow i dest udp now], pr_flows := AList.update i a (pr_flows p)\<rparr>"
    using newFlow_Inr(3) [OF new] by blast
  have b: "bounded p1" by (rule bounded_more(1) [OF p1 ok(2)])
  have p1': "p1 = add_used False udp flowOverhead p" using p1 by (simp add: reserve_def split: if_splits)
  have "bounded (add_control 128 p1)"
    using newFlow_Inr(2) [OF new] b by (intro bounded_more(2)) (simp_all add: p1' add_used_def)
  moreover have "pr_heap (add_control 128 p1) = pr_heap p" by (simp add: p1' add_used_def add_control_def)
  moreover from accounts_new_flow [OF accounts_add_control [OF accounts_add_used [OF ok(1), of False udp flowOverhead], of 128], of "new_flow i dest udp now"]
  have "accounts none1 none1 none2 0 ((add_control 128 p1)\<lparr>pr_heap := pr_heap (add_control 128 p1) @ [new_flow i dest udp now]\<rparr>)"
    unfolding p1' by (rule accounts_cong) auto
  ultimately show ?thesis by (simp add: q)
qed

end
