(* ===== verification/Peer_Steps.thy ===== *)
theory Peer_Steps
  imports Peer_Inv
begin

text \<open>
  The steps of a continuity peer one by one: each keeps the invariant \<open>peer_ok\<close> of the accounts,
  the bounds and the maps.
\<close>

section \<open>New flows\<close>

lemma newFlow_shape:
  assumes sh: "shape p0" and p: "pr_flows p = pr_flows p0" "pr_heap p = pr_heap p0" "pr_closing p = pr_closing p0" "pr_paths p = pr_paths p0"
      "pr_carriers p = pr_carriers p0" "pr_server p = pr_server p0" "pr_seen p = pr_seen p0"
    and new: "newFlow i dest udp now p = Inr (a, q0)" and q: "q = q0\<lparr>pr_seen := w\<rparr>" and w: "window_rel w S"
    and fresh: "i \<notin> fst ` set (pr_flows p) \<union> fst ` set (pr_closing p)"
    and known: "\<forall>j \<in> insert i (fst ` set (pr_flows p) \<union> fst ` set (pr_closing p)). j \<noteq> 0 \<and> (if pr_server p then j \<in> S else j \<le> pr_nextID p)"
  shows "shape q"
proof -
  have h: "a = length (pr_heap p)" "pr_heap q = pr_heap p @ [new_flow i dest udp now]" "pr_flows q = AList.update i a (pr_flows p)"
      "pr_closing q = pr_closing p" "pr_paths q = pr_paths p" "pr_carriers q = pr_carriers p" "pr_server q = pr_server p" "pr_seen q = w" "pr_nextID q = pr_nextID p"
    using newFlow_Inr [OF new] by (auto simp: q add_control_def reserve_def add_used_def split: if_splits)
  have "flows_ok (pr_flows q) (pr_heap q)"
    unfolding h using sh fresh by (intro flows_ok_new) (auto simp: shape_def p)
  moreover have "ids_ok q"
  proof -
    have keys: "fst ` set (pr_flows q) \<union> fst ` set (pr_closing q) = insert i (fst ` set (pr_flows p) \<union> fst ` set (pr_closing p))"
      by (simp add: h keys_update)
    have "\<forall>j \<in> fst ` set (pr_flows q) \<union> fst ` set (pr_closing q). known_id q S j"
      using known unfolding keys by (simp add: known_id_def h)
    moreover have "gomap_ok (pr_closing q)" "fst ` set (pr_flows q) \<inter> fst ` set (pr_closing q) = {}"
      using sh fresh by (auto simp: shape_def ids_ok_def h keys_update p)
    ultimately show ?thesis using w unfolding ids_ok_def h(8) by blast
  qed
  ultimately show ?thesis using sh by (simp add: shape_def h p)
qed

section \<open>Pointers\<close>

text \<open>Which pointers exist and which flows are open is read off the skeleton, which most operations keep.\<close>

definition at_car :: "peer \<Rightarrow> nat \<Rightarrow> bool" where
  "at_car p a \<longleftrightarrow> (case skeleton p of (_, _, _, _, _, _, _, n) \<Rightarrow> a < n)"

definition at_fl :: "peer \<Rightarrow> nat \<Rightarrow> bool" where
  "at_fl p a \<longleftrightarrow> a < length (fst (skeleton p))"

definition open_fl :: "peer \<Rightarrow> nat \<Rightarrow> bool" where
  "open_fl p a \<longleftrightarrow> at_fl p a \<and> \<not> snd (fst (skeleton p) ! a)"

lemma at_car: "at_car p a \<longleftrightarrow> a < length (pr_carriers p)"
  by (simp add: at_car_def skeleton_def)

lemma at_fl: "at_fl p a \<longleftrightarrow> a < length (pr_heap p)"
  by (simp add: at_fl_def skeleton_def)

lemma open_fl: "open_fl p a \<longleftrightarrow> a < length (pr_heap p) \<and> \<not> fl_closed (flow p a)"
  by (auto simp: open_fl_def at_fl_def skeleton_def)

lemma ptr_cong: "skeleton q = skeleton p \<Longrightarrow> at_car q a = at_car p a" "skeleton q = skeleton p \<Longrightarrow> at_fl q b = at_fl p b"
  "skeleton q = skeleton p \<Longrightarrow> open_fl q b = open_fl p b" "skeleton q = skeleton p \<Longrightarrow> car_ptr q c = car_ptr p c"
  using car_ptr_skeleton [of q p c] by (simp_all add: at_car_def at_fl_def open_fl_def)

lemma open_at: "open_fl p a \<Longrightarrow> at_fl p a"
  by (simp add: open_fl_def)

lemmas same_defs = same_flow_def same_id_def flow_lists_def same_car_def car_queue_def

lemma ok_flow: "peer_ok p \<Longrightarrow> same_flow (flow p a) (h (flow p a)) \<and> same_id (flow p a) (h (flow p a)) \<Longrightarrow>
    peer_ok (upd_flow a h p) \<and> skeleton (upd_flow a h p) = skeleton p"
  by (simp add: peer_ok_upd_flow skeleton_upd_flow)

text \<open>A lane of a path, taken by number.\<close>

lemma ok_lane: "peer_ok p \<Longrightarrow> i < 6 \<Longrightarrow> car_ptr p (path_lanes p n ! i)"
  using path_lane_ptr [of p i n] by (simp add: peer_ok_def CarriersPerPath_def)

lemma laneFor_less: "laneFor f < 6"
proof -
  have "unat (fl_id f mod 4) < 4" by (simp add: unat_mod)
  then show ?thesis by (simp add: laneFor_def)
qed

lemma ok_control: "peer_ok p \<Longrightarrow> car_ptr p c \<Longrightarrow> car_ptr p (controlCarrier p c)"
  by (simp add: controlCarrier_ptr shape_of)

section \<open>The timer\<close>

lemma ok_tick_ping:
  assumes "peer_ok p" and "at_car p a"
  shows "peer_ok (tick_ping now a p) \<and> skeleton (tick_ping now a p) = skeleton p"
proof -
  define p1 where "p1 = upd_car a (\<lambda>c. c\<lparr>c_pingID := c_pingID c + 1\<rparr>) p"
  define r where "r = enqueue (Some a) (control_frame framePing 0 (c_pingID (car p1 a)) (UnixNano now) []) None p1"
  define p3 where "p3 = (if fst r then upd_car a (\<lambda>c. c\<lparr>c_lastPing := now\<rparr>) (snd r) else snd r)"
  have a: "car_ptr q (Some a)" if "skeleton q = skeleton p" for q
    using ptr_cong(1) [OF that] assms(2) by (simp add: at_car)
  have 1: "peer_ok p1 \<and> skeleton p1 = skeleton p" unfolding p1_def using assms(1) by (simp add: peer_ok_upd_car same_defs)
  then have 2: "peer_ok (snd r) \<and> skeleton (snd r) = skeleton p" unfolding r_def using a [of p1] by (simp add: peer_ok_enqueue)
  then have 3: "peer_ok p3 \<and> skeleton p3 = skeleton p" unfolding p3_def by (simp add: peer_ok_upd_car same_defs)
  have e: "tick_ping now a p = (if \<not> pr_server p3 \<and> c_lane (car p3 a) = 5 \<and> pr_active p3 \<noteq> ''''
         then send (Some a) (control_frame frameSelect 0 0 0 (bytes_of (pr_active p3))) p3 else p3)"
    by (simp add: tick_ping_def p1_def p3_def r_def Let_def case_prod_beta)
  show ?thesis unfolding e using 3 a [of p3] by (simp add: peer_ok_send)
qed

lemma ok_tick_carrier:
  assumes ok: "peer_ok p" and a: "\<forall>a. lane = Some a \<longrightarrow> at_car p a"
  shows "peer_ok (tick_carrier now lane p) \<and> skeleton (tick_carrier now lane p) = skeleton p"
proof (cases lane)
  case (Some a)
  define p1 where "p1 = (if c_pendingSince (car p a) \<noteq> 0 \<and> \<not> outstanding p (car p a) then upd_car a (\<lambda>c. c\<lparr>c_pendingSince := 0\<rparr>) p else p)"
  have p1: "peer_ok p1 \<and> skeleton p1 = skeleton p" unfolding p1_def using ok by (simp add: peer_ok_upd_car same_defs)
  have "at_car p1 a" using assms(2) Some p1 ptr_cong(1) by blast
  then show ?thesis
    using ok p1 ok_tick_ping [of p1 a now] peer_ok_closeCarrier [of p1 a]
    unfolding tick_carrier_def Some by (simp add: Let_def p1_def [symmetric])
qed (simp add: tick_carrier_def ok)

text \<open>A fold of steps that keep the skeleton.\<close>

lemma ok_fold:
  assumes "\<And>x q. x \<in> set xs \<Longrightarrow> peer_ok q \<Longrightarrow> skeleton q = skeleton p \<Longrightarrow> peer_ok (h x q) \<and> skeleton (h x q) = skeleton p" and "peer_ok p"
  shows "peer_ok (fold h xs p) \<and> skeleton (fold h xs p) = skeleton p"
proof -
  have "peer_ok (fold h xs q) \<and> skeleton (fold h xs q) = skeleton p" if "peer_ok q" "skeleton q = skeleton p" for q
    using assms(1) that by (induction xs arbitrary: q) auto
  then show ?thesis using assms(2) by simp
qed

lemma lane_exists: "peer_ok p \<Longrightarrow> Some a \<in> set (concat (map snd (pr_paths p))) \<Longrightarrow> at_car p a"
  by (fastforce simp: peer_ok_def shape_def paths_ok_def at_car)

lemma ok_tick_carriers:
  assumes ok: "peer_ok p"
  shows "peer_ok (fold (tick_carrier now) (concat (map snd (pr_paths p))) p) \<and> skeleton (fold (tick_carrier now) (concat (map snd (pr_paths p))) p) = skeleton p"
proof (rule ok_fold [OF _ ok])
  fix x q
  assume "x \<in> set (concat (map snd (pr_paths p)))" "peer_ok q" "skeleton q = skeleton p"
  then show "peer_ok (tick_carrier now x q) \<and> skeleton (tick_carrier now x q) = skeleton p"
    using ok_tick_carrier [of q x now] lane_exists [OF ok] ptr_cong(1) [of q p] by auto
qed

lemma length_delete: "gomap_ok m \<Longrightarrow> k \<in> fst ` set m \<Longrightarrow> Suc (length (AList.delete k m)) = length m"
proof (induction m)
  case (Cons e m)
  show ?case
  proof (cases "fst e = k")
    case True
    then have "k \<notin> fst ` set m" using Cons.prems by (auto simp: gomap_ok_def)
    then have "AList.delete k m = m" by (induction m) auto
    then show ?thesis using True by (cases e) simp
  next
    case False
    then show ?thesis using Cons by (cases e) (auto simp: gomap_ok_def)
  qed
qed simp

lemma ok_drop_closing:
  assumes ok: "peer_ok p" and i: "i \<in> fst ` set (pr_closing p)"
  shows "peer_ok (add_control (- 128) (p\<lparr>pr_closing := AList.delete i (pr_closing p)\<rparr>))"
proof (rule peer_okI)
  let ?q = "p\<lparr>pr_closing := AList.delete i (pr_closing p)\<rparr>"
  have acc: "accounts none1 none1 none2 0 p" "bounded p" "shape p" using ok by (simp_all add: peer_ok_def)
  have ids: "ids_ok p" using acc(3) by (simp add: shape_def)
  have len: "int (length (pr_closing p)) = int (length (AList.delete i (pr_closing p))) + 1"
    using length_delete [OF _ i] ids by (simp add: ids_ok_def)
  show "accounts none1 none1 none2 0 (add_control (- 128) ?q)"
    using accounts_add_control [OF accounts_closing [OF acc(1), of "AList.delete i (pr_closing p)"], of "- 128"] len by simp
  show "bounded (add_control (- 128) ?q)" using acc(2) by (simp add: bounded_less)
  have "ids_ok ?q" using ids by (intro ids_ok_fewer [OF ids]) (auto simp: keys_delete ids_ok_def)
  then show "shape (add_control (- 128) ?q)"
    using acc(3) shape_skeleton [OF skeleton_primitive(4) [of "- 128" ?q]] by (simp add: shape_def)
qed

lemma closing_of_skeleton: "skeleton q = skeleton p \<Longrightarrow> pr_closing q = pr_closing p"
  by (simp add: skeleton_def)

lemma ok_tick_closing:
  assumes ok: "peer_ok p" and e: "e \<in> set (pr_closing p)"
  shows "peer_ok (tick_closing now e p)" and "set (pr_closing p) - {x. fst x = fst e} \<subseteq> set (pr_closing (tick_closing now e p))"
    and "pr_heap (tick_closing now e p) = pr_heap p \<and> pr_flows (tick_closing now e p) = pr_flows p"
proof -
  obtain i d where e': "e = (i, d)" by force
  have s: "pr_closing (send c f q) = pr_closing q" "pr_heap (send c f q) = pr_heap q" "pr_flows (send c f q) = pr_flows q" for c f q
    by (auto simp: send_def enqueue_def Let_def add_refs_def add_control_def upd_car_def split: option.split)
  show "peer_ok (tick_closing now e p)"
    using ok_drop_closing [OF ok, of i] e peer_ok_send [OF ok ok_lane [OF ok, of 5]] ok
    by (force simp: tick_closing_def e')
  show "set (pr_closing p) - {x. fst x = fst e} \<subseteq> set (pr_closing (tick_closing now e p))"
    by (auto simp: tick_closing_def e' add_control_def AList.delete_eq s)
  show "pr_heap (tick_closing now e p) = pr_heap p \<and> pr_flows (tick_closing now e p) = pr_flows p"
    by (auto simp: tick_closing_def e' add_control_def s)
qed

lemma ok_tick_closings:
  assumes "peer_ok p" and "distinct (map fst es)" and "set es \<subseteq> set (pr_closing p)"
  shows "peer_ok (fold (tick_closing now) es p) \<and> pr_heap (fold (tick_closing now) es p) = pr_heap p \<and> pr_flows (fold (tick_closing now) es p) = pr_flows p"
  using assms
proof (induction es arbitrary: p)
  case (Cons e es)
  have e: "e \<in> set (pr_closing p)" using Cons.prems by simp
  have "set es \<subseteq> set (pr_closing (tick_closing now e p))"
    using ok_tick_closing(2) [OF Cons.prems(1) e, of now] Cons.prems(2,3) by (fastforce simp: image_iff)
  then show ?case
    using Cons ok_tick_closing(1,3) [OF Cons.prems(1) e, of now] by simp
qed simp

lemma closing_distinct: "peer_ok p \<Longrightarrow> distinct (map fst (pr_closing p))"
  by (simp add: peer_ok_def shape_def ids_ok_def gomap_ok_def)

lemma ok_tick_retry:
  assumes "peer_ok p"
  shows "peer_ok (tick_retry now p) \<and> pr_heap (tick_retry now p) = pr_heap p \<and> pr_flows (tick_retry now p) = pr_flows p"
  using ok_tick_closings [of "p\<lparr>pr_lastCloseRetry := now\<rparr>" "pr_closing p" now] closing_distinct [OF assms] assms
  by (simp add: tick_retry_def)

lemma ok_clear_idle: "peer_ok p \<Longrightarrow> peer_ok (clear_idle lane p) \<and> skeleton (clear_idle lane p) = skeleton p"
  by (auto simp: clear_idle_def peer_ok_upd_car same_defs split: option.split)

lemma ok_tick_expire:
  assumes ok: "peer_ok p" and a: "open_fl p a"
  shows "peer_ok (tick_expire now a p) \<and> skeleton (tick_expire now a p) = skeleton p"
proof -
  define p1 where "p1 = sweep_pending (\<lambda>s. time_sub now (time_Unix (f_value (sg_f s))) > lm_UDPReplay (pr_limits p)) a p"
  define p2 where "p2 = p1\<lparr>pr_expired := pr_expired p1 + of_nat (length (fl_pending (flow p a)) - length (fl_pending (flow p1 a)))\<rparr>"
  have p1: "peer_ok p1 \<and> skeleton p1 = skeleton p"
    using peer_ok_sweep_pending [OF ok] a unfolding p1_def by (simp add: open_fl)
  then have p2: "peer_ok p2 \<and> skeleton p2 = skeleton p" by (simp add: p2_def)
  have "tick_expire now a p = fold clear_idle (map (\<lambda>(_, cs). cs ! 4) (pr_paths p2)) p2"
    by (simp add: tick_expire_def p1_def p2_def Let_def)
  moreover have "peer_ok (fold clear_idle ls p2) \<and> skeleton (fold clear_idle ls p2) = skeleton p2" for ls
    using p2 by (intro ok_fold) (simp_all add: ok_clear_idle)
  ultimately show ?thesis using p2 by simp
qed

lemma segs_enqueue: "length (pr_segs (snd (enqueue c f s p))) = length (pr_segs p)"
  by (auto simp: enqueue_def Let_def add_refs_def add_control_def upd_car_def upd_seg_def split: option.split)

lemma segs_upd_car: "pr_segs (upd_car a h p) = pr_segs p"
  by (simp add: upd_car_def)

text \<open>One segment that is put on the carrier.\<close>

definition mark_sent :: "gotime \<Rightarrow> nat option \<Rightarrow> nat \<Rightarrow> bool \<Rightarrow> peer \<Rightarrow> peer" where
  "mark_sent now c s again p1 =
     (let p2 = (if again then p1\<lparr>pr_replayed := pr_replayed p1 + 1\<rparr> else p1);
          p3 = upd_seg s (\<lambda>x. x\<lparr>sg_sentPath := pr_active p2, sg_sentAt := now\<rparr>) p2
      in case c of None \<Rightarrow> p3 | Some k \<Rightarrow>
           if c_pendingSince (car p3 k) = 0 then upd_car k (\<lambda>x. x\<lparr>c_pendingSince := now, c_lastProgress := now\<rparr>) p3 else p3)"

lemma ok_mark_sent: "peer_ok p \<Longrightarrow> peer_ok (mark_sent now c s again p) \<and> skeleton (mark_sent now c s again p) = skeleton p \<and>
    length (pr_segs (mark_sent now c s again p)) = length (pr_segs p)"
  by (auto simp: mark_sent_def Let_def peer_ok_sent_mark peer_ok_upd_car same_defs segs_upd_car split: option.split)

lemma tick_send_Cons:
  "tick_send now c a (s # ss) p =
     (let sg = seg p s; f = flow p a; r = enqueue c (sg_f sg) (Some s) p in
      if sg_refs sg > 0 \<or> \<not> fl_udp f \<and> frame_end (sg_f sg) > fl_window f \<or>
         sg_sentPath sg = pr_active p \<and> time_sub now (sg_sentAt sg) < (case c of None \<Rightarrow> 0 | Some k \<Rightarrow> rto (car p k))
      then tick_send now c a ss p
      else if fst r then tick_send now c a ss (mark_sent now c s (sg_sentAt sg \<noteq> 0) (snd r)) else snd r)"
  by (simp add: mark_sent_def Let_def case_prod_beta split: bool.split prod.split)

declare tick_send.simps(2) [simp del]

lemma ok_tick_send:
  assumes "peer_ok p" and "car_ptr p c" and "\<forall>s \<in> set ss. s < length (pr_segs p)"
  shows "peer_ok (tick_send now c a ss p) \<and> skeleton (tick_send now c a ss p) = skeleton p"
  using assms
proof (induction ss arbitrary: p)
  case (Cons s ss)
  define r where "r = enqueue c (sg_f (seg p s)) (Some s) p"
  define q where "q = mark_sent now c s (sg_sentAt (seg p s) \<noteq> 0) (snd r)"
  have r: "peer_ok (snd r)" "skeleton (snd r) = skeleton p" "length (pr_segs (snd r)) = length (pr_segs p)"
    using Cons.prems by (simp_all add: r_def peer_ok_enqueue segs_enqueue)
  then have q: "peer_ok q" "skeleton q = skeleton p" "length (pr_segs q) = length (pr_segs p)"
    by (simp_all add: q_def ok_mark_sent)
  have "peer_ok (tick_send now c a ss q) \<and> skeleton (tick_send now c a ss q) = skeleton p"
    using Cons.IH [OF q(1)] Cons.prems q ptr_cong(4) [OF q(2), of c] by simp
  moreover have "peer_ok (tick_send now c a ss p) \<and> skeleton (tick_send now c a ss p) = skeleton p"
    using Cons by simp
  ultimately show ?case
    using r unfolding tick_send_Cons Let_def r_def [symmetric] q_def [symmetric] by simp
qed simp

lemma pending_pointers: "peer_ok p \<Longrightarrow> at_fl p a \<Longrightarrow> \<forall>s \<in> set (fl_pending (flow p a)). s < length (pr_segs p)"
  using flow_pointers [OF peer_ok_pointers, of p a] by (auto simp: at_fl flow_lists_def)

lemma ok_tick_active:
  assumes ok: "peer_ok p" and a: "at_fl p a"
  shows "peer_ok (tick_active now a p) \<and> skeleton (tick_active now a p) = skeleton p"
proof -
  define c where "c = path_lanes p (pr_active p) ! laneFor (flow p a)"
  have c: "car_ptr p c" using ok_lane [OF ok laneFor_less] by (simp add: c_def)
  define p1 where "p1 = (if fl_ackDirty (flow p a) \<and> \<not> fl_udp (flow p a) then acknowledge c a p else p)"
  have p1: "peer_ok p1" "skeleton p1 = skeleton p" using ok c by (simp_all add: p1_def peer_ok_acknowledge)
  have c1: "car_ptr p1 c" using ptr_cong(4) [OF p1(2)] c by simp
  define p2 where "p2 = tick_send now c a (fl_pending (flow p1 a)) p1"
  have "\<forall>s \<in> set (fl_pending (flow p1 a)). s < length (pr_segs p1)"
    using pending_pointers [OF p1(1)] ptr_cong(2) [OF p1(2)] a by simp
  from ok_tick_send [OF p1(1) c1 this] have p2: "peer_ok p2" "skeleton p2 = skeleton p" by (simp_all add: p2_def p1(2))
  have "car_ptr p2 (controlCarrier p2 c)" using ok_control [OF p2(1)] ptr_cong(4) [OF p2(2)] c by simp
  then show ?thesis
    using p1 p2 c1 unfolding tick_active_def Let_def c_def [symmetric] p1_def [symmetric] p2_def [symmetric]
    by (simp add: peer_ok_send)
qed

lemma open_closeFlow: "at_fl p a \<Longrightarrow> open_fl p b \<Longrightarrow> b \<noteq> a \<Longrightarrow> open_fl (closeFlow a err notify now p) b"
  by (cases "fl_closed (flow p a)") (auto simp: open_fl closeFlow_fields, simp add: closeFlow_def Let_def)

lemma ok_tick_flow:
  assumes ok: "peer_ok p" and a: "open_fl p a"
  shows "peer_ok (tick_flow now refresh a p) \<and> (\<forall>b. b \<noteq> a \<longrightarrow> open_fl p b \<longrightarrow> open_fl (tick_flow now refresh a p) b)"
proof -
  define p1 where "p1 = (if refresh \<and> fl_opened (flow p a) \<and> \<not> fl_udp (flow p a) then upd_flow a (\<lambda>f. f\<lparr>fl_ackDirty := True\<rparr>) p else p)"
  have p1: "peer_ok p1" "skeleton p1 = skeleton p" using ok by (simp_all add: p1_def ok_flow same_defs)
  define p2 where "p2 = (if fl_udp (flow p1 a) then tick_expire now a p1 else p1)"
  have "open_fl p1 a" using ptr_cong(3) [OF p1(2)] a by simp
  then have p2: "peer_ok p2" "skeleton p2 = skeleton p" using p1 ok_tick_expire [OF p1(1)] by (simp_all add: p2_def)
  define q where "q = (if pr_active p2 = '''' then p2 else tick_active now a p2)"
  have "at_fl p2 a" using ptr_cong(2) [OF p2(2)] a by (simp add: open_at)
  then have q: "peer_ok q" "skeleton q = skeleton p" using p2 ok_tick_active [OF p2(1)] by (simp_all add: q_def)
  have e: "tick_flow now refresh a p = (if fl_udp (flow p a) \<and> time_sub now (fl_lastActive (flow p a)) > lm_UDPIdle (pr_limits p)
      then closeFlow a None True now p else q)"
    by (simp add: tick_flow_def Let_def p1_def p2_def q_def)
  show ?thesis
    unfolding e using q ptr_cong(3) [OF q(2)] peer_ok_closeFlow [OF ok] open_closeFlow [of p a] a open_at [OF a] by (simp add: at_fl)
qed

lemma listed_open: "peer_ok p \<Longrightarrow> (i, a) \<in> set (pr_flows p) \<Longrightarrow> open_fl p a"
  by (fastforce simp: peer_ok_def shape_def flows_ok_def open_fl)

lemma listed_distinct:
  assumes "peer_ok p"
  shows "distinct (map snd (pr_flows p))"
proof -
  have d: "distinct (map fst (pr_flows p))" and ids: "\<And>i a. (i, a) \<in> set (pr_flows p) \<Longrightarrow> fl_id (flow p a) = i"
    using assms by (auto simp: peer_ok_def shape_def flows_ok_def gomap_ok_def)
  have "inj_on snd (set (pr_flows p))"
  proof (rule inj_onI)
    fix x y
    assume "x \<in> set (pr_flows p)" "y \<in> set (pr_flows p)" "snd x = snd y"
    then show "x = y" using ids [of "fst x" "snd x"] ids [of "fst y" "snd y"] by (metis prod.collapse)
  qed
  then show ?thesis using d by (simp add: distinct_map)
qed

lemma ok_flows_fold:
  assumes step: "\<And>a q. peer_ok q \<Longrightarrow> open_fl q a \<Longrightarrow> peer_ok (h a q) \<and> (\<forall>b. b \<noteq> a \<longrightarrow> open_fl q b \<longrightarrow> open_fl (h a q) b)"
    and "peer_ok p" "distinct as" "\<forall>a \<in> set as. open_fl p a"
  shows "peer_ok (fold h as p)"
  using assms(2-)
proof (induction "as" arbitrary: p)
  case (Cons a as)
  have "peer_ok (h a p)" "\<forall>b \<in> set as. open_fl (h a p) b"
    using step [of p a] Cons.prems by auto
  then show ?case using Cons by simp
qed simp

lemma ok_closeFlow_step: "peer_ok q \<Longrightarrow> open_fl q a \<Longrightarrow> peer_ok (closeFlow a e n now q) \<and> (\<forall>b. b \<noteq> a \<longrightarrow> open_fl q b \<longrightarrow> open_fl (closeFlow a e n now q) b)"
  by (simp add: peer_ok_closeFlow open_closeFlow open_at at_fl [symmetric])

lemma ok_over_flows:
  assumes "\<And>a q. peer_ok q \<Longrightarrow> open_fl q a \<Longrightarrow> peer_ok (h a q) \<and> (\<forall>b. b \<noteq> a \<longrightarrow> open_fl q b \<longrightarrow> open_fl (h a q) b)" and "peer_ok p"
  shows "peer_ok (fold h (map snd (pr_flows p)) p)"
proof (rule ok_flows_fold [OF assms(1,2) listed_distinct [OF assms(2)]])
  show "\<forall>a \<in> set (map snd (pr_flows p)). open_fl p a" using listed_open [OF assms(2)] by auto
qed

lemma ok_tick: "peer_ok p \<Longrightarrow> peer_ok (tick now p)"
proof -
  assume ok: "peer_ok p"
  define p1 where "p1 = selectPath now (fold (tick_carrier now) (concat (map snd (pr_paths p))) p)"
  have "peer_ok p1" using ok_tick_carriers [OF ok] by (simp add: p1_def)
  define p2 where "p2 = (if time_sub now (pr_lastWindowRefresh p1) \<ge> 20 * millisecond then p1\<lparr>pr_lastWindowRefresh := now\<rparr> else p1)"
  define p3 where "p3 = tick_retry now p2"
  have p3: "peer_ok p3" using \<open>peer_ok p1\<close> ok_tick_retry [of p2] by (simp add: p3_def p2_def)
  have "tick now p = (if pr_closed p then p else
      if pr_active p3 = '''' \<and> time_sub now (pr_lastReady p3) \<ge> lm_DisconnectedGrace (pr_limits p3)
      then fold (\<lambda>a. closeFlow a (Some ErrNoPath) False now) (map snd (pr_flows p3)) p3
      else fold (tick_flow now (time_sub now (pr_lastWindowRefresh p1) \<ge> 20 * millisecond)) (map snd (pr_flows p3)) p3)"
    by (simp only: tick_def Let_def p1_def [symmetric] p2_def [symmetric] p3_def [symmetric])
  then show ?thesis
    using ok ok_over_flows [OF ok_closeFlow_step p3] ok_over_flows [OF ok_tick_flow p3] by simp
qed

section \<open>Received frames\<close>

lemma ok_handle_select: "peer_ok p \<Longrightarrow> peer_ok (handle_select c m now p)"
  by (simp add: handle_select_def Let_def peer_ok_closeCarrier)

lemma ok_handle_closed: "peer_ok p \<Longrightarrow> peer_ok (handle_closed m p)"
  by (auto simp: handle_closed_def split: option.split intro!: ok_drop_closing) (metis fst_conv imageI map_of_SomeD)

lemma ok_handle_pong: "peer_ok p \<Longrightarrow> peer_ok (handle_pong c m now p)"
  by (auto simp: handle_pong_def rtt_sample_def Let_def same_defs intro!: peer_ok_upd_car)

lemma contains_seen:
  assumes "peer_ok p" and "pr_server p" and "\<not> contains (pr_seen p) i"
  obtains S where "window_rel (pr_seen p) S" "i \<notin> fst ` set (pr_flows p) \<union> fst ` set (pr_closing p)"
    "\<forall>j \<in> fst ` set (pr_flows p) \<union> fst ` set (pr_closing p). j \<noteq> 0 \<and> j \<in> S"
proof -
  obtain S where S: "window_rel (pr_seen p) S" "\<forall>j \<in> fst ` set (pr_flows p) \<union> fst ` set (pr_closing p). known_id p S j"
    using assms(1) unfolding peer_ok_def shape_def ids_ok_def by blast
  have "i \<notin> S" using datagram.has_member [OF S(1)] assms(3) by blast
  then show thesis using that [OF S(1)] S(2) assms(2) by (simp add: known_id_def) blast
qed

lemma ok_handle_open:
  assumes ok: "peer_ok p" and c: "at_car p c"
  shows "peer_ok (handle_open c m now p)"
proof -
  have send: "peer_ok (send (Some c) f p)" for f using ok c by (simp add: peer_ok_send at_car)
  have new: "peer_ok (upd_flow a (\<lambda>f. f\<lparr>fl_opening := True\<rparr>) (q\<lparr>pr_seen := add (pr_seen q) (f_flow m)\<rparr>))"
    if n: "newFlow (f_flow m) dest udp now p = Inr (a, q)" and s: "pr_server p" "f_flow m \<noteq> 0" "\<not> contains (pr_seen p) (f_flow m)" for a q dest udp
  proof -
    obtain S where S: "window_rel (pr_seen p) S" "f_flow m \<notin> fst ` set (pr_flows p) \<union> fst ` set (pr_closing p)"
      "\<forall>j \<in> fst ` set (pr_flows p) \<union> fst ` set (pr_closing p). j \<noteq> 0 \<and> j \<in> S"
      using contains_seen [OF ok s(1,3)] by blast
    have q: "pr_seen q = pr_seen p" using newFlow_Inr(3) [OF n] by (auto simp: add_control_def reserve_def add_used_def split: if_splits)
    have "shape (q\<lparr>pr_seen := add (pr_seen q) (f_flow m)\<rparr>)"
      using S s datagram.rel_put [OF S(1) s(3)]
      by (intro newFlow_shape [OF shape_of [OF ok] refl refl refl refl refl refl refl n refl, where S = "insert (f_flow m) S"]) (simp_all add: q)
    then have "peer_ok (q\<lparr>pr_seen := add (pr_seen q) (f_flow m)\<rparr>)"
      using newFlow_accounts [OF _ _ n] ok by (intro peer_okI) (simp_all add: peer_ok_def)
    then show ?thesis by (rule peer_ok_upd_flow) (simp_all add: same_defs)
  qed
  show ?thesis
    unfolding handle_open_def using ok send new
    by (auto simp: peer_ok_closeCarrier split: option.split sum.split)
qed

text \<open>A segment that arrives: it is reserved for, created and put into a list of the flow.\<close>

lemma accounts_new_segment:
  assumes acc: "accounts none1 none1 (\<lambda>d' k'. if d' = d \<and> k' = k then cost else 0) 0 p" and a: "open_fl p a"
    and cost: "sg_cost s = cost" "sg_sending s = d" "sg_udp s = k" "0 \<le> cost" and s: "sg_owned s" "sg_refs s = 0" and new: "new_seg s p = (x, p2)"
    and h: "\<And>f. fl_id (h f) = fl_id f \<and> fl_closed (h f) = fl_closed f \<and> fl_udp (h f) = fl_udp f \<and> fl_writing (h f) = fl_writing f \<and> fl_reading (h f) = fl_reading f"
    and lists: "\<And>y. cnt (flow_lists (h (flow p a))) y = cnt (flow_lists (flow p a)) y + (if y = x then 1 else 0)"
  shows "accounts none1 none1 none2 0 (upd_flow a h p2)" and "skeleton (upd_flow a h p2) = skeleton p"
proof -
  have x: "x = length (pr_segs p)" "p2 = p\<lparr>pr_segs := pr_segs p @ [s]\<rparr>" using new by (auto simp: new_seg_def)
  have fl: "flow p2 a = flow p a" "pr_heap p2 = pr_heap p" by (simp_all add: x)
  have "accounts (\<lambda>y. 0 + (if y = x then 1 else 0)) none1 (\<lambda>d' k'. (if d' = d \<and> k' = k then cost else 0) - seg_cost d' k' s) 0 p2"
    using cost by (intro accounts_new_seg [OF acc _ s new]) simp_all
  then have 2: "accounts (\<lambda>y. if y = x then 1 else 0) none1 none2 0 p2"
    by (rule accounts_cong) (auto simp: seg_cost_def cost)
  have a': "a < length (pr_heap p2)" "\<not> fl_closed (flow p a)" using a by (simp_all add: open_fl fl)
  have "pointers_ok (length (pr_segs p)) (pr_carriers p) (pr_heap p)" using acc by (simp add: accounts_def)
  then have old: "\<forall>y \<in> set (flow_lists (flow p a)) \<union> set (flow_refs (flow p a)). y < length (pr_segs p)" "0 \<le> reading_cost (flow p a)"
    using flow_pointers a by (auto simp: open_fl)
  have mem: "y \<in> set xs \<longleftrightarrow> cnt xs y \<noteq> 0" for y xs by (simp add: cnt_def count_list_0_iff)
  have sub: "set (flow_lists (h (flow p a))) \<subseteq> insert x (set (flow_lists (flow p a)))"
    using lists by (auto simp: mem split: if_splits)
  have len: "length (pr_segs p2) = Suc (length (pr_segs p))" by (simp add: x)
  have refs: "flow_refs (h (flow p a)) = flow_refs (flow p a)" using h [of "flow p a"] by (simp add: flow_refs_def)
  have "\<forall>y \<in> set (flow_lists (h (flow p2 a))) \<union> set (flow_refs (h (flow p2 a))). y < length (pr_segs p2)"
    unfolding fl refs len using old(1) sub x(1) less_Suc_eq by blast
  moreover have "0 \<le> reading_cost (h (flow p2 a))" using old(2) h [of "flow p a"] by (simp add: fl reading_cost_def)
  ultimately show "accounts none1 none1 none2 0 (upd_flow a h p2)"
    using h [of "flow p a"] lists a'
    by (intro accounts_cong [OF accounts_upd_flow [where h = h, OF 2 a'(1) refl refl]])
      (simp_all add: fl flow_held_def flow_refs_def flow_cost_def flow_ctl_def reading_cost_def)
  show "skeleton (upd_flow a h p2) = skeleton p" using h [of "flow p2 a"] by (simp add: skeleton_upd_flow same_id_def) (simp add: x)
qed

lemma ok_new_segment:
  assumes ok: "peer_ok p" and a: "open_fl p a" and r: "reserve d k cost p = Some p1"
    and s: "sg_cost s = cost" "sg_sending s = d" "sg_udp s = k" "sg_owned s" "sg_refs s = 0" and new: "new_seg s p1 = (x, p2)"
    and h: "\<And>f. fl_id (h f) = fl_id f \<and> fl_closed (h f) = fl_closed f \<and> fl_udp (h f) = fl_udp f \<and> fl_writing (h f) = fl_writing f \<and> fl_reading (h f) = fl_reading f"
    and lists: "\<And>y. cnt (flow_lists (h (flow p a))) y = cnt (flow_lists (flow p a)) y + (if y = x then 1 else 0)"
  shows "peer_ok (upd_flow a h p2)" and "skeleton (upd_flow a h p2) = skeleton p"
proof -
  have p1: "p1 = add_used d k cost p" "0 \<le> cost" using r by (auto simp: reserve_def split: if_splits)
  have acc: "accounts none1 none1 none2 0 p" "bounded p" using ok by (simp_all add: peer_ok_def)
  have 1: "accounts none1 none1 (\<lambda>d' k'. if d' = d \<and> k' = k then cost else 0) 0 p1"
    using accounts_add_used [OF acc(1), of d k cost] unfolding p1(1) by simp
  have fl: "flow p1 a = flow p a" "open_fl p1 a" "skeleton p1 = skeleton p" using a ptr_cong(3) [of p1 p a] by (simp_all add: p1(1)) (simp add: add_used_def)
  note seg = accounts_new_segment [OF 1 fl(2) s(1-3) p1(2) s(4,5) new h]
  have sk: "skeleton (upd_flow a h p2) = skeleton p" using seg(2) lists fl s p1(2) by simp
  moreover have "bounded (upd_flow a h p2)" using bounded_more(1) [OF r acc(2)] new by (auto simp: new_seg_def)
  moreover have "accounts none1 none1 none2 0 (upd_flow a h p2)" using seg(1) lists fl s p1(2) by simp
  ultimately show "peer_ok (upd_flow a h p2)" by (intro peer_ok_same [OF ok])
  show "skeleton (upd_flow a h p2) = skeleton p" by (fact sk)
qed

section \<open>Stream data\<close>

text \<open>
  The segments that wait in \<^verbatim>\<open>f.recv\<close> are filed under their offset, are not empty and end before the
  offsets wrap around, so a new segment never replaces one.
\<close>

definition recv_entry :: "segment list \<Rightarrow> uint64 \<times> nat \<Rightarrow> bool" where
  "recv_entry segs e = (case e of (off, s) \<Rightarrow> let f = sg_f (segs ! s) in
     f_offset f = off \<and> f_data f \<noteq> [] \<and> unat off + length (f_data f) < 2 ^ 64)"

definition recv_ok :: "peer \<Rightarrow> bool" where
  "recv_ok p \<longleftrightarrow> (\<forall>f \<in> set (pr_heap p). \<not> fl_closed f \<longrightarrow> gomap_ok (fl_recv f) \<and> list_all (recv_entry (pr_segs p)) (fl_recv f))"

lemma word_end_less: "unat (off :: uint64) + n < 2 ^ 64 \<Longrightarrow> 0 < n \<Longrightarrow> off < off + word_of_nat n"
proof -
  assume a: "unat off + n < 2 ^ 64" "0 < n"
  then have "unat (word_of_nat n :: uint64) = n" by (simp add: unat_of_nat)
  then have "unat (off + word_of_nat n) = unat off + n" using a by (simp add: unat_word_ariths)
  then show ?thesis using a by (simp add: word_less_nat_alt)
qed

lemma recv_clash_Fresh:
  "recv_clash segs off data recv = Fresh \<Longrightarrow> data \<noteq> [] \<Longrightarrow> unat off + length data < 2 ^ 64 \<Longrightarrow> list_all (recv_entry segs) recv \<Longrightarrow> off \<notin> fst ` set recv"
proof (induction segs off data recv rule: recv_clash.induct)
  case (2 segs off data o2 s rest)
  show ?case
  proof (cases "off = o2")
    case True
    have "0 < length data" "0 < length (f_data (sg_f (segs ! s)))" "unat o2 + length (f_data (sg_f (segs ! s))) < 2 ^ 64"
      using "2.prems"(2,4) by (auto simp: recv_entry_def Let_def)
    then have "off < o2 + word_of_nat (length (f_data (sg_f (segs ! s))))" "o2 < off + word_of_nat (length data)"
      using word_end_less "2.prems"(3) True by blast+
    then show ?thesis using "2.prems"(1) by (simp add: Let_def split: if_splits)
  next
    case False
    then show ?thesis using 2 by (simp add: Let_def split: if_splits)
  qed
qed simp

lemma cnt_delete: "gomap_ok m \<Longrightarrow> map_of m k = Some s \<Longrightarrow> cnt (map snd (AList.delete k m)) y + (if s = y then 1 else 0) = cnt (map snd m) y"
proof (induction m)
  case (Cons e m)
  show ?case
  proof (cases "fst e = k")
    case True
    then have "k \<notin> fst ` set m" using Cons.prems by (auto simp: gomap_ok_def)
    then have "AList.delete k m = m" by (induction m) auto
    then show ?thesis using True Cons.prems(2) by (cases e) (auto split: if_splits)
  next
    case False
    then show ?thesis using Cons by (cases e) (auto simp: gomap_ok_def)
  qed
qed simp

lemma drain_recv_cnt:
  "drain_recv segs recv nxt rdy = (recv', nxt', rdy') \<Longrightarrow> gomap_ok recv \<Longrightarrow>
    cnt (map snd recv') y + cnt rdy' y = cnt (map snd recv) y + cnt rdy y \<and> gomap_ok recv' \<and> set recv' \<subseteq> set recv"
proof (induction segs recv nxt rdy rule: drain_recv.induct)
  case (1 segs recv nxt rdy)
  show ?case
  proof (cases "map_of recv nxt")
    case None
    then show ?thesis using "1.prems" by (simp add: drain_recv.simps [of segs recv])
  next
    case (Some s)
    then have d: "drain_recv segs (AList.delete nxt recv) (nxt + word_of_nat (length (f_data (sg_f (segs ! s))))) (rdy @ [s]) = (recv', nxt', rdy')"
      using "1.prems"(1) by (simp add: drain_recv.simps [of segs recv])
    have "set (AList.delete nxt recv) \<subseteq> set recv" by (auto simp: AList.delete_eq)
    then show ?thesis
      using "1.IH" [OF Some d] "1.prems"(2) cnt_delete [OF "1.prems"(2) Some, of y] by auto
  qed
qed

lemma cnt_update_fresh: "k \<notin> fst ` set m \<Longrightarrow> cnt (map snd (AList.update k s m)) y = cnt (map snd m) y + (if s = y then 1 else 0)"
  by (induction m) auto

lemma ok_accept_data:
  assumes ok: "peer_ok p" and recv: "recv_ok p" and a: "open_fl p a" and r: "reserve False False cost p = Some p1"
    and fresh: "f_offset m \<notin> fst ` set (fl_recv (flow p a))"
  shows "peer_ok (accept_data a m cost p1)" and "skeleton (accept_data a m cost p1) = skeleton p"
proof -
  let ?s = "\<lparr>sg_f = m, sg_cost = cost, sg_sending = False, sg_udp = False, sg_owned = True, sg_refs = 0, sg_sentPath = [], sg_sentAt = 0\<rparr>"
  obtain x p2 where new: "new_seg ?s p1 = (x, p2)" by force
  have fl: "flow p2 a = flow p a" using r new by (auto simp: new_seg_def reserve_def add_used_def split: if_splits)
  obtain rv nx rd where d: "drain_recv (pr_segs p2) (AList.update (f_offset m) x (fl_recv (flow p a))) (fl_recvNext (flow p a)) (fl_ready (flow p a)) = (rv, nx, rd)"
    by (metis prod_cases3)
  let ?h = "\<lambda>f. f\<lparr>fl_recv := rv, fl_recvBytes := fl_recvBytes f + cost, fl_recvNext := nx, fl_ready := rd\<rparr>"
  have e: "accept_data a m cost p1 = upd_flow a ?h p2" by (simp add: accept_data_def new fl d)
  have g: "gomap_ok (fl_recv (flow p a))" using recv a nth_mem [of a "pr_heap p"] by (simp add: recv_ok_def open_fl)
  have "cnt (flow_lists (?h (flow p a))) y = cnt (flow_lists (flow p a)) y + (if y = x then 1 else 0)" for y
    using drain_recv_cnt [OF d, of y] g cnt_update_fresh [OF fresh, of x y] by (simp add: flow_lists_def)
  then show "peer_ok (accept_data a m cost p1)" "skeleton (accept_data a m cost p1) = skeleton p"
    unfolding e using ok_new_segment [OF ok a r _ _ _ _ _ new, of ?h] by simp_all
qed

lemma no_wrap: "\<not> (off :: uint64) > NOT 0 - word_of_nat n \<Longrightarrow> n \<le> chunkSize \<Longrightarrow> unat off + n < 2 ^ 64"
proof -
  assume a: "\<not> off > NOT 0 - word_of_nat n" "n \<le> chunkSize"
  have n: "unat (word_of_nat n :: uint64) = n" using a(2) by (simp add: unat_of_nat chunkSize_def)
  have "unat (- 1 :: uint64) = 2 ^ 64 - 1" by (simp add: unsigned_minus_1_eq_mask mask_eq_exp_minus_1)
  then have "unat (- 1 - word_of_nat n :: uint64) = 2 ^ 64 - 1 - n"
    by (subst unat_sub) (simp_all add: n)
  moreover have "unat off \<le> unat (- 1 - word_of_nat n :: uint64)" using a(1) by (simp add: word_le_nat_alt linorder_not_less)
  moreover have "n < 2 ^ 64" using a(2) by (simp add: chunkSize_def)
  ultimately show ?thesis by simp
qed

lemma ok_handle_fresh:
  assumes ok: "peer_ok p" "recv_ok p" and a: "open_fl p a" and c: "at_car p c" and m: "f_data m \<noteq> []" "unat (f_offset m) + length (f_data m) < 2 ^ 64"
  shows "peer_ok (handle_fresh c a m now p)"
proof -
  have ack: "peer_ok (acknowledge (Some c) a q)" if "peer_ok q" "skeleton q = skeleton p" for q
    using that c ptr_cong(1) [OF that(2)] by (simp add: peer_ok_acknowledge at_car)
  have cl: "peer_ok (closeFlow a e True now p)" for e using peer_ok_closeFlow [OF ok(1)] a by (simp add: open_fl)
  have acc: "peer_ok (acknowledge (Some c) a (accept_data a m cost p1))"
    if r: "reserve False False cost p = Some p1" "recv_clash (pr_segs p) (f_offset m) (f_data m) (fl_recv (flow p a)) = Fresh" for cost p1
  proof -
    have "list_all (recv_entry (pr_segs p)) (fl_recv (flow p a))" using ok(2) a nth_mem [of a "pr_heap p"] by (simp add: recv_ok_def open_fl)
    then have "f_offset m \<notin> fst ` set (fl_recv (flow p a))" using recv_clash_Fresh [OF r(2)] m by simp
    then show ?thesis using ok_accept_data [OF ok a r(1)] ack by simp
  qed
  show ?thesis
    unfolding handle_fresh_def Let_def using ack [OF ok(1) refl] cl acc by (auto split: clash.split option.split)
qed

lemma trimmed_frame:
  assumes "f_offset m < n" and "n < f_offset m + word_of_nat (length (f_data m))" and w: "unat (f_offset m) + length (f_data m) < 2 ^ 64"
  shows "unat (n - f_offset m) < length (f_data m)" and "unat (n - f_offset m) = unat n - unat (f_offset m)" and "unat (f_offset m) < unat n"
proof -
  have "unat (word_of_nat (length (f_data m)) :: uint64) = length (f_data m)" using w by (simp add: unat_of_nat)
  then have e: "unat (f_offset m + word_of_nat (length (f_data m))) = unat (f_offset m) + length (f_data m)" using w by (simp add: unat_word_ariths)
  show "unat (n - f_offset m) = unat n - unat (f_offset m)" using assms(1) by (intro unat_sub) simp
  moreover show "unat (f_offset m) < unat n" using assms(1) by (simp add: word_less_nat_alt)
  ultimately show "unat (n - f_offset m) < length (f_data m)" using assms(2) e by (simp add: word_less_nat_alt)
qed

lemma ok_handle_data:
  assumes ok: "peer_ok p" "recv_ok p" and a: "open_fl p a" and c: "at_car p c"
  shows "peer_ok (handle_data c a m now p)"
proof (cases "fl_udp (flow p a) \<or> \<not> fl_opened (flow p a) \<or> f_data m = [] \<or> length (f_data m) > chunkSize \<or> f_offset m > NOT 0 - word_of_nat (length (f_data m)) \<or>
    fl_recvFIN (flow p a) \<and> frame_end m > fl_finOffset (flow p a)")
  case True
  then show ?thesis
    using peer_ok_closeFlow [OF ok(1), of a] a unfolding handle_data_def Let_def by (auto simp: open_fl)
next
  case False
  then have m: "f_data m \<noteq> []" "unat (f_offset m) + length (f_data m) < 2 ^ 64" using no_wrap by auto
  show ?thesis
  proof (cases "frame_end m \<le> fl_recvNext (flow p a)")
    case True
    then have "handle_data c a m now p = acknowledge (Some c) a p" using False by (auto simp: handle_data_def Let_def)
    then show ?thesis using ok(1) c by (simp add: peer_ok_acknowledge at_car)
  next
    case late: False
    show ?thesis
    proof (cases "f_offset m < fl_recvNext (flow p a)")
      case True
      let ?n = "fl_recvNext (flow p a)"
      let ?m = "m\<lparr>f_data := drop (unat (?n - f_offset m)) (f_data m), f_offset := ?n\<rparr>"
      have n: "unat (?n - f_offset m) < length (f_data m)" "unat (?n - f_offset m) = unat ?n - unat (f_offset m)" "unat (f_offset m) < unat ?n"
        using trimmed_frame [OF True _ m(2)] late by (simp_all add: frame_end_def)
      have "handle_data c a m now p = handle_fresh c a ?m now p" using False late True by (auto simp: handle_data_def Let_def)
      moreover have "f_data ?m \<noteq> []" "unat (f_offset ?m) + length (f_data ?m) < 2 ^ 64" using n m(2) by auto
      ultimately show ?thesis using ok_handle_fresh [OF ok a c, of ?m now] by simp
    next
      case False
      have "handle_data c a m now p = handle_fresh c a m now p"
        using False late \<open>\<not> (fl_udp _ \<or> _)\<close> by (auto simp: handle_data_def Let_def)
      then show ?thesis using ok_handle_fresh [OF ok a c m] by simp
    qed
  qed
qed

lemma ok_handle_ack:
  assumes ok: "peer_ok p" and a: "open_fl p a"
  shows "peer_ok (handle_ack c a m now p)"
proof -
  define p1 where "p1 = upd_flow a (\<lambda>f. f\<lparr>fl_window := f_value m\<rparr>) p"
  define p2 where "p2 = upd_flow a (\<lambda>f. f\<lparr>fl_acked := f_offset m\<rparr>) p1"
  have p1: "peer_ok p1" "skeleton p1 = skeleton p" using ok by (simp_all add: p1_def ok_flow same_defs)
  then have p2: "peer_ok p2" "skeleton p2 = skeleton p" by (simp_all add: p2_def ok_flow same_defs)
  have "open_fl p2 a" using ptr_cong(3) [OF p2(2)] a by simp
  then have "peer_ok (dataProgress c a now (sweep_pending P a p2))" for P
    using peer_ok_sweep_pending(1) [OF p2(1)] by (simp add: open_fl peer_ok_dataProgress)
  then show ?thesis
    using p1 peer_ok_closeFlow [OF ok, of a] a unfolding handle_ack_def Let_def p1_def [symmetric] p2_def [symmetric] by (simp add: open_fl)
qed

lemma ok_handle_fin:
  assumes ok: "peer_ok p" and a: "open_fl p a" and c: "at_car p c"
  shows "peer_ok (handle_fin c a m now p)"
proof -
  define p1 where "p1 = upd_flow a (\<lambda>f. f\<lparr>fl_recvFIN := True, fl_finOffset := f_offset m\<rparr>) p"
  have p1: "peer_ok p1" "skeleton p1 = skeleton p" using ok by (simp_all add: p1_def ok_flow same_defs)
  have "car_ptr p1 (controlCarrier p1 (Some c))" using ok_control [OF p1(1), of "Some c"] ptr_cong(4) [OF p1(2), of "Some c"] c by (simp add: at_car)
  then show ?thesis
    using p1 peer_ok_closeFlow [OF ok, of a] a unfolding handle_fin_def Let_def p1_def [symmetric] by (simp add: open_fl peer_ok_send)
qed

lemma ok_handle_udp:
  assumes ok: "peer_ok p" and a: "open_fl p a" and c: "at_car p c"
  shows "peer_ok (handle_udp c a m now p)"
proof -
  have ctl: "peer_ok (send (controlCarrier q (Some c)) f q)" if "peer_ok q" "skeleton q = skeleton p" for q f
    using that ok_control [OF that(1), of "Some c"] ptr_cong(4) [OF that(2), of "Some c"] c by (simp add: at_car peer_ok_send)
  have cl: "peer_ok (closeFlow a e True now p)" for e using peer_ok_closeFlow [OF ok] a by (simp add: open_fl)
  have new: "peer_ok (send (controlCarrier q (Some c)) f q)"
    if r: "reserve False True cost p = Some p1" and n: "new_seg \<lparr>sg_f = m, sg_cost = cost, sg_sending = False, sg_udp = True, sg_owned = True, sg_refs = 0,
                  sg_sentPath = [], sg_sentAt = 0\<rparr> p1 = (s, p2)"
      and q: "q = upd_flow a (\<lambda>f. f\<lparr>fl_seen := add (fl_seen f) (f_offset m), fl_ready := fl_ready f @ [s], fl_recvBytes := fl_recvBytes f + cost\<rparr>) p2" for cost p1 s p2 q f
  proof -
    let ?h = "\<lambda>f. f\<lparr>fl_seen := add (fl_seen f) (f_offset m), fl_ready := fl_ready f @ [s], fl_recvBytes := fl_recvBytes f + cost\<rparr>"
    have "peer_ok q" "skeleton q = skeleton p"
      unfolding q using ok_new_segment [OF ok a r _ _ _ _ _ n, of ?h] by (simp_all add: flow_lists_def)
    then show ?thesis using ctl by simp
  qed
  show ?thesis
    unfolding handle_udp_def Let_def using ctl [OF ok refl] cl ok new by (auto split: option.split prod.split)
qed

lemma ok_handle_udpack: "peer_ok p \<Longrightarrow> open_fl p a \<Longrightarrow> peer_ok (handle_udpack c a m now p)"
  using peer_ok_sweep_pending(1) [of p a] by (simp add: handle_udpack_def Let_def open_fl peer_ok_dataProgress)

lemma recv_ok_lastActive: "recv_ok p \<Longrightarrow> recv_ok (upd_flow a (\<lambda>f. f\<lparr>fl_lastActive := t\<rparr>) p)"
  unfolding recv_ok_def upd_flow_def
  by (cases "a < length (pr_heap p)") (auto dest!: set_update_subset_insert [THEN subsetD] simp: list_update_beyond)

lemma ok_handle_flow:
  assumes ok: "peer_ok p0" "recv_ok p0" and a: "open_fl p0 a" and c: "at_car p0 c"
  shows "peer_ok (handle_flow c a m now p0)"
proof -
  define p where "p = upd_flow a (\<lambda>f. f\<lparr>fl_lastActive := now\<rparr>) p0"
  have p: "peer_ok p" "recv_ok p" "skeleton p = skeleton p0" using ok by (simp_all add: p_def ok_flow same_defs recv_ok_lastActive)
  have ptr: "open_fl p a" "at_car p c" using ptr_cong(1,3) [OF p(3)] a c by simp_all
  have f: "peer_ok (upd_flow a h p)" if "same_flow (flow p a) (h (flow p a)) \<and> same_id (flow p a) (h (flow p a))" for h
    using ok_flow [OF p(1)] that by blast
  have "peer_ok (send (Some c) g (closeFlow a None False now p))" for g
    using peer_ok_closeFlow [OF p(1), of a] ptr by (intro peer_ok_send) (simp_all add: open_fl at_car)
  then show ?thesis
    unfolding handle_flow_def Let_def p_def [symmetric]
    using p ptr f ok_handle_data [OF p(1,2) ptr] ok_handle_ack [OF p(1) ptr(1)] ok_handle_fin [OF p(1) ptr] ok_handle_udp [OF p(1) ptr] ok_handle_udpack [OF p(1) ptr(1)]
    by (simp add: same_defs)
qed

lemma ok_handle:
  assumes ok: "peer_ok p" "recv_ok p" and c: "at_car p c"
  shows "peer_ok (handle c m now p)"
proof -
  have s: "peer_ok (send (Some c) f p)" for f using ok(1) c by (simp add: peer_ok_send at_car)
  have "peer_ok (handle_flow c a m now p)" if "map_of (pr_flows p) (f_flow m) = Some a" for a
    using ok_handle_flow [OF ok _ c] listed_open [OF ok(1) map_of_SomeD [OF that]] by simp
  then show ?thesis
    unfolding handle_def Let_def
    using ok s ok_handle_select [OF ok(1)] ok_handle_closed [OF ok(1)] ok_handle_pong [OF ok(1)] ok_handle_open [OF ok(1) c]
    by (simp split: option.split)
qed

section \<open>Carriers\<close>

lemma ok_writeLoop_take: "peer_ok p \<Longrightarrow> at_car p a \<Longrightarrow> peer_ok (writeLoop_take d a p)"
proof -
  assume ok: "peer_ok p" and a: "at_car p a"
  show ?thesis
  proof (cases "\<not> c_running (car p a) \<or> c_hand (car p a) \<noteq> None \<or> (if d then c_data (car p a) else c_control (car p a)) = []")
    case True
    then show ?thesis using ok by (auto simp: writeLoop_take_def Let_def)
  next
    case False
    then obtain q qs where q: "(if d then c_data (car p a) else c_control (car p a)) = q # qs" by (auto simp: neq_Nil_conv)
    let ?h = "\<lambda>c. (if d then c\<lparr>c_data := qs\<rparr> else c\<lparr>c_control := qs\<rparr>)\<lparr>c_hand := Some q\<rparr>"
    have e: "writeLoop_take d a p = upd_car a ?h p" using False q by (simp add: writeLoop_take_def Let_def)
    have set: "set (car_queue (?h (car p a))) = set (car_queue (car p a))" and hand: "c_hand (car p a) = None"
      using False q by (auto simp: car_queue_def split: if_splits)
    have refs: "cnt (car_refs (?h (car p a))) y = cnt (car_refs (car p a)) y" "car_ctl (?h (car p a)) = car_ctl (car p a)" for y
      using False q by (auto simp: car_refs_def car_ctl_def car_queue_def split: if_splits)
    have "set (car_refs (?h (car p a))) = set (car_refs (car p a))" using set by (simp add: car_refs_def queue_refs_def)
    moreover have "accounts none1 none1 none2 0 p" "bounded p" using ok by (simp_all add: peer_ok_def)
    ultimately have "accounts none1 none1 none2 0 (upd_car a ?h p)"
      using car_pointers [OF peer_ok_pointers [OF ok]] a set refs
      by (intro accounts_cong [OF accounts_upd_car [where h = ?h, OF _ _ refl refl]]) (simp_all add: at_car)
    then show ?thesis unfolding e using \<open>bounded p\<close> by (intro peer_ok_same [OF ok]) simp_all
  qed
qed

lemma bounded_releaseQueued:
  assumes "accounts X Y U V p" and "\<forall>s \<in> set (q_refs q). s < length (pr_segs p)" and "0 \<le> q_cost q" and "bounded p"
  shows "bounded (releaseQueued q p)"
proof (cases "q_segment q")
  case None
  then show ?thesis using assms by (simp add: releaseQueued_def bounded_less)
next
  case (Some s)
  have s: "s < length (pr_segs p)" using assms(2) Some by (simp add: q_refs_def)
  have "0 \<le> sg_cost (seg p s)" using accounts_seg_ok [OF assms(1) s] by (simp add: seg_ok_def)
  then have "bounded (release s (add_refs (- 1) (Some s) (add_control (- q_cost q) p)))"
    using s assms(3,4) bounded_less(2) [of "- q_cost q" p] by (intro bounded_release) (simp_all add: add_refs_def upd_seg_def add_control_def)
  then show ?thesis using Some by (simp add: releaseQueued_def)
qed

lemma ok_writeLoop_done:
  assumes ok: "peer_ok p" and a: "at_car p a"
  shows "peer_ok (writeLoop_done a w now p)"
proof (cases "c_hand (car p a)")
  case None
  then show ?thesis using ok by (simp add: writeLoop_done_def)
next
  case (Some q)
  let ?h = "\<lambda>c. c\<lparr>c_hand := None\<rparr>"
  let ?c = "car p a"
  have acc: "accounts none1 none1 none2 0 p" "bounded p" using ok by (simp_all add: peer_ok_def)
  have qu: "car_queue ?c = car_queue (?h ?c) @ [q]" by (simp add: car_queue_def Some)
  have ptr: "\<forall>s \<in> set (car_refs ?c). s < length (pr_segs p)" "\<forall>x \<in> set (car_queue ?c). 0 \<le> q_cost x"
    using car_pointers [OF peer_ok_pointers [OF ok]] a by (simp_all add: at_car)
  then have ptr': "\<forall>s \<in> set (car_refs (?h ?c)). s < length (pr_segs p)" "\<forall>x \<in> set (car_queue (?h ?c)). 0 \<le> q_cost x"
    "\<forall>s \<in> set (q_refs q). s < length (pr_segs p)" "0 \<le> q_cost q"
    by (auto simp: car_refs_def qu)
  define p1 where "p1 = upd_car a ?h p"
  from accounts_upd_car [where h = ?h, OF acc(1) _ refl refl ptr'(1,2)] a
  have 1: "accounts none1 (\<lambda>x. 0 + cnt (q_refs q) x) none2 (0 + q_cost q) p1"
    unfolding p1_def by (intro accounts_cong [OF accounts_upd_car [where h = ?h, OF acc(1) _ refl refl ptr'(1,2)]])
      (simp_all add: at_car car_refs_def car_ctl_def qu)
  have len: "length (pr_segs p1) = length (pr_segs p)" by (simp add: p1_def segs_upd_car)
  have "accounts none1 none1 none2 0 (releaseQueued q p1)"
    by (rule accounts_releaseQueued [OF 1]) (simp_all add: len ptr')
  moreover have "bounded p1" using acc(2) by (simp add: p1_def)
  then have "bounded (releaseQueued q p1)" using ptr' len by (intro bounded_releaseQueued [OF 1]) simp_all
  ultimately have "peer_ok (releaseQueued q p1)" by (intro peer_ok_same [OF ok]) (simp_all add: p1_def)
  then show ?thesis by (simp add: writeLoop_done_def Some Let_def p1_def peer_ok_closeCarrier)
qed

lemma bounded_drain:
  assumes "accounts X (\<lambda>x. Y x + cnt (queue_refs qs) x) U (V + tot q_cost qs) p" and "\<forall>s \<in> set (queue_refs qs). s < length (pr_segs p)"
    and "\<And>s. 0 \<le> Y s" and "\<forall>q \<in> set qs. 0 \<le> q_cost q" and "bounded p"
  shows "bounded (fold releaseQueued qs p)"
  using assms
proof (induction qs arbitrary: p)
  case (Cons q qs)
  have 1: "accounts X (\<lambda>x. (Y x + cnt (queue_refs qs) x) + cnt (q_refs q) x) U (V + tot q_cost qs + q_cost q) p"
    by (rule accounts_cong [OF Cons.prems(1)]) simp_all
  then have "accounts X (\<lambda>x. Y x + cnt (queue_refs qs) x) U (V + tot q_cost qs) (releaseQueued q p)"
    using Cons.prems(2,3) by (intro accounts_releaseQueued) auto
  moreover have "bounded (releaseQueued q p)" using bounded_releaseQueued [OF 1] Cons.prems by simp
  ultimately show ?case using Cons by simp
qed simp

lemma ok_writeLoop_exit:
  assumes ok: "peer_ok p" and a: "at_car p a"
  shows "peer_ok (writeLoop_exit a p)"
proof (cases "\<not> c_closed (car p a) \<or> \<not> c_running (car p a) \<or> c_hand (car p a) \<noteq> None")
  case True
  then have "writeLoop_exit a p = p" unfolding writeLoop_exit_def Let_def by (rule if_P)
  then show ?thesis using ok by simp
next
  case False
  let ?c = "car p a" and ?h = "\<lambda>c. c\<lparr>c_control := [], c_data := [], c_running := False\<rparr>"
  let ?qs = "c_control ?c @ c_data ?c"
  have acc: "accounts none1 none1 none2 0 p" "bounded p" using ok by (simp_all add: peer_ok_def)
  have qu: "car_queue ?c = ?qs" "car_queue (?h ?c) = []" "c_running ?c" using False by (simp_all add: car_queue_def)
  have ptr: "\<forall>s \<in> set (queue_refs ?qs). s < length (pr_segs p)" "\<forall>x \<in> set ?qs. 0 \<le> q_cost x"
    using car_pointers [OF peer_ok_pointers [OF ok]] a by (simp_all add: at_car car_refs_def qu)
  define p1 where "p1 = add_control (- carrierQueueBytes) (upd_car a ?h p)"
  from accounts_add_control [OF accounts_upd_car [where h = ?h, OF acc(1) _ refl refl], of a "- carrierQueueBytes"] a
  have 1: "accounts none1 (\<lambda>x. 0 + cnt (queue_refs ?qs) x) none2 (0 + tot q_cost ?qs) p1"
    unfolding p1_def by (intro accounts_cong [OF accounts_add_control [OF accounts_upd_car [where h = ?h, OF acc(1) _ refl refl]]])
      (simp_all add: at_car car_refs_def car_ctl_def qu)
  have len: "length (pr_segs p1) = length (pr_segs p)" by (simp add: p1_def add_control_def segs_upd_car)
  have b: "bounded p1" using acc(2) unfolding p1_def by (intro bounded_less) (simp_all add: carrierQueueBytes_def)
  have e: "writeLoop_exit a p = fold releaseQueued ?qs p1" using False by (auto simp: writeLoop_exit_def Let_def p1_def)
  have "accounts none1 none1 none2 0 (fold releaseQueued ?qs p1)" by (rule accounts_drain [OF 1]) (simp_all add: len ptr [unfolded queue_refs_simps])
  moreover have "bounded (fold releaseQueued ?qs p1)" by (rule bounded_drain [OF 1]) (use ptr b len in simp_all)
  moreover have "skeleton (fold releaseQueued ?qs p1) = skeleton p" by (simp only: skeleton_primitive p1_def)
  ultimately show ?thesis unfolding e by (intro peer_ok_same [OF ok])
qed

lemma ok_readLoop_fail: "peer_ok p \<Longrightarrow> peer_ok (readLoop_fail a now p)"
  by (simp add: readLoop_fail_def peer_ok_closeCarrier)

lemma accounts_new_car:
  assumes "accounts X Y U V p" and "car_queue c = []" and "c_running c"
  shows "accounts X Y U (V - carrierQueueBytes) (p\<lparr>pr_carriers := pr_carriers p @ [c]\<rparr>)"
  using assms by (auto simp: accounts_defs pointers_ok_def car_refs_def car_ctl_def)

lemma update_member: "e \<in> set (AList.update k v m) \<Longrightarrow> e \<in> set m \<or> e = (k, v)"
  by (induction m) (auto split: if_splits)

lemma ok_addCarrier:
  assumes ok: "peer_ok p" and lane: "lane < CarriersPerPath"
  shows "peer_ok (snd (addCarrier path lane rtt now p))"
proof (cases "fst (addCarrier path lane rtt now p) = None")
  case False
  then have "snd (addCarrier path lane rtt now p) = p" by (auto simp: addCarrier_def split: if_splits)
  then show ?thesis using ok by simp
next
  case True
  have room: "pr_controlBytes p + carrierQueueBytes \<le> lm_ControlBytes (pr_limits p)"
    and e: "snd (addCarrier path lane rtt now p) = attach_carrier path lane rtt now p"
    using True by (auto simp: addCarrier_def split: if_splits)
  define cs where "cs = path_lanes p path"
  define p1 where "p1 = close_lane (cs ! lane) p"
  define c where "c = new_carrier path lane (if rtt < millisecond then millisecond else rtt) now"
  define p2 where "p2 = (add_control carrierQueueBytes p1)\<lparr>pr_carriers := pr_carriers p1 @ [c], pr_paths := AList.update path (cs[lane := Some (length (pr_carriers p1))]) (pr_paths p1)\<rparr>"
  have p1: "peer_ok p1" "skeleton p1 = skeleton p" using ok by (simp_all add: p1_def peer_ok_close_lane)
  have fr: "pr_controlBytes p1 = pr_controlBytes p" "pr_limits p1 = pr_limits p" "length (pr_carriers p1) = length (pr_carriers p)" "pr_paths p1 = pr_paths p"
    by (auto simp: p1_def close_lane_def closeCarrier_def upd_car_def split: option.split)
  have "accounts none1 none1 none2 (0 + carrierQueueBytes - carrierQueueBytes) ((add_control carrierQueueBytes p1)\<lparr>pr_carriers := pr_carriers (add_control carrierQueueBytes p1) @ [c]\<rparr>)"
    using p1(1) by (intro accounts_new_car accounts_add_control) (simp_all add: peer_ok_def c_def new_carrier_def car_queue_def)
  then have acc: "accounts none1 none1 none2 0 p2" by (simp add: p2_def) (simp add: add_control_def)
  have b: "bounded p2" using bounded_more(2) [of p1 carrierQueueBytes] p1(1) room by (simp add: p2_def fr peer_ok_def)
  have lanes: "length cs = CarriersPerPath \<and> (\<forall>a. Some a \<in> set cs \<longrightarrow> a < length (pr_carriers p))"
    using ok unfolding cs_def path_lanes_def peer_ok_def shape_def paths_ok_def
    by (auto simp: no_carriers_def split: option.split dest: map_of_SomeD)
  have "length ds = CarriersPerPath \<and> (\<forall>a. Some a \<in> set ds \<longrightarrow> a < Suc (length (pr_carriers p)))"
    if "(n, ds) \<in> set (pr_paths p2)" for n ds
  proof -
    have "(n, ds) \<in> set (pr_paths p) \<or> ds = cs[lane := Some (length (pr_carriers p))]"
      using update_member [of "(n, ds)" path] that by (auto simp: p2_def fr)
    then show ?thesis
      using lanes ok set_update_subset_insert [of cs lane "Some (length (pr_carriers p))"]
      by (fastforce simp: peer_ok_def shape_def paths_ok_def)
  qed
  then have "paths_ok (length (pr_carriers p2)) (pr_paths p2)" by (auto simp: paths_ok_def p2_def fr)
  moreover have "pr_flows p2 = pr_flows p1" "pr_heap p2 = pr_heap p1" "ids_ok p2 = ids_ok p1"
    by (simp_all add: p2_def add_control_def ids_ok_def known_id_def)
  ultimately have "shape p2" using p1(1) by (simp add: shape_def peer_ok_def)
  then have "peer_ok p2" using acc b by (intro peer_okI)
  then show ?thesis
    unfolding e attach_carrier_def Let_def cs_def [symmetric] p1_def [symmetric] c_def [symmetric] p2_def [symmetric] by simp
qed

section \<open>Endpoints\<close>

lemma ok_startFlow: "peer_ok p \<Longrightarrow> peer_ok (startFlow a p) \<and> skeleton (startFlow a p) = skeleton p"
  unfolding startFlow_def by (rule ok_flow) (simp_all add: same_defs)

lemma ok_openTarget:
  assumes ok: "peer_ok p" and a: "at_fl p a"
  shows "peer_ok (openTarget a w now p)"
proof -
  define p1 where "p1 = upd_flow a (\<lambda>f. f\<lparr>fl_conn := True, fl_opening := False, fl_opened := True, fl_window := word_of_int (lm_FlowBytes (pr_limits p))\<rparr>) p"
  have p1: "peer_ok p1" using ok by (simp add: p1_def ok_flow same_defs)
  have "peer_ok (send (path_lanes p1 (pr_active p1) ! laneFor f) g p1)" for f g
    using ok_lane [OF p1 laneFor_less] by (rule peer_ok_send [OF p1])
  then show ?thesis
    using ok peer_ok_closeFlow [OF ok] a p1 unfolding openTarget_def Let_def p1_def [symmetric] by (simp add: ok_startFlow at_fl)
qed

text \<open>The reservation of a read, and what becomes of it.\<close>

lemma ok_readEndpoint_begin:
  assumes ok: "peer_ok p" and a: "at_fl p a"
  shows "peer_ok (readEndpoint_begin a p)"
proof -
  have stop: "peer_ok (upd_flow a (\<lambda>f. f\<lparr>fl_reader := False\<rparr>) p)" using ok_flow [OF ok] by (simp add: same_defs)
  have start: "peer_ok (upd_flow a (\<lambda>f. f\<lparr>fl_reading := Some (sz, cost)\<rparr>) p1)"
    if r: "reserve True (fl_udp (flow p a)) cost p = Some p1" and n: "fl_reading (flow p a) = None" for sz cost p1
  proof -
    let ?h = "\<lambda>f. f\<lparr>fl_reading := Some (sz, cost)\<rparr>"
    have p1: "p1 = add_used True (fl_udp (flow p a)) cost p" "0 \<le> cost" using r by (auto simp: reserve_def split: if_splits)
    have fl: "flow p1 a = flow p a" "pr_segs p1 = pr_segs p" "a < length (pr_heap p1)" using a by (simp_all add: p1 add_used_def at_fl)
    have acc: "accounts none1 none1 none2 0 p" "bounded p" using ok by (simp_all add: peer_ok_def)
    have ptr: "\<forall>s \<in> set (flow_lists (?h (flow p1 a))) \<union> set (flow_refs (?h (flow p1 a))). s < length (pr_segs p1)" "0 \<le> reading_cost (?h (flow p1 a))"
      using flow_pointers [OF peer_ok_pointers [OF ok]] a p1(2) by (simp_all add: fl(1,2) flow_lists_def flow_refs_def reading_cost_def at_fl)
    have "accounts none1 none1 (\<lambda>d k. 0 + (if d = True \<and> k = fl_udp (flow p a) then cost else 0)) 0 p1"
      unfolding p1(1) by (rule accounts_add_used [OF acc(1)])
    from accounts_upd_flow [where h = ?h, OF this fl(3) refl refl ptr]
    have "accounts none1 none1 none2 0 (upd_flow a ?h p1)"
      by (rule accounts_cong) (auto simp: fl(1) n flow_held_def flow_lists_def flow_refs_def flow_cost_def flow_ctl_def reading_cost_def)
    moreover have "skeleton (upd_flow a ?h p1) = skeleton p" by (simp add: skeleton_upd_flow same_id_def p1(1))
    moreover have "bounded (upd_flow a ?h p1)" using bounded_more(1) [OF r acc(2)] by simp
    ultimately show ?thesis by (intro peer_ok_same [OF ok])
  qed
  show ?thesis unfolding readEndpoint_begin_def Let_def using ok stop start by (cases "fl_reading (flow p a)") (auto split: option.split)
qed

lemma accounts_end_read:
  assumes ok: "peer_ok p" and a: "at_fl p a" and r: "fl_reading (flow p a) = Some (sz, cost)"
  shows "accounts none1 none1 (\<lambda>d k. if d = True \<and> k = fl_udp (flow p a) then cost else 0) 0 (upd_flow a (\<lambda>f. f\<lparr>fl_reading := None\<rparr>) p)" and "0 \<le> cost"
proof -
  let ?h = "\<lambda>f. f\<lparr>fl_reading := None\<rparr>"
  have acc: "accounts none1 none1 none2 0 p" using ok by (simp add: peer_ok_def)
  have ptrs: "(\<forall>s \<in> set (flow_lists (flow p a)) \<union> set (flow_refs (flow p a)). s < length (pr_segs p)) \<and> 0 \<le> reading_cost (flow p a)"
    using flow_pointers [OF peer_ok_pointers [OF ok]] a by (simp add: at_fl)
  then show "0 \<le> cost" by (simp add: reading_cost_def r)
  have ptr: "\<forall>s \<in> set (flow_lists (?h (flow p a))) \<union> set (flow_refs (?h (flow p a))). s < length (pr_segs p)" "0 \<le> reading_cost (?h (flow p a))"
    using ptrs by (simp_all add: flow_lists_def flow_refs_def reading_cost_def)
  from accounts_upd_flow [where h = ?h, OF acc a [unfolded at_fl] refl refl ptr]
  show "accounts none1 none1 (\<lambda>d k. if d = True \<and> k = fl_udp (flow p a) then cost else 0) 0 (upd_flow a ?h p)"
    by (rule accounts_cong) (auto simp: r flow_held_def flow_lists_def flow_refs_def flow_cost_def flow_ctl_def reading_cost_def)
qed

lemma bounded_add_used_le: "n \<le> 0 \<Longrightarrow> bounded p \<Longrightarrow> bounded (add_used d k n p)"
  by (rule bounded_less)

lemma ok_release_read:
  assumes ok: "peer_ok p" and a: "at_fl p a" and r: "fl_reading (flow p a) = Some (sz, cost)"
  shows "peer_ok (add_used True (fl_udp (flow p a)) (- cost) (upd_flow a (\<lambda>f. f\<lparr>fl_reading := None\<rparr>) p))"
proof -
  note e = accounts_end_read [OF ok a r]
  from accounts_add_used [OF e(1), of True "fl_udp (flow p a)" "- cost"]
  have "accounts none1 none1 none2 0 (add_used True (fl_udp (flow p a)) (- cost) (upd_flow a (\<lambda>f. f\<lparr>fl_reading := None\<rparr>) p))"
    by (rule accounts_cong) auto
  moreover have "bounded (add_used True (fl_udp (flow p a)) (- cost) (upd_flow a (\<lambda>f. f\<lparr>fl_reading := None\<rparr>) p))"
    using ok e(2) by (intro bounded_less) (simp_all add: peer_ok_def)
  ultimately show ?thesis by (intro peer_ok_same [OF ok]) (simp_all add: skeleton_upd_flow same_id_def)
qed

lemma ok_queue_read:
  assumes ok: "peer_ok p" and a: "open_fl p a" and r: "fl_reading (flow p a) = Some (sz, cost)" and len: "length data \<le> sz" and cost: "cost = int sz + segmentOverhead"
  shows "peer_ok (queue_read a data cost now (upd_flow a (\<lambda>f. f\<lparr>fl_reading := None\<rparr>) p))" (is "peer_ok (queue_read a data cost now ?p0)")
    and "skeleton (queue_read a data cost now (upd_flow a (\<lambda>f. f\<lparr>fl_reading := None\<rparr>) p)) = skeleton p"
proof -
  let ?u = "fl_udp (flow p a)" and ?actual = "int (length data) + segmentOverhead"
  have fl: "flow ?p0 a = (flow p a)\<lparr>fl_reading := None\<rparr>" using a by (simp add: upd_flow_flow open_fl)
  define p1 where "p1 = add_used True ?u (- (cost - ?actual)) ?p0"
  have le: "?actual \<le> cost" "0 \<le> ?actual" using len by (simp_all add: cost segmentOverhead_def)
  have sk: "skeleton p1 = skeleton p" by (simp add: p1_def skeleton_upd_flow same_id_def)
  note e = accounts_end_read [OF ok open_at [OF a] r]
  from accounts_add_used [OF e(1), of True ?u "- (cost - ?actual)"]
  have 1: "accounts none1 none1 (\<lambda>d k. if d = True \<and> k = ?u then ?actual else 0) 0 p1"
    unfolding p1_def by (rule accounts_cong) auto
  let ?s = "\<lparr>sg_f = read_frame (flow ?p0 a) data now, sg_cost = ?actual, sg_sending = True, sg_udp = ?u, sg_owned = True, sg_refs = 0, sg_sentPath = [], sg_sentAt = 0\<rparr>"
  obtain x p2 where new: "new_seg ?s p1 = (x, p2)" by force
  let ?h = "\<lambda>f. f\<lparr>fl_next := (if fl_udp f then fl_next f + 1 else fl_next f + word_of_nat (length data)),
           fl_pending := fl_pending f @ [x], fl_sendBytes := fl_sendBytes f + ?actual, fl_lastActive := now\<rparr>"
  have q: "queue_read a data cost now ?p0 = upd_flow a ?h p2"
    unfolding queue_read_def Let_def using new by (simp add: fl p1_def)
  have "open_fl p1 a" using ptr_cong(3) [OF sk] a by simp
  note seg = accounts_new_segment [where h = ?h, OF 1 this _ _ _ le(2) _ _ new]
  have acc: "accounts none1 none1 none2 0 (upd_flow a ?h p2)" and sk2: "skeleton (upd_flow a ?h p2) = skeleton p1"
    by (rule seg; simp add: flow_lists_def)+
  have "bounded p1" unfolding p1_def using ok le(1) by (intro bounded_less) (simp_all add: peer_ok_def)
  then have "bounded (upd_flow a ?h p2)" using new by (auto simp: new_seg_def)
  then show "peer_ok (queue_read a data cost now ?p0)" unfolding q using acc sk sk2 by (intro peer_ok_same [OF ok]) simp_all
  show "skeleton (queue_read a data cost now ?p0) = skeleton p" unfolding q using sk sk2 by simp
qed

text \<open>The cost of a reservation is its size and the overhead of a segment.\<close>

definition reads_ok :: "peer \<Rightarrow> bool" where
  "reads_ok p \<longleftrightarrow> (\<forall>f \<in> set (pr_heap p). \<forall>sz cost. fl_reading f = Some (sz, cost) \<longrightarrow> cost = int sz + segmentOverhead)"

lemma udp_upd_flow: "at_fl p a \<Longrightarrow> fl_udp (flow (upd_flow a h p) a) = fl_udp (h (flow p a))"
  by (simp add: upd_flow_flow at_fl)

lemma ok_readEndpoint_end:
  assumes ok: "peer_ok p" and reads: "reads_ok p" and a: "at_fl p a"
  shows "peer_ok (readEndpoint_end a data err now p)"
proof (cases "fl_reading (flow p a)")
  case None
  then show ?thesis using ok by (simp add: readEndpoint_end_def)
next
  case (Some sc)
  then obtain sz cost where r: "fl_reading (flow p a) = Some (sz, cost)" by (cases sc) auto
  show ?thesis
  proof (cases "length data > sz")
    case True
    then show ?thesis using ok r by (simp add: readEndpoint_end_def)
  next
    case False
    define p0 where "p0 = upd_flow a (\<lambda>f. f\<lparr>fl_reading := None\<rparr>) p"
    have cost: "cost = int sz + segmentOverhead" using reads r a nth_mem [of a "pr_heap p"] unfolding reads_ok_def at_fl by blast
    have f0: "flow p0 a = (flow p a)\<lparr>fl_reading := None\<rparr>" "pr_closed p0 = pr_closed p" using a by (simp_all add: p0_def upd_flow_flow at_fl) (simp add: upd_flow_def)
    have rel: "peer_ok (add_used True (fl_udp (flow p a)) (- cost) p0)" using ok_release_read [OF ok a r] by (simp add: p0_def)
    have sk0: "skeleton (add_used True (fl_udp (flow p a)) (- cost) p0) = skeleton p" by (simp add: p0_def skeleton_upd_flow same_id_def)
    have stop: "upd_flow a (\<lambda>f. f\<lparr>fl_reader := False\<rparr>) (add_used d k n p0) = add_used d k n (upd_flow a (\<lambda>f. f\<lparr>fl_reader := False\<rparr>) p0)" for d k n
      by (simp add: upd_flow_def add_used_def cong: if_cong)
    have stopped: "peer_ok (add_used True (fl_udp (flow p a)) (- cost) (upd_flow a (\<lambda>f. f\<lparr>fl_reader := False\<rparr>) p0))"
      using ok_flow [OF rel, of a "\<lambda>f. f\<lparr>fl_reader := False\<rparr>"] unfolding stop by (simp add: same_defs)
    show ?thesis
    proof (cases "fl_closed (flow p a) \<or> pr_closed p")
      case True
      have "readEndpoint_end a data err now p = add_used True (fl_udp (flow p a)) (- cost) (upd_flow a (\<lambda>f. f\<lparr>fl_reader := False\<rparr>) p0)"
        unfolding readEndpoint_end_def Let_def r p0_def [symmetric] using True False by (simp add: f0)
      then show ?thesis using stopped by simp
    next
      case opened: False
      then have o: "open_fl p a" using a by (simp add: open_fl at_fl)
      define p1 where "p1 = (if data \<noteq> [] then queue_read a data cost now p0 else add_used True (fl_udp (flow p a)) (- cost) p0)"
      have p1: "peer_ok p1" "skeleton p1 = skeleton p"
        using rel sk0 ok_queue_read [OF ok o r _ cost] False by (simp_all add: p1_def p0_def)
      define p2 where "p2 = upd_flow a (\<lambda>f. f\<lparr>fl_reader := False\<rparr>) p1"
      have p2: "peer_ok p2" "skeleton p2 = skeleton p" using ok_flow [OF p1(1)] p1(2) by (simp_all add: p2_def same_defs)
      have "peer_ok (upd_flow a (\<lambda>f. f\<lparr>fl_readEOF := True\<rparr>) p2)" using ok_flow [OF p2(1)] by (simp add: same_defs)
      moreover have "peer_ok (closeFlow a e True now p2)" for e
        using peer_ok_closeFlow [OF p2(1)] ptr_cong(2) [OF p2(2)] a by (simp add: at_fl)
      moreover have "readEndpoint_end a data err now p = (if err = Read_ok \<or> err = Read_timeout \<and> fl_udp (flow p a) then p1
          else if err = Read_eof \<and> \<not> fl_udp (flow p a) then upd_flow a (\<lambda>f. f\<lparr>fl_readEOF := True\<rparr>) p2
          else closeFlow a (Some (case err of Read_failed e \<Rightarrow> e | Read_eof \<Rightarrow> io_EOF | _ \<Rightarrow> Error_New ''i/o timeout'')) True now p2)"
        unfolding readEndpoint_end_def Let_def r p0_def [symmetric] using opened False by (simp add: f0 p1_def p2_def)
      ultimately show ?thesis using p1(1) by simp
    qed
  qed
qed

text \<open>An endpoint delivers the first ready segment.\<close>

definition delivers_first :: "logicalFlow \<Rightarrow> bool" where
  "delivers_first f \<longleftrightarrow> (\<forall>s. \<not> fl_closed f \<and> fl_writing f = Some s \<longrightarrow> (\<exists>rest. fl_ready f = s # rest))"

lemma ok_finish_writer:
  assumes ok: "peer_ok p" and a: "at_fl p a"
  shows "peer_ok (finish_writer a now p)"
proof -
  define p1 where "p1 = (if fl_recvFIN (flow p a) \<and> fl_recvNext (flow p a) = fl_finOffset (flow p a) \<and> \<not> fl_finApplied (flow p a)
    then upd_flow a (\<lambda>f. f\<lparr>fl_finApplied := True\<rparr>) p else p)"
  have p1: "peer_ok p1" "skeleton p1 = skeleton p" using ok by (simp_all add: p1_def ok_flow same_defs)
  have p2: "peer_ok (upd_flow a (\<lambda>f. f\<lparr>fl_writer := False\<rparr>) p1) \<and> skeleton (upd_flow a (\<lambda>f. f\<lparr>fl_writer := False\<rparr>) p1) = skeleton p1"
    using ok_flow [OF p1(1)] by (simp add: same_defs)
  then have "peer_ok (closeFlow a None False now (upd_flow a (\<lambda>f. f\<lparr>fl_writer := False\<rparr>) p1))"
    using ptr_cong(2) [OF p1(2)] a by (intro peer_ok_closeFlow) (simp_all add: at_fl)
  then show ?thesis using p1 unfolding finish_writer_def Let_def p1_def [symmetric] by simp
qed

lemma ok_writeEndpoint_begin:
  assumes ok: "peer_ok p" and a: "at_fl p a"
  shows "peer_ok (writeEndpoint_begin a now p)"
proof -
  have stop: "peer_ok (upd_flow a (\<lambda>f. f\<lparr>fl_writer := False\<rparr>) p)" using ok_flow [OF ok] by (simp add: same_defs)
  have start: "peer_ok (add_refs 1 (Some s) (upd_flow a (\<lambda>f. f\<lparr>fl_writing := Some s\<rparr>) p))"
    if r: "fl_ready (flow p a) = s # rest" and n: "fl_writing (flow p a) = None" for s rest
  proof -
    let ?h = "\<lambda>f. f\<lparr>fl_writing := Some s\<rparr>"
    have acc: "accounts none1 none1 none2 0 p" "bounded p" using ok by (simp_all add: peer_ok_def)
    have ptrs: "(\<forall>s \<in> set (flow_lists (flow p a)) \<union> set (flow_refs (flow p a)). s < length (pr_segs p)) \<and> 0 \<le> reading_cost (flow p a)"
      using flow_pointers [OF peer_ok_pointers [OF ok]] a by (simp add: at_fl)
    then have s: "s < length (pr_segs p)" by (simp add: flow_lists_def r)
    have ptr: "\<forall>s \<in> set (flow_lists (?h (flow p a))) \<union> set (flow_refs (?h (flow p a))). s < length (pr_segs p)" "0 \<le> reading_cost (?h (flow p a))"
      using ptrs s by (simp_all add: flow_lists_def flow_refs_def reading_cost_def)
    from accounts_upd_flow [where h = ?h, OF acc(1) a [unfolded at_fl] refl refl ptr]
    have "accounts none1 (\<lambda>x. 0 - cnt [s] x) none2 0 (upd_flow a ?h p)"
      by (rule accounts_cong) (auto simp: n flow_held_def flow_lists_def flow_refs_def flow_cost_def flow_ctl_def reading_cost_def)
    moreover have "0 \<le> sg_refs (seg (upd_flow a ?h p) s)" using refs_nonneg [OF ok s] by (simp add: upd_flow_def)
    ultimately have "accounts none1 none1 none2 0 (add_refs 1 (Some s) (upd_flow a ?h p))" using s by (intro accounts_add_refs) simp_all
    then show ?thesis using acc(2) by (intro peer_ok_same [OF ok]) (simp_all add: skeleton_upd_flow same_id_def)
  qed
  show ?thesis
    unfolding writeEndpoint_begin_def Let_def using ok stop start ok_finish_writer [OF ok a] by (cases "fl_ready (flow p a)"; cases "fl_writing (flow p a)") auto
qed

lemma upd_seg_flow: "upd_flow a h (upd_seg s g p) = upd_seg s g (upd_flow a h p)"
  by (simp add: upd_flow_def upd_seg_def)

lemma upd_flow_twice: "a < length (pr_heap p) \<Longrightarrow> upd_flow a g (upd_flow a h p) = upd_flow a (g \<circ> h) p"
  by (simp add: upd_flow_def)

lemma ok_writeEndpoint_end:
  assumes ok: "peer_ok p" and a: "at_fl p a" and first: "delivers_first (flow p a)"
  shows "peer_ok (writeEndpoint_end a err now p)"
proof (cases "fl_writing (flow p a)")
  case None
  then show ?thesis using ok by (simp add: writeEndpoint_end_def)
next
  case (Some s)
  have a': "a < length (pr_heap p)" using a by (simp add: at_fl)
  have acc: "accounts none1 none1 none2 0 p" "bounded p" using ok by (simp_all add: peer_ok_def)
  have ptrs: "(\<forall>s \<in> set (flow_lists (flow p a)) \<union> set (flow_refs (flow p a)). s < length (pr_segs p)) \<and> 0 \<le> reading_cost (flow p a)"
    using flow_pointers [OF peer_ok_pointers [OF ok] a'] .
  then have s: "s < length (pr_segs p)" by (simp add: flow_refs_def Some)
  define p1 where "p1 = add_refs (- 1) (Some s) (upd_flow a (\<lambda>f. f\<lparr>fl_writing := None\<rparr>) p)"
  have p1: "p1 = upd_seg s (\<lambda>s. s\<lparr>sg_refs := sg_refs s + (- 1)\<rparr>) (upd_flow a (\<lambda>f. f\<lparr>fl_writing := None\<rparr>) p)" by (simp add: p1_def add_refs_def)
  have f1: "flow p1 a = (flow p a)\<lparr>fl_writing := None\<rparr>" using a' by (simp add: p1 upd_seg_def upd_flow_def)
  show ?thesis
  proof (cases "fl_closed (flow p a)")
    case True
    let ?h = "\<lambda>f. f\<lparr>fl_writing := None, fl_writer := False\<rparr>" and ?g = "\<lambda>s. s\<lparr>sg_refs := sg_refs s + (- 1)\<rparr>"
    have "writeEndpoint_end a err now p = release s (upd_flow a (\<lambda>f. f\<lparr>fl_writer := False\<rparr>) p1)"
      unfolding writeEndpoint_end_def Let_def Some option.case p1_def [symmetric] using True by (simp add: f1)
    then have e: "writeEndpoint_end a err now p = release s (upd_seg s ?g (upd_flow a ?h p))"
      by (simp add: p1 upd_seg_flow upd_flow_twice [OF a'] comp_def)
    have ptr: "\<forall>s \<in> set (flow_lists (?h (flow p a))) \<union> set (flow_refs (?h (flow p a))). s < length (pr_segs p)" "0 \<le> reading_cost (?h (flow p a))"
      using ptrs by (simp_all add: flow_lists_def flow_refs_def reading_cost_def)
    from accounts_upd_flow [where h = ?h, OF acc(1) a' refl refl ptr]
    have 1: "accounts none1 (\<lambda>x. cnt [s] x) none2 0 (upd_flow a ?h p)"
      by (rule accounts_cong) (auto simp: Some flow_held_def flow_lists_def flow_refs_def flow_cost_def flow_ctl_def reading_cost_def)
    have seg: "seg_ok (owners (pr_heap (upd_flow a ?h p)) s) (referrers (pr_carriers (upd_flow a ?h p)) (pr_heap (upd_flow a ?h p)) s + 1) (seg (upd_flow a ?h p) s)"
      using accounts_seg_ok [OF 1, of s] s by simp
    have "accounts none1 none1 none2 0 (release s (upd_seg s ?g (upd_flow a ?h p)))"
      using s seg by (intro accounts_release [OF 1 refl _ refl]) (auto simp: seg_ok_def)
    moreover have "bounded (release s (upd_seg s ?g (upd_flow a ?h p)))"
      using acc(2) s seg by (intro bounded_release) (simp_all add: upd_seg_def seg_ok_def)
    ultimately show ?thesis unfolding e by (intro peer_ok_same [OF ok]) (simp_all add: skeleton_upd_flow same_id_def)
  next
    case False
    obtain rest where r: "fl_ready (flow p a) = s # rest" using first False Some by (auto simp: delivers_first_def)
    define h :: "logicalFlow \<Rightarrow> logicalFlow" where "h = (\<lambda>f. f\<lparr>fl_writing := None, fl_ready := tl (fl_ready f), fl_recvBytes := fl_recvBytes f - sg_cost (seg p1 s),
                     fl_consumed := fl_consumed f + word_of_nat (length (f_data (sg_f (seg p1 s))))\<rparr>)"
    let ?g = "\<lambda>s. s\<lparr>sg_refs := sg_refs s + (- 1), sg_owned := False\<rparr>"
    define p3 where "p3 = discard s (upd_flow a (\<lambda>f. f\<lparr>fl_ready := tl (fl_ready f), fl_recvBytes := fl_recvBytes f - sg_cost (seg p1 s),
                     fl_consumed := fl_consumed f + word_of_nat (length (f_data (sg_f (seg p1 s))))\<rparr>) p1)"
    have p3: "p3 = release s (upd_seg s ?g (upd_flow a h p))"
      using s unfolding p3_def discard_def p1
      by (simp add: upd_seg_flow upd_flow_twice [OF a'] upd_seg_twice comp_def h_def) (simp add: p1 upd_seg_def upd_flow_def)
    have ptr: "\<forall>s \<in> set (flow_lists (h (flow p a))) \<union> set (flow_refs (h (flow p a))). s < length (pr_segs p)" "0 \<le> reading_cost (h (flow p a))"
      using ptrs by (simp_all add: h_def r flow_lists_def flow_refs_def reading_cost_def)
    from accounts_upd_flow [where h = h, OF acc(1) a' refl refl ptr]
    have 1: "accounts (\<lambda>x. cnt [s] x) (\<lambda>x. cnt [s] x) none2 0 (upd_flow a h p)"
      by (rule accounts_cong) (auto simp: Some h_def r False flow_held_def flow_lists_def flow_refs_def flow_cost_def flow_ctl_def reading_cost_def)
    have seg: "seg_ok (owners (pr_heap (upd_flow a h p)) s + 1) (referrers (pr_carriers (upd_flow a h p)) (pr_heap (upd_flow a h p)) s + 1) (seg (upd_flow a h p) s)"
      using accounts_seg_ok [OF 1, of s] s by simp
    then have own: "owners (pr_heap (upd_flow a h p)) s = 0"
      using owners_nonneg(1) [of "pr_heap (upd_flow a h p)" s] by (cases "sg_owned (seg (upd_flow a h p) s)") (auto simp: seg_ok_def)
    have "accounts none1 none1 none2 0 p3"
      unfolding p3 using s seg own by (intro accounts_release [OF 1 refl _ refl]) (auto simp: seg_ok_def)
    moreover have "bounded p3" unfolding p3 using acc(2) s seg by (intro bounded_release) (simp_all add: upd_seg_def seg_ok_def)
    moreover have sk3: "skeleton p3 = skeleton p" by (simp add: p3 skeleton_upd_flow same_id_def h_def)
    ultimately have ok3: "peer_ok p3" by (intro peer_ok_same [OF ok])
    have "peer_ok (upd_flow a (\<lambda>f. f\<lparr>fl_writer := False\<rparr>) p3) \<and> skeleton (upd_flow a (\<lambda>f. f\<lparr>fl_writer := False\<rparr>) p3) = skeleton p3"
      using ok_flow [OF ok3] by (simp add: same_defs)
    then have "peer_ok (closeFlow a err True now (upd_flow a (\<lambda>f. f\<lparr>fl_writer := False\<rparr>) p3))"
      using ptr_cong(2) [OF sk3] a by (intro peer_ok_closeFlow) (simp_all add: at_fl)
    moreover have "peer_ok (acknowledge (path_lanes p3 (pr_active p3) ! unat (fl_id (flow p3 a) mod 4)) a p3)"
    proof (rule peer_ok_acknowledge [OF ok3 ok_lane [OF ok3]])
      have "unat (fl_id (flow p3 a) mod 4) < 4" by (simp add: unat_mod)
      then show "unat (fl_id (flow p3 a) mod 4) < 6" by simp
    qed
    ultimately show ?thesis
      unfolding writeEndpoint_end_def Let_def Some option.case p1_def [symmetric] p3_def [symmetric] using ok3 False by (simp add: f1)
  qed
qed

section \<open>Closing and the gateway\<close>

lemma ok_close_flows: "peer_ok p \<Longrightarrow> peer_ok (close_flows e now p)"
  unfolding close_flows_def by (rule ok_over_flows [OF ok_closeFlow_step])

lemma ok_close_lanes: "peer_ok p \<Longrightarrow> peer_ok (close_lanes p) \<and> skeleton (close_lanes p) = skeleton p"
  unfolding close_lanes_def by (rule ok_fold) (auto simp: peer_ok_close_lane)

lemma closing_add_control: "pr_closing (add_control n p) = pr_closing p"
  by (simp add: add_control_def)

lemma ok_clear_closing:
  assumes ok: "peer_ok p"
  shows "peer_ok ((add_control (- int (length (pr_closing p)) * 128) p)\<lparr>pr_closing := []\<rparr>)"
proof -
  have acc: "accounts none1 none1 none2 0 p" "bounded p" "shape p" using ok by (simp_all add: peer_ok_def)
  define n where "n = - int (length (pr_closing p)) * 128"
  define q where "q = add_control n p"
  have q: "pr_closing q = pr_closing p" "shape q" "bounded q"
    using shape_skeleton [of q p] acc(2,3) bounded_less(2) [of n p] by (simp_all add: q_def n_def closing_add_control)
  have "accounts none1 none1 none2 (0 + n) q" unfolding q_def by (rule accounts_add_control [OF acc(1)])
  from accounts_closing [OF this, of "[]"] have "accounts none1 none1 none2 0 (q\<lparr>pr_closing := []\<rparr>)"
    by (simp add: q(1) n_def)
  moreover have "ids_ok (q\<lparr>pr_closing := []\<rparr>)" using q(2) by (rule_tac ids_ok_fewer [of q]) (simp_all add: shape_def)
  ultimately have "peer_ok (q\<lparr>pr_closing := []\<rparr>)" using q(2,3) by (intro peer_okI) (simp_all add: shape_def)
  then show ?thesis by (simp only: q_def n_def)
qed

lemma ok_close_peer: "peer_ok p \<Longrightarrow> peer_ok (close_peer now p)"
proof -
  assume ok: "peer_ok p"
  then have "peer_ok (close_flows ErrClosed now (close_lanes (p\<lparr>pr_closed := True\<rparr>)))"
    by (intro ok_close_flows) (simp add: ok_close_lanes)
  from ok_clear_closing [OF this] ok show ?thesis by (simp add: close_peer_def Let_def)
qed

text \<open>A gateway numbers its flows upwards; the numbers do not wrap around while fewer than \<open>2 ^ 64\<close> were given.\<close>

lemma unat_next: "i + 1 \<noteq> 0 \<Longrightarrow> unat (i + 1 :: uint64) = Suc (unat i)"
  using unatSuc [of i] by (simp add: add.commute)

lemma ok_gateway_flow:
  assumes ok: "peer_ok p" and gw: "\<not> pr_server p" and w: "pr_nextID p + 1 \<noteq> 0"
    and new: "newFlow (pr_nextID p + 1) dest udp now (p\<lparr>pr_nextID := pr_nextID p + 1\<rparr>) = Inr (a, q)"
  shows "peer_ok q" and "open_fl q a" and "fl_id (flow q a) = pr_nextID p + 1"
proof -
  let ?p = "p\<lparr>pr_nextID := pr_nextID p + 1\<rparr>" and ?i = "pr_nextID p + 1"
  have up: "i < ?i" if "i \<le> pr_nextID p" for i
    using that w by (simp add: word_less_nat_alt word_le_nat_alt unat_next)
  obtain S where S: "window_rel (pr_seen p) S" "\<forall>j \<in> fst ` set (pr_flows p) \<union> fst ` set (pr_closing p). known_id p S j"
    using ok unfolding peer_ok_def shape_def ids_ok_def by blast
  have old: "j \<noteq> 0" "j \<le> pr_nextID p" if "j \<in> fst ` set (pr_flows p) \<union> fst ` set (pr_closing p)" for j
    using bspec [OF S(2) that] gw by (simp_all add: known_id_def)
  have fresh: "?i \<notin> fst ` set (pr_flows ?p) \<union> fst ` set (pr_closing ?p)" using old(2) [of ?i] up [of ?i] by auto
  have known: "\<forall>j \<in> insert ?i (fst ` set (pr_flows ?p) \<union> fst ` set (pr_closing ?p)). j \<noteq> 0 \<and> (if pr_server ?p then j \<in> S else j \<le> pr_nextID ?p)"
    using old up gw w by (simp add: less_imp_le)
  have seen: "pr_seen q = pr_seen p" using newFlow_Inr(3) [OF new] by (auto simp: add_control_def reserve_def add_used_def split: if_splits)
  have "shape (q\<lparr>pr_seen := pr_seen p\<rparr>)"
    by (rule newFlow_shape [OF shape_of [OF ok] _ _ _ _ _ _ _ new refl S(1) fresh known]) simp_all
  moreover have "q\<lparr>pr_seen := pr_seen p\<rparr> = q" unfolding seen [symmetric] by simp
  ultimately have "shape q" by simp
  moreover have "accounts none1 none1 none2 0 q \<and> bounded q" using newFlow_accounts [OF _ _ new] ok by (simp add: peer_ok_def)
  ultimately show "peer_ok q" by (intro peer_okI) simp_all
  show "open_fl q a" "fl_id (flow q a) = ?i" using newFlow_Inr [OF new] by (auto simp: open_fl nth_append)
qed

lemma peer_ok_nextID: "peer_ok p \<Longrightarrow> pr_nextID p + 1 \<noteq> 0 \<Longrightarrow> peer_ok (p\<lparr>pr_nextID := pr_nextID p + 1\<rparr>)"
proof -
  assume ok: "peer_ok p" and w: "pr_nextID p + 1 \<noteq> 0"
  have up: "i \<le> pr_nextID p \<Longrightarrow> i \<le> pr_nextID p + 1" for i
    using w by (simp add: word_le_nat_alt unat_next)
  obtain S where "window_rel (pr_seen p) S" "\<forall>i \<in> fst ` set (pr_flows p) \<union> fst ` set (pr_closing p). known_id p S i"
    and rest: "gomap_ok (pr_closing p)" "fst ` set (pr_flows p) \<inter> fst ` set (pr_closing p) = {}"
    using ok unfolding peer_ok_def shape_def ids_ok_def by blast
  then have "window_rel (pr_seen p) S \<and> (\<forall>i \<in> fst ` set (pr_flows p) \<union> fst ` set (pr_closing p). known_id (p\<lparr>pr_nextID := pr_nextID p + 1\<rparr>) S i)"
    using up unfolding known_id_def by simp
  then have "ids_ok (p\<lparr>pr_nextID := pr_nextID p + 1\<rparr>)" using rest unfolding ids_ok_def by (auto intro!: exI [of _ S])
  then show ?thesis using ok by (simp add: peer_ok_def shape_def)
qed

lemma ok_ServeTCP:
  assumes ok: "peer_ok p" and gw: "\<not> pr_server p" "pr_nextID p + 1 \<noteq> 0"
  shows "peer_ok (snd (ServeTCP dest now p))"
proof -
  have "peer_ok (startFlow a (upd_flow a (\<lambda>f. f\<lparr>fl_conn := True\<rparr>) q))"
    if "newFlow (pr_nextID p + 1) dest False now (p\<lparr>pr_nextID := pr_nextID p + 1\<rparr>) = Inr (a, q)" for a q
    using ok_startFlow [of "upd_flow a (\<lambda>f. f\<lparr>fl_conn := True\<rparr>) q"] ok_flow [OF ok_gateway_flow(1) [OF ok gw that]] by (simp add: same_defs)
  then show ?thesis
    using ok peer_ok_nextID [OF ok gw(2)] unfolding ServeTCP_def Let_def by (auto split: option.split sum.split)
qed

lemma ok_queue_datagram:
  assumes ok: "peer_ok p" and a: "open_fl p a"
  shows "peer_ok (snd (queue_datagram a payload now p))"
proof (cases "reserve True True (int (length payload) + segmentOverhead) p")
  case None
  then show ?thesis using ok by (simp add: queue_datagram_def)
next
  case (Some p1)
  let ?cost = "int (length payload) + segmentOverhead"
  define p2 where "p2 = upd_flow a (\<lambda>f. f\<lparr>fl_next := fl_next f + 1, fl_lastActive := now\<rparr>) p1"
  define s where "s = \<lparr>sg_f = control_frame frameUDP (fl_id (flow p2 a)) (fl_next (flow p2 a)) (UnixNano now) payload, sg_cost = ?cost,
                 sg_sending = True, sg_udp = True, sg_owned = True, sg_refs = 0, sg_sentPath = '''', sg_sentAt = 0\<rparr>"
  obtain x p3 where n3: "new_seg s p2 = (x, p3)" by force
  obtain p3' where n1: "new_seg s p1 = (x, p3')" and p3: "p3 = upd_flow a (\<lambda>f. f\<lparr>fl_next := fl_next f + 1, fl_lastActive := now\<rparr>) p3'"
    using n3 by (auto simp: new_seg_def p2_def upd_flow_def)
  let ?h = "\<lambda>f. f\<lparr>fl_next := fl_next f + 1, fl_lastActive := now, fl_pending := fl_pending f @ [x], fl_sendBytes := fl_sendBytes f + ?cost\<rparr>"
  have a3: "a < length (pr_heap p3')" using a Some n1 by (auto simp: open_fl new_seg_def reserve_def add_used_def split: if_splits)
  have "snd (queue_datagram a payload now p) = upd_flow a (\<lambda>f. f\<lparr>fl_pending := fl_pending f @ [x], fl_sendBytes := fl_sendBytes f + ?cost\<rparr>) p3"
    unfolding queue_datagram_def Let_def Some option.case p2_def [symmetric] s_def [symmetric] n3 by simp
  also have "\<dots> = upd_flow a ?h p3'" by (simp add: p3 upd_flow_twice [OF a3] comp_def)
  finally have e: "snd (queue_datagram a payload now p) = upd_flow a ?h p3'" .
  have "cnt (flow_lists (?h (flow p a))) y = cnt (flow_lists (flow p a)) y + (if y = x then 1 else 0)" for y
    by (simp add: flow_lists_def)
  then show ?thesis unfolding e using ok_new_segment(1) [OF ok a Some _ _ _ _ _ n1, of ?h] by (simp add: s_def)
qed

lemma ok_SendUDP:
  assumes ok: "peer_ok p" and gw: "\<not> pr_server p" "pr_nextID p + 1 \<noteq> 0"
  shows "peer_ok (snd (SendUDP key dest payload now p))"
proof -
  have known: "peer_ok (snd (queue_datagram a payload now p))" if "udp_flow key p = Some a" for a
  proof (rule ok_queue_datagram [OF ok])
    show "open_fl p a" using that listed_open [OF ok map_of_SomeD] unfolding udp_flow_def by blast
  qed
  have new: "peer_ok (snd (queue_datagram a payload now (startFlow a (q\<lparr>pr_keys := ks\<rparr>))))"
    if n: "newFlow (pr_nextID p + 1) dest True now (p\<lparr>pr_nextID := pr_nextID p + 1\<rparr>) = Inr (a, q)" for a q ks
  proof (rule ok_queue_datagram)
    note q = ok_gateway_flow [OF ok gw n]
    show "peer_ok (startFlow a (q\<lparr>pr_keys := ks\<rparr>))" using ok_startFlow [of "q\<lparr>pr_keys := ks\<rparr>"] q(1) by simp
    show "open_fl (startFlow a (q\<lparr>pr_keys := ks\<rparr>)) a"
      using ptr_cong(3) [of "startFlow a (q\<lparr>pr_keys := ks\<rparr>)" q a] ok_startFlow [of "q\<lparr>pr_keys := ks\<rparr>" a] q by simp
  qed
  show ?thesis
    unfolding SendUDP_def Let_def using ok known new peer_ok_nextID [OF ok gw(2)]
    by (auto split: option.split sum.split)
qed

lemma ok_CloseUDP: "peer_ok p \<Longrightarrow> peer_ok (CloseUDP key now p)"
proof -
  assume ok: "peer_ok p"
  have "peer_ok (closeFlow a None True now p)" if "udp_flow key p = Some a" for a
    using peer_ok_closeFlow [OF ok] listed_open [OF ok map_of_SomeD, of _ a] that by (auto simp: udp_flow_def open_fl)
  then show ?thesis using ok by (auto simp: CloseUDP_def split: option.split)
qed

lemma ok_SetPreferred: "peer_ok p \<Longrightarrow> peer_ok (snd (SetPreferred name now p))"
  by (simp add: SetPreferred_def Let_def split: option.split)

lemma ok_RemovePath:
  assumes ok: "peer_ok p"
  shows "peer_ok (RemovePath name now p)"
proof -
  have "peer_ok (q\<lparr>pr_paths := AList.delete name (pr_paths q)\<rparr>)" if "peer_ok q" for q
  proof -
    have "ids_ok (q\<lparr>pr_paths := AList.delete name (pr_paths q)\<rparr>) = ids_ok q" by (simp add: ids_ok_def known_id_def)
    then show ?thesis using that by (auto simp: peer_ok_def shape_def paths_ok_def AList.delete_eq)
  qed
  moreover have "peer_ok (fold close_lane cs p)" for cs
    using ok_fold [of cs p close_lane] ok by (simp add: peer_ok_close_lane)
  ultimately show ?thesis using ok by (auto simp: RemovePath_def Let_def split: option.split)
qed

lemma ok_lose_generation: "peer_ok p \<Longrightarrow> peer_ok (lose_generation now p)"
  by (simp add: lose_generation_def ok_close_lanes ok_close_flows)

lemma ok_accept_welcome: "peer_ok p \<Longrightarrow> peer_ok (snd (accept_welcome g n p))"
proof -
  assume ok: "peer_ok p"
  let ?q = "p\<lparr>pr_generation := g, pr_limits := (pr_limits p)\<lparr>lm_FlowBytes := n\<rparr>\<rparr>"
  have "class_limit (pr_limits ?q) = class_limit (pr_limits p)" by (simp add: class_limit_def fun_eq_iff)
  then have "bounded ?q" using ok by (simp add: peer_ok_def bounded_def)
  then have "peer_ok ?q" using ok by (intro peer_ok_same [OF ok]) (simp_all add: peer_ok_def)
  then show ?thesis using ok by (simp add: accept_welcome_def)
qed

end
