(* ===== verification/Peer_Quiet.thy ===== *)
theory Peer_Quiet
  imports Peer_Steps
begin

text \<open>
  What most steps leave alone. Under \<open>quiet p q\<close> the frame of a segment that is still owned in \<open>q\<close>
  is the one it had in \<open>p\<close>, and the receiving side of every flow of \<open>p\<close> is the same in \<open>q\<close>, unless
  the flow was closed.
\<close>

named_theorems quiet_intros \<open>steps that keep the relation\<close>

definition reading_fine :: "logicalFlow \<Rightarrow> bool" where
  "reading_fine f \<longleftrightarrow> (\<forall>sz cost. fl_reading f = Some (sz, cost) \<longrightarrow> cost = int sz + segmentOverhead)"

definition quiet_flow :: "logicalFlow \<Rightarrow> logicalFlow \<Rightarrow> bool" where
  "quiet_flow f g \<longleftrightarrow> (fl_closed f \<longrightarrow> fl_closed g) \<and> fl_id g = fl_id f \<and> fl_udp g = fl_udp f \<and> fl_recv g = fl_recv f \<and>
     fl_ready g = fl_ready f \<and> fl_recvNext g = fl_recvNext f \<and> fl_consumed g = fl_consumed f \<and> fl_writing g = fl_writing f \<and>
     (fl_reading g = fl_reading f \<or> reading_fine g)"

definition fresh_flow :: "logicalFlow \<Rightarrow> bool" where
  "fresh_flow f \<longleftrightarrow> fl_recv f = [] \<and> fl_ready f = [] \<and> fl_recvNext f = 0 \<and> fl_consumed f = 0 \<and> fl_writing f = None \<and> reading_fine f"

definition quiet_segs :: "segment list \<Rightarrow> segment list \<Rightarrow> bool" where
  "quiet_segs xs ys \<longleftrightarrow> length xs \<le> length ys \<and>
     (\<forall>s < length xs. sg_owned (ys ! s) \<longrightarrow> sg_owned (xs ! s) \<and> sg_f (ys ! s) = sg_f (xs ! s))"

definition quiet :: "peer \<Rightarrow> peer \<Rightarrow> bool" where
  "quiet p q \<longleftrightarrow> quiet_segs (pr_segs p) (pr_segs q) \<and> length (pr_heap p) \<le> length (pr_heap q) \<and>
     (\<forall>a < length (pr_heap p). quiet_flow (flow p a) (flow q a)) \<and>
     (\<forall>a. length (pr_heap p) \<le> a \<and> a < length (pr_heap q) \<longrightarrow> fresh_flow (flow q a)) \<and>
     pr_nextID q = pr_nextID p \<and> pr_server q = pr_server p"

lemma quiet_flow_trans: "quiet_flow f g \<Longrightarrow> quiet_flow g h \<Longrightarrow> quiet_flow f h"
  by (auto simp: quiet_flow_def reading_fine_def)

lemma quiet_flow_fresh: "fresh_flow f \<Longrightarrow> quiet_flow f g \<Longrightarrow> fresh_flow g"
  by (auto simp: quiet_flow_def fresh_flow_def reading_fine_def)

lemma quiet_refl [simp]: "quiet p p"
  by (auto simp: quiet_def quiet_segs_def quiet_flow_def)

lemma quiet_trans: "quiet p q \<Longrightarrow> quiet q r \<Longrightarrow> quiet p r"
proof -
  assume pq: "quiet p q" and qr: "quiet q r"
  have "quiet_segs (pr_segs p) (pr_segs r)" using pq qr by (auto simp: quiet_def quiet_segs_def)
  moreover have "quiet_flow (flow p a) (flow r a)" if "a < length (pr_heap p)" for a
    using pq qr that quiet_flow_trans [of "flow p a" "flow q a" "flow r a"] by (auto simp: quiet_def)
  moreover have "fresh_flow (flow r a)" if "length (pr_heap p) \<le> a" "a < length (pr_heap r)" for a
    using pq qr that quiet_flow_fresh [of "flow q a" "flow r a"] by (cases "a < length (pr_heap q)") (auto simp: quiet_def)
  ultimately show ?thesis using pq qr by (auto simp: quiet_def)
qed

text \<open>Only the segments, the flows and the numbering matter.\<close>

lemma quiet_frame: "quiet p q \<Longrightarrow> pr_segs q' = pr_segs q \<Longrightarrow> pr_heap q' = pr_heap q \<Longrightarrow> pr_nextID q' = pr_nextID q \<Longrightarrow> pr_server q' = pr_server q \<Longrightarrow> quiet p q'"
  by (simp add: quiet_def)

lemma quiet_heap: "quiet p q \<Longrightarrow> quiet_segs (pr_segs q) (pr_segs q') \<Longrightarrow> pr_heap q' = pr_heap q \<Longrightarrow> pr_nextID q' = pr_nextID q \<Longrightarrow> pr_server q' = pr_server q \<Longrightarrow> quiet p q'"
  by (rule quiet_trans) (auto simp: quiet_def quiet_flow_def)

lemma quiet_scalar [quiet_intros]:
  assumes "quiet p q"
  shows "quiet p (q\<lparr>pr_limits := x1\<rparr>)" "quiet p (q\<lparr>pr_generation := x2\<rparr>)" "quiet p (q\<lparr>pr_paths := x3\<rparr>)" "quiet p (q\<lparr>pr_preferred := x4\<rparr>)"
    "quiet p (q\<lparr>pr_active := x4\<rparr>)" "quiet p (q\<lparr>pr_flows := x5\<rparr>)" "quiet p (q\<lparr>pr_seen := x6\<rparr>)" "quiet p (q\<lparr>pr_keys := x7\<rparr>)"
    "quiet p (q\<lparr>pr_closing := x8\<rparr>)" "quiet p (q\<lparr>pr_lastCloseRetry := x9\<rparr>)" "quiet p (q\<lparr>pr_lastWindowRefresh := x9\<rparr>)"
    "quiet p (q\<lparr>pr_closed := x11\<rparr>)" "quiet p (q\<lparr>pr_terminalErr := x12\<rparr>)" "quiet p (q\<lparr>pr_lastReady := x9\<rparr>)" "quiet p (q\<lparr>pr_switchedAt := x9\<rparr>)"
    "quiet p (q\<lparr>pr_replayed := x10\<rparr>)" "quiet p (q\<lparr>pr_expired := x10\<rparr>)" "quiet p (q\<lparr>pr_dropped := x10\<rparr>)" "quiet p (q\<lparr>pr_switches := x10\<rparr>)"
    "quiet p (q\<lparr>pr_pause := x13\<rparr>)" "quiet p (q\<lparr>pr_carriers := x14\<rparr>)" "quiet p (add_used d k n q)" "quiet p (add_control n q)" "quiet p (upd_car a h q)"
  by (rule quiet_frame [OF assms]; simp add: add_used_def add_control_def upd_car_def)+

lemma quiet_upd_seg: "quiet p q \<Longrightarrow> (sg_owned (h (seg q s)) \<longrightarrow> sg_owned (seg q s) \<and> sg_f (h (seg q s)) = sg_f (seg q s)) \<Longrightarrow> quiet p (upd_seg s h q)"
proof (erule quiet_heap)
  assume h: "sg_owned (h (seg q s)) \<longrightarrow> sg_owned (seg q s) \<and> sg_f (h (seg q s)) = sg_f (seg q s)"
  have "sg_owned ((pr_segs q)[s := h (seg q s)] ! t) \<longrightarrow> sg_owned (seg q t) \<and> sg_f ((pr_segs q)[s := h (seg q s)] ! t) = sg_f (seg q t)"
    if "t < length (pr_segs q)" for t
    using h that by (cases "t = s") auto
  then show "quiet_segs (pr_segs q) (pr_segs (upd_seg s h q))" by (simp add: quiet_segs_def upd_seg_def)
  show "pr_heap (upd_seg s h q) = pr_heap q" "pr_nextID (upd_seg s h q) = pr_nextID q" "pr_server (upd_seg s h q) = pr_server q" by (simp_all add: upd_seg_def)
qed

lemma quiet_upd_flow: "quiet p q \<Longrightarrow> quiet_flow (flow q a) (h (flow q a)) \<Longrightarrow> quiet p (upd_flow a h q)"
proof -
  assume pq: "quiet p q" and h: "quiet_flow (flow q a) (h (flow q a))"
  have "quiet_flow (flow q b) (flow (upd_flow a h q) b)" if "b < length (pr_heap q)" for b
    using h that by (cases "b = a") (simp_all add: upd_flow_def quiet_flow_def)
  then have "quiet q (upd_flow a h q)" by (auto simp: quiet_def) (simp_all add: upd_flow_def quiet_segs_def)
  then show ?thesis by (rule quiet_trans [OF pq])
qed

lemma quiet_release [quiet_intros]: "quiet p q \<Longrightarrow> quiet p (release s q)"
  unfolding release_def Let_def by (auto intro!: quiet_upd_seg quiet_intros) (simp add: add_used_def)+

lemma quiet_discard [quiet_intros]: "quiet p q \<Longrightarrow> quiet p (discard s q)"
  unfolding discard_def by (intro quiet_intros quiet_upd_seg) simp_all

lemma quiet_add_refs [quiet_intros]: "quiet p q \<Longrightarrow> quiet p (add_refs n s q)"
  unfolding add_refs_def by (cases s) (auto intro!: quiet_upd_seg)

lemma quiet_new_seg: "quiet p q \<Longrightarrow> new_seg x q = (s, q') \<Longrightarrow> quiet p q'"
  by (erule quiet_heap) (auto simp: new_seg_def quiet_segs_def nth_append)

lemma quiet_fold [quiet_intros]: "quiet p q \<Longrightarrow> (\<And>x q. x \<in> set xs \<Longrightarrow> quiet p q \<Longrightarrow> quiet p (h x q)) \<Longrightarrow> quiet p (fold h xs q)"
  by (induction xs arbitrary: q) auto

lemma quiet_selectPath [quiet_intros]: "quiet p q \<Longrightarrow> quiet p (selectPath now q)"
  by (erule quiet_frame) (simp_all add: selectPath_def Let_def)

lemma quiet_carriers [quiet_intros]:
  assumes "quiet p q"
  shows "quiet p (closeCarrier a q)" "quiet p (close_lane l q)" "quiet p (snd (enqueue c f s q))" "quiet p (send c f q)" "quiet p (releaseQueued x q)"
proof -
  show 1: "quiet p (closeCarrier a q)" for a unfolding closeCarrier_def by (intro quiet_intros assms)
  then show "quiet p (close_lane l q)" using assms by (simp add: close_lane_def split: option.split)
  show 2: "quiet p (snd (enqueue c f s q))" for c s
    using assms unfolding enqueue_def Let_def by (auto intro!: quiet_intros split: option.split)
  then show "quiet p (send c f q)" by (simp add: send_def)
  show "quiet p (releaseQueued x q)" unfolding releaseQueued_def Let_def using assms by (auto intro!: quiet_intros split: option.split)
qed
section \<open>Flows and the timer\<close>

lemma quiet_flow_fields [quiet_intros]:
  assumes "quiet p q"
  shows "quiet p (upd_flow a (\<lambda>f. f\<lparr>fl_ackDirty := b\<rparr>) q)" "quiet p (upd_flow a (\<lambda>f. f\<lparr>fl_lastActive := t\<rparr>) q)"
    "quiet p (upd_flow a (\<lambda>f. f\<lparr>fl_window := w\<rparr>) q)" "quiet p (upd_flow a (\<lambda>f. f\<lparr>fl_acked := w\<rparr>) q)"
    "quiet p (upd_flow a (\<lambda>f. f\<lparr>fl_sendBytes := n f\<rparr>) q)" "quiet p (upd_flow a (\<lambda>f. f\<lparr>fl_pending := ss\<rparr>) q)"
    "quiet p (upd_flow a (\<lambda>f. f\<lparr>fl_recvFIN := b, fl_finOffset := w\<rparr>) q)" "quiet p (upd_flow a (\<lambda>f. f\<lparr>fl_finACK := b\<rparr>) q)"
    "quiet p (upd_flow a (\<lambda>f. f\<lparr>fl_opening := b\<rparr>) q)" "quiet p (upd_flow a (\<lambda>f. f\<lparr>fl_opened := b, fl_window := w\<rparr>) q)"
    "quiet p (upd_flow a (\<lambda>f. f\<lparr>fl_conn := b\<rparr>) q)" "quiet p (upd_flow a (\<lambda>f. f\<lparr>fl_reader := b\<rparr>) q)" "quiet p (upd_flow a (\<lambda>f. f\<lparr>fl_writer := b\<rparr>) q)"
    "quiet p (upd_flow a (\<lambda>f. f\<lparr>fl_readEOF := b\<rparr>) q)" "quiet p (upd_flow a (\<lambda>f. f\<lparr>fl_finApplied := b\<rparr>) q)"
    "quiet p (upd_flow a (\<lambda>f. f\<lparr>fl_writer := b, fl_reader := fl_conn f\<rparr>) q)"
    "quiet p (upd_flow a (\<lambda>f. f\<lparr>fl_conn := b, fl_opening := c, fl_opened := d, fl_window := w\<rparr>) q)"
    "quiet p (upd_flow a (\<lambda>f. f\<lparr>fl_reading := None\<rparr>) q)"
    "quiet p (upd_flow a (\<lambda>f. f\<lparr>fl_closed := True, fl_err := e\<rparr>) q)"
  by (rule quiet_upd_flow [OF assms]; simp add: quiet_flow_def reading_fine_def)+

lemma quiet_closeFlow [quiet_intros]: "quiet p q \<Longrightarrow> quiet p (closeFlow a err notify now q)"
  unfolding closeFlow_def Let_def by (auto intro!: quiet_intros)

lemma quiet_acknowledge [quiet_intros]: "quiet p q \<Longrightarrow> quiet p (acknowledge c a q)"
  unfolding acknowledge_def Let_def case_prod_beta by (intro quiet_intros)

lemma quiet_progress [quiet_intros]: "quiet p q \<Longrightarrow> quiet p (progress a now q)" "quiet p q \<Longrightarrow> quiet p (dataProgress c b now q)"
proof -
  show 1: "quiet p q \<Longrightarrow> quiet p (progress a now q)" for a unfolding progress_def Let_def by (auto intro!: quiet_intros)
  show "quiet p q \<Longrightarrow> quiet p (dataProgress c b now q)" unfolding dataProgress_def by (auto intro!: 1 split: option.split)
qed

lemma quiet_sweep: "quiet p q \<Longrightarrow> quiet p (snd (sweep P a ss q))"
proof (induction ss arbitrary: q)
  case (Cons s ss)
  then show ?case by (auto simp: case_prod_beta intro!: Cons.IH quiet_intros)
qed simp

lemma quiet_sweep_pending [quiet_intros]: "quiet p q \<Longrightarrow> quiet p (sweep_pending P a q)"
  unfolding sweep_pending_def case_prod_beta by (intro quiet_intros quiet_sweep)

lemma quiet_tick_parts [quiet_intros]:
  assumes "quiet p q"
  shows "quiet p (tick_ping now a q)" "quiet p (tick_carrier now l q)" "quiet p (tick_closing now e q)" "quiet p (clear_idle l q)"
    "quiet p (mark_sent now c s again q)"
proof -
  have 1: "quiet p (tick_ping now a r)" if "quiet p r" for a r
    using that unfolding tick_ping_def Let_def case_prod_beta by (auto intro!: quiet_intros)
  show "quiet p (tick_ping now a q)" using assms by (rule 1)
  show "quiet p (tick_carrier now l q)" using assms unfolding tick_carrier_def Let_def by (auto intro!: 1 quiet_intros split: option.split)
  show "quiet p (tick_closing now e q)" using assms unfolding tick_closing_def case_prod_beta by (auto intro!: quiet_intros)
  show "quiet p (clear_idle l q)" using assms unfolding clear_idle_def by (auto intro!: quiet_intros split: option.split)
  show "quiet p (mark_sent now c s again q)" using assms unfolding mark_sent_def Let_def
    by (auto intro!: quiet_intros quiet_upd_seg split: option.split)
qed

lemma quiet_tick_send [quiet_intros]: "quiet p q \<Longrightarrow> quiet p (tick_send now c a ss q)"
proof (induction ss arbitrary: q)
  case (Cons s ss)
  then show ?case unfolding tick_send_Cons Let_def by (auto intro!: quiet_intros Cons.IH)
qed simp

lemma quiet_tick_expire [quiet_intros]: "quiet p q \<Longrightarrow> quiet p (tick_expire now a q)"
  unfolding tick_expire_def Let_def by (intro quiet_intros) auto

lemma quiet_tick_active [quiet_intros]: "quiet p q \<Longrightarrow> quiet p (tick_active now a q)"
  unfolding tick_active_def Let_def by (auto intro!: quiet_intros)

lemma quiet_tick_flow [quiet_intros]: "quiet p q \<Longrightarrow> quiet p (tick_flow now r a q)"
  unfolding tick_flow_def Let_def by (auto intro!: quiet_intros)

lemma quiet_tick_retry [quiet_intros]: "quiet p q \<Longrightarrow> quiet p (tick_retry now q)"
  unfolding tick_retry_def by (auto intro!: quiet_intros)

lemma quiet_tick: "quiet p q \<Longrightarrow> quiet p (tick now q)"
  unfolding tick_def Let_def by (auto intro!: quiet_intros)

section \<open>Received frames and endpoints\<close>

lemma quiet_newFlow:
  assumes "quiet p q" and new: "newFlow i dest udp now q = Inr (a, r)"
  shows "quiet p r"
proof -
  have "pr_segs r = pr_segs q" "pr_heap r = pr_heap q @ [new_flow i dest udp now]" "pr_nextID r = pr_nextID q" "pr_server r = pr_server q"
    using newFlow_Inr(3) [OF new] by (auto simp: add_control_def reserve_def add_used_def split: if_splits)
  moreover have "fresh_flow (new_flow i dest udp now)" by (simp add: fresh_flow_def new_flow_def reading_fine_def)
  ultimately have "quiet q r" by (auto simp: quiet_def quiet_segs_def quiet_flow_def nth_append)
  then show ?thesis by (rule quiet_trans [OF assms(1)])
qed

lemma quiet_handle_parts [quiet_intros]:
  assumes "quiet p q"
  shows "quiet p (handle_select c m now q)" "quiet p (handle_closed m q)" "quiet p (handle_pong c m now q)" "quiet p (handle_open c m now q)"
    "quiet p (handle_ack c a m now q)" "quiet p (handle_fin c a m now q)" "quiet p (handle_udpack c a m now q)"
proof -
  show "quiet p (handle_select c m now q)" using assms unfolding handle_select_def Let_def by (auto intro!: quiet_intros)
  show "quiet p (handle_closed m q)" using assms unfolding handle_closed_def by (auto intro!: quiet_intros split: option.split)
  show "quiet p (handle_pong c m now q)" using assms unfolding handle_pong_def Let_def by (auto intro!: quiet_intros)
  show "quiet p (handle_open c m now q)" using assms unfolding handle_open_def
    by (auto intro!: quiet_intros split: option.split sum.split intro: quiet_newFlow)
  show "quiet p (handle_ack c a m now q)" using assms unfolding handle_ack_def Let_def by (auto intro!: quiet_intros)
  show "quiet p (handle_fin c a m now q)" using assms unfolding handle_fin_def Let_def by (auto intro!: quiet_intros)
  show "quiet p (handle_udpack c a m now q)" using assms unfolding handle_udpack_def Let_def by (auto intro!: quiet_intros)
qed

lemma quiet_reserve: "quiet p q \<Longrightarrow> reserve d k n q = Some r \<Longrightarrow> quiet p r"
  by (auto simp: reserve_def intro!: quiet_intros split: if_splits)

lemma quiet_readEndpoint_begin: "quiet p q \<Longrightarrow> quiet p (readEndpoint_begin a q)"
  unfolding readEndpoint_begin_def Let_def
  by (auto intro!: quiet_intros quiet_upd_flow split: option.split intro: quiet_reserve)
    (auto simp: quiet_flow_def reading_fine_def)

lemma quiet_queue_read: "quiet p q \<Longrightarrow> quiet p (queue_read a data cost now q)"
  unfolding queue_read_def Let_def case_prod_beta
  by (intro quiet_upd_flow quiet_new_seg [OF _ prod.collapse [symmetric]] quiet_intros) (auto simp: quiet_flow_def)

lemma quiet_readEndpoint_end: "quiet p q \<Longrightarrow> quiet p (readEndpoint_end a data err now q)"
  unfolding readEndpoint_end_def Let_def case_prod_beta by (auto intro!: quiet_intros quiet_queue_read split: option.split)

lemma quiet_endpoint [quiet_intros]:
  assumes "quiet p q"
  shows "quiet p (startFlow a q)" "quiet p (openTarget a w now q)" "quiet p (finish_writer a now q)"
proof -
  have 1: "quiet p (startFlow a r)" if "quiet p r" for r using that unfolding startFlow_def by (intro quiet_intros)
  show "quiet p (startFlow a q)" by (rule 1 [OF assms])
  show "quiet p (openTarget a w now q)" using assms unfolding openTarget_def Let_def by (auto intro!: 1 quiet_intros)
  show "quiet p (finish_writer a now q)" using assms unfolding finish_writer_def Let_def by (auto intro!: quiet_intros)
qed

lemma quiet_writeLoop [quiet_intros]:
  assumes "quiet p q"
  shows "quiet p (writeLoop_take d a q)" "quiet p (writeLoop_done a w now q)" "quiet p (writeLoop_exit a q)" "quiet p (readLoop_fail a now q)"
proof -
  show "quiet p (writeLoop_take d a q)" using assms unfolding writeLoop_take_def Let_def by (auto intro!: quiet_intros split: list.split)
  show "quiet p (writeLoop_done a w now q)" using assms unfolding writeLoop_done_def Let_def by (auto intro!: quiet_intros split: option.split)
  show "quiet p (writeLoop_exit a q)" using assms unfolding writeLoop_exit_def Let_def by (auto intro!: quiet_intros)
  show "quiet p (readLoop_fail a now q)" using assms unfolding readLoop_fail_def by (auto intro!: quiet_intros)
qed

lemma quiet_addCarrier: "quiet p q \<Longrightarrow> quiet p (snd (addCarrier path lane rtt now q))"
  unfolding addCarrier_def attach_carrier_def Let_def by (auto intro!: quiet_intros)

lemma quiet_closing [quiet_intros]:
  assumes "quiet p q"
  shows "quiet p (close_flows e now q)" "quiet p (close_lanes q)" "quiet p (close_peer now q)" "quiet p (lose_generation now q)"
proof -
  have 1: "quiet p (close_flows e now r)" if "quiet p r" for e r using that unfolding close_flows_def by (intro quiet_intros)
  have 2: "quiet p (close_lanes r)" if "quiet p r" for r using that unfolding close_lanes_def by (intro quiet_intros)
  show "quiet p (close_flows e now q)" "quiet p (close_lanes q)" using 1 2 assms by blast+
  show "quiet p (close_peer now q)" using assms unfolding close_peer_def Let_def by (auto intro!: 1 2 quiet_intros)
  show "quiet p (lose_generation now q)" using assms unfolding lose_generation_def by (auto intro!: 1 2 quiet_intros)
qed

lemma quiet_queue_datagram: "quiet p q \<Longrightarrow> quiet p (snd (queue_datagram a payload now q))"
proof (cases "reserve True True (int (length payload) + segmentOverhead) q")
  case (Some r)
  assume "quiet p q"
  then have "quiet p r" using Some by (rule quiet_reserve)
  then show ?thesis
    unfolding queue_datagram_def Let_def Some option.case case_prod_beta snd_conv
    by (intro quiet_upd_flow quiet_new_seg [OF _ prod.collapse [symmetric]]) (auto simp: quiet_flow_def)
qed (auto simp: queue_datagram_def intro!: quiet_intros)

lemma quiet_gateway [quiet_intros]:
  assumes "quiet p q"
  shows "quiet p (CloseUDP key now q)" "quiet p (snd (SetPreferred name now q))" "quiet p (RemovePath name now q)" "quiet p (snd (accept_welcome g n q))"
proof -
  show "quiet p (CloseUDP key now q)" using assms unfolding CloseUDP_def by (auto intro!: quiet_intros split: option.split)
  show "quiet p (snd (SetPreferred name now q))" using assms unfolding SetPreferred_def Let_def by (auto intro!: quiet_intros split: option.split)
  show "quiet p (RemovePath name now q)" using assms unfolding RemovePath_def Let_def by (auto intro!: quiet_intros split: option.split)
  show "quiet p (snd (accept_welcome g n q))" using assms unfolding accept_welcome_def by (auto intro!: quiet_intros)
qed

text \<open>Opening a flow on the gateway takes the next number, or nothing happens.\<close>

definition numbered :: "peer \<Rightarrow> peer" where
  "numbered p = p\<lparr>pr_nextID := pr_nextID p + 1\<rparr>"

lemma quiet_ServeTCP: "quiet p (snd (ServeTCP dest now p)) \<or> quiet (numbered p) (snd (ServeTCP dest now p))"
proof -
  have "quiet (numbered p) (startFlow a (upd_flow a (\<lambda>f. f\<lparr>fl_conn := True\<rparr>) q))"
    if "newFlow i dest False now (numbered p) = Inr (a, q)" for i a q
    using quiet_newFlow [OF quiet_refl that] by (intro quiet_intros)
  then show ?thesis unfolding ServeTCP_def Let_def numbered_def [symmetric] by (auto split: option.split sum.split)
qed

lemma quiet_SendUDP: "quiet p (snd (SendUDP key dest payload now p)) \<or> quiet (numbered p) (snd (SendUDP key dest payload now p))"
proof -
  have "quiet (numbered p) (snd (queue_datagram a payload now (startFlow a (q\<lparr>pr_keys := ks\<rparr>))))"
    if "newFlow i dest True now (numbered p) = Inr (a, q)" for i a q ks
    using quiet_newFlow [OF quiet_refl that] by (intro quiet_queue_datagram quiet_intros)
  then show ?thesis
    unfolding SendUDP_def Let_def numbered_def [symmetric] by (auto simp: quiet_queue_datagram split: option.split sum.split)
qed

end
