(* ===== verification/Peer_Receive.thy ===== *)
theory Peer_Receive
  imports Peer_Quiet
begin

text \<open>
  The receiving side of a flow. The relation \<open>receives\<close> is an abstract receiver: the five ways in which
  a critical section changes what a flow has received, with every other field left alone. Each
  step of a peer is either quiet or one step of the abstract receiver on one flow followed by
  quiet changes. The locale \<open>flow_property\<close> carries properties of single flows along quiet changes.
\<close>

section \<open>The abstract receiver\<close>

definition trim_frame :: "logicalFlow \<Rightarrow> frame \<Rightarrow> frame" where
  "trim_frame f m = (if f_offset m < fl_recvNext f
     then m\<lparr>f_data := drop (unat (fl_recvNext f - f_offset m)) (f_data m), f_offset := fl_recvNext f\<rparr> else m)"

lemma trim_frame_lastActive [simp]: "trim_frame (f\<lparr>fl_lastActive := t\<rparr>) m = trim_frame f m"
  by (simp add: trim_frame_def)

abbreviation frame_of :: "segment list \<Rightarrow> nat \<Rightarrow> frame" where "frame_of segs s \<equiv> sg_f (segs ! s)"

inductive receives :: "event \<Rightarrow> segment list \<Rightarrow> logicalFlow \<Rightarrow> segment list \<Rightarrow> logicalFlow \<Rightarrow> bool" for e segs f where
  Accept: "e = Handle c m now \<Longrightarrow> f_kind m = frameData \<Longrightarrow> f_flow m = fl_id f \<Longrightarrow> \<not> fl_closed f \<Longrightarrow> \<not> fl_udp f \<Longrightarrow>
    f_data m \<noteq> [] \<Longrightarrow> unat (f_offset m) + length (f_data m) < 2 ^ 64 \<Longrightarrow> \<not> frame_end m \<le> fl_recvNext f \<Longrightarrow>
    recv_clash segs (f_offset (trim_frame f m)) (f_data (trim_frame f m)) (fl_recv f) = Fresh \<Longrightarrow> sg_f s = trim_frame f m \<Longrightarrow>
    drain_recv (segs @ [s]) (AList.update (f_offset (trim_frame f m)) (length segs) (fl_recv f)) (fl_recvNext f) (fl_ready f) = (rv, nx, rd) \<Longrightarrow>
    receives e segs f (segs @ [s]) (f\<lparr>fl_recv := rv, fl_ready := rd, fl_recvNext := nx\<rparr>)"
| Datagram: "fl_udp f \<Longrightarrow> \<not> fl_closed f \<Longrightarrow> receives e segs f (segs @ [s]) (f\<lparr>fl_ready := fl_ready f @ [length segs]\<rparr>)"
| Begin: "e = Deliver_begin a now \<Longrightarrow> fl_writing f = None \<Longrightarrow> \<not> fl_closed f \<Longrightarrow> fl_ready f = s # rest \<Longrightarrow>
    receives e segs f segs (f\<lparr>fl_writing := Some s\<rparr>)"
| Finish: "fl_writing f = Some s \<Longrightarrow> \<not> fl_closed f \<Longrightarrow>
    receives e segs f segs (f\<lparr>fl_ready := tl (fl_ready f), fl_consumed := fl_consumed f + word_of_nat (length (f_data (frame_of segs s))), fl_writing := None\<rparr>)"
| Abandon: "fl_closed f \<Longrightarrow> receives e segs f segs (f\<lparr>fl_writing := None\<rparr>)"

inductive_cases receivesE: "receives e segs f segs' f'"

definition rewrite_flow :: "nat \<Rightarrow> segment list \<Rightarrow> logicalFlow \<Rightarrow> peer \<Rightarrow> peer" where
  "rewrite_flow a segs f p = p\<lparr>pr_segs := segs, pr_heap := (pr_heap p)[a := f]\<rparr>"

definition receives_at :: "event \<Rightarrow> nat \<Rightarrow> peer \<Rightarrow> peer \<Rightarrow> bool" where
  "receives_at e a p q \<longleftrightarrow> a < length (pr_heap p) \<and> (\<exists>segs f. receives e (pr_segs p) (flow p a) segs f \<and> quiet (rewrite_flow a segs f p) q)"

text \<open>A step of a peer, seen from the receiving side: the address is that of the flow that received something.\<close>

lemma quiet_rewrite:
  assumes "pr_segs q = segs" and "pr_heap q = (pr_heap p)[a := g]" and "quiet_flow f g" and "pr_nextID q = pr_nextID p" and "pr_server q = pr_server p"
  shows "quiet (rewrite_flow a segs f p) q"
proof -
  have "quiet_flow ((pr_heap p)[a := f] ! b) ((pr_heap p)[a := g] ! b)" if "b < length (pr_heap p)" for b
    using that assms(3) by (cases "b = a") (simp_all add: quiet_flow_def)
  then show ?thesis using assms by (auto simp: quiet_def rewrite_flow_def quiet_segs_def)
qed

section \<open>Steps of a peer as steps of the receiver\<close>

lemma handle_data_cases:
  obtains "quiet p (handle_data c a m now p)"
  | cost p1 where "reserve False False cost p = Some p1" "handle_data c a m now p = acknowledge (Some c) a (accept_data a (trim_frame (flow p a) m) cost p1)"
    "\<not> fl_udp (flow p a)" "f_data m \<noteq> []" "unat (f_offset m) + length (f_data m) < 2 ^ 64" "\<not> frame_end m \<le> fl_recvNext (flow p a)"
    "recv_clash (pr_segs p) (f_offset (trim_frame (flow p a) m)) (f_data (trim_frame (flow p a) m)) (fl_recv (flow p a)) = Fresh"
proof -
  let ?m = "trim_frame (flow p a) m"
  have fresh: "quiet p (handle_fresh c a x now p) \<or> (\<exists>cost p1. reserve False False cost p = Some p1 \<and> handle_fresh c a x now p = acknowledge (Some c) a (accept_data a x cost p1) \<and>
      recv_clash (pr_segs p) (f_offset x) (f_data x) (fl_recv (flow p a)) = Fresh)" for x
    unfolding handle_fresh_def Let_def by (auto intro!: quiet_intros split: clash.split option.split)
  show thesis
  proof (cases "fl_udp (flow p a) \<or> \<not> fl_opened (flow p a) \<or> f_data m = [] \<or> length (f_data m) > chunkSize \<or> f_offset m > NOT 0 - word_of_nat (length (f_data m)) \<or>
    fl_recvFIN (flow p a) \<and> frame_end m > fl_finOffset (flow p a) \<or> frame_end m \<le> fl_recvNext (flow p a)")
    case True
    then have "quiet p (handle_data c a m now p)" unfolding handle_data_def Let_def by (auto intro!: quiet_intros)
    then show thesis by (rule that(1))
  next
    case False
    then have m: "\<not> fl_udp (flow p a)" "f_data m \<noteq> []" "unat (f_offset m) + length (f_data m) < 2 ^ 64" "\<not> frame_end m \<le> fl_recvNext (flow p a)" using no_wrap by auto
    have e: "handle_data c a m now p = handle_fresh c a ?m now p"
      using False by (auto simp: handle_data_def trim_frame_def Let_def)
    show thesis using fresh [of ?m] that(1) that(2) m unfolding e by blast
  qed
qed

lemma reserve_fields: "reserve d k n p = Some q \<Longrightarrow> pr_segs q = pr_segs p \<and> pr_heap q = pr_heap p \<and> pr_nextID q = pr_nextID p \<and> pr_server q = pr_server p"
  by (auto simp: reserve_def add_used_def split: if_splits)

lemma receives_data:
  assumes a: "open_fl p0 a" and p: "p = upd_flow a (\<lambda>f. f\<lparr>fl_lastActive := now\<rparr>) p0" and m: "f_kind m = frameData" "f_flow m = fl_id (flow p0 a)"
  shows "quiet p0 (handle_data c a m now p) \<or> receives_at (Handle c m now) a p0 (handle_data c a m now p)"
proof -
  let ?f = "flow p0 a"
  have fa: "flow p a = ?f\<lparr>fl_lastActive := now\<rparr>" and segs: "pr_segs p = pr_segs p0" using a by (simp_all add: p upd_flow_def open_fl)
  have trim: "trim_frame (flow p a) m = trim_frame ?f m" by (simp add: fa)
  show ?thesis
  proof (cases rule: handle_data_cases [of p c a m now])
    case 1
    have "quiet p0 p" unfolding p by (intro quiet_intros quiet_refl)
    then show ?thesis using 1 quiet_trans by blast
  next
    case (2 cost p1)
    note r = reserve_fields [OF 2(1)]
    let ?x = "trim_frame ?f m"
    let ?s = "\<lparr>sg_f = ?x, sg_cost = cost, sg_sending = False, sg_udp = False, sg_owned = True, sg_refs = 0, sg_sentPath = [], sg_sentAt = 0\<rparr>"
    let ?segs = "pr_segs p0 @ [?s]"
    obtain rv nx rd where d: "drain_recv ?segs (AList.update (f_offset ?x) (length (pr_segs p0)) (fl_recv ?f)) (fl_recvNext ?f) (fl_ready ?f) = (rv, nx, rd)"
      by (metis prod_cases3)
    let ?g = "?f\<lparr>fl_recv := rv, fl_ready := rd, fl_recvNext := nx\<rparr>"
    have "receives (Handle c m now) (pr_segs p0) ?f ?segs ?g"
      by (rule Accept) (use 2 m a d in \<open>simp_all add: fa segs trim open_fl\<close>)
    moreover have "quiet (rewrite_flow a ?segs ?g p0) (accept_data a ?x cost p1)"
      by (rule quiet_rewrite [where g = "?f\<lparr>fl_lastActive := now, fl_recv := rv, fl_recvBytes := fl_recvBytes ?f + cost, fl_recvNext := nx, fl_ready := rd\<rparr>"])
        (use a r in \<open>simp_all add: accept_data_def new_seg_def upd_flow_def p d fa segs quiet_flow_def open_fl\<close>)
    then have "quiet (rewrite_flow a ?segs ?g p0) (handle_data c a m now p)" unfolding 2(2) trim by (rule quiet_acknowledge)
    ultimately show ?thesis using a by (auto simp: receives_at_def open_fl)
  qed
qed

lemma receives_udp:
  assumes a: "open_fl p0 a" and p: "p = upd_flow a (\<lambda>f. f\<lparr>fl_lastActive := now\<rparr>) p0"
  shows "quiet p0 (handle_udp c a m now p) \<or> receives_at e a p0 (handle_udp c a m now p)"
proof -
  let ?f = "flow p0 a" and ?cost = "int (length (f_data m)) + segmentOverhead"
  have fa: "flow p a = ?f\<lparr>fl_lastActive := now\<rparr>" and segs: "pr_segs p = pr_segs p0" using a by (simp_all add: p upd_flow_def open_fl)
  have p0: "quiet p0 p" unfolding p by (intro quiet_intros quiet_refl)
  show ?thesis
  proof (cases "\<not> fl_udp (flow p a) \<or> \<not> fl_opened (flow p a) \<or> length (f_data m) > maxPayload \<or> contains (fl_seen (flow p a)) (f_offset m) \<or> reserve False True ?cost p = None")
    case True
    then have "quiet p0 (handle_udp c a m now p)" using p0 unfolding handle_udp_def Let_def by (auto intro!: quiet_intros split: option.split)
    then show ?thesis ..
  next
    case False
    then obtain p1 where r: "reserve False True ?cost p = Some p1" by auto
    note fields = reserve_fields [OF r]
    let ?s = "\<lparr>sg_f = m, sg_cost = ?cost, sg_sending = False, sg_udp = True, sg_owned = True, sg_refs = 0, sg_sentPath = [], sg_sentAt = 0\<rparr>"
    define p3 where "p3 = upd_flow a (\<lambda>f. f\<lparr>fl_seen := add (fl_seen f) (f_offset m), fl_ready := fl_ready f @ [length (pr_segs p1)],
                       fl_recvBytes := fl_recvBytes f + ?cost\<rparr>) (p1\<lparr>pr_segs := pr_segs p1 @ [?s]\<rparr>)"
    have q: "handle_udp c a m now p = send (controlCarrier p3 (Some c)) (control_frame frameUDPACK (fl_id (flow p a)) (f_offset m) 0 []) p3"
      using False by (simp add: handle_udp_def Let_def r new_seg_def p3_def)
    let ?g = "?f\<lparr>fl_ready := fl_ready ?f @ [length (pr_segs p0)]\<rparr>"
    have "receives e (pr_segs p0) ?f (pr_segs p0 @ [?s]) ?g" by (rule Datagram) (use False a in \<open>simp_all add: fa open_fl\<close>)
    moreover have "quiet (rewrite_flow a (pr_segs p0 @ [?s]) ?g p0) p3"
      by (rule quiet_rewrite [where g = "?f\<lparr>fl_lastActive := now, fl_seen := add (fl_seen ?f) (f_offset m), fl_ready := fl_ready ?f @ [length (pr_segs p0)], fl_recvBytes := fl_recvBytes ?f + ?cost\<rparr>"])
        (use a fields in \<open>simp_all add: p3_def upd_flow_def p quiet_flow_def open_fl\<close>)
    then have "quiet (rewrite_flow a (pr_segs p0 @ [?s]) ?g p0) (handle_udp c a m now p)" unfolding q by (intro quiet_intros)
    ultimately show ?thesis using a by (auto simp: receives_at_def open_fl)
  qed
qed

lemma receives_handle:
  assumes ok: "peer_ok p"
  shows "quiet p (handle c m now p) \<or> (\<exists>a. receives_at (Handle c m now) a p (handle c m now p))"
proof (cases "\<not> pr_closed p \<and> \<not> c_closed (car p c) \<and> (f_kind m = frameData \<or> f_kind m = frameUDP) \<and> map_of (pr_flows p) (f_flow m) \<noteq> None")
  case False
  have "quiet p (handle_flow c a m now p)" if "f_kind m \<noteq> frameData" "f_kind m \<noteq> frameUDP" for a
    using that unfolding handle_flow_def Let_def by (auto intro!: quiet_intros)
  then have "quiet p (handle c m now p)" using False unfolding handle_def Let_def by (auto intro!: quiet_intros split: option.split)
  then show ?thesis ..
next
  case True
  then obtain a where m: "map_of (pr_flows p) (f_flow m) = Some a" by auto
  have a: "open_fl p a" using listed_open [OF ok map_of_SomeD [OF m]] .
  have i: "f_flow m = fl_id (flow p a)" using ok map_of_SomeD [OF m] by (fastforce simp: peer_ok_def shape_def flows_ok_def)
  define p1 where "p1 = upd_flow a (\<lambda>f. f\<lparr>fl_lastActive := now\<rparr>) p"
  have h: "handle c m now p = (if f_kind m = frameData then handle_data c a m now p1 else handle_udp c a m now p1)"
    using True m by (auto simp: handle_def handle_flow_def Let_def p1_def frame_kind_defs)
  show ?thesis using receives_data [OF a p1_def _ i, of c] receives_udp [OF a p1_def, of c m "Handle c m now"] unfolding h by auto
qed

lemma receives_begin:
  assumes a: "a < length (pr_heap p)"
  shows "quiet p (writeEndpoint_begin a now p) \<or> receives_at (Deliver_begin a now) a p (writeEndpoint_begin a now p)"
proof (cases "fl_writer (flow p a) \<and> fl_writing (flow p a) = None \<and> \<not> fl_closed (flow p a) \<and> \<not> pr_closed p \<and> fl_ready (flow p a) \<noteq> []")
  case False
  then have "quiet p (writeEndpoint_begin a now p)" unfolding writeEndpoint_begin_def Let_def by (auto intro!: quiet_intros split: list.split)
  then show ?thesis ..
next
  case True
  then obtain s rest where r: "fl_ready (flow p a) = s # rest" by (cases "fl_ready (flow p a)") auto
  let ?g = "(flow p a)\<lparr>fl_writing := Some s\<rparr>"
  have "receives (Deliver_begin a now) (pr_segs p) (flow p a) (pr_segs p) ?g" by (rule Begin [OF refl]) (use True r in simp_all)
  moreover have "quiet (rewrite_flow a (pr_segs p) ?g p) (add_refs 1 (Some s) (upd_flow a (\<lambda>f. f\<lparr>fl_writing := Some s\<rparr>) p))"
    by (intro quiet_intros quiet_rewrite [where g = ?g]) (simp_all add: upd_flow_def quiet_flow_def)
  ultimately show ?thesis using a True r by (auto simp: receives_at_def writeEndpoint_begin_def)
qed

lemma receives_end:
  assumes a: "a < length (pr_heap p)"
  shows "quiet p (writeEndpoint_end a err now p) \<or> receives_at e a p (writeEndpoint_end a err now p)"
proof (cases "fl_writing (flow p a)")
  case (Some s)
  define p1 where "p1 = add_refs (- 1) (Some s) (upd_flow a (\<lambda>f. f\<lparr>fl_writing := None\<rparr>) p)"
  have f1: "flow p1 a = (flow p a)\<lparr>fl_writing := None\<rparr>" using a by (simp add: p1_def add_refs_def upd_seg_def upd_flow_def)
  have q: "quiet (rewrite_flow a (pr_segs p) ((flow p a)\<lparr>fl_writing := None\<rparr>) p) p1"
    unfolding p1_def by (intro quiet_intros quiet_rewrite [where g = "(flow p a)\<lparr>fl_writing := None\<rparr>"]) (simp_all add: upd_flow_def quiet_flow_def)
  show ?thesis
  proof (cases "fl_closed (flow p a)")
    case True
    then have "quiet (rewrite_flow a (pr_segs p) ((flow p a)\<lparr>fl_writing := None\<rparr>) p) (writeEndpoint_end a err now p)"
      using q unfolding writeEndpoint_end_def Let_def Some option.case p1_def [symmetric] f1 by (auto intro!: quiet_intros)
    then show ?thesis using Abandon [of "flow p a" e "pr_segs p"] True a by (auto simp: receives_at_def)
  next
    case False
    have len: "f_data (sg_f (seg p1 s)) = f_data (sg_f (seg p s))"
      by (cases "s < length (pr_segs p)") (simp_all add: p1_def add_refs_def upd_seg_def upd_flow_def list_update_beyond)
    let ?g = "(flow p a)\<lparr>fl_ready := tl (fl_ready (flow p a)), fl_consumed := fl_consumed (flow p a) + word_of_nat (length (f_data (frame_of (pr_segs p) s))), fl_writing := None\<rparr>"
    define p2 where "p2 = upd_flow a (\<lambda>f. f\<lparr>fl_ready := tl (fl_ready f), fl_recvBytes := fl_recvBytes f - sg_cost (seg p1 s),
                     fl_consumed := fl_consumed f + word_of_nat (length (f_data (sg_f (seg p1 s))))\<rparr>) p1"
    have "p2 = add_refs (- 1) (Some s) (upd_flow a (\<lambda>f. f\<lparr>fl_writing := None, fl_ready := tl (fl_ready f), fl_recvBytes := fl_recvBytes f - sg_cost (seg p1 s),
                     fl_consumed := fl_consumed f + word_of_nat (length (f_data (sg_f (seg p s))))\<rparr>) p)"
      unfolding p2_def len using a by (simp add: p1_def add_refs_def upd_seg_def upd_flow_def)
    moreover have "quiet (rewrite_flow a (pr_segs p) ?g p) (upd_flow a (\<lambda>f. f\<lparr>fl_writing := None, fl_ready := tl (fl_ready f), fl_recvBytes := fl_recvBytes f - sg_cost (seg p1 s),
                     fl_consumed := fl_consumed f + word_of_nat (length (f_data (sg_f (seg p s))))\<rparr>) p)"
      unfolding upd_flow_def by (rule quiet_rewrite, simp, simp) (simp_all add: quiet_flow_def)
    ultimately have q2: "quiet (rewrite_flow a (pr_segs p) ?g p) p2" by (simp only: quiet_add_refs)
    have "quiet (rewrite_flow a (pr_segs p) ?g p) (writeEndpoint_end a err now p)"
      using q2 False unfolding writeEndpoint_end_def Let_def Some option.case p1_def [symmetric] p2_def [symmetric] f1 by (auto intro!: quiet_intros)
    then show ?thesis using Finish [OF Some False] a by (auto simp: receives_at_def)
  qed
qed (simp add: writeEndpoint_end_def)

lemma step_receives:
  assumes ok: "peer_ok p"
  shows "quiet p (peer_step e p) \<or> quiet (numbered p) (peer_step e p) \<and> \<not> pr_server p \<or> (\<exists>a. receives_at e a p (peer_step e p))"
proof (cases e)
  case (Handle c m now)
  then show ?thesis using receives_handle [OF ok, of c m now] by (auto simp: at_carrier_def)
next
  case (Deliver_begin a now)
  then show ?thesis using receives_begin [of a p now] by (auto simp: at_flow_def)
next
  case (Deliver_end a err now)
  then show ?thesis using receives_end [of a p err now e] by (auto simp: at_flow_def)
next
  case (Serve_TCP dest now)
  then show ?thesis using quiet_ServeTCP [of p dest now] by (auto simp: on_gateway_def)
next
  case (Send_UDP key dest payload now)
  then show ?thesis using quiet_SendUDP [of p key dest payload now] by (auto simp: on_gateway_def)
qed (auto simp: at_carrier_def at_flow_def on_gateway_def
    intro!: quiet_intros quiet_tick quiet_addCarrier quiet_readEndpoint_begin quiet_readEndpoint_end)

section \<open>Properties of single flows\<close>

text \<open>Segments in the lists of an open flow are owned.\<close>

abbreviation pointers :: "peer \<Rightarrow> bool" where
  "pointers p \<equiv> pointers_ok (length (pr_segs p)) (pr_carriers p) (pr_heap p)"

lemma member_cnt: "s \<in> set xs \<Longrightarrow> 1 \<le> cnt xs s"
  by (induction xs) auto

lemma listed_segment:
  assumes "pointers p" and "a < length (pr_heap p)" and "s \<in> set (flow_lists (flow p a))"
  shows "s < length (pr_segs p)"
  using flow_pointers [OF assms(1,2)] assms(3) by auto

lemma listed_owned:
  assumes ok: "peer_ok p" and a: "open_fl p a" and s: "s \<in> set (flow_lists (flow p a))"
  shows "sg_owned (seg p s)"
proof -
  have acc: "accounts none1 none1 none2 0 p" using ok by (simp add: peer_ok_def)
  let ?f = "flow p a"
  have a': "a < length (pr_heap p)" "\<not> fl_closed ?f" using a by (simp_all add: open_fl)
  have len: "s < length (pr_segs p)" using listed_segment [OF peer_ok_pointers [OF ok] a'(1) s] .
  have "1 \<le> cnt (flow_held ?f) s" using member_cnt [OF s] a'(2) by (simp add: flow_held_def)
  also have "\<dots> \<le> owners (pr_heap p) s"
    using tot_update [OF a'(1), of "\<lambda>f. cnt (flow_held f) s" "?f\<lparr>fl_closed := True\<rparr>"]
      tot_cnt_nonneg [of flow_held s "(pr_heap p)[a := ?f\<lparr>fl_closed := True\<rparr>]"]
    by (simp add: owners_def flow_held_def)
  finally show ?thesis using accounts_seg_ok [OF acc len] by (cases "sg_owned (seg p s)") (simp_all add: seg_ok_def)
qed

definition incoming :: "logicalFlow \<Rightarrow> nat list" where
  "incoming f = map snd (fl_recv f) @ fl_ready f"

lemma incoming_listed: "s \<in> set (incoming f) \<Longrightarrow> s \<in> set (flow_lists f)"
  by (auto simp: incoming_def flow_lists_def)

text \<open>
  A property of the receiving side of a flow: it is kept by quiet changes, as long as the frames
  of what an open flow has received are the same.
\<close>

locale flow_property =
  fixes holds :: "segment list \<Rightarrow> logicalFlow \<Rightarrow> bool"
  assumes keep: "quiet_flow f g \<Longrightarrow> (\<And>s. \<not> fl_closed g \<Longrightarrow> s \<in> set (incoming g) \<Longrightarrow> sg_f (segs' ! s) = sg_f (segs ! s)) \<Longrightarrow>
      holds segs f \<Longrightarrow> holds segs' g"
begin

lemma keep_quiet:
  assumes q: "quiet p q" and p: "pointers p" and ok: "peer_ok q" and a: "a < length (pr_heap p)" and h: "holds (pr_segs p) (flow p a)"
  shows "holds (pr_segs q) (flow q a)"
proof (rule keep [OF _ _ h])
  show f: "quiet_flow (flow p a) (flow q a)" using q a by (simp add: quiet_def)
  fix s
  assume o: "\<not> fl_closed (flow q a)" and s: "s \<in> set (incoming (flow q a))"
  have "a < length (pr_heap q)" using q a by (auto simp: quiet_def)
  then have "sg_owned (seg q s)" using listed_owned [OF ok _ incoming_listed [OF s]] o by (simp add: open_fl)
  moreover have "s \<in> set (incoming (flow p a))" using s f by (simp add: quiet_flow_def incoming_def)
  then have "s < length (pr_segs p)" using listed_segment [OF p a incoming_listed] by blast
  ultimately show "sg_f (seg q s) = sg_f (seg p s)" using q by (auto simp: quiet_def quiet_segs_def)
qed

lemma keep_receives:
  assumes r: "receives e (pr_segs p) (flow p b) segs f" and q: "quiet (rewrite_flow b segs f p) q" and b: "b < length (pr_heap p)"
    and p: "pointers p" "pointers (rewrite_flow b segs f p)" and ok: "peer_ok q" and a: "a < length (pr_heap p)"
    and h: "a \<noteq> b \<Longrightarrow> holds (pr_segs p) (flow p a)" "a = b \<Longrightarrow> holds segs f"
  shows "holds (pr_segs q) (flow q a)"
proof -
  have "holds segs ((pr_heap p)[b := f] ! a)"
  proof (cases "a = b")
    case False
    have "holds segs (flow p a)"
    proof (rule keep [OF _ _ h(1) [OF False]])
      fix s
      assume "s \<in> set (incoming (flow p a))"
      then have len: "s < length (pr_segs p)" using listed_segment [OF p(1) a incoming_listed] by blast
      show "sg_f (segs ! s) = sg_f (seg p s)" using r len by (cases rule: receives.cases) (auto simp: nth_append)
    qed (simp add: quiet_flow_def)
    then show ?thesis using False by simp
  qed (use h(2) b in simp)
  then show ?thesis using keep_quiet [OF q p(2) ok] a by (simp add: rewrite_flow_def)
qed

end

text \<open>The accounts need these facts about the receiving side of each flow.\<close>

definition flow_local :: "segment list \<Rightarrow> logicalFlow \<Rightarrow> bool" where
  "flow_local segs f \<longleftrightarrow> reading_fine f \<and>
     (\<not> fl_closed f \<longrightarrow> gomap_ok (fl_recv f) \<and> list_all (recv_entry segs) (fl_recv f) \<and> delivers_first f)"

interpretation flow_local: flow_property flow_local
proof unfold_locales
  fix f g :: logicalFlow and segs segs' :: "segment list"
  assume q: "quiet_flow f g" and fr: "\<And>s. \<not> fl_closed g \<Longrightarrow> s \<in> set (incoming g) \<Longrightarrow> sg_f (segs' ! s) = sg_f (segs ! s)" and h: "flow_local segs f"
  have "recv_entry segs' e = recv_entry segs e" if "\<not> fl_closed g" "e \<in> set (fl_recv g)" for e
    using fr [of "snd e"] that by (auto simp: recv_entry_def incoming_def case_prod_beta)
  then show "flow_local segs' g"
    using q h by (auto simp: flow_local_def quiet_flow_def reading_fine_def delivers_first_def list_all_iff)
qed

definition local_ok :: "peer \<Rightarrow> bool" where
  "local_ok p \<longleftrightarrow> (\<forall>a < length (pr_heap p). flow_local (pr_segs p) (flow p a))"

lemma local_recv: "local_ok p \<Longrightarrow> recv_ok p"
  by (auto simp: local_ok_def recv_ok_def flow_local_def in_set_conv_nth)

lemma local_reads: "local_ok p \<Longrightarrow> reads_ok p"
  unfolding local_ok_def reads_ok_def flow_local_def reading_fine_def by (metis in_set_conv_nth)

section \<open>The invariant\<close>

lemma drain_recv_parts:
  "drain_recv segs recv nxt rdy = (recv', nxt', rdy') \<Longrightarrow>
    set recv' \<subseteq> set recv \<and> (\<exists>more. rdy' = rdy @ more \<and> set more \<subseteq> snd ` set recv) \<and> (distinct (map fst recv) \<longrightarrow> distinct (map fst recv'))"
proof (induction segs recv nxt rdy rule: drain_recv.induct)
  case (1 segs recv nxt rdy)
  show ?case
  proof (cases "map_of recv nxt")
    case None
    then show ?thesis using "1.prems" by (simp add: drain_recv.simps [of segs recv])
  next
    case (Some s)
    then have d: "drain_recv segs (AList.delete nxt recv) (nxt + word_of_nat (length (f_data (sg_f (segs ! s))))) (rdy @ [s]) = (recv', nxt', rdy')"
      using "1.prems" by (simp add: drain_recv.simps [of segs recv])
    have sub: "set (AList.delete nxt recv) \<subseteq> set recv" by (auto simp: AList.delete_eq)
    have s: "s \<in> snd ` set recv" using map_of_SomeD [OF Some] by force
    obtain more where more: "set recv' \<subseteq> set (AList.delete nxt recv)" "rdy' = rdy @ s # more" "set more \<subseteq> snd ` set (AList.delete nxt recv)"
      "distinct (map fst (AList.delete nxt recv)) \<longrightarrow> distinct (map fst recv')"
      using "1.IH" [OF Some d] by auto
    have "set (s # more) \<subseteq> snd ` set recv" using more(3) image_mono [OF sub, of snd] s by simp
    moreover have "distinct (map fst recv) \<longrightarrow> distinct (map fst recv')" using more(4) by (simp add: distinct_delete)
    ultimately show ?thesis using more(1,2) sub by blast
  qed
qed

lemma gomap_ok_distinct: "gomap_ok m \<longleftrightarrow> distinct (map fst m)"
  by (simp add: gomap_ok_def)

lemma trim_frame_bounds:
  assumes "f_data m \<noteq> []" "unat (f_offset m) + length (f_data m) < 2 ^ 64" "\<not> frame_end m \<le> fl_recvNext f"
  shows "f_data (trim_frame f m) \<noteq> []" and "unat (f_offset (trim_frame f m)) + length (f_data (trim_frame f m)) = unat (f_offset m) + length (f_data m)"
    and "unat (f_offset m) \<le> unat (f_offset (trim_frame f m))"
    and "f_data (trim_frame f m) = drop (unat (f_offset (trim_frame f m)) - unat (f_offset m)) (f_data m)"
proof -
  note t = trimmed_frame [of m "fl_recvNext f", OF _ _ assms(2)]
  have n: "f_offset m < fl_recvNext f \<Longrightarrow> fl_recvNext f < f_offset m + word_of_nat (length (f_data m))"
    using assms(3) by (simp add: frame_end_def not_le)
  show "f_data (trim_frame f m) \<noteq> []" "unat (f_offset (trim_frame f m)) + length (f_data (trim_frame f m)) = unat (f_offset m) + length (f_data m)"
    "unat (f_offset m) \<le> unat (f_offset (trim_frame f m))"
    "f_data (trim_frame f m) = drop (unat (f_offset (trim_frame f m)) - unat (f_offset m)) (f_data m)"
    using t n assms(1) by (auto simp: trim_frame_def)
qed

lemma recv_entry_append: "recv_entry segs e \<Longrightarrow> snd e < length segs \<Longrightarrow> recv_entry (segs @ xs) e"
  by (simp add: recv_entry_def case_prod_beta nth_append)

lemma delivers_more: "delivers_first f \<Longrightarrow> fl_closed g = fl_closed f \<Longrightarrow> fl_writing g = fl_writing f \<Longrightarrow> fl_ready g = fl_ready f @ ss \<Longrightarrow> delivers_first g"
  by (fastforce simp: delivers_first_def)

lemma receives_local:
  assumes r: "receives e segs f segs' f'" and l: "flow_local segs f" and ptr: "\<forall>s \<in> set (flow_lists f). s < length segs"
  shows "flow_local segs' f'" and "length segs \<le> length segs'" and "\<forall>s \<in> set (flow_lists f') \<union> set (flow_refs f'). s \<in> set (flow_lists f) \<union> set (flow_refs f) \<or> s < length segs'"
    and "reading_cost f' = reading_cost f" and "fl_closed f' = fl_closed f" and "fl_id f' = fl_id f" and "fl_udp f' = fl_udp f"
proof -
  have "length segs \<le> length segs' \<and> reading_cost f' = reading_cost f \<and> fl_closed f' = fl_closed f \<and> fl_id f' = fl_id f \<and> fl_udp f' = fl_udp f"
    using r by (induction rule: receives.induct) (simp_all add: reading_cost_def)
  then show "length segs \<le> length segs'" "reading_cost f' = reading_cost f" "fl_closed f' = fl_closed f" "fl_id f' = fl_id f" "fl_udp f' = fl_udp f" by blast+
  have old: "recv_entry (segs @ [s]) en" if "en \<in> set (fl_recv f)" "\<not> fl_closed f" for en s
  proof (rule recv_entry_append)
    show "recv_entry segs en" using that l by (simp add: flow_local_def list_all_iff)
    show "snd en < length segs" using that(1) ptr by (simp add: flow_lists_def)
  qed
  from r have "flow_local segs' f' \<and> (\<forall>s \<in> set (flow_lists f') \<union> set (flow_refs f'). s \<in> set (flow_lists f) \<union> set (flow_refs f) \<or> s < length segs')"
  proof cases
    case (Accept c m now s rv nx rd)
    note t = trim_frame_bounds [OF Accept(8-10)]
    let ?x = "trim_frame f m" and ?segs = "segs @ [s]"
    let ?recv = "AList.update (f_offset ?x) (length segs) (fl_recv f)"
    obtain more where d: "set rv \<subseteq> set ?recv" "rd = fl_ready f @ more" "set more \<subseteq> snd ` set ?recv" "distinct (map fst ?recv) \<longrightarrow> distinct (map fst rv)"
      using drain_recv_parts [OF Accept(13)] by blast
    have u: "set ?recv \<subseteq> insert (f_offset ?x, length segs) (set (fl_recv f))" by (auto dest: update_member)
    have g: "gomap_ok rv" using l Accept(6) d(4) by (simp add: flow_local_def gomap_ok_distinct distinct_update)
    have new: "recv_entry ?segs (f_offset ?x, length segs)" using t(1,2) Accept(9,12) by (simp add: recv_entry_def)
    have "recv_entry ?segs en" if "en \<in> set ?recv" for en
    proof (cases "en = (f_offset ?x, length segs)")
      case False
      then have "en \<in> set (fl_recv f)" using u that by blast
      then show ?thesis using old [of en s] Accept(6) by simp
    qed (use new in simp)
    then have "list_all (recv_entry ?segs) rv" using d(1) by (auto simp: list_all_iff)
    moreover have "delivers_first f'" using l Accept(2,6) d(2) by (intro delivers_more [of f f' more]) (simp_all add: flow_local_def)
    moreover have sub: "snd ` set ?recv \<subseteq> insert (length segs) (snd ` set (fl_recv f))" using u by auto
    have "snd ` set rv \<subseteq> insert (length segs) (snd ` set (fl_recv f))" "set more \<subseteq> insert (length segs) (snd ` set (fl_recv f))"
      using order_trans [OF image_mono [OF d(1)] sub] order_trans [OF d(3) sub] by simp_all
    then have "set (map snd rv @ rd) \<subseteq> insert (length segs) (set (map snd (fl_recv f) @ fl_ready f))" by (auto simp: d(2))
    ultimately show ?thesis using l g Accept(1,2,6) by (auto simp: flow_local_def reading_fine_def flow_lists_def flow_refs_def)
  next
    case (Datagram s)
    have "list_all (recv_entry (segs @ [s])) (fl_recv f)" using old Datagram(4) by (simp add: list_all_iff)
    moreover have "delivers_first f'" using l Datagram(2,4) by (intro delivers_more [of f f' "[length segs]"]) (simp_all add: flow_local_def)
    moreover have "set (flow_lists f') \<union> set (flow_refs f') \<subseteq> insert (length segs) (set (flow_lists f) \<union> set (flow_refs f))"
      using Datagram(2) by (auto simp: flow_lists_def flow_refs_def)
    ultimately show ?thesis using l Datagram(1,2,4) by (auto simp: flow_local_def reading_fine_def)
  next
    case (Begin a now s rest)
    then show ?thesis using l by (auto simp: flow_local_def reading_fine_def delivers_first_def flow_lists_def flow_refs_def)
  next
    case (Finish s)
    then show ?thesis using l by (auto simp: flow_local_def reading_fine_def delivers_first_def flow_lists_def flow_refs_def dest: list.set_sel(2))
  next
    case Abandon
    then show ?thesis using l by (auto simp: flow_local_def reading_fine_def flow_lists_def flow_refs_def)
  qed
  then show "flow_local segs' f'" "\<forall>s \<in> set (flow_lists f') \<union> set (flow_refs f'). s \<in> set (flow_lists f) \<union> set (flow_refs f) \<or> s < length segs'" by blast+
qed

definition peer_inv :: "peer \<Rightarrow> bool" where
  "peer_inv p \<longleftrightarrow> peer_ok p \<and> local_ok p"

lemma pointers_receives:
  assumes p: "pointers p" and b: "b < length (pr_heap p)" and l: "flow_local (pr_segs p) (flow p b)" and r: "receives e (pr_segs p) (flow p b) segs f"
  shows "pointers (rewrite_flow b segs f p)"
proof -
  have ptr: "\<forall>s \<in> set (flow_lists (flow p b)) \<union> set (flow_refs (flow p b)). s < length (pr_segs p)" "0 \<le> reading_cost (flow p b)"
    using flow_pointers [OF p b] by simp_all
  note r' = receives_local [OF r l]
  have "pointers_ok (length segs) (pr_carriers p) (pr_heap p)" using pointers_ok_mono [OF p] r'(2) ptr(1) by simp
  moreover have "s < length segs" if "s \<in> set (flow_lists f) \<union> set (flow_refs f)" for s
    using r'(3) ptr(1) r'(2) that less_le_trans [of s "length (pr_segs p)" "length segs"] by blast
  ultimately show ?thesis using ptr r'(4) by (simp add: rewrite_flow_def pointers_flow)
qed

lemma fresh_local: "fresh_flow f \<Longrightarrow> flow_local segs f"
  by (simp add: fresh_flow_def flow_local_def delivers_first_def gomap_ok_def)

lemma local_quiet:
  assumes q: "quiet p q" and p: "pointers p" and ok: "peer_ok q" and l: "local_ok p"
  shows "local_ok q"
  unfolding local_ok_def
proof (intro allI impI)
  fix a
  assume a: "a < length (pr_heap q)"
  show "flow_local (pr_segs q) (flow q a)"
  proof (cases "a < length (pr_heap p)")
    case True
    then show ?thesis using flow_local.keep_quiet [OF q p ok] l by (simp add: local_ok_def)
  qed (use q a fresh_local in \<open>simp add: quiet_def\<close>)
qed

lemma step_peer_ok:
  assumes inv: "peer_inv p" and n: "pr_nextID p + 1 \<noteq> 0"
  shows "peer_ok (peer_step e p)"
proof -
  have ok: "peer_ok p" "recv_ok p" "reads_ok p" "\<And>a. a < length (pr_heap p) \<Longrightarrow> delivers_first (flow p a)"
    using inv by (auto simp: peer_inv_def local_recv local_reads local_ok_def flow_local_def delivers_first_def)
  show ?thesis
    using ok n by (cases e) (auto simp: at_carrier_def at_flow_def on_gateway_def at_car at_fl peer_ok_closeFlow
      intro: ok_tick ok_handle ok_addCarrier ok_writeLoop_take ok_writeLoop_done ok_writeLoop_exit ok_readLoop_fail ok_openTarget
        ok_readEndpoint_begin ok_readEndpoint_end ok_writeEndpoint_begin ok_writeEndpoint_end ok_ServeTCP ok_SendUDP ok_CloseUDP
        ok_SetPreferred ok_RemovePath ok_lose_generation ok_accept_welcome ok_close_peer)
qed

lemma inv_step:
  assumes inv: "peer_inv p" and n: "pr_nextID p + 1 \<noteq> 0"
  shows "peer_inv (peer_step e p)"
proof -
  let ?q = "peer_step e p"
  have p: "peer_ok p" "local_ok p" "pointers p" using inv peer_ok_pointers by (simp_all add: peer_inv_def)
  have ok: "peer_ok ?q" using step_peer_ok [OF assms] .
  have "local_ok ?q" using step_receives [OF p(1), of e]
  proof (elim disjE conjE exE)
    show "quiet p ?q \<Longrightarrow> local_ok ?q" using local_quiet [OF _ p(3) ok p(2)] .
    show "quiet (numbered p) ?q \<Longrightarrow> local_ok ?q" using local_quiet [OF _ _ ok, of "numbered p"] p by (simp add: numbered_def local_ok_def)
    fix b
    assume "receives_at e b p ?q"
    then obtain segs f where b: "b < length (pr_heap p)" and r: "receives e (pr_segs p) (flow p b) segs f" and q: "quiet (rewrite_flow b segs f p) ?q"
      by (auto simp: receives_at_def)
    have l: "flow_local (pr_segs p) (flow p b)" using p(2) b by (simp add: local_ok_def)
    have ptr: "pointers (rewrite_flow b segs f p)" using pointers_receives [OF p(3) b l r] .
    have f: "flow_local segs f" using receives_local(1) [OF r l] flow_pointers [OF p(3) b] by simp
    have "flow_local (pr_segs ?q) (flow ?q a)" if a: "a < length (pr_heap p)" for a
      using flow_local.keep_receives [OF r q b p(3) ptr ok a] f p(2) a by (simp add: local_ok_def)
    moreover have "flow_local (pr_segs ?q) (flow ?q a)" if "\<not> a < length (pr_heap p)" "a < length (pr_heap ?q)" for a
      using that q by (intro fresh_local) (simp add: quiet_def rewrite_flow_def)
    ultimately show "local_ok ?q" unfolding local_ok_def by blast
  qed
  then show ?thesis using ok by (simp add: peer_inv_def)
qed

end
