(* ===== verification/Peer_Calm.thy ===== *)
theory Peer_Calm
  imports Peer_Receive
begin

text \<open>
  What the steps of a peer do to its resource profile and to the carriers: under \<open>calm p q\<close> the
  profile is the same, the peer is closed or not as before, a closed carrier stays closed and takes nothing more into its queues, and
  no writer starts or ends. The rest of the theory follows a peer over whole runs.
\<close>

named_theorems calm_intros \<open>steps that keep the relation\<close>

definition calm_car :: "carrier \<Rightarrow> carrier \<Rightarrow> bool" where
  "calm_car c d \<longleftrightarrow> c_running d = c_running c \<and> (c_closed c \<longrightarrow> c_closed d \<and> (car_queue c = [] \<longrightarrow> car_queue d = []))"

definition calm :: "peer \<Rightarrow> peer \<Rightarrow> bool" where
  "calm p q \<longleftrightarrow> pr_limits q = pr_limits p \<and> pr_closed q = pr_closed p \<and> length (pr_carriers q) = length (pr_carriers p) \<and>
     (\<forall>a < length (pr_carriers p). calm_car (car p a) (car q a))"

lemma calm_refl [simp]: "calm p p"
  by (simp add: calm_def calm_car_def)

lemma calm_trans: "calm p q \<Longrightarrow> calm q r \<Longrightarrow> calm p r"
  by (auto simp: calm_def calm_car_def)

lemma calm_frame: "calm p q \<Longrightarrow> pr_limits q' = pr_limits q \<Longrightarrow> pr_closed q' = pr_closed q \<Longrightarrow> pr_carriers q' = pr_carriers q \<Longrightarrow> calm p q'"
  by (simp add: calm_def)

lemma calm_scalar [calm_intros]:
  assumes "calm p q"
  shows "calm p (q\<lparr>pr_generation := x2\<rparr>)" "calm p (q\<lparr>pr_paths := x3\<rparr>)" "calm p (q\<lparr>pr_preferred := x4\<rparr>)"
    "calm p (q\<lparr>pr_active := x4\<rparr>)" "calm p (q\<lparr>pr_flows := x5\<rparr>)" "calm p (q\<lparr>pr_seen := x6\<rparr>)" "calm p (q\<lparr>pr_keys := x7\<rparr>)"
    "calm p (q\<lparr>pr_closing := x8\<rparr>)" "calm p (q\<lparr>pr_lastCloseRetry := x9\<rparr>)" "calm p (q\<lparr>pr_lastWindowRefresh := x9\<rparr>)"
    "calm p (q\<lparr>pr_nextID := x10\<rparr>)" "calm p (q\<lparr>pr_terminalErr := x12\<rparr>)" "calm p (q\<lparr>pr_lastReady := x9\<rparr>)"
    "calm p (q\<lparr>pr_switchedAt := x9\<rparr>)" "calm p (q\<lparr>pr_replayed := x10\<rparr>)" "calm p (q\<lparr>pr_expired := x10\<rparr>)" "calm p (q\<lparr>pr_dropped := x10\<rparr>)"
    "calm p (q\<lparr>pr_switches := x10\<rparr>)" "calm p (q\<lparr>pr_pause := x13\<rparr>)" "calm p (q\<lparr>pr_segs := x14\<rparr>)" "calm p (q\<lparr>pr_heap := x15\<rparr>)"
    "calm p (add_used d k n q)" "calm p (add_control n q)" "calm p (upd_seg s g q)" "calm p (upd_flow a h q)" "calm p (add_refs m r q)"
    "calm p (release s q)" "calm p (discard s q)" "calm p (selectPath now q)"
  by (rule calm_frame [OF assms]; simp add: add_used_def add_control_def upd_seg_def upd_flow_def add_refs_def release_def discard_def selectPath_def Let_def split: option.split)+

lemma calm_upd_car:
  assumes pq: "calm p q" and h: "calm_car (car q a) (h (car q a))"
  shows "calm p (upd_car a h q)"
proof -
  have "calm_car (car q b) (car (upd_car a h q) b)" if "b < length (pr_carriers q)" for b
    using h that by (cases "b = a") (simp_all add: upd_car_def calm_car_def)
  then have "calm q (upd_car a h q)" by (simp add: calm_def) (simp add: upd_car_def)
  then show ?thesis by (rule calm_trans [OF pq])
qed

lemma calm_car_fields [calm_intros]:
  assumes "calm p q"
  shows "calm p (upd_car a (\<lambda>c. c\<lparr>c_lastPing := t\<rparr>) q)" "calm p (upd_car a (\<lambda>c. c\<lparr>c_pendingSince := t\<rparr>) q)"
    "calm p (upd_car a (\<lambda>c. c\<lparr>c_pingID := i c\<rparr>) q)" "calm p (upd_car a (\<lambda>c. c\<lparr>c_lastProgress := t, c_pendingSince := u c\<rparr>) q)"
    "calm p (upd_car a (\<lambda>c. c\<lparr>c_pendingSince := t, c_lastProgress := u c\<rparr>) q)" "calm p (upd_car a (rtt_sample t d) q)"
    "calm p (closeCarrier a q)" "calm p (close_lane l q)" "calm p (upd_car a (\<lambda>c. c\<lparr>c_hand := None\<rparr>) q)"
proof -
  show close: "calm p (closeCarrier a q)" for a
    unfolding closeCarrier_def by (rule calm_upd_car [OF assms]) (simp add: calm_car_def car_queue_def)
  then show "calm p (close_lane l q)" using assms by (simp add: close_lane_def split: option.split)
  show "calm p (upd_car a (\<lambda>c. c\<lparr>c_lastPing := t\<rparr>) q)" "calm p (upd_car a (\<lambda>c. c\<lparr>c_pendingSince := t\<rparr>) q)"
    "calm p (upd_car a (\<lambda>c. c\<lparr>c_pingID := i c\<rparr>) q)" "calm p (upd_car a (\<lambda>c. c\<lparr>c_lastProgress := t, c_pendingSince := u c\<rparr>) q)"
    "calm p (upd_car a (\<lambda>c. c\<lparr>c_pendingSince := t, c_lastProgress := u c\<rparr>) q)" "calm p (upd_car a (rtt_sample t d) q)"
    "calm p (upd_car a (\<lambda>c. c\<lparr>c_hand := None\<rparr>) q)"
    by (rule calm_upd_car [OF assms]; simp add: calm_car_def car_queue_def rtt_sample_def Let_def)+
qed

lemma calm_fold [calm_intros]: "calm p q \<Longrightarrow> (\<And>x q. x \<in> set xs \<Longrightarrow> calm p q \<Longrightarrow> calm p (h x q)) \<Longrightarrow> calm p (fold h xs q)"
  by (induction xs arbitrary: q) auto

lemma calm_new_seg: "calm p q \<Longrightarrow> calm p (snd (new_seg x q))"
  by (erule calm_frame) (simp_all add: new_seg_def)

lemma calm_reserve: "calm p q \<Longrightarrow> reserve d k n q = Some r \<Longrightarrow> calm p r"
  by (auto simp: reserve_def intro!: calm_intros split: if_splits)

lemma calm_carriers [calm_intros]:
  assumes "calm p q"
  shows "calm p (snd (enqueue c f s q))" "calm p (send c f q)" "calm p (releaseQueued x q)" "calm p (acknowledge c b q)"
    "calm p (progress a now q)" "calm p (dataProgress e b now q)"
proof -
  show 1: "calm p (snd (enqueue c f s q))" for c f s
    using assms unfolding enqueue_def Let_def
    by (auto intro!: calm_intros calm_upd_car split: option.split) (simp_all add: calm_car_def push_channel_def)
  then show "calm p (send c f q)" by (simp add: send_def)
  show "calm p (releaseQueued x q)" unfolding releaseQueued_def Let_def using assms by (auto intro!: calm_intros split: option.split)
  show "calm p (acknowledge c b q)" unfolding acknowledge_def Let_def case_prod_beta by (intro calm_intros 1)
  show 2: "calm p (progress a now q)" for a using assms unfolding progress_def Let_def by (auto intro!: calm_intros)
  show "calm p (dataProgress e b now q)" using assms unfolding dataProgress_def by (auto intro!: 2 split: option.split)
qed

lemma calm_sweep: "calm p q \<Longrightarrow> calm p (snd (sweep P a ss q))"
proof (induction ss arbitrary: q)
  case (Cons s ss)
  then show ?case by (auto simp: case_prod_beta intro!: Cons.IH calm_intros)
qed simp

lemma calm_flows [calm_intros]:
  assumes "calm p q"
  shows "calm p (closeFlow a err notify now q)" "calm p (sweep_pending P a q)"
  using assms unfolding closeFlow_def sweep_pending_def Let_def case_prod_beta by (auto intro!: calm_intros calm_sweep)

section \<open>The timer and the handlers\<close>

lemma calm_tick_parts [calm_intros]:
  assumes "calm p q"
  shows "calm p (tick_ping now a q)" "calm p (tick_carrier now l q)" "calm p (tick_closing now e q)" "calm p (clear_idle l q)"
    "calm p (mark_sent now c s again q)"
proof -
  have 1: "calm p (tick_ping now a r)" if "calm p r" for a r
    using that unfolding tick_ping_def Let_def case_prod_beta by (auto intro!: calm_intros)
  show "calm p (tick_ping now a q)" using assms by (rule 1)
  show "calm p (tick_carrier now l q)" using assms unfolding tick_carrier_def Let_def by (auto intro!: 1 calm_intros split: option.split)
  show "calm p (tick_closing now e q)" using assms unfolding tick_closing_def case_prod_beta by (auto intro!: calm_intros)
  show "calm p (clear_idle l q)" using assms unfolding clear_idle_def by (auto intro!: calm_intros split: option.split)
  show "calm p (mark_sent now c s again q)" using assms unfolding mark_sent_def Let_def by (auto intro!: calm_intros split: option.split)
qed

lemma calm_tick_send [calm_intros]: "calm p q \<Longrightarrow> calm p (tick_send now c a ss q)"
proof (induction ss arbitrary: q)
  case (Cons s ss)
  then show ?case unfolding tick_send_Cons Let_def by (auto intro!: calm_intros Cons.IH)
qed simp

lemma calm_tick_expire [calm_intros]: "calm p q \<Longrightarrow> calm p (tick_expire now a q)"
  unfolding tick_expire_def Let_def by (intro calm_intros) auto

lemma calm_tick_active [calm_intros]: "calm p q \<Longrightarrow> calm p (tick_active now a q)"
  unfolding tick_active_def Let_def by (auto intro!: calm_intros)

lemma calm_tick_flow [calm_intros]: "calm p q \<Longrightarrow> calm p (tick_flow now r a q)"
  unfolding tick_flow_def Let_def by (auto intro!: calm_intros)

lemma calm_tick_retry [calm_intros]: "calm p q \<Longrightarrow> calm p (tick_retry now q)"
  unfolding tick_retry_def by (auto intro!: calm_intros)

lemma calm_tick: "calm p q \<Longrightarrow> calm p (tick now q)"
  unfolding tick_def Let_def by (auto intro!: calm_intros)

lemma calm_newFlow: "calm p q \<Longrightarrow> newFlow i dest udp now q = Inr (a, r) \<Longrightarrow> calm p r"
  by (auto simp: newFlow_def Let_def reserve_def intro!: calm_intros split: if_splits option.splits)

lemma calm_handle_data [calm_intros]:
  assumes "calm p q"
  shows "calm p (handle_data c a m now q)"
proof -
  have "calm p (handle_fresh c a x now q)" for x
    using assms unfolding handle_fresh_def accept_data_def Let_def case_prod_beta
    by (auto intro!: calm_intros calm_new_seg split: clash.split option.split intro: calm_reserve)
  then show ?thesis using assms unfolding handle_data_def Let_def by (auto intro!: calm_intros)
qed

lemma calm_handle_parts [calm_intros]:
  assumes "calm p q"
  shows "calm p (handle_select c m now q)" "calm p (handle_closed m q)" "calm p (handle_pong c m now q)" "calm p (handle_open c m now q)"
    "calm p (handle_ack c a m now q)" "calm p (handle_fin c a m now q)" "calm p (handle_udpack c a m now q)" "calm p (handle_udp c a m now q)"
proof -
  show "calm p (handle_select c m now q)" using assms unfolding handle_select_def Let_def by (auto intro!: calm_intros)
  show "calm p (handle_closed m q)" using assms unfolding handle_closed_def by (auto intro!: calm_intros split: option.split)
  show "calm p (handle_pong c m now q)" using assms unfolding handle_pong_def Let_def by (auto intro!: calm_intros)
  show "calm p (handle_open c m now q)" using assms unfolding handle_open_def
    by (auto intro!: calm_intros split: option.split sum.split intro: calm_newFlow)
  show "calm p (handle_ack c a m now q)" using assms unfolding handle_ack_def Let_def by (auto intro!: calm_intros)
  show "calm p (handle_fin c a m now q)" using assms unfolding handle_fin_def Let_def by (auto intro!: calm_intros)
  show "calm p (handle_udpack c a m now q)" using assms unfolding handle_udpack_def Let_def by (auto intro!: calm_intros)
  show "calm p (handle_udp c a m now q)" using assms unfolding handle_udp_def Let_def case_prod_beta
    by (auto intro!: calm_intros calm_new_seg split: option.split intro: calm_reserve)
qed

lemma calm_handle_flow [calm_intros]: "calm p q \<Longrightarrow> calm p (handle_flow c a m now q)"
  unfolding handle_flow_def Let_def by (auto intro!: calm_intros)

lemma calm_handle: "calm p q \<Longrightarrow> calm p (handle c m now q)"
  unfolding handle_def Let_def by (auto intro!: calm_intros split: option.split)

section \<open>Endpoints, writers and the gateway\<close>

lemma calm_endpoint [calm_intros]:
  assumes "calm p q"
  shows "calm p (startFlow a q)" "calm p (openTarget a w now q)" "calm p (finish_writer a now q)" "calm p (readEndpoint_begin a q)"
    "calm p (readEndpoint_end a data err now q)" "calm p (writeEndpoint_begin a now q)" "calm p (writeEndpoint_end a e now q)"
proof -
  have 1: "calm p (startFlow a r)" if "calm p r" for r using that unfolding startFlow_def by (intro calm_intros)
  show "calm p (startFlow a q)" by (rule 1 [OF assms])
  show "calm p (openTarget a w now q)" using assms unfolding openTarget_def Let_def by (auto intro!: 1 calm_intros)
  show 2: "calm p (finish_writer a now q)" using assms unfolding finish_writer_def Let_def by (auto intro!: calm_intros)
  show "calm p (readEndpoint_begin a q)" using assms unfolding readEndpoint_begin_def Let_def
    by (auto intro!: calm_intros split: option.split intro: calm_reserve)
  have 3: "calm p (queue_read a data cost now r)" if "calm p r" for cost r
    using that unfolding queue_read_def Let_def case_prod_beta by (intro calm_intros calm_new_seg)
  show "calm p (readEndpoint_end a data err now q)" using assms unfolding readEndpoint_end_def Let_def case_prod_beta
    by (auto intro!: 3 calm_intros split: option.split)
  show "calm p (writeEndpoint_begin a now q)" using assms 2 unfolding writeEndpoint_begin_def Let_def by (auto intro!: calm_intros split: list.split)
  show "calm p (writeEndpoint_end a e now q)" using assms unfolding writeEndpoint_end_def Let_def by (auto intro!: calm_intros split: option.split)
qed

lemma calm_writeLoop [calm_intros]:
  assumes "calm p q"
  shows "calm p (writeLoop_take d a q)" "calm p (writeLoop_done a w now q)" "calm p (readLoop_fail a now q)"
proof -
  show "calm p (writeLoop_take d a q)" using assms unfolding writeLoop_take_def Let_def
    by (auto intro!: calm_upd_car split: list.split) (auto simp: calm_car_def car_queue_def split: if_splits)
  show "calm p (writeLoop_done a w now q)" using assms unfolding writeLoop_done_def Let_def by (auto intro!: calm_intros split: option.split)
  show "calm p (readLoop_fail a now q)" using assms unfolding readLoop_fail_def by (auto intro!: calm_intros)
qed

lemma calm_closing [calm_intros]:
  assumes "calm p q"
  shows "calm p (close_flows e now q)" "calm p (close_lanes q)" "calm p (lose_generation now q)"
proof -
  have 1: "calm p (close_flows e now r)" if "calm p r" for e r using that unfolding close_flows_def by (intro calm_intros)
  have 2: "calm p (close_lanes r)" if "calm p r" for r using that unfolding close_lanes_def by (intro calm_intros)
  show "calm p (close_flows e now q)" "calm p (close_lanes q)" using 1 2 assms by blast+
  show "calm p (lose_generation now q)" using assms unfolding lose_generation_def by (auto intro!: 1 2 calm_intros)
qed

lemma calm_close_peer: "\<not> pr_closed p \<Longrightarrow> calm (p\<lparr>pr_closed := True\<rparr>) (close_peer now p)"
  unfolding close_peer_def Let_def by (auto intro!: calm_intros)

lemma calm_gateway [calm_intros]:
  assumes "calm p q"
  shows "calm p (CloseUDP key now q)" "calm p (snd (SetPreferred name now q))" "calm p (RemovePath name now q)" "calm p (snd (ServeTCP dest now q))"
    "calm p (snd (SendUDP key dest payload now q))"
proof -
  show "calm p (CloseUDP key now q)" using assms unfolding CloseUDP_def by (auto intro!: calm_intros split: option.split)
  show "calm p (snd (SetPreferred name now q))" using assms unfolding SetPreferred_def Let_def by (auto intro!: calm_intros split: option.split)
  show "calm p (RemovePath name now q)" using assms unfolding RemovePath_def Let_def by (auto intro!: calm_intros split: option.split)
  have new: "calm p r" if "newFlow i dest udp now (q\<lparr>pr_nextID := n\<rparr>) = Inr (a, r)" for i udp n a r
    using calm_newFlow [OF _ that] assms by (auto intro: calm_intros)
  show "calm p (snd (ServeTCP dest now q))" using assms unfolding ServeTCP_def Let_def
    by (auto intro!: calm_intros split: option.split sum.split intro: new)
  have d: "calm p (snd (queue_datagram a payload now r))" if "calm p r" for a r
    using that unfolding queue_datagram_def Let_def case_prod_beta
    by (auto intro!: calm_intros calm_new_seg split: option.split intro: calm_reserve)
  show "calm p (snd (SendUDP key dest payload now q))" using assms unfolding SendUDP_def Let_def
    by (auto intro!: calm_intros d split: option.split sum.split intro: new)
qed

section \<open>Ended writers\<close>

text \<open>A writer that has ended has drained the queues of its closed carrier.\<close>

definition tidy :: "peer \<Rightarrow> bool" where
  "tidy p \<longleftrightarrow> (\<forall>a < length (pr_carriers p). c_running (car p a) \<or> c_closed (car p a) \<and> car_queue (car p a) = [])"

definition profile :: "peer \<Rightarrow> limits" where
  "profile p = (pr_limits p)\<lparr>lm_FlowBytes := 0\<rparr>"

lemma calm_tidy: "calm p q \<Longrightarrow> tidy p \<Longrightarrow> tidy q \<and> profile q = profile p"
  by (auto simp: calm_def calm_car_def tidy_def profile_def)

lemma tidy_frame: "tidy p \<Longrightarrow> pr_carriers q = pr_carriers p \<Longrightarrow> tidy q"
  by (simp add: tidy_def)

lemma tidy_addCarrier:
  assumes "tidy p"
  shows "tidy (snd (addCarrier path lane rtt now p)) \<and> profile (snd (addCarrier path lane rtt now p)) = profile p \<and> pr_closed (snd (addCarrier path lane rtt now p)) = pr_closed p"
proof -
  let ?c = "new_carrier path lane (if rtt < millisecond then millisecond else rtt) now"
  define p1 where "p1 = close_lane (path_lanes p path ! lane) p"
  have p1: "calm p p1" unfolding p1_def by (intro calm_intros calm_refl)
  then have t: "tidy p1" "profile p1 = profile p" "pr_closed p1 = pr_closed p" using calm_tidy [OF p1 assms] by (simp_all add: calm_def)
  then have "tidy (p1\<lparr>pr_carriers := pr_carriers p1 @ [?c]\<rparr>)" by (auto simp: tidy_def nth_append new_carrier_def)
  moreover have "pr_carriers (attach_carrier path lane rtt now p) = pr_carriers p1 @ [?c]" "pr_limits (attach_carrier path lane rtt now p) = pr_limits p1"
    "pr_closed (attach_carrier path lane rtt now p) = pr_closed p1"
    by (simp_all add: attach_carrier_def p1_def selectPath_def add_control_def Let_def)
  ultimately have "tidy (attach_carrier path lane rtt now p)" "profile (attach_carrier path lane rtt now p) = profile p" "pr_closed (attach_carrier path lane rtt now p) = pr_closed p"
    using t by (simp_all add: tidy_def profile_def)
  then show ?thesis using assms unfolding addCarrier_def by auto
qed

lemma carriers_releaseQueued: "pr_carriers (fold releaseQueued qs p) = pr_carriers p \<and> pr_limits (fold releaseQueued qs p) = pr_limits p \<and> pr_closed (fold releaseQueued qs p) = pr_closed p"
  by (induction qs arbitrary: p)
    (simp_all add: releaseQueued_def add_control_def add_refs_def upd_seg_def release_def add_used_def Let_def split: option.split)

lemma tidy_writeLoop_exit:
  assumes t: "tidy p"
  shows "tidy (writeLoop_exit a p) \<and> profile (writeLoop_exit a p) = profile p \<and> pr_closed (writeLoop_exit a p) = pr_closed p"
proof (cases "\<not> c_closed (car p a) \<or> \<not> c_running (car p a) \<or> c_hand (car p a) \<noteq> None")
  case False
  define p1 where "p1 = upd_car a (\<lambda>c. c\<lparr>c_control := [], c_data := [], c_running := False\<rparr>) p"
  have "c_running (car p1 b) \<or> c_closed (car p1 b) \<and> car_queue (car p1 b) = []" if "b < length (pr_carriers p)" for b
    using that t False by (cases "b = a") (simp_all add: p1_def upd_car_def tidy_def car_queue_def)
  then have "tidy p1" by (simp add: tidy_def) (simp add: p1_def upd_car_def)
  moreover have "pr_limits p1 = pr_limits p" "pr_closed p1 = pr_closed p" by (simp_all add: p1_def upd_car_def)
  moreover have "writeLoop_exit a p = fold releaseQueued (c_control (car p a) @ c_data (car p a)) (add_control (- carrierQueueBytes) p1)"
    using False by (simp add: writeLoop_exit_def Let_def p1_def)
  ultimately show ?thesis using carriers_releaseQueued [of _ "add_control (- carrierQueueBytes) p1"]
    by (simp add: tidy_def profile_def add_control_def del: fold_append)
qed (use t in \<open>simp add: writeLoop_exit_def Let_def\<close>)

lemma calm_step:
  "calm p (peer_step e p) \<or> (\<exists>path lane rtt now. e = Add_carrier path lane rtt now) \<or> (\<exists>a. e = Write_exit a) \<or> (\<exists>g n. e = Welcome g n) \<or> (\<exists>now. e = Close now)"
  by (cases e) (simp_all add: at_carrier_def at_flow_def on_gateway_def calm_intros calm_tick calm_handle)

lemma step_calm:
  assumes t: "tidy p"
  shows "tidy (peer_step e p) \<and> profile (peer_step e p) = profile p \<and> (pr_closed (peer_step e p) \<longleftrightarrow> pr_closed p \<or> (\<exists>now. e = Close now))"
proof -
  have c: "tidy q \<and> profile q = profile p \<and> pr_closed q = pr_closed p" if "calm p q" for q
    using calm_tidy [OF that t] that by (simp add: calm_def)
  show ?thesis
  proof (cases e)
    case (Add_carrier path lane rtt now)
    then show ?thesis using tidy_addCarrier [OF t] t by simp
  next
    case (Write_exit a)
    then show ?thesis using tidy_writeLoop_exit [OF t] t by (simp add: at_carrier_def)
  next
    case (Welcome g n)
    then show ?thesis using t by (simp add: on_gateway_def accept_welcome_def profile_def tidy_def)
  next
    case (Close now)
    show ?thesis
    proof (cases "pr_closed p")
      case False
      have q: "calm (p\<lparr>pr_closed := True\<rparr>) (close_peer now p)" using calm_close_peer [OF False] .
      have "tidy (p\<lparr>pr_closed := True\<rparr>)" "profile (p\<lparr>pr_closed := True\<rparr>) = profile p" using t by (simp_all add: tidy_def profile_def)
      then show ?thesis using calm_tidy [OF q] q Close by (simp add: calm_def)
    qed (use t Close in \<open>simp add: close_peer_def\<close>)
  qed (use c [of "peer_step e p"] calm_step [of p e] in simp_all)
qed

end
