(* ===== verification/Peer_Run.thy ===== *)
theory Peer_Run
  imports Peer_Calm
begin

text \<open>
  Whole runs of a continuity peer from \<^verbatim>\<open>newPeer\<close>, over any interleaving of its critical sections:
  the memory accounts are exact and within the profile, and nothing stays reserved once a closed
  peer's goroutines have ended.
\<close>

section \<open>A closed peer\<close>

definition emptied :: "peer \<Rightarrow> bool" where
  "emptied p \<longleftrightarrow> pr_flows p = [] \<and> pr_closing p = []"

lemma emptied_frame: "emptied p \<Longrightarrow> pr_flows q = pr_flows p \<Longrightarrow> pr_closing q = pr_closing p \<Longrightarrow> emptied q"
  by (simp add: emptied_def)

lemma emptied_ops:
  assumes "emptied p"
  shows "emptied (upd_flow a h p)" "emptied (upd_car a g p)" "emptied (upd_seg s k p)" "emptied (add_used d u n p)" "emptied (add_control n p)"
    "emptied (release s p)" "emptied (add_refs n r p)" "emptied (selectPath now p)" "emptied (closeCarrier a p)" "emptied (close_lane l p)" "emptied (releaseQueued x p)"
    "emptied (p\<lparr>pr_paths := ps\<rparr>)" "emptied (p\<lparr>pr_terminalErr := e\<rparr>)"
  by (rule emptied_frame [OF assms]; simp add: upd_flow_def upd_car_def upd_seg_def add_used_def add_control_def release_def add_refs_def selectPath_def
      closeCarrier_def close_lane_def releaseQueued_def Let_def split: option.split)+

lemma emptied_fold: "emptied p \<Longrightarrow> (\<And>x q. emptied q \<Longrightarrow> emptied (h x q)) \<Longrightarrow> emptied (fold h xs p)"
  by (induction xs arbitrary: p) auto

lemma emptied_closed:
  assumes "peer_ok p" "emptied p" "a < length (pr_heap p)"
  shows "fl_closed (flow p a)"
  using assms by (auto simp: peer_ok_def shape_def flows_ok_def emptied_def)

lemma emptied_step:
  assumes ok: "peer_ok p" and cl: "pr_closed p" and em: "emptied p"
  shows "emptied (peer_step e p)"
proof -
  note ops = emptied_ops emptied_fold
  have f: "fl_closed (flow p a)" if "a < length (pr_heap p)" for a using emptied_closed [OF ok em that] .
  have gw: "gateway_error p = Some ErrClosed" using cl by (simp add: gateway_error_def)
  have loops: "emptied (writeLoop_take d a p)" "emptied (writeLoop_done a w now p)" "emptied (writeLoop_exit a p)" "emptied (readLoop_fail a now p)" for d a w now
    using em by (auto simp: writeLoop_take_def writeLoop_done_def writeLoop_exit_def readLoop_fail_def Let_def intro!: ops split: list.split option.split)
  have ends: "emptied (readEndpoint_begin a p)" "emptied (readEndpoint_end a data err now p)" "emptied (writeEndpoint_begin a now p)"
    "emptied (writeEndpoint_end a r now p)" if a: "a < length (pr_heap p)" for a data err now r
  proof -
    have closed_read: "pr_closed (upd_flow a h p) = pr_closed p" for h by (simp add: upd_flow_def)
    show "emptied (readEndpoint_begin a p)" "emptied (readEndpoint_end a data err now p)" "emptied (writeEndpoint_begin a now p)"
      using em cl f [OF a] closed_read by (auto simp: readEndpoint_begin_def readEndpoint_end_def writeEndpoint_begin_def Let_def intro!: ops split: option.split)
    have "fl_closed (flow (add_refs (- 1) (Some s) (upd_flow a (\<lambda>f. f\<lparr>fl_writing := None\<rparr>) p)) a)" for s
      using f [OF a] a by (simp add: add_refs_def upd_seg_def upd_flow_def)
    then show "emptied (writeEndpoint_end a r now p)" using em by (auto simp: writeEndpoint_end_def Let_def intro!: ops split: option.split)
  qed
  have "pr_flows (p\<lparr>pr_terminalErr := t\<rparr>) = []" for t using em by (simp add: emptied_def)
  then have "emptied (lose_generation now p)" for now
    using em unfolding lose_generation_def close_lanes_def close_flows_def by (auto intro!: ops)
  moreover have "emptied (RemovePath n now p)" for n now using em by (auto simp: RemovePath_def Let_def intro!: ops split: option.split)
  ultimately show ?thesis
    using em cl f gw loops ends
    by (cases e) (simp_all add: at_carrier_def at_flow_def on_gateway_def tick_def handle_def addCarrier_def openTarget_def ServeTCP_def SendUDP_def
      CloseUDP_def udp_flow_def SetPreferred_def accept_welcome_def close_peer_def closeFlow_def emptied_def split: option.split)
qed

lemma closeFlow_closed:
  assumes "a < length (pr_heap p)"
  shows "fl_closed (flow (closeFlow a err notify now p) a)"
proof (cases "fl_closed (flow p a)")
  case False
  let ?p1 = "upd_flow a (\<lambda>f. f\<lparr>fl_closed := True, fl_err := err\<rparr>) p"
  have "fl_closed (flow ?p1 a)" using assms by (simp add: upd_flow_def)
  moreover have "quiet ?p1 (closeFlow a err notify now p)" using False unfolding closeFlow_def Let_def by (auto intro!: quiet_intros quiet_refl)
  moreover have "a < length (pr_heap ?p1)" using assms by (simp add: upd_flow_def)
  ultimately show ?thesis by (auto simp: quiet_def quiet_flow_def)
qed (simp add: closeFlow_def)

lemma flows_discard: "pr_flows (fold discard ss p) = pr_flows p"
  by (induction ss arbitrary: p) (simp_all add: discard_def release_def upd_seg_def add_used_def Let_def)

lemma flows_closeFlow: "set (pr_flows (closeFlow a err notify now p)) \<subseteq> set (pr_flows p)"
  by (auto simp: closeFlow_def Let_def flows_discard add_used_def add_control_def upd_flow_def AList.delete_eq simp del: fold_append)

lemma close_all:
  "set (pr_flows (fold (\<lambda>a. closeFlow a e b now) as p)) \<subseteq> set (pr_flows p) \<and>
   (\<forall>a \<in> set as. a < length (pr_heap p) \<longrightarrow> fl_closed (flow (fold (\<lambda>a. closeFlow a e b now) as p) a))"
proof (induction as arbitrary: p)
  case (Cons a as)
  let ?q = "closeFlow a e b now p"
  let ?r = "fold (\<lambda>a. closeFlow a e b now) as ?q"
  have q: "quiet p ?q" and r: "quiet ?q ?r" by (intro quiet_intros quiet_refl)+
  have "fl_closed (flow ?r a)" if "a < length (pr_heap p)"
    using closeFlow_closed [OF that, of e b now] q r that by (auto simp: quiet_def quiet_flow_def)
  then show ?case using Cons.IH [of ?q] flows_closeFlow [of a e b now p] q by (auto simp: quiet_def)
qed simp

lemma close_flows_empty:
  assumes "peer_ok p"
  shows "pr_flows (close_flows e now p) = []"
proof (rule ccontr)
  let ?q = "close_flows e now p"
  assume "pr_flows ?q \<noteq> []"
  then obtain i a where q: "(i, a) \<in> set (pr_flows ?q)" by (cases "pr_flows ?q") auto
  have p: "(i, a) \<in> set (pr_flows p)" and c: "\<forall>a \<in> snd ` set (pr_flows p). a < length (pr_heap p) \<longrightarrow> fl_closed (flow ?q a)"
    using close_all [where as = "map snd (pr_flows p)" and e = "Some e" and b = False] q unfolding close_flows_def by auto
  have "a < length (pr_heap p)" using listed_open [OF assms p] by (simp add: open_fl)
  then have "fl_closed (flow ?q a)" using c p by force
  then show False using listed_open [OF ok_close_flows [OF assms] q] by (simp add: open_fl)
qed

lemma close_peer_empties:
  assumes "peer_ok p" "\<not> pr_closed p"
  shows "emptied (close_peer now p)"
proof -
  have "peer_ok (close_lanes (p\<lparr>pr_closed := True\<rparr>))" using assms(1) by (simp add: ok_close_lanes)
  from close_flows_empty [OF this] show ?thesis using assms(2) by (simp add: close_peer_def Let_def emptied_def add_control_def)
qed

section \<open>Runs\<close>

definition run_inv :: "peer \<Rightarrow> bool" where
  "run_inv p \<longleftrightarrow> peer_inv p \<and> tidy p \<and> (pr_closed p \<longrightarrow> emptied p)"

lemma run_inv_step:
  assumes inv: "run_inv p" and n: "pr_nextID p + 1 \<noteq> 0"
  shows "run_inv (peer_step e p)" and "profile (peer_step e p) = profile p"
proof -
  have p: "peer_inv p" "tidy p" "peer_ok p" "pr_closed p \<longrightarrow> emptied p" using inv by (simp_all add: run_inv_def peer_inv_def)
  note c = step_calm [OF p(2), of e]
  have "emptied (peer_step e p)" if closed: "pr_closed (peer_step e p)"
  proof (cases "pr_closed p")
    case True
    then show ?thesis using emptied_step [OF p(3)] p(4) by simp
  next
    case False
    then obtain now where "e = Close now" using closed c by blast
    then show ?thesis using close_peer_empties [OF p(3) False] by simp
  qed
  then show "run_inv (peer_step e p)" using inv_step [OF p(1) n] c by (simp add: run_inv_def)
  show "profile (peer_step e p) = profile p" using c by simp
qed

lemma nextID_step:
  assumes "peer_ok p" and "pr_nextID p + 1 \<noteq> 0"
  shows "unat (pr_nextID (peer_step e p)) \<le> Suc (unat (pr_nextID p))"
  using step_receives [OF assms(1), of e] unat_next [OF assms(2)]
  by (auto simp: quiet_def numbered_def receives_at_def rewrite_flow_def)

lemma peer_run_simps [simp]: "peer_run [] p = p" "peer_run (e # es) p = peer_run es (peer_step e p)" "peer_run (es @ es') p = peer_run es' (peer_run es p)"
  by (simp_all add: peer_run_def)

text \<open>The number of the next flow does not wrap around within \<open>2 ^ 64\<close> steps.\<close>

lemma next_number:
  assumes "run_inv p" and "unat (pr_nextID p) + length (e # es) < 2 ^ 64"
  shows "pr_nextID p + 1 \<noteq> 0" and "unat (pr_nextID (peer_step e p)) + length es < 2 ^ 64"
proof -
  have "unat (pr_nextID p + 1) = unat (pr_nextID p) + 1" using assms(2) by (simp add: unat_word_ariths)
  then show n: "pr_nextID p + 1 \<noteq> 0" by (metis add_is_0 one_neq_zero unat_0)
  show "unat (pr_nextID (peer_step e p)) + length es < 2 ^ 64"
    using nextID_step [of p e] assms n by (simp add: run_inv_def peer_inv_def)
qed

lemma run_inv_run:
  "run_inv p \<Longrightarrow> unat (pr_nextID p) + length es < 2 ^ 64 \<Longrightarrow> run_inv (peer_run es p) \<and> profile (peer_run es p) = profile p"
proof (induction es arbitrary: p)
  case (Cons e es)
  note n = next_number [OF Cons.prems]
  show ?case using Cons.IH [OF run_inv_step(1) [OF Cons.prems(1) n(1)] n(2)] run_inv_step(2) [OF Cons.prems(1) n(1)] by simp
qed simp

lemma normalized_limits:
  assumes "normalized l0 = Inr l"
  shows "0 \<le> class_limit l k" and "0 \<le> lm_ControlBytes l"
  using assms by (auto simp: normalized_def Let_def limits_invalid_def class_limit_def quot_def split: if_splits)

lemma profile_limits:
  assumes "profile p = l\<lparr>lm_FlowBytes := 0\<rparr>"
  shows "class_limit (pr_limits p) = class_limit l" and "lm_ControlBytes (pr_limits p) = lm_ControlBytes l"
proof -
  have "lm_BufferBytes (pr_limits p) = lm_BufferBytes l" "lm_UDPReserveBytes (pr_limits p) = lm_UDPReserveBytes l" "lm_ControlBytes (pr_limits p) = lm_ControlBytes l"
    using assms unfolding profile_def by (metis limits.select_convs limits.surjective limits.update_convs(3))+
  then show "class_limit (pr_limits p) = class_limit l" "lm_ControlBytes (pr_limits p) = lm_ControlBytes l" by (simp_all add: class_limit_def fun_eq_iff)
qed

lemma run_inv_start:
  assumes "\<And>k. 0 \<le> class_limit l k" and "0 \<le> lm_ControlBytes l"
  shows "run_inv (newPeer l g server now)"
proof -
  have "window_rel new_window {}" by (rule window_rel_new)
  then have "shape (newPeer l g server now)" by (auto simp: shape_def flows_ok_def ids_ok_def paths_ok_def newPeer_def gomap_ok_def)
  moreover have "bounded (newPeer l g server now)" using assms by (simp add: bounded_def newPeer_def)
  moreover have "accounts none1 none1 none2 0 (newPeer l g server now)" by (simp add: accounts_defs newPeer_def pointers_ok_def)
  ultimately have "peer_ok (newPeer l g server now)" by (simp add: peer_ok_def)
  then show ?thesis by (simp add: run_inv_def peer_inv_def local_ok_def tidy_def newPeer_def)
qed

lemma run_inv_new: "normalized l0 = Inr l \<Longrightarrow> run_inv (newPeer l g server now)"
  using run_inv_start normalized_limits by blast

lemma run_inv_from_new:
  assumes "normalized l0 = Inr l" and "length es < 2 ^ 64"
  shows "run_inv (peer_run es (newPeer l g server now))" and "class_limit (pr_limits (peer_run es (newPeer l g server now))) = class_limit l"
    and "lm_ControlBytes (pr_limits (peer_run es (newPeer l g server now))) = lm_ControlBytes l"
proof -
  let ?q = "peer_run es (newPeer l g server now)"
  have r: "run_inv ?q \<and> profile ?q = profile (newPeer l g server now)"
    using run_inv_run [OF run_inv_new [OF assms(1)]] assms(2) by (simp add: newPeer_def)
  then show "run_inv ?q" ..
  have "profile ?q = l\<lparr>lm_FlowBytes := 0\<rparr>" using r by (simp add: profile_def newPeer_def)
  then show "class_limit (pr_limits ?q) = class_limit l" "lm_ControlBytes (pr_limits ?q) = lm_ControlBytes l" using profile_limits by blast+
qed

section \<open>Exact and bounded accounts\<close>

lemma seg_cost_nonneg: "accounts none1 none1 none2 0 p \<Longrightarrow> 0 \<le> tot (seg_cost d k) (pr_segs p)"
  by (rule tot_nonneg) (auto simp: accounts_def seg_ok_def seg_cost_def in_set_conv_nth)

lemma accounts_nonneg:
  assumes acc: "accounts none1 none1 none2 0 p"
  shows "0 \<le> pr_used p d k" and "0 \<le> pr_controlBytes p"
proof -
  have ptr: "pointers p" using acc by (simp add: accounts_def)
  have "0 \<le> tot (flow_cost d k) (pr_heap p)"
    by (rule tot_nonneg) (use ptr in \<open>auto simp: pointers_ok_def flow_cost_def flowOverhead_def\<close>)
  then show "0 \<le> pr_used p d k" using acc seg_cost_nonneg [OF acc, of d k] by (simp add: accounts_def used_total_def)
  have "0 \<le> tot car_ctl (pr_carriers p)"
  proof (rule tot_nonneg)
    fix c
    assume "c \<in> set (pr_carriers p)"
    then have "0 \<le> tot q_cost (car_queue c)" using ptr by (intro tot_nonneg) (auto simp: pointers_ok_def)
    then show "0 \<le> car_ctl c" by (simp add: car_ctl_def carrierQueueBytes_def)
  qed
  moreover have "0 \<le> tot flow_ctl (pr_heap p)" by (rule tot_nonneg) (simp add: flow_ctl_def)
  ultimately show "0 \<le> pr_controlBytes p" using acc by (simp add: accounts_def control_total_def)
qed

text \<open>
  C4: over every run of fewer than \<open>2 ^ 64\<close> critical sections from a new peer with a validated
  profile, in any order and whatever frames arrive, each of the four byte budgets is exactly the
  cost of the segments, reads and flows that hold it and lies between 0 and the limit of its
  class, and the control budget is exactly the cost of the carriers, queue entries, open and
  closing flows and lies between 0 and its limit.
\<close>

theorem budgets_exact_and_bounded:
  fixes d k :: bool
  assumes "normalized l0 = Inr l" and "length es < 2 ^ 64" and q: "q = peer_run es (newPeer l g server now)"
  shows "pr_used q d k = used_total (pr_segs q) (pr_heap q) d k \<and> 0 \<le> pr_used q d k \<and> pr_used q d k \<le> class_limit l k \<and>
    pr_controlBytes q = control_total (pr_carriers q) (pr_heap q) (length (pr_closing q)) \<and> 0 \<le> pr_controlBytes q \<and> pr_controlBytes q \<le> lm_ControlBytes l"
proof -
  have "peer_ok q" using run_inv_from_new(1) [OF assms(1,2)] by (simp add: q run_inv_def peer_inv_def)
  then have acc: "accounts none1 none1 none2 0 q" and b: "bounded q" by (simp_all add: peer_ok_def)
  show ?thesis using acc b accounts_nonneg [OF acc] run_inv_from_new(2,3) [OF assms(1,2), of g server now] by (simp add: accounts_def bounded_def q)
qed

definition zero_limits :: limits where
  "zero_limits = \<lparr>lm_BufferBytes = 0, lm_UDPReserveBytes = 0, lm_FlowBytes = 0, lm_ControlBytes = 0, lm_MaxTCP = 0, lm_MaxUDP = 0,
     lm_DisconnectedGrace = 0, lm_UDPIdle = 0, lm_UDPReplay = 0\<rparr>"

lemma zero_limits_normalized: "normalized zero_limits = Inr DefaultLimits"
  by (simp add: normalized_def zero_limits_def apply_defaults_def or_default_def limits_invalid_def DefaultLimits_def second_def millisecond_def minute_def hour_def)

theorem budgets_exact_and_bounded_witness:
  "pr_used (peer_run [Serve_TCP ''h:80'' 1] (newPeer DefaultLimits '''' False 0)) False False \<le> class_limit DefaultLimits False"
  using budgets_exact_and_bounded [OF zero_limits_normalized _ refl, of "[Serve_TCP ''h:80'' 1]" "''''" False 0 False False] by simp

text \<open>The state in which \<^verbatim>\<open>p.wg.Wait\<close> of \<^verbatim>\<open>close\<close> returns, as far as the goroutines hold anything.\<close>

definition goroutines_ended :: "peer \<Rightarrow> bool" where
  "goroutines_ended p \<longleftrightarrow> list_all (\<lambda>c. \<not> c_running c) (pr_carriers p) \<and> list_all (\<lambda>f. fl_reading f = None \<and> fl_writing f = None) (pr_heap p)"

lemma ended_holds_nothing:
  assumes inv: "run_inv p" and cl: "pr_closed p" and e: "goroutines_ended p"
  shows "pr_used p d k = 0" and "pr_controlBytes p = 0"
proof -
  have ok: "peer_ok p" "tidy p" "emptied p" using inv cl by (simp_all add: run_inv_def peer_inv_def)
  have acc: "accounts none1 none1 none2 0 p" using ok(1) by (simp add: peer_ok_def)
  have flows: "fl_closed f" "fl_reading f = None" "fl_writing f = None" if "f \<in> set (pr_heap p)" for f
    using that e emptied_closed [OF ok(1,3)] by (auto simp: goroutines_ended_def list_all_iff in_set_conv_nth)
  have cars: "car_queue c = []" "\<not> c_running c" if "c \<in> set (pr_carriers p)" for c
    using that e ok(2) nth_mem by (fastforce simp: goroutines_ended_def list_all_iff tidy_def in_set_conv_nth)+
  have own: "owners (pr_heap p) s = 0" for s unfolding owners_def by (rule tot_zero) (simp add: flow_held_def flows)
  have ref: "referrers (pr_carriers p) (pr_heap p) s = 0" for s
    using tot_zero [of "pr_carriers p" "\<lambda>c. cnt (car_refs c) s"] tot_zero [of "pr_heap p" "\<lambda>f. cnt (flow_refs f) s"]
    by (simp add: referrers_def car_refs_def cars flow_refs_def flows)
  have "seg_cost d k sg = 0" if "sg \<in> set (pr_segs p)" for sg
    using that acc own ref by (auto simp: accounts_def seg_ok_def seg_cost_def in_set_conv_nth)
  then have "tot (seg_cost d k) (pr_segs p) = 0" by (rule tot_zero)
  moreover have "tot (flow_cost d k) (pr_heap p) = 0" by (rule tot_zero) (simp add: flow_cost_def reading_cost_def flows)
  ultimately show "pr_used p d k = 0" using acc by (simp add: accounts_def used_total_def)
  have "tot car_ctl (pr_carriers p) = 0" by (rule tot_zero) (simp add: car_ctl_def cars)
  moreover have "tot flow_ctl (pr_heap p) = 0" by (rule tot_zero) (simp add: flow_ctl_def flows)
  ultimately show "pr_controlBytes p = 0" using acc ok(3) by (simp add: accounts_def control_total_def emptied_def)
qed

text \<open>
  C7: once a peer has been closed and the goroutines that \<^verbatim>\<open>close\<close> waits for have ended, every byte
  budget is back to zero, whatever the peer was doing: nothing that was reserved is lost.
\<close>

theorem closed_peer_holds_nothing:
  fixes d k :: bool
  assumes "normalized l0 = Inr l" and "length es < 2 ^ 64" and q: "q = peer_run es (newPeer l g server now)"
    and "pr_closed q" and "goroutines_ended q"
  shows "pr_used q d k = 0 \<and> pr_controlBytes q = 0"
  using ended_holds_nothing [OF run_inv_from_new(1) [OF assms(1,2)]] assms(4,5) unfolding q by blast

definition busy_then_closed :: "event list" where
  "busy_then_closed = [Add_carrier ''p'' 0 1 1, Serve_TCP ''h:80'' 1, Tick 3, Write_take False 0, Close 4, Write_done 0 True 5, Write_exit 0]"

theorem closed_peer_holds_nothing_witness:
  "pr_controlBytes (peer_run busy_then_closed (newPeer DefaultLimits '''' False 0)) = 0"
proof -
  let ?q = "peer_run busy_then_closed (newPeer DefaultLimits '''' False 0)"
  have "length busy_then_closed < 2 ^ 64" by (simp add: busy_then_closed_def)
  moreover have "pr_closed ?q" by code_simp
  moreover have "goroutines_ended ?q" by code_simp
  ultimately show ?thesis using closed_peer_holds_nothing [OF zero_limits_normalized _ refl] by blast
qed

end
