(* ===== verification/Peer_Stream.thy ===== *)
theory Peer_Stream
  imports Peer_Run "HOL-Library.Sublist"
begin

text \<open>
  In-order delivery of stream data. The frames of a stream are pieces of one byte string at their
  offsets, in any order and any number of times, over any number of carriers; what the peer hands
  to the endpoint is a prefix of that string, and what it has acknowledged it has delivered or
  still holds.
\<close>

section \<open>Pieces of a byte string\<close>

definition slice :: "bytes \<Rightarrow> nat \<Rightarrow> bytes \<Rightarrow> bool" where
  "slice w off data \<longleftrightarrow> off + length data \<le> length w \<and> data = take (length data) (drop off w)"

definition payload :: "segment list \<Rightarrow> nat list \<Rightarrow> bytes" where
  "payload segs ss = concat (map (\<lambda>s. f_data (frame_of segs s)) ss)"

lemma payload_simps [simp]: "payload segs [] = []" "payload segs (s # ss) = f_data (frame_of segs s) @ payload segs ss"
  "payload segs (ss @ ts) = payload segs ss @ payload segs ts"
  by (simp_all add: payload_def)

lemma payload_cong: "(\<And>s. s \<in> set ss \<Longrightarrow> frame_of segs' s = frame_of segs s) \<Longrightarrow> payload segs' ss = payload segs ss"
  by (simp add: payload_def cong: map_cong)

lemma slice_extends: "slice w n data \<Longrightarrow> take (n + length data) w = take n w @ data"
  by (auto simp: slice_def take_add)

lemma slice_drop: "slice w off data \<Longrightarrow> k \<le> length data \<Longrightarrow> slice w (off + k) (drop k data)"
  by (auto simp: slice_def take_drop add.commute) (metis add.commute drop_drop drop_take)

lemma unat_advance: "unat (n :: uint64) + k < 2 ^ 64 \<Longrightarrow> unat (n + word_of_nat k) = unat n + k"
  by (simp add: unat_word_ariths unat_of_nat)

section \<open>The state of a stream\<close>

definition stream_ok :: "bytes \<Rightarrow> uint64 \<Rightarrow> bytes \<Rightarrow> segment list \<Rightarrow> logicalFlow \<Rightarrow> bool" where
  "stream_ok w i D segs f \<longleftrightarrow> (fl_id f = i \<and> \<not> fl_udp f \<longrightarrow>
     (if fl_closed f then prefix D w
      else D = take (unat (fl_consumed f)) w @ (if fl_writing f = None then [] else f_data (frame_of segs (hd (fl_ready f)))) \<and>
        (fl_writing f \<noteq> None \<longrightarrow> fl_ready f \<noteq> []) \<and> unat (fl_recvNext f) \<le> length w \<and>
        unat (fl_consumed f) + length (payload segs (fl_ready f)) = unat (fl_recvNext f) \<and>
        take (unat (fl_recvNext f)) w = take (unat (fl_consumed f)) w @ payload segs (fl_ready f) \<and>
        (\<forall>(off, s) \<in> set (fl_recv f). slice w (unat off) (f_data (frame_of segs s)))))"

lemma stream_prefix:
  assumes "stream_ok w i D segs f" and "fl_id f = i" "\<not> fl_udp f"
  shows "prefix D w"
proof (cases "fl_closed f")
  case False
  let ?c = "unat (fl_consumed f)" and ?n = "unat (fl_recvNext f)"
  have D: "D = take ?c w @ (if fl_writing f = None then [] else f_data (frame_of segs (hd (fl_ready f))))"
    "fl_writing f \<noteq> None \<longrightarrow> fl_ready f \<noteq> []" "take ?n w = take ?c w @ payload segs (fl_ready f)"
    using assms False by (simp_all add: stream_ok_def)
  have "prefix D (take ?n w)" using D by (cases "fl_ready f") (auto split: if_splits)
  then show ?thesis using take_is_prefix prefix_order.trans by blast
qed (use assms in \<open>simp add: stream_ok_def\<close>)

interpretation stream: flow_property "stream_ok w i D" for w i D
proof unfold_locales
  fix f g :: logicalFlow and segs segs' :: "segment list"
  assume q: "quiet_flow f g" and fr: "\<And>s. \<not> fl_closed g \<Longrightarrow> s \<in> set (incoming g) \<Longrightarrow> sg_f (segs' ! s) = sg_f (segs ! s)" and h: "stream_ok w i D segs f"
  show "stream_ok w i D segs' g"
  proof (cases "fl_id g = i \<and> \<not> fl_udp g \<and> \<not> fl_closed g")
    case False
    have "fl_id g = i \<Longrightarrow> \<not> fl_udp g \<Longrightarrow> prefix D w" using stream_prefix [OF h] q by (simp add: quiet_flow_def)
    then show ?thesis using False by (auto simp: stream_ok_def)
  next
    case True
    have same: "fl_recv g = fl_recv f" "fl_ready g = fl_ready f" "fl_recvNext g = fl_recvNext f" "fl_consumed g = fl_consumed f" "fl_writing g = fl_writing f"
      "fl_id f = i" "\<not> fl_udp f" "\<not> fl_closed f"
      using q True by (auto simp: quiet_flow_def)
    have ready: "frame_of segs' s = frame_of segs s" if "s \<in> set (fl_ready f)" for s using fr [of s] True that by (simp add: incoming_def same)
    have recv: "frame_of segs' s = frame_of segs s" if "(off, s) \<in> set (fl_recv f)" for off s
      using fr [of s] True that by (force simp: incoming_def same)
    have "payload segs' (fl_ready f) = payload segs (fl_ready f)" by (rule payload_cong [OF ready])
    moreover have "fl_ready f \<noteq> [] \<Longrightarrow> frame_of segs' (hd (fl_ready f)) = frame_of segs (hd (fl_ready f))" by (simp add: ready)
    ultimately show ?thesis using h True same recv unfolding stream_ok_def by (auto simp: case_prod_beta)
  qed
qed

lemma stream_fresh: "fresh_flow f \<Longrightarrow> stream_ok w i [] segs f"
  by (simp add: stream_ok_def fresh_flow_def)

lemma drain_stream:
  assumes "length w < 2 ^ 64"
  shows "drain_recv segs recv nxt rdy = (recv', nxt', rdy') \<Longrightarrow> \<forall>(off, s) \<in> set recv. slice w (unat off) (f_data (frame_of segs s)) \<Longrightarrow>
    unat nxt \<le> length w \<Longrightarrow> \<exists>more. rdy' = rdy @ more \<and> unat nxt' \<le> length w \<and> unat nxt' = unat nxt + length (payload segs more) \<and>
      take (unat nxt') w = take (unat nxt) w @ payload segs more"
proof (induction segs recv nxt rdy rule: drain_recv.induct)
  case (1 segs recv nxt rdy)
  show ?case
  proof (cases "map_of recv nxt")
    case None
    then show ?thesis using "1.prems" by (auto simp: drain_recv.simps [of segs recv] intro: exI [of _ "[]"])
  next
    case (Some s)
    let ?d = "f_data (frame_of segs s)"
    have d: "drain_recv segs (AList.delete nxt recv) (nxt + word_of_nat (length ?d)) (rdy @ [s]) = (recv', nxt', rdy')"
      using Some "1.prems"(1) by (simp add: drain_recv.simps [of segs recv])
    have s: "slice w (unat nxt) ?d" using "1.prems"(2) map_of_SomeD [OF Some] by blast
    then have le: "unat nxt + length ?d \<le> length w" by (simp add: slice_def)
    then have u: "unat (nxt + word_of_nat (length ?d)) = unat nxt + length ?d" using assms by (intro unat_advance) simp
    have del: "\<forall>(off, s) \<in> set (AList.delete nxt recv). slice w (unat off) (f_data (frame_of segs s))"
      using "1.prems"(2) by (auto simp: AList.delete_eq)
    obtain more where "rdy' = (rdy @ [s]) @ more" "unat nxt' \<le> length w" "unat nxt' = unat nxt + length ?d + length (payload segs more)"
      "take (unat nxt') w = take (unat nxt + length ?d) w @ payload segs more"
      using "1.IH" [OF Some d del] u le by auto
    then show ?thesis using slice_extends [OF s] by (intro exI [of _ "s # more"]) simp
  qed
qed

section \<open>Receiving\<close>

text \<open>What a step of the abstract receiver hands to the endpoint.\<close>

definition starts :: "segment list \<Rightarrow> logicalFlow \<Rightarrow> logicalFlow \<Rightarrow> bytes" where
  "starts segs f g = (if fl_writing f \<noteq> None then [] else case fl_writing g of None \<Rightarrow> [] | Some s \<Rightarrow> f_data (frame_of segs s))"

text \<open>A stream event that fits the byte string.\<close>

fun fits :: "bytes \<Rightarrow> uint64 \<Rightarrow> event \<Rightarrow> bool" where
  "fits w i (Handle c m now) = (f_kind m = frameData \<and> f_flow m = i \<longrightarrow> slice w (unat (f_offset m)) (f_data m))"
| "fits w i e = True"

lemma stream_accept:
  assumes w: "length w < 2 ^ 64" and h: "stream_ok w i D segs f" and f: "fl_id f = i" "\<not> fl_udp f" "\<not> fl_closed f"
    and ptr: "\<forall>s \<in> set (flow_lists f). s < length segs" and m: "slice w (unat (f_offset m)) (f_data m)"
    and b: "f_data m \<noteq> []" "unat (f_offset m) + length (f_data m) < 2 ^ 64" "\<not> frame_end m \<le> fl_recvNext f" and s: "sg_f sg = trim_frame f m"
    and d: "drain_recv (segs @ [sg]) (AList.update (f_offset (trim_frame f m)) (length segs) (fl_recv f)) (fl_recvNext f) (fl_ready f) = (rv, nx, rd)"
  shows "stream_ok w i D (segs @ [sg]) (f\<lparr>fl_recv := rv, fl_ready := rd, fl_recvNext := nx\<rparr>)"
proof -
  let ?x = "trim_frame f m" and ?segs = "segs @ [sg]"
  let ?recv = "AList.update (f_offset ?x) (length segs) (fl_recv f)"
  have st: "D = take (unat (fl_consumed f)) w @ (if fl_writing f = None then [] else f_data (frame_of segs (hd (fl_ready f))))"
    "fl_writing f \<noteq> None \<longrightarrow> fl_ready f \<noteq> []" "unat (fl_recvNext f) \<le> length w"
    "unat (fl_consumed f) + length (payload segs (fl_ready f)) = unat (fl_recvNext f)"
    "take (unat (fl_recvNext f)) w = take (unat (fl_consumed f)) w @ payload segs (fl_ready f)"
    "\<forall>(off, s) \<in> set (fl_recv f). slice w (unat off) (f_data (frame_of segs s))"
    using h f by (simp_all add: stream_ok_def)
  have old: "frame_of ?segs t = frame_of segs t" if "t \<in> set (incoming f)" for t
    using ptr incoming_listed [OF that] by (simp add: nth_append)
  note t = trim_frame_bounds [OF b]
  have new: "slice w (unat (f_offset ?x)) (f_data ?x)"
    using slice_drop [OF m, of "unat (f_offset ?x) - unat (f_offset m)"] t b(1) by auto
  have entries: "\<forall>(off, s) \<in> set ?recv. slice w (unat off) (f_data (frame_of ?segs s))"
  proof (clarify)
    fix off t
    assume "(off, t) \<in> set ?recv"
    then consider "(off, t) = (f_offset ?x, length segs)" | "(off, t) \<in> set (fl_recv f)" by (auto dest: update_member)
    then show "slice w (unat off) (f_data (frame_of ?segs t))"
    proof cases
      case 2
      then have "t \<in> set (incoming f)" by (force simp: incoming_def)
      then show ?thesis using old [of t] 2 st(6) by auto
    qed (use new s in simp)
  qed
  obtain more where more: "rd = fl_ready f @ more" "unat nx \<le> length w" "unat nx = unat (fl_recvNext f) + length (payload ?segs more)"
    "take (unat nx) w = take (unat (fl_recvNext f)) w @ payload ?segs more"
    using drain_stream [OF w d entries st(3)] by blast
  have rv: "\<forall>(off, s) \<in> set rv. slice w (unat off) (f_data (frame_of ?segs s))" using drain_recv_parts [OF d] entries by blast
  have pay: "payload ?segs (fl_ready f) = payload segs (fl_ready f)" by (rule payload_cong) (simp add: old incoming_def)
  have hd: "fl_writing f \<noteq> None \<Longrightarrow> frame_of ?segs (hd (fl_ready f @ more)) = frame_of segs (hd (fl_ready f))"
    using st(2) old [of "hd (fl_ready f)"] by (simp add: incoming_def)
  show ?thesis using st f more rv pay hd unfolding stream_ok_def by simp
qed

lemma stream_receives:
  assumes w: "length w < 2 ^ 64" and h: "stream_ok w i D segs f" and r: "receives e segs f segs' g" and l: "flow_local segs f"
    and ptr: "\<forall>s \<in> set (flow_lists f). s < length segs" and e: "fits w i e"
  shows "stream_ok w i (D @ starts segs f g) segs' g"
proof (cases "fl_id f = i \<and> \<not> fl_udp f")
  case False
  then show ?thesis using receives_local(6,7) [OF r l ptr] by (auto simp: stream_ok_def)
next
  case f: True
  from r show ?thesis
  proof cases
    case (Accept c m now sg rv nx rd)
    have "slice w (unat (f_offset m)) (f_data m)" using e f Accept(3-5) by simp
    then have "stream_ok w i D segs' g"
      using stream_accept [OF w h _ _ _ ptr _ Accept(8-10) Accept(12,13)] f Accept(1,2,6) by simp
    then show ?thesis using Accept(2) by (simp add: starts_def split: option.split)
  next
    case (Datagram s)
    then show ?thesis using f by simp
  next
    case (Begin a now s rest)
    then show ?thesis using h f by (simp add: stream_ok_def starts_def)
  next
    case (Finish s)
    have ready: "\<exists>rest. fl_ready f = s # rest" using l Finish(3,4) by (simp add: flow_local_def delivers_first_def)
    then obtain rest where rest: "fl_ready f = s # rest" ..
    let ?d = "f_data (frame_of segs s)" and ?c = "unat (fl_consumed f)" and ?n = "unat (fl_recvNext f)"
    have st: "D = take ?c w @ ?d" "?n \<le> length w" "?c + length ?d + length (payload segs rest) = ?n" "take ?n w = take ?c w @ ?d @ payload segs rest"
      "\<forall>(off, s) \<in> set (fl_recv f). slice w (unat off) (f_data (frame_of segs s))"
      using h f Finish(3,4) by (simp_all add: stream_ok_def rest)
    have u: "unat (fl_consumed f + word_of_nat (length ?d)) = ?c + length ?d" using st(2,3) w by (intro unat_advance) simp
    have "take (?c + length ?d) w = take (?c + length ?d) (take ?n w)" using st(3) by simp
    also have "\<dots> = take ?c w @ ?d" unfolding st(4) using st(2,3) by simp
    finally have "take (?c + length ?d) w = take ?c w @ ?d" .
    then show ?thesis using Finish f st u by (simp add: stream_ok_def starts_def rest)
  next
    case Abandon
    then show ?thesis using h f by (simp add: stream_ok_def starts_def split: option.split)
  qed
qed

section \<open>Runs\<close>

text \<open>The bytes of flow \<open>a\<close> whose delivery to the endpoint a step starts, and all that a run hands over.\<close>

definition handed :: "nat \<Rightarrow> peer \<Rightarrow> peer \<Rightarrow> bytes" where
  "handed a p q = (if a < length (pr_heap p) then starts (pr_segs p) (flow p a) (flow q a) else [])"

fun delivered :: "nat \<Rightarrow> event list \<Rightarrow> peer \<Rightarrow> bytes" where
  "delivered a [] p = []"
| "delivered a (e # es) p = handed a p (peer_step e p) @ delivered a es (peer_step e p)"

definition stream_at :: "bytes \<Rightarrow> uint64 \<Rightarrow> nat \<Rightarrow> bytes \<Rightarrow> peer \<Rightarrow> bool" where
  "stream_at w i a D p \<longleftrightarrow> (if a < length (pr_heap p) then stream_ok w i D (pr_segs p) (flow p a) else D = [])"

lemma starts_same: "fl_writing g = fl_writing f \<Longrightarrow> starts segs f g = []"
  by (simp add: starts_def split: option.split)

lemma stream_quiet:
  assumes q: "quiet p q" and p: "pointers p" and ok: "peer_ok q" and h: "stream_at w i a D p"
  shows "stream_at w i a D q" and "handed a p q = []"
proof -
  show "handed a p q = []" using q by (auto simp: handed_def quiet_def quiet_flow_def intro: starts_same)
  show "stream_at w i a D q"
  proof (cases "a < length (pr_heap p)")
    case True
    then show ?thesis using stream.keep_quiet [OF q p ok True] h q by (auto simp: stream_at_def quiet_def)
  next
    case False
    then show ?thesis using h q stream_fresh by (auto simp: stream_at_def quiet_def)
  qed
qed

lemma stream_step:
  assumes w: "length w < 2 ^ 64" and inv: "peer_inv p" and n: "pr_nextID p + 1 \<noteq> 0" and h: "stream_at w i a D p" and e: "fits w i e"
  shows "stream_at w i a (D @ handed a p (peer_step e p)) (peer_step e p)"
proof -
  let ?q = "peer_step e p"
  have p: "peer_ok p" "local_ok p" "pointers p" using inv peer_ok_pointers by (simp_all add: peer_inv_def)
  have ok: "peer_ok ?q" using step_peer_ok [OF inv n] .
  show ?thesis using step_receives [OF p(1), of e]
  proof (elim disjE conjE exE)
    assume "quiet p ?q"
    then show ?thesis using stream_quiet [OF _ p(3) ok h] by simp
  next
    assume q: "quiet (numbered p) ?q"
    have "stream_at w i a D (numbered p)" "pointers (numbered p)" "handed a (numbered p) ?q = handed a p ?q"
      using h p(3) by (simp_all add: stream_at_def numbered_def handed_def)
    then show ?thesis using stream_quiet [OF q _ ok] by simp
  next
    fix b
    assume "receives_at e b p ?q"
    then obtain segs f where b: "b < length (pr_heap p)" and r: "receives e (pr_segs p) (flow p b) segs f" and q: "quiet (rewrite_flow b segs f p) ?q"
      by (auto simp: receives_at_def)
    have l: "flow_local (pr_segs p) (flow p b)" using p(2) b by (simp add: local_ok_def)
    have ptr: "\<forall>s \<in> set (flow_lists (flow p b)). s < length (pr_segs p)" using flow_pointers [OF p(3) b] by simp
    note ptrs = pointers_receives [OF p(3) b l r]
    show ?thesis
    proof (cases "a < length (pr_heap p)")
      case True
      define g where "g = (pr_heap p)[b := f] ! a"
      have g: "flow (rewrite_flow b segs f p) a = g" by (simp add: rewrite_flow_def g_def)
      have "fl_writing (flow ?q a) = fl_writing g" using q True g by (auto simp: quiet_def quiet_flow_def rewrite_flow_def g_def)
      then have hand: "handed a p ?q = starts (pr_segs p) (flow p a) g" using True by (simp add: handed_def starts_def)
      have "stream_ok w i (D @ starts (pr_segs p) (flow p a) g) (pr_segs ?q) (flow ?q a)"
      proof (rule stream.keep_receives [OF r q b p(3) ptrs ok True])
        show "stream_ok w i (D @ starts (pr_segs p) (flow p a) g) (pr_segs p) (flow p a)" if "a \<noteq> b"
          using h True that by (simp add: stream_at_def g_def starts_same)
        show "stream_ok w i (D @ starts (pr_segs p) (flow p a) g) segs f" if "a = b"
          using stream_receives [OF w _ r l ptr e, of D] h that b by (simp add: stream_at_def g_def)
      qed
      moreover have "a < length (pr_heap ?q)" using q True by (simp add: quiet_def rewrite_flow_def)
      ultimately show ?thesis by (simp add: stream_at_def hand)
    next
      case False
      then have "fresh_flow (flow ?q a)" if "a < length (pr_heap ?q)" using q that by (simp add: quiet_def rewrite_flow_def)
      then show ?thesis using h False stream_fresh by (auto simp: stream_at_def handed_def)
    qed
  qed
qed

lemma stream_run:
  assumes w: "length w < 2 ^ 64"
  shows "run_inv p \<Longrightarrow> unat (pr_nextID p) + length es < 2 ^ 64 \<Longrightarrow> stream_at w i a D p \<Longrightarrow> list_all (fits w i) es \<Longrightarrow>
    stream_at w i a (D @ delivered a es p) (peer_run es p)"
proof (induction es arbitrary: p D)
  case (Cons e es)
  note n = next_number [OF Cons.prems(1,2)]
  have "stream_at w i a (D @ handed a p (peer_step e p)) (peer_step e p)"
    using stream_step [OF w _ n(1)] Cons.prems by (simp add: run_inv_def)
  from Cons.IH [OF run_inv_step(1) [OF Cons.prems(1) n(1)] n(2) this] show ?case using Cons.prems(4) by simp
qed simp

text \<open>A flow keeps its number and its kind.\<close>

definition identity :: "nat \<Rightarrow> peer \<Rightarrow> (uint64 \<times> bool) option" where
  "identity a p = (if a < length (pr_heap p) then Some (fl_id (flow p a), fl_udp (flow p a)) else None)"

lemma identity_quiet: "quiet p q \<Longrightarrow> identity a p = Some x \<Longrightarrow> identity a q = Some x"
  by (auto simp: identity_def quiet_def quiet_flow_def split: if_splits)

lemma identity_step:
  assumes inv: "peer_inv p" and n: "identity a p = Some x"
  shows "identity a (peer_step e p) = Some x"
proof -
  have p: "peer_ok p" "local_ok p" "pointers p" using inv peer_ok_pointers by (simp_all add: peer_inv_def)
  have same: "identity a (numbered p) = identity a p" by (simp add: identity_def numbered_def)
  show ?thesis using step_receives [OF p(1), of e]
  proof (elim disjE conjE exE)
    show "quiet p (peer_step e p) \<Longrightarrow> ?thesis" by (rule identity_quiet [OF _ n])
    show "quiet (numbered p) (peer_step e p) \<Longrightarrow> ?thesis" by (rule identity_quiet [OF _ trans [OF same n]])
    fix b
    assume "receives_at e b p (peer_step e p)"
    then obtain segs f where b: "b < length (pr_heap p)" and r: "receives e (pr_segs p) (flow p b) segs f" and q: "quiet (rewrite_flow b segs f p) (peer_step e p)"
      by (auto simp: receives_at_def)
    have l: "flow_local (pr_segs p) (flow p b)" using p(2) b by (simp add: local_ok_def)
    have ptr: "\<forall>s \<in> set (flow_lists (flow p b)). s < length (pr_segs p)" using flow_pointers [OF p(3) b] by simp
    note same_b = receives_local(6,7) [OF r l ptr]
    have "identity a (rewrite_flow b segs f p) = Some x"
      using n b same_b by (cases "a = b") (simp_all add: identity_def rewrite_flow_def split: if_splits)
    then show ?thesis by (rule identity_quiet [OF q])
  qed
qed

lemma identity_run: "run_inv p \<Longrightarrow> unat (pr_nextID p) + length es < 2 ^ 64 \<Longrightarrow> identity a p = Some x \<Longrightarrow> identity a (peer_run es p) = Some x"
proof (induction es arbitrary: p)
  case (Cons e es)
  note n = next_number [OF Cons.prems(1,2)]
  show ?case using Cons.IH [OF run_inv_step(1) [OF Cons.prems(1) n(1)] n(2)] identity_step Cons.prems(1,3) by (simp add: run_inv_def)
qed simp

section \<open>Delivery\<close>

definition waiting :: "peer \<Rightarrow> nat \<Rightarrow> bytes" where
  "waiting p a = payload (pr_segs p) (if fl_writing (flow p a) = None then fl_ready (flow p a) else tl (fl_ready (flow p a)))"

text \<open>
  C1: stream data is delivered in order, without gaps and without duplicates. If every DATA frame
  that arrives for a stream is a piece of a byte string at its offset, then, over any run, with
  frames lost, repeated, reordered and split over carriers, what the peer hands to the endpoint is
  a prefix of the string; and as long as the flow is open, the bytes below the acknowledged offset
  are exactly what was handed over and what waits to be.
\<close>

theorem stream_delivered_in_order:
  assumes "normalized l0 = Inr l" and "length es < 2 ^ 64" and w: "length w < 2 ^ 64"
    and q: "q = peer_run es (newPeer l g server now)" and a: "identity a q = Some (i, False)" and e: "list_all (fits w i) es"
  shows "prefix (delivered a es (newPeer l g server now)) w \<and>
    (fl_closed (flow q a) \<or> delivered a es (newPeer l g server now) @ waiting q a = take (unat (fl_recvNext (flow q a))) w)"
proof -
  let ?p = "newPeer l g server now"
  let ?D = "delivered a es ?p"
  have i: "a < length (pr_heap q)" "fl_id (flow q a) = i" "\<not> fl_udp (flow q a)" using a by (simp_all add: identity_def split: if_splits)
  have start: "stream_at w i a [] ?p" "unat (pr_nextID ?p) + length es < 2 ^ 64" using assms(2) by (simp_all add: stream_at_def newPeer_def)
  have "stream_at w i a ([] @ ?D) q" unfolding q by (rule stream_run [OF w run_inv_new [OF assms(1)] start(2,1) e])
  then have st: "stream_ok w i ?D (pr_segs q) (flow q a)" using i(1) by (simp add: stream_at_def)
  have "?D @ waiting q a = take (unat (fl_recvNext (flow q a))) w" if "\<not> fl_closed (flow q a)"
  proof -
    define f where "f = flow q a"
    have "?D = take (unat (fl_consumed f)) w @ (if fl_writing f = None then [] else f_data (frame_of (pr_segs q) (hd (fl_ready f))))"
      "fl_writing f \<noteq> None \<longrightarrow> fl_ready f \<noteq> []" "take (unat (fl_recvNext f)) w = take (unat (fl_consumed f)) w @ payload (pr_segs q) (fl_ready f)"
      using st i that by (simp_all add: stream_ok_def f_def)
    then show ?thesis unfolding waiting_def f_def [symmetric] by (cases "fl_ready f") simp_all
  qed
  then show ?thesis using stream_prefix [OF st i(2,3)] by blast
qed

definition out_of_order :: "event list" where
  "out_of_order = [Add_carrier ''p'' 0 1 1, Serve_TCP ''h:80'' 1, Handle 0 (control_frame frameOpened 1 0 9000 []) 2,
     Handle 0 (control_frame frameData 1 2 0 [3]) 3, Handle 0 (control_frame frameData 1 0 0 [1, 2]) 4, Deliver_begin 0 5, Deliver_end 0 None 6, Deliver_begin 0 7]"

theorem stream_delivered_in_order_witness:
  "prefix (delivered 0 out_of_order (newPeer DefaultLimits '''' False 0)) [1, 2, 3, 4]"
proof -
  let ?p = "newPeer DefaultLimits '''' False 0"
  have len: "length out_of_order < 2 ^ 64" "length (take 2 out_of_order) < 2 ^ 64" by (simp_all add: out_of_order_def)
  have split: "peer_run out_of_order ?p = peer_run (drop 2 out_of_order) (peer_run (take 2 out_of_order) ?p)"
    by (metis append_take_drop_id peer_run_simps(3))
  have "identity 0 (peer_run (take 2 out_of_order) ?p) = Some (1, False)" "unat (pr_nextID (peer_run (take 2 out_of_order) ?p)) = 1" by code_simp+
  then have "identity 0 (peer_run out_of_order ?p) = Some (1, False)"
    unfolding split using identity_run [OF run_inv_from_new(1) [OF zero_limits_normalized len(2)], where es = "drop 2 out_of_order"] len(1)
    by simp
  moreover have "list_all (fits [1, 2, 3, 4] 1) out_of_order"
    by (simp add: out_of_order_def control_frame_def slice_def frameOpened_def frameData_def)
  ultimately show ?thesis using stream_delivered_in_order [OF zero_limits_normalized len(1) _ refl, of "[1, 2, 3, 4]"] by simp
qed

end
