(* ===== verification/Peer_Paths.thy ===== *)
theory Peer_Paths
  imports Peer_Run
begin

text \<open>
  Path selection, the consistency of the maps of a peer over whole runs, and the reassembly loop.
\<close>

section \<open>Path selection\<close>

lemma ready_cong: "pr_paths q = pr_paths p \<Longrightarrow> pr_carriers q = pr_carriers p \<Longrightarrow> ready q = ready p"
proof -
  assume p: "pr_paths q = pr_paths p" "pr_carriers q = pr_carriers p"
  then have "live q = live p" by (simp add: fun_eq_iff live_def split: option.split)
  then show ?thesis using p(1) by (intro ext) (simp only: ready_def)
qed

lemma select_ready: "ready (selectPath now p) = ready p"
  by (rule ready_cong) (simp_all add: selectPath_def Let_def)

lemma ready_known: "ready p n \<Longrightarrow> n \<in> fst ` set (pr_paths p)"
  by (auto simp: ready_def split: option.splits dest: map_of_SomeD intro: rev_image_eqI)

lemma choose_other:
  assumes "map_of (pr_paths p) '''' = None"
  shows "case find (ready p) (sort (map fst (pr_paths p))) of
     None \<Rightarrow> \<forall>n. \<not> ready p n
   | Some n \<Rightarrow> ready p n \<and> n \<noteq> '''' \<and> (\<forall>m. ready p m \<longrightarrow> n \<le> m)"
proof (cases "find (ready p) (sort (map fst (pr_paths p)))")
  case None
  then have "\<not> ready p n" for n using ready_known [of p n] by (auto simp: find_None_iff)
  then show ?thesis using None by simp
next
  case (Some n)
  then obtain i where i: "i < length (sort (map fst (pr_paths p)))" "ready p (sort (map fst (pr_paths p)) ! i)" "n = sort (map fst (pr_paths p)) ! i"
    "\<forall>j < i. \<not> ready p (sort (map fst (pr_paths p)) ! j)"
    by (auto simp: find_Some_iff)
  have "n \<le> m" if "ready p m" for m
  proof -
    have "m \<in> set (sort (map fst (pr_paths p)))" using ready_known [OF that] by simp
    then obtain j where j: "j < length (sort (map fst (pr_paths p)))" "m = sort (map fst (pr_paths p)) ! j" by (metis in_set_conv_nth)
    then have "i \<le> j" using i(4) that by (metis not_le)
    then show ?thesis using sorted_nth_mono [OF sorted_sort _ j(1)] i(3) j(2) by blast
  qed
  moreover have "n \<noteq> ''''" using i(2,3) assms by (auto simp: ready_def)
  ultimately show ?thesis using Some i(2,3) by simp
qed

text \<open>
  Path selection. A ready active path is kept; otherwise the ready preferred path is taken,
  otherwise the first ready path by name, and the active path is empty exactly when no path is
  ready. A switch is counted exactly when one path replaces another.
\<close>

theorem path_selection:
  assumes "map_of (pr_paths p) '''' = None" and q: "q = selectPath now p"
  shows "(ready p (pr_active p) \<longrightarrow> pr_active q = pr_active p) \<and>
    (\<not> ready p (pr_active p) \<and> ready p (pr_preferred p) \<longrightarrow> pr_active q = pr_preferred p) \<and>
    (\<not> ready p (pr_active p) \<and> \<not> ready p (pr_preferred p) \<and> pr_active q \<noteq> '''' \<longrightarrow> (\<forall>n. ready p n \<longrightarrow> pr_active q \<le> n)) \<and>
    (if pr_active q = '''' then \<forall>n. \<not> ready q n else ready q (pr_active q)) \<and>
    pr_switches q = pr_switches p + (if pr_active p \<noteq> '''' \<and> pr_active q \<noteq> '''' \<and> pr_active q \<noteq> pr_active p then 1 else 0)"
proof -
  have no: "\<not> ready p ''''" using assms(1) by (simp add: ready_def)
  have act: "pr_active q = choose_path p" by (simp add: q selectPath_def Let_def)
  have sw: "pr_switches q = pr_switches p + (if pr_active p \<noteq> '''' \<and> choose_path p \<noteq> '''' \<and> choose_path p \<noteq> pr_active p then 1 else 0)"
    by (simp add: q selectPath_def Let_def)
  have rd: "ready q = ready p" unfolding q by (rule select_ready)
  show ?thesis
    using choose_other [OF assms(1)] no unfolding act sw rd choose_path_def
    by (cases "find (ready p) (sort (map fst (pr_paths p)))") (auto split: if_splits)
qed

theorem path_selection_witness: "\<not> ready (selectPath 1 (newPeer DefaultLimits '''' False 0)) ''p''"
proof -
  have "map_of (pr_paths (newPeer DefaultLimits '''' False 0)) '''' = None" "pr_active (selectPath 1 (newPeer DefaultLimits '''' False 0)) = ''''" by code_simp+
  then show ?thesis using path_selection [of "newPeer DefaultLimits '''' False 0" _ 1, OF _ refl] by simp
qed

section \<open>The maps of a peer\<close>

text \<open>
  C18: over every run the peer's data structures are well formed. Flows are filed under distinct
  numbers, each entry points to an open flow with that number and every open flow is filed; a
  path has exactly six lanes of existing carriers; flows and queue entries point to existing
  segments; a segment is owned by at most one flow, and its reference count is the number of
  queue entries and deliveries that hold it.
\<close>

theorem peer_well_formed:
  assumes "normalized l0 = Inr l" and "length es < 2 ^ 64" and q: "q = peer_run es (newPeer l g server now)"
  shows "distinct (map fst (pr_flows q)) \<and>
    (\<forall>i a. (i, a) \<in> set (pr_flows q) \<longleftrightarrow> a < length (pr_heap q) \<and> fl_id (flow q a) = i \<and> \<not> fl_closed (flow q a)) \<and>
    (\<forall>(n, cs) \<in> set (pr_paths q). length cs = 6 \<and> (\<forall>a. Some a \<in> set cs \<longrightarrow> a < length (pr_carriers q))) \<and>
    (\<forall>f \<in> set (pr_heap q). \<forall>s \<in> set (flow_lists f). s < length (pr_segs q)) \<and>
    (\<forall>c \<in> set (pr_carriers q). \<forall>s \<in> set (car_refs c). s < length (pr_segs q)) \<and>
    (\<forall>s < length (pr_segs q). owners (pr_heap q) s = of_bool (sg_owned (seg q s)) \<and> sg_refs (seg q s) = referrers (pr_carriers q) (pr_heap q) s)"
proof -
  have ok: "peer_ok q" using run_inv_from_new(1) [OF assms(1,2)] by (simp add: q run_inv_def peer_inv_def)
  then have sh: "flows_ok (pr_flows q) (pr_heap q)" "paths_ok (length (pr_carriers q)) (pr_paths q)" and acc: "accounts none1 none1 none2 0 q"
    by (simp_all add: peer_ok_def shape_def)
  have ptr: "pointers q" using peer_ok_pointers [OF ok] .
  have flows: "(i, a) \<in> set (pr_flows q) \<longleftrightarrow> a < length (pr_heap q) \<and> fl_id (flow q a) = i \<and> \<not> fl_closed (flow q a)" for i a
    using sh(1) by (auto simp: flows_ok_def)
  have segs: "owners (pr_heap q) s = of_bool (sg_owned (seg q s)) \<and> sg_refs (seg q s) = referrers (pr_carriers q) (pr_heap q) s" if "s < length (pr_segs q)" for s
    using acc that by (simp add: accounts_def seg_ok_def)
  have "\<forall>(n, cs) \<in> set (pr_paths q). length cs = 6 \<and> (\<forall>a. Some a \<in> set cs \<longrightarrow> a < length (pr_carriers q))"
    using sh(2) by (simp add: paths_ok_def CarriersPerPath_def)
  moreover have "\<forall>f \<in> set (pr_heap q). \<forall>s \<in> set (flow_lists f). s < length (pr_segs q)" "\<forall>c \<in> set (pr_carriers q). \<forall>s \<in> set (car_refs c). s < length (pr_segs q)"
    using ptr by (auto simp: pointers_ok_def)
  moreover have "distinct (map fst (pr_flows q))" using sh(1) by (simp add: flows_ok_def gomap_ok_def)
  ultimately show ?thesis using flows segs by blast
qed

theorem peer_well_formed_witness:
  "distinct (map fst (pr_flows (peer_run [Serve_TCP ''h:80'' 1, Tick 2] (newPeer DefaultLimits '''' False 0))))"
  using peer_well_formed [OF zero_limits_normalized _ refl, of "[Serve_TCP ''h:80'' 1, Tick 2]"] by simp

section \<open>Reassembly\<close>

lemma delete_length: "distinct (map fst m) \<Longrightarrow> map_of m k = Some v \<Longrightarrow> Suc (length (AList.delete k m)) = length m"
proof (induction m)
  case (Cons e m)
  show ?case
  proof (cases "fst e = k")
    case True
    then have "k \<notin> fst ` set m" using Cons.prems by auto
    then have "AList.delete k m = m" by (induction m) auto
    then show ?thesis using True by (cases e) auto
  qed (use Cons in \<open>cases e; auto\<close>)
qed simp

text \<open>
  The offsets at which a list of segments lies when they follow each other without a gap, and the
  length of their data.
\<close>

definition seg_len :: "segment list \<Rightarrow> nat \<Rightarrow> nat" where
  "seg_len segs s = length (f_data (sg_f (segs ! s)))"

primrec offsets :: "segment list \<Rightarrow> uint64 \<Rightarrow> nat list \<Rightarrow> uint64 list" where
  "offsets segs nxt [] = []"
| "offsets segs nxt (s # ss) = nxt # offsets segs (nxt + word_of_nat (seg_len segs s)) ss"

text \<open>What a run of the loop that moves the segments \<open>moved\<close> does to the receive map and the queue.\<close>

definition drained :: "segment list \<Rightarrow> (uint64, nat) gomap \<Rightarrow> uint64 \<Rightarrow> nat list \<Rightarrow> nat list \<Rightarrow> bool" where
  "drained segs recv nxt rdy moved =
     (let os = offsets segs nxt moved; recv' = filter (\<lambda>(off, x). off \<notin> set os) recv;
          nxt' = nxt + word_of_nat (sum_list (map (seg_len segs) moved))
      in drain_recv segs recv nxt rdy = (recv', nxt', rdy @ moved) \<and>
         list_all2 (\<lambda>off x. map_of recv off = Some x) os moved \<and> distinct os \<and>
         map_of recv' nxt' = None \<and> length recv' + length moved = length recv)"

lemma drained_Cons:
  assumes "distinct (map fst recv)" and "map_of recv nxt = Some s"
    and "drained segs (AList.delete nxt recv) (nxt + word_of_nat (seg_len segs s)) (rdy @ [s]) moved"
  shows "drained segs recv nxt rdy (s # moved)"
proof -
  let ?recv = "AList.delete nxt recv" and ?nxt = "nxt + word_of_nat (seg_len segs s)"
  let ?os = "offsets segs ?nxt moved"
  note rest = assms(3) [unfolded drained_def Let_def]
  have later: "map_of recv off = Some x \<and> off \<noteq> nxt" if "map_of ?recv off = Some x" for off x
    using that by (simp split: if_splits)
  have "nxt \<notin> set ?os"
  proof
    assume "nxt \<in> set ?os"
    with rest obtain x where "map_of ?recv nxt = Some x"
      by (auto simp: list_all2_conv_all_nth in_set_conv_nth)
    with later show False by blast
  qed
  moreover have "list_all2 (\<lambda>off x. map_of recv off = Some x) ?os moved"
    by (rule list_all2_mono [of "\<lambda>off x. map_of ?recv off = Some x"]) (use rest later in blast)+
  moreover have "filter (\<lambda>(off, x). off \<notin> set ?os) ?recv = filter (\<lambda>(off, x). off \<notin> set (nxt # ?os)) recv"
    by (auto simp: AList.delete_eq intro!: filter_cong)
  moreover have "drain_recv segs recv nxt rdy = drain_recv segs ?recv ?nxt (rdy @ [s])"
    by (subst drain_recv.simps) (simp add: assms(2) seg_len_def)
  moreover have "Suc (length ?recv) = length recv" by (rule delete_length [OF assms(1,2)])
  ultimately show ?thesis
    using rest assms(2) unfolding drained_def Let_def offsets.simps by (simp add: add.assoc)
qed

lemma drained_exists: "distinct (map fst recv) \<Longrightarrow> \<exists>moved. drained segs recv nxt rdy moved"
proof (induction segs recv nxt rdy rule: drain_recv.induct)
  case (1 segs recv nxt rdy)
  show ?case
  proof (cases "map_of recv nxt")
    case None
    then have "drained segs recv nxt rdy []" by (simp add: drained_def drain_recv.simps [of segs recv])
    then show ?thesis ..
  next
    case (Some s)
    have "distinct (map fst (AList.delete nxt recv))" using "1.prems" by (simp add: distinct_delete)
    from "1.IH" [OF Some this] drained_Cons [OF "1.prems" Some] show ?thesis
      unfolding seg_len_def by blast
  qed
qed

text \<open>
  C38: the loop that moves contiguous segments to the delivery queue ends for every state of the
  receive map. It appends to the queue exactly the segments filed at the running offset, each
  starting where the one before it ends, and advances the next expected offset by their total
  length; the receive map keeps the other segments, none of them at the next expected offset, so
  that no deliverable data stays behind and no segment is moved twice.
\<close>

theorem reassembly_terminates:
  assumes "distinct (map fst recv)"
  shows "\<exists>moved. let os = offsets segs nxt moved; recv' = filter (\<lambda>(off, x). off \<notin> set os) recv;
      nxt' = nxt + word_of_nat (sum_list (map (seg_len segs) moved))
    in drain_recv segs recv nxt rdy = (recv', nxt', rdy @ moved) \<and>
       list_all2 (\<lambda>off x. map_of recv off = Some x) os moved \<and> distinct os \<and>
       map_of recv' nxt' = None \<and> length recv' + length moved = length recv"
  using drained_exists [OF assms, of segs nxt rdy] unfolding drained_def .

text \<open>Three segments wait at the offsets 0, 2 and 9; the first two are contiguous.\<close>

definition sample_segment :: "bytes \<Rightarrow> segment" where
  "sample_segment bs = \<lparr>sg_f = control_frame frameData 1 0 0 bs, sg_cost = 0, sg_sending = False, sg_udp = False,
     sg_owned = True, sg_refs = 0, sg_sentPath = '''', sg_sentAt = 0\<rparr>"

theorem reassembly_terminates_witness:
  "\<exists>moved. drain_recv [sample_segment [1, 2], sample_segment [3], sample_segment [4]] [(9, 2), (2, 1), (0, 0)] 0 [7] =
     (filter (\<lambda>(off, x). off \<notin> set (offsets [sample_segment [1, 2], sample_segment [3], sample_segment [4]] 0 moved)) [(9, 2), (2, 1), (0, 0)],
      word_of_nat (sum_list (map (seg_len [sample_segment [1, 2], sample_segment [3], sample_segment [4]]) moved)), [7] @ moved) \<and>
     moved = [0, 1]"
proof -
  let ?segs = "[sample_segment [1, 2], sample_segment [3], sample_segment [4]]" and ?recv = "[(9, 2), (2, 1), (0, 0)] :: (uint64, nat) gomap"
  have "distinct (map fst ?recv)" by simp
  from reassembly_terminates [OF this, of ?segs 0 "[7]"] obtain moved where
    m: "drain_recv ?segs ?recv 0 [7] = (filter (\<lambda>(off, x). off \<notin> set (offsets ?segs 0 moved)) ?recv,
      word_of_nat (sum_list (map (seg_len ?segs) moved)), [7] @ moved)"
    unfolding Let_def by auto
  moreover have "drain_recv ?segs ?recv 0 [7] = ([(9, 2)], 3, [7, 0, 1])"
    by (simp add: drain_recv.simps sample_segment_def control_frame_def)
  ultimately show ?thesis by auto
qed

end
