(* ===== verification/Relay.thy ===== *)
theory Relay
  imports Peer_Run Routing_Policy
begin

text \<open>
  The relay of \<^verbatim>\<open>internal/continuity/relay.go\<close>: the sessions it keeps for its clients, each with a
  peer of its own, and the address policy of its default dialler. The critical sections of one
  accepted connection are separate steps; what TLS and the JSON decoder deliver (the fingerprint of
  the client's certificate and the hello message) is their input.
\<close>

section \<open>Sessions\<close>

record hello =
  he_Version :: int
  he_Session :: string
  he_Generation :: string
  he_Path :: string
  he_Lane :: int
  he_Limits :: limits

record relay =
  rl_limits :: limits
  rl_maxClients :: int
  rl_generation :: string
  rl_sessions :: "(string, peer) gomap"
  rl_pending :: nat
  rl_closed :: bool

definition NewRelay :: "limits \<Rightarrow> int \<Rightarrow> string \<Rightarrow> relay result" where
  "NewRelay limits maxClients generation = (case normalized limits of Inl e \<Rightarrow> Inl e | Inr l \<Rightarrow>
     let m = (if maxClients = 0 then 16 else maxClients) in
     if m < 1 \<or> m > 256 then Inl (Error_New ''invalid relay client limit'')
     else Inr \<lparr>rl_limits = l, rl_maxClients = m, rl_generation = generation, rl_sessions = [], rl_pending = 0, rl_closed = False\<rparr>)"

text \<open>What \<^verbatim>\<open>Serve\<close> does with an accepted connection; \<open>False\<close> when it is closed at once.\<close>

definition serve_conn :: "relay \<Rightarrow> bool \<times> relay" where
  "serve_conn r = (if rl_closed r \<or> int (rl_pending r) \<ge> rl_maxClients r * int CarriersPerPath * 2 then (False, r)
     else (True, r\<lparr>rl_pending := rl_pending r + 1\<rparr>))"

definition is_hex :: "char \<Rightarrow> bool" where
  "is_hex c \<longleftrightarrow> is_digit c \<or> c \<in> set ''abcdef'' \<or> c \<in> set ''ABCDEF''"

text \<open>\<^verbatim>\<open>hex.DecodeString\<close> succeeds with 16 bytes.\<close>

definition session_id :: "string \<Rightarrow> bool" where
  "session_id s \<longleftrightarrow> length s = 32 \<and> list_all is_hex s"

text \<open>The answer to a hello: the connection is dropped, is a probe, is refused with a code, or belongs to a session.\<close>

datatype admission = Drop | Probe | Refuse string | Admit string

definition session_key :: "string \<Rightarrow> hello \<Rightarrow> string" where
  "session_key fp h = fp @ '':'' @ he_Session h"

definition identity_sessions :: "string \<Rightarrow> relay \<Rightarrow> nat" where
  "identity_sessions key r = length (filter (\<lambda>(k, _). take 64 k = take 64 key) (rl_sessions r))"

definition session_limits :: "limits \<Rightarrow> limits \<Rightarrow> limits" where
  "session_limits mine remote = (if lm_FlowBytes remote < lm_FlowBytes mine then mine\<lparr>lm_FlowBytes := lm_FlowBytes remote\<rparr> else mine)"

definition open_session :: "string \<Rightarrow> hello \<Rightarrow> limits \<Rightarrow> gotime \<Rightarrow> relay \<Rightarrow> admission \<times> relay" where
  "open_session key h remote now r =
     (if rl_closed r then (Drop, r)
      else case map_of (rl_sessions r) key of
        Some _ \<Rightarrow> (Admit key, r)
      | None \<Rightarrow>
          if he_Generation h \<noteq> '''' then (Refuse ''generation'', r)
          else if int (length (rl_sessions r)) \<ge> rl_maxClients r then (Refuse ''capacity'', r)
          else if identity_sessions key r \<ge> 2 then (Refuse ''capacity'', r)
          else (Admit key, r\<lparr>rl_sessions := AList.update key (newPeer (session_limits (rl_limits r) remote) (rl_generation r) True now) (rl_sessions r)\<rparr>))"

definition accept_hello :: "string \<Rightarrow> hello \<Rightarrow> gotime \<Rightarrow> relay \<Rightarrow> admission \<times> relay" where
  "accept_hello fp h now r =
     (if he_Version h \<noteq> 1 then (Drop, r)
      else if he_Lane h = -1 \<and> he_Path h = ''probe'' \<and> he_Session h = '''' then (Probe, r)
      else if \<not> session_id (he_Session h) \<or> \<not> path_name (he_Path h) \<or> he_Lane h < 0 \<or> he_Lane h \<ge> int CarriersPerPath then (Drop, r)
      else if he_Generation h \<noteq> '''' \<and> he_Generation h \<noteq> rl_generation r then (Refuse ''generation'', r)
      else case normalized (he_Limits h) of
        Inl _ \<Rightarrow> (Refuse ''limits'', r)
      | Inr remote \<Rightarrow> open_session (session_key fp h) h remote now r)"

text \<open>A step of the peer of one session; attaching the accepted connection is one of them.\<close>

definition session_step :: "string \<Rightarrow> event \<Rightarrow> relay \<Rightarrow> relay" where
  "session_step key e r = (case map_of (rl_sessions r) key of
     None \<Rightarrow> r
   | Some p \<Rightarrow> r\<lparr>rl_sessions := AList.update key (peer_step e p) (rl_sessions r)\<rparr>)"

definition session_idle :: "gotime \<Rightarrow> peer \<Rightarrow> bool" where
  "session_idle now p \<longleftrightarrow> pr_active p = '''' \<and> time_sub now (pr_lastReady p) \<ge> lm_DisconnectedGrace (pr_limits p)"

text \<open>\<^verbatim>\<open>reap\<close> forgets the sessions without a path and closes their peers, which are returned.\<close>

definition reap :: "gotime \<Rightarrow> relay \<Rightarrow> peer list \<times> relay" where
  "reap now r = (map (close_peer now \<circ> snd) (filter (\<lambda>(_, p). session_idle now p) (rl_sessions r)),
     r\<lparr>rl_sessions := filter (\<lambda>(_, p). \<not> session_idle now p) (rl_sessions r)\<rparr>)"

definition close_relay :: "gotime \<Rightarrow> relay \<Rightarrow> relay" where
  "close_relay now r = r\<lparr>rl_closed := True, rl_sessions := map (\<lambda>(k, p). (k, close_peer now p)) (rl_sessions r)\<rparr>"

datatype relay_event =
    Serve_conn
  | Conn_done
  | Hello string hello gotime
  | Session string event
  | Reap gotime
  | Close_relay gotime

fun relay_step :: "relay_event \<Rightarrow> relay \<Rightarrow> relay" where
  "relay_step Serve_conn r = snd (serve_conn r)"
| "relay_step Conn_done r = r\<lparr>rl_pending := rl_pending r - 1\<rparr>"
| "relay_step (Hello fp h now) r = snd (accept_hello fp h now r)"
| "relay_step (Session key e) r = session_step key e r"
| "relay_step (Reap now) r = snd (reap now r)"
| "relay_step (Close_relay now) r = close_relay now r"

definition relay_run :: "relay_event list \<Rightarrow> relay \<Rightarrow> relay" where
  "relay_run es r = fold relay_step es r"

section \<open>The address policy\<close>

definition deniedPrefixes :: "prefix list" where
  "deniedPrefixes = map must_parse
     [''0.0.0.0/8'', ''10.0.0.0/8'', ''100.64.0.0/10'', ''127.0.0.0/8'', ''169.254.0.0/16'', ''172.16.0.0/12'',
      ''192.0.0.0/24'', ''192.0.2.0/24'', ''192.168.0.0/16'', ''198.18.0.0/15'', ''198.51.100.0/24'', ''203.0.113.0/24'',
      ''224.0.0.0/4'', ''240.0.0.0/4'', ''::/96'', ''64:ff9b::/96'', ''64:ff9b:1::/48'', ''100::/64'', ''2001::/23'',
      ''2002::/16'', ''fc00::/7'', ''fe80::/10'', ''ff00::/8'', ''2001:db8::/32'']"

definition publicAddress :: "addr \<Rightarrow> bool" where
  "publicAddress a0 =
     (let a = addr_Unmap a0 in
      if \<not> addr_IsGlobalUnicast a \<or> addr_IsPrivate a \<or> addr_IsLoopback a \<or> addr_IsLinkLocalUnicast a then False
      else \<not> list_ex (\<lambda>p. prefix_Contains p a) deniedPrefixes)"

text \<open>
  The default dialler. \<open>lookup\<close> is the resolver, \<open>interfaces\<close> the unmapped addresses of the relay's own
  interfaces, \<open>dial\<close> says whether a connection to an address succeeds. The result is the address
  the connection goes to.
\<close>

definition dialPublicTarget :: "(string \<Rightarrow> addr list option) \<Rightarrow> addr list \<Rightarrow> (addr \<Rightarrow> bool) \<Rightarrow> string \<Rightarrow> addr result" where
  "dialPublicTarget lookup interfaces dial destination = (case validDestination destination of
     Some e \<Rightarrow> Inl e
   | None \<Rightarrow>
       (case lookup (fst (the (SplitHostPort destination))) of
          None \<Rightarrow> Inl ErrDestination
        | Some addrs \<Rightarrow>
            if addrs = [] \<or> list_ex (\<lambda>a. \<not> publicAddress a \<or> addr_Unmap a \<in> set interfaces) addrs then Inl ErrDestination
            else case find dial addrs of
              None \<Rightarrow> Inl (Error_New ''relay target connection failed'')
            | Some a \<Rightarrow> Inr a))"

end
