(* ===== verification/Relay_Props.thy ===== *)
theory Relay_Props
  imports Relay
begin

text \<open>
  Properties of the relay: however many clients connect, the memory its sessions reserve is
  bounded by the configuration, and its address policy agrees with the shared one up to two ranges
  and zones.
\<close>

section \<open>Sessions\<close>

definition served :: "limits \<Rightarrow> peer \<Rightarrow> bool" where
  "served l p \<longleftrightarrow> run_inv p \<and> pr_server p \<and> pr_nextID p = 0 \<and> profile p = l\<lparr>lm_FlowBytes := 0\<rparr>"

lemma served_step:
  assumes "served l p"
  shows "served l (peer_step e p)"
proof -
  have p: "run_inv p" "pr_server p" "pr_nextID p = 0" "profile p = l\<lparr>lm_FlowBytes := 0\<rparr>" "peer_ok p"
    using assms by (simp_all add: served_def run_inv_def peer_inv_def)
  have "pr_server (peer_step e p) \<and> pr_nextID (peer_step e p) = 0"
    using step_receives [OF p(5), of e] p(2,3) by (auto simp: quiet_def receives_at_def rewrite_flow_def)
  then show ?thesis using run_inv_step [OF p(1), of e] p(3,4) by (simp add: served_def)
qed

lemma served_new:
  assumes "normalized l0 = Inr l" and "0 \<le> lm_ControlBytes l"
  shows "served l (newPeer (session_limits l remote) g True now)"
proof -
  have "class_limit (session_limits l remote) = class_limit l" "lm_ControlBytes (session_limits l remote) = lm_ControlBytes l"
    "(session_limits l remote)\<lparr>lm_FlowBytes := 0\<rparr> = l\<lparr>lm_FlowBytes := 0\<rparr>"
    by (simp_all add: session_limits_def class_limit_def fun_eq_iff)
  then show ?thesis using run_inv_start [of "session_limits l remote"] normalized_limits [OF assms(1)] by (simp add: served_def) (simp add: newPeer_def profile_def)
qed

text \<open>The bytes a peer has reserved.\<close>

definition peer_bytes :: "peer \<Rightarrow> int" where
  "peer_bytes p = pr_used p False False + pr_used p False True + pr_used p True False + pr_used p True True + pr_controlBytes p"

lemma twice_half: "0 \<le> n \<Longrightarrow> 2 * quot n 2 \<le> n"
  by (simp add: quot_def)

lemma served_bytes:
  assumes l: "normalized l0 = Inr l" and p: "served l p"
  shows "peer_bytes p \<le> lm_BufferBytes l + lm_ControlBytes l"
proof -
  have lim: "class_limit (pr_limits p) = class_limit l" "lm_ControlBytes (pr_limits p) = lm_ControlBytes l"
    using p profile_limits by (simp_all add: served_def)
  have "bounded p" using p by (simp add: served_def run_inv_def peer_inv_def peer_ok_def)
  then have b: "pr_used p d k \<le> class_limit l k" "pr_controlBytes p \<le> lm_ControlBytes l" for d k by (simp_all add: bounded_def lim)
  have "0 \<le> lm_UDPReserveBytes l" "0 \<le> lm_BufferBytes l - lm_UDPReserveBytes l"
    using l by (auto simp: normalized_def Let_def limits_invalid_def split: if_splits)
  then have "2 * class_limit l False \<le> lm_BufferBytes l - lm_UDPReserveBytes l" "2 * class_limit l True \<le> lm_UDPReserveBytes l"
    using twice_half by (simp_all add: class_limit_def)
  then show ?thesis using b(2) b(1) [of False False] b(1) [of True False] b(1) [of False True] b(1) [of True True] by (simp add: peer_bytes_def)
qed

definition relay_inv :: "limits \<Rightarrow> int \<Rightarrow> relay \<Rightarrow> bool" where
  "relay_inv l m r \<longleftrightarrow> rl_limits r = l \<and> rl_maxClients r = m \<and> int (length (rl_sessions r)) \<le> m \<and>
     (\<forall>key. identity_sessions key r \<le> 2) \<and> int (rl_pending r) \<le> m * 12 \<and> (\<forall>(_, p) \<in> set (rl_sessions r). served l p)"

lemma update_fresh: "map_of m k = None \<Longrightarrow> AList.update k v m = m @ [(k, v)]"
  by (induction m) (auto split: if_splits)

lemma update_keys: "map_of m k = Some v \<Longrightarrow> map fst (AList.update k x m) = map fst m"
  by (induction m) auto

lemma identity_sessions_keys: "identity_sessions key r = length (filter (\<lambda>k. take 64 k = take 64 key) (map fst (rl_sessions r)))"
  by (simp add: identity_sessions_def filter_map comp_def case_prod_unfold)

lemma filtered_keys: "length (filter Q (map fst (filter P xs))) \<le> length (filter Q (map fst xs))"
  by (induction xs) auto

lemma relay_inv_sessions:
  assumes "relay_inv l m r" and "map fst xs = map fst (rl_sessions r)" and "\<forall>(_, p) \<in> set xs. served l p"
  shows "relay_inv l m (r\<lparr>rl_sessions := xs\<rparr>)"
proof -
  have "length xs = length (rl_sessions r)" using assms(2) by (rule map_eq_imp_length_eq)
  then show ?thesis using assms by (simp add: relay_inv_def identity_sessions_keys)
qed

lemma open_session_inv:
  assumes inv: "relay_inv l m r" and l: "normalized l0 = Inr l" "0 \<le> lm_ControlBytes l"
  shows "relay_inv l m (snd (open_session key h remote now r))"
proof (cases "snd (open_session key h remote now r) = r")
  case False
  let ?p = "newPeer (session_limits (rl_limits r) remote) (rl_generation r) True now"
  have new: "map_of (rl_sessions r) key = None" "int (length (rl_sessions r)) < m" "identity_sessions key r < 2"
    and s: "snd (open_session key h remote now r) = r\<lparr>rl_sessions := rl_sessions r @ [(key, ?p)]\<rparr>"
    using False inv by (auto simp: open_session_def relay_inv_def update_fresh split: option.splits if_splits)
  have "identity_sessions k (r\<lparr>rl_sessions := rl_sessions r @ [(key, ?p)]\<rparr>) \<le> 2" for k
  proof (cases "take 64 k = take 64 key")
    case True
    then have "identity_sessions k r = identity_sessions key r" by (simp add: identity_sessions_def)
    then show ?thesis using new(3) True by (simp add: identity_sessions_def)
  next
    case False
    then show ?thesis using inv by (auto simp: identity_sessions_def relay_inv_def)
  qed
  then show ?thesis using inv new s served_new [OF l] by (simp add: relay_inv_def)
qed (use inv in simp)

lemma relay_inv_step:
  assumes inv: "relay_inv l m r" and l: "normalized l0 = Inr l" "0 \<le> lm_ControlBytes l"
  shows "relay_inv l m (relay_step e r)"
proof -
  have sessions: "(k, p) \<in> set (rl_sessions r) \<Longrightarrow> served l p" for k p using inv by (auto simp: relay_inv_def)
  have ids: "identity_sessions key r \<le> 2" for key using inv by (simp add: relay_inv_def)
  show ?thesis
  proof (cases e)
    case Serve_conn
    then show ?thesis using inv by (auto simp: serve_conn_def relay_inv_def identity_sessions_def CarriersPerPath_def)
  next
    case Conn_done
    then show ?thesis using inv by (auto simp: relay_inv_def identity_sessions_def)
  next
    case (Hello fp h now)
    have "snd (accept_hello fp h now r) = r \<or> (\<exists>remote. snd (accept_hello fp h now r) = snd (open_session (session_key fp h) h remote now r))"
      by (auto simp: accept_hello_def split: sum.split)
    then show ?thesis using Hello inv open_session_inv [OF inv l] by auto
  next
    case (Session key ev)
    have "relay_inv l m (r\<lparr>rl_sessions := AList.update key (peer_step ev p) (rl_sessions r)\<rparr>)" if "map_of (rl_sessions r) key = Some p" for p
    proof (rule relay_inv_sessions [OF inv update_keys [OF that]])
      show "\<forall>(_, p) \<in> set (AList.update key (peer_step ev p) (rl_sessions r)). served l p"
      proof clarify
        fix k q
        assume "(k, q) \<in> set (AList.update key (peer_step ev p) (rl_sessions r))"
        then consider "(k, q) \<in> set (rl_sessions r)" | "q = peer_step ev p" by (auto dest: update_member)
        then show "served l q" using sessions [OF map_of_SomeD [OF that]] by cases (auto intro: sessions served_step)
      qed
    qed
    then show ?thesis using Session inv by (auto simp: session_step_def split: option.split)
  next
    case (Reap now)
    let ?xs = "filter (\<lambda>(_, p). \<not> session_idle now p) (rl_sessions r)"
    have "identity_sessions key (r\<lparr>rl_sessions := ?xs\<rparr>) \<le> 2" for key
      using filtered_keys [of "\<lambda>k. take 64 k = take 64 key" "\<lambda>(_, p). \<not> session_idle now p" "rl_sessions r"] ids [of key]
      by (simp add: identity_sessions_keys)
    moreover have "int (length ?xs) \<le> m"
      using inv length_filter_le [of "\<lambda>(_, p). \<not> session_idle now p" "rl_sessions r"] unfolding relay_inv_def by linarith
    ultimately show ?thesis using Reap inv by (auto simp: reap_def relay_inv_def)
  next
    case (Close_relay now)
    let ?xs = "map (\<lambda>(k, p). (k, close_peer now p)) (rl_sessions r)"
    have "served l (close_peer now p)" if "served l p" for p using served_step [OF that, of "Close now"] by simp
    then have "relay_inv l m (r\<lparr>rl_sessions := ?xs\<rparr>)"
      using inv by (intro relay_inv_sessions [OF inv]) (auto simp: relay_inv_def)
    then show ?thesis using Close_relay by (simp add: close_relay_def relay_inv_def identity_sessions_def)
  qed
qed

lemma relay_inv_run: "relay_inv l m r \<Longrightarrow> normalized l0 = Inr l \<Longrightarrow> 0 \<le> lm_ControlBytes l \<Longrightarrow> relay_inv l m (relay_run es r)"
  by (induction es arbitrary: r) (simp_all add: relay_run_def relay_inv_step)

text \<open>
  C9: however many clients connect, whatever they send and however their sessions run, a relay
  keeps at most \<^verbatim>\<open>MaxClients\<close> sessions and two per client certificate, at most twelve connections per
  client in the handshake, and the bytes reserved by all its sessions together stay within
  \<^verbatim>\<open>MaxClients\<close> times the buffer and control budgets of the profile.
\<close>

theorem relay_memory_bounded:
  assumes new: "NewRelay limits clients g = Inr r0" and r: "r = relay_run es r0"
  shows "int (length (rl_sessions r)) \<le> rl_maxClients r0 \<and> identity_sessions key r \<le> 2 \<and> int (rl_pending r) \<le> rl_maxClients r0 * 12 \<and>
    (\<Sum>e \<leftarrow> rl_sessions r. peer_bytes (snd e)) \<le> rl_maxClients r0 * (lm_BufferBytes (rl_limits r0) + lm_ControlBytes (rl_limits r0))"
proof -
  obtain l where l: "normalized limits = Inr l" using new by (auto simp: NewRelay_def split: sum.splits)
  have lim: "0 \<le> lm_BufferBytes l" "0 \<le> lm_ControlBytes l" using l by (auto simp: normalized_def Let_def limits_invalid_def split: if_splits)
  have r0: "relay_inv l (rl_maxClients r0) r0" "rl_limits r0 = l"
    using new l by (auto simp: NewRelay_def relay_inv_def identity_sessions_def Let_def split: if_splits)
  have inv: "relay_inv l (rl_maxClients r0) r" unfolding r by (rule relay_inv_run [OF r0(1) l lim(2)])
  let ?b = "lm_BufferBytes l + lm_ControlBytes l"
  have "(\<Sum>e \<leftarrow> xs. peer_bytes (snd e)) \<le> int (length xs) * ?b" if "\<forall>(_, p) \<in> set xs. served l p" for xs :: "(string \<times> peer) list"
    using that
  proof (induction xs)
    case (Cons e xs)
    then have "peer_bytes (snd e) \<le> ?b" "(\<Sum>e \<leftarrow> xs. peer_bytes (snd e)) \<le> int (length xs) * ?b"
      using served_bytes [OF l] by (auto simp: case_prod_beta)
    then show ?case by (simp add: case_prod_beta algebra_simps)
  qed simp
  then have "(\<Sum>e \<leftarrow> rl_sessions r. peer_bytes (snd e)) \<le> int (length (rl_sessions r)) * ?b" using inv by (simp add: relay_inv_def)
  also have "\<dots> \<le> rl_maxClients r0 * ?b" using inv lim by (intro mult_right_mono) (simp_all add: relay_inv_def)
  finally show ?thesis using inv r0(2) by (simp add: relay_inv_def)
qed

definition small_relay :: relay where
  "small_relay = \<lparr>rl_limits = DefaultLimits, rl_maxClients = 16, rl_generation = ''g'', rl_sessions = [], rl_pending = 0, rl_closed = False\<rparr>"

theorem relay_memory_bounded_witness:
  "int (length (rl_sessions (relay_run [Serve_conn, Hello (replicate 64 CHR ''a'')
     \<lparr>he_Version = 1, he_Session = replicate 32 CHR ''0'', he_Generation = '''', he_Path = ''p'', he_Lane = 0, he_Limits = zero_limits\<rparr> 1] small_relay))) \<le> 16"
proof -
  have "NewRelay zero_limits 0 ''g'' = Inr small_relay" by (simp add: NewRelay_def zero_limits_normalized small_relay_def)
  from relay_memory_bounded [OF this refl] show ?thesis by (simp add: small_relay_def)
qed

section \<open>The address policy\<close>

lemma denied_or_missing: "set nonPublicPrefixes = set deniedPrefixes \<union> {must_parse ''3fff::/20'', must_parse ''fec0::/10''}"
  unfolding nonPublicPrefixes_def deniedPrefixes_def by simp blast

text \<open>
  C37: the relay's own address policy agrees with \<^verbatim>\<open>platform.PublicAddress\<close>, which the other packages
  share, on every address without a zone outside \<^verbatim>\<open>3fff::/20\<close> and \<^verbatim>\<open>fec0::/10\<close>; on those two ranges and
  on zoned addresses it is more permissive, as \<^verbatim>\<open>3fff::1\<close>, \<^verbatim>\<open>fec0::1\<close> and a zoned documentation address show.
\<close>

theorem relay_policy_agrees_except:
  "(addr_Zone (addr_Unmap a) = '''' \<and> \<not> prefix_Contains (must_parse ''3fff::/20'') (addr_Unmap a) \<and> \<not> prefix_Contains (must_parse ''fec0::/10'') (addr_Unmap a) \<longrightarrow>
      publicAddress a = PublicAddress a) \<and>
   (PublicAddress a \<longrightarrow> publicAddress a) \<and>
   list_all (\<lambda>s. case ParseAddr s of Inr b \<Rightarrow> publicAddress b \<and> \<not> PublicAddress b | Inl _ \<Rightarrow> False) [''3fff::1'', ''fec0::1'', ''2001:db8::1%eth0'']"
proof -
  let ?ip = "addr_Unmap a"
  have ex: "list_ex (\<lambda>p. prefix_Contains p ?ip) nonPublicPrefixes \<longleftrightarrow> list_ex (\<lambda>p. prefix_Contains p ?ip) deniedPrefixes \<or>
      prefix_Contains (must_parse ''3fff::/20'') ?ip \<or> prefix_Contains (must_parse ''fec0::/10'') ?ip"
    unfolding list_ex_iff denied_or_missing by blast
  have "addr_IsGlobalUnicast ?ip \<Longrightarrow> addr_IsValid ?ip" by (auto simp: addr_IsGlobalUnicast_def addr_IsValid_def)
  moreover have "list_all (\<lambda>s. case ParseAddr s of Inr b \<Rightarrow> publicAddress b \<and> \<not> PublicAddress b | Inl _ \<Rightarrow> False) [''3fff::1'', ''fec0::1'', ''2001:db8::1%eth0'']"
    by code_simp
  ultimately show ?thesis unfolding publicAddress_def PublicAddress_def Let_def ex by auto
qed

theorem relay_policy_agrees_except_witness: "publicAddress (V4 134744072) = PublicAddress (V4 134744072)"
proof -
  have "addr_Zone (addr_Unmap (V4 134744072)) = ''''" "\<not> prefix_Contains (must_parse ''3fff::/20'') (addr_Unmap (V4 134744072))"
    "\<not> prefix_Contains (must_parse ''fec0::/10'') (addr_Unmap (V4 134744072))" by code_simp+
  then show ?thesis using relay_policy_agrees_except [of "V4 134744072"] by blast
qed

text \<open>The default dialler connects only to addresses of the answer it has checked.\<close>

lemma dial_checked:
  assumes "dialPublicTarget lookup interfaces dial destination = Inr a"
  shows "publicAddress a \<and> addr_Unmap a \<notin> set interfaces \<and> dial a"
  using assms by (auto simp: dialPublicTarget_def list_ex_iff find_Some_iff dest: nth_mem split: option.splits if_splits)

end
