(* ===== verification/Coverage.thy ===== *)
theory Coverage
  imports Gateway_Txn Node_Txn Netip
begin

text \<open>
  The coordinator of a wireless coverage change, \<^verbatim>\<open>internal/node/coverage_coordinator.go\<close> with the parts of
  \<^verbatim>\<open>service.go\<close>, \<^verbatim>\<open>model.go\<close>, \<^verbatim>\<open>protocol.go\<close> and \<^verbatim>\<open>server.go\<close> it rests on. It drives two independent
  participants, the gateway's transaction manager and the node's, and keeps its own journal of intents.
  Every operation of the coordinator is a program: a tree of the requests it makes of the world (its
  journal file, the gateway, the node, the clock, randomness), each with a continuation on the answer.
\<close>

section \<open>Capabilities and plans\<close>

record capabilities =
  cb_OpenWrt :: bool
  cb_Ethernet :: bool
  cb_AP :: bool
  cb_WDS :: bool
  cb_Mesh :: bool
  cb_EncryptedBackhaul :: bool
  cb_ConcurrentRadio :: bool
  cb_GatewayBackhaulReady :: bool
  cb_GatewayBackhaulManaged :: bool
  cb_VerifiedPeerFingerprint :: string
  cb_VerifiedRadio :: string
  cb_VerifiedMode :: string
  cb_Reason :: string

definition CompatibleModes :: "capabilities \<Rightarrow> capabilities \<Rightarrow> string list" where
  "CompatibleModes gateway peer =
     (if \<not> cb_OpenWrt gateway \<or> \<not> cb_OpenWrt peer then []
      else (if cb_EncryptedBackhaul gateway \<and> cb_EncryptedBackhaul peer \<and> cb_AP gateway \<and> cb_AP peer \<and> cb_GatewayBackhaulReady gateway
            then (if cb_WDS gateway \<and> cb_WDS peer then [''wds''] else []) @ (if cb_Mesh gateway \<and> cb_Mesh peer then [''mesh''] else [])
            else []) @
           (if cb_Ethernet gateway \<and> cb_Ethernet peer then [''ethernet''] else []))"

definition lan_ports_ok :: "string list \<Rightarrow> bool" where
  "lan_ports_ok ports \<longleftrightarrow> (\<forall>port \<in> set ports. ValidInterfaceName port \<and> port \<noteq> ''lo'') \<and> distinct ports"

definition addr_Is4 :: "addr \<Rightarrow> bool" where
  "addr_Is4 a = (case a of V4 _ \<Rightarrow> True | _ \<Rightarrow> False)"

definition management_address_error :: "node_plan \<Rightarrow> go_error option" where
  "management_address_error p =
     (let bad_address = Some (Error_New ''invalid_management_address: an explicit IPv4 LAN host prefix is required'');
          bad_gateway = Some (Error_New ''invalid_gateway_address: gateway must be a different host in the management LAN'')
      in case ParsePrefix (np_ManagementAddress p) of
           Inl _ \<Rightarrow> bad_address
         | Inr address \<Rightarrow>
             if \<not> addr_Is4 (pf_addr address) \<or> pf_bits address < 8 \<or> pf_bits address > 30 \<or>
                addr_IsUnspecified (pf_addr address) \<or> addr_IsLoopback (pf_addr address) \<or> addr_IsMulticast (pf_addr address)
             then bad_address
             else case ParseAddr (np_GatewayAddress p) of
               Inl _ \<Rightarrow> bad_gateway
             | Inr gw \<Rightarrow>
                 if \<not> addr_Is4 gw \<or> gw = pf_addr address \<or> \<not> prefix_Contains address gw \<or> gw = pf_addr (prefix_Masked address)
                 then bad_gateway else None)"

definition radio_error :: "node_plan \<Rightarrow> capabilities \<Rightarrow> capabilities \<Rightarrow> go_error option" where
  "radio_error p gateway peer =
     (if np_Radio p \<noteq> '''' \<or> np_Mode p \<noteq> ''ethernet''
      then if np_Mode p \<noteq> ''ethernet'' \<and> \<not> np_ShareRadio p
           then Some (Error_New ''shared_radio_required: the current single-radio plan serves AP clients and backhaul together'')
           else if \<not> cb_AP gateway \<or> \<not> cb_AP peer \<or> \<not> ValidInterfaceName (np_Radio p) \<or> length (np_SSID p) < 1 \<or> length (np_SSID p) > 32 \<or>
             length (np_Passphrase p) < 8 \<or> length (np_Passphrase p) > 63 \<or> has_control (np_SSID p @ np_Passphrase p)
           then Some (Error_New ''invalid_wireless_settings: verified AP support and WPA2/WPA3 credentials are required'')
           else if np_Channel p < 1 \<or> np_Channel p > 233 then Some (Error_New ''invalid_wireless_channel'')
           else if np_ShareRadio p \<and> (\<not> cb_ConcurrentRadio gateway \<or> \<not> cb_ConcurrentRadio peer)
           then Some (Error_New ''concurrent_radio_unverified'')
           else None
      else if np_SSID p \<noteq> '''' \<or> np_Passphrase p \<noteq> '''' \<or> np_ShareRadio p then Some (Error_New ''wireless_radio_required'')
      else None)"

definition node_ValidatePlan :: "node_plan \<Rightarrow> capabilities \<Rightarrow> capabilities \<Rightarrow> go_error option" where
  "node_ValidatePlan p gateway peer =
     (if np_Mode p \<noteq> ''ethernet'' \<and> cb_VerifiedRadio peer \<noteq> '''' \<and> (np_Radio p \<noteq> cb_VerifiedRadio peer \<or> np_Mode p \<noteq> cb_VerifiedMode peer)
      then Some (Error_New ''wireless_verification_radio_or_mode_mismatch'')
      else if np_Mode p \<notin> set (CompatibleModes gateway peer)
      then Some (Error_New ''unsupported_mode: both OpenWrt devices must verify the requested link mode'')
      else if np_DHCPServer p \<or> np_NAT p \<or> np_RouterAdvertisements p
      then Some (Error_New ''competing_gateway: a coverage node must not provide DHCP, NAT, or router advertisements'')
      else if \<not> np_PreserveManagementPath p
      then Some (Error_New ''management_path_required: retain an independent management path while applying backhaul changes'')
      else if length (np_Name p) = 0 \<or> length (np_Name p) > 128 \<or> has_control (np_Name p) then Some (Error_New ''invalid_name'')
      else if \<exists>name \<in> set [np_ManagementInterface p, np_BridgeSection p, np_BridgeDevice p, np_Uplink p]. \<not> ValidInterfaceName name
      then Some (Error_New ''invalid_interface'')
      else if length (np_LANPorts p) = 0 \<or> length (np_LANPorts p) > 64 then Some (Error_New ''invalid_lan_ports'')
      else if \<not> lan_ports_ok (np_LANPorts p) then Some (Error_New ''invalid_lan_port'')
      else if np_Mode p = ''ethernet'' \<and> np_Uplink p \<notin> set (np_LANPorts p)
      then Some (Error_New ''uplink_missing: Ethernet uplink must be one of the bridge ports'')
      else if np_Mode p \<noteq> ''ethernet'' \<and> np_Uplink p \<in> set (np_LANPorts p)
      then Some (Error_New ''uplink_loop: only one active uplink is allowed'')
      else if np_Mode p \<noteq> ''ethernet'' \<and> (\<not> ValidInterfaceName (np_EthernetUplink p) \<or> np_EthernetUplink p \<notin> set (np_LANPorts p))
      then Some (Error_New ''ethernet_uplink_required: identify the physical uplink port to remove from the bridge before activating Wi-Fi backhaul'')
      else if np_Mode p = ''ethernet'' \<and> np_EthernetUplink p \<noteq> '''' \<and> np_EthernetUplink p \<noteq> np_Uplink p
      then Some (Error_New ''uplink_conflict'')
      else case management_address_error p of Some e \<Rightarrow> Some e | None \<Rightarrow> radio_error p gateway peer)"

section \<open>The node's side of a request\<close>

record node_operation =
  no_Action :: string
  no_ID :: string
  no_Key :: string
  no_Plan :: "node_plan option"
  no_TimeoutSeconds :: int

text \<open>What a participant reports of its transaction, and the fields of an answer that the coordinator reads.\<close>

record participant =
  cp_ID :: string
  cp_State :: string
  cp_Deadline :: gotime

record answer =
  an_transaction :: "participant option"
  an_wifi :: "wifi option"
  an_extra :: "(string, string) gomap"

definition empty_answer :: answer where
  "empty_answer = \<lparr>an_transaction = None, an_wifi = None, an_extra = []\<rparr>"

definition node_participant :: "node_transaction \<Rightarrow> participant" where
  "node_participant t = \<lparr>cp_ID = nt_ID t, cp_State = nt_State t, cp_Deadline = nt_Deadline t\<rparr>"

definition gateway_participant :: "transaction \<Rightarrow> participant" where
  "gateway_participant t = \<lparr>cp_ID = tx_ID t, cp_State = tx_State t, cp_Deadline = tx_Deadline t\<rparr>"

definition node_answer :: "node_result \<times> 'b node_run \<Rightarrow> answer result \<times> 'b node_run" where
  "node_answer x = (case x of ((t, e), r) \<Rightarrow>
     (case e of Some err \<Rightarrow> Inl err | None \<Rightarrow> Inr (empty_answer\<lparr>an_transaction := map_option node_participant t\<rparr>), r))"

text \<open>
  \<^verbatim>\<open>LocalOperator.Do\<close>. The read-only actions \<^verbatim>\<open>capabilities\<close>, \<^verbatim>\<open>inspect\<close> and \<^verbatim>\<open>link\<close> ask the device; what they
  report is the parameter \<open>queries\<close>.
\<close>

definition LocalOperator_Do ::
  "'b node_env \<Rightarrow> (string \<Rightarrow> (string, string) gomap result) \<Rightarrow> node_call \<Rightarrow> node_operation \<Rightarrow> 'b node_run \<Rightarrow> answer result \<times> 'b node_run" where
  "LocalOperator_Do env queries c q r =
     (if no_Action q = ''capabilities'' \<or> no_Action q = ''inspect'' \<or> no_Action q = ''link''
      then (map_sum id (\<lambda>fields. empty_answer\<lparr>an_extra := fields\<rparr>) (queries (no_Action q)), r)
      else if no_Action q = ''status''
      then (map_sum id (\<lambda>t. empty_answer\<lparr>an_transaction := map_option node_participant t\<rparr>) (node_Status env c (r_world r)), r)
      else if no_Action q = ''prepare''
      then (case no_Plan q of
              None \<Rightarrow> (Inl (Error_New ''node_plan_required''), r)
            | Some p \<Rightarrow> node_answer (node_Prepare env c (no_Key q) p r))
      else if no_Action q = ''validate'' then node_answer (node_Validate env c (no_ID q) r)
      else if no_Action q = ''apply'' then node_answer (node_Apply env c (no_ID q) (dur_mul (no_TimeoutSeconds q) second) r)
      else if no_Action q = ''confirm'' then node_answer (node_Confirm env c (no_ID q) r)
      else if no_Action q = ''rollback'' then node_answer (node_Rollback env c (no_ID q) r)
      else (Inl (Error_New ''unsupported_node_operation''), r))"

text \<open>
  The two authorised routes of \<^verbatim>\<open>Agent.ServeHTTP\<close>, \<^verbatim>\<open>GET /node/v1/status\<close> and \<^verbatim>\<open>POST /node/v1/operations\<close>: a
  status is completed with the agent's identity and capabilities, the link and the setup of the node.
\<close>

definition status_extra :: "string \<Rightarrow> string \<Rightarrow> (string \<Rightarrow> (string, string) gomap result) \<Rightarrow> (string, string) gomap" where
  "status_extra identity caps queries =
     (let field = (\<lambda>action key. case queries action of Inl _ \<Rightarrow> [] | Inr m \<Rightarrow> (case map_of m key of None \<Rightarrow> [] | Some v \<Rightarrow> [(key, v)]))
      in (''id'', identity) # (''capabilities'', caps) # field ''link'' ''node_link'' @
         (case queries ''inspect'' of
            Inl _ \<Rightarrow> [(''setup_issue'', ''Node setup discovery is unavailable; check the local helper and trusted administrator access'')]
          | Inr _ \<Rightarrow> field ''inspect'' ''setup''))"

definition serve_node ::
  "'b node_env \<Rightarrow> string \<Rightarrow> string \<Rightarrow> (string \<Rightarrow> (string, string) gomap result) \<Rightarrow> node_call \<Rightarrow> node_operation \<Rightarrow> 'b node_run \<Rightarrow>
     answer result \<times> 'b node_run" where
  "serve_node env identity caps queries c q r =
     (case LocalOperator_Do env queries c q r of
        (Inl _, r1) \<Rightarrow> (Inl (Error_New (if no_Action q = ''status'' then ''node_helper_unavailable'' else ''node_operation_rejected'')), r1)
      | (Inr a, r1) \<Rightarrow> (Inr (if no_Action q = ''status'' then a\<lparr>an_extra := status_extra identity caps queries\<rparr> else a), r1))"

text \<open>The fields of a gateway's reply.\<close>

definition gateway_answer :: "reply \<Rightarrow> answer" where
  "gateway_answer x = (case x of
     Reply_setup s \<Rightarrow> empty_answer\<lparr>an_extra := [(''gateway_setup'', s)]\<rparr>
   | Reply_status t \<Rightarrow> empty_answer\<lparr>an_transaction := map_option gateway_participant t\<rparr>
   | Reply_prepared t w \<Rightarrow> empty_answer\<lparr>an_transaction := Some (gateway_participant t), an_wifi := Some w\<rparr>
   | Reply_plan _ w \<Rightarrow> empty_answer\<lparr>an_wifi := Some w\<rparr>
   | Reply_tx t \<Rightarrow> empty_answer\<lparr>an_transaction := Some (gateway_participant t)\<rparr>)"



section \<open>The coordinator's data\<close>

record node_record =
  nr_ID :: string
  nr_Name :: string
  nr_Address :: string
  nr_Fingerprint :: string
  nr_Capabilities :: capabilities
  nr_PairedAt :: gotime

record coverage_operation =
  co_Action :: string
  co_ID :: string
  co_Key :: string
  co_Plan :: "node_plan option"
  co_TimeoutSeconds :: int
  co_GatewayPlan :: "plan option"

record coverage_transaction =
  ct_ID :: string
  ct_NodeID :: string
  ct_State :: string
  ct_CreatedAt :: gotime
  ct_Deadline :: gotime
  ct_Plan :: node_plan
  ct_GatewayPlan :: plan
  ct_ErrorCode :: string

record coverage_entry =
  ce_Transaction :: coverage_transaction
  ce_Key :: string
  ce_Hash :: string
  ce_Node :: participant
  ce_Gateway :: participant

record coverage_journal =
  cj_Version :: int
  cj_Entries :: "(string, coverage_entry) gomap"

definition no_participant :: participant where
  "no_participant = \<lparr>cp_ID = '''', cp_State = '''', cp_Deadline = 0\<rparr>"

text \<open>
  The service: whether a gateway operator is configured, its own certificate's fingerprint, the paired
  nodes, the length of a journal's JSON text and the SHA-256 sum of the JSON text of a pair of plans.
\<close>

record service =
  sv_operator :: bool
  sv_fingerprint :: string
  sv_records :: "(string, node_record) gomap"
  sv_size :: "coverage_journal \<Rightarrow> nat"
  sv_hash :: "node_plan \<Rightarrow> plan option \<Rightarrow> bytes"

definition entry_state :: "coverage_entry \<Rightarrow> string" where
  "entry_state e = ct_State (ce_Transaction e)"

definition set_state :: "string \<Rightarrow> coverage_entry \<Rightarrow> coverage_entry" where
  "set_state st e = e\<lparr>ce_Transaction := (ce_Transaction e)\<lparr>ct_State := st\<rparr>\<rparr>"

definition set_error :: "string \<Rightarrow> coverage_entry \<Rightarrow> coverage_entry" where
  "set_error code e = e\<lparr>ce_Transaction := (ce_Transaction e)\<lparr>ct_ErrorCode := code\<rparr>\<rparr>"

definition set_deadline :: "gotime \<Rightarrow> coverage_entry \<Rightarrow> coverage_entry" where
  "set_deadline d e = e\<lparr>ce_Transaction := (ce_Transaction e)\<lparr>ct_Deadline := d\<rparr>\<rparr>"

definition set_plan :: "node_plan \<Rightarrow> coverage_entry \<Rightarrow> coverage_entry" where
  "set_plan p e = e\<lparr>ce_Transaction := (ce_Transaction e)\<lparr>ct_Plan := p\<rparr>\<rparr>"

definition forget_passphrase :: "coverage_entry \<Rightarrow> coverage_entry" where
  "forget_passphrase e = set_plan ((ct_Plan (ce_Transaction e))\<lparr>np_Passphrase := ''''\<rparr>) e"

definition put_entry :: "coverage_entry \<Rightarrow> coverage_journal \<Rightarrow> coverage_journal" where
  "put_entry e j = j\<lparr>cj_Entries := AList.update (ct_NodeID (ce_Transaction e)) e (cj_Entries j)\<rparr>"

definition coverageActive :: "coverage_entry \<Rightarrow> bool" where
  "coverageActive e \<longleftrightarrow> entry_state e \<noteq> ''confirmed'' \<and> entry_state e \<noteq> ''rolled-back''"

definition coverage_states :: "string list" where
  "coverage_states = [''preparing'', ''prepared'', ''applying'', ''applied'', ''confirming'', ''confirmed'', ''rolling-back'', ''rolled-back'']"

definition coverage_entry_ok :: "string \<Rightarrow> coverage_entry \<Rightarrow> bool" where
  "coverage_entry_ok nodeID e \<longleftrightarrow>
     transactionID nodeID \<and> ct_NodeID (ce_Transaction e) = nodeID \<and> transactionID (ct_ID (ce_Transaction e)) \<and> requestKey (ce_Key e) \<and>
     length (ce_Hash e) = 64 \<and> (cp_ID (ce_Node e) = '''' \<or> transactionID (cp_ID (ce_Node e))) \<and>
     (cp_ID (ce_Gateway e) = '''' \<or> transactionID (cp_ID (ce_Gateway e))) \<and> entry_state e \<in> set coverage_states"

text \<open>\<^verbatim>\<open>loadCoverage\<close> on what reading the file gave: an error, no file, or a journal.\<close>

definition loadCoverage :: "service \<Rightarrow> coverage_journal option result \<Rightarrow> coverage_journal result" where
  "loadCoverage sv file =
     (let bad = Inl (Error_New ''invalid_coverage_journal'') in
      case file of
        Inl _ \<Rightarrow> bad
      | Inr None \<Rightarrow> Inr \<lparr>cj_Version = 1, cj_Entries = []\<rparr>
      | Inr (Some j) \<Rightarrow>
          if sv_size sv j > strictDecodeLimit \<or> cj_Version j \<noteq> 1 \<or> length (cj_Entries j) > 64 then bad
          else if \<exists>(nodeID, e) \<in> set (cj_Entries j). \<not> coverage_entry_ok nodeID e then bad
          else Inr j)"

text \<open>\<^verbatim>\<open>coverageOutput\<close> and what the status adds to it.\<close>

record coverage_output =
  out_transaction :: coverage_transaction
  out_node :: participant
  out_gateway :: participant
  out_extra :: "(string, string option) gomap"

definition coverageOutput :: "coverage_entry \<Rightarrow> coverage_output" where
  "coverageOutput e =
     \<lparr>out_transaction = (ce_Transaction e)\<lparr>ct_Plan := RedactPlan (ct_Plan (ce_Transaction e))\<rparr>,
      out_node = ce_Node e, out_gateway = ce_Gateway e, out_extra = []\<rparr>"

definition participant_states :: "string list" where
  "participant_states = [''prepared'', ''applying'', ''applied'', ''confirmed'', ''finalized'', ''rolling-back'', ''rolled-back'', ''failed'']"

definition decodeParticipant :: "answer \<Rightarrow> participant result" where
  "decodeParticipant a =
     (case an_transaction a of
        None \<Rightarrow> Inl (Error_New ''invalid_coverage_participant_response'')
      | Some p \<Rightarrow>
          if \<not> transactionID (cp_ID p) then Inl (Error_New ''invalid_coverage_participant_response'')
          else if cp_State p \<in> set participant_states then Inr p
          else Inl (Error_New ''invalid_coverage_participant_state''))"

definition matchingParticipant :: "answer \<Rightarrow> string \<Rightarrow> string list \<Rightarrow> participant \<times> go_error option" where
  "matchingParticipant a i states =
     (let unknown = no_participant\<lparr>cp_ID := i\<rparr> in
      case decodeParticipant a of
        Inl _ \<Rightarrow> (unknown, Some (Error_New ''coverage_participant_identity_mismatch''))
      | Inr p \<Rightarrow>
          if cp_ID p \<noteq> i then (unknown, Some (Error_New ''coverage_participant_identity_mismatch''))
          else if cp_State p \<in> set states then (p, None)
          else (unknown, Some (Error_New ''coverage_participant_state_mismatch'')))"

definition injectNodeWiFi :: "node_plan \<Rightarrow> answer \<Rightarrow> node_plan result" where
  "injectNodeWiFi p a =
     (case an_wifi a of
        None \<Rightarrow> Inl (Error_New ''gateway_wifi_material_unavailable'')
      | Some w \<Rightarrow>
          if length (wf_SSID w) = 0 \<or> length (wf_Passphrase w) < 8 \<or> wf_Channel w < 1
          then Inl (Error_New ''gateway_wifi_material_unavailable'')
          else Inr (p\<lparr>np_SSID := wf_SSID w, np_Passphrase := wf_Passphrase w, np_Channel := wf_Channel w\<rparr>))"

section \<open>Programs\<close>

datatype 'r prog =
    Return 'r
  | Lock "go_error option \<Rightarrow> 'r prog"
  | Read "coverage_journal option result \<Rightarrow> 'r prog"
  | Save coverage_journal "go_error option \<Rightarrow> 'r prog"
  | Gateway operation "answer result \<Rightarrow> 'r prog"
  | Gateway_capabilities "capabilities \<Rightarrow> 'r prog"
  | Remote node_record node_operation "answer result \<Rightarrow> 'r prog"
  | Remote_capabilities node_record "capabilities result \<Rightarrow> 'r prog"
  | Now "gotime \<Rightarrow> 'r prog"
  | Random "bytes result \<Rightarrow> 'r prog"

primrec bind_prog :: "'a prog \<Rightarrow> ('a \<Rightarrow> 'b prog) \<Rightarrow> 'b prog" where
  "bind_prog (Return x) f = f x"
| "bind_prog (Lock k) f = Lock (\<lambda>x. bind_prog (k x) f)"
| "bind_prog (Read k) f = Read (\<lambda>x. bind_prog (k x) f)"
| "bind_prog (Save j k) f = Save j (\<lambda>x. bind_prog (k x) f)"
| "bind_prog (Gateway q k) f = Gateway q (\<lambda>x. bind_prog (k x) f)"
| "bind_prog (Gateway_capabilities k) f = Gateway_capabilities (\<lambda>x. bind_prog (k x) f)"
| "bind_prog (Remote n q k) f = Remote n q (\<lambda>x. bind_prog (k x) f)"
| "bind_prog (Remote_capabilities n k) f = Remote_capabilities n (\<lambda>x. bind_prog (k x) f)"
| "bind_prog (Now k) f = Now (\<lambda>x. bind_prog (k x) f)"
| "bind_prog (Random k) f = Random (\<lambda>x. bind_prog (k x) f)"

definition gateway_request :: "string \<Rightarrow> operation" where
  "gateway_request action = \<lparr>op_Action = action, op_Key = '''', op_ID = '''', op_Plan = None, op_TimeoutSeconds = 0\<rparr>"

definition node_request :: "string \<Rightarrow> node_operation" where
  "node_request action = \<lparr>no_Action = action, no_ID = '''', no_Key = '''', no_Plan = None, no_TimeoutSeconds = 0\<rparr>"

definition pairedRecord :: "service \<Rightarrow> string \<Rightarrow> node_record result" where
  "pairedRecord sv i = (case map_of (sv_records sv) i of None \<Rightarrow> Inl (Error_New ''node_not_found'') | Some n \<Rightarrow> Inr n)"

text \<open>\<^verbatim>\<open>Service.node\<close>: the record with the capabilities the node reports now.\<close>

definition service_node :: "service \<Rightarrow> string \<Rightarrow> node_record result prog" where
  "service_node sv i =
     (case pairedRecord sv i of
        Inl e \<Rightarrow> Return (Inl e)
      | Inr n \<Rightarrow> Remote_capabilities n (\<lambda>c. Return (map_sum id (\<lambda>x. n\<lparr>nr_Capabilities := x\<rparr>) c)))"

definition validate_receipts :: "service \<Rightarrow> node_record \<Rightarrow> node_plan \<Rightarrow> capabilities \<Rightarrow> bool" where
  "validate_receipts sv n p caps \<longleftrightarrow>
     cb_VerifiedPeerFingerprint caps = nr_Fingerprint n \<and> cb_VerifiedPeerFingerprint (nr_Capabilities n) = sv_fingerprint sv \<and>
     cb_VerifiedMode caps = np_Mode p \<and> cb_VerifiedMode (nr_Capabilities n) = np_Mode p \<and>
     cb_VerifiedRadio caps \<noteq> '''' \<and> cb_VerifiedRadio (nr_Capabilities n) = np_Radio p"

definition validateCoverage :: "service \<Rightarrow> node_record \<Rightarrow> node_plan \<Rightarrow> plan option \<Rightarrow> (node_plan \<times> plan) result prog" where
  "validateCoverage sv n p gateway =
     (case gateway of
        None \<Rightarrow> Return (Inl (Error_New ''managed_gateway_plan_required_for_wireless''))
      | Some g \<Rightarrow>
          if \<not> sv_operator sv \<or> np_Mode p = ''ethernet'' then Return (Inl (Error_New ''managed_gateway_plan_required_for_wireless''))
          else if pl_PeerFingerprint g \<noteq> nr_Fingerprint n \<or> pl_Mode g \<noteq> np_Mode p then Return (Inl (Error_New ''gateway_node_plan_mismatch''))
          else Gateway_capabilities (\<lambda>caps.
            if \<not> validate_receipts sv n p caps then Return (Inl (Error_New ''wireless_pair_receipt_mismatch''))
            else Gateway ((gateway_request ''validate'')\<lparr>op_Plan := Some g\<rparr>) (\<lambda>x. case x of
              Inl _ \<Rightarrow> Return (Inl (Error_New ''gateway_backhaul_preflight_failed''))
            | Inr a \<Rightarrow>
                (case injectNodeWiFi p a of
                   Inl e \<Rightarrow> Return (Inl e)
                 | Inr p' \<Rightarrow>
                     (case node_ValidatePlan p' (caps\<lparr>cb_GatewayBackhaulReady := True\<rparr>) (nr_Capabilities n) of
                        Some e \<Rightarrow> Return (Inl e)
                      | None \<Rightarrow> Return (Inr (p', g)))))))"

definition planCoverage :: "service \<Rightarrow> string \<Rightarrow> node_plan \<Rightarrow> plan option \<Rightarrow> (node_plan \<times> plan) result prog" where
  "planCoverage sv i p gateway =
     bind_prog (service_node sv i) (\<lambda>x. case x of
       Inl e \<Rightarrow> Return (Inl e)
     | Inr n \<Rightarrow> bind_prog (validateCoverage sv n p gateway) (\<lambda>y. Return (map_sum id (\<lambda>(p', g). (RedactPlan p', g)) y)))"

section \<open>Rolling back\<close>

text \<open>
  The subrequests carry keys made of the transaction's own identifier, so that a lost answer can be asked
  for again.
\<close>

definition node_key :: "coverage_entry \<Rightarrow> string" where
  "node_key e = ct_ID (ce_Transaction e) @ ''-node''"

definition gateway_key :: "coverage_entry \<Rightarrow> string" where
  "gateway_key e = ct_ID (ce_Transaction e) @ ''-gateway''"

definition prepare_node_request :: "coverage_entry \<Rightarrow> node_operation" where
  "prepare_node_request e = (node_request ''prepare'')\<lparr>no_Key := node_key e, no_Plan := Some (ct_Plan (ce_Transaction e))\<rparr>"

definition prepare_gateway_request :: "coverage_entry \<Rightarrow> operation" where
  "prepare_gateway_request e = (gateway_request ''prepare'')\<lparr>op_Key := gateway_key e, op_Plan := Some (ct_GatewayPlan (ce_Transaction e))\<rparr>"

definition settled_states :: "string list" where
  "settled_states = [''rolled-back'', ''failed'']"

text \<open>Each part of \<^verbatim>\<open>rollbackCoverage\<close> returns the entry as changed and the participant's error.\<close>

definition find_node :: "node_record \<Rightarrow> coverage_entry \<Rightarrow> (coverage_entry \<times> go_error option) prog" where
  "find_node n e =
     (if cp_ID (ce_Node e) \<noteq> '''' then Return (e, None)
      else Remote n (prepare_node_request e) (\<lambda>x. case x of
        Inl err \<Rightarrow> Return (e, Some err)
      | Inr a \<Rightarrow> Return (case decodeParticipant a of Inl err \<Rightarrow> (e\<lparr>ce_Node := no_participant\<rparr>, Some err) | Inr p \<Rightarrow> (e\<lparr>ce_Node := p\<rparr>, None))))"

definition find_gateway :: "coverage_entry \<Rightarrow> (coverage_entry \<times> go_error option) prog" where
  "find_gateway e =
     (if cp_ID (ce_Gateway e) \<noteq> '''' then Return (e, None)
      else Gateway (prepare_gateway_request e) (\<lambda>x. case x of
        Inl err \<Rightarrow> Return (e, Some err)
      | Inr a \<Rightarrow> Return (case decodeParticipant a of Inl err \<Rightarrow> (e\<lparr>ce_Gateway := no_participant\<rparr>, Some err) | Inr p \<Rightarrow> (e\<lparr>ce_Gateway := p\<rparr>, None))))"

definition cancel_node :: "node_record \<Rightarrow> coverage_entry \<Rightarrow> go_error option \<Rightarrow> (coverage_entry \<times> go_error option) prog" where
  "cancel_node n e earlier =
     (if cp_ID (ce_Node e) \<noteq> '''' \<and> cp_State (ce_Node e) \<notin> set settled_states
      then Remote n ((node_request ''rollback'')\<lparr>no_ID := cp_ID (ce_Node e)\<rparr>) (\<lambda>x. case x of
        Inl err \<Rightarrow> Return (e, Some err)
      | Inr a \<Rightarrow> Return (case matchingParticipant a (cp_ID (ce_Node e)) [''rolled-back''] of (p, err) \<Rightarrow> (e\<lparr>ce_Node := p\<rparr>, err)))
      else Return (e, earlier))"

definition cancel_gateway :: "coverage_entry \<Rightarrow> go_error option \<Rightarrow> (coverage_entry \<times> go_error option) prog" where
  "cancel_gateway e earlier =
     (if cp_ID (ce_Gateway e) \<noteq> '''' \<and> cp_State (ce_Gateway e) \<notin> set settled_states
      then Gateway ((gateway_request ''rollback'')\<lparr>op_ID := cp_ID (ce_Gateway e)\<rparr>) (\<lambda>x. case x of
        Inl err \<Rightarrow> Return (e, Some err)
      | Inr a \<Rightarrow> Return (case matchingParticipant a (cp_ID (ce_Gateway e)) [''rolled-back''] of (p, err) \<Rightarrow> (e\<lparr>ce_Gateway := p\<rparr>, err)))
      else Return (e, earlier))"

definition finish_rollback :: "coverage_journal \<Rightarrow> coverage_entry \<Rightarrow> go_error option \<Rightarrow> go_error option \<Rightarrow> (coverage_entry \<times> go_error option) prog" where
  "finish_rollback j e nodeErr gatewayErr =
     (if nodeErr \<noteq> None \<or> gatewayErr \<noteq> None
      then let e' = set_error ''coverage_rollback_pending'' e in
           Save (put_entry e' j) (\<lambda>err. Return (e', Some (case err of Some x \<Rightarrow> x | None \<Rightarrow> Error_New ''coverage_rollback_pending'')))
      else let e' = forget_passphrase (set_deadline 0 (set_state ''rolled-back'' e)) in
           Save (put_entry e' j) (\<lambda>err. Return (e', err)))"

definition rollbackCoverage :: "coverage_journal \<Rightarrow> node_record \<Rightarrow> coverage_entry \<Rightarrow> (coverage_entry \<times> go_error option) prog" where
  "rollbackCoverage j n e =
     (if entry_state e = ''rolled-back'' then Return (e, None)
      else let e1 = set_state ''rolling-back'' e in
        Save (put_entry e1 j) (\<lambda>err. case err of
          Some x \<Rightarrow> Return (e1, Some x)
        | None \<Rightarrow>
            bind_prog (find_node n e1) (\<lambda>(e2, nodeErr).
            bind_prog (find_gateway e2) (\<lambda>(e3, gatewayErr).
            bind_prog (cancel_node n e3 nodeErr) (\<lambda>(e4, nodeErr').
            bind_prog (cancel_gateway e4 gatewayErr) (\<lambda>(e5, gatewayErr').
              finish_rollback j e5 nodeErr' gatewayErr'))))))"

section \<open>Preparing\<close>

type_synonym coverage_result = "coverage_output option \<times> go_error option"

definition refused :: "string \<Rightarrow> 'a option \<times> go_error option" where
  "refused msg = (None, Some (Error_New msg))"

definition reported :: "coverage_entry \<Rightarrow> go_error \<Rightarrow> coverage_result" where
  "reported e err = (Some (coverageOutput e), Some err)"

definition finish_prepare :: "coverage_journal \<Rightarrow> coverage_entry \<Rightarrow> coverage_result prog" where
  "finish_prepare j e =
     (let e' = set_error '''' (set_state ''prepared'' e) in
      Save (put_entry e' j) (\<lambda>err. Return (case err of Some x \<Rightarrow> (None, Some x) | None \<Rightarrow> (Some (coverageOutput e'), None))))"

definition prepare_node :: "coverage_journal \<Rightarrow> node_record \<Rightarrow> coverage_entry \<Rightarrow> coverage_result prog" where
  "prepare_node j n e =
     (if cp_ID (ce_Node e) \<noteq> '''' then finish_prepare j e
      else Remote n (prepare_node_request e) (\<lambda>x. case x of
        Inl _ \<Rightarrow> Return (reported e (Error_New ''node_coverage_prepare_incomplete''))
      | Inr a \<Rightarrow>
          (case decodeParticipant a of
             Inl _ \<Rightarrow> Return (reported e (Error_New ''invalid_node_prepare_response''))
           | Inr p \<Rightarrow>
               if cp_State p \<noteq> ''prepared'' then Return (reported e (Error_New ''invalid_node_prepare_response''))
               else finish_prepare j (e\<lparr>ce_Node := p\<rparr>))))"

definition prepare_gateway :: "coverage_journal \<Rightarrow> node_record \<Rightarrow> coverage_entry \<Rightarrow> coverage_result prog" where
  "prepare_gateway j n e =
     (if cp_ID (ce_Gateway e) \<noteq> '''' then prepare_node j n e
      else Gateway (prepare_gateway_request e) (\<lambda>x. case x of
        Inl _ \<Rightarrow> Return (reported e (Error_New ''gateway_coverage_prepare_incomplete''))
      | Inr a \<Rightarrow>
          (case decodeParticipant a of
             Inl _ \<Rightarrow> Return (reported e (Error_New ''invalid_gateway_prepare_response''))
           | Inr q \<Rightarrow>
               if cp_State q \<noteq> ''prepared'' then Return (reported e (Error_New ''invalid_gateway_prepare_response''))
               else (case injectNodeWiFi (ct_Plan (ce_Transaction e)) a of
                  Inl err \<Rightarrow> Return (reported e err)
                | Inr p \<Rightarrow>
                    let e' = set_plan p (e\<lparr>ce_Gateway := q\<rparr>) in
                    Save (put_entry e' j) (\<lambda>err. case err of Some err' \<Rightarrow> Return (None, Some err') | None \<Rightarrow> prepare_node (put_entry e' j) n e')))))"

definition new_entry :: "coverage_operation \<Rightarrow> node_record \<Rightarrow> string \<Rightarrow> node_plan \<Rightarrow> plan \<Rightarrow> bytes \<Rightarrow> gotime \<Rightarrow> coverage_entry" where
  "new_entry q n hash p g nonce now =
     \<lparr>ce_Transaction = \<lparr>ct_ID = hex_encode nonce, ct_NodeID = nr_ID n, ct_State = ''preparing'', ct_CreatedAt = now, ct_Deadline = 0,
        ct_Plan = p, ct_GatewayPlan = g, ct_ErrorCode = ''''\<rparr>,
      ce_Key = co_Key q, ce_Hash = hash, ce_Node = no_participant, ce_Gateway = no_participant\<rparr>"

definition begin_entry :: "coverage_journal \<Rightarrow> node_record \<Rightarrow> coverage_operation \<Rightarrow> string \<Rightarrow> node_plan \<Rightarrow> plan \<Rightarrow> coverage_result prog" where
  "begin_entry j n q hash p g =
     Random (\<lambda>z. case z of Inl err \<Rightarrow> Return (None, Some err) | Inr nonce \<Rightarrow>
     Now (\<lambda>now. let e = new_entry q n hash p g nonce now in
       Save (put_entry e j) (\<lambda>err. case err of Some err' \<Rightarrow> Return (None, Some err') | None \<Rightarrow> prepare_gateway (put_entry e j) n e)))"

definition create_entry :: "service \<Rightarrow> coverage_journal \<Rightarrow> node_record \<Rightarrow> coverage_operation \<Rightarrow> node_plan \<Rightarrow> string \<Rightarrow> coverage_result prog" where
  "create_entry sv j n q plan hash =
     (if \<exists>(_, e) \<in> set (cj_Entries j). coverageActive e then Return (refused ''coverage_transaction_busy'')
      else if map_of (cj_Entries j) (nr_ID n) = None \<and> length (cj_Entries j) \<ge> 64 then Return (refused ''coverage_history_limit'')
      else bind_prog (service_node sv (nr_ID n)) (\<lambda>x. case x of Inl err \<Rightarrow> Return (None, Some err) | Inr fresh \<Rightarrow>
        bind_prog (validateCoverage sv fresh plan (co_GatewayPlan q)) (\<lambda>y. case y of Inl err \<Rightarrow> Return (None, Some err) | Inr (p, g) \<Rightarrow>
          begin_entry j n q hash p g)))"

definition prepareCoverage :: "service \<Rightarrow> coverage_journal \<Rightarrow> node_record \<Rightarrow> coverage_operation \<Rightarrow> coverage_result prog" where
  "prepareCoverage sv j n q =
     (case co_Plan q of
        None \<Rightarrow> Return (refused ''coverage_plan_and_idempotency_key_required'')
      | Some plan \<Rightarrow>
          if \<not> requestKey (co_Key q) then Return (refused ''coverage_plan_and_idempotency_key_required'')
          else let hash = hex_encode (sv_hash sv plan (co_GatewayPlan q)) in
            case map_of (cj_Entries j) (nr_ID n) of
              None \<Rightarrow> create_entry sv j n q plan hash
            | Some e \<Rightarrow>
                if ce_Key e \<noteq> co_Key q then create_entry sv j n q plan hash
                else if ce_Hash e \<noteq> hash then Return (refused ''coverage_idempotency_conflict'')
                else if entry_state e \<noteq> ''preparing'' then Return (Some (coverageOutput e), None)
                else prepare_gateway j n e)"

section \<open>Applying\<close>

text \<open>\<^verbatim>\<open>int((time.Until(deadline) + time.Second - 1) / time.Second)\<close>; the division truncates.\<close>

definition seconds_left :: "gotime \<Rightarrow> gotime \<Rightarrow> int" where
  "seconds_left deadline now = (let d = wrap64 (time_sub deadline now + second - 1) in if d < 0 then - (- d div second) else d div second)"

text \<open>The node receives only the time remaining from the recorded deadline.\<close>

definition apply_node :: "node_record \<Rightarrow> coverage_entry \<Rightarrow> (coverage_entry \<times> go_error option) prog" where
  "apply_node n e =
     Now (\<lambda>now.
       let remaining = seconds_left (ct_Deadline (ce_Transaction e)) now in
       if remaining < 30 then Return (e, Some (Error_New ''coverage_apply_window_exhausted''))
       else Remote n ((node_request ''apply'')\<lparr>no_ID := cp_ID (ce_Node e), no_TimeoutSeconds := remaining\<rparr>) (\<lambda>y. case y of
         Inl err \<Rightarrow> Return (e, Some err)
       | Inr b \<Rightarrow> Return (case matchingParticipant b (cp_ID (ce_Node e)) [''applied''] of (p, err) \<Rightarrow> (e\<lparr>ce_Node := p\<rparr>, err))))"

definition apply_participants ::
  "coverage_journal \<Rightarrow> node_record \<Rightarrow> coverage_entry \<Rightarrow> int \<Rightarrow> (coverage_entry \<times> go_error option) prog" where
  "apply_participants j n e timeout =
     Gateway ((gateway_request ''apply'')\<lparr>op_ID := cp_ID (ce_Gateway e), op_TimeoutSeconds := timeout\<rparr>) (\<lambda>x. case x of
       Inl err \<Rightarrow> Return (e, Some err)
     | Inr a \<Rightarrow>
         (case matchingParticipant a (cp_ID (ce_Gateway e)) [''applied''] of (g, err) \<Rightarrow>
            let e1 = e\<lparr>ce_Gateway := g\<rparr> in
            (case err of
               Some err' \<Rightarrow> Return (e1, Some err')
             | None \<Rightarrow> Save (put_entry e1 j) (\<lambda>err. case err of Some err' \<Rightarrow> Return (e1, Some err') | None \<Rightarrow> apply_node n e1))))"

definition settings_changed :: "node_plan \<Rightarrow> node_plan \<Rightarrow> bool" where
  "settings_changed p q \<longleftrightarrow> np_SSID p \<noteq> np_SSID q \<or> np_Passphrase p \<noteq> np_Passphrase q \<or> np_Channel p \<noteq> np_Channel q"

definition settle_apply :: "coverage_journal \<Rightarrow> node_record \<Rightarrow> coverage_entry \<Rightarrow> go_error option \<Rightarrow> (coverage_entry \<times> go_error option) prog" where
  "settle_apply j n e err =
     (case err of
        Some _ \<Rightarrow>
          bind_prog (rollbackCoverage j n (set_error ''coverage_apply_failed'' e)) (\<lambda>(e', err'). Return (e',
            Some (Error_New (if err' \<noteq> None then ''coverage_apply_failed_rollback_pending'' else ''coverage_apply_failed_and_rolled_back''))))
      | None \<Rightarrow> let e' = set_state ''applied'' e in Save (put_entry e' j) (\<lambda>err'. Return (e', err')))"

definition start_apply :: "coverage_journal \<Rightarrow> node_record \<Rightarrow> coverage_entry \<Rightarrow> int \<Rightarrow> (coverage_entry \<times> go_error option) prog" where
  "start_apply j n e timeout =
     Now (\<lambda>now.
       let e1 = set_deadline (now + dur_mul timeout second) (set_state ''applying'' e) in
       Save (put_entry e1 j) (\<lambda>err. case err of Some err' \<Rightarrow> Return (e1, Some err') | None \<Rightarrow>
         bind_prog (apply_participants (put_entry e1 j) n e1 timeout) (\<lambda>(e2, err). settle_apply (put_entry e1 j) n e2 err)))"

definition applyCoverage ::
  "service \<Rightarrow> coverage_journal \<Rightarrow> node_record \<Rightarrow> coverage_entry \<Rightarrow> int \<Rightarrow> (coverage_entry \<times> go_error option) prog" where
  "applyCoverage sv j n e timeout =
     (if timeout < 30 \<or> timeout > 180 then Return (e, Some (Error_New ''coverage_confirmation_window_must_be_30_to_180_seconds''))
      else if entry_state e = ''applied'' \<or> entry_state e = ''confirmed'' then Return (e, None)
      else if entry_state e \<noteq> ''prepared'' then Return (e, Some (Error_New ''coverage_transaction_invalid_state''))
      else bind_prog (service_node sv (nr_ID n)) (\<lambda>x. case x of Inl err \<Rightarrow> Return (e, Some err) | Inr fresh \<Rightarrow>
        bind_prog (validateCoverage sv fresh (ct_Plan (ce_Transaction e)) (Some (ct_GatewayPlan (ce_Transaction e)))) (\<lambda>y. case y of
          Inl err \<Rightarrow> Return (e, Some err)
        | Inr (prepared, _) \<Rightarrow>
            if settings_changed prepared (ct_Plan (ce_Transaction e)) then Return (e, Some (Error_New ''wireless_prepared_settings_changed''))
            else start_apply j n e timeout)))"

section \<open>Confirming\<close>

definition finalize_gateway :: "coverage_journal \<Rightarrow> coverage_entry \<Rightarrow> (coverage_entry \<times> go_error option) prog" where
  "finalize_gateway j e =
     Gateway ((gateway_request ''finalize'')\<lparr>op_ID := cp_ID (ce_Gateway e)\<rparr>) (\<lambda>x. case x of
       Inl _ \<Rightarrow> Return (e, Some (Error_New ''gateway_finalization_pending''))
     | Inr a \<Rightarrow>
         (case matchingParticipant a (cp_ID (ce_Gateway e)) [''confirmed'', ''finalized''] of
            (g, Some err) \<Rightarrow> Return (e\<lparr>ce_Gateway := g\<rparr>, Some err)
          | (g, None) \<Rightarrow>
              let e' = set_error '''' (forget_passphrase (set_deadline 0 (set_state ''confirmed'' (e\<lparr>ce_Gateway := g\<rparr>)))) in
              Save (put_entry e' j) (\<lambda>err. Return (e', err))))"

definition commit_entry :: "coverage_journal \<Rightarrow> coverage_entry \<Rightarrow> (coverage_entry \<times> go_error option) prog" where
  "commit_entry j e = Save (put_entry e j) (\<lambda>err. case err of Some err' \<Rightarrow> Return (e, Some err') | None \<Rightarrow> finalize_gateway (put_entry e j) e)"

text \<open>The node's uncertain answer to a confirmation: its status decides.\<close>

definition reconcile_node :: "coverage_journal \<Rightarrow> node_record \<Rightarrow> coverage_entry \<Rightarrow> (coverage_entry \<times> go_error option) prog" where
  "reconcile_node j n e =
     Remote n (node_request ''status'') (\<lambda>x. case x of
       Inl _ \<Rightarrow> Return (e, Some (Error_New ''node_confirmation_pending''))
     | Inr a \<Rightarrow>
         (case matchingParticipant a (cp_ID (ce_Node e)) [''confirmed'', ''rolled-back'', ''failed'', ''applied''] of
            (_, Some err) \<Rightarrow> Return (e, Some err)
          | (p, None) \<Rightarrow>
              let e1 = e\<lparr>ce_Node := p\<rparr> in
              if cp_State p = ''rolled-back'' \<or> cp_State p = ''failed''
              then bind_prog (rollbackCoverage j n (set_error ''node_confirmation_failed'' e1)) (\<lambda>(e2, err).
                     Return (e2, Some (case err of Some err' \<Rightarrow> err' | None \<Rightarrow> Error_New ''node_confirmation_failed_and_rolled_back'')))
              else if cp_State p \<noteq> ''confirmed'' then Return (e1, Some (Error_New ''node_confirmation_pending''))
              else commit_entry j e1))"

definition confirm_node :: "coverage_journal \<Rightarrow> node_record \<Rightarrow> coverage_entry \<Rightarrow> (coverage_entry \<times> go_error option) prog" where
  "confirm_node j n e =
     Remote n ((node_request ''confirm'')\<lparr>no_ID := cp_ID (ce_Node e)\<rparr>) (\<lambda>x. case x of
       Inl _ \<Rightarrow> reconcile_node j n e
     | Inr a \<Rightarrow>
         (case matchingParticipant a (cp_ID (ce_Node e)) [''confirmed''] of
            (p, Some err) \<Rightarrow> Return (e\<lparr>ce_Node := p\<rparr>, Some err)
          | (p, None) \<Rightarrow> commit_entry j (e\<lparr>ce_Node := p\<rparr>)))"

text \<open>The gateway refused to confirm: only if it reports that it has rolled back is the change given up.\<close>

definition reconcile_gateway :: "coverage_journal \<Rightarrow> node_record \<Rightarrow> coverage_entry \<Rightarrow> (coverage_entry \<times> go_error option) prog" where
  "reconcile_gateway j n e =
     (let pending = Return (e, Some (Error_New ''gateway_confirmation_pending'')) in
      Gateway (gateway_request ''status'') (\<lambda>x. case x of
        Inl _ \<Rightarrow> pending
      | Inr a \<Rightarrow>
          (case matchingParticipant a (cp_ID (ce_Gateway e)) [''rolled-back'', ''failed''] of
             (_, Some _) \<Rightarrow> pending
           | (g, None) \<Rightarrow>
               bind_prog (rollbackCoverage j n (set_error ''gateway_confirmation_failed'' (e\<lparr>ce_Gateway := g\<rparr>))) (\<lambda>(e2, err).
                 Return (e2, Some (case err of Some err' \<Rightarrow> err' | None \<Rightarrow> Error_New ''gateway_confirmation_failed_and_rolled_back''))))))"

definition confirm_participants :: "coverage_journal \<Rightarrow> node_record \<Rightarrow> coverage_entry \<Rightarrow> (coverage_entry \<times> go_error option) prog" where
  "confirm_participants j n e =
     Gateway ((gateway_request ''confirm'')\<lparr>op_ID := cp_ID (ce_Gateway e)\<rparr>) (\<lambda>x. case x of
       Inl _ \<Rightarrow> reconcile_gateway j n e
     | Inr a \<Rightarrow>
         (case matchingParticipant a (cp_ID (ce_Gateway e)) [''confirmed'', ''finalized''] of
            (g, Some err) \<Rightarrow> Return (e\<lparr>ce_Gateway := g\<rparr>, Some err)
          | (g, None) \<Rightarrow>
              let e1 = e\<lparr>ce_Gateway := g\<rparr> in
              Save (put_entry e1 j) (\<lambda>err. case err of Some err' \<Rightarrow> Return (e1, Some err') | None \<Rightarrow> confirm_node (put_entry e1 j) n e1)))"

definition confirmCoverage :: "service \<Rightarrow> coverage_journal \<Rightarrow> node_record \<Rightarrow> coverage_entry \<Rightarrow> (coverage_entry \<times> go_error option) prog" where
  "confirmCoverage sv j n e =
     (if entry_state e = ''confirmed'' then Return (e, None)
      else if entry_state e \<noteq> ''applied'' \<and> entry_state e \<noteq> ''confirming'' then Return (e, Some (Error_New ''coverage_transaction_invalid_state''))
      else if entry_state e = ''confirming'' then confirm_participants j n e
      else Now (\<lambda>now.
        if \<not> now < ct_Deadline (ce_Transaction e)
        then bind_prog (rollbackCoverage j n e) (\<lambda>(e1, _). Return (e1, Some (Error_New ''coverage_confirmation_expired'')))
        else bind_prog (service_node sv (nr_ID n)) (\<lambda>x. case x of Inl err \<Rightarrow> Return (e, Some err) | Inr fresh \<Rightarrow>
          bind_prog (validateCoverage sv fresh (ct_Plan (ce_Transaction e)) (Some (ct_GatewayPlan (ce_Transaction e)))) (\<lambda>y. case y of
            Inl err \<Rightarrow> Return (e, Some err)
          | Inr _ \<Rightarrow>
              let e1 = set_state ''confirming'' e in
              Save (put_entry e1 j) (\<lambda>err. case err of Some err' \<Rightarrow> Return (e1, Some err') | None \<Rightarrow> confirm_participants (put_entry e1 j) n e1)))))"

section \<open>The operations of the service\<close>

definition addGatewaySetup :: "service \<Rightarrow> (string, string option) gomap prog" where
  "addGatewaySetup sv =
     (if \<not> sv_operator sv then Return [(''gateway_setup_issue'', Some ''Gateway backhaul helper is unavailable'')]
      else Gateway (gateway_request ''inspect'') (\<lambda>x. Return (case x of
        Inl _ \<Rightarrow> [(''gateway_setup_issue'', Some ''Gateway backhaul inspection failed'')]
      | Inr a \<Rightarrow> [(''gateway_setup'', map_of (an_extra a) ''gateway_setup'')])))"

definition current_participant :: "answer result \<Rightarrow> participant \<Rightarrow> participant" where
  "current_participant x known =
     (case x of Inl _ \<Rightarrow> known | Inr a \<Rightarrow>
       (case decodeParticipant a of Inl _ \<Rightarrow> known | Inr p \<Rightarrow> if cp_ID p = cp_ID known then p else known))"

definition statusCoverage :: "service \<Rightarrow> node_record \<Rightarrow> coverage_entry \<Rightarrow> coverage_result prog" where
  "statusCoverage sv n e =
     bind_prog (addGatewaySetup sv) (\<lambda>setup.
       Gateway (gateway_request ''status'') (\<lambda>x.
       Remote n (node_request ''status'') (\<lambda>y.
         Return (Some ((coverageOutput e)\<lparr>out_gateway := current_participant x (ce_Gateway e), out_node := current_participant y (ce_Node e),
           out_extra := (''gateway_fingerprint'', Some (sv_fingerprint sv)) # setup @
             (case y of
                Inl _ \<Rightarrow> [(''node_issue'', Some ''Node is unreachable; independent rollback remains local to the node'')]
              | Inr b \<Rightarrow> map (\<lambda>k. (k, map_of (an_extra b) k)) [''setup'', ''node_link'', ''capabilities''])\<rparr>), None))))"

definition validate_participants :: "node_record \<Rightarrow> coverage_entry \<Rightarrow> go_error option prog" where
  "validate_participants n e =
     Gateway ((gateway_request ''validate'')\<lparr>op_ID := cp_ID (ce_Gateway e)\<rparr>) (\<lambda>x. case x of
       Inl err \<Rightarrow> Return (Some err)
     | Inr _ \<Rightarrow> Remote n ((node_request ''validate'')\<lparr>no_ID := cp_ID (ce_Node e)\<rparr>) (\<lambda>y. Return (case y of Inl err \<Rightarrow> Some err | Inr _ \<Rightarrow> None)))"

text \<open>The actions on an existing entry; the entry is reported as it is in memory afterwards.\<close>

definition act_on_entry :: "service \<Rightarrow> coverage_journal \<Rightarrow> node_record \<Rightarrow> coverage_entry \<Rightarrow> coverage_operation \<Rightarrow> coverage_result prog" where
  "act_on_entry sv j n e q =
     (let done = (\<lambda>(e', err). Return (Some (coverageOutput e'), err)) in
      if co_Action q = ''status'' then statusCoverage sv n e
      else if co_Action q = ''apply'' then bind_prog (applyCoverage sv j n e (co_TimeoutSeconds q)) done
      else if co_Action q = ''confirm'' then bind_prog (confirmCoverage sv j n e) done
      else if co_Action q = ''rollback'' then
        (if entry_state e = ''confirmed'' then done (e, Some (Error_New ''coverage_transaction_already_confirmed''))
         else if entry_state e = ''confirming'' then done (e, Some (Error_New ''coverage_confirmation_must_reconcile_before_rollback''))
         else bind_prog (rollbackCoverage j n e) done)
      else if co_Action q = ''validate'' then bind_prog (validate_participants n e) (\<lambda>err. done (e, err))
      else done (e, Some (Error_New ''unsupported_coverage_operation'')))"

definition wirelessPrepare :: "coverage_operation \<Rightarrow> bool" where
  "wirelessPrepare q \<longleftrightarrow> co_Action q = ''prepare'' \<and>
     (co_GatewayPlan q \<noteq> None \<or> (case co_Plan q of None \<Rightarrow> False | Some p \<Rightarrow> np_Mode p \<noteq> ''ethernet''))"

text \<open>\<^verbatim>\<open>operateCoverage\<close> once the journal is loaded; \<open>None\<close> is the result \<^verbatim>\<open>handled = false\<close>.\<close>

definition operate_loaded :: "service \<Rightarrow> string \<Rightarrow> coverage_operation \<Rightarrow> coverage_journal \<Rightarrow> coverage_entry option \<Rightarrow> coverage_result option prog" where
  "operate_loaded sv i q j entry =
     (if \<not> wirelessPrepare q \<and> entry = None then Return None
      else if \<not> wirelessPrepare q \<and> co_Action q \<noteq> ''status'' \<and> co_ID q \<noteq> ct_ID (ce_Transaction (the entry))
      then Return (Some (refused ''coverage_pair_transaction_id_required''))
      else if \<not> sv_operator sv then Return (Some (refused ''gateway_backhaul_helper_unavailable''))
      else case pairedRecord sv i of
        Inl err \<Rightarrow> Return (Some (None, Some err))
      | Inr n \<Rightarrow>
          bind_prog (if wirelessPrepare q then prepareCoverage sv j n q else act_on_entry sv j n (the entry) q) (\<lambda>x. Return (Some x)))"

text \<open>What the journal's own lock and \<^verbatim>\<open>loadCoverage\<close> guard: \<open>fail\<close> is the result on an error.\<close>

definition with_coverage :: "service \<Rightarrow> (go_error \<Rightarrow> 'r) \<Rightarrow> (coverage_journal \<Rightarrow> 'r prog) \<Rightarrow> 'r prog" where
  "with_coverage sv fail body =
     Lock (\<lambda>l. case l of Some err \<Rightarrow> Return (fail err) | None \<Rightarrow>
     Read (\<lambda>file. case loadCoverage sv file of Inl err \<Rightarrow> Return (fail err) | Inr j \<Rightarrow> body j))"

text \<open>An Ethernet plan makes the node's own journal authoritative again: a settled entry is deleted.\<close>

definition operate_journal :: "service \<Rightarrow> string \<Rightarrow> coverage_operation \<Rightarrow> coverage_journal \<Rightarrow> coverage_result option prog" where
  "operate_journal sv i q j =
     (case map_of (cj_Entries j) i of
        None \<Rightarrow> operate_loaded sv i q j None
      | Some e \<Rightarrow>
          if co_Action q = ''prepare'' \<and> \<not> wirelessPrepare q
          then if coverageActive e then Return (Some (refused ''settle_coverage_transaction_before_changing_uplink''))
               else let j' = j\<lparr>cj_Entries := AList.delete i (cj_Entries j)\<rparr> in
                 Save j' (\<lambda>err. case err of Some err' \<Rightarrow> Return (Some (None, Some err')) | None \<Rightarrow> operate_loaded sv i q j' None)
          else operate_loaded sv i q j (Some e))"

definition operateCoverage :: "service \<Rightarrow> string \<Rightarrow> coverage_operation \<Rightarrow> coverage_result option prog" where
  "operateCoverage sv i q = with_coverage sv (\<lambda>err. Some (None, Some err)) (operate_journal sv i q)"

text \<open>\<^verbatim>\<open>recoverCoverage\<close>, every five seconds: it resumes an intent, it never starts an apply.\<close>

fun recover_entries :: "service \<Rightarrow> coverage_journal \<Rightarrow> (string, coverage_entry) gomap \<Rightarrow> go_error option prog" where
  "recover_entries sv j [] = Return None"
| "recover_entries sv j ((i, e) # es) =
     (if \<not> coverageActive e then recover_entries sv j es
      else case pairedRecord sv i of
        Inl err \<Rightarrow> Return (Some err)
      | Inr n \<Rightarrow>
          if entry_state e = ''confirming'' then bind_prog (confirmCoverage sv j n e) (\<lambda>(_, err). Return err)
          else if entry_state e = ''rolling-back'' then bind_prog (rollbackCoverage j n e) (\<lambda>(_, err). Return err)
          else if entry_state e = ''applying'' \<or> entry_state e = ''applied''
          then Now (\<lambda>now. if \<not> now < ct_Deadline (ce_Transaction e)
                 then bind_prog (rollbackCoverage j n e) (\<lambda>(_, err). Return err)
                 else recover_entries sv j es)
          else recover_entries sv j es)"

definition recoverCoverage :: "service \<Rightarrow> go_error option prog" where
  "recoverCoverage sv = with_coverage sv Some (\<lambda>j. recover_entries sv j (cj_Entries j))"

definition checkCoverageUnpair :: "service \<Rightarrow> string \<Rightarrow> go_error option prog" where
  "checkCoverageUnpair sv i =
     Read (\<lambda>file. case loadCoverage sv file of
       Inl err \<Rightarrow> Return (Some err)
     | Inr j \<Rightarrow> Return (case map_of (cj_Entries j) i of
         None \<Rightarrow> None
       | Some e \<Rightarrow> if coverageActive e then Some (Error_New ''settle_coverage_transaction_before_unpairing'') else None))"

text \<open>
  \<^verbatim>\<open>Service.Operate\<close>, on the decoded request: what the coordinator does not handle goes to the node as it
  is. A direct answer to a status carries the gateway's fingerprint and setup.
\<close>

datatype operate_result =
    Covered coverage_result
  | Direct "answer result" "(string, string option) gomap"

definition direct_request :: "coverage_operation \<Rightarrow> node_operation" where
  "direct_request q = \<lparr>no_Action = co_Action q, no_ID = co_ID q, no_Key = co_Key q, no_Plan = co_Plan q, no_TimeoutSeconds = co_TimeoutSeconds q\<rparr>"

definition operate_direct :: "service \<Rightarrow> string \<Rightarrow> coverage_operation \<Rightarrow> operate_result prog" where
  "operate_direct sv i q =
     bind_prog (service_node sv i) (\<lambda>x. case x of Inl err \<Rightarrow> Return (Direct (Inl err) []) | Inr n \<Rightarrow>
       let send = Remote n (direct_request q) (\<lambda>y. Return (Direct y [])) in
       if co_Action q = ''prepare''
       then (case co_Plan q of
               None \<Rightarrow> Return (Direct (Inl (Error_New ''node_plan_required'')) [])
             | Some p \<Rightarrow> Gateway_capabilities (\<lambda>caps.
                 case node_ValidatePlan p caps (nr_Capabilities n) of Some err \<Rightarrow> Return (Direct (Inl err) []) | None \<Rightarrow> send))
       else if co_Action q = ''status''
       then Remote n (node_request ''status'') (\<lambda>y. case y of
              Inl err \<Rightarrow> Return (Direct (Inl err) [])
            | Inr a \<Rightarrow> bind_prog (addGatewaySetup sv) (\<lambda>setup. Return (Direct (Inr a) ((''gateway_fingerprint'', Some (sv_fingerprint sv)) # setup))))
       else send)"

definition Operate :: "service \<Rightarrow> string \<Rightarrow> string \<Rightarrow> coverage_operation \<Rightarrow> operate_result prog" where
  "Operate sv i action q =
     (if co_Action q \<noteq> '''' \<and> co_Action q \<noteq> action then Return (Covered (refused ''node_action_mismatch''))
      else let q' = q\<lparr>co_Action := action\<rparr> in
        bind_prog (operateCoverage sv i q') (\<lambda>x. case x of Some res \<Rightarrow> Return (Covered res) | None \<Rightarrow> operate_direct sv i q'))"

text \<open>\<^verbatim>\<open>Service.Plan\<close>: the redacted plan, with the gateway's for a wireless one.\<close>

definition Plan :: "service \<Rightarrow> string \<Rightarrow> node_plan \<Rightarrow> plan option \<Rightarrow> (node_plan \<times> plan option) result prog" where
  "Plan sv i p gateway =
     (if np_Mode p \<noteq> ''ethernet'' \<or> gateway \<noteq> None
      then bind_prog (planCoverage sv i p gateway) (\<lambda>x. Return (map_sum id (\<lambda>(p', g). (p', Some g)) x))
      else bind_prog (service_node sv i) (\<lambda>x. case x of Inl err \<Rightarrow> Return (Inl err) | Inr n \<Rightarrow>
        Gateway_capabilities (\<lambda>caps. Return (case node_ValidatePlan p caps (nr_Capabilities n) of
          Some err \<Rightarrow> Inl err | None \<Rightarrow> Inr (RedactPlan p, None)))))"

end
