(* ===== verification/Coverage_Run.thy ===== *)
theory Coverage_Run
  imports Coverage
begin

text \<open>
  The coordinator's programs at work: a world of its journal file, the gateway and the nodes, and the steps
  that change it. A program advances one request at a time; between two of its steps a participant may act
  on its own (its watchdog), a request sent earlier may arrive late, or a participant may lose power in the
  middle of an operation. The coordinator itself may be stopped at any moment. The participants are the
  functions of a record \<open>parties\<close>; the contract they obey is a locale of the theory that proves safety.
\<close>

section \<open>The participants\<close>

text \<open>
  What a participant's operation passes through, what it answers, and what the coordinator's peer can see of
  it: the request key, identifier and state of the node's transaction; identifier and state of the
  gateway's. The operation \<open>None\<close> is the participant's own recovery. \<open>pa_nonce\<close> is the identifier a
  transaction begun in this call would get.
\<close>

record ('g, 'n, 'c, 'd) parties =
  pa_node_view :: "'n \<Rightarrow> (string \<times> string \<times> string) option"
  pa_node_passes :: "'c \<Rightarrow> node_operation option \<Rightarrow> 'n \<Rightarrow> 'n list"
  pa_node_reply :: "'c \<Rightarrow> node_operation \<Rightarrow> 'n \<Rightarrow> answer result \<times> 'n"
  pa_nonce :: "'c \<Rightarrow> string option"
  pa_gw_view :: "'g \<Rightarrow> (string \<times> string) option"
  pa_gw_passes :: "'d \<Rightarrow> operation option \<Rightarrow> 'g \<Rightarrow> 'g list"
  pa_gw_reply :: "'d \<Rightarrow> operation \<Rightarrow> 'g \<Rightarrow> answer result \<times> 'g"

section \<open>The world\<close>

text \<open>
  The requests ever sent to a node stay in \<open>cw_sent\<close>: each may still be delivered, again or for the first
  time. \<open>cw_known\<close> holds the transaction identifiers that a request or an answer has named.
\<close>

record ('g, 'n) coverage_world =
  cw_disk :: "coverage_journal option"
  cw_gateway :: 'g
  cw_node :: "string \<Rightarrow> 'n"
  cw_sent :: "(string \<times> node_operation) set"
  cw_known :: "(string \<times> string) set"

definition set_node :: "string \<Rightarrow> 'n \<Rightarrow> ('g, 'n) coverage_world \<Rightarrow> ('g, 'n) coverage_world" where
  "set_node i x w = w\<lparr>cw_node := (cw_node w)(i := x)\<rparr>"

definition send_request :: "string \<Rightarrow> node_operation \<Rightarrow> ('g, 'n) coverage_world \<Rightarrow> ('g, 'n) coverage_world" where
  "send_request i q w = w\<lparr>cw_sent := insert (i, q) (cw_sent w), cw_known := insert (i, no_ID q) (cw_known w)\<rparr>"

definition hear_answer :: "string \<Rightarrow> answer result \<Rightarrow> ('g, 'n) coverage_world \<Rightarrow> ('g, 'n) coverage_world" where
  "hear_answer i a w =
     (case a of Inl _ \<Rightarrow> w | Inr x \<Rightarrow>
       (case an_transaction x of None \<Rightarrow> w | Some p \<Rightarrow> w\<lparr>cw_known := insert (i, cp_ID p) (cw_known w)\<rparr>))"

text \<open>A random identifier does not repeat one that is already known.\<close>

definition fresh_call :: "('g, 'n, 'c, 'd) parties \<Rightarrow> ('g, 'n) coverage_world \<Rightarrow> string \<Rightarrow> 'c \<Rightarrow> bool" where
  "fresh_call P w i c \<longleftrightarrow> (case pa_nonce P c of None \<Rightarrow> True | Some x \<Rightarrow> (i, x) \<notin> cw_known w)"

definition fresh_nonce :: "('g, 'n, 'c, 'd) parties \<Rightarrow> ('g, 'n) coverage_world \<Rightarrow> bytes \<Rightarrow> bool" where
  "fresh_nonce P w nonce \<longleftrightarrow> length nonce = 16 \<and>
     (\<forall>i. case pa_node_view P (cw_node w i) of None \<Rightarrow> True | Some (k, _, _) \<Rightarrow> k \<noteq> hex_encode nonce @ ''-node'')"

definition save_journal ::
  "(coverage_journal \<Rightarrow> nat) \<Rightarrow> write_outcome \<Rightarrow> coverage_journal \<Rightarrow> ('g, 'n) coverage_world \<Rightarrow> go_error option \<times> ('g, 'n) coverage_world" where
  "save_journal sz outcome j w =
     (case writePrivate ''node'' sz j (start_run \<lparr>w_disk = cw_disk w, w_back = ()\<rparr> [outcome]) of
        (e, r) \<Rightarrow> (e, w\<lparr>cw_disk := w_disk (r_world r)\<rparr>))"

section \<open>Steps\<close>

inductive background :: "('g, 'n, 'c, 'd) parties \<Rightarrow> ('g, 'n) coverage_world \<Rightarrow> ('g, 'n) coverage_world \<Rightarrow> bool" for P where
  bg_gateway: "g \<in> set (pa_gw_passes P d None (cw_gateway w)) \<Longrightarrow> background P w (w\<lparr>cw_gateway := g\<rparr>)"
| bg_node: "x \<in> set (pa_node_passes P c None (cw_node w i)) \<Longrightarrow> background P w (set_node i x w)"
| bg_late: "(i, q) \<in> cw_sent w \<Longrightarrow> fresh_call P w i c \<Longrightarrow> x \<in> set (pa_node_passes P c (Some q) (cw_node w i)) \<Longrightarrow>
    background P w (set_node i x w)"

inductive prog_step ::
  "('g, 'n, 'c, 'd) parties \<Rightarrow> (coverage_journal \<Rightarrow> nat) \<Rightarrow> 'r prog \<Rightarrow> ('g, 'n) coverage_world \<Rightarrow> 'r prog \<Rightarrow> ('g, 'n) coverage_world \<Rightarrow> bool"
  for P sz where
  ps_lock: "prog_step P sz (Lock k) w (k x) w"
| ps_read: "prog_step P sz (Read k) w (k (Inr (cw_disk w))) w"
| ps_read_failed: "prog_step P sz (Read k) w (k (Inl e)) w"
| ps_save: "save_journal sz outcome j w = (e, w') \<Longrightarrow> prog_step P sz (Save j k) w (k e) w'"
| ps_gateway: "pa_gw_reply P d q (cw_gateway w) = (a, g) \<Longrightarrow> prog_step P sz (Gateway q k) w (k a) (w\<lparr>cw_gateway := g\<rparr>)"
| ps_gateway_cut: "g \<in> set (pa_gw_passes P d (Some q) (cw_gateway w)) \<Longrightarrow>
    prog_step P sz (Gateway q k) w (k (Inl e)) (w\<lparr>cw_gateway := g\<rparr>)"
| ps_gateway_unreached: "prog_step P sz (Gateway q k) w (k (Inl e)) w"
| ps_gateway_capabilities: "prog_step P sz (Gateway_capabilities k) w (k caps) w"
| ps_remote: "fresh_call P w (nr_ID n) c \<Longrightarrow> pa_node_reply P c q (cw_node w (nr_ID n)) = (a, x) \<Longrightarrow>
    prog_step P sz (Remote n q k) w (k a) (hear_answer (nr_ID n) a (set_node (nr_ID n) x (send_request (nr_ID n) q w)))"
| ps_remote_unanswered: "prog_step P sz (Remote n q k) w (k (Inl e)) (send_request (nr_ID n) q w)"
| ps_remote_capabilities: "prog_step P sz (Remote_capabilities n k) w (k x) w"
| ps_now: "prog_step P sz (Now k) w (k t) w"
| ps_random_failed: "prog_step P sz (Random k) w (k (Inl e)) w"
| ps_random: "fresh_nonce P w nonce \<Longrightarrow> prog_step P sz (Random k) w (k (Inr nonce)) w"

inductive_cases prog_step_ReturnE: "prog_step P sz (Return x) w p w'"
inductive_cases prog_step_LockE: "prog_step P sz (Lock k) w p w'"
inductive_cases prog_step_ReadE: "prog_step P sz (Read k) w p w'"
inductive_cases prog_step_SaveE: "prog_step P sz (Save j k) w p w'"
inductive_cases prog_step_GatewayE: "prog_step P sz (Gateway q k) w p w'"
inductive_cases prog_step_Gateway_capabilitiesE: "prog_step P sz (Gateway_capabilities k) w p w'"
inductive_cases prog_step_RemoteE: "prog_step P sz (Remote n q k) w p w'"
inductive_cases prog_step_Remote_capabilitiesE: "prog_step P sz (Remote_capabilities n k) w p w'"
inductive_cases prog_step_NowE: "prog_step P sz (Now k) w p w'"
inductive_cases prog_step_RandomE: "prog_step P sz (Random k) w p w'"

text \<open>
  The calls of the service, one at a time: its mutex and the lock file serialise them. A stopped
  coordinator is one whose program is forgotten.
\<close>

datatype task =
    Task_operate string string coverage_operation
  | Task_plan string node_plan "plan option"
  | Task_recover

definition task_prog :: "service \<Rightarrow> task \<Rightarrow> unit prog" where
  "task_prog sv t = (case t of
     Task_operate i action q \<Rightarrow> bind_prog (Operate sv i action q) (\<lambda>_. Return ())
   | Task_plan i p g \<Rightarrow> bind_prog (Plan sv i p g) (\<lambda>_. Return ())
   | Task_recover \<Rightarrow> bind_prog (recoverCoverage sv) (\<lambda>_. Return ()))"

inductive coverage_run ::
  "('g, 'n, 'c, 'd) parties \<Rightarrow> service \<Rightarrow> ('g, 'n) coverage_world \<Rightarrow> unit prog \<Rightarrow> ('g, 'n) coverage_world \<Rightarrow> bool" for P sv w0 where
  cov_start: "coverage_run P sv w0 (Return ()) w0"
| cov_task: "coverage_run P sv w0 (Return ()) w \<Longrightarrow> coverage_run P sv w0 (task_prog sv t) w"
| cov_step: "coverage_run P sv w0 p w \<Longrightarrow> prog_step P (sv_size sv) p w p' w' \<Longrightarrow> coverage_run P sv w0 p' w'"
| cov_background: "coverage_run P sv w0 p w \<Longrightarrow> background P w w' \<Longrightarrow> coverage_run P sv w0 p w'"
| cov_stopped: "coverage_run P sv w0 p w \<Longrightarrow> coverage_run P sv w0 (Return ()) w"

end
