(* ===== verification/Coverage_Safe.thy ===== *)
theory Coverage_Safe
  imports Coverage_Run
begin

text \<open>
  Safety of the coordinator against participants that keep a contract, the locale \<open>coverage_parties\<close>. The
  invariant says of every entry in the journal file what can be relied on; a rely-guarantee argument on
  programs, \<open>safe\<close> and \<open>triple\<close>, shows that every program of the coordinator keeps it at each step, whatever
  the participants do in between.
\<close>

section \<open>The contract of the participants\<close>

text \<open>
  What one operation may do to the node's transaction: leave it; change the state of an unsettled one, to
  \<open>confirmed\<close> only on a confirmation that names it; or begin a new one on a request to prepare.
\<close>

inductive node_move :: "string option \<Rightarrow> node_operation option \<Rightarrow> (string \<times> string \<times> string) option \<Rightarrow> (string \<times> string \<times> string) option \<Rightarrow> bool"
  for nonce q where
  nm_stay: "node_move nonce q v v"
| nm_change: "st \<notin> {''confirmed'', ''rolled-back'', ''failed''} \<Longrightarrow>
    (st' = ''confirmed'' \<Longrightarrow> \<exists>x. q = Some x \<and> no_Action x = ''confirm'' \<and> no_ID x = i) \<Longrightarrow> node_move nonce q (Some (k, i, st)) (Some (k, i, st'))"
| nm_begin: "nonce = Some i \<Longrightarrow> q = Some x \<Longrightarrow> no_Action x = ''prepare'' \<Longrightarrow> node_move nonce q v (Some (no_Key x, i, ''prepared''))"

definition kept_states :: "string list" where
  "kept_states = [''confirmed'', ''finalized'']"

definition gw_quiet :: "string \<Rightarrow> operation option \<Rightarrow> bool" where
  "gw_quiet i q \<longleftrightarrow> (case q of None \<Rightarrow> True | Some x \<Rightarrow> op_Action x \<noteq> ''prepare'' \<and> \<not> (op_Action x = ''rollback'' \<and> op_ID x = i))"

locale coverage_parties =
  fixes P :: "('g, 'n, 'c, 'd) parties"
  assumes node_moves: "x' \<in> set (pa_node_passes P c q x) \<Longrightarrow> node_move (pa_nonce P c) q (pa_node_view P x) (pa_node_view P x')"
    and node_reply_passes: "pa_node_reply P c y x = (ar, x') \<Longrightarrow> x' \<in> set (pa_node_passes P c (Some y) x)"
    and node_truthful: "pa_node_reply P c y x = (Inr a, x') \<Longrightarrow> an_transaction a = Some p \<Longrightarrow>
      \<exists>k. pa_node_view P x' = Some (k, cp_ID p, cp_State p) \<and> (no_Action y = ''prepare'' \<longrightarrow> k = no_Key y)"
    and gw_keeps: "g' \<in> set (pa_gw_passes P d r g) \<Longrightarrow> pa_gw_view P g = Some (i, st) \<Longrightarrow> st \<in> set kept_states \<Longrightarrow> gw_quiet i r \<Longrightarrow>
      \<exists>st' \<in> set kept_states. pa_gw_view P g' = Some (i, st')"
    and gw_reply_passes: "pa_gw_reply P d z g = (ar, g') \<Longrightarrow> g' \<in> set (pa_gw_passes P d (Some z) g)"
    and gw_truthful: "pa_gw_reply P d z g = (Inr a, g') \<Longrightarrow> an_transaction a = Some p \<Longrightarrow> pa_gw_view P g' = Some (cp_ID p, cp_State p)"

section \<open>Assertions\<close>

definition node_at :: "('g, 'n, 'c, 'd) parties \<Rightarrow> string \<Rightarrow> ('g, 'n) coverage_world \<Rightarrow> (string \<times> string \<times> string) option" where
  "node_at P i w = pa_node_view P (cw_node w i)"

definition confirm_sent :: "string \<Rightarrow> string \<Rightarrow> ('g, 'n) coverage_world \<Rightarrow> bool" where
  "confirm_sent i N w \<longleftrightarrow> (\<exists>q. (i, q) \<in> cw_sent w \<and> no_Action q = ''confirm'' \<and> no_ID q = N)"

text \<open>A transaction of the node that cannot become confirmed unless a confirmation is sent.\<close>

definition open_state :: "string \<Rightarrow> string \<Rightarrow> string \<Rightarrow> ('g, 'n) coverage_world \<Rightarrow> bool" where
  "open_state i N st w \<longleftrightarrow> st \<in> set settled_states \<or> st \<noteq> ''confirmed'' \<and> \<not> confirm_sent i N w"

definition dead :: "('g, 'n, 'c, 'd) parties \<Rightarrow> string \<Rightarrow> string \<Rightarrow> ('g, 'n) coverage_world \<Rightarrow> bool" where
  "dead P i N w \<longleftrightarrow> (i, N) \<in> cw_known w \<and> (\<forall>k st. node_at P i w = Some (k, N, st) \<longrightarrow> st \<in> set settled_states)"

definition committed :: "('g, 'n, 'c, 'd) parties \<Rightarrow> string \<Rightarrow> string \<Rightarrow> ('g, 'n) coverage_world \<Rightarrow> bool" where
  "committed P i N w \<longleftrightarrow> (i, N) \<in> cw_known w \<and> (\<forall>k st. node_at P i w = Some (k, N, st) \<longrightarrow> st = ''confirmed'')"

definition uncommitted :: "('g, 'n, 'c, 'd) parties \<Rightarrow> string \<Rightarrow> string \<Rightarrow> ('g, 'n) coverage_world \<Rightarrow> bool" where
  "uncommitted P i N w \<longleftrightarrow> (i, N) \<in> cw_known w \<and> (\<forall>k st. node_at P i w = Some (k, N, st) \<longrightarrow> open_state i N st w)"

definition key_free :: "('g, 'n, 'c, 'd) parties \<Rightarrow> string \<Rightarrow> string \<Rightarrow> ('g, 'n) coverage_world \<Rightarrow> bool" where
  "key_free P i key w \<longleftrightarrow> (\<forall>N st. node_at P i w = Some (key, N, st) \<longrightarrow> open_state i N st w)"

definition node_free :: "('g, 'n, 'c, 'd) parties \<Rightarrow> coverage_entry \<Rightarrow> ('g, 'n) coverage_world \<Rightarrow> bool" where
  "node_free P e w \<longleftrightarrow> (let i = ct_NodeID (ce_Transaction e) in
     if cp_ID (ce_Node e) = '''' then key_free P i (node_key e) w else uncommitted P i (cp_ID (ce_Node e)) w)"

definition gw_holds :: "('g, 'n, 'c, 'd) parties \<Rightarrow> string \<Rightarrow> ('g, 'n) coverage_world \<Rightarrow> bool" where
  "gw_holds P G w \<longleftrightarrow> (\<exists>st \<in> set kept_states. pa_gw_view P (cw_gateway w) = Some (G, st))"

text \<open>A recorded end of the node's transaction is its end.\<close>

definition record_true :: "('g, 'n, 'c, 'd) parties \<Rightarrow> coverage_entry \<Rightarrow> ('g, 'n) coverage_world \<Rightarrow> bool" where
  "record_true P e w \<longleftrightarrow> (cp_ID (ce_Node e) \<noteq> '''' \<and> cp_State (ce_Node e) \<in> set settled_states \<longrightarrow>
     dead P (ct_NodeID (ce_Transaction e)) (cp_ID (ce_Node e)) w)"

definition entry_true :: "('g, 'n, 'c, 'd) parties \<Rightarrow> coverage_entry \<Rightarrow> ('g, 'n) coverage_world \<Rightarrow> bool" where
  "entry_true P e w \<longleftrightarrow> record_true P e w \<and>
     (coverageActive e \<longrightarrow> node_free P e w \<or> entry_state e = ''confirming'' \<and> gw_holds P (cp_ID (ce_Gateway e)) w) \<and>
     (entry_state e = ''rolled-back'' \<longrightarrow> cp_ID (ce_Node e) \<noteq> '''' \<and> cp_State (ce_Node e) \<in> set settled_states \<and>
        cp_ID (ce_Gateway e) \<noteq> '''' \<and> cp_State (ce_Gateway e) \<in> set settled_states \<and> np_Passphrase (ct_Plan (ce_Transaction e)) = '''') \<and>
     (entry_state e = ''confirmed'' \<longrightarrow> committed P (ct_NodeID (ce_Transaction e)) (cp_ID (ce_Node e)) w \<and>
        cp_State (ce_Node e) = ''confirmed'' \<and> cp_State (ce_Gateway e) \<in> set kept_states \<and> np_Passphrase (ct_Plan (ce_Transaction e)) = '''')"

definition journal_true :: "('g, 'n, 'c, 'd) parties \<Rightarrow> coverage_journal \<Rightarrow> ('g, 'n) coverage_world \<Rightarrow> bool" where
  "journal_true P j w \<longleftrightarrow> gomap_ok (cj_Entries j) \<and>
     (\<forall>i e. map_of (cj_Entries j) i = Some e \<longrightarrow> ct_NodeID (ce_Transaction e) = i \<and> entry_true P e w) \<and>
     (\<forall>i e i' e'. map_of (cj_Entries j) i = Some e \<and> coverageActive e \<and> map_of (cj_Entries j) i' = Some e' \<and> coverageActive e' \<longrightarrow> i = i')"

definition cov_inv :: "('g, 'n, 'c, 'd) parties \<Rightarrow> ('g, 'n) coverage_world \<Rightarrow> bool" where
  "cov_inv P w \<longleftrightarrow> (\<forall>(i, q) \<in> cw_sent w. (i, no_ID q) \<in> cw_known w) \<and> (\<forall>j. cw_disk w = Some j \<longrightarrow> journal_true P j w)"

text \<open>The entries of a journal other than that of node \<open>i\<close>: all settled.\<close>

definition others_true :: "('g, 'n, 'c, 'd) parties \<Rightarrow> string \<Rightarrow> coverage_journal \<Rightarrow> ('g, 'n) coverage_world \<Rightarrow> bool" where
  "others_true P i j w \<longleftrightarrow> gomap_ok (cj_Entries j) \<and>
     (\<forall>i' e. map_of (cj_Entries j) i' = Some e \<and> i' \<noteq> i \<longrightarrow> ct_NodeID (ce_Transaction e) = i' \<and> \<not> coverageActive e \<and> entry_true P e w)"

text \<open>No entry of the journal file relies on the gateway.\<close>

definition disk_calm :: "('g, 'n) coverage_world \<Rightarrow> bool" where
  "disk_calm w \<longleftrightarrow> (\<forall>j i e. cw_disk w = Some j \<and> map_of (cj_Entries j) i = Some e \<longrightarrow> entry_state e \<noteq> ''confirming'')"

section \<open>Moves of the world\<close>

text \<open>The nodes move within their contract; confirmations newly sent are those of \<open>C\<close>.\<close>

definition moves :: "('g, 'n, 'c, 'd) parties \<Rightarrow> (string \<times> string) set \<Rightarrow> ('g, 'n) coverage_world \<Rightarrow> ('g, 'n) coverage_world \<Rightarrow> bool" where
  "moves P C w w' \<longleftrightarrow> cw_known w \<subseteq> cw_known w' \<and> (\<forall>i N. confirm_sent i N w \<longrightarrow> confirm_sent i N w') \<and>
     (\<forall>i N. confirm_sent i N w' \<longrightarrow> confirm_sent i N w \<or> (i, N) \<in> C) \<and>
     (\<forall>i. \<exists>nonce q. node_move nonce q (node_at P i w) (node_at P i w') \<and> (\<forall>x. nonce = Some x \<longrightarrow> (i, x) \<notin> cw_known w) \<and>
        (\<forall>x. q = Some x \<and> no_Action x = ''confirm'' \<longrightarrow> confirm_sent i (no_ID x) w'))"

lemma node_moveE:
  assumes "node_move nonce q v (Some (k, N, st'))"
  obtains "v = Some (k, N, st')"
  | st where "v = Some (k, N, st)" "st \<notin> {''confirmed'', ''rolled-back'', ''failed''}"
      "st' = ''confirmed'' \<longrightarrow> (\<exists>x. q = Some x \<and> no_Action x = ''confirm'' \<and> no_ID x = N)"
  | "nonce = Some N" "st' = ''prepared''"
  using assms by (cases rule: node_move.cases) auto

lemma moves_at:
  assumes "moves P C w w'" and "node_at P i w' = Some (k, N, st')"
  obtains (same) "node_at P i w = Some (k, N, st')"
  | (change) st where "node_at P i w = Some (k, N, st)" "st \<notin> set settled_states" "st \<noteq> ''confirmed''" "st' = ''confirmed'' \<longrightarrow> confirm_sent i N w'"
  | (new) "(i, N) \<notin> cw_known w" "st' = ''prepared''"
proof -
  obtain nonce q where m: "node_move nonce q (node_at P i w) (node_at P i w')" "\<forall>x. nonce = Some x \<longrightarrow> (i, x) \<notin> cw_known w"
    "\<forall>x. q = Some x \<and> no_Action x = ''confirm'' \<longrightarrow> confirm_sent i (no_ID x) w'"
    using assms(1) unfolding moves_def by blast
  show thesis
    using m(1) unfolding assms(2)
  proof (cases rule: node_moveE)
    case 1 then show ?thesis by (rule same)
  next
    case (2 st)
    then show ?thesis using m(3) by (intro change [of st]) (auto simp: settled_states_def)
  next
    case 3
    then show ?thesis using m(2) by (intro new) auto
  qed
qed

lemma moves_known: "moves P C w w' \<Longrightarrow> (i, N) \<in> cw_known w \<Longrightarrow> (i, N) \<in> cw_known w'"
  by (auto simp: moves_def)

lemma moves_dead:
  assumes "moves P C w w'" and "dead P i N w"
  shows "dead P i N w'"
proof -
  have "st' \<in> set settled_states" if "node_at P i w' = Some (k, N, st')" for k st'
    using assms(1) that by (cases rule: moves_at) (use assms(2) in \<open>auto simp: dead_def\<close>)
  then show ?thesis using assms moves_known [OF assms(1)] by (auto simp: dead_def)
qed

lemma moves_committed:
  assumes "moves P C w w'" and "committed P i N w"
  shows "committed P i N w'"
proof -
  have "st' = ''confirmed''" if "node_at P i w' = Some (k, N, st')" for k st'
    using assms(1) that by (cases rule: moves_at) (use assms(2) in \<open>auto simp: committed_def\<close>)
  then show ?thesis using assms moves_known [OF assms(1)] by (auto simp: committed_def)
qed

lemma sent_known: "cov_inv P w \<Longrightarrow> confirm_sent i N w \<Longrightarrow> (i, N) \<in> cw_known w"
  by (auto simp: cov_inv_def confirm_sent_def)

lemma moves_open:
  assumes "moves P C w w'" and "cov_inv P w" and "(i, N) \<notin> C" and "node_at P i w' = Some (k, N, st')"
    and "\<And>st. node_at P i w = Some (k, N, st) \<Longrightarrow> open_state i N st w"
  shows "open_state i N st' w'"
proof -
  have s: "confirm_sent i N w'  \<Longrightarrow> confirm_sent i N w" using assms(1,3) by (auto simp: moves_def)
  show ?thesis using assms(1,4)
  proof (cases rule: moves_at)
    case same
    then show ?thesis using assms(5) s by (auto simp: open_state_def)
  next
    case (change st)
    then show ?thesis using assms(5) [of st] s by (auto simp: open_state_def)
  next
    case new
    then show ?thesis using s sent_known [OF assms(2)] by (auto simp: open_state_def)
  qed
qed

lemma moves_uncommitted: "moves P C w w' \<Longrightarrow> cov_inv P w \<Longrightarrow> (i, N) \<notin> C \<Longrightarrow> uncommitted P i N w \<Longrightarrow> uncommitted P i N w'"
  unfolding uncommitted_def using moves_open [of P C w w' i N] by (auto simp: moves_def)

lemma moves_key_free: "moves P C w w' \<Longrightarrow> cov_inv P w \<Longrightarrow> (\<And>N. (i, N) \<notin> C) \<Longrightarrow> key_free P i key w \<Longrightarrow> key_free P i key w'"
  unfolding key_free_def using moves_open [of P C w w' i] by blast

lemma moves_node_free:
  assumes "moves P C w w'" and "cov_inv P w" and "\<And>N. (ct_NodeID (ce_Transaction e), N) \<notin> C" and "node_free P e w"
  shows "node_free P e w'"
  using assms moves_key_free [OF assms(1,2,3)] moves_uncommitted [OF assms(1,2,3)] by (auto simp: node_free_def Let_def split: if_splits)

lemma moves_record_true: "moves P C w w' \<Longrightarrow> record_true P e w \<Longrightarrow> record_true P e w'"
  by (auto simp: record_true_def dest: moves_dead)

lemma moves_entry_true:
  assumes "moves P C w w'" and "cov_inv P w" and "entry_true P e w"
    and "coverageActive e \<Longrightarrow> \<forall>N. (ct_NodeID (ce_Transaction e), N) \<notin> C"
    and "entry_state e = ''confirming'' \<Longrightarrow> gw_holds P (cp_ID (ce_Gateway e)) w \<Longrightarrow> gw_holds P (cp_ID (ce_Gateway e)) w'"
  shows "entry_true P e w'"
  using assms moves_node_free [OF assms(1,2), of e] moves_record_true [OF assms(1), of e] moves_committed [OF assms(1)]
  unfolding entry_true_def by blast

lemma moves_others_true:
  assumes "moves P C w w'" and "cov_inv P w" and "others_true P i j w"
  shows "others_true P i j w'"
  using assms moves_entry_true [OF assms(1,2)] by (force simp: others_true_def coverageActive_def)

text \<open>What the world keeps for an entry when neither the file nor the gateway's promise changes.\<close>

definition gentle :: "('g, 'n, 'c, 'd) parties \<Rightarrow> ('g, 'n) coverage_world \<Rightarrow> ('g, 'n) coverage_world \<Rightarrow> bool" where
  "gentle P w w' \<longleftrightarrow> moves P {} w w' \<and> cw_disk w' = cw_disk w \<and> (\<forall>(i, q) \<in> cw_sent w'. (i, no_ID q) \<in> cw_known w') \<and>
     (\<forall>G. gw_holds P G w \<longrightarrow> gw_holds P G w')"

definition sturdy :: "('g, 'n, 'c, 'd) parties \<Rightarrow> (('g, 'n) coverage_world \<Rightarrow> bool) \<Rightarrow> bool" where
  "sturdy P A \<longleftrightarrow> (\<forall>w w'. cov_inv P w \<and> A w \<and> moves P {} w w' \<and> cw_disk w' = cw_disk w \<longrightarrow> A w')"

definition robust :: "('g, 'n, 'c, 'd) parties \<Rightarrow> (('g, 'n) coverage_world \<Rightarrow> bool) \<Rightarrow> bool" where
  "robust P A \<longleftrightarrow> (\<forall>w w'. cov_inv P w \<and> A w \<and> gentle P w w' \<longrightarrow> A w')"

lemma sturdyD: "sturdy P A \<Longrightarrow> cov_inv P w \<Longrightarrow> A w \<Longrightarrow> moves P {} w w' \<Longrightarrow> cw_disk w' = cw_disk w \<Longrightarrow> A w'"
  by (auto simp: sturdy_def)

lemma robustD: "robust P A \<Longrightarrow> cov_inv P w \<Longrightarrow> A w \<Longrightarrow> gentle P w w' \<Longrightarrow> A w'"
  by (auto simp: robust_def)

lemma sturdy_robust: "sturdy P A \<Longrightarrow> robust P A"
  by (auto simp: sturdy_def robust_def gentle_def)

named_theorems sturdy_intros
named_theorems robust_intros

lemma sturdy_conj [sturdy_intros]: "sturdy P A \<Longrightarrow> sturdy P B \<Longrightarrow> sturdy P (\<lambda>w. A w \<and> B w)"
  unfolding sturdy_def by blast

lemma sturdy_const [sturdy_intros]: "sturdy P (\<lambda>w. X)"
  by (simp add: sturdy_def)

lemma sturdy_imp [sturdy_intros]: "sturdy P A \<Longrightarrow> sturdy P (\<lambda>w. X \<longrightarrow> A w)"
  unfolding sturdy_def by blast

lemma sturdy_dead [sturdy_intros]: "sturdy P (dead P i N)"
  unfolding sturdy_def using moves_dead by blast

lemma sturdy_committed [sturdy_intros]: "sturdy P (committed P i N)"
  unfolding sturdy_def using moves_committed by blast

lemma sturdy_known [sturdy_intros]: "sturdy P (\<lambda>w. (i, N) \<in> cw_known w)"
  unfolding sturdy_def using moves_known by blast

lemma sturdy_uncommitted [sturdy_intros]: "sturdy P (uncommitted P i N)"
  unfolding sturdy_def using moves_uncommitted by blast

lemma sturdy_key_free [sturdy_intros]: "sturdy P (key_free P i key)"
  unfolding sturdy_def using moves_key_free by blast

lemma sturdy_node_free [sturdy_intros]: "sturdy P (node_free P e)"
  unfolding sturdy_def using moves_node_free by blast

lemma sturdy_record_true [sturdy_intros]: "sturdy P (record_true P e)"
  unfolding sturdy_def using moves_record_true by blast

lemma sturdy_others_true [sturdy_intros]: "sturdy P (others_true P i j)"
  unfolding sturdy_def using moves_others_true by blast

lemma sturdy_disk [sturdy_intros]: "sturdy P (\<lambda>w. X (cw_disk w))"
  by (simp add: sturdy_def)

lemma sturdy_disk_calm [sturdy_intros]: "sturdy P disk_calm"
  unfolding sturdy_def disk_calm_def by (intro allI impI) (elim conjE, simp)

lemma robust_gw_holds [robust_intros]: "robust P (gw_holds P G)"
  by (auto simp: robust_def gentle_def)

lemma robust_conj [robust_intros]: "robust P A \<Longrightarrow> robust P B \<Longrightarrow> robust P (\<lambda>w. A w \<and> B w)"
  unfolding robust_def by blast

lemma robust_disj [robust_intros]: "robust P A \<Longrightarrow> robust P B \<Longrightarrow> robust P (\<lambda>w. A w \<or> B w)"
  unfolding robust_def by blast

lemma gentle_inv:
  assumes "gentle P w w'" and "cov_inv P w"
  shows "cov_inv P w'"
proof -
  have "entry_true P e w'" if "entry_true P e w" for e
    using assms that by (intro moves_entry_true [of P "{}" w w' e]) (auto simp: gentle_def)
  then show ?thesis
    using assms by (auto simp: cov_inv_def journal_true_def gentle_def)
qed

text \<open>When no entry relies on the gateway, its promise may change.\<close>

lemma calm_inv:
  assumes "moves P {} w w'" and "cw_disk w' = cw_disk w" and "disk_calm w" and "cw_sent w' = cw_sent w" and "cov_inv P w"
  shows "cov_inv P w'"
proof -
  have "entry_true P e w'" if "entry_true P e w" "cw_disk w = Some j" "map_of (cj_Entries j) i = Some e" for e i j
    using assms that by (intro moves_entry_true [of P "{}" w w' e]) (auto simp: disk_calm_def)
  then show ?thesis
    using assms by (fastforce simp: cov_inv_def journal_true_def moves_def)
qed

section \<open>Safe programs\<close>

text \<open>
  A program is safe in a world if the invariant holds there and after every step of the participants, every
  step of the program leads to a safe program again, and a result satisfies the postcondition.
\<close>

inductive safe ::
  "('g, 'n, 'c, 'd) parties \<Rightarrow> (coverage_journal \<Rightarrow> nat) \<Rightarrow> ('r \<Rightarrow> ('g, 'n) coverage_world \<Rightarrow> bool) \<Rightarrow> 'r prog \<Rightarrow> ('g, 'n) coverage_world \<Rightarrow> bool"
  for P sz Q where
  safeI: "(\<And>w1. (background P)\<^sup>*\<^sup>* w w1 \<Longrightarrow> cov_inv P w1) \<Longrightarrow>
    (\<And>w1 x. (background P)\<^sup>*\<^sup>* w w1 \<Longrightarrow> p = Return x \<Longrightarrow> Q x w1) \<Longrightarrow>
    (\<And>w1 p' w2. (background P)\<^sup>*\<^sup>* w w1 \<Longrightarrow> prog_step P sz p w1 p' w2 \<Longrightarrow> safe P sz Q p' w2) \<Longrightarrow> safe P sz Q p w"

inductive_cases safeE: "safe P sz Q p w"

definition triple ::
  "('g, 'n, 'c, 'd) parties \<Rightarrow> (coverage_journal \<Rightarrow> nat) \<Rightarrow> (('g, 'n) coverage_world \<Rightarrow> bool) \<Rightarrow> 'r prog \<Rightarrow>
     ('r \<Rightarrow> ('g, 'n) coverage_world \<Rightarrow> bool) \<Rightarrow> bool" where
  "triple P sz A p Q \<longleftrightarrow> (\<forall>w. cov_inv P w \<and> A w \<longrightarrow> safe P sz Q p w)"

lemma safe_inv: "safe P sz Q p w \<Longrightarrow> cov_inv P w"
  by (erule safeE) blast

lemma safe_step: "safe P sz Q p w \<Longrightarrow> prog_step P sz p w p' w' \<Longrightarrow> safe P sz Q p' w'"
  by (erule safeE) blast

lemma safe_background:
  assumes "safe P sz Q p w" and "background P w w'"
  shows "safe P sz Q p w'"
proof -
  have "(background P)\<^sup>*\<^sup>* w w1" if "(background P)\<^sup>*\<^sup>* w' w1" for w1
    using assms(2) that by (rule converse_rtranclp_into_rtranclp)
  with assms(1) show ?thesis
    by (elim safeE) (rule safeI; blast)
qed

lemma safe_stopped: "safe P sz Q p w \<Longrightarrow> safe P sz (\<lambda>_ _. True) (Return ()) w"
  by (elim safeE) (rule safeI; blast elim: prog_step_ReturnE)

lemma prog_step_bind:
  assumes "prog_step P sz (bind_prog p f) w p' w'" and "\<And>x. p \<noteq> Return x"
  shows "\<exists>p0. prog_step P sz p w p0 w' \<and> p' = bind_prog p0 f"
proof (cases p)
  case (Return x) then show ?thesis using assms(2) by blast
next
  case (Lock k) then show ?thesis using assms(1) by (auto elim!: prog_step_LockE intro: prog_step.intros)
next
  case (Read k) then show ?thesis using assms(1) by (auto elim!: prog_step_ReadE intro: prog_step.intros)
next
  case (Save j k) then show ?thesis using assms(1) by (auto elim!: prog_step_SaveE intro: prog_step.intros)
next
  case (Gateway q k) then show ?thesis using assms(1) by (auto elim!: prog_step_GatewayE intro: prog_step.intros)
next
  case (Gateway_capabilities k)
  then show ?thesis using assms(1) by (auto elim!: prog_step_Gateway_capabilitiesE intro: prog_step.intros)
next
  case (Remote n q k) then show ?thesis using assms(1) by (auto elim!: prog_step_RemoteE intro: prog_step.intros)
next
  case (Remote_capabilities n k)
  then show ?thesis using assms(1) by (auto elim!: prog_step_Remote_capabilitiesE intro: prog_step.intros)
next
  case (Now k) then show ?thesis using assms(1) by (auto elim!: prog_step_NowE intro: prog_step.intros)
next
  case (Random k) then show ?thesis using assms(1) by (auto elim!: prog_step_RandomE intro: prog_step.intros)
qed

lemma safe_bind:
  assumes "safe P sz R p w" and "\<And>x w1. cov_inv P w1 \<Longrightarrow> R x w1 \<Longrightarrow> safe P sz Q (f x) w1"
  shows "safe P sz Q (bind_prog p f) w"
  using assms(1)
proof (induction rule: safe.induct)
  case (safeI w p)
  show ?case
  proof (cases "\<exists>x. p = Return x")
    case True
    then obtain x where x: "p = Return x" by blast
    have "safe P sz Q (f x) w"
      using safeI.hyps(1) [OF rtranclp.rtrancl_refl] safeI.hyps(2) [OF rtranclp.rtrancl_refl x] by (rule assms(2))
    then show ?thesis by (simp add: x)
  next
    case False
    have step: "safe P sz Q p' w2" if bg: "(background P)\<^sup>*\<^sup>* w w1" and st: "prog_step P sz (bind_prog p f) w1 p' w2" for w1 p' w2
    proof -
      obtain p0 where "prog_step P sz p w1 p0 w2" "p' = bind_prog p0 f"
        using prog_step_bind [OF st] False by blast
      then show ?thesis using safeI.IH [OF bg] by simp
    qed
    have ne: "bind_prog p f \<noteq> Return x" for x
      using False by (cases p) auto
    show ?thesis
      by (rule safe.safeI) (simp add: safeI.hyps(1), simp add: ne, erule (1) step)
  qed
qed

lemma triple_bind: "triple P sz A p R \<Longrightarrow> (\<And>x. triple P sz (R x) (f x) Q) \<Longrightarrow> triple P sz A (bind_prog p f) Q"
  unfolding triple_def using safe_bind by blast

lemma triple_pre: "triple P sz B p Q \<Longrightarrow> (\<And>w. cov_inv P w \<Longrightarrow> A w \<Longrightarrow> B w) \<Longrightarrow> triple P sz A p Q"
  by (auto simp: triple_def)

lemma triple_False: "(\<And>w. cov_inv P w \<Longrightarrow> \<not> A w) \<Longrightarrow> triple P sz A p Q"
  by (auto simp: triple_def)

lemma disk_update [simp]:
  "node_at P i (w\<lparr>cw_disk := d\<rparr>) = node_at P i w" "confirm_sent i N (w\<lparr>cw_disk := d\<rparr>) = confirm_sent i N w"
  "open_state i N st (w\<lparr>cw_disk := d\<rparr>) = open_state i N st w" "dead P i N (w\<lparr>cw_disk := d\<rparr>) = dead P i N w"
  "committed P i N (w\<lparr>cw_disk := d\<rparr>) = committed P i N w" "uncommitted P i N (w\<lparr>cw_disk := d\<rparr>) = uncommitted P i N w"
  "key_free P i key (w\<lparr>cw_disk := d\<rparr>) = key_free P i key w" "node_free P e (w\<lparr>cw_disk := d\<rparr>) = node_free P e w"
  "gw_holds P G (w\<lparr>cw_disk := d\<rparr>) = gw_holds P G w" "record_true P e (w\<lparr>cw_disk := d\<rparr>) = record_true P e w"
  "entry_true P e (w\<lparr>cw_disk := d\<rparr>) = entry_true P e w" "others_true P i j (w\<lparr>cw_disk := d\<rparr>) = others_true P i j w"
  "journal_true P j (w\<lparr>cw_disk := d\<rparr>) = journal_true P j w"
  by (simp_all add: node_at_def confirm_sent_def open_state_def dead_def committed_def uncommitted_def key_free_def node_free_def
      gw_holds_def record_true_def entry_true_def others_true_def journal_true_def)

lemma node_at_set_node: "node_at P i (set_node i' x w) = (if i = i' then pa_node_view P x else node_at P i w)"
  by (simp add: node_at_def set_node_def)

lemma confirm_sent_send:
  "confirm_sent i N (send_request i' q w) \<longleftrightarrow> confirm_sent i N w \<or> i = i' \<and> no_Action q = ''confirm'' \<and> N = no_ID q"
  by (auto simp: confirm_sent_def send_request_def)

lemma world_fields [simp]:
  "cw_disk (set_node i x w) = cw_disk w" "cw_gateway (set_node i x w) = cw_gateway w" "cw_sent (set_node i x w) = cw_sent w"
  "cw_known (set_node i x w) = cw_known w" "confirm_sent i' N (set_node i x w) = confirm_sent i' N w"
  "cw_disk (send_request i q w) = cw_disk w" "cw_gateway (send_request i q w) = cw_gateway w"
  "cw_node (send_request i q w) = cw_node w" "cw_sent (send_request i q w) = insert (i, q) (cw_sent w)"
  "cw_known (send_request i q w) = insert (i, no_ID q) (cw_known w)" "node_at P i' (send_request i q w) = node_at P i' w"
  "cw_disk (hear_answer i a w) = cw_disk w" "cw_gateway (hear_answer i a w) = cw_gateway w" "cw_sent (hear_answer i a w) = cw_sent w"
  "cw_node (hear_answer i a w) = cw_node w" "node_at P i' (hear_answer i a w) = node_at P i' w"
  "confirm_sent i' N (hear_answer i a w) = confirm_sent i' N w"
  by (simp_all add: set_node_def send_request_def hear_answer_def confirm_sent_def node_at_def split: sum.split option.split)

lemma known_hear: "cw_known w \<subseteq> cw_known (hear_answer i a w)"
  by (auto simp: hear_answer_def split: sum.split option.split)

lemma gw_holds_same: "cw_gateway w' = cw_gateway w \<Longrightarrow> gw_holds P G w' = gw_holds P G w"
  by (simp add: gw_holds_def)

lemma one_node_moves:
  assumes "node_move nonce q (node_at P i w) (node_at P i w')" and "\<And>i'. i' \<noteq> i \<Longrightarrow> node_at P i' w' = node_at P i' w"
    and "\<And>x. nonce = Some x \<Longrightarrow> (i, x) \<notin> cw_known w" and "\<And>x. q = Some x \<Longrightarrow> no_Action x = ''confirm'' \<Longrightarrow> confirm_sent i (no_ID x) w'"
    and "cw_known w \<subseteq> cw_known w'" and "\<And>i N. confirm_sent i N w \<Longrightarrow> confirm_sent i N w'"
    and "\<And>i N. confirm_sent i N w' \<Longrightarrow> confirm_sent i N w \<or> (i, N) \<in> C"
  shows "moves P C w w'"
proof -
  have "\<exists>nonce q. node_move nonce q (node_at P i' w) (node_at P i' w') \<and> (\<forall>x. nonce = Some x \<longrightarrow> (i', x) \<notin> cw_known w) \<and>
      (\<forall>x. q = Some x \<and> no_Action x = ''confirm'' \<longrightarrow> confirm_sent i' (no_ID x) w')" for i'
  proof (cases "i' = i")
    case True
    then show ?thesis using assms(1,3,4) by blast
  next
    case False
    then show ?thesis using assms(2) by (intro exI [of _ None]) (simp add: nm_stay)
  qed
  then show ?thesis using assms(5-7) by (simp add: moves_def)
qed

lemma node_move_alone: "node_move nonce None v v' \<Longrightarrow> node_move None None v v'"
  by (auto elim!: node_move.cases intro: nm_stay nm_change)

lemma same_nodes_moves:
  assumes "cw_node w' = cw_node w" and "cw_sent w' = cw_sent w" and "cw_known w' = cw_known w"
  shows "moves P {} w w'"
  using assms by (intro one_node_moves [of None None]) (auto simp: node_at_def confirm_sent_def nm_stay)

text \<open>What an answer of the node tells for good.\<close>

definition heard :: "('g, 'n, 'c, 'd) parties \<Rightarrow> string \<Rightarrow> answer \<Rightarrow> ('g, 'n) coverage_world \<Rightarrow> bool" where
  "heard P i a w \<longleftrightarrow> (case an_transaction a of None \<Rightarrow> True | Some p \<Rightarrow> (i, cp_ID p) \<in> cw_known w \<and>
     (cp_State p \<in> set settled_states \<longrightarrow> dead P i (cp_ID p) w) \<and> (cp_State p = ''confirmed'' \<longrightarrow> committed P i (cp_ID p) w))"

definition heard_free :: "('g, 'n, 'c, 'd) parties \<Rightarrow> string \<Rightarrow> answer \<Rightarrow> ('g, 'n) coverage_world \<Rightarrow> bool" where
  "heard_free P i a w \<longleftrightarrow> (case an_transaction a of None \<Rightarrow> True | Some p \<Rightarrow> uncommitted P i (cp_ID p) w)"

lemma sturdy_heard [sturdy_intros]: "sturdy P (heard P i a)" "sturdy P (heard_free P i a)"
  unfolding heard_def heard_free_def by (cases "an_transaction a"; simp; intro sturdy_intros)+

text \<open>What it tells at the moment.\<close>

definition told :: "('g, 'n, 'c, 'd) parties \<Rightarrow> string \<Rightarrow> node_operation \<Rightarrow> answer \<Rightarrow> ('g, 'n) coverage_world \<Rightarrow> bool" where
  "told P i q a w \<longleftrightarrow> (\<forall>p. an_transaction a = Some p \<longrightarrow> (i, cp_ID p) \<in> cw_known w \<and>
     (\<exists>k. node_at P i w = Some (k, cp_ID p, cp_State p) \<and> (no_Action q = ''prepare'' \<longrightarrow> k = no_Key q)))"

lemma told_heard: "told P i q a w \<Longrightarrow> heard P i a w"
  by (auto simp: told_def heard_def dead_def committed_def split: option.splits)

lemma told_heard_free: "told P i q a w \<Longrightarrow> no_Action q = ''prepare'' \<Longrightarrow> key_free P i (no_Key q) w \<Longrightarrow> heard_free P i a w"
  by (auto simp: told_def heard_free_def key_free_def uncommitted_def split: option.splits)

definition gw_told :: "('g, 'n, 'c, 'd) parties \<Rightarrow> answer \<Rightarrow> ('g, 'n) coverage_world \<Rightarrow> bool" where
  "gw_told P a w \<longleftrightarrow> (\<forall>p. an_transaction a = Some p \<longrightarrow> pa_gw_view P (cw_gateway w) = Some (cp_ID p, cp_State p))"

text \<open>A confirmation may be sent when the gateway's promise stands for the entry of that node, or when there is none.\<close>

definition may_confirm :: "('g, 'n, 'c, 'd) parties \<Rightarrow> string \<Rightarrow> string \<Rightarrow> ('g, 'n) coverage_world \<Rightarrow> bool" where
  "may_confirm P i G w \<longleftrightarrow> (\<forall>j e. cw_disk w = Some j \<and> map_of (cj_Entries j) i = Some e \<and> coverageActive e \<longrightarrow>
     entry_state e = ''confirming'' \<and> cp_ID (ce_Gateway e) = G \<and> gw_holds P G w)"

context coverage_parties begin

lemma background_gentle:
  assumes "background P w w'" and "cov_inv P w"
  shows "gentle P w w'"
  using assms(1)
proof cases
  case (bg_gateway g d)
  have "gw_holds P G w'" if "gw_holds P G w" for G
    using that gw_keeps [OF bg_gateway(2)] bg_gateway(1) by (fastforce simp: gw_holds_def gw_quiet_def)
  then show ?thesis
    using assms(2) bg_gateway(1) by (auto simp: gentle_def cov_inv_def intro!: same_nodes_moves)
next
  case (bg_node x c i)
  have "node_move None None (node_at P i w) (node_at P i w')"
    using node_move_alone [OF node_moves [OF bg_node(2)]] bg_node(1) by (simp add: node_at_def set_node_def)
  then have "moves P {} w w'"
    using bg_node(1) by (intro one_node_moves [of None None _ i]) (simp_all add: node_at_set_node)
  then show ?thesis
    using assms(2) bg_node(1) by (auto simp: gentle_def cov_inv_def gw_holds_def)
next
  case (bg_late i q c x)
  have "node_move (pa_nonce P c) (Some q) (node_at P i w) (node_at P i w')"
    using node_moves [OF bg_late(4)] bg_late(1) by (simp add: node_at_def set_node_def)
  then have "moves P {} w w'"
    using bg_late(1-3)
    by (intro one_node_moves [of "pa_nonce P c" "Some q" _ i]) (auto simp: node_at_set_node fresh_call_def confirm_sent_def split: option.splits)
  then show ?thesis
    using assms(2) bg_late(1) by (auto simp: gentle_def cov_inv_def gw_holds_def)
qed

lemma background_star:
  assumes "(background P)\<^sup>*\<^sup>* w w1" and "cov_inv P w" and "robust P A" and "A w"
  shows "cov_inv P w1 \<and> A w1"
  using assms(1,2,4)
proof (induction rule: rtranclp_induct)
  case (step y z)
  then have "cov_inv P y" "A y" "gentle P y z" by (blast intro: background_gentle)+
  then show ?case using gentle_inv robustD [OF assms(3)] by blast
qed simp

lemma triple_Return:
  assumes "robust P A" and "\<And>w. cov_inv P w \<Longrightarrow> A w \<Longrightarrow> Q x w"
  shows "triple P sz A (Return x) Q"
  unfolding triple_def
proof (intro allI impI)
  fix w
  assume "cov_inv P w \<and> A w"
  then have w1: "cov_inv P w1 \<and> A w1" if "(background P)\<^sup>*\<^sup>* w w1" for w1
    using background_star [OF that] assms(1) by blast
  show "safe P sz Q (Return x) w"
    by (rule safeI) (use w1 assms(2) in \<open>blast elim: prog_step_ReturnE\<close>)+
qed

lemma triple_step:
  assumes "robust P A" and "\<And>x. p \<noteq> Return x"
    and "\<And>w p' w'. cov_inv P w \<Longrightarrow> A w \<Longrightarrow> prog_step P sz p w p' w' \<Longrightarrow> safe P sz Q p' w'"
  shows "triple P sz A p Q"
  unfolding triple_def
proof (intro allI impI)
  fix w
  assume "cov_inv P w \<and> A w"
  then have w1: "cov_inv P w1 \<and> A w1" if "(background P)\<^sup>*\<^sup>* w w1" for w1
    using background_star [OF that] assms(1) by blast
  show "safe P sz Q p w"
  proof (rule safeI)
    show "cov_inv P w1" if "(background P)\<^sup>*\<^sup>* w w1" for w1 using w1 [OF that] by blast
    show "Q x w1" if "p = Return x" for x w1 using that assms(2) by blast
    show "safe P sz Q p' w2" if "(background P)\<^sup>*\<^sup>* w w1" "prog_step P sz p w1 p' w2" for w1 p' w2
      using w1 [OF that(1)] assms(3) that(2) by blast
  qed
qed

lemma tripleD: "triple P sz A p Q \<Longrightarrow> cov_inv P w \<Longrightarrow> A w \<Longrightarrow> safe P sz Q p w"
  by (auto simp: triple_def)

lemma triple_Lock: "robust P A \<Longrightarrow> (\<And>x. triple P sz A (k x) Q) \<Longrightarrow> triple P sz A (Lock k) Q"
  by (rule triple_step) (auto elim!: prog_step_LockE intro: tripleD)

lemma triple_Now: "robust P A \<Longrightarrow> (\<And>x. triple P sz A (k x) Q) \<Longrightarrow> triple P sz A (Now k) Q"
  by (rule triple_step) (auto elim!: prog_step_NowE intro: tripleD)

lemma triple_Gateway_capabilities: "robust P A \<Longrightarrow> (\<And>x. triple P sz A (k x) Q) \<Longrightarrow> triple P sz A (Gateway_capabilities k) Q"
  by (rule triple_step) (auto elim!: prog_step_Gateway_capabilitiesE intro: tripleD)

lemma triple_Remote_capabilities: "robust P A \<Longrightarrow> (\<And>x. triple P sz A (k x) Q) \<Longrightarrow> triple P sz A (Remote_capabilities n k) Q"
  by (rule triple_step) (auto elim!: prog_step_Remote_capabilitiesE intro: tripleD)

lemma triple_Read:
  assumes "robust P A" and "\<And>e. triple P sz A (k (Inl e)) Q" and "\<And>d. triple P sz (\<lambda>w. A w \<and> cw_disk w = d) (k (Inr d)) Q"
  shows "triple P sz A (Read k) Q"
  using assms by (intro triple_step) (auto elim!: prog_step_ReadE intro: tripleD)

lemma triple_Random:
  assumes "robust P A" and "\<And>e. triple P sz A (k (Inl e)) Q"
    and "\<And>nonce. triple P sz (\<lambda>w. A w \<and> key_free P i (hex_encode nonce @ ''-node'') w) (k (Inr nonce)) Q"
  shows "triple P sz A (Random k) Q"
proof (rule triple_step [OF assms(1)])
  fix w p' w'
  assume a: "cov_inv P w" "A w" "prog_step P sz (Random k) w p' w'"
  have "key_free P i (hex_encode nonce @ ''-node'') w" if "fresh_nonce P w nonce" for nonce
    using that by (auto simp: fresh_nonce_def key_free_def node_at_def split: option.splits)
  then show "safe P sz Q p' w'"
    using a(3) tripleD [OF assms(2) a(1,2)] tripleD [OF assms(3) a(1)] a(2) by (auto elim!: prog_step_RandomE)
qed simp

lemma triple_Save:
  assumes "robust P A" and "\<And>w. cov_inv P w \<Longrightarrow> A w \<Longrightarrow> journal_true P j w" and "\<And>w d. A w \<Longrightarrow> B (w\<lparr>cw_disk := d\<rparr>)"
    and "triple P sz (\<lambda>w. B w \<and> cw_disk w = Some j) (k None) Q" and "\<And>e. triple P sz B (k (Some e)) Q"
  shows "triple P sz A (Save j k) Q"
proof (rule triple_step [OF assms(1)])
  fix w p' w'
  assume a: "cov_inv P w" "A w" "prog_step P sz (Save j k) w p' w'"
  then obtain outcome e where s: "save_journal sz outcome j w = (e, w')" "p' = k e"
    by (auto elim!: prog_step_SaveE)
  then have w': "w' = w\<lparr>cw_disk := cw_disk w'\<rparr>" "cw_disk w' \<in> {Some j, cw_disk w}" "e = None \<longrightarrow> cw_disk w' = Some j"
    by (auto simp: save_journal_def writePrivate_def start_run_def Let_def split: if_splits write_outcome.splits)
  have "cov_inv P (w\<lparr>cw_disk := d\<rparr>)" if "d \<in> {Some j, cw_disk w}" for d
    using a(1,2) assms(2) [OF a(1,2)] that by (auto simp: cov_inv_def)
  then have "cov_inv P w'" "B w'" using w' assms(3) [OF a(2)] by metis+
  then show "safe P sz Q p' w'"
    using s(2) w'(3) tripleD [OF assms(4)] tripleD [OF assms(5)] by (cases e) auto
qed simp

text \<open>Requests of the gateway: those that cannot end its promise, and those sent while nothing relies on it.\<close>

lemma gateway_step:
  assumes "prog_step P sz (Gateway q k) w p' w'"
  obtains x g where "p' = k x" "w' = w\<lparr>cw_gateway := g\<rparr>" "\<And>G. gw_quiet G (Some q) \<Longrightarrow> gw_holds P G w \<Longrightarrow> gw_holds P G w'"
    "\<And>a. x = Inr a \<Longrightarrow> gw_told P a w'"
proof -
  have keep: "gw_holds P G (w\<lparr>cw_gateway := g\<rparr>)"
    if "gw_quiet G (Some q)" "gw_holds P G w" "g \<in> set (pa_gw_passes P d (Some q) (cw_gateway w))" for g d G
    using gw_keeps [OF that(3) _ _ that(1)] that(2) by (fastforce simp: gw_holds_def)
  have told: "gw_told P a (w\<lparr>cw_gateway := g\<rparr>)" if "pa_gw_reply P d q (cw_gateway w) = (Inr a, g)" for a d g
    using gw_truthful [OF that] by (simp add: gw_told_def)
  show thesis using assms
    by (rule prog_step_GatewayE)
      (rule that, assumption+, blast intro: keep gw_reply_passes, blast intro: told, rule that, assumption+, blast intro: keep, blast,
       rule that [of "Inl _" "cw_gateway w"], simp_all)
qed

lemma triple_Gateway:
  assumes "robust P A" and "\<And>G. gw_quiet G (Some q)" and "\<And>e. triple P sz A (k (Inl e)) Q"
    and "\<And>w a. cov_inv P w \<Longrightarrow> A w \<Longrightarrow> gw_told P a w \<Longrightarrow> B a w" and "\<And>a. triple P sz (B a) (k (Inr a)) Q"
  shows "triple P sz A (Gateway q k) Q"
proof (rule triple_step [OF assms(1)])
  fix w p' w'
  assume a: "cov_inv P w" "A w" "prog_step P sz (Gateway q k) w p' w'"
  obtain x g where x: "p' = k x" "w' = w\<lparr>cw_gateway := g\<rparr>" "\<And>G. gw_holds P G w \<Longrightarrow> gw_holds P G w'" "\<And>a. x = Inr a \<Longrightarrow> gw_told P a w'"
    using gateway_step [OF a(3)] assms(2) by metis
  have "gentle P w w'"
    using x(2,3) a(1) by (auto simp: gentle_def cov_inv_def intro!: same_nodes_moves)
  then have w': "cov_inv P w'" "A w'" using gentle_inv robustD [OF assms(1)] a(1,2) by blast+
  show "safe P sz Q p' w'"
  proof (cases x)
    case (Inl e) then show ?thesis using tripleD [OF assms(3) w'] x(1) by simp
  next
    case (Inr b) then show ?thesis using tripleD [OF assms(5) w'(1)] assms(4) [OF w'] x(1,4) by simp
  qed
qed simp

lemma triple_Gateway_calm:
  assumes "sturdy P A" and "\<And>w. A w \<Longrightarrow> disk_calm w" and "\<And>x. triple P sz A (k x) Q"
  shows "triple P sz A (Gateway q k) Q"
proof (rule triple_step [OF sturdy_robust [OF assms(1)]])
  fix w p' w'
  assume a: "cov_inv P w" "A w" "prog_step P sz (Gateway q k) w p' w'"
  obtain x g where x: "p' = k x" "w' = w\<lparr>cw_gateway := g\<rparr>"
    using gateway_step [OF a(3)] by metis
  have m: "moves P {} w w'" using x(2) by (auto intro!: same_nodes_moves)
  have "cov_inv P w'" using calm_inv [OF m] assms(2) [OF a(2)] a(1) x(2) by simp
  moreover have "A w'" using sturdyD [OF assms(1) a(1,2) m] x(2) by simp
  ultimately show "safe P sz Q p' w'" using tripleD [OF assms(3)] x(1) by simp
qed simp

text \<open>Requests of a node.\<close>

lemma remote_step:
  assumes "prog_step P sz (Remote n q k) w p' w'" and "cov_inv P w"
  obtains x where "p' = k x" "moves P (if no_Action q = ''confirm'' then {(nr_ID n, no_ID q)} else {}) w w'"
    "cw_disk w' = cw_disk w" "cw_gateway w' = cw_gateway w" "\<forall>(i, q) \<in> cw_sent w'. (i, no_ID q) \<in> cw_known w'"
    "\<And>a. x = Inr a \<Longrightarrow> told P (nr_ID n) q a w'"
proof -
  let ?i = "nr_ID n" and ?C = "if no_Action q = ''confirm'' then {(nr_ID n, no_ID q)} else {}"
  have answered: "moves P ?C w (hear_answer ?i a (set_node ?i x (send_request ?i q w)))"
    if "fresh_call P w ?i c" "pa_node_reply P c q (cw_node w ?i) = (a, x)" for a c x
  proof (rule one_node_moves [of "pa_nonce P c" "Some q" _ ?i])
    show "node_move (pa_nonce P c) (Some q) (node_at P ?i w) (node_at P ?i (hear_answer ?i a (set_node ?i x (send_request ?i q w))))"
      using node_moves [OF node_reply_passes [OF that(2)]] by (simp add: node_at_set_node) (simp add: node_at_def)
    show "cw_known w \<subseteq> cw_known (hear_answer ?i a (set_node ?i x (send_request ?i q w)))"
      using known_hear by fastforce
  qed (use that(1) in \<open>auto simp: node_at_set_node confirm_sent_send fresh_call_def\<close>)
  have unanswered: "moves P ?C w (send_request ?i q w)"
    by (rule one_node_moves [of None None _ ?i]) (auto simp: confirm_sent_send nm_stay)
  have sent: "\<forall>(i, y) \<in> cw_sent (send_request ?i q w). (i, no_ID y) \<in> cw_known (send_request ?i q w)"
    using assms(2) by (auto simp: cov_inv_def)
  have told: "told P ?i q a (hear_answer ?i (Inr a) (set_node ?i x (send_request ?i q w)))"
    if "pa_node_reply P c q (cw_node w ?i) = (Inr a, x)" for a c x
  proof -
    have "(?i, cp_ID p) \<in> cw_known (hear_answer ?i (Inr a) (set_node ?i x (send_request ?i q w)))" if "an_transaction a = Some p" for p
      using that by (simp add: hear_answer_def)
    then show ?thesis using node_truthful [OF that] by (simp add: told_def node_at_set_node)
  qed
  from assms(1) show thesis
  proof (rule prog_step_RemoteE)
    fix c a x
    assume p: "p' = k a" "w' = hear_answer ?i a (set_node ?i x (send_request ?i q w))" "fresh_call P w ?i c"
      "pa_node_reply P c q (cw_node w ?i) = (a, x)"
    have "\<forall>(i, q) \<in> cw_sent w'. (i, no_ID q) \<in> cw_known w'"
      using sent subsetD [OF known_hear [of "set_node ?i x (send_request ?i q w)" ?i a]] by (simp add: p(2) split_beta)
    then show ?thesis using p(1,2) answered [OF p(3,4)] told p(4) by (intro that [of a]) simp_all
  next
    fix e
    assume p: "p' = k (Inl e)" "w' = send_request ?i q w"
    then show ?thesis using unanswered sent by (intro that [of "Inl e"]) simp_all
  qed
qed

lemma triple_Remote_told:
  assumes "robust P A" and "no_Action q \<noteq> ''confirm''" and "\<And>e. triple P sz A (k (Inl e)) Q"
    and "\<And>w a. cov_inv P w \<Longrightarrow> A w \<Longrightarrow> told P (nr_ID n) q a w \<Longrightarrow> B a w" and "\<And>a. triple P sz (B a) (k (Inr a)) Q"
  shows "triple P sz A (Remote n q k) Q"
proof (rule triple_step [OF assms(1)])
  fix w p' w'
  assume a: "cov_inv P w" "A w" "prog_step P sz (Remote n q k) w p' w'"
  obtain x where x: "p' = k x" "moves P {} w w'" "cw_disk w' = cw_disk w" "cw_gateway w' = cw_gateway w"
    "\<forall>(i, q) \<in> cw_sent w'. (i, no_ID q) \<in> cw_known w'" "\<And>a. x = Inr a \<Longrightarrow> told P (nr_ID n) q a w'"
    by (rule remote_step [OF a(3,1)]) (use assms(2) in simp)
  have "gentle P w w'" using x by (auto simp: gentle_def gw_holds_def)
  then have w': "cov_inv P w'" "A w'" using gentle_inv robustD [OF assms(1)] a(1,2) by blast+
  show "safe P sz Q p' w'"
  proof (cases x)
    case (Inl e) then show ?thesis using tripleD [OF assms(3) w'] x(1) by simp
  next
    case (Inr b) then show ?thesis using tripleD [OF assms(5) w'(1)] assms(4) [OF w'] x(1,6) by simp
  qed
qed simp

lemma triple_Remote:
  assumes "robust P A" and "no_Action q \<noteq> ''confirm''" and "\<And>e. triple P sz A (k (Inl e)) Q"
    and "\<And>a. triple P sz (\<lambda>w. A w \<and> heard P (nr_ID n) a w) (k (Inr a)) Q"
  shows "triple P sz A (Remote n q k) Q"
  by (rule triple_Remote_told [OF assms(1-3) _ assms(4)]) (auto dest: told_heard)

lemma triple_Remote_prepare:
  assumes "robust P A" and "no_Action q = ''prepare''" and "\<And>w. A w \<Longrightarrow> key_free P (nr_ID n) (no_Key q) w" and "\<And>e. triple P sz A (k (Inl e)) Q"
    and "\<And>a. triple P sz (\<lambda>w. A w \<and> heard P (nr_ID n) a w \<and> heard_free P (nr_ID n) a w) (k (Inr a)) Q"
  shows "triple P sz A (Remote n q k) Q"
  by (rule triple_Remote_told [OF assms(1) _ assms(4) _ assms(5)]) (auto simp: assms(2) dest: told_heard told_heard_free assms(3))

lemma triple_Remote_confirm:
  assumes "robust P A" and "\<And>w. cov_inv P w \<Longrightarrow> A w \<Longrightarrow> may_confirm P (nr_ID n) G w"
    and "\<And>w w' C. cov_inv P w \<Longrightarrow> A w \<Longrightarrow> moves P C w w' \<Longrightarrow> cw_disk w' = cw_disk w \<Longrightarrow> cw_gateway w' = cw_gateway w \<Longrightarrow> B w'"
    and "\<And>e. triple P sz B (k (Inl e)) Q" and "\<And>a. triple P sz (\<lambda>w. B w \<and> heard P (nr_ID n) a w) (k (Inr a)) Q"
  shows "triple P sz A (Remote n q k) Q"
proof (rule triple_step [OF assms(1)])
  fix w p' w'
  assume a: "cov_inv P w" "A w" "prog_step P sz (Remote n q k) w p' w'"
  let ?C = "if no_Action q = ''confirm'' then {(nr_ID n, no_ID q)} else {}"
  obtain x where x: "p' = k x" "moves P ?C w w'" "cw_disk w' = cw_disk w" "cw_gateway w' = cw_gateway w"
    "\<forall>(i, q) \<in> cw_sent w'. (i, no_ID q) \<in> cw_known w'" "\<And>a. x = Inr a \<Longrightarrow> told P (nr_ID n) q a w'"
    using remote_step [OF a(3,1)] by metis
  have e: "entry_true P e w'" if "cw_disk w = Some j" "map_of (cj_Entries j) i = Some e" for j i e
  proof -
    have t: "entry_true P e w" "ct_NodeID (ce_Transaction e) = i" using a(1) that by (auto simp: cov_inv_def journal_true_def)
    show ?thesis
    proof (cases "coverageActive e \<and> i = nr_ID n")
      case True
      then have "entry_state e = ''confirming''" "gw_holds P (cp_ID (ce_Gateway e)) w'"
        using assms(2) [OF a(1,2)] that gw_holds_same [OF x(4)] by (auto simp: may_confirm_def)
      then show ?thesis using t(1) moves_record_true [OF x(2)] by (auto simp: entry_true_def)
    next
      case False
      then show ?thesis using t gw_holds_same [OF x(4)] by (intro moves_entry_true [OF x(2) a(1)]) (auto split: if_splits)
    qed
  qed
  have w': "cov_inv P w'" using a(1) e x(3,5) by (auto simp: cov_inv_def journal_true_def)
  have b: "B w'" using assms(3) [OF a(1,2) x(2-4)] .
  show "safe P sz Q p' w'"
  proof (cases x)
    case (Inl e) then show ?thesis using tripleD [OF assms(4) w' b] x(1) by simp
  next
    case (Inr y) then show ?thesis using tripleD [OF assms(5) w'] b told_heard [OF x(6)] x(1) by simp
  qed
qed simp

end

end
