(* ===== verification/Coverage_Proofs.thy ===== *)
theory Coverage_Proofs
  imports Coverage_Safe
begin

text \<open>
  Every program of the coordinator keeps the invariant: a triple for each part of rolling back, preparing,
  applying and confirming, and from them for the calls of the service.
\<close>

section \<open>The entry a program works on\<close>

text \<open>What a program relies on while it works on an entry that no confirmation has been sent for.\<close>

definition work :: "('g, 'n, 'c, 'd) parties \<Rightarrow> coverage_journal \<Rightarrow> coverage_entry \<Rightarrow> ('g, 'n) coverage_world \<Rightarrow> bool" where
  "work P j e w \<longleftrightarrow> others_true P (ct_NodeID (ce_Transaction e)) j w \<and> record_true P e w \<and> node_free P e w"

lemma sturdy_work [sturdy_intros]: "sturdy P (work P j e)"
  unfolding work_def by (intro sturdy_intros)

lemma work_disk [simp]: "work P j e (w\<lparr>cw_disk := d\<rparr>) = work P j e w"
  by (simp add: work_def)

lemma setters [simp]:
  "ce_Node (set_state st e) = ce_Node e" "ce_Gateway (set_state st e) = ce_Gateway e" "entry_state (set_state st e) = st"
  "ce_Node (set_error c e) = ce_Node e" "ce_Gateway (set_error c e) = ce_Gateway e" "entry_state (set_error c e) = entry_state e"
  "ce_Node (set_deadline d e) = ce_Node e" "ce_Gateway (set_deadline d e) = ce_Gateway e" "entry_state (set_deadline d e) = entry_state e"
  "ce_Node (set_plan p e) = ce_Node e" "ce_Gateway (set_plan p e) = ce_Gateway e" "entry_state (set_plan p e) = entry_state e"
  "ce_Node (forget_passphrase e) = ce_Node e" "ce_Gateway (forget_passphrase e) = ce_Gateway e"
  "entry_state (forget_passphrase e) = entry_state e"
  "entry_state (e\<lparr>ce_Node := x\<rparr>) = entry_state e" "entry_state (e\<lparr>ce_Gateway := x\<rparr>) = entry_state e"
  by (simp_all add: set_state_def set_error_def set_deadline_def set_plan_def forget_passphrase_def entry_state_def)

text \<open>Node, identifier and request key of an entry never change.\<close>

definition same_entry :: "coverage_entry \<Rightarrow> coverage_entry \<Rightarrow> bool" where
  "same_entry e e' \<longleftrightarrow> ct_NodeID (ce_Transaction e') = ct_NodeID (ce_Transaction e) \<and> ct_ID (ce_Transaction e') = ct_ID (ce_Transaction e)"

lemma setters_same [simp]:
  "same_entry e (set_state st x) = same_entry e x" "same_entry e (set_error c x) = same_entry e x" "same_entry e (set_deadline d x) = same_entry e x"
  "same_entry e (set_plan p x) = same_entry e x" "same_entry e (forget_passphrase x) = same_entry e x"
  "same_entry e (x\<lparr>ce_Node := y\<rparr>) = same_entry e x" "same_entry e (x\<lparr>ce_Gateway := y\<rparr>) = same_entry e x" "same_entry e e"
  by (simp_all add: set_state_def set_error_def set_deadline_def set_plan_def forget_passphrase_def same_entry_def)

lemma same_entry_fields: "same_entry e e' \<Longrightarrow> ct_NodeID (ce_Transaction e') = ct_NodeID (ce_Transaction e) \<and> node_key e' = node_key e"
  by (simp add: same_entry_def node_key_def)

lemma setters_node_id [simp]:
  "ct_NodeID (ce_Transaction (set_state st e)) = ct_NodeID (ce_Transaction e)" "ct_NodeID (ce_Transaction (set_error c e)) = ct_NodeID (ce_Transaction e)"
  "ct_NodeID (ce_Transaction (set_deadline d e)) = ct_NodeID (ce_Transaction e)" "ct_NodeID (ce_Transaction (set_plan p e)) = ct_NodeID (ce_Transaction e)"
  "ct_NodeID (ce_Transaction (forget_passphrase e)) = ct_NodeID (ce_Transaction e)"
  "node_key (set_state st e) = node_key e" "node_key (set_error c e) = node_key e" "node_key (set_deadline d e) = node_key e"
  "node_key (set_plan p e) = node_key e" "node_key (forget_passphrase e) = node_key e"
  "node_key (e\<lparr>ce_Node := x\<rparr>) = node_key e" "node_key (e\<lparr>ce_Gateway := x\<rparr>) = node_key e"
  by (simp_all add: set_state_def set_error_def set_deadline_def set_plan_def forget_passphrase_def node_key_def)

lemma setters_work [simp]:
  "work P j (set_state st e) = work P j e" "work P j (set_error c e) = work P j e" "work P j (set_deadline d e) = work P j e"
  "work P j (set_plan p e) = work P j e" "work P j (forget_passphrase e) = work P j e" "work P j (e\<lparr>ce_Gateway := x\<rparr>) = work P j e"
  by (simp_all add: fun_eq_iff work_def node_free_def record_true_def)

lemma set_state_node_free [simp]: "node_free P (set_state st e) = node_free P e"
  by (simp add: fun_eq_iff node_free_def)

lemma setters_record [simp]:
  "record_true P (set_state st e) = record_true P e" "record_true P (set_error c e) = record_true P e"
  "record_true P (set_deadline d e) = record_true P e" "record_true P (set_plan p e) = record_true P e"
  "record_true P (forget_passphrase e) = record_true P e" "record_true P (e\<lparr>ce_Gateway := x\<rparr>) = record_true P e"
  by (simp_all add: fun_eq_iff record_true_def)

lemma forget_passphrase_empty [simp]: "np_Passphrase (ct_Plan (ce_Transaction (forget_passphrase e))) = ''''"
  by (simp add: forget_passphrase_def set_plan_def)

lemma set_error_plan [simp]: "ct_Plan (ce_Transaction (set_error c e)) = ct_Plan (ce_Transaction e)"
  by (simp add: set_error_def)

lemma others_true_put:
  "others_true P i j w \<Longrightarrow> ct_NodeID (ce_Transaction e) = i \<Longrightarrow> others_true P i (put_entry e j) w"
  by (auto simp: others_true_def put_entry_def split: if_splits)

lemma work_put: "work P j e w \<Longrightarrow> ct_NodeID (ce_Transaction e') = ct_NodeID (ce_Transaction e) \<Longrightarrow> work P (put_entry e' j) e w"
  by (simp add: work_def others_true_put)

lemma journal_true_put:
  assumes "others_true P (ct_NodeID (ce_Transaction e)) j w" and "entry_true P e w"
  shows "journal_true P (put_entry e j) w"
  using assms by (auto simp: others_true_def journal_true_def put_entry_def split: if_splits)

lemma confirming_active: "entry_state e = ''confirming'' \<Longrightarrow> coverageActive e"
  by (simp add: coverageActive_def)

lemma put_calm:
  assumes "others_true P (ct_NodeID (ce_Transaction e)) j w" and "entry_state e \<noteq> ''confirming''" and "cw_disk w = Some (put_entry e j)"
  shows "disk_calm w"
  using assms confirming_active by (auto simp: disk_calm_def others_true_def put_entry_def split: if_splits)

text \<open>An unsettled entry in a state other than \<open>confirming\<close> may be written whenever it is worked on.\<close>

lemma work_entry_true: "work P j e w \<Longrightarrow> coverageActive e \<Longrightarrow> entry_true P e w"
  by (auto simp: work_def entry_true_def coverageActive_def)

lemma work_journal_true: "work P j e w \<Longrightarrow> coverageActive e \<Longrightarrow> journal_true P (put_entry e j) w"
  by (rule journal_true_put) (auto simp: work_def intro: work_entry_true [of P j])

lemma decodeParticipant_Inr:
  "decodeParticipant a = Inr p \<Longrightarrow> an_transaction a = Some p \<and> cp_ID p \<noteq> ''''"
  by (auto simp: decodeParticipant_def transactionID_def matches_def split: option.splits if_splits)

lemma matchingParticipant_ok:
  "matchingParticipant a i sts = (p, None) \<Longrightarrow> an_transaction a = Some p \<and> cp_ID p = i \<and> cp_State p \<in> set sts \<and> i \<noteq> ''''"
  by (auto simp: matchingParticipant_def Let_def dest: decodeParticipant_Inr split: sum.splits if_splits)

lemma matchingParticipant_failed: "matchingParticipant a i sts = (p, Some err) \<Longrightarrow> p = no_participant\<lparr>cp_ID := i\<rparr>"
  by (auto simp: matchingParticipant_def Let_def split: sum.splits if_splits)

text \<open>An answer that names the entry's node transaction becomes part of the entry.\<close>

lemma work_heard:
  assumes "work P j e w" and "heard P (ct_NodeID (ce_Transaction e)) a w" and "an_transaction a = Some p" and "cp_ID p = cp_ID (ce_Node e)"
    and "cp_ID p \<noteq> ''''"
  shows "work P j (e\<lparr>ce_Node := p\<rparr>) w"
  using assms by (simp add: work_def node_free_def record_true_def heard_def Let_def)

lemma work_unknown: "work P j e w \<Longrightarrow> work P j (e\<lparr>ce_Node := no_participant\<lparr>cp_ID := cp_ID (ce_Node e)\<rparr>\<rparr>) w"
  by (simp add: work_def node_free_def record_true_def no_participant_def settled_states_def Let_def)

lemma work_found:
  assumes "work P j e w" and "heard P (ct_NodeID (ce_Transaction e)) a w" and "heard_free P (ct_NodeID (ce_Transaction e)) a w"
    and "an_transaction a = Some p" and "cp_ID p \<noteq> ''''"
  shows "work P j (e\<lparr>ce_Node := p\<rparr>) w"
  using assms by (simp add: work_def node_free_def record_true_def heard_def heard_free_def Let_def)

lemma work_no_node: "work P j e w \<Longrightarrow> cp_ID (ce_Node e) = '''' \<Longrightarrow> work P j (e\<lparr>ce_Node := no_participant\<rparr>) w"
  by (simp add: work_def node_free_def record_true_def no_participant_def Let_def)

lemma work_key_free: "work P j e w \<Longrightarrow> cp_ID (ce_Node e) = '''' \<Longrightarrow> key_free P (ct_NodeID (ce_Transaction e)) (node_key e) w"
  by (simp add: work_def node_free_def Let_def)

lemmas request_simps [simp] = gateway_request_def node_request_def prepare_node_request_def prepare_gateway_request_def

lemma triple_if: "(b \<Longrightarrow> triple P sz A p Q) \<Longrightarrow> (\<not> b \<Longrightarrow> triple P sz A q Q) \<Longrightarrow> triple P sz A (if b then p else q) Q"
  by simp

text \<open>While rolling back: the entry is worked on and nothing in the file relies on the gateway.\<close>

definition undoing :: "('g, 'n, 'c, 'd) parties \<Rightarrow> coverage_journal \<Rightarrow> coverage_entry \<Rightarrow> ('g, 'n) coverage_world \<Rightarrow> bool" where
  "undoing P j e w \<longleftrightarrow> work P j e w \<and> disk_calm w"

lemma sturdy_undoing [sturdy_intros]: "sturdy P (undoing P j e)"
  unfolding undoing_def by (intro sturdy_intros)

lemma undoing_gateway [simp]: "undoing P j (e\<lparr>ce_Gateway := x\<rparr>) = undoing P j e"
  by (simp add: fun_eq_iff undoing_def)

lemma undoing_calm: "undoing P j e w \<Longrightarrow> disk_calm w"
  by (simp add: undoing_def)

text \<open>Right after loading: the journal is the content of the file, or there is no file.\<close>

definition loaded :: "('g, 'n, 'c, 'd) parties \<Rightarrow> coverage_journal \<Rightarrow> ('g, 'n) coverage_world \<Rightarrow> bool" where
  "loaded P j w \<longleftrightarrow> journal_true P j w \<and> (cw_disk w = None \<or> cw_disk w = Some j)"

lemma robust_loaded [robust_intros]: "robust P (loaded P j)"
  unfolding robust_def
proof (intro allI impI)
  fix w w'
  assume a: "cov_inv P w \<and> loaded P j w \<and> gentle P w w'"
  then have "entry_true P e w'" if "entry_true P e w" for e
    using that by (intro moves_entry_true [of P "{}" w w' e]) (auto simp: gentle_def)
  with a show "loaded P j w'" unfolding loaded_def journal_true_def gentle_def by metis
qed

lemma loaded_others:
  "loaded P j w \<Longrightarrow> (\<And>i' e. map_of (cj_Entries j) i' = Some e \<Longrightarrow> coverageActive e \<Longrightarrow> i' = i) \<Longrightarrow> others_true P i j w"
  by (auto simp: loaded_def journal_true_def others_true_def)

lemma loaded_unique:
  "loaded P j w \<Longrightarrow> map_of (cj_Entries j) i = Some e \<Longrightarrow> coverageActive e \<Longrightarrow>
     others_true P i j w \<and> ct_NodeID (ce_Transaction e) = i \<and> entry_true P e w"
  by (auto simp: loaded_def journal_true_def others_true_def)

lemma loaded_work:
  assumes "loaded P j w" and "map_of (cj_Entries j) i = Some e" and "coverageActive e" and "entry_state e \<noteq> ''confirming''"
  shows "undoing P j e w"
proof -
  note l = loaded_unique [OF assms(1-3)]
  then have "work P j e w" using assms(3,4) by (simp add: work_def entry_true_def)
  moreover have "entry_state x \<noteq> ''confirming''" if "map_of (cj_Entries j) i' = Some x" for i' x
    using that l assms(2,4) confirming_active [of x] by (cases "i' = i") (auto simp: others_true_def)
  then have "disk_calm w" using assms(1) by (auto simp: loaded_def disk_calm_def)
  ultimately show ?thesis by (simp add: undoing_def)
qed

text \<open>While confirming: the file says so, and either no confirmation was sent or the gateway's promise stands.\<close>

definition disk_for :: "coverage_entry \<Rightarrow> ('g, 'n) coverage_world \<Rightarrow> bool" where
  "disk_for e w \<longleftrightarrow> (\<forall>j e'. cw_disk w = Some j \<and> map_of (cj_Entries j) (ct_NodeID (ce_Transaction e)) = Some e' \<and> coverageActive e' \<longrightarrow>
     entry_state e' = ''confirming'' \<and> cp_ID (ce_Gateway e') = cp_ID (ce_Gateway e))"

definition deciding :: "('g, 'n, 'c, 'd) parties \<Rightarrow> coverage_journal \<Rightarrow> coverage_entry \<Rightarrow> ('g, 'n) coverage_world \<Rightarrow> bool" where
  "deciding P j e w \<longleftrightarrow> others_true P (ct_NodeID (ce_Transaction e)) j w \<and> record_true P e w \<and> disk_for e w \<and>
     (node_free P e w \<or> gw_holds P (cp_ID (ce_Gateway e)) w)"

definition promised :: "('g, 'n, 'c, 'd) parties \<Rightarrow> coverage_journal \<Rightarrow> coverage_entry \<Rightarrow> ('g, 'n) coverage_world \<Rightarrow> bool" where
  "promised P j e w \<longleftrightarrow> others_true P (ct_NodeID (ce_Transaction e)) j w \<and> record_true P e w \<and> gw_holds P (cp_ID (ce_Gateway e)) w"

lemma sturdy_disk_for [sturdy_intros]: "sturdy P (disk_for e)"
  unfolding sturdy_def disk_for_def by (intro allI impI) (elim conjE, simp)

lemma robust_deciding [robust_intros]: "robust P (deciding P j e)"
  unfolding deciding_def by (intro robust_intros sturdy_robust [OF sturdy_others_true] sturdy_robust [OF sturdy_record_true]
      sturdy_robust [OF sturdy_disk_for] sturdy_robust [OF sturdy_node_free])

lemma robust_promised [robust_intros]: "robust P (promised P j e)"
  unfolding promised_def by (intro robust_intros sturdy_robust [OF sturdy_others_true] sturdy_robust [OF sturdy_record_true])

lemma promised_disk [simp]: "promised P j e (w\<lparr>cw_disk := d\<rparr>) = promised P j e w"
  by (simp add: promised_def)

lemma promised_journal_true: "promised P j e w \<Longrightarrow> entry_state e = ''confirming'' \<Longrightarrow> journal_true P (put_entry e j) w"
  by (rule journal_true_put) (auto simp: promised_def entry_true_def)

lemma put_disk_for: "entry_state e = ''confirming'' \<Longrightarrow> cw_disk w = Some (put_entry e j) \<Longrightarrow> disk_for e w"
  by (auto simp: disk_for_def put_entry_def)

lemma promised_put: "promised P j e w \<Longrightarrow> promised P (put_entry e j) e w"
  by (simp add: promised_def others_true_put)

text \<open>The file has no entry for a node.\<close>

definition no_entry :: "string \<Rightarrow> ('g, 'n) coverage_world \<Rightarrow> bool" where
  "no_entry i w \<longleftrightarrow> (\<forall>j. cw_disk w = Some j \<longrightarrow> map_of (cj_Entries j) i = None)"

lemma sturdy_no_entry [sturdy_intros]: "sturdy P (no_entry i)"
  unfolding sturdy_def no_entry_def by (intro allI impI) (elim conjE, simp)

lemma loaded_delete: "loaded P j w \<Longrightarrow> journal_true P (j\<lparr>cj_Entries := AList.delete i (cj_Entries j)\<rparr>) w"
  by (auto simp: loaded_def journal_true_def delete_conv' split: if_splits)

context coverage_parties begin

lemmas sturdy_all = sturdy_robust sturdy_conj sturdy_intros

section \<open>Rolling back\<close>

lemma triple_pure: "(X \<Longrightarrow> triple P sz A p Q) \<Longrightarrow> triple P sz (\<lambda>w. A w \<and> X) p Q"
  by (auto simp: triple_def)

lemma find_node_triple:
  assumes "nr_ID n = ct_NodeID (ce_Transaction e)"
  shows "triple P sz (undoing P j e) (find_node n e)
    (\<lambda>(e', err) w. undoing P j e' w \<and> same_entry e e' \<and> entry_state e' = entry_state e \<and> ce_Gateway e' = ce_Gateway e \<and>
       (err = None \<longrightarrow> cp_ID (ce_Node e') \<noteq> ''''))"
proof (cases "cp_ID (ce_Node e) = ''''")
  case False
  then show ?thesis by (auto simp: find_node_def intro!: triple_Return sturdy_all)
next
  case True
  have rob: "robust P (undoing P j e)" by (intro sturdy_all)
  show ?thesis
    unfolding find_node_def using True
    by (simp, intro triple_Remote_prepare [OF rob])
      (auto simp: assms undoing_def intro!: triple_Return sturdy_all intro: work_no_node work_found dest: work_key_free decodeParticipant_Inr split: sum.splits)
qed

lemma find_gateway_triple:
  "triple P sz (undoing P j e) (find_gateway e)
    (\<lambda>(e', err) w. undoing P j e' w \<and> same_entry e e' \<and> entry_state e' = entry_state e \<and> ce_Node e' = ce_Node e \<and>
       (err = None \<longrightarrow> cp_ID (ce_Gateway e') \<noteq> ''''))"
  unfolding find_gateway_def
  by (auto intro!: triple_Gateway_calm triple_Return sturdy_all undoing_calm dest!: decodeParticipant_Inr split: sum.splits)

lemma cancel_node_triple:
  assumes "nr_ID n = ct_NodeID (ce_Transaction e)" and "earlier = None \<Longrightarrow> cp_ID (ce_Node e) \<noteq> ''''"
  shows "triple P sz (undoing P j e) (cancel_node n e earlier)
    (\<lambda>(e', err) w. undoing P j e' w \<and> same_entry e e' \<and> entry_state e' = entry_state e \<and> ce_Gateway e' = ce_Gateway e \<and>
       (err = None \<longrightarrow> cp_ID (ce_Node e') \<noteq> '''' \<and> cp_State (ce_Node e') \<in> set settled_states))"
proof -
  have rob: "robust P (undoing P j e)" by (intro sturdy_all)
  have ans: "triple P sz (\<lambda>w. undoing P j e w \<and> heard P (ct_NodeID (ce_Transaction e)) a w)
      (Return (case matchingParticipant a (cp_ID (ce_Node e)) [''rolled-back''] of (p, err) \<Rightarrow> (e\<lparr>ce_Node := p\<rparr>, err)))
      (\<lambda>(e', err) w. undoing P j e' w \<and> same_entry e e' \<and> entry_state e' = entry_state e \<and> ce_Gateway e' = ce_Gateway e \<and>
         (err = None \<longrightarrow> cp_ID (ce_Node e') \<noteq> '''' \<and> cp_State (ce_Node e') \<in> set settled_states))" for a
  proof (cases "matchingParticipant a (cp_ID (ce_Node e)) [''rolled-back'']")
    case (Pair p err)
    show ?thesis
    proof (cases err)
      case None
      then show ?thesis using Pair matchingParticipant_ok [of a "cp_ID (ce_Node e)" "[''rolled-back'']" p]
        by (auto simp: settled_states_def undoing_def intro!: triple_Return sturdy_all intro: work_heard)
    next
      case (Some x)
      then show ?thesis using Pair matchingParticipant_failed [of a "cp_ID (ce_Node e)" "[''rolled-back'']" p x]
        by (auto simp: undoing_def intro!: triple_Return sturdy_all intro: work_unknown)
    qed
  qed
  show ?thesis
    unfolding cancel_node_def using assms ans by (auto intro!: triple_Remote [OF rob] triple_Return sturdy_all)
qed

lemma cancel_gateway_triple:
  assumes "earlier = None \<Longrightarrow> cp_ID (ce_Gateway e) \<noteq> ''''"
  shows "triple P sz (undoing P j e) (cancel_gateway e earlier)
    (\<lambda>(e', err) w. undoing P j e' w \<and> same_entry e e' \<and> entry_state e' = entry_state e \<and> ce_Node e' = ce_Node e \<and>
       (err = None \<longrightarrow> cp_ID (ce_Gateway e') \<noteq> '''' \<and> cp_State (ce_Gateway e') \<in> set settled_states))"
  unfolding cancel_gateway_def using assms
  by (auto simp: settled_states_def intro!: triple_Gateway_calm triple_Return sturdy_all undoing_calm dest!: matchingParticipant_ok split: sum.splits prod.splits)

lemma finish_rollback_triple:
  assumes "coverageActive e" and "nodeErr = None \<Longrightarrow> cp_ID (ce_Node e) \<noteq> '''' \<and> cp_State (ce_Node e) \<in> set settled_states"
    and "gatewayErr = None \<Longrightarrow> cp_ID (ce_Gateway e) \<noteq> '''' \<and> cp_State (ce_Gateway e) \<in> set settled_states"
  shows "triple P sz (work P j e) (finish_rollback j e nodeErr gatewayErr) (\<lambda>_ _. True)"
proof -
  have rob: "robust P (work P j e)" by (intro sturdy_all)
  let ?e = "forget_passphrase (set_deadline 0 (set_state ''rolled-back'' e))"
  have "journal_true P (put_entry ?e j) w" if "work P j e w" "nodeErr = None" "gatewayErr = None" for w
    using that assms by (intro journal_true_put) (auto simp: work_def entry_true_def coverageActive_def)
  moreover have "coverageActive (set_error c e)" for c using assms(1) by (simp add: coverageActive_def)
  then have "journal_true P (put_entry (set_error c e) j) w" if "work P j e w" for w c
    using that by (intro work_journal_true) simp_all
  ultimately show ?thesis
    unfolding finish_rollback_def Let_def
    by (auto intro!: triple_Save [OF rob, where B = "work P j e"] triple_Return sturdy_all)
qed

lemma rollbackCoverage_triple:
  assumes "nr_ID n = ct_NodeID (ce_Transaction e)"
  shows "triple P sz (work P j e) (rollbackCoverage j n e) (\<lambda>_ _. True)"
proof (cases "entry_state e = ''rolled-back''")
  case True
  then show ?thesis by (auto simp: rollbackCoverage_def intro!: triple_Return sturdy_all)
next
  case False
  define e1 where "e1 = set_state ''rolling-back'' e"
  have act: "coverageActive e1" by (simp add: e1_def coverageActive_def)
  have id1: "nr_ID n = ct_NodeID (ce_Transaction e1)" by (simp add: e1_def assms)
  have rob: "robust P (work P j e1)" by (intro sturdy_all)
  have chain: "triple P sz (undoing P j e1)
      (bind_prog (find_node n e1) (\<lambda>(e2, nodeErr). bind_prog (find_gateway e2) (\<lambda>(e3, gatewayErr).
       bind_prog (cancel_node n e3 nodeErr) (\<lambda>(e4, nodeErr'). bind_prog (cancel_gateway e4 gatewayErr) (\<lambda>(e5, gatewayErr').
         finish_rollback j e5 nodeErr' gatewayErr'))))) (\<lambda>_ _. True)"
    apply (rule triple_bind [OF find_node_triple [OF id1]])
    apply (clarsimp split: prod.splits)
    apply (rule triple_pure, rule triple_bind [OF find_gateway_triple])
    apply (clarsimp split: prod.splits)
    apply (rule triple_pure, rule triple_bind [OF cancel_node_triple])
      apply (use id1 in \<open>simp add: same_entry_def\<close>)
     apply simp
    apply (clarsimp split: prod.splits)
    apply (rule triple_pure, rule triple_bind [OF cancel_gateway_triple])
     apply simp
    apply (clarsimp split: prod.splits)
    apply (rule triple_pure, rule triple_pre [OF finish_rollback_triple])
       apply (use act in \<open>auto simp: coverageActive_def undoing_def\<close>)
    done
  have calm: "undoing P j e1 w" if "work P j e1 w" "cw_disk w = Some (put_entry e1 j)" for w
    using that put_calm [of P e1 j w] by (auto simp: undoing_def work_def e1_def)
  have "triple P sz (work P j e1) (rollbackCoverage j n e) (\<lambda>_ _. True)"
    unfolding rollbackCoverage_def using False rob act
    by (simp add: Let_def flip: e1_def, intro triple_Save [where B = "work P j e1"])
      (auto intro!: work_journal_true triple_Return intro: triple_pre [OF chain] calm)
  then show ?thesis by (simp add: e1_def)
qed

section \<open>Preparing\<close>

lemma finish_prepare_triple: "triple P sz (work P j e) (finish_prepare j e) (\<lambda>_ _. True)"
  unfolding finish_prepare_def Let_def
  by (intro triple_Save [where B = "work P j e"] triple_Return sturdy_all) (auto simp: coverageActive_def intro!: work_journal_true)

lemma prepare_node_triple:
  assumes "nr_ID n = ct_NodeID (ce_Transaction e)"
  shows "triple P sz (work P j e) (prepare_node j n e) (\<lambda>_ _. True)"
proof -
  have rob: "robust P (work P j e)" by (intro sturdy_all)
  have found: "triple P sz (\<lambda>w. work P j e w \<and> heard P (ct_NodeID (ce_Transaction e)) a w \<and> heard_free P (ct_NodeID (ce_Transaction e)) a w)
      (finish_prepare j (e\<lparr>ce_Node := p\<rparr>)) (\<lambda>_ _. True)" if "decodeParticipant a = Inr p" for a p
    using that by (intro triple_pre [OF finish_prepare_triple]) (auto intro: work_found dest: decodeParticipant_Inr)
  show ?thesis
    unfolding prepare_node_def
    by (auto simp: assms intro!: triple_Remote_prepare [OF rob] triple_Return sturdy_all found finish_prepare_triple
        dest: work_key_free split: sum.splits)
qed

lemma prepare_gateway_triple:
  assumes "nr_ID n = ct_NodeID (ce_Transaction e)" and "entry_state e = ''preparing''"
  shows "triple P sz (undoing P j e) (prepare_gateway j n e) (\<lambda>_ _. True)"
proof -
  have rob: "robust P (undoing P j e)" by (intro sturdy_all)
  have save: "triple P sz (undoing P j e) (Save (put_entry e' j) (\<lambda>err. case err of Some err' \<Rightarrow> Return (None, Some err') |
      None \<Rightarrow> prepare_node (put_entry e' j) n e')) (\<lambda>_ _. True)" if e': "e' = set_plan p (e\<lparr>ce_Gateway := q\<rparr>)" for e' p q
  proof (rule triple_Save [OF rob, where B = "work P j e"])
    show "triple P sz (\<lambda>w. work P j e w \<and> cw_disk w = Some (put_entry e' j))
        (case None of Some err' \<Rightarrow> Return (None, Some err') | None \<Rightarrow> prepare_node (put_entry e' j) n e') (\<lambda>_ _. True)"
      using assms e' work_put [of P j e _ e'] by (simp, intro triple_pre [OF prepare_node_triple]) auto
  qed (use assms e' in \<open>auto simp: undoing_def coverageActive_def intro!: work_journal_true triple_Return sturdy_all\<close>)
  show ?thesis
    unfolding prepare_gateway_def
    by (auto simp: assms Let_def intro!: triple_Gateway_calm sturdy_all triple_Return undoing_calm save
        intro: triple_pre [OF prepare_node_triple [OF assms(1)]] simp: undoing_def split: sum.splits)
qed

lemma service_node_triple:
  assumes "robust P A" and "\<And>i n. map_of (sv_records sv) i = Some n \<Longrightarrow> nr_ID n = i"
  shows "triple P sz A (service_node sv i) (\<lambda>x w. A w \<and> (\<forall>n. x = Inr n \<longrightarrow> nr_ID n = i))"
  unfolding service_node_def
  by (auto simp: pairedRecord_def assms(2) map_sum_def intro!: triple_Return [OF assms(1)] triple_Remote_capabilities [OF assms(1)]
      split: sum.splits option.splits)

lemma quiet_requests [simp]:
  "gw_quiet G (Some \<lparr>op_Action = ''validate'', op_Key = k, op_ID = i, op_Plan = p, op_TimeoutSeconds = t\<rparr>)"
  "gw_quiet G (Some \<lparr>op_Action = ''status'', op_Key = k, op_ID = i, op_Plan = p, op_TimeoutSeconds = t\<rparr>)"
  "gw_quiet G (Some \<lparr>op_Action = ''inspect'', op_Key = k, op_ID = i, op_Plan = p, op_TimeoutSeconds = t\<rparr>)"
  "gw_quiet G (Some \<lparr>op_Action = ''apply'', op_Key = k, op_ID = i, op_Plan = p, op_TimeoutSeconds = t\<rparr>)"
  "gw_quiet G (Some \<lparr>op_Action = ''confirm'', op_Key = k, op_ID = i, op_Plan = p, op_TimeoutSeconds = t\<rparr>)"
  "gw_quiet G (Some \<lparr>op_Action = ''finalize'', op_Key = k, op_ID = i, op_Plan = p, op_TimeoutSeconds = t\<rparr>)"
  by (simp_all add: gw_quiet_def)

lemma triple_Gateway_quiet:
  assumes "robust P A" and "\<And>G. gw_quiet G (Some q)" and "\<And>x. triple P sz A (k x) Q"
  shows "triple P sz A (Gateway q k) Q"
  by (rule triple_Gateway [OF assms(1,2,3), where B = "\<lambda>_. A"]) (auto intro: assms)

lemma validateCoverage_triple:
  assumes "robust P A"
  shows "triple P sz A (validateCoverage sv n p gateway) (\<lambda>_. A)"
  unfolding validateCoverage_def
  by (auto intro!: triple_Return [OF assms] triple_Gateway_capabilities [OF assms] triple_Gateway_quiet [OF assms]
      split: option.splits sum.splits)

lemma planCoverage_triple:
  assumes "robust P A" and "\<And>i n. map_of (sv_records sv) i = Some n \<Longrightarrow> nr_ID n = i"
  shows "triple P sz A (planCoverage sv i p gateway) (\<lambda>_. A)"
  unfolding planCoverage_def
  by (rule triple_bind [OF service_node_triple [OF assms]])
    (auto intro!: triple_Return triple_bind [OF validateCoverage_triple] assms(1) robust_conj sturdy_robust [OF sturdy_const] split: sum.splits)

lemma robust_pure: "robust P A \<Longrightarrow> robust P (\<lambda>w. A w \<and> X)"
  by (intro robust_intros sturdy_robust [OF sturdy_const])

lemma new_entry_work:
  "others_true P (nr_ID n) j w \<Longrightarrow> key_free P (nr_ID n) (hex_encode nonce @ ''-node'') w \<Longrightarrow> work P j (new_entry q n hash p g nonce now) w"
  by (simp add: work_def new_entry_def record_true_def node_free_def node_key_def no_participant_def)

lemma save_entry_triple:
  assumes "nr_ID n = ct_NodeID (ce_Transaction e)" and "entry_state e = ''preparing''"
  shows "triple P sz (work P j e) (Save (put_entry e j) (\<lambda>err. case err of Some err' \<Rightarrow> Return (None, Some err') |
    None \<Rightarrow> prepare_gateway (put_entry e j) n e)) (\<lambda>_ _. True)"
proof (rule triple_Save [where B = "work P j e"])
  have "undoing P (put_entry e j) e w" if "work P j e w" "cw_disk w = Some (put_entry e j)" for w
    using that put_calm [of P e j w] assms(2) by (auto simp: undoing_def work_def intro: others_true_put)
  then show "triple P sz (\<lambda>w. work P j e w \<and> cw_disk w = Some (put_entry e j))
      (case None of Some err' \<Rightarrow> Return (None, Some err') | None \<Rightarrow> prepare_gateway (put_entry e j) n e) (\<lambda>_ _. True)"
    using assms by (simp, intro triple_pre [OF prepare_gateway_triple]) auto
qed (use assms in \<open>auto simp: coverageActive_def intro!: work_journal_true triple_Return sturdy_all\<close>)

lemma triple_service_node:
  assumes "robust P A" and "\<And>i n. map_of (sv_records sv) i = Some n \<Longrightarrow> nr_ID n = i"
    and "\<And>e. triple P sz A (f (Inl e)) Q" and "\<And>n. nr_ID n = i \<Longrightarrow> triple P sz A (f (Inr n)) Q"
  shows "triple P sz A (bind_prog (service_node sv i) f) Q"
proof (rule triple_bind [OF service_node_triple [OF assms(1,2)]])
  fix x
  show "triple P sz (\<lambda>w. A w \<and> (\<forall>n. x = Inr n \<longrightarrow> nr_ID n = i)) (f x) Q"
    using assms(3,4) by (intro triple_pure) (cases x; simp)
qed

lemma triple_validateCoverage:
  "robust P A \<Longrightarrow> (\<And>x. triple P sz A (f x) Q) \<Longrightarrow> triple P sz A (bind_prog (validateCoverage sv n p gateway) f) Q"
  by (rule triple_bind [OF validateCoverage_triple])

lemma begin_entry_triple: "triple P sz (others_true P (nr_ID n) j) (begin_entry j n q hash p g) (\<lambda>_ _. True)"
proof -
  let ?A = "others_true P (nr_ID n) j"
  have rob: "robust P ?A" by (intro sturdy_all)
  have new: "ct_NodeID (ce_Transaction (new_entry q n hash p g nonce now)) = nr_ID n" "entry_state (new_entry q n hash p g nonce now) = ''preparing''"
    for nonce now
    by (simp_all add: new_entry_def entry_state_def)
  have "triple P sz (\<lambda>w. ?A w \<and> key_free P (nr_ID n) (hex_encode nonce @ ''-node'') w)
      (Now (\<lambda>now. let e = new_entry q n hash p g nonce now in Save (put_entry e j) (\<lambda>err. case err of Some err' \<Rightarrow> Return (None, Some err') |
        None \<Rightarrow> prepare_gateway (put_entry e j) n e))) (\<lambda>_ _. True)" for nonce
    unfolding Let_def
    by (intro triple_Now robust_conj sturdy_all triple_pre [OF save_entry_triple]) (auto simp: new intro: new_entry_work)
  then show ?thesis
    unfolding begin_entry_def by (auto intro!: triple_Random [OF rob, where i = "nr_ID n"] triple_Return rob)
qed

lemma create_entry_triple:
  assumes "\<And>i n. map_of (sv_records sv) i = Some n \<Longrightarrow> nr_ID n = i"
  shows "triple P sz (loaded P j) (create_entry sv j n q plan hash) (\<lambda>_ _. True)"
proof (cases "\<exists>(_, e) \<in> set (cj_Entries j). coverageActive e")
  case True
  then show ?thesis by (auto simp: create_entry_def intro!: triple_Return robust_intros)
next
  case False
  let ?A = "others_true P (nr_ID n) j"
  have rob: "robust P ?A" by (intro sturdy_all)
  have weaken: "?A w" if "loaded P j w" for w
    using that False by (intro loaded_others) (auto dest: map_of_SomeD)
  have valid: "triple P sz ?A (bind_prog (validateCoverage sv fresh plan (co_GatewayPlan q)) (\<lambda>y. case y of
      Inl err \<Rightarrow> Return (None, Some err) | Inr (p, g) \<Rightarrow> begin_entry j n q hash p g)) (\<lambda>_ _. True)" for fresh
    by (rule triple_validateCoverage [OF rob]) (auto intro!: triple_Return [OF rob] begin_entry_triple split: sum.splits)
  have "triple P sz ?A (bind_prog (service_node sv (nr_ID n)) (\<lambda>x. case x of Inl err \<Rightarrow> Return (None, Some err) | Inr fresh \<Rightarrow>
      bind_prog (validateCoverage sv fresh plan (co_GatewayPlan q)) (\<lambda>y. case y of
        Inl err \<Rightarrow> Return (None, Some err) | Inr (p, g) \<Rightarrow> begin_entry j n q hash p g))) (\<lambda>_ _. True)"
    by (rule triple_service_node [OF rob assms]) (simp_all add: valid triple_Return [OF rob])
  then have "triple P sz ?A (create_entry sv j n q plan hash) (\<lambda>_ _. True)"
    unfolding create_entry_def if_not_P [OF False] by (intro triple_if triple_Return [OF rob] TrueI)
  then show ?thesis by (rule triple_pre) (rule weaken)
qed

lemma prepareCoverage_triple:
  assumes "\<And>i n. map_of (sv_records sv) i = Some n \<Longrightarrow> nr_ID n = i"
  shows "triple P sz (loaded P j) (prepareCoverage sv j n q) (\<lambda>_ _. True)"
proof -
  have rob: "robust P (loaded P j)" by (intro robust_intros)
  have "triple P sz (loaded P j) (prepare_gateway j n e) (\<lambda>_ _. True)"
    if "map_of (cj_Entries j) (nr_ID n) = Some e" "entry_state e = ''preparing''" for e
  proof (cases "nr_ID n = ct_NodeID (ce_Transaction e)")
    case True
    then show ?thesis
      using that loaded_work [of P j _ "nr_ID n" e] by (intro triple_pre [OF prepare_gateway_triple]) (auto simp: coverageActive_def)
  next
    case False
    then show ?thesis using that by (intro triple_False) (auto simp: loaded_def journal_true_def)
  qed
  then show ?thesis
    unfolding prepareCoverage_def Let_def
    by (auto intro!: triple_Return [OF rob] create_entry_triple assms split: option.splits)
qed

section \<open>Applying\<close>

lemma apply_node_triple:
  assumes "nr_ID n = ct_NodeID (ce_Transaction e)"
  shows "triple P sz (work P j e) (apply_node n e) (\<lambda>(e', err) w. work P j e' w \<and> same_entry e e' \<and> entry_state e' = entry_state e)"
    (is "triple P sz _ _ ?Q")
proof -
  have rob: "robust P (work P j e)" by (intro sturdy_all)
  have answer: "triple P sz (\<lambda>w. work P j e w \<and> heard P (nr_ID n) a w)
      (Return (case matchingParticipant a (cp_ID (ce_Node e)) [''applied''] of (p, err) \<Rightarrow> (e\<lparr>ce_Node := p\<rparr>, err))) ?Q" for a
  proof (cases "matchingParticipant a (cp_ID (ce_Node e)) [''applied'']")
    case (Pair p err)
    then show ?thesis
      using matchingParticipant_ok [of a "cp_ID (ce_Node e)" "[''applied'']" p] matchingParticipant_failed [of a "cp_ID (ce_Node e)" "[''applied'']" p]
      by (cases err) (auto simp: assms intro!: triple_Return sturdy_all intro: work_heard work_unknown)
  qed
  show ?thesis
    unfolding apply_node_def Let_def
    by (intro triple_Now [OF rob] triple_if triple_Return [OF rob] triple_Remote [OF rob]) (simp_all add: answer triple_Return [OF rob])
qed

lemma apply_participants_triple:
  assumes "nr_ID n = ct_NodeID (ce_Transaction e)" and "coverageActive e"
  shows "triple P sz (work P j e) (apply_participants j n e timeout)
    (\<lambda>(e', err) w. work P j e' w \<and> same_entry e e' \<and> entry_state e' = entry_state e)"
    (is "triple P sz _ _ ?Q")
proof -
  have rob: "robust P (work P j e)" by (intro sturdy_all)
  have ret: "triple P sz (work P j e) (Return (e\<lparr>ce_Gateway := g\<rparr>, err)) ?Q" for g err
    by (auto intro: triple_Return [OF rob])
  have node: "triple P sz (work P j e) (apply_node n (e\<lparr>ce_Gateway := g\<rparr>)) ?Q" for g
    using apply_node_triple [of n "e\<lparr>ce_Gateway := g\<rparr>" sz j] assms(1) by (simp add: same_entry_def)
  have save: "triple P sz (work P j e) (Save (put_entry (e\<lparr>ce_Gateway := g\<rparr>) j)
      (\<lambda>err. case err of Some err' \<Rightarrow> Return (e\<lparr>ce_Gateway := g\<rparr>, Some err') | None \<Rightarrow> apply_node n (e\<lparr>ce_Gateway := g\<rparr>))) ?Q" for g
  proof (rule triple_Save [OF rob, where B = "work P j e"], goal_cases)
    case (1 w)
    then show ?case using assms(2) by (intro work_journal_true) (simp_all add: coverageActive_def)
  next
    case 3
    show ?case by (simp, rule triple_pre [OF node]) simp
  qed (simp_all add: ret)
  have "triple P sz (work P j e) (case matchingParticipant a (cp_ID (ce_Gateway e)) [''applied''] of (g, err) \<Rightarrow>
      let e1 = e\<lparr>ce_Gateway := g\<rparr> in (case err of Some err' \<Rightarrow> Return (e1, Some err')
        | None \<Rightarrow> Save (put_entry e1 j) (\<lambda>err. case err of Some err' \<Rightarrow> Return (e1, Some err') | None \<Rightarrow> apply_node n e1))) ?Q" for a
    by (simp add: Let_def ret save split: prod.split option.split)
  moreover have "triple P sz (work P j e) (Return (e, err)) ?Q" for err
    by (auto intro: triple_Return [OF rob])
  ultimately show ?thesis
    unfolding apply_participants_def by (intro triple_Gateway_quiet [OF rob]) (auto split: sum.split)
qed

lemma settle_apply_triple:
  assumes "nr_ID n = ct_NodeID (ce_Transaction e)"
  shows "triple P sz (work P j e) (settle_apply j n e err) (\<lambda>_ _. True)"
proof -
  have rob: "robust P (work P j e)" by (intro sturdy_all)
  have true: "robust P (\<lambda>_. True)" by (intro sturdy_all)
  have "triple P sz (work P j e) (rollbackCoverage j n (set_error c e)) (\<lambda>_ _. True)" for c
    using rollbackCoverage_triple [of n "set_error c e" sz j] assms by simp
  then show ?thesis
    unfolding settle_apply_def Let_def
    by (auto intro!: triple_bind triple_Return [OF true] triple_Return sturdy_all triple_Save [OF rob, where B = "work P j e"] work_journal_true
        simp: coverageActive_def triple_pure split: option.split prod.split)
qed

lemma start_apply_triple:
  assumes "nr_ID n = ct_NodeID (ce_Transaction e)"
  shows "triple P sz (work P j e) (start_apply j n e timeout) (\<lambda>_ _. True)"
proof -
  have rob: "robust P (work P j e)" by (intro sturdy_all)
  have run: "triple P sz (work P j e) (bind_prog (apply_participants (put_entry x j) n x timeout) (\<lambda>(e2, err). settle_apply (put_entry x j) n e2 err))
      (\<lambda>_ _. True)" if x: "x = set_deadline d (set_state ''applying'' e)" for x d
  proof (rule triple_bind [where R = "\<lambda>(e', err) w. work P (put_entry x j) e' w \<and> same_entry x e' \<and> entry_state e' = entry_state x"])
    have "triple P sz (work P (put_entry x j) x) (apply_participants (put_entry x j) n x timeout)
       (\<lambda>(e', err) w. work P (put_entry x j) e' w \<and> same_entry x e' \<and> entry_state e' = entry_state x)"
      using assms x by (intro apply_participants_triple) (simp_all add: coverageActive_def)
    then show "triple P sz (work P j e) (apply_participants (put_entry x j) n x timeout)
       (\<lambda>(e', err) w. work P (put_entry x j) e' w \<and> same_entry x e' \<and> entry_state e' = entry_state x)"
      by (rule triple_pre) (simp add: x work_put)
    show "triple P sz (case y of (e', err) \<Rightarrow> \<lambda>w. work P (put_entry x j) e' w \<and> same_entry x e' \<and> entry_state e' = entry_state x)
        (case y of (e2, err) \<Rightarrow> settle_apply (put_entry x j) n e2 err) (\<lambda>_ _. True)" for y
      using assms x by (cases y) (auto intro!: triple_pure settle_apply_triple simp: same_entry_def)
  qed
  show ?thesis
    unfolding start_apply_def Let_def
  proof (intro triple_Now [OF rob] triple_Save [OF rob, where B = "work P j e"], goal_cases)
    case (1 now w)
    then show ?case by (intro work_journal_true) (simp_all add: coverageActive_def)
  next
    case (3 now)
    show ?case by (simp, rule triple_pre [OF run [OF refl]]) simp
  qed (simp_all add: triple_Return [OF rob])
qed

lemma applyCoverage_triple:
  assumes "\<And>i n. map_of (sv_records sv) i = Some n \<Longrightarrow> nr_ID n = i" and "nr_ID n = ct_NodeID (ce_Transaction e)"
  shows "triple P sz (work P j e) (applyCoverage sv j n e timeout) (\<lambda>_ _. True)"
proof -
  have rob: "robust P (work P j e)" by (intro sturdy_all)
  have valid: "triple P sz (work P j e) (bind_prog (validateCoverage sv fresh p g) (\<lambda>y. case y of
        Inl err \<Rightarrow> Return (e, Some err)
      | Inr (prepared, _) \<Rightarrow>
          if settings_changed prepared (ct_Plan (ce_Transaction e)) then Return (e, Some (Error_New ''wireless_prepared_settings_changed''))
          else start_apply j n e timeout)) (\<lambda>_ _. True)" for fresh p g
    by (rule triple_validateCoverage [OF rob]) (auto intro!: triple_Return [OF rob] start_apply_triple assms(2) split: sum.splits)
  show ?thesis
    unfolding applyCoverage_def
    by (intro triple_if triple_Return [OF rob] TrueI triple_service_node [OF rob assms(1)]) (simp_all add: valid triple_Return [OF rob])
qed

section \<open>Confirming\<close>

lemma finalize_gateway_triple:
  assumes "cp_State (ce_Node e) = ''confirmed''"
  shows "triple P sz (\<lambda>w. promised P j e w \<and> committed P (ct_NodeID (ce_Transaction e)) (cp_ID (ce_Node e)) w) (finalize_gateway j e) (\<lambda>_ _. True)"
    (is "triple P sz ?A _ _")
proof -
  have rob: "robust P ?A" by (intro robust_intros sturdy_robust [OF sturdy_committed])
  have "journal_true P (put_entry (set_error c (forget_passphrase (set_deadline 0 (set_state ''confirmed'' (e\<lparr>ce_Gateway := g\<rparr>))))) j) w"
    if "?A w" "matchingParticipant a (cp_ID (ce_Gateway e)) [''confirmed'', ''finalized''] = (g, None)" for a c g w
    using that matchingParticipant_ok [OF that(2)] assms
    by (intro journal_true_put) (auto simp: promised_def entry_true_def coverageActive_def kept_states_def record_true_def)
  then have save: "triple P sz ?A (let e' = set_error '''' (forget_passphrase (set_deadline 0 (set_state ''confirmed'' (e\<lparr>ce_Gateway := g\<rparr>)))) in
      Save (put_entry e' j) (\<lambda>err. Return (e', err))) (\<lambda>_ _. True)"
    if "matchingParticipant a (cp_ID (ce_Gateway e)) [''confirmed'', ''finalized''] = (g, None)" for a g
    unfolding Let_def using that
    by (intro triple_Save [OF rob, where B = ?A]) (auto intro!: triple_Return rob robust_intros sturdy_robust [OF sturdy_committed] sturdy_robust [OF sturdy_disk])
  show ?thesis
    unfolding finalize_gateway_def
    by (intro triple_Gateway_quiet [OF rob]) (auto intro!: triple_Return rob intro: save split: sum.split prod.split option.split)
qed

lemma commit_entry_triple:
  assumes "cp_State (ce_Node e) = ''confirmed''" and "entry_state e = ''confirming''"
  shows "triple P sz (\<lambda>w. promised P j e w \<and> committed P (ct_NodeID (ce_Transaction e)) (cp_ID (ce_Node e)) w) (commit_entry j e) (\<lambda>_ _. True)"
    (is "triple P sz ?A _ _")
proof -
  have rob: "robust P ?A" by (intro robust_intros sturdy_robust [OF sturdy_committed])
  show ?thesis
    unfolding commit_entry_def
  proof (rule triple_Save [OF rob, where B = ?A], goal_cases)
    case 3
    show ?case using assms(1) by (simp, intro triple_pre [OF finalize_gateway_triple]) (auto intro: promised_put)
  qed (use assms in \<open>auto intro!: promised_journal_true triple_Return rob\<close>)
qed

text \<open>The node's transaction has ended: the entry may be rolled back.\<close>

lemma promised_dead_work:
  assumes "promised P j e w" and "heard P (ct_NodeID (ce_Transaction e)) a w" and "an_transaction a = Some p" and "cp_State p \<in> set settled_states"
    and "cp_ID p \<noteq> ''''"
  shows "work P j (e\<lparr>ce_Node := p\<rparr>) w"
  using assms by (auto simp: promised_def work_def record_true_def node_free_def heard_def dead_def uncommitted_def open_state_def)

lemma promised_committed:
  assumes "promised P j e w" and "heard P (ct_NodeID (ce_Transaction e)) a w" and "an_transaction a = Some p" and "cp_State p = ''confirmed''"
  shows "promised P j (e\<lparr>ce_Node := p\<rparr>) w \<and> committed P (ct_NodeID (ce_Transaction e)) (cp_ID p) w"
  using assms by (auto simp: promised_def record_true_def heard_def settled_states_def)

lemma commit_heard_triple:
  assumes "an_transaction a = Some p" and "cp_State p = ''confirmed''" and "entry_state e = ''confirming''"
  shows "triple P sz (\<lambda>w. promised P j e w \<and> heard P (ct_NodeID (ce_Transaction e)) a w) (commit_entry j (e\<lparr>ce_Node := p\<rparr>)) (\<lambda>_ _. True)"
  using assms promised_committed [OF _ _ assms(1,2)] by (intro triple_pre [OF commit_entry_triple]) auto

lemma triple_then: "triple P sz A p (\<lambda>_ _. True) \<Longrightarrow> triple P sz A (bind_prog p (\<lambda>x. Return (f x))) (\<lambda>_ _. True)"
  by (rule triple_bind) (auto intro!: triple_Return sturdy_all)

lemma reconcile_node_triple:
  assumes "nr_ID n = ct_NodeID (ce_Transaction e)" and "entry_state e = ''confirming''"
  shows "triple P sz (promised P j e) (reconcile_node j n e) (\<lambda>_ _. True)"
proof -
  have rob: "robust P (promised P j e)" by (intro robust_intros)
  have robh: "robust P (\<lambda>w. promised P j e w \<and> heard P (nr_ID n) a w)" for a by (intro robust_intros sturdy_robust [OF sturdy_heard(1)])
  have rollback: "triple P sz (\<lambda>w. promised P j e w \<and> heard P (nr_ID n) a w) (rollbackCoverage j n (set_error c (e\<lparr>ce_Node := p\<rparr>))) (\<lambda>_ _. True)"
    if "an_transaction a = Some p" "cp_State p \<in> set settled_states" "cp_ID p \<noteq> ''''" for a p c
    using promised_dead_work [OF _ _ that] assms(1) by (intro triple_pre [OF rollbackCoverage_triple]) auto
  have "triple P sz (\<lambda>w. promised P j e w \<and> heard P (nr_ID n) a w)
      (case matchingParticipant a (cp_ID (ce_Node e)) [''confirmed'', ''rolled-back'', ''failed'', ''applied''] of
            (_, Some err) \<Rightarrow> Return (e, Some err)
          | (p, None) \<Rightarrow>
              let e1 = e\<lparr>ce_Node := p\<rparr> in
              if cp_State p = ''rolled-back'' \<or> cp_State p = ''failed''
              then bind_prog (rollbackCoverage j n (set_error ''node_confirmation_failed'' e1)) (\<lambda>(e2, err).
                     Return (e2, Some (case err of Some err' \<Rightarrow> err' | None \<Rightarrow> Error_New ''node_confirmation_failed_and_rolled_back'')))
              else if cp_State p \<noteq> ''confirmed'' then Return (e1, Some (Error_New ''node_confirmation_pending''))
              else commit_entry j e1) (\<lambda>_ _. True)" for a
  proof (cases "matchingParticipant a (cp_ID (ce_Node e)) [''confirmed'', ''rolled-back'', ''failed'', ''applied'']")
    case (Pair p err)
    show ?thesis
    proof (cases err)
      case None
      with Pair have p: "an_transaction a = Some p" "cp_ID p \<noteq> ''''" using matchingParticipant_ok by fastforce+
      show ?thesis
        unfolding Pair None split_beta fst_conv snd_conv option.case Let_def
        using rollback [OF p(1) _ p(2)] commit_heard_triple [OF p(1) _ assms(2)] assms(1)
        by (intro triple_if triple_Return [OF robh] triple_then) (auto simp: settled_states_def)
    qed (simp add: Pair triple_Return [OF robh])
  qed
  then show ?thesis
    unfolding reconcile_node_def by (intro triple_Remote [OF rob]) (simp_all add: triple_Return [OF rob])
qed

lemma confirm_node_triple:
  assumes "nr_ID n = ct_NodeID (ce_Transaction e)" and "entry_state e = ''confirming''"
  shows "triple P sz (\<lambda>w. promised P j e w \<and> disk_for e w) (confirm_node j n e) (\<lambda>_ _. True)"
proof -
  have rob: "robust P (\<lambda>w. promised P j e w \<and> disk_for e w)" by (intro robust_intros sturdy_robust [OF sturdy_disk_for])
  have robh: "robust P (\<lambda>w. promised P j e w \<and> heard P (nr_ID n) a w)" for a by (intro robust_intros sturdy_robust [OF sturdy_heard(1)])
  have answer: "triple P sz (\<lambda>w. promised P j e w \<and> heard P (nr_ID n) a w)
      (case matchingParticipant a (cp_ID (ce_Node e)) [''confirmed''] of
         (p, Some err) \<Rightarrow> Return (e\<lparr>ce_Node := p\<rparr>, Some err)
       | (p, None) \<Rightarrow> commit_entry j (e\<lparr>ce_Node := p\<rparr>)) (\<lambda>_ _. True)" for a
    using assms commit_heard_triple [of a _ e sz j]
    by (auto dest!: matchingParticipant_ok intro!: triple_Return robust_intros sturdy_robust [OF sturdy_heard(1)] split: prod.split option.split)
  have keep: "promised P j e w'" if "cov_inv P w" "promised P j e w" "moves P C w w'" "cw_gateway w' = cw_gateway w" for w w' C
    using that moves_others_true [OF that(3,1)] moves_record_true [OF that(3)] gw_holds_same [OF that(4), of P] by (simp add: promised_def)
  show ?thesis
    unfolding confirm_node_def
  proof (rule triple_Remote_confirm [OF rob, where B = "promised P j e" and G = "cp_ID (ce_Gateway e)"], goal_cases)
    case (1 w)
    then show ?case using assms(1) by (auto simp: may_confirm_def disk_for_def promised_def)
  next
    case (2 w w' C)
    then show ?case by (blast intro: keep)
  next
    case (3 err)
    show ?case by (simp add: reconcile_node_triple assms)
  next
    case (4 a)
    show ?case by (simp add: answer)
  qed
qed

text \<open>The gateway has ended the transaction: it does not keep it, so no confirmation was sent.\<close>

lemma deciding_ended:
  assumes "deciding P j e w" and "gw_told P a w" and "an_transaction a = Some g" and "cp_ID g = cp_ID (ce_Gateway e)"
    and "cp_State g \<notin> set kept_states"
  shows "work P j e w"
  using assms by (auto simp: deciding_def work_def gw_told_def gw_holds_def)

lemma deciding_kept:
  assumes "deciding P j e w" and "gw_told P a w" and "an_transaction a = Some g" and "cp_ID g = cp_ID (ce_Gateway e)"
    and "cp_State g \<in> set kept_states"
  shows "promised P j (e\<lparr>ce_Gateway := g\<rparr>) w"
  using assms by (auto simp: deciding_def promised_def gw_told_def gw_holds_def)

lemma reconcile_gateway_triple:
  assumes "nr_ID n = ct_NodeID (ce_Transaction e)"
  shows "triple P sz (deciding P j e) (reconcile_gateway j n e) (\<lambda>_ _. True)"
proof -
  let ?m = "\<lambda>a. matchingParticipant a (cp_ID (ce_Gateway e)) [''rolled-back'', ''failed'']"
  let ?B = "\<lambda>a w. snd (?m a) = None \<longrightarrow> work P j e w"
  have rob: "robust P (deciding P j e)" by (intro robust_intros)
  have robB: "robust P (?B a)" for a by (intro sturdy_all)
  have told: "?B a w" if "deciding P j e w" "gw_told P a w" for a w
  proof
    assume "snd (?m a) = None"
    then obtain g where "?m a = (g, None)" by (cases "?m a") auto
    from matchingParticipant_ok [OF this] that show "work P j e w"
      by (auto simp: kept_states_def intro: deciding_ended)
  qed
  have rollback: "triple P sz (?B a) (rollbackCoverage j n (set_error c (e\<lparr>ce_Gateway := g\<rparr>))) (\<lambda>_ _. True)" if "?m a = (g, None)" for a c g
    using that assms by (intro triple_pre [OF rollbackCoverage_triple]) auto
  have "triple P sz (?B a) (case ?m a of
        (_, Some _) \<Rightarrow> Return (e, Some (Error_New ''gateway_confirmation_pending''))
      | (g, None) \<Rightarrow> bind_prog (rollbackCoverage j n (set_error ''gateway_confirmation_failed'' (e\<lparr>ce_Gateway := g\<rparr>))) (\<lambda>(e2, err).
          Return (e2, Some (case err of Some err' \<Rightarrow> err' | None \<Rightarrow> Error_New ''gateway_confirmation_failed_and_rolled_back''))))
      (\<lambda>_ _. True)" for a
  proof (cases "?m a")
    case (Pair g err)
    show ?thesis
    proof (cases err)
      case None
      show ?thesis
        unfolding split_beta Pair None fst_conv snd_conv option.case
        using triple_then [OF rollback [OF Pair [unfolded None]]] by (simp add: Pair None)
    qed (simp add: Pair triple_Return [OF sturdy_robust [OF sturdy_const]])
  qed
  then show ?thesis
    unfolding reconcile_gateway_def Let_def
    by (intro triple_Gateway [OF rob, where B = ?B]) (simp_all add: told triple_Return [OF rob])
qed

lemma confirm_participants_triple:
  assumes "nr_ID n = ct_NodeID (ce_Transaction e)" and "entry_state e = ''confirming''"
  shows "triple P sz (deciding P j e) (confirm_participants j n e) (\<lambda>_ _. True)"
proof -
  let ?m = "\<lambda>a. matchingParticipant a (cp_ID (ce_Gateway e)) [''confirmed'', ''finalized'']"
  let ?B = "\<lambda>a w. snd (?m a) = None \<longrightarrow> promised P j (e\<lparr>ce_Gateway := fst (?m a)\<rparr>) w"
  have rob: "robust P (deciding P j e)" by (intro robust_intros)
  have told: "?B a w" if "deciding P j e w" "gw_told P a w" for a w
  proof
    assume "snd (?m a) = None"
    then obtain g where g: "?m a = (g, None)" by (cases "?m a") auto
    from matchingParticipant_ok [OF this] that show "promised P j (e\<lparr>ce_Gateway := fst (?m a)\<rparr>) w"
      unfolding g fst_conv by (intro deciding_kept) (auto simp: kept_states_def)
  qed
  have save: "triple P sz (promised P j x) (Save (put_entry x j) (\<lambda>err. case err of Some err' \<Rightarrow> Return (x, Some err')
      | None \<Rightarrow> confirm_node (put_entry x j) n x)) (\<lambda>_ _. True)" if x: "x = e\<lparr>ce_Gateway := g\<rparr>" for x g
  proof (rule triple_Save [OF robust_promised, where B = "promised P j x"], goal_cases)
    case 3
    show ?case using assms x
      by (simp, intro triple_pre [OF confirm_node_triple]) (auto intro: promised_put put_disk_for)
  qed (use assms x in \<open>auto intro!: promised_journal_true triple_Return robust_intros\<close>)
  have "triple P sz (?B a) (case ?m a of
        (g, Some err) \<Rightarrow> Return (e\<lparr>ce_Gateway := g\<rparr>, Some err)
      | (g, None) \<Rightarrow> let e1 = e\<lparr>ce_Gateway := g\<rparr> in
          Save (put_entry e1 j) (\<lambda>err. case err of Some err' \<Rightarrow> Return (e1, Some err') | None \<Rightarrow> confirm_node (put_entry e1 j) n e1))
      (\<lambda>_ _. True)" for a
  proof (cases "?m a")
    case (Pair g err)
    show ?thesis
    proof (cases err)
      case None
      show ?thesis
        unfolding split_beta Pair None fst_conv snd_conv option.case Let_def using save [OF refl, of g] by simp
    qed (simp add: Pair triple_Return [OF sturdy_robust [OF sturdy_const]])
  qed
  then show ?thesis
    unfolding confirm_participants_def
    by (intro triple_Gateway [OF rob, where B = ?B]) (simp_all add: told reconcile_gateway_triple assms)
qed

lemma begin_confirm_triple:
  assumes "nr_ID n = ct_NodeID (ce_Transaction e)"
  shows "triple P sz (work P j e) (let e1 = set_state ''confirming'' e in
    Save (put_entry e1 j) (\<lambda>err. case err of Some err' \<Rightarrow> Return (e1, Some err') | None \<Rightarrow> confirm_participants (put_entry e1 j) n e1)) (\<lambda>_ _. True)"
proof -
  have rob: "robust P (work P j e)" by (intro sturdy_all)
  define e1 where "e1 = set_state ''confirming'' e"
  have "deciding P (put_entry e1 j) e1 w" if "work P j e1 w" "cw_disk w = Some (put_entry e1 j)" for w
    using that by (auto simp: work_def deciding_def e1_def intro!: others_true_put put_disk_for)
  then have "triple P sz (\<lambda>w. work P j e1 w \<and> cw_disk w = Some (put_entry e1 j)) (confirm_participants (put_entry e1 j) n e1) (\<lambda>_ _. True)"
    using assms by (intro triple_pre [OF confirm_participants_triple]) (auto simp: e1_def)
  then show ?thesis
    unfolding Let_def e1_def [symmetric]
    by (intro triple_Save [OF rob, where B = "work P j e"])
      (auto simp: e1_def coverageActive_def intro!: work_journal_true triple_Return rob)
qed

lemma loaded_deciding:
  assumes "loaded P j w" and "map_of (cj_Entries j) i = Some e" and "entry_state e = ''confirming''"
  shows "deciding P j e w"
  using loaded_unique [OF assms(1,2) confirming_active [OF assms(3)]] assms confirming_active [OF assms(3)]
  by (auto simp: deciding_def entry_true_def disk_for_def loaded_def)

lemma confirmCoverage_triple:
  assumes reg: "\<And>i n. map_of (sv_records sv) i = Some n \<Longrightarrow> nr_ID n = i" and n: "nr_ID n = ct_NodeID (ce_Transaction e)"
    and e: "map_of (cj_Entries j) i = Some e"
  shows "triple P sz (loaded P j) (confirmCoverage sv j n e) (\<lambda>_ _. True)"
proof (cases "entry_state e = ''applied''")
  case True
  have rob: "robust P (work P j e)" by (intro sturdy_all)
  have valid: "triple P sz (work P j e) (bind_prog (validateCoverage sv fresh p g) (\<lambda>y. case y of
      Inl err \<Rightarrow> Return (e, Some err) | Inr _ \<Rightarrow> let e1 = set_state ''confirming'' e in
        Save (put_entry e1 j) (\<lambda>err. case err of Some err' \<Rightarrow> Return (e1, Some err') | None \<Rightarrow> confirm_participants (put_entry e1 j) n e1)))
      (\<lambda>_ _. True)" for fresh p g
    by (rule triple_validateCoverage [OF rob]) (simp add: triple_Return [OF rob] begin_confirm_triple [OF n] split: sum.split)
  have "triple P sz (work P j e) (confirmCoverage sv j n e) (\<lambda>_ _. True)"
    unfolding confirmCoverage_def split_beta using True
    by (simp only: list.inject char.inject HOL.simp_thms if_False if_True)
      (intro triple_if triple_Now [OF rob] triple_then [OF rollbackCoverage_triple [OF n]] triple_service_node [OF rob reg];
       simp add: valid triple_Return [OF rob])
  then show ?thesis
    using loaded_work [OF _ e] True by (auto simp: coverageActive_def undoing_def intro: triple_pre)
next
  case False
  then show ?thesis
    unfolding confirmCoverage_def
    using confirm_participants_triple [OF n] loaded_deciding [OF _ e] by (auto intro!: triple_Return robust_intros intro: triple_pre)
qed

section \<open>The calls of the service\<close>

lemma addGatewaySetup_triple: "robust P A \<Longrightarrow> triple P sz A (addGatewaySetup sv) (\<lambda>_. A)"
  unfolding addGatewaySetup_def by (auto intro!: triple_Return triple_Gateway_quiet)

lemma harmless_actions:
  assumes "robust P A"
  shows "triple P sz A (statusCoverage sv n e) (\<lambda>_ _. True)" "triple P sz A (validate_participants n e) (\<lambda>_ _. True)"
proof -
  have h: "robust P (\<lambda>w. A w \<and> heard P i a w)" for i a
    using assms by (intro robust_intros sturdy_robust [OF sturdy_heard(1)])
  show "triple P sz A (statusCoverage sv n e) (\<lambda>_ _. True)"
    unfolding statusCoverage_def
    by (rule triple_bind [OF addGatewaySetup_triple [OF assms]], rule triple_Gateway_quiet [OF assms], simp, rule triple_Remote [OF assms])
      (simp_all add: triple_Return assms h)
  show "triple P sz A (validate_participants n e) (\<lambda>_ _. True)"
    unfolding validate_participants_def
    by (rule triple_Gateway_quiet [OF assms], simp) (auto intro!: triple_Return triple_Remote assms h split: sum.split)
qed

lemma act_on_entry_triple:
  assumes reg: "\<And>i n. map_of (sv_records sv) i = Some n \<Longrightarrow> nr_ID n = i" and n: "nr_ID n = i" and e: "map_of (cj_Entries j) i = Some e"
  shows "triple P sz (loaded P j) (act_on_entry sv j n e q) (\<lambda>_ _. True)"
proof (cases "ct_NodeID (ce_Transaction e) = i")
  case False
  then show ?thesis using e by (intro triple_False) (auto simp: loaded_def journal_true_def)
next
  case True
  have n': "nr_ID n = ct_NodeID (ce_Transaction e)" using n True by simp
  have rob: "robust P (loaded P j)" by (intro robust_intros)
  have w: "triple P sz (loaded P j) p (\<lambda>_ _. True)" if "triple P sz (work P j e) p (\<lambda>_ _. True)" "coverageActive e" "entry_state e \<noteq> ''confirming''"
    for p :: "(coverage_entry \<times> go_error option) prog"
    using that loaded_work [OF _ e] by (intro triple_pre [OF that(1)]) (auto simp: undoing_def)
  have "triple P sz (loaded P j) (applyCoverage sv j n e t) (\<lambda>_ _. True)" for t
  proof (cases "entry_state e = ''prepared''")
    case True
    then show ?thesis by (intro w applyCoverage_triple reg n') (auto simp: coverageActive_def)
  qed (simp add: applyCoverage_def triple_Return [OF rob])
  moreover have "triple P sz (loaded P j) (rollbackCoverage j n e) (\<lambda>_ _. True)"
    if "entry_state e \<noteq> ''confirmed''" "entry_state e \<noteq> ''confirming''"
  proof (cases "entry_state e = ''rolled-back''")
    case False
    then show ?thesis using that by (intro w rollbackCoverage_triple n') (auto simp: coverageActive_def)
  qed (simp add: rollbackCoverage_def triple_Return [OF rob])
  ultimately show ?thesis
    unfolding act_on_entry_def Let_def split_beta
    by (auto intro!: triple_then triple_Return [OF rob] harmless_actions [OF rob] confirmCoverage_triple reg n' e)
qed

lemma operate_loaded_triple:
  assumes reg: "\<And>i n. map_of (sv_records sv) i = Some n \<Longrightarrow> nr_ID n = i" and e: "entry = map_of (cj_Entries j) i"
  shows "triple P sz (loaded P j) (operate_loaded sv i q j entry) (\<lambda>x w. x = None \<longrightarrow> no_entry i w)"
proof -
  have rob: "robust P (loaded P j)" by (intro robust_intros)
  have some: "triple P sz (loaded P j) (bind_prog p (\<lambda>x. Return (Some x))) (\<lambda>x w. x = None \<longrightarrow> no_entry i w)"
    if "triple P sz (loaded P j) p (\<lambda>_ _. True)" for p :: "coverage_result prog"
    by (rule triple_bind [OF that]) (auto intro!: triple_Return sturdy_all)
  have none: "no_entry i w" if "loaded P j w" "map_of (cj_Entries j) i = None" for w
    using that by (auto simp: loaded_def no_entry_def)
  have act: "triple P sz (loaded P j) (if wirelessPrepare q then prepareCoverage sv j n q else act_on_entry sv j n (the entry) q) (\<lambda>_ _. True)"
    if "nr_ID n = i" "wirelessPrepare q \<or> entry \<noteq> None" for n
    using that e by (intro triple_if prepareCoverage_triple [OF reg] act_on_entry_triple [OF reg]) auto
  have paired: "triple P sz (loaded P j) (case pairedRecord sv i of
        Inl err \<Rightarrow> Return (Some (None, Some err))
      | Inr n \<Rightarrow> bind_prog (if wirelessPrepare q then prepareCoverage sv j n q else act_on_entry sv j n (the entry) q) (\<lambda>x. Return (Some x)))
      (\<lambda>x w. x = None \<longrightarrow> no_entry i w)" if "wirelessPrepare q \<or> entry \<noteq> None"
  proof (cases "map_of (sv_records sv) i")
    case (Some n)
    then show ?thesis using some [OF act [OF reg [OF Some] that]] by (simp add: pairedRecord_def)
  qed (simp add: pairedRecord_def triple_Return [OF rob])
  show ?thesis
    unfolding operate_loaded_def
    by (intro triple_if triple_Return [OF rob] paired) (use none e in auto)
qed

lemma operate_journal_triple:
  assumes reg: "\<And>i n. map_of (sv_records sv) i = Some n \<Longrightarrow> nr_ID n = i"
  shows "triple P sz (loaded P j) (operate_journal sv i q j) (\<lambda>x w. x = None \<longrightarrow> no_entry i w)"
    (is "triple P sz _ _ ?Q")
proof -
  have true: "robust P (\<lambda>_. True)" by (intro sturdy_all)
  have rob: "robust P (loaded P j)" by (intro robust_intros)
  have "triple P sz (loaded P j) (let j' = j\<lparr>cj_Entries := AList.delete i (cj_Entries j)\<rparr> in
      Save j' (\<lambda>err. case err of Some err' \<Rightarrow> Return (Some (None, Some err')) | None \<Rightarrow> operate_loaded sv i q j' None)) ?Q"
    unfolding Let_def
  proof (rule triple_Save [OF rob, where B = "\<lambda>_. True"], goal_cases)
    case 3
    show ?case
      by (simp, intro triple_pre [OF operate_loaded_triple [OF reg]]) (auto simp: loaded_def cov_inv_def delete_conv')
  qed (auto intro: loaded_delete triple_Return true)
  then show ?thesis
    using operate_loaded_triple [OF reg, where j = j and i = i]
    by (auto simp: operate_journal_def intro!: triple_Return [OF rob] split: option.split)
qed

lemma triple_with_coverage:
  assumes "\<And>j. triple P sz (loaded P j) (body j) Q" and "\<And>err w. Q (fail err) w"
  shows "triple P sz (\<lambda>_. True) (with_coverage sv fail body) Q"
proof -
  have true: "robust P (\<lambda>_. True)" by (intro sturdy_all)
  have load: "loaded P j w" if "loadCoverage sv (Inr d) = Inr j" "cw_disk w = d" "cov_inv P w" for d j w
    using that by (auto simp: loadCoverage_def Let_def loaded_def cov_inv_def journal_true_def split: option.splits if_splits)
  have "triple P sz (\<lambda>w. True \<and> cw_disk w = d) (case loadCoverage sv (Inr d) of Inl err \<Rightarrow> Return (fail err) | Inr j \<Rightarrow> body j) Q" for d
    using triple_pre [OF assms(1)] load [of d] assms(2) by (cases "loadCoverage sv (Inr d)") (auto intro!: triple_Return sturdy_all)
  then show ?thesis
    unfolding with_coverage_def
    by (intro triple_Lock [OF true]) (auto simp: loadCoverage_def assms(2) intro!: triple_Return [OF true] triple_Read [OF true] split: option.split)
qed

lemma recover_entries_triple:
  assumes reg: "\<And>i n. map_of (sv_records sv) i = Some n \<Longrightarrow> nr_ID n = i" and "set es \<subseteq> set (cj_Entries j)"
  shows "triple P sz (loaded P j) (recover_entries sv j es) (\<lambda>_ _. True)"
  using assms(2)
proof (induction es)
  case Nil
  show ?case by (auto intro!: triple_Return robust_intros)
next
  case (Cons x es)
  obtain i e where x: "x = (i, e)" by (cases x)
  have rob: "robust P (loaded P j)" by (intro robust_intros)
  have rest: "triple P sz (loaded P j) (recover_entries sv j es) (\<lambda>_ _. True)" using Cons by simp
  show ?case
  proof (cases "coverageActive e \<and> map_of (cj_Entries j) i = Some e \<and> ct_NodeID (ce_Transaction e) = i")
    case True
    have act: "triple P sz (loaded P j) (bind_prog (confirmCoverage sv j n e) (\<lambda>x. Return (snd x))) (\<lambda>_ _. True)"
      "entry_state e \<noteq> ''confirming'' \<Longrightarrow> triple P sz (loaded P j) (bind_prog (rollbackCoverage j n e) (\<lambda>x. Return (snd x))) (\<lambda>_ _. True)"
      if "nr_ID n = i" for n
      using that True loaded_work [of P j _ i e]
      by (auto intro!: triple_then confirmCoverage_triple [OF reg] intro: triple_pre [OF rollbackCoverage_triple] simp: undoing_def)
    show ?thesis
      using True rest unfolding x recover_entries.simps split_beta pairedRecord_def
      by (auto simp: reg intro!: triple_Return [OF rob] triple_Now [OF rob] act split: option.split)
  next
    case False
    then show ?thesis
    proof (cases "coverageActive e")
      case True
      then have "\<not> loaded P j w" for w
        using False Cons.prems by (auto simp: x loaded_def journal_true_def gomap_ok_set)
      then show ?thesis by (intro triple_False) simp
    qed (simp add: x rest)
  qed
qed

lemma operate_direct_triple:
  assumes reg: "\<And>i n. map_of (sv_records sv) i = Some n \<Longrightarrow> nr_ID n = i"
  shows "triple P sz (no_entry i) (operate_direct sv i q) (\<lambda>_ _. True)"
proof -
  have rob: "robust P (no_entry i)" by (intro sturdy_all)
  have heard: "robust P (\<lambda>w. no_entry i w \<and> heard P k a w)" for k a by (intro sturdy_all)
  have send: "triple P sz (no_entry i) (Remote n x (\<lambda>y. Return (Direct y []))) (\<lambda>_ _. True)" if "nr_ID n = i" for n x
  proof (rule triple_Remote_confirm [OF rob, where B = "no_entry i" and G = "''''"], goal_cases)
    case (1 w)
    then show ?case using that by (auto simp: may_confirm_def no_entry_def)
  next
    case (2 w w' C)
    then show ?case by (simp add: no_entry_def)
  qed (simp_all add: triple_Return rob heard)
  have status: "triple P sz (no_entry i) (Remote n (node_request ''status'') (\<lambda>y. case y of
      Inl err \<Rightarrow> Return (Direct (Inl err) [])
    | Inr a \<Rightarrow> bind_prog (addGatewaySetup sv) (\<lambda>setup. Return (Direct (Inr a) ((''gateway_fingerprint'', Some (sv_fingerprint sv)) # setup)))))
    (\<lambda>_ _. True)" for n
    by (rule triple_Remote [OF rob]) (simp_all add: triple_Return rob heard triple_bind [OF addGatewaySetup_triple [OF heard]])
  have prepare: "triple P sz (no_entry i) (case co_Plan q of
        None \<Rightarrow> Return (Direct (Inl (Error_New ''node_plan_required'')) [])
      | Some p \<Rightarrow> Gateway_capabilities (\<lambda>caps. case node_ValidatePlan p caps (nr_Capabilities n) of
          Some err \<Rightarrow> Return (Direct (Inl err) []) | None \<Rightarrow> Remote n (direct_request q) (\<lambda>y. Return (Direct y [])))) (\<lambda>_ _. True)"
    if "nr_ID n = i" for n
    by (simp add: triple_Return rob triple_Gateway_capabilities send [OF that] split: option.split)
  have body: "triple P sz (no_entry i) (case Inr n of Inl err \<Rightarrow> Return (Direct (Inl err) []) | Inr n \<Rightarrow>
      if co_Action q = ''prepare''
      then (case co_Plan q of
        None \<Rightarrow> Return (Direct (Inl (Error_New ''node_plan_required'')) [])
      | Some p \<Rightarrow> Gateway_capabilities (\<lambda>caps. case node_ValidatePlan p caps (nr_Capabilities n) of
          Some err \<Rightarrow> Return (Direct (Inl err) []) | None \<Rightarrow> Remote n (direct_request q) (\<lambda>y. Return (Direct y []))))
      else if co_Action q = ''status''
      then Remote n (node_request ''status'') (\<lambda>y. case y of
              Inl err \<Rightarrow> Return (Direct (Inl err) [])
            | Inr a \<Rightarrow> bind_prog (addGatewaySetup sv) (\<lambda>setup. Return (Direct (Inr a) ((''gateway_fingerprint'', Some (sv_fingerprint sv)) # setup))))
      else Remote n (direct_request q) (\<lambda>y. Return (Direct y []))) (\<lambda>_ _. True)" if "nr_ID n = i" for n
    unfolding sum.case by (intro triple_if status prepare send that)
  show ?thesis
    unfolding operate_direct_def Let_def
    by (rule triple_service_node [OF rob reg]) (assumption, simp add: triple_Return [OF rob], erule body)
qed

lemma Operate_triple:
  assumes reg: "\<And>i n. map_of (sv_records sv) i = Some n \<Longrightarrow> nr_ID n = i"
  shows "triple P sz (\<lambda>_. True) (Operate sv i action q) (\<lambda>_ _. True)"
proof -
  have true: "robust P (\<lambda>_. True)" by (intro sturdy_all)
  have "triple P sz (\<lambda>_. True) (operateCoverage sv i x) (\<lambda>y w. y = None \<longrightarrow> no_entry i w)" for x
    unfolding operateCoverage_def by (rule triple_with_coverage [OF operate_journal_triple [OF reg]]) simp_all
  moreover have "triple P sz (\<lambda>w. y = None \<longrightarrow> no_entry i w)
      (case y of Some res \<Rightarrow> Return (Covered res) | None \<Rightarrow> operate_direct sv i x) (\<lambda>_ _. True)" for x y
    by (cases y) (simp_all add: operate_direct_triple [OF reg] triple_Return [OF true])
  ultimately show ?thesis
    unfolding Operate_def Let_def by (intro triple_if triple_Return [OF true] TrueI triple_bind)
qed

lemma Plan_triple:
  assumes reg: "\<And>i n. map_of (sv_records sv) i = Some n \<Longrightarrow> nr_ID n = i"
  shows "triple P sz (\<lambda>_. True) (Plan sv i p gateway) (\<lambda>_ _. True)"
proof -
  have true: "robust P (\<lambda>_. True)" by (intro sturdy_all)
  have "triple P sz (\<lambda>_. True) (bind_prog (service_node sv i) (\<lambda>x. case x of Inl err \<Rightarrow> Return (Inl err) | Inr n \<Rightarrow>
        Gateway_capabilities (\<lambda>caps. Return (case node_ValidatePlan p caps (nr_Capabilities n) of
          Some err \<Rightarrow> Inl err | None \<Rightarrow> Inr (RedactPlan p, None))))) (\<lambda>_ _. True)"
    by (rule triple_service_node [OF true reg]) (simp_all add: triple_Return true triple_Gateway_capabilities)
  then show ?thesis
    unfolding Plan_def by (intro triple_if triple_then planCoverage_triple [OF true reg])
qed

lemma recoverCoverage_triple:
  assumes reg: "\<And>i n. map_of (sv_records sv) i = Some n \<Longrightarrow> nr_ID n = i"
  shows "triple P sz (\<lambda>_. True) (recoverCoverage sv) (\<lambda>_ _. True)"
  unfolding recoverCoverage_def by (rule triple_with_coverage [OF recover_entries_triple [OF reg]]) simp_all

lemma task_triple:
  assumes reg: "\<And>i n. map_of (sv_records sv) i = Some n \<Longrightarrow> nr_ID n = i"
  shows "triple P sz (\<lambda>_. True) (task_prog sv t) (\<lambda>_ _. True)"
  by (cases t) (simp_all add: task_prog_def triple_then Operate_triple [OF reg] Plan_triple [OF reg] recoverCoverage_triple [OF reg])

text \<open>Every configuration of a run is safe.\<close>

lemma run_safe:
  assumes "coverage_run P sv w0 p w" and "cov_inv P w0" and reg: "\<And>i n. map_of (sv_records sv) i = Some n \<Longrightarrow> nr_ID n = i"
  shows "safe P (sv_size sv) (\<lambda>_ _. True) p w"
  using assms(1)
proof (induction rule: coverage_run.induct)
  case cov_start
  have "triple P (sv_size sv) (\<lambda>_. True) (Return ()) (\<lambda>_ _. True)" by (auto intro: triple_Return sturdy_all)
  then show ?case using assms(2) by (auto intro: tripleD)
next
  case (cov_task w t)
  then show ?case using tripleD [OF task_triple [OF reg]] safe_inv by blast
next
  case (cov_step p w p' w')
  then show ?case by (blast intro: safe_step)
next
  case (cov_background p w w')
  then show ?case by (blast intro: safe_background)
next
  case (cov_stopped p w)
  then show ?case by (blast intro: safe_stopped)
qed

lemma run_inv: "coverage_run P sv w0 p w \<Longrightarrow> cov_inv P w0 \<Longrightarrow> (\<And>i n. map_of (sv_records sv) i = Some n \<Longrightarrow> nr_ID n = i) \<Longrightarrow> cov_inv P w"
  using run_safe safe_inv by blast

end

end
