(* ===== verification/Coverage_Laws.thy ===== *)
theory Coverage_Laws
  imports Coverage_Proofs Gateway_Props Node_Props
begin

text \<open>
  The two transaction managers keep the contract the coordinator relies on: the interpretation of the
  locale \<open>coverage_parties\<close> on the models of \<^verbatim>\<open>internal/coverage\<close> and \<^verbatim>\<open>internal/node\<close>.
\<close>

section \<open>The managers as participants\<close>

definition journal_view :: "node_journal \<Rightarrow> (string \<times> string \<times> string) option" where
  "journal_view s = map_option (\<lambda>t. (nj_RequestKey s, nt_ID t, nt_State t)) (nj_Transaction s)"

definition node_view :: "'b node_world \<Rightarrow> (string \<times> string \<times> string) option" where
  "node_view w = (case w_disk w of None \<Rightarrow> None | Some s \<Rightarrow> journal_view s)"

definition gateway_view :: "'b gw_world \<Rightarrow> (string \<times> string) option" where
  "gateway_view w = (case w_disk w of None \<Rightarrow> None | Some s \<Rightarrow> map_option (\<lambda>t. (tx_ID t, tx_State t)) (j_Transaction s))"

text \<open>The nodes run one program; their agents' identity, capabilities and device queries are parameters.\<close>

record 'b node_agent =
  ag_env :: "'b node_env"
  ag_identity :: string
  ag_capabilities :: string
  ag_queries :: "string \<Rightarrow> (string, string) gomap result"

definition agent_serve :: "'b node_agent \<Rightarrow> node_call \<Rightarrow> node_operation \<Rightarrow> 'b node_world \<Rightarrow> answer result \<times> 'b node_run" where
  "agent_serve g c q w = serve_node (ag_env g) (ag_identity g) (ag_capabilities g) (ag_queries g) c q (start_run w (nc_writes c))"

definition managers :: "'a gw_env \<Rightarrow> 'b node_agent \<Rightarrow> ('a gw_world, 'b node_world, node_call, call \<times> call) parties" where
  "managers env g =
     \<lparr>pa_node_view = node_view,
      pa_node_passes = (\<lambda>c q w. r_trace (case q of
        None \<Rightarrow> snd (node_Recover (ag_env g) c (start_run w (nc_writes c)))
      | Some x \<Rightarrow> snd (agent_serve g c x w))),
      pa_node_reply = (\<lambda>c q w. (fst (agent_serve g c q w), r_world (snd (agent_serve g c q w)))),
      pa_nonce = (\<lambda>c. case nc_nonce c of Inl _ \<Rightarrow> None | Inr n \<Rightarrow> Some (hex_encode n)),
      pa_gw_view = gateway_view,
      pa_gw_passes = (\<lambda>(c, c2) q w. r_trace (case q of
        None \<Rightarrow> snd (Recover env c (start_run w (c_writes c)))
      | Some x \<Rightarrow> snd (Do env c c2 x (start_run w (c_writes c))))),
      pa_gw_reply = (\<lambda>(c, c2) q w. case Do env c c2 q (start_run w (c_writes c)) of (a, r) \<Rightarrow> (map_sum id gateway_answer a, r_world r))\<rparr>"

section \<open>The node's moves\<close>

definition lawful :: "string option \<Rightarrow> node_operation option \<Rightarrow> (string \<times> string \<times> string) option \<Rightarrow> 'b node_world \<Rightarrow> bool" where
  "lawful nonce q v w \<longleftrightarrow> node_move nonce q v (node_view w)"

lemma save_lawful: "run_all (lawful n q v) r \<Longrightarrow> node_move n q v (journal_view s) \<Longrightarrow> run_all (lawful n q v) (snd (node_save env s r))"
  unfolding node_save_def by (intro writePrivate_run_all) (simp_all add: lawful_def node_view_def)

lemma device_lawful: "run_all (lawful n q v) r \<Longrightarrow> run_all (lawful n q v) (snd (device_step f r))"
  by (intro device_step_run_all) (auto simp: lawful_def node_view_def run_all_def)

lemma journal_view_simps [simp]:
  "journal_view (node_set_tx t s) = Some (nj_RequestKey s, nt_ID t, nt_State t)"
  "journal_view (drop_secrets t s) = Some (nj_RequestKey s, nt_ID t, nt_State t)"
  by (simp_all add: journal_view_def node_set_tx_def drop_secrets_def)

lemma node_set_tx_key [simp]: "nj_RequestKey (node_set_tx t s) = nj_RequestKey s"
  by (simp add: node_set_tx_def)

lemma rollback_lawful:
  assumes "run_all (lawful n q v) r" and "v = Some (nj_RequestKey s, nt_ID t, st)" and "st \<notin> {''confirmed'', ''rolled-back'', ''failed''}"
  shows "run_all (lawful n q v) (snd (node_rollback env s t r))"
  unfolding node_rollback_run [OF refl refl] Let_def node_rollback_end_def
  using assms by (auto intro!: save_lawful device_lawful nm_change)

lemma confirm_lawful:
  assumes "run_all (lawful n q v) r" and "v = Some (nj_RequestKey s, nt_ID t, nt_State t)"
    and "q = Some x" "no_Action x = ''confirm''" "no_ID x = nt_ID t"
  shows "run_all (lawful n q v) (snd (node_confirm_tx env c s t r))"
  using assms rollback_lawful [OF assms(1,2)]
  by (auto simp: node_confirm_tx_def Let_def node_snd_save node_snd_rollback intro!: save_lawful nm_change split: option.split)

lemma rollback_tx_lawful:
  assumes "run_all (lawful n q v) r" and "v = Some (nj_RequestKey s, nt_ID t, nt_State t)"
  shows "run_all (lawful n q v) (snd (node_rollback_tx env s t r))"
  using assms rollback_lawful [OF assms]
  by (auto simp: node_rollback_tx_def Let_def node_snd_save node_snd_rollback intro!: save_lawful nm_change)

lemma apply_armed_lawful:
  assumes "run_all (lawful n q v) r" and "v = Some (nj_RequestKey s, nt_ID t, st)" and "st \<notin> {''confirmed'', ''rolled-back'', ''failed''}"
  shows "run_all (lawful n q v) (snd (node_apply_armed env s t r))"
proof -
  define d where "d = device_step (ne_apply env (nt_Plan t)) r"
  have "run_all (lawful n q v) (snd d)" using assms(1) by (simp add: d_def device_lawful)
  then have "run_all (lawful n q v) (snd (node_rollback env (node_set_tx (t\<lparr>nt_ErrorCode := x\<rparr>) s) (t\<lparr>nt_ErrorCode := x\<rparr>) (snd d)))"
    "run_all (lawful n q v) (snd (node_save env (node_set_tx (t\<lparr>nt_State := ''applied''\<rparr>) s) (snd d)))" for x
    using assms(2,3) by (auto intro!: rollback_lawful [where st = st] save_lawful nm_change)
  then show ?thesis
    by (auto simp: node_apply_armed_def Let_def d_def node_snd_save node_snd_rollback simp del: device_step_simps split: prod.split option.split)
qed

lemma apply_lawful:
  assumes "run_all (lawful n q v) r" and "v = Some (nj_RequestKey s, nt_ID t, nt_State t)"
  shows "run_all (lawful n q v) (snd (node_apply_tx env c timeout s t r))"
proof (cases "nt_State t = ''prepared''")
  case False
  then show ?thesis using assms(1) by (simp add: node_apply_tx_def)
next
  case True
  define t1 where "t1 = t\<lparr>nt_State := ''applying'', nt_Deadline := nc_now c + timeout\<rparr>"
  define s1 where "s1 = node_set_tx t1 s"
  define ra where "ra = snd (node_save env s1 r)"
  have v: "v = Some (nj_RequestKey s1, nt_ID t1, ''prepared'')" using assms(2) True by (simp add: s1_def t1_def)
  have ra: "run_all (lawful n q v) ra"
    unfolding ra_def using assms(1) True v by (auto simp: s1_def t1_def intro!: save_lawful nm_change)
  have "run_all (lawful n q v) (snd (node_apply_armed env s1 t1 ra))" using ra v by (rule apply_armed_lawful) simp
  moreover have "run_all (lawful n q v) (snd (node_watchdog_failed env s1 t1 ra))"
    using ra v by (auto simp: node_watchdog_failed_def node_snd_save intro!: save_lawful nm_change)
  ultimately show ?thesis
    using assms(1) True ra
    by (auto simp: node_apply_tx_def Let_def t1_def [symmetric] s1_def [symmetric] ra_def split: prod.split option.split)
qed

lemma prepare_lawful:
  assumes "run_all (lawful n (Some x) v) r" and "no_Action x = ''prepare''" and "n = (case nc_nonce c of Inl _ \<Rightarrow> None | Inr b \<Rightarrow> Some (hex_encode b))"
  shows "run_all (lawful n (Some x) v) (snd (node_Prepare env c (no_Key x) p r))"
proof -
  have "run_all (lawful n (Some x) v) (snd (node_prepare_locked env c (no_Key x) p s r))" for s
    using assms
    by (auto simp: node_prepare_locked_def Let_def node_snd_save node_prepared_tx_def journal_view_def
        intro!: save_lawful nm_begin split: sum.split option.split)
  then show ?thesis
    using assms(1) by (auto simp: node_Prepare_def node_with_journal_def split: sum.split)
qed

lemma recover_lawful:
  assumes "run_all (lawful n q v) r" and "v = node_view (r_world r)"
  shows "run_all (lawful n q v) (snd (node_Recover env c r))"
proof -
  have "run_all (lawful n q v) (snd (node_rollback env s t r))"
    if "node_locked env c (r_world r) = Inr s" "nj_Transaction s = Some t" "node_active (Some t)" for s t
    using that node_locked_tx [OF that(1,2)] assms
    by (intro rollback_lawful [where st = "nt_State t"]) (auto simp: node_active_def node_view_def journal_view_def)
  then show ?thesis
    using assms(1) by (auto simp: node_Recover_def node_snd_rollback split: sum.split option.split)
qed

lemma on_tx_lawful:
  assumes "run_all (lawful n q v) r" and "v = node_view (r_world r)"
    and "\<And>s t. v = Some (nj_RequestKey s, nt_ID t, nt_State t) \<Longrightarrow> nt_ID t = i \<Longrightarrow> run_all (lawful n q v) (snd (fn s t r))"
  shows "run_all (lawful n q v) (snd (node_on_tx env c i fn r))"
  using assms(1,2) assms(3) node_locked_tx [of env c "r_world r"]
  by (auto simp: node_on_tx_def node_with_journal_def node_view_def journal_view_def split: sum.splits option.splits)

lemma snd_node_answer [simp]: "snd (node_answer x) = snd x"
  by (simp add: node_answer_def split: prod.split)

lemma snd_serve_node [simp]: "snd (serve_node env i caps queries c q r) = snd (LocalOperator_Do env queries c q r)"
  by (simp add: serve_node_def split: prod.split sum.split)

lemma serve_lawful:
  assumes "run_all (lawful n (Some x) v) r" and "v = node_view (r_world r)" and "n = (case nc_nonce c of Inl _ \<Rightarrow> None | Inr b \<Rightarrow> Some (hex_encode b))"
  shows "run_all (lawful n (Some x) v) (snd (LocalOperator_Do env queries c x r))"
proof -
  note on_tx = on_tx_lawful [OF assms(1,2)]
  have "run_all (lawful n (Some x) v) (snd (node_Validate env c (no_ID x) r))"
    unfolding node_Validate_def using assms(1) by (intro on_tx) simp
  moreover have "run_all (lawful n (Some x) v) (snd (node_Apply env c (no_ID x) d r))" for d
    using assms(1) by (auto simp: node_Apply_def intro!: on_tx apply_lawful)
  moreover have "run_all (lawful n (Some x) v) (snd (node_Confirm env c (no_ID x) r))" if "no_Action x = ''confirm''"
    unfolding node_Confirm_def using that by (intro on_tx confirm_lawful [OF assms(1)]) auto
  moreover have "run_all (lawful n (Some x) v) (snd (node_Rollback env c (no_ID x) r))"
    unfolding node_Rollback_def by (intro on_tx rollback_tx_lawful [OF assms(1)])
  ultimately show ?thesis
    using assms(1) prepare_lawful [OF assms(1) _ assms(3)] by (auto simp: LocalOperator_Do_def split: option.split)
qed

section \<open>The node's answers\<close>

text \<open>A result without an error shows the transaction that is in the file afterwards.\<close>

definition shows_file :: "node_result \<times> 'b node_run \<Rightarrow> bool" where
  "shows_file x \<longleftrightarrow> (\<forall>t r. x = ((Some t, None), r) \<longrightarrow> (\<exists>k. node_view (r_world r) = Some (k, nt_ID t, nt_State t)))"

lemma node_public_Some [simp]: "node_publicTransaction (Some t) = Some (t\<lparr>nt_Plan := RedactPlan (nt_Plan t)\<rparr>)"
  by (simp add: node_publicTransaction_def)

lemma view_disk: "w_disk w = Some s \<Longrightarrow> node_view w = journal_view s"
  by (simp add: node_view_def)

lemma view_tx: "nj_Transaction s = Some t \<Longrightarrow> journal_view s = Some (nj_RequestKey s, nt_ID t, nt_State t)"
  by (simp add: journal_view_def)

lemma drop_secrets_tx [simp]: "nj_Transaction (drop_secrets t s) = Some (t\<lparr>nt_Plan := (nt_Plan t)\<lparr>np_Passphrase := ''''\<rparr>\<rparr>)"
  by (simp add: drop_secrets_def)

lemma node_rollback_ok: "node_rollback env s t r = ((s1, None), r1) \<Longrightarrow> w_disk (r_world r1) = Some s1 \<and> (\<exists>u. nj_Transaction s1 = Some u)"
  by (auto simp: node_rollback_def Let_def dest: node_save_None split: prod.splits option.splits)

lemma rollback_tx_shows:
  "w_disk (r_world r) = Some s \<Longrightarrow> nj_Transaction s = Some t \<Longrightarrow> shows_file (node_rollback_tx env s t r)"
  by (auto simp: shows_file_def node_rollback_tx_def Let_def node_failed_op_def view_disk view_tx
      dest!: node_save_None node_rollback_ok split: if_splits prod.splits option.splits)

lemma confirm_tx_shows:
  "w_disk (r_world r) = Some s \<Longrightarrow> nj_Transaction s = Some t \<Longrightarrow> shows_file (node_confirm_tx env c s t r)"
  by (auto simp: shows_file_def node_confirm_tx_def Let_def node_failed_op_def view_disk view_tx
      dest!: node_save_None split: if_splits prod.splits option.splits)

lemma apply_tx_shows:
  "w_disk (r_world r) = Some s \<Longrightarrow> nj_Transaction s = Some t \<Longrightarrow> shows_file (node_apply_tx env c d s t r)"
  by (auto simp: shows_file_def node_apply_tx_def node_apply_armed_def node_watchdog_failed_def Let_def node_failed_op_def view_disk view_tx
      dest!: node_save_None split: if_splits prod.splits option.splits)

lemma on_tx_shows:
  assumes "\<And>s t. w_disk (r_world r) = Some s \<Longrightarrow> nj_Transaction s = Some t \<Longrightarrow> shows_file (fn s t r)"
  shows "shows_file (node_on_tx env c i fn r)"
  using assms node_locked_tx [of env c "r_world r"]
  by (auto simp: shows_file_def node_on_tx_def node_with_journal_def node_failed_op_def split: sum.splits option.splits if_splits)

lemma Prepare_shows:
  assumes "node_Prepare env c key p r = ((Some t, None), r')"
  shows "node_view (r_world r') = Some (key, nt_ID t, nt_State t)"
proof -
  obtain s where s: "node_locked env c (r_world r) = Inr s" "node_prepare_locked env c key p s r = ((Some t, None), r')"
    using assms by (auto simp: node_Prepare_def node_with_journal_def node_failed_op_def split: if_splits sum.splits)
  show ?thesis
  proof (cases "nj_RequestKey s = key")
    case True
    with s(2) obtain u where u: "nj_Transaction s = Some u" "nt_ID t = nt_ID u" "nt_State t = nt_State u" "r' = r"
      by (auto simp: node_prepare_locked_def Let_def node_failed_op_def split: if_splits)
    then show ?thesis using node_locked_tx [OF s(1)] True by (auto simp: view_disk view_tx)
  next
    case False
    then show ?thesis using s(2)
      by (auto simp: node_prepare_locked_def Let_def node_failed_op_def view_disk journal_view_def dest!: node_save_None
          split: if_splits sum.splits option.splits prod.splits)
  qed
qed

lemma shows_answer:
  assumes "shows_file x" and "node_answer x = (Inr a, r)" and "an_transaction a = Some p"
  shows "\<exists>k. node_view (r_world r) = Some (k, cp_ID p, cp_State p)"
  using assms by (auto simp: shows_file_def node_answer_def node_participant_def empty_answer_def split: prod.splits option.splits)

lemma Status_shows:
  assumes "node_Status env c w = Inr (Some t)"
  shows "\<exists>k. node_view w = Some (k, nt_ID t, nt_State t)"
proof -
  obtain s where s: "node_locked env c w = Inr s" "node_publicTransaction (nj_Transaction s) = Some t"
    using assms by (auto simp: node_Status_def)
  then obtain u where "nj_Transaction s = Some u" "nt_ID t = nt_ID u" "nt_State t = nt_State u"
    by (cases "nj_Transaction s") (auto simp: node_publicTransaction_def)
  then show ?thesis using node_locked_tx [OF s(1)] by (auto simp: view_disk view_tx)
qed

lemma Operator_truthful:
  assumes "LocalOperator_Do env queries c q r = (Inr a, r')" and "an_transaction a = Some p"
  shows "\<exists>k. node_view (r_world r') = Some (k, cp_ID p, cp_State p) \<and> (no_Action q = ''prepare'' \<longrightarrow> k = no_Key q)"
proof -
  have ops: "shows_file (node_Validate env c i r)" "shows_file (node_Apply env c i d r)" "shows_file (node_Confirm env c i r)"
    "shows_file (node_Rollback env c i r)" for i d
  proof -
    show "shows_file (node_Validate env c i r)"
      unfolding node_Validate_def by (intro on_tx_shows) (auto simp: shows_file_def view_disk view_tx split: option.splits)
    have "shows_file (node_failed_op x, r)" for x :: string by (simp add: shows_file_def node_failed_op_def)
    then show "shows_file (node_Apply env c i d r)"
      by (simp add: node_Apply_def on_tx_shows apply_tx_shows)
  qed (simp_all add: node_Confirm_def node_Rollback_def on_tx_shows confirm_tx_shows rollback_tx_shows)
  consider (query) "no_Action q \<in> {''capabilities'', ''inspect'', ''link''}" | (status) "no_Action q = ''status''"
    | (prepare) "no_Action q = ''prepare''" | (other) "no_Action q \<notin> {''capabilities'', ''inspect'', ''link'', ''status'', ''prepare''}"
    by blast
  then show ?thesis
  proof cases
    case query
    then show ?thesis using assms by (cases "queries (no_Action q)") (auto simp: LocalOperator_Do_def empty_answer_def)
  next
    case status
    then have "map_sum id (\<lambda>t. empty_answer\<lparr>an_transaction := map_option node_participant t\<rparr>) (node_Status env c (r_world r)) = Inr a" "r' = r"
      using assms(1) by (auto simp: LocalOperator_Do_def)
    then show ?thesis using status assms(2) Status_shows [of env c "r_world r"]
      by (cases "node_Status env c (r_world r)") (auto simp: node_participant_def empty_answer_def)
  next
    case prepare
    then obtain pl where "node_answer (node_Prepare env c (no_Key q) pl r) = (Inr a, r')"
      using assms(1) by (auto simp: LocalOperator_Do_def split: option.splits)
    then show ?thesis using prepare assms(2) Prepare_shows [of env c "no_Key q" pl r]
      by (auto simp: node_answer_def node_participant_def empty_answer_def split: prod.splits option.splits)
  next
    case other
    then show ?thesis
      using assms(1) ops [THEN shows_answer, OF _ assms(2)] by (auto simp: LocalOperator_Do_def split: if_splits)
  qed
qed

section \<open>The gateway's promise\<close>

text \<open>A confirmed or finalized transaction stays so, except by a rollback that names it or a new one.\<close>

definition keeps :: "string \<Rightarrow> 'b gw_world \<Rightarrow> bool" where
  "keeps i w \<longleftrightarrow> (\<exists>st \<in> set kept_states. gateway_view w = Some (i, st))"

lemma keeps_tx:
  assumes "keeps i (r_world r)" and "locked env c (r_world r) = Inr s"
  obtains t where "j_Transaction s = Some t" "tx_ID t = i" "tx_State t \<in> set kept_states" "w_disk (r_world r) = Some s"
  using assms(1) locked_Inr [OF assms(2)] by (auto simp: keeps_def gateway_view_def split: option.splits)

lemma on_tx_kept:
  assumes "keeps i (r_world r)" and "k = i \<Longrightarrow> (\<And>s t. tx_State t \<in> set kept_states \<Longrightarrow> snd (fn s t r) = r)"
  shows "snd (on_tx env c k fn r) = r"
proof (cases "locked env c (r_world r)")
  case (Inr s)
  obtain t where "j_Transaction s = Some t" "tx_ID t = i" "tx_State t \<in> set kept_states" using keeps_tx [OF assms(1) Inr] by metis
  then show ?thesis using assms(2) Inr by (auto simp: on_tx_def with_journal_def tx_with_def)
qed (simp add: on_tx_def with_journal_def)

lemma Finalize_keeps:
  assumes "run_all (keeps i) r"
  shows "run_all (keeps i) (snd (Finalize env c k r))"
proof (cases "locked env c (r_world r)")
  case (Inr s)
  obtain t where t: "j_Transaction s = Some t" "tx_ID t = i" "tx_State t \<in> set kept_states"
    using keeps_tx [OF _ Inr, of i] assms by (auto simp: run_all_def)
  have "run_all (keeps i) (snd (save env (drop_private (set_tx (t\<lparr>tx_State := ''finalized''\<rparr>) s)) r))"
    unfolding save_def using assms t
    by (intro writePrivate_run_all) (auto simp: keeps_def gateway_view_def kept_states_def drop_private_def set_tx_def)
  then show ?thesis
    using assms t Inr by (auto simp: Finalize_def on_tx_def with_journal_def tx_with_def finalize_tx_def Let_def snd_case_save)
qed (simp add: Finalize_def on_tx_def with_journal_def assms)

lemma Recover_kept:
  assumes "keeps i (r_world r)"
  shows "snd (Recover env c r) = r"
proof (cases "locked env c (r_world r)")
  case (Inr s)
  obtain t where "j_Transaction s = Some t" "tx_ID t = i" "tx_State t \<in> set kept_states" using keeps_tx [OF assms Inr] by metis
  then show ?thesis using Inr by (auto simp: Recover_def active_def kept_states_def)
qed (simp add: Recover_def)

lemma Do_keeps:
  assumes "run_all (keeps i) r" and "gw_quiet i (Some q)"
  shows "run_all (keeps i) (snd (Do env c c2 q r))"
proof -
  have k: "keeps i (r_world r)" using assms(1) by (simp add: run_all_def)
  have "snd (Apply env c x d r) = r" for x d
    using k by (auto simp: Apply_def apply_tx_def kept_states_def intro!: on_tx_kept)
  moreover have "snd (Confirm env c x r) = r" for x
    unfolding Confirm_def using k by (rule on_tx_kept) (auto simp: confirm_tx_def kept_states_def)
  moreover have "snd (Rollback env c x r) = r" if "x \<noteq> i" for x
    unfolding Rollback_def using k that by (intro on_tx_kept) auto
  ultimately show ?thesis
    using assms Finalize_keeps [OF assms(1)]
    by (auto simp: Do_def gw_quiet_def split: option.split)
qed

section \<open>The gateway's answers\<close>

definition gw_shows :: "tx_result \<times> 'b gw_run \<Rightarrow> bool" where
  "gw_shows x \<longleftrightarrow> (\<forall>t r. x = ((Some t, None), r) \<longrightarrow> gateway_view (r_world r) = Some (tx_ID t, tx_State t))"

lemma gw_view_disk: "w_disk w = Some s \<Longrightarrow> gateway_view w = map_option (\<lambda>t. (tx_ID t, tx_State t)) (j_Transaction s)"
  by (simp add: gateway_view_def)

lemma drop_private_tx [simp]: "j_Transaction (drop_private s) = j_Transaction s"
  by (simp add: drop_private_def)

lemma gw_rollback_ok: "rollback env s r = ((s1, None), r1) \<Longrightarrow> w_disk (r_world r1) = Some s1"
  by (auto simp: rollback_def Let_def dest: save_None split: prod.splits option.splits)

lemma gw_on_tx_shows:
  assumes "\<And>s t. w_disk (r_world r) = Some s \<Longrightarrow> j_Transaction s = Some t \<Longrightarrow> gw_shows (fn s t r)"
  shows "gw_shows (on_tx env c i fn r)"
  using assms locked_tx [of env c "r_world r"]
  by (auto simp: gw_shows_def on_tx_def with_journal_def failed_op_def tx_with_Some split: sum.splits option.splits)

lemma gw_op_shows:
  assumes "w_disk (r_world r) = Some s" and "j_Transaction s = Some t"
  shows "gw_shows (rollback_tx env s t r)" "gw_shows (confirm_tx env c s t r)" "gw_shows (finalize_tx env s t r)"
    "gw_shows (apply_tx env c d s t r)"
  using assms
  by (auto simp: gw_shows_def rollback_tx_def confirm_tx_def finalize_tx_def apply_tx_def apply_armed_def watchdog_failed_def
      publicTransaction_def Let_def failed_op_def gw_view_disk dest!: save_None gw_rollback_ok split: if_splits prod.splits option.splits)

lemma gw_Prepare_shows: "gw_shows (Prepare env c key p r)"
proof -
  have "gw_shows (prepare_locked env c key p s r)" if "locked env c (r_world r) = Inr s" for s
    using locked_tx [OF that]
    by (auto simp: gw_shows_def prepare_locked_def prepared_tx_def publicTransaction_def Let_def failed_op_def gw_view_disk dest!: save_None
        split: if_splits sum.splits option.splits prod.splits)
  then show ?thesis
    by (auto simp: gw_shows_def Prepare_def with_journal_def failed_op_def split: if_splits sum.splits option.splits)
qed

lemma Do_truthful:
  assumes "Do env c c2 q r = (Inr y, r')" and "an_transaction (gateway_answer y) = Some p"
  shows "gateway_view (r_world r') = Some (cp_ID p, cp_State p)"
proof -
  have tx: "gateway_view (r_world r') = Some (cp_ID p, cp_State p)" if "gw_shows x" "reply_tx x = (Inr y, r')" for x
    using that assms(2)
    by (auto simp: gw_shows_def reply_tx_def gateway_answer_def gateway_participant_def empty_answer_def split: prod.splits option.splits)
  have ops: "gw_shows (Validate env c i r)" "gw_shows (Apply env c i d r)" "gw_shows (Confirm env c i r)" "gw_shows (Rollback env c i r)"
    "gw_shows (Finalize env c i r)" for i d
  proof -
    show "gw_shows (Validate env c i r)"
      unfolding Validate_def by (intro gw_on_tx_shows) (auto simp: gw_shows_def publicTransaction_def gw_view_disk split: option.splits)
    have "gw_shows (failed_op x, r)" for x :: string by (simp add: gw_shows_def failed_op_def)
    then show "gw_shows (Apply env c i d r)" by (simp add: Apply_def gw_on_tx_shows gw_op_shows)
  qed (simp_all add: Confirm_def Rollback_def Finalize_def gw_on_tx_shows gw_op_shows)
  have valid: "ValidateOperation q = None" using assms(1) by (auto simp: Do_def split: option.splits)
  consider (inspect) "op_Action q = ''inspect''" | (status) "op_Action q = ''status''" | (prepare) "op_Action q = ''prepare''"
    | (plan) "op_Action q = ''validate''" "op_Plan q \<noteq> None"
    | (other) "op_Action q \<notin> {''inspect'', ''status'', ''prepare''}" "\<not> (op_Action q = ''validate'' \<and> op_Plan q \<noteq> None)"
    by blast
  then show ?thesis
  proof cases
    case inspect
    then show ?thesis using assms valid
      by (cases "ge_inspect env (w_back (r_world r))") (auto simp: Do_def gateway_answer_def empty_answer_def)
  next
    case status
    then have s: "map_sum id Reply_status (Status env c (r_world r)) = Inr y" "r' = r" using assms(1) valid by (auto simp: Do_def)
    then obtain s t where "locked env c (r_world r) = Inr s" "y = Reply_status (j_Transaction s)"
      by (cases "locked env c (r_world r)") (auto simp: Status_def publicTransaction_def)
    then show ?thesis using s(2) assms(2) locked_tx [of env c "r_world r" s]
      by (auto simp: gateway_answer_def gateway_participant_def empty_answer_def gw_view_disk)
  next
    case prepare
    then obtain t x where "Prepare env c (op_Key q) (the (op_Plan q)) r = ((Some t, None), r')" "y = Reply_prepared t x"
      using assms(1) valid by (auto simp: Do_def map_sum_def split: prod.splits option.splits sum.splits)
    then show ?thesis using assms(2) gw_Prepare_shows [of env c "op_Key q" "the (op_Plan q)" r]
      by (auto simp: gw_shows_def gateway_answer_def gateway_participant_def empty_answer_def)
  next
    case plan
    then show ?thesis using assms valid
      by (cases "ge_check env (w_back (r_world r)) (the (op_Plan q))") (auto simp: Do_def gateway_answer_def empty_answer_def)
  next
    case other
    then show ?thesis using assms(1) valid ops [THEN tx] by (auto simp: Do_def split: if_splits)
  qed
qed

section \<open>The interpretation\<close>

lemma run_all_trace: "run_all Q r \<Longrightarrow> w \<in> set (r_trace r) \<Longrightarrow> Q w"
  by (simp add: run_all_def)

lemma start_world [simp]: "r_world (start_run w ws) = w"
  by (simp add: start_run_def)

text \<open>The last world of a run is one it passes through.\<close>

lemma Operator_steps:
  assumes "run_steps node_world_next w0 r"
  shows "run_steps node_world_next w0 (snd (LocalOperator_Do env queries c q r))"
  using assms node_do_steps [OF assms, of env c "Node_Prepare (no_Key q) _"] node_do_steps [OF assms, of env c "Node_Validate (no_ID q)"]
    node_do_steps [OF assms, of env c "Node_Apply (no_ID q) _"] node_do_steps [OF assms, of env c "Node_Confirm (no_ID q)"]
    node_do_steps [OF assms, of env c "Node_Rollback (no_ID q)"]
  by (simp add: LocalOperator_Do_def node_do_def split: option.split)

lemma run_steps_last: "run_steps R w0 r \<Longrightarrow> r_world r \<in> set (r_trace r)"
  by (auto simp: run_steps_def)

interpretation covered: coverage_parties "managers env g"
  for env :: "'a gw_env" and g :: "'b node_agent"
proof unfold_locales
  fix x x' :: "'b node_world" and c q
  assume a: "x' \<in> set (pa_node_passes (managers env g) c q x)"
  let ?n = "case nc_nonce c of Inl _ \<Rightarrow> None | Inr b \<Rightarrow> Some (hex_encode b)"
  have start: "run_all (lawful ?n y (node_view x)) (start_run x (nc_writes c))" for y
    by (simp add: lawful_def nm_stay)
  have "lawful ?n q (node_view x) x'"
  proof (cases q)
    case None
    with a run_all_trace [OF recover_lawful [OF start]] show ?thesis by (simp add: managers_def)
  next
    case (Some y)
    with a run_all_trace [OF serve_lawful [OF start _ refl]] show ?thesis by (simp add: managers_def agent_serve_def)
  qed
  then show "node_move (pa_nonce (managers env g) c) q (pa_node_view (managers env g) x) (pa_node_view (managers env g) x')"
    by (simp add: managers_def lawful_def)
next
  fix x x' :: "'b node_world" and c y ar
  assume "pa_node_reply (managers env g) c y x = (ar, x')"
  then have "x' = r_world (snd (LocalOperator_Do (ag_env g) (ag_queries g) c y (start_run x (nc_writes c))))"
    by (auto simp: managers_def agent_serve_def)
  then show "x' \<in> set (pa_node_passes (managers env g) c (Some y) x)"
    using run_steps_last [OF Operator_steps [OF run_steps_start]] by (simp add: managers_def agent_serve_def)
next
  fix x x' :: "'b node_world" and c y a p
  assume a: "pa_node_reply (managers env g) c y x = (Inr a, x')" "an_transaction a = Some p"
  then obtain b r where "LocalOperator_Do (ag_env g) (ag_queries g) c y (start_run x (nc_writes c)) = (Inr b, r)" "an_transaction b = Some p"
    "x' = r_world r"
    by (auto simp: managers_def agent_serve_def serve_node_def split: prod.splits sum.splits if_splits)
  from Operator_truthful [OF this(1,2)] this(3)
  show "\<exists>k. pa_node_view (managers env g) x' = Some (k, cp_ID p, cp_State p) \<and> (no_Action y = ''prepare'' \<longrightarrow> k = no_Key y)"
    by (simp add: managers_def)
next
  fix h h' :: "'a gw_world" and d :: "call \<times> call" and q i st
  assume a: "h' \<in> set (pa_gw_passes (managers env g) d q h)" "pa_gw_view (managers env g) h = Some (i, st)" "st \<in> set kept_states" "gw_quiet i q"
  obtain c c2 where d: "d = (c, c2)" by (cases d)
  have "run_all (keeps i) (start_run h (c_writes c))" using a(2,3) by (auto simp: managers_def keeps_def)
  then have "run_all (keeps i) (case q of None \<Rightarrow> snd (Recover env c (start_run h (c_writes c))) | Some x \<Rightarrow> snd (Do env c c2 x (start_run h (c_writes c))))"
    using a(4) Recover_kept [of i "start_run h (c_writes c)" env c] by (cases q) (auto simp: Do_keeps)
  from run_all_trace [OF this] a(1) have "keeps i h'" by (simp add: managers_def d)
  then show "\<exists>st' \<in> set kept_states. pa_gw_view (managers env g) h' = Some (i, st')"
    by (simp add: managers_def keeps_def)
next
  fix h h' :: "'a gw_world" and d :: "call \<times> call" and z ar
  assume a: "pa_gw_reply (managers env g) d z h = (ar, h')"
  obtain c c2 where d: "d = (c, c2)" by (cases d)
  have "run_steps world_next h (snd (Do env c c2 z (start_run h (c_writes c))))" by (intro Do_steps run_steps_start)
  from run_steps_last [OF this] a show "h' \<in> set (pa_gw_passes (managers env g) d (Some z) h)"
    by (auto simp: managers_def d split: prod.splits)
next
  fix h h' :: "'a gw_world" and d :: "call \<times> call" and z a p
  assume "pa_gw_reply (managers env g) d z h = (Inr a, h')" "an_transaction a = Some p"
  then show "pa_gw_view (managers env g) h' = Some (cp_ID p, cp_State p)"
    using Do_truthful by (auto simp: managers_def map_sum_def split: prod.splits sum.splits)
qed

end
