(* ===== verification/Coverage_Play.thy ===== *)
theory Coverage_Play
  imports Coverage_Laws
begin

text \<open>
  Runs that can be computed: \<open>play\<close> executes a program to its end with given inputs, and its result is a run
  of the step relation. A gateway and a node with one setting each then go through a whole coverage change,
  for the witnesses of the coordinator's properties.
\<close>

section \<open>Playing a program\<close>

record ('c, 'd) script =
  sc_gateway :: 'd
  sc_node :: 'c
  sc_now :: gotime
  sc_nonce :: bytes
  sc_gateway_caps :: capabilities
  sc_node_caps :: capabilities
  sc_unreached :: "string list"

primrec play ::
  "('g, 'n, 'c, 'd) parties \<Rightarrow> (coverage_journal \<Rightarrow> nat) \<Rightarrow> ('c, 'd) script \<Rightarrow> 'r prog \<Rightarrow> ('g, 'n) coverage_world \<Rightarrow> ('g, 'n) coverage_world option" where
  "play P sz s (Return x) = Some"
| "play P sz s (Lock k) = play P sz s (k None)"
| "play P sz s (Read k) = (\<lambda>w. play P sz s (k (Inr (cw_disk w))) w)"
| "play P sz s (Save j k) = (\<lambda>w. case save_journal sz Write_ok j w of (e, w') \<Rightarrow> play P sz s (k e) w')"
| "play P sz s (Gateway q k) = (\<lambda>w.
     if op_Action q \<in> set (sc_unreached s) then play P sz s (k (Inl (Error_New ''unreached''))) w
     else case pa_gw_reply P (sc_gateway s) q (cw_gateway w) of (a, g) \<Rightarrow> play P sz s (k a) (w\<lparr>cw_gateway := g\<rparr>))"
| "play P sz s (Gateway_capabilities k) = play P sz s (k (sc_gateway_caps s))"
| "play P sz s (Remote n q k) = (\<lambda>w.
     if fresh_call P w (nr_ID n) (sc_node s)
     then case pa_node_reply P (sc_node s) q (cw_node w (nr_ID n)) of (a, x) \<Rightarrow>
       play P sz s (k a) (hear_answer (nr_ID n) a (set_node (nr_ID n) x (send_request (nr_ID n) q w)))
     else None)"
| "play P sz s (Remote_capabilities n k) = play P sz s (k (Inr (sc_node_caps s)))"
| "play P sz s (Now k) = play P sz s (k (sc_now s))"
| "play P sz s (Random k) = (\<lambda>w. if fresh_nonce P w (sc_nonce s) then play P sz s (k (Inr (sc_nonce s))) w else None)"

lemma play_run:
  "coverage_run P sv w0 p w \<Longrightarrow> play P (sv_size sv) s p w = Some w' \<Longrightarrow> coverage_run P sv w0 (Return ()) w'"
proof (induction p arbitrary: w)
  case (Return x)
  then show ?case by simp
next
  case (Save j k)
  obtain e w1 where e: "save_journal (sv_size sv) Write_ok j w = (e, w1)" by fastforce
  from Save.IH [OF rangeI cov_step [OF Save.prems(1) ps_save [OF e]]] Save.prems(2) e show ?case by simp
next
  case (Gateway q k)
  obtain a g where a: "pa_gw_reply P (sc_gateway s) q (cw_gateway w) = (a, g)" by fastforce
  show ?case
  proof (cases "op_Action q \<in> set (sc_unreached s)")
    case True
    with Gateway.IH [OF rangeI cov_step [OF Gateway.prems(1) ps_gateway_unreached]] Gateway.prems(2) show ?thesis by simp
  next
    case False
    with Gateway.IH [OF rangeI cov_step [OF Gateway.prems(1) ps_gateway [OF a]]] Gateway.prems(2) a show ?thesis by simp
  qed
next
  case (Remote n q k)
  obtain a x where a: "pa_node_reply P (sc_node s) q (cw_node w (nr_ID n)) = (a, x)" by fastforce
  have f: "fresh_call P w (nr_ID n) (sc_node s)" using Remote.prems(2) by (auto split: if_splits)
  from Remote.IH [OF rangeI cov_step [OF Remote.prems(1) ps_remote [OF f a]]] Remote.prems(2) f a show ?case by simp
next
  case (Random k)
  have f: "fresh_nonce P w (sc_nonce s)" using Random.prems(2) by (auto split: if_splits)
  from Random.IH [OF rangeI cov_step [OF Random.prems(1) ps_random [OF f]]] Random.prems(2) f show ?case by simp
next
  case (Lock k)
  from Lock.IH [OF rangeI cov_step [OF Lock.prems(1) ps_lock]] Lock.prems(2) show ?case by simp
next
  case (Read k)
  from Read.IH [OF rangeI cov_step [OF Read.prems(1) ps_read]] Read.prems(2) show ?case by simp
next
  case (Gateway_capabilities k)
  from Gateway_capabilities.IH [OF rangeI cov_step [OF Gateway_capabilities.prems(1) ps_gateway_capabilities]] Gateway_capabilities.prems(2)
  show ?case by simp
next
  case (Remote_capabilities n k)
  from Remote_capabilities.IH [OF rangeI cov_step [OF Remote_capabilities.prems(1) ps_remote_capabilities]] Remote_capabilities.prems(2)
  show ?case by simp
next
  case (Now k)
  from Now.IH [OF rangeI cov_step [OF Now.prems(1) ps_now]] Now.prems(2) show ?case by simp
qed

section \<open>A gateway and a node\<close>

declare request_simps [simp del]

text \<open>A program is evaluated lazily: nothing is rewritten inside a continuation before it has its answer.\<close>

lemma lazy_steps:
  "Lock k1 = Lock k1" "Read k2 = Read k2" "Gateway_capabilities k3 = Gateway_capabilities k3" "Now k4 = Now k4" "Random k5 = Random k5"
  by simp_all

lemma lazy_bind: "p = p' \<Longrightarrow> bind_prog p f = bind_prog p' f"
  by simp

lemma lazy_Save: "j = j' \<Longrightarrow> Save j k = Save j' k"
  by simp

lemma lazy_Gateway: "q = q' \<Longrightarrow> Gateway q k = Gateway q' k"
  by simp

lemma lazy_Remote: "n = n' \<Longrightarrow> q = q' \<Longrightarrow> Remote n q k = Remote n' q' k" "n = n' \<Longrightarrow> Remote_capabilities n m = Remote_capabilities n' m"
  by simp_all

definition tale_node :: string where
  "tale_node = replicate 32 (CHR ''c'')"

definition tale_caps :: capabilities where
  "tale_caps = \<lparr>cb_OpenWrt = True, cb_Ethernet = True, cb_AP = True, cb_WDS = True, cb_Mesh = False, cb_EncryptedBackhaul = True,
     cb_ConcurrentRadio = True, cb_GatewayBackhaulReady = True, cb_GatewayBackhaulManaged = True,
     cb_VerifiedPeerFingerprint = replicate 64 (CHR ''a''), cb_VerifiedRadio = ''radio0'', cb_VerifiedMode = ''wds'', cb_Reason = ''''\<rparr>"

definition tale_plan :: node_plan where
  "tale_plan = node_sample_plan\<lparr>np_Mode := ''wds'', np_Uplink := ''wlan0'', np_EthernetUplink := ''lan1'', np_ShareRadio := True\<rparr>"

definition tale_record :: node_record where
  "tale_record = \<lparr>nr_ID = tale_node, nr_Name = ''attic'', nr_Address = ''192.168.1.2'', nr_Fingerprint = replicate 64 (CHR ''a''),
     nr_Capabilities = tale_caps, nr_PairedAt = 0\<rparr>"

definition tale_service :: service where
  "tale_service = \<lparr>sv_operator = True, sv_fingerprint = replicate 64 (CHR ''a''),
     sv_records = [(tale_node, tale_record)],
     sv_size = (\<lambda>_. 1024), sv_hash = (\<lambda>_ _. replicate 32 9)\<rparr>"

definition tale_agent :: "bool node_agent" where
  "tale_agent = \<lparr>ag_env = node_sample_env 1, ag_identity = tale_node, ag_capabilities = '''', ag_queries = (\<lambda>_. Inl (Error_New ''none''))\<rparr>"

definition tale_parties :: "(bool gw_world, bool node_world, node_call, call \<times> call) parties" where
  "tale_parties = managers sample_env tale_agent"

definition tale_task :: "string \<Rightarrow> task" where
  "tale_task action = Task_operate tale_node action
     \<lparr>co_Action = action, co_ID = (if action = ''prepare'' then '''' else hex_encode (replicate 16 5)), co_Key = replicate 16 (CHR ''k''),
      co_Plan = (if action = ''prepare'' then Some tale_plan else None), co_TimeoutSeconds = 60,
      co_GatewayPlan = (if action = ''prepare'' then Some sample_plan else None)\<rparr>"

definition tale_start :: "(bool gw_world, bool node_world) coverage_world" where
  "tale_start = \<lparr>cw_disk = None, cw_gateway = sample_start, cw_node = (\<lambda>_. node_sample_start), cw_sent = {}, cw_known = {}\<rparr>"

lemma tale_plan_valid: "node_ValidatePlan tale_plan tale_caps tale_caps = None"
  by code_simp

definition tale_gateway :: "string \<Rightarrow> int \<Rightarrow> bool \<Rightarrow> bool \<Rightarrow> bool gw_world" where
  "tale_gateway st deadline kept back =
     \<lparr>w_disk = Some \<lparr>j_Version = 1, j_Role = ''gateway-backhaul'', j_PrivateWiFi = (if kept then Some sample_wifi else None),
        j_Transaction = Some \<lparr>tx_ID = hex_encode (replicate 16 3), tx_State = st, tx_CreatedAt = 10, tx_Deadline = deadline,
          tx_Plan = sample_plan, tx_ErrorCode = []\<rparr>,
        j_Snapshot = (if kept then [(''wireless'', [0])] else []), j_RequestKey = hex_encode (replicate 16 5) @ ''-gateway'',
        j_RequestHash = hex_encode (replicate 32 7)\<rparr>,
      w_back = back\<rparr>"

definition tale_at_node :: "string \<Rightarrow> int \<Rightarrow> bool \<Rightarrow> bool \<Rightarrow> bool node_world" where
  "tale_at_node st deadline kept back =
     \<lparr>w_disk = Some \<lparr>nj_Version = 1,
        nj_Transaction = Some \<lparr>nt_ID = hex_encode (replicate 16 3), nt_State = st, nt_CreatedAt = 10, nt_Deadline = deadline,
          nt_Plan = (if kept then tale_plan else RedactPlan tale_plan), nt_ErrorCode = []\<rparr>,
        nj_Snapshot = (if kept then map (\<lambda>k. (k, [0])) packages else []), nj_RequestKey = hex_encode (replicate 16 5) @ ''-node'',
        nj_RequestHash = hex_encode (replicate 32 7)\<rparr>,
      w_back = back\<rparr>"

definition tale_calls :: "int \<Rightarrow> call \<times> call" where
  "tale_calls now = (sample_call now, sample_call now)"

definition tale_call :: "int \<Rightarrow> bool \<Rightarrow> node_call" where
  "tale_call now fresh = (if fresh then node_sample_call now else (node_sample_call now)\<lparr>nc_nonce := Inl (Error_New ''none'')\<rparr>)"

definition tale_script :: "int \<Rightarrow> bool \<Rightarrow> string list \<Rightarrow> (node_call, call \<times> call) script" where
  "tale_script now fresh unreached =
     \<lparr>sc_gateway = tale_calls now,
      sc_node = tale_call now fresh,
      sc_now = now, sc_nonce = replicate 16 5, sc_gateway_caps = tale_caps, sc_node_caps = tale_caps, sc_unreached = unreached\<rparr>"

definition tale_participant :: "string \<Rightarrow> int \<Rightarrow> participant" where
  "tale_participant st deadline = \<lparr>cp_ID = hex_encode (replicate 16 3), cp_State = st, cp_Deadline = deadline\<rparr>"

definition tale_reply :: "string \<Rightarrow> int \<Rightarrow> answer result" where
  "tale_reply st deadline = Inr (empty_answer\<lparr>an_transaction := Some (tale_participant st deadline)\<rparr>)"

lemmas gateway_tale = tale_parties_def managers_def tale_calls_def tale_gateway_def tale_reply_def tale_participant_def
  gateway_request_def prepare_gateway_request_def gateway_answer_def gateway_participant_def empty_answer_def
  sample_env_def sample_call_def sample_start_def sample_wifi_def sample_plan_def sample_decode_def gw_eval
  Confirm_def confirm_tx_def Rollback_def rollback_tx_def Finalize_def finalize_tx_def drop_private_def

lemma tale_gateway_replies:
  "pa_gw_reply tale_parties (tale_calls t) ((gateway_request ''validate'')\<lparr>op_Plan := Some sample_plan\<rparr>) w =
     (Inr (empty_answer\<lparr>an_wifi := Some sample_wifi\<rparr>), w)"
  "pa_gw_reply tale_parties (tale_calls 10) ((gateway_request ''prepare'')\<lparr>op_Key := hex_encode (replicate 16 5) @ ''-gateway'', op_Plan := Some sample_plan\<rparr>) sample_start =
     (Inr (empty_answer\<lparr>an_transaction := Some (tale_participant ''prepared'' 0), an_wifi := Some sample_wifi\<rparr>), tale_gateway ''prepared'' 0 True False)"
  "pa_gw_reply tale_parties (tale_calls 20) ((gateway_request ''apply'')\<lparr>op_ID := hex_encode (replicate 16 3), op_TimeoutSeconds := 60\<rparr>) (tale_gateway ''prepared'' 0 True False) =
     (tale_reply ''applied'' 60000000020, tale_gateway ''applied'' 60000000020 True True)"
  "pa_gw_reply tale_parties (tale_calls 30) ((gateway_request ''confirm'')\<lparr>op_ID := hex_encode (replicate 16 3)\<rparr>) (tale_gateway ''applied'' 60000000020 True True) =
     (tale_reply ''confirmed'' 0, tale_gateway ''confirmed'' 0 True True)"
  "pa_gw_reply tale_parties (tale_calls 40) ((gateway_request ''confirm'')\<lparr>op_ID := hex_encode (replicate 16 3)\<rparr>) (tale_gateway ''confirmed'' 0 True True) =
     (tale_reply ''confirmed'' 0, tale_gateway ''confirmed'' 0 True True)"
  "pa_gw_reply tale_parties (tale_calls 40) ((gateway_request ''finalize'')\<lparr>op_ID := hex_encode (replicate 16 3)\<rparr>) (tale_gateway ''confirmed'' 0 True True) =
     (tale_reply ''finalized'' 0, tale_gateway ''finalized'' 0 False True)"
  "pa_gw_reply tale_parties (tale_calls 20) ((gateway_request ''rollback'')\<lparr>op_ID := hex_encode (replicate 16 3)\<rparr>) (tale_gateway ''prepared'' 0 True False) =
     (tale_reply ''rolled-back'' 0, tale_gateway ''rolled-back'' 0 False False)"
  by (simp_all add: gateway_tale)

lemmas node_tale = tale_parties_def managers_def agent_serve_def serve_node_def LocalOperator_Do_def node_answer_def tale_call_def tale_agent_def
  tale_at_node_def tale_reply_def tale_participant_def node_request_def node_participant_def empty_answer_def node_sample_env_def node_sample_call_def node_sample_start_def node_eval
  node_Apply_def node_apply_tx_def node_apply_armed_def node_Confirm_def node_confirm_tx_def device_step_def dur_mul_def wrap64_def second_def

lemma tale_node_replies:
  "pa_node_reply tale_parties (tale_call 10 True) ((node_request ''prepare'')\<lparr>no_Key := hex_encode (replicate 16 5) @ ''-node'', no_Plan := Some tale_plan\<rparr>) node_sample_start =
     (tale_reply ''prepared'' 0, tale_at_node ''prepared'' 0 True False)"
  "pa_node_reply tale_parties (tale_call 20 False) ((node_request ''apply'')\<lparr>no_ID := hex_encode (replicate 16 3), no_TimeoutSeconds := 60\<rparr>) (tale_at_node ''prepared'' 0 True False) =
     (tale_reply ''applied'' 60000000020, tale_at_node ''applied'' 60000000020 True True)"
  "pa_node_reply tale_parties (tale_call 30 False) ((node_request ''confirm'')\<lparr>no_ID := hex_encode (replicate 16 3)\<rparr>) (tale_at_node ''applied'' 60000000020 True True) =
     (tale_reply ''confirmed'' 0, tale_at_node ''confirmed'' 0 False True)"
  "pa_node_reply tale_parties (tale_call 40 False) ((node_request ''confirm'')\<lparr>no_ID := hex_encode (replicate 16 3)\<rparr>) (tale_at_node ''confirmed'' 0 False True) =
     (tale_reply ''confirmed'' 0, tale_at_node ''confirmed'' 0 False True)"
  "pa_node_reply tale_parties (tale_call 20 False) ((node_request ''rollback'')\<lparr>no_ID := hex_encode (replicate 16 3)\<rparr>) (tale_at_node ''prepared'' 0 True False) =
     (tale_reply ''rolled-back'' 0, tale_at_node ''rolled-back'' 0 False False)"
  by (simp_all add: node_tale)

definition tale_entry :: "string \<Rightarrow> int \<Rightarrow> participant \<Rightarrow> participant \<Rightarrow> bool \<Rightarrow> coverage_entry" where
  "tale_entry st deadline nd gw kept =
     \<lparr>ce_Transaction = \<lparr>ct_ID = hex_encode (replicate 16 5), ct_NodeID = tale_node, ct_State = st, ct_CreatedAt = 10, ct_Deadline = deadline,
        ct_Plan = (if kept then tale_plan else RedactPlan tale_plan), ct_GatewayPlan = sample_plan, ct_ErrorCode = ''''\<rparr>,
      ce_Key = replicate 16 (CHR ''k''), ce_Hash = hex_encode (replicate 32 9), ce_Node = nd, ce_Gateway = gw\<rparr>"

definition tale_world where
  "tale_world e gw nd sent names = \<lparr>cw_disk = Some \<lparr>cj_Version = 1, cj_Entries = [(tale_node, e)]\<rparr>, cw_gateway = gw,
     cw_node = (\<lambda>_. node_sample_start)(tale_node := nd), cw_sent = sent, cw_known = names\<rparr>"

lemma tale_keys [simp]:
  "transactionID (hex_encode (replicate 16 5))" "transactionID (hex_encode (replicate 16 3))" "transactionID tale_node"
  "requestKey (replicate 16 (CHR ''k''))" "length (hex_encode (replicate 32 9)) = 64"
  "hex_encode (replicate 16 5) \<noteq> []" "hex_encode (replicate 16 3) \<noteq> []"
  by (simp_all add: tale_node_def gw_eval)

lemma tale_requests [simp]: "op_Action (gateway_request a) = a" "no_Action (node_request a) = a"
  by (simp_all add: gateway_request_def node_request_def)

lemma tale_plan_simps [simp]:
  "np_Mode tale_plan = ''wds''" "np_Radio tale_plan = ''radio0''" "pl_Mode sample_plan = ''wds''" "pl_PeerFingerprint sample_plan = replicate 64 (CHR ''a'')"
  "injectNodeWiFi tale_plan (x\<lparr>an_wifi := Some sample_wifi\<rparr>) = Inr tale_plan"
  "tale_caps\<lparr>cb_GatewayBackhaulReady := True\<rparr> = tale_caps"
  "cb_VerifiedPeerFingerprint tale_caps = replicate 64 (CHR ''a'')" "cb_VerifiedMode tale_caps = ''wds''" "cb_VerifiedRadio tale_caps = ''radio0''"
  by (simp_all add: tale_plan_def tale_caps_def sample_plan_def injectNodeWiFi_def sample_wifi_def node_sample_plan_def)

lemmas tale_lazy = lazy_steps lazy_bind lazy_Save lazy_Gateway lazy_Remote

lemma tale_service_simps:
  "sv_operator tale_service" "sv_fingerprint tale_service = replicate 64 (CHR ''a'')" "sv_size tale_service = (\<lambda>_. 1024)"
  "sv_hash tale_service = (\<lambda>_ _. replicate 32 9)"
  "map_of (sv_records tale_service) tale_node = Some tale_record"
  "nr_Capabilities (tale_record\<lparr>nr_Capabilities := x\<rparr>) = x" "nr_ID (tale_record) = tale_node" "nr_ID (tale_record\<lparr>nr_Capabilities := x\<rparr>) = tale_node" "nr_Fingerprint (tale_record) = replicate 64 (CHR ''a'')"
  by (simp_all add: tale_service_def tale_record_def)

lemmas tale_eval = task_prog_def tale_task_def Operate_def operateCoverage_def with_coverage_def loadCoverage_def operate_journal_def operate_loaded_def
  wirelessPrepare_def pairedRecord_def prepareCoverage_def create_entry_def service_node_def validateCoverage_def validate_receipts_def
  begin_entry_def new_entry_def prepare_gateway_def prepare_node_def finish_prepare_def put_entry_def prepare_gateway_request_def prepare_node_request_def
  node_key_def gateway_key_def decodeParticipant_def participant_states_def set_state_def set_error_def set_plan_def set_deadline_def
  save_journal_def writePrivate_def start_run_def visit_def maxStateBytes_def strictDecodeLimit_def tale_script_def tale_service_simps Let_def
  fresh_nonce_def hear_answer_def set_node_def send_request_def no_participant_def
  tale_plan_valid tale_gateway_replies tale_node_replies tale_reply_def

lemma tale_fresh: "fresh_call tale_parties w i (tale_call t False)" "fresh_call tale_parties w i (tale_call t True) \<longleftrightarrow> (i, hex_encode (replicate 16 3)) \<notin> cw_known w"
  by (simp_all add: fresh_call_def tale_parties_def managers_def tale_call_def node_sample_call_def)

lemma tale_views [simp]:
  "cp_ID (tale_participant st d) = hex_encode (replicate 16 3)" "cp_State (tale_participant st d) = st"
  "pa_node_view tale_parties node_sample_start = None"
  by (simp_all add: tale_participant_def tale_parties_def managers_def node_view_def node_sample_start_def)

lemma tale_prepares:
  "\<exists>sent names. play tale_parties (sv_size tale_service) (tale_script 10 True []) (task_prog tale_service (tale_task ''prepare'')) tale_start =
     Some (tale_world (tale_entry ''prepared'' 0 (tale_participant ''prepared'' 0) (tale_participant ''prepared'' 0) True)
       (tale_gateway ''prepared'' 0 True False) (tale_at_node ''prepared'' 0 True False) sent names)"
  by (simp add: tale_eval tale_fresh tale_start_def tale_world_def tale_entry_def cong: tale_lazy)

lemmas tale_on_eval = tale_eval coverage_entry_ok_def coverage_states_def entry_state_def act_on_entry_def matchingParticipant_def settled_states_def
  rollbackCoverage_def find_node_def find_gateway_def cancel_node_def cancel_gateway_def finish_rollback_def forget_passphrase_def
  applyCoverage_def start_apply_def apply_participants_def apply_node_def settle_apply_def settings_changed_def seconds_left_def dur_mul_def wrap64_def
  second_def time_sub_def confirmCoverage_def confirm_participants_def confirm_node_def commit_entry_def finalize_gateway_def
  recoverCoverage_def coverageActive_def tale_world_def tale_entry_def tale_fresh RedactPlan_def

lemma tale_rolls_back:
  "\<exists>sent' names'. play tale_parties (sv_size tale_service) (tale_script 20 False []) (task_prog tale_service (tale_task ''rollback''))
       (tale_world (tale_entry ''prepared'' 0 (tale_participant ''prepared'' 0) (tale_participant ''prepared'' 0) True)
         (tale_gateway ''prepared'' 0 True False) (tale_at_node ''prepared'' 0 True False) sent names) =
     Some (tale_world (tale_entry ''rolled-back'' 0 (tale_participant ''rolled-back'' 0) (tale_participant ''rolled-back'' 0) False)
       (tale_gateway ''rolled-back'' 0 False False) (tale_at_node ''rolled-back'' 0 False False) sent' names')"
  by (simp add: tale_on_eval cong: tale_lazy)

lemma tale_applies:
  "\<exists>sent' names'. play tale_parties (sv_size tale_service) (tale_script 20 False []) (task_prog tale_service (tale_task ''apply''))
       (tale_world (tale_entry ''prepared'' 0 (tale_participant ''prepared'' 0) (tale_participant ''prepared'' 0) True)
         (tale_gateway ''prepared'' 0 True False) (tale_at_node ''prepared'' 0 True False) sent names) =
     Some (tale_world (tale_entry ''applied'' 60000000020 (tale_participant ''applied'' 60000000020) (tale_participant ''applied'' 60000000020) True)
       (tale_gateway ''applied'' 60000000020 True True) (tale_at_node ''applied'' 60000000020 True True) sent' names')"
  by (simp add: tale_on_eval cong: tale_lazy)

lemma tale_confirms_halfway:
  "\<exists>sent' names'. play tale_parties (sv_size tale_service) (tale_script 30 False [''finalize'']) (task_prog tale_service (tale_task ''confirm''))
       (tale_world (tale_entry ''applied'' 60000000020 (tale_participant ''applied'' 60000000020) (tale_participant ''applied'' 60000000020) True)
         (tale_gateway ''applied'' 60000000020 True True) (tale_at_node ''applied'' 60000000020 True True) sent names) =
     Some (tale_world (tale_entry ''confirming'' 60000000020 (tale_participant ''confirmed'' 0) (tale_participant ''confirmed'' 0) True)
       (tale_gateway ''confirmed'' 0 True True) (tale_at_node ''confirmed'' 0 False True) sent' names')"
  by (simp add: tale_on_eval cong: tale_lazy)

lemma tale_recovers:
  "\<exists>sent' names'. play tale_parties (sv_size tale_service) (tale_script 40 False []) (task_prog tale_service Task_recover)
       (tale_world (tale_entry ''confirming'' 60000000020 (tale_participant ''confirmed'' 0) (tale_participant ''confirmed'' 0) True)
         (tale_gateway ''confirmed'' 0 True True) (tale_at_node ''confirmed'' 0 False True) sent names) =
     Some (tale_world (tale_entry ''confirmed'' 0 (tale_participant ''confirmed'' 0) (tale_participant ''finalized'' 0) False)
       (tale_gateway ''finalized'' 0 False True) (tale_at_node ''confirmed'' 0 False True) sent' names')"
  by (simp add: tale_on_eval cong: tale_lazy)

text \<open>The worlds of the change, each with a run that leads to it.\<close>

lemma tale_prepared_run:
  "\<exists>sent names. coverage_run tale_parties tale_service tale_start (Return ())
     (tale_world (tale_entry ''prepared'' 0 (tale_participant ''prepared'' 0) (tale_participant ''prepared'' 0) True)
       (tale_gateway ''prepared'' 0 True False) (tale_at_node ''prepared'' 0 True False) sent names)"
  using tale_prepares play_run [OF cov_task [OF cov_start]] by blast

lemma tale_rolled_back_run:
  "\<exists>sent names. coverage_run tale_parties tale_service tale_start (Return ())
     (tale_world (tale_entry ''rolled-back'' 0 (tale_participant ''rolled-back'' 0) (tale_participant ''rolled-back'' 0) False)
       (tale_gateway ''rolled-back'' 0 False False) (tale_at_node ''rolled-back'' 0 False False) sent names)"
  using tale_prepared_run tale_rolls_back play_run [OF cov_task] by blast

lemma tale_applied_run:
  "\<exists>sent names. coverage_run tale_parties tale_service tale_start (Return ())
     (tale_world (tale_entry ''applied'' 60000000020 (tale_participant ''applied'' 60000000020) (tale_participant ''applied'' 60000000020) True)
       (tale_gateway ''applied'' 60000000020 True True) (tale_at_node ''applied'' 60000000020 True True) sent names)"
  using tale_prepared_run tale_applies play_run [OF cov_task] by blast

lemma tale_confirming_run:
  "\<exists>sent names. coverage_run tale_parties tale_service tale_start (Return ())
     (tale_world (tale_entry ''confirming'' 60000000020 (tale_participant ''confirmed'' 0) (tale_participant ''confirmed'' 0) True)
       (tale_gateway ''confirmed'' 0 True True) (tale_at_node ''confirmed'' 0 False True) sent names)"
  using tale_applied_run tale_confirms_halfway play_run [OF cov_task] by blast

lemma tale_confirmed_run:
  "\<exists>sent names. coverage_run tale_parties tale_service tale_start (Return ())
     (tale_world (tale_entry ''confirmed'' 0 (tale_participant ''confirmed'' 0) (tale_participant ''finalized'' 0) False)
       (tale_gateway ''finalized'' 0 False True) (tale_at_node ''confirmed'' 0 False True) sent names)"
  using tale_confirming_run tale_recovers play_run [OF cov_task] by blast

end
