(* ===== verification/Coverage_Props.thy ===== *)
theory Coverage_Props
  imports Coverage_Play
begin

text \<open>
  What the coordinator promises of a wireless coverage change, over every run against the gateway's and the
  nodes' transaction managers: lost and late requests, lost answers, failing file writes, participants that
  roll back on their own, power cuts in the middle of an operation and restarts of the coordinator included.
\<close>

section \<open>From the invariant to the journal file\<close>

definition registry_ok :: "service \<Rightarrow> bool" where
  "registry_ok sv \<longleftrightarrow> list_all (\<lambda>(i, n). nr_ID n = i) (sv_records sv)"

definition coverage_fresh :: "('g, 'n) coverage_world \<Rightarrow> bool" where
  "coverage_fresh w \<longleftrightarrow> cw_disk w = None \<and> cw_sent w = {}"

lemma registry_okD: "registry_ok sv \<Longrightarrow> map_of (sv_records sv) i = Some n \<Longrightarrow> nr_ID n = i"
  by (auto simp: registry_ok_def list_all_iff dest: map_of_SomeD)

lemma run_journal_true:
  assumes "coverage_run (managers env g) sv w0 p w" and "coverage_fresh w0" and "registry_ok sv" and "cw_disk w = Some j"
  shows "journal_true (managers env g) j w"
proof -
  have "cov_inv (managers env g) w0" using assms(2) by (simp add: cov_inv_def coverage_fresh_def)
  from covered.run_inv [OF assms(1) this registry_okD [OF assms(3)]] assms(4) show ?thesis by (simp add: cov_inv_def)
qed

lemma run_entry_true:
  assumes "coverage_run (managers env g) sv w0 p w" and "coverage_fresh w0" and "registry_ok sv" and "cw_disk w = Some j"
    and "map_of (cj_Entries j) i = Some e"
  shows "ct_NodeID (ce_Transaction e) = i" and "entry_true (managers env g) e w"
  using run_journal_true [OF assms(1-4)] assms(5) by (auto simp: journal_true_def)

lemma managers_view [simp]: "pa_node_view (managers env g) = node_view" "pa_gw_view (managers env g) = gateway_view"
  by (simp_all add: managers_def)

text \<open>The node's transaction of an entry: the recorded one, or the one begun under the entry's key when no answer was recorded.\<close>

definition node_transaction_of :: "coverage_entry \<Rightarrow> string \<times> string \<times> string \<Rightarrow> bool" where
  "node_transaction_of e x \<longleftrightarrow> (case x of (key, N, _) \<Rightarrow> if cp_ID (ce_Node e) = '''' then key = node_key e else N = cp_ID (ce_Node e))"

text \<open>
  C3: while a coverage change is not recorded as confirmed, its node has the new configuration for good only
  if the gateway has it for good too: whenever the node's transaction of the entry is confirmed, the
  gateway's transaction is the one of the entry, confirmed or finalized. So no interleaving of lost answers,
  late requests, watchdogs, crashes and restarts leaves the node on a backhaul that the gateway gave up.
\<close>

theorem coverage_commits_together:
  assumes "coverage_run (managers env g) sv w0 p w" and "coverage_fresh w0" and "registry_ok sv"
    and "cw_disk w = Some j" and "map_of (cj_Entries j) i = Some e" and "entry_state e \<noteq> ''confirmed''"
    and "node_view (cw_node w i) = Some x" and "node_transaction_of e x" and "snd (snd x) = ''confirmed''"
  shows "gateway_view (cw_gateway w) \<in> {Some (cp_ID (ce_Gateway e), ''confirmed''), Some (cp_ID (ce_Gateway e), ''finalized'')}"
proof -
  note t = run_entry_true [OF assms(1-5)]
  obtain key N where x: "x = (key, N, ''confirmed'')" using assms(9) by (cases x) auto
  have v: "node_at (managers env g) i w = Some (key, N, ''confirmed'')" using assms(7) x by (simp add: node_at_def)
  have "\<not> node_free (managers env g) e w"
    using v assms(8) t(1)
    by (auto simp: node_free_def node_transaction_of_def x Let_def key_free_def uncommitted_def open_state_def settled_states_def)
  moreover have "entry_state e \<noteq> ''rolled-back''"
    using t v assms(8) by (auto simp: entry_true_def record_true_def dead_def node_transaction_of_def x settled_states_def split: if_splits)
  ultimately show ?thesis
    using t(2) assms(6) by (auto simp: entry_true_def coverageActive_def gw_holds_def kept_states_def)
qed

lemma tale_fields [simp]:
  "coverage_fresh tale_start" "registry_ok tale_service" "cw_disk (tale_world e gw nd sent names) = Some \<lparr>cj_Version = 1, cj_Entries = [(tale_node, e)]\<rparr>"
  "cw_gateway (tale_world e gw nd sent names) = gw" "cw_node (tale_world e gw nd sent names) tale_node = nd"
  "entry_state (tale_entry st d n g kept) = st" "ce_Node (tale_entry st d n g kept) = n" "ce_Gateway (tale_entry st d n g kept) = g"
  "node_view (tale_at_node st d kept back) = Some (hex_encode (replicate 16 5) @ ''-node'', hex_encode (replicate 16 3), st)"
  "gateway_view (tale_gateway st d kept back) = Some (hex_encode (replicate 16 3), st)"
  by (simp_all add: coverage_fresh_def registry_ok_def tale_start_def tale_service_def tale_record_def tale_world_def entry_state_def tale_entry_def
    node_view_def journal_view_def tale_at_node_def gateway_view_def tale_gateway_def)

text \<open>The change of the sample after the node has confirmed and before the gateway could be asked to finalize.\<close>

theorem coverage_commits_together_witness:
  "\<exists>w j e x. coverage_run (managers sample_env tale_agent) tale_service tale_start (Return ()) w \<and> cw_disk w = Some j \<and>
     map_of (cj_Entries j) tale_node = Some e \<and> entry_state e = ''confirming'' \<and> node_view (cw_node w tale_node) = Some x \<and>
     node_transaction_of e x \<and> snd (snd x) = ''confirmed'' \<and>
     gateway_view (cw_gateway w) \<in> {Some (cp_ID (ce_Gateway e), ''confirmed''), Some (cp_ID (ce_Gateway e), ''finalized'')}"
proof -
  define e where "e = tale_entry ''confirming'' 60000000020 (tale_participant ''confirmed'' 0) (tale_participant ''confirmed'' 0) True"
  obtain sent names where r: "coverage_run (managers sample_env tale_agent) tale_service tale_start (Return ())
    (tale_world e (tale_gateway ''confirmed'' 0 True True) (tale_at_node ''confirmed'' 0 False True) sent names)" (is "coverage_run _ _ _ _ ?w")
    using tale_confirming_run unfolding tale_parties_def e_def by blast
  have n: "node_transaction_of e (hex_encode (replicate 16 5) @ ''-node'', hex_encode (replicate 16 3), ''confirmed'')"
    by (simp add: node_transaction_of_def e_def)
  with coverage_commits_together [OF r, of "\<lparr>cj_Version = 1, cj_Entries = [(tale_node, e)]\<rparr>" tale_node e] r show ?thesis
    by (intro exI [of _ ?w] exI [of _ "\<lparr>cj_Version = 1, cj_Entries = [(tale_node, e)]\<rparr>"] exI [of _ e]) (simp add: e_def)
qed

text \<open>
  C11: an entry recorded as rolled back is over on the node. Both participants were reported as rolled back
  or failed, the passphrase is gone from the file, and from then on, whatever requests still arrive late,
  the node's transaction of the entry is in no other state.
\<close>

theorem coverage_rolled_back_for_good:
  assumes "coverage_run (managers env g) sv w0 p w" and "coverage_fresh w0" and "registry_ok sv"
    and "cw_disk w = Some j" and "map_of (cj_Entries j) i = Some e" and "entry_state e = ''rolled-back''"
  shows "cp_State (ce_Node e) \<in> {''rolled-back'', ''failed''} \<and> cp_State (ce_Gateway e) \<in> {''rolled-back'', ''failed''} \<and>
    np_Passphrase (ct_Plan (ce_Transaction e)) = '''' \<and>
    (case node_view (cw_node w i) of Some (_, N, st) \<Rightarrow> N \<noteq> cp_ID (ce_Node e) \<or> st = ''rolled-back'' \<or> st = ''failed'' | None \<Rightarrow> True)"
  using run_entry_true [OF assms(1-5)] assms(6)
  by (auto simp: entry_true_def record_true_def dead_def node_at_def settled_states_def split: option.split)

theorem coverage_rolled_back_for_good_witness:
  "\<exists>w j e. coverage_run (managers sample_env tale_agent) tale_service tale_start (Return ()) w \<and> cw_disk w = Some j \<and>
     map_of (cj_Entries j) tale_node = Some e \<and> entry_state e = ''rolled-back'' \<and>
     cp_State (ce_Node e) \<in> {''rolled-back'', ''failed''} \<and> cp_State (ce_Gateway e) \<in> {''rolled-back'', ''failed''} \<and>
     np_Passphrase (ct_Plan (ce_Transaction e)) = ''''"
proof -
  define e where "e = tale_entry ''rolled-back'' 0 (tale_participant ''rolled-back'' 0) (tale_participant ''rolled-back'' 0) False"
  obtain sent names where r: "coverage_run (managers sample_env tale_agent) tale_service tale_start (Return ())
    (tale_world e (tale_gateway ''rolled-back'' 0 False False) (tale_at_node ''rolled-back'' 0 False False) sent names)" (is "coverage_run _ _ _ _ ?w")
    using tale_rolled_back_run unfolding tale_parties_def e_def by blast
  from coverage_rolled_back_for_good [OF r, of "\<lparr>cj_Version = 1, cj_Entries = [(tale_node, e)]\<rparr>" tale_node e] r show ?thesis
    by (intro exI [of _ ?w] exI [of _ "\<lparr>cj_Version = 1, cj_Entries = [(tale_node, e)]\<rparr>"] exI [of _ e]) (simp add: e_def)
qed

text \<open>
  C12: an entry is recorded as confirmed only when both participants are: the node's transaction of the entry
  is in no other state than confirmed from then on, the gateway was reported as confirmed or finalized, and
  the passphrase is gone from the file.
\<close>

theorem coverage_confirmed_for_good:
  assumes "coverage_run (managers env g) sv w0 p w" and "coverage_fresh w0" and "registry_ok sv"
    and "cw_disk w = Some j" and "map_of (cj_Entries j) i = Some e" and "entry_state e = ''confirmed''"
  shows "cp_State (ce_Node e) = ''confirmed'' \<and> cp_State (ce_Gateway e) \<in> {''confirmed'', ''finalized''} \<and>
    np_Passphrase (ct_Plan (ce_Transaction e)) = '''' \<and>
    (case node_view (cw_node w i) of Some (_, N, st) \<Rightarrow> N \<noteq> cp_ID (ce_Node e) \<or> st = ''confirmed'' | None \<Rightarrow> True)"
  using run_entry_true [OF assms(1-5)] assms(6)
  by (auto simp: entry_true_def committed_def node_at_def kept_states_def split: option.split)

theorem coverage_confirmed_for_good_witness:
  "\<exists>w j e. coverage_run (managers sample_env tale_agent) tale_service tale_start (Return ()) w \<and> cw_disk w = Some j \<and>
     map_of (cj_Entries j) tale_node = Some e \<and> entry_state e = ''confirmed'' \<and>
     cp_State (ce_Node e) = ''confirmed'' \<and> cp_State (ce_Gateway e) \<in> {''confirmed'', ''finalized''} \<and>
     np_Passphrase (ct_Plan (ce_Transaction e)) = ''''"
proof -
  define e where "e = tale_entry ''confirmed'' 0 (tale_participant ''confirmed'' 0) (tale_participant ''finalized'' 0) False"
  obtain sent names where r: "coverage_run (managers sample_env tale_agent) tale_service tale_start (Return ())
    (tale_world e (tale_gateway ''finalized'' 0 False True) (tale_at_node ''confirmed'' 0 False True) sent names)" (is "coverage_run _ _ _ _ ?w")
    using tale_confirmed_run unfolding tale_parties_def e_def by blast
  from coverage_confirmed_for_good [OF r, of "\<lparr>cj_Version = 1, cj_Entries = [(tale_node, e)]\<rparr>" tale_node e] r show ?thesis
    by (intro exI [of _ ?w] exI [of _ "\<lparr>cj_Version = 1, cj_Entries = [(tale_node, e)]\<rparr>"] exI [of _ e]) (simp add: e_def)
qed

lemma filter_at_most_one:
  assumes "distinct xs" and "\<And>x y. x \<in> set xs \<Longrightarrow> y \<in> set xs \<Longrightarrow> P x \<Longrightarrow> P y \<Longrightarrow> x = y"
  shows "length (filter P xs) \<le> 1"
proof -
  have "card (set (filter P xs)) \<le> 1"
    using assms(2) by (intro card_le_Suc0_iff_eq [THEN iffD2, unfolded One_nat_def [symmetric]]) auto
  then show ?thesis using distinct_card [of "filter P xs"] assms(1) by simp
qed

text \<open>
  C13: the gateway is in at most one unfinished coverage change: the journal never holds two active entries.
\<close>

theorem one_coverage_at_a_time:
  assumes "coverage_run (managers env g) sv w0 p w" and "coverage_fresh w0" and "registry_ok sv" and "cw_disk w = Some j"
  shows "length (filter (\<lambda>(i, e). coverageActive e) (cj_Entries j)) \<le> 1"
proof (rule filter_at_most_one)
  have t: "journal_true (managers env g) j w" by (rule run_journal_true [OF assms])
  then have k: "distinct (map fst (cj_Entries j))" by (simp add: journal_true_def gomap_ok_def)
  then show "distinct (cj_Entries j)" by (simp add: distinct_map)
  fix x y
  assume a: "x \<in> set (cj_Entries j)" "y \<in> set (cj_Entries j)" "case x of (i, e) \<Rightarrow> coverageActive e" "case y of (i, e) \<Rightarrow> coverageActive e"
  then have "map_of (cj_Entries j) (fst x) = Some (snd x)" "map_of (cj_Entries j) (fst y) = Some (snd y)" using k by auto
  moreover from this have "fst x = fst y" using t a(3,4) unfolding journal_true_def by (auto split: prod.splits)
  ultimately show "x = y" by (simp add: prod_eq_iff)
qed

theorem one_coverage_at_a_time_witness:
  "\<exists>w j. coverage_run (managers sample_env tale_agent) tale_service tale_start (Return ()) w \<and> cw_disk w = Some j \<and>
     cj_Entries j \<noteq> [] \<and> length (filter (\<lambda>(i, e). coverageActive e) (cj_Entries j)) \<le> 1"
proof -
  obtain e gw nd sent names where r: "coverage_run (managers sample_env tale_agent) tale_service tale_start (Return ()) (tale_world e gw nd sent names)"
    (is "coverage_run _ _ _ _ ?w")
    using tale_prepared_run unfolding tale_parties_def by blast
  have "length (filter (\<lambda>(i, e). coverageActive e) (cj_Entries \<lparr>cj_Version = 1, cj_Entries = [(tale_node, e)]\<rparr>)) \<le> 1"
    by (rule one_coverage_at_a_time [OF r]) simp_all
  with r show ?thesis
    by (intro exI [of _ ?w] exI [of _ "\<lparr>cj_Version = 1, cj_Entries = [(tale_node, e)]\<rparr>"] conjI) simp_all
qed

section \<open>What a program can ask for and answer\<close>

text \<open>A program that asks neither participant for an action, whatever it is told.\<close>

primrec avoids :: "string \<Rightarrow> 'r prog \<Rightarrow> bool" where
  "avoids a (Return x) \<longleftrightarrow> True"
| "avoids a (Lock k) \<longleftrightarrow> (\<forall>x. avoids a (k x))"
| "avoids a (Read k) \<longleftrightarrow> (\<forall>x. avoids a (k x))"
| "avoids a (Save j k) \<longleftrightarrow> (\<forall>x. avoids a (k x))"
| "avoids a (Gateway q k) \<longleftrightarrow> op_Action q \<noteq> a \<and> (\<forall>x. avoids a (k x))"
| "avoids a (Gateway_capabilities k) \<longleftrightarrow> (\<forall>x. avoids a (k x))"
| "avoids a (Remote n q k) \<longleftrightarrow> no_Action q \<noteq> a \<and> (\<forall>x. avoids a (k x))"
| "avoids a (Remote_capabilities n k) \<longleftrightarrow> (\<forall>x. avoids a (k x))"
| "avoids a (Now k) \<longleftrightarrow> (\<forall>x. avoids a (k x))"
| "avoids a (Random k) \<longleftrightarrow> (\<forall>x. avoids a (k x))"

lemma avoids_bind: "avoids a p \<Longrightarrow> (\<And>x. avoids a (f x)) \<Longrightarrow> avoids a (bind_prog p f)"
  by (induction p) auto

lemmas avoids_splits = option.split sum.split prod.split

lemma avoids_rollback: "avoids ''apply'' (rollbackCoverage j n e)"
proof -
  have "avoids ''apply'' (find_node n x)" "avoids ''apply'' (find_gateway x)" "avoids ''apply'' (cancel_node n x y)"
    "avoids ''apply'' (cancel_gateway x y)" "avoids ''apply'' (finish_rollback j x y z)" for x y z
    by (simp_all add: find_node_def find_gateway_def cancel_node_def cancel_gateway_def finish_rollback_def Let_def prepare_node_request_def
      prepare_gateway_request_def node_request_def gateway_request_def split: avoids_splits)
  then show ?thesis unfolding rollbackCoverage_def by (auto simp: Let_def intro!: avoids_bind split: avoids_splits)
qed

lemma avoids_commit: "avoids ''apply'' (commit_entry j e)"
  by (simp add: commit_entry_def finalize_gateway_def gateway_request_def Let_def split: avoids_splits)

lemma avoids_confirm: "avoids ''apply'' (confirm_participants j n e)"
proof -
  have "avoids ''apply'' (confirm_node j n x)" for j x
    by (auto simp: confirm_node_def reconcile_node_def node_request_def Let_def avoids_commit intro!: avoids_bind avoids_rollback split: avoids_splits)
  then show ?thesis
    by (auto simp: confirm_participants_def reconcile_gateway_def gateway_request_def Let_def intro!: avoids_bind avoids_rollback split: avoids_splits)
qed

lemma avoids_recover_entries: "avoids ''apply'' (recover_entries sv j es)"
proof (induction sv j es rule: recover_entries.induct)
  case (2 sv j i e es)
  then show ?case
    by (auto simp: confirmCoverage_def intro!: avoids_bind avoids_rollback avoids_confirm split: avoids_splits)
qed simp

text \<open>
  The recovery that runs every five seconds asks neither participant to apply anything, whatever it
  finds in the journal and whatever it is answered; it only completes a confirmation or a rollback.
\<close>

theorem recovery_never_applies: "avoids ''apply'' (recoverCoverage sv)"
  by (auto simp: recoverCoverage_def with_coverage_def avoids_recover_entries split: avoids_splits)

text \<open>The results that the service passes on to its callers.\<close>

definition redacted :: "coverage_result \<Rightarrow> bool" where
  "redacted x = (case fst x of Some out \<Rightarrow> np_Passphrase (ct_Plan (out_transaction out)) = '''' | None \<Rightarrow> True)"

lemma pred_bind: "(\<And>x. pred_prog Q (f x)) \<Longrightarrow> pred_prog Q (bind_prog p f)"
  by (induction p) auto

lemma pred_bind_of: "pred_prog R p \<Longrightarrow> (\<And>x. R x \<Longrightarrow> pred_prog Q (f x)) \<Longrightarrow> pred_prog Q (bind_prog p f)"
  by (induction p) auto

lemma redacted_simps [simp]:
  "redacted (Some (coverageOutput e), err)" "redacted (None, err)" "redacted (reported e x)" "redacted (refused m)"
  by (simp_all add: redacted_def reported_def refused_def coverageOutput_def RedactPlan_def)

lemma redacted_prepare: "pred_prog redacted (prepare_gateway j n e)"
proof -
  have "pred_prog redacted (prepare_node j n e)" for j e
    by (simp add: prepare_node_def finish_prepare_def Let_def split: avoids_splits)
  then show ?thesis by (simp add: prepare_gateway_def Let_def split: avoids_splits)
qed

lemma redacted_prepareCoverage: "pred_prog redacted (prepareCoverage sv j n q)"
proof -
  have "pred_prog redacted (begin_entry j n q hash p g)" for hash p g
    by (simp add: begin_entry_def redacted_prepare Let_def split: avoids_splits)
  then have "pred_prog redacted (create_entry sv j n q p hash)" for p hash
    by (auto simp: create_entry_def intro!: pred_bind split: avoids_splits)
  then show ?thesis by (simp add: prepareCoverage_def redacted_prepare Let_def split: avoids_splits)
qed

lemma redacted_act: "pred_prog redacted (act_on_entry sv j n e q)"
proof -
  have "pred_prog redacted (statusCoverage sv n e)"
    unfolding statusCoverage_def by (rule pred_bind) (simp add: redacted_def coverageOutput_def RedactPlan_def)
  then show ?thesis by (auto simp: act_on_entry_def Let_def intro!: pred_bind)
qed

lemma redacted_operate: "pred_prog (pred_option redacted) (operateCoverage sv i q)"
proof -
  have "pred_prog (pred_option redacted) (operate_loaded sv i q j e)" for j e
    unfolding operate_loaded_def
    by (auto intro!: pred_bind_of [of redacted] simp: redacted_prepareCoverage redacted_act split: avoids_splits)
  then show ?thesis
    by (simp add: operateCoverage_def with_coverage_def operate_journal_def Let_def split: avoids_splits)
qed

text \<open>
  No answer of the service to a coverage operation contains the Wi-Fi passphrase, on any branch and
  whatever the participants answer.
\<close>

theorem coverage_answers_redacted:
  "pred_prog (\<lambda>x. case x of Covered res \<Rightarrow> redacted res | Direct _ _ \<Rightarrow> True) (Operate sv i action q)"
proof -
  have "pred_prog (\<lambda>x. case x of Covered res \<Rightarrow> redacted res | Direct _ _ \<Rightarrow> True) (operate_direct sv i q')" for q'
    unfolding operate_direct_def by (auto simp: Let_def intro!: pred_bind split: avoids_splits)
  then show ?thesis
    unfolding Operate_def Let_def
    by (auto intro!: pred_bind_of [OF redacted_operate] split: avoids_splits)
qed

end
