(* ===== verification/Punycode.thy ===== *)
theory Punycode
  imports Go_Prelude
begin

text \<open>
  The Punycode encoder of \<^verbatim>\<open>internal/routing/idn.go\<close> (\<^verbatim>\<open>punycodeLabel\<close>) on the code points of a label, the
  decoder of RFC 3492 as its specification, and the proof that decoding inverts encoding. The counters
  are \<^verbatim>\<open>uint64\<close> in the code; here they are natural numbers, and the proof shows that they stay below
  \<open>2 ^ 32\<close>, so that no operation of the code wraps around.
\<close>

section \<open>The encoder\<close>

definition threshold :: "nat \<Rightarrow> nat \<Rightarrow> nat" where
  "threshold k bias = (let t = (if k > bias then k - bias else 1) in if t > 26 then 26 else t)"

lemma threshold_bounds [simp]: "0 < threshold k bias" "threshold k bias \<le> 26" "threshold k bias \<noteq> 0"
  by (simp_all add: threshold_def Let_def)

definition digit :: "nat \<Rightarrow> char" where
  "digit d = (if d < 26 then char_of (97 + d) else char_of (48 + d - 26))"

text \<open>The innermost loop: a number as digits of variable base.\<close>

function encode_delta :: "nat \<Rightarrow> nat \<Rightarrow> nat \<Rightarrow> string" where
  "encode_delta q k bias =
     (let t = threshold k bias in
      if q < t then [digit q]
      else digit (t + (q - t) mod (36 - t)) # encode_delta ((q - t) div (36 - t)) (k + 36) bias)"
  by pat_completeness auto
termination
proof (relation "measure fst")
  fix q k bias t
  assume t: "t = threshold k bias" "\<not> q < t"
  have "(q - t) div (36 - t) \<le> q - t" by (rule div_le_dividend)
  also have "\<dots> < q" using t threshold_bounds(1) [of k bias] by linarith
  finally show "(((q - t) div (36 - t), k + 36, bias), (q, k, bias)) \<in> measure fst" by simp
qed simp

declare encode_delta.simps [simp del]

function adapt_loop :: "nat \<Rightarrow> nat \<Rightarrow> nat" where
  "adapt_loop v k = (if v > 455 then adapt_loop (v div 35) (k + 36) else k + 36 * v div (v + 38))"
  by pat_completeness auto
termination by (relation "measure fst") auto

declare adapt_loop.simps [simp del]

definition adapt :: "nat \<Rightarrow> nat \<Rightarrow> bool \<Rightarrow> nat" where
  "adapt v points first =
     (let v1 = (if first then v div 700 else v div 2); v2 = v1 + v1 div points in adapt_loop v2 0)"

text \<open>The state of the loops: delta, bias, the number of code points handled and the output.\<close>

type_synonym puny = "nat \<times> nat \<times> nat \<times> string"

definition idn_overflow :: go_error where
  "idn_overflow = Error_New ''IDN overflow''"

definition uint32_max :: nat where
  "uint32_max = 4294967295"

text \<open>One pass over the input for the code point \<open>n\<close>.\<close>

fun scan_input :: "nat \<Rightarrow> nat \<Rightarrow> nat list \<Rightarrow> puny \<Rightarrow> puny result" where
  "scan_input n basic [] s = Inr s"
| "scan_input n basic (v # vs) (delta, bias, handled, out) =
     (let delta1 = (if v < n then delta + 1 else delta) in
      if v < n \<and> delta1 > uint32_max then Inl idn_overflow
      else if v \<noteq> n then scan_input n basic vs (delta1, bias, handled, out)
      else scan_input n basic vs
        (0, adapt delta1 (handled + 1) (handled = basic), handled + 1, out @ encode_delta delta1 36 bias))"

definition next_point :: "nat \<Rightarrow> nat list \<Rightarrow> nat" where
  "next_point n input = fold (\<lambda>c m. if c \<ge> n \<and> c < m then c else m) input 1114112"

text \<open>One iteration of the outer loop: the next smallest code point, and the state after its pass.\<close>

definition punycode_round :: "nat list \<Rightarrow> nat \<Rightarrow> nat \<Rightarrow> puny \<Rightarrow> (nat \<times> puny) result" where
  "punycode_round input basic n s =
     (case s of (delta, bias, handled, out) \<Rightarrow>
        let m = next_point n input; increase = (m - n) * (handled + 1) in
        if increase > uint32_max - delta then Inl idn_overflow
        else bind_result (scan_input m basic input (delta + increase, bias, handled, out)) (\<lambda>(delta', bias', handled', out').
          if length out' > 59 then Inl (Error_New ''IDN DNS label too long'')
          else Inr (m + 1, delta' + 1, bias', handled', out')))"

text \<open>The outer loop; \<open>None\<close> would mean that it does not end.\<close>

partial_function (option) punycode_loop :: "nat list \<Rightarrow> nat \<Rightarrow> nat \<Rightarrow> puny \<Rightarrow> string result option" where
  "punycode_loop input basic n s =
     (let handled = fst (snd (snd s)); next = punycode_round input basic n s in
      if handled < length input
      then if isl next then Some (Inl (projl next)) else punycode_loop input basic (fst (projr next)) (snd (projr next))
      else Some (Inr (snd (snd (snd s)))))"

definition basic_allowed :: "nat \<Rightarrow> bool" where
  "basic_allowed c \<longleftrightarrow> 97 \<le> c \<and> c \<le> 122 \<or> 48 \<le> c \<and> c \<le> 57 \<or> c = 45 \<or> c = 95"

definition punycodeLabel :: "nat list \<Rightarrow> string result option" where
  "punycodeLabel input =
     (if length input = 0 \<or> length input > 63 then Some (Inl (Error_New ''invalid IDN label length''))
      else if \<exists>c \<in> set input. c < 128 \<and> \<not> basic_allowed c then Some (Inl (Error_New ''invalid IDN basic character''))
      else let out = map char_of (filter (\<lambda>c. c < 128) input); basic = length out in
        punycode_loop input basic 128 (0, 72, basic, if basic > 0 then out @ ''-'' else out))"

section \<open>The decoder of RFC 3492\<close>

text \<open>
  The decoder is written from the RFC and shares nothing with the encoder: the parameters of
  section 5, the bias adaptation of section 6.1 and the decoding procedure of section 6.2.
\<close>

definition rfc_base :: nat where "rfc_base = 36"
definition rfc_tmin :: nat where "rfc_tmin = 1"
definition rfc_tmax :: nat where "rfc_tmax = 26"
definition rfc_skew :: nat where "rfc_skew = 38"
definition rfc_damp :: nat where "rfc_damp = 700"
definition rfc_initial_bias :: nat where "rfc_initial_bias = 72"
definition rfc_initial_n :: nat where "rfc_initial_n = 128"

lemmas rfc_parameters = rfc_base_def rfc_tmin_def rfc_tmax_def rfc_skew_def rfc_damp_def rfc_initial_bias_def rfc_initial_n_def

definition rfc_threshold :: "nat \<Rightarrow> nat \<Rightarrow> nat" where
  "rfc_threshold k bias =
     (if k \<le> bias + rfc_tmin then rfc_tmin else if k \<ge> bias + rfc_tmax then rfc_tmax else k - bias)"

function rfc_adapt_loop :: "nat \<Rightarrow> nat \<Rightarrow> nat \<times> nat" where
  "rfc_adapt_loop delta k =
     (if delta > ((rfc_base - rfc_tmin) * rfc_tmax) div 2
      then rfc_adapt_loop (delta div (rfc_base - rfc_tmin)) (k + rfc_base) else (delta, k))"
  by pat_completeness auto
termination by (relation "measure fst") (auto simp: rfc_parameters)

declare rfc_adapt_loop.simps [simp del]

definition rfc_adapt :: "nat \<Rightarrow> nat \<Rightarrow> bool \<Rightarrow> nat" where
  "rfc_adapt delta numpoints firsttime =
     (let d1 = (if firsttime then delta div rfc_damp else delta div 2);
          (d, k) = rfc_adapt_loop (d1 + d1 div numpoints) 0
      in k + ((rfc_base - rfc_tmin + 1) * d) div (d + rfc_skew))"

definition digit_value :: "char \<Rightarrow> nat option" where
  "digit_value c =
     (let b = (of_char c :: nat) in if 97 \<le> b \<and> b \<le> 122 then Some (b - 97) else if 48 \<le> b \<and> b \<le> 57 then Some (b - 48 + 26) else None)"

fun decode_delta :: "nat \<Rightarrow> nat \<Rightarrow> string \<Rightarrow> (nat \<times> string) option" where
  "decode_delta k bias [] = None"
| "decode_delta k bias (c # cs) =
     (case digit_value c of None \<Rightarrow> None | Some d \<Rightarrow>
        if d < rfc_threshold k bias then Some (d, cs)
        else case decode_delta (k + rfc_base) bias cs of
            None \<Rightarrow> None | Some (v, rest) \<Rightarrow> Some (d + v * (rfc_base - rfc_threshold k bias), rest))"

lemma decode_delta_shorter: "decode_delta k bias s = Some (v, rest) \<Longrightarrow> length rest < length s"
  by (induction k bias s arbitrary: v rest rule: decode_delta.induct) (fastforce split: option.splits if_splits)+

function decode_points :: "nat \<Rightarrow> nat \<Rightarrow> nat \<Rightarrow> nat \<Rightarrow> nat list \<Rightarrow> string \<Rightarrow> nat list option" where
  "decode_points basic n i bias out s =
     (if s = [] then Some out
      else case decode_delta rfc_base bias s of None \<Rightarrow> None | Some (v, rest) \<Rightarrow>
        let points = length out + 1; n' = n + (i + v) div points; j = (i + v) mod points in
        decode_points basic n' (j + 1) (rfc_adapt v points (length out = basic)) (take j out @ n' # drop j out) rest)"
  by pat_completeness auto
termination
  by (relation "measure (\<lambda>(basic, n, i, bias, out, s). length s)") (auto dest: decode_delta_shorter)

declare decode_points.simps [simp del]

text \<open>What is before the last hyphen is literal.\<close>

definition punycode_decode :: "string \<Rightarrow> nat list option" where
  "punycode_decode s =
     (let digits = rev (takeWhile (\<lambda>c. c \<noteq> CHR ''-'') (rev s)); literal = rev (tl (dropWhile (\<lambda>c. c \<noteq> CHR ''-'') (rev s)))
      in decode_points (length literal) rfc_initial_n 0 rfc_initial_bias (map of_char literal) digits)"

section \<open>The encoder follows the RFC\<close>

lemma rfc_threshold_eq [simp]: "rfc_threshold k bias = threshold k bias"
  by (auto simp: rfc_threshold_def threshold_def rfc_parameters Let_def)

lemma rfc_adapt_loop_eq:
  "(case rfc_adapt_loop v k of (d, k') \<Rightarrow> k' + 36 * d div (d + 38)) = adapt_loop v k"
proof (induction v k rule: adapt_loop.induct)
  case (1 v k)
  show ?case
  proof (cases "v > 455")
    case True
    then show ?thesis
      using "1.IH" by (simp add: rfc_adapt_loop.simps [of v] adapt_loop.simps [of v] rfc_parameters)
  next
    case False
    then show ?thesis by (simp add: rfc_adapt_loop.simps [of v] adapt_loop.simps [of v] rfc_parameters)
  qed
qed

lemma rfc_adapt_eq [simp]: "rfc_adapt v points first = adapt v points first"
  using rfc_adapt_loop_eq by (simp add: rfc_adapt_def adapt_def rfc_parameters Let_def)

declare rfc_base_def [simp] rfc_initial_n_def [simp] rfc_initial_bias_def [simp]

section \<open>Digits\<close>

lemma digit_value_digit: "d < 36 \<Longrightarrow> digit_value (digit d) = Some d"
  by (auto simp: digit_value_def digit_def Let_def)

lemma digit_value_hyphen: "digit_value (CHR ''-'') = None"
  by (simp add: digit_value_def)

lemma digit_not_hyphen: "d < 36 \<Longrightarrow> CHR ''-'' \<noteq> digit d"
  using digit_value_digit [of d] by (metis digit_value_hyphen option.distinct(1))

lemma encode_digit_bound: "threshold k bias \<le> q \<Longrightarrow> threshold k bias + (q - threshold k bias) mod (36 - threshold k bias) < 36"
proof -
  have "(q - threshold k bias) mod (36 - threshold k bias) < 36 - threshold k bias"
    using threshold_bounds(2) [of k bias] by (intro mod_less_divisor) linarith
  then show ?thesis using threshold_bounds(2) [of k bias] by linarith
qed

lemma decode_encode_delta: "decode_delta k bias (encode_delta q k bias @ rest) = Some (q, rest)"
proof (induction q k bias rule: encode_delta.induct)
  case (1 q k bias)
  let ?t = "threshold k bias"
  show ?case
  proof (cases "q < ?t")
    case True
    then have "q < 36" using threshold_bounds(2) [of k bias] by linarith
    with True show ?thesis by (simp add: encode_delta.simps [of q] Let_def digit_value_digit)
  next
    case False
    then have "?t + (q - ?t) mod (36 - ?t) < 36" by (intro encode_digit_bound) simp
    moreover have "?t + (q - ?t) mod (36 - ?t) + (q - ?t) div (36 - ?t) * (36 - ?t) = q"
      using False mod_div_mult_eq [of "q - ?t" "36 - ?t"] by linarith
    ultimately show ?thesis
      using 1 [OF refl False] False by (simp add: encode_delta.simps [of q] Let_def digit_value_digit add.assoc)
  qed
qed

lemma encode_delta_ne: "encode_delta q k bias \<noteq> []"
  by (subst encode_delta.simps) (simp add: Let_def)

lemma encode_delta_no_hyphen: "CHR ''-'' \<notin> set (encode_delta q k bias)"
proof (induction q k bias rule: encode_delta.induct)
  case (1 q k bias)
  let ?t = "threshold k bias"
  have "q < ?t \<Longrightarrow> q < 36" using threshold_bounds(2) [of k bias] by linarith
  then show ?case
    using 1 [OF refl] encode_digit_bound [of k bias q]
    by (subst encode_delta.simps) (auto simp: Let_def not_less dest: digit_not_hyphen)
qed

section \<open>Decoding inverts encoding\<close>

text \<open>
  In the pass for \<open>n\<close>, with \<open>pre\<close> behind and \<open>vs\<close> ahead, the code points handled so far are \<open>handled_points\<close>;
  the decoder has rebuilt exactly these.
\<close>

definition handled_points :: "nat \<Rightarrow> nat list \<Rightarrow> nat list \<Rightarrow> nat list" where
  "handled_points n pre vs = filter (\<lambda>c. c \<le> n) pre @ filter (\<lambda>c. c < n) vs"

text \<open>
  The decoder's position (code point \<open>nd\<close>, index \<open>i\<close>) and the encoder's pending delta add up to the
  encoder's position: each code point has as many positions as the next insertion has places.
\<close>

definition in_step :: "nat \<Rightarrow> nat \<Rightarrow> nat \<Rightarrow> nat list \<Rightarrow> nat list \<Rightarrow> nat \<Rightarrow> bool" where
  "in_step nd i n pre vs delta \<longleftrightarrow>
     (let h = length (handled_points n pre vs) in
      nd * (h + 1) + i + delta = n * (h + 1) + length (filter (\<lambda>c. c \<le> n) pre))"

lemma handled_points_step:
  "handled_points n (pre @ [v]) vs = (if v = n then filter (\<lambda>c. c \<le> n) pre @ n # filter (\<lambda>c. c < n) vs else handled_points n pre (v # vs))"
  by (auto simp: handled_points_def)

lemma handled_points_length: "length (handled_points n pre vs) \<le> length (pre @ vs)"
  by (simp add: handled_points_def add_mono)

lemma in_step_small:
  assumes "in_step nd i n pre vs delta" and "n < 1114112" and "length (pre @ vs) \<le> 63"
  shows "delta < uint32_max"
proof -
  let ?h = "length (handled_points n pre vs)"
  have h: "?h + 1 \<le> 64" using handled_points_length [of n pre vs] assms(3) by linarith
  have "delta \<le> n * (?h + 1) + length (filter (\<lambda>c. c \<le> n) pre)" using assms(1) by (simp add: in_step_def Let_def)
  also have "n * (?h + 1) \<le> 1114112 * 64" using assms(2) h by (intro mult_mono) auto
  also have "length (filter (\<lambda>c. c \<le> n) pre) \<le> 63" using order_trans [OF length_filter_le [of "\<lambda>c. c \<le> n" pre], of 63] assms(3) by simp
  finally show ?thesis by (simp add: uint32_max_def)
qed

text \<open>The decoder reads one delta and makes the insertion that the encoder meant.\<close>

lemma decode_one:
  assumes "in_step nd i n pre (n # vs) delta"
  shows "decode_points basic nd i bias (handled_points n pre (n # vs)) (encode_delta delta 36 bias @ rest) =
    decode_points basic n (length (filter (\<lambda>c. c \<le> n) pre) + 1)
      (adapt delta (length (handled_points n pre (n # vs)) + 1) (length (handled_points n pre (n # vs)) = basic))
      (handled_points n (pre @ [n]) vs) rest"
proof -
  let ?L = "handled_points n pre (n # vs)" and ?j = "length (filter (\<lambda>c. c \<le> n) pre)"
  have j: "?j < length ?L + 1" by (simp add: handled_points_def)
  have e: "nd * (length ?L + 1) + (i + delta) = n * (length ?L + 1) + ?j" using assms by (simp add: in_step_def Let_def)
  have "nd + (i + delta) div (length ?L + 1) = (nd * (length ?L + 1) + (i + delta)) div (length ?L + 1)"
    by (subst div_mult_self3) auto
  also have "\<dots> = n" unfolding e using j by (subst div_mult_self3) auto
  finally have n: "nd + (i + delta) div (length ?L + 1) = n" .
  have "(i + delta) mod (length ?L + 1) = (nd * (length ?L + 1) + (i + delta)) mod (length ?L + 1)" by (metis mod_mult_self3)
  also have "\<dots> = ?j" unfolding e using j by (metis mod_less mod_mult_self3)
  finally have m: "(i + delta) mod (length ?L + 1) = ?j" .
  have "take ?j ?L @ n # drop ?j ?L = handled_points n (pre @ [n]) vs"
    by (simp add: handled_points_step) (simp add: handled_points_def)
  then show ?thesis
    using encode_delta_ne [of delta 36 bias]
    by (subst decode_points.simps) (simp add: decode_encode_delta Let_def n m del: One_nat_def add_Suc_right Suc_eq_plus1_left)
qed

lemma scan_decoded:
  assumes "in_step nd i n pre vs delta" and "n < 1114112" and "length (pre @ vs) \<le> 63" and "handled = length (handled_points n pre vs)"
  shows "\<exists>delta' bias' D nd' i'.
    scan_input n basic vs (delta, bias, handled, out) = Inr (delta', bias', length (handled_points n (pre @ vs) []), out @ D) \<and>
    in_step nd' i' n (pre @ vs) [] delta' \<and> CHR ''-'' \<notin> set D \<and>
    (\<forall>rest. decode_points basic nd i bias (handled_points n pre vs) (D @ rest) = decode_points basic nd' i' bias' (handled_points n (pre @ vs) []) rest)"
  using assms
proof (induction vs arbitrary: pre nd i delta bias handled out)
  case Nil
  then show ?case by (intro exI [of _ delta] exI [of _ bias] exI [of _ "[]"] exI [of _ nd] exI [of _ i]) simp
next
  case (Cons v vs)
  consider (less) "v < n" | (here) "v = n" | (more) "v > n" by linarith
  then show ?case
  proof cases
    case less
    have s: "in_step nd i n (pre @ [v]) vs (delta + 1)" "handled_points n (pre @ [v]) vs = handled_points n pre (v # vs)"
      using Cons.prems(1) less by (simp_all add: in_step_def handled_points_step Let_def)
    have "delta + 1 \<le> uint32_max" using in_step_small [OF Cons.prems(1-3)] by simp
    then show ?thesis using Cons.IH [OF s(1) Cons.prems(2), of handled bias out] Cons.prems(3,4) less s(2) by simp
  next
    case more
    have s: "in_step nd i n (pre @ [v]) vs delta" "handled_points n (pre @ [v]) vs = handled_points n pre (v # vs)"
      using Cons.prems(1) more by (simp_all add: in_step_def handled_points_step Let_def)
    then show ?thesis using Cons.IH [OF s(1) Cons.prems(2), of handled bias out] Cons.prems(3,4) more by simp
  next
    case here
    let ?L = "handled_points n pre (v # vs)" and ?L' = "handled_points n (pre @ [v]) vs"
    define bias1 where "bias1 = adapt delta (handled + 1) (handled = basic)"
    have L': "length ?L' = handled + 1" unfolding Cons.prems(4) using here by (simp add: handled_points_def)
    have s: "in_step n (length (filter (\<lambda>c. c \<le> n) pre) + 1) n (pre @ [v]) vs 0" using here by (simp add: in_step_def Let_def)
    obtain delta' bias' D nd' i' where D:
      "scan_input n basic vs (0, bias1, handled + 1, out @ encode_delta delta 36 bias) =
        Inr (delta', bias', length (handled_points n (pre @ v # vs) []), (out @ encode_delta delta 36 bias) @ D)"
      "in_step nd' i' n (pre @ v # vs) [] delta'" "CHR ''-'' \<notin> set D"
      "\<forall>rest. decode_points basic n (length (filter (\<lambda>c. c \<le> n) pre) + 1) bias1 ?L' (D @ rest) =
        decode_points basic nd' i' bias' (handled_points n (pre @ v # vs) []) rest"
      using Cons.IH [OF s Cons.prems(2), of "handled + 1" bias1 "out @ encode_delta delta 36 bias"] Cons.prems(3) L' by auto
    have "decode_points basic nd i bias ?L ((encode_delta delta 36 bias @ D) @ rest) =
        decode_points basic nd' i' bias' (handled_points n (pre @ v # vs) []) rest" for rest
      using decode_one [of nd i n pre vs delta basic bias "D @ rest"] Cons.prems(1,4) D(4) here by (simp add: bias1_def)
    then show ?thesis
      using D(1-3) here encode_delta_no_hyphen [of delta 36 bias]
      by (intro exI [of _ delta'] exI [of _ bias'] exI [of _ "encode_delta delta 36 bias @ D"] exI [of _ nd'] exI [of _ i']) (simp add: bias1_def Let_def)
  qed
qed

lemma next_point_fold:
  fixes n :: nat
  assumes "r = fold (\<lambda>c m. if n \<le> c \<and> c < m then c else m) input a"
  shows "r \<le> a \<and> (\<forall>c \<in> set input. n \<le> c \<longrightarrow> r \<le> c) \<and> (r = a \<or> r \<in> set input \<and> n \<le> r)"
  using assms
proof (induction input arbitrary: a)
  case (Cons x xs)
  define a' where "a' = (if n \<le> x \<and> x < a then x else a)"
  have "r \<le> a' \<and> (\<forall>c \<in> set xs. n \<le> c \<longrightarrow> r \<le> c) \<and> (r = a' \<or> r \<in> set xs \<and> n \<le> r)"
    using Cons by (simp add: a'_def)
  then show ?case by (cases "n \<le> x \<and> x < a") (auto simp: a'_def)
qed simp

lemma next_point_min:
  assumes "c \<in> set input" "n \<le> c" "c < 1114112"
  shows "next_point n input \<in> set input" "n \<le> next_point n input" "next_point n input < 1114112"
    and "\<forall>c \<in> set input. n \<le> c \<longrightarrow> next_point n input \<le> c"
  using next_point_fold [OF next_point_def] assms by fastforce+

lemma filter_same: "(\<And>x. x \<in> set xs \<Longrightarrow> P x = Q x) \<Longrightarrow> filter P xs = filter Q xs"
  by (rule filter_cong) simp_all

text \<open>One round for a code point that is left: no overflow, and the decoder follows.\<close>

lemma round_decoded:
  assumes "\<forall>c \<in> set input. c < 1114112" and "length input \<le> 63" and "handled = length (filter (\<lambda>c. c < n) input)"
    and "nd * (handled + 1) + i + delta = n * (handled + 1)" and "handled < length input"
  obtains m delta' bias' D nd' i' where "n \<le> m" "m < 1114112" "handled < length (filter (\<lambda>c. c < m + 1) input)"
    "punycode_round input basic n (delta, bias, handled, out) =
      (if length (out @ D) > 59 then Inl (Error_New ''IDN DNS label too long'')
       else Inr (m + 1, delta', bias', length (filter (\<lambda>c. c < m + 1) input), out @ D))"
    "nd' * (length (filter (\<lambda>c. c < m + 1) input) + 1) + i' + delta' = (m + 1) * (length (filter (\<lambda>c. c < m + 1) input) + 1)"
    "CHR ''-'' \<notin> set D"
    "\<forall>rest. decode_points basic nd i bias (filter (\<lambda>c. c < n) input) (D @ rest) =
       decode_points basic nd' i' bias' (filter (\<lambda>c. c < m + 1) input) rest"
proof -
  have "filter (\<lambda>c. c < n) input \<noteq> input" using assms(3,5) by auto
  then obtain c where c: "c \<in> set input" "n \<le> c" by (auto simp: filter_id_conv not_less)
  define m where "m = next_point n input"
  note m = next_point_min [OF c, folded m_def]
  have m1: "m < 1114112" using m(3) assms(1) c(1) by blast
  have mm: "m \<in> set input" "n \<le> m" "\<forall>c \<in> set input. n \<le> c \<longrightarrow> m \<le> c" using m assms(1) c(1) by blast+
  have L: "handled_points m [] input = filter (\<lambda>c. c < n) input"
    using mm by (auto simp: handled_points_def intro!: filter_same)
  have L': "handled_points m input [] = filter (\<lambda>c. c < m + 1) input" by (auto simp: handled_points_def intro!: filter_same)
  have "(n + (m - n)) * (handled + 1) = m * (handled + 1)" using mm(2) by simp
  then have s: "in_step nd i m [] input (delta + (m - n) * (handled + 1))"
    using assms(3,4) by (simp add: in_step_def Let_def L algebra_simps)
  have "delta + (m - n) * (handled + 1) < uint32_max" using in_step_small [OF s m1] assms(2) by simp
  then have inc: "\<not> (m - n) * (handled + 1) > uint32_max - delta" by simp
  obtain delta' bias' D nd' i' where D:
    "scan_input m basic input (delta + (m - n) * (handled + 1), bias, handled, out) = Inr (delta', bias', length (filter (\<lambda>c. c < m + 1) input), out @ D)"
    "in_step nd' i' m input [] delta'" "CHR ''-'' \<notin> set D"
    "\<forall>rest. decode_points basic nd i bias (filter (\<lambda>c. c < n) input) (D @ rest) = decode_points basic nd' i' bias' (filter (\<lambda>c. c < m + 1) input) rest"
    using scan_decoded [OF s m1, of handled basic bias out] assms(2,3) by (auto simp: L L')
  have r: "punycode_round input basic n (delta, bias, handled, out) =
      (if length (out @ D) > 59 then Inl (Error_New ''IDN DNS label too long'')
       else Inr (m + 1, delta' + 1, bias', length (filter (\<lambda>c. c < m + 1) input), out @ D))"
    using inc D(1) by (simp add: punycode_round_def Let_def m_def [symmetric])
  have p: "nd' * (length (filter (\<lambda>c. c < m + 1) input) + 1) + i' + (delta' + 1) = (m + 1) * (length (filter (\<lambda>c. c < m + 1) input) + 1)"
    using D(2) L' by (simp add: in_step_def Let_def handled_points_def)
  have "handled < length (filter (\<lambda>c. c < m + 1) input)"
  proof -
    have "card {k. k < length input \<and> input ! k < n} < card {k. k < length input \<and> input ! k < m + 1}"
    proof (rule psubset_card_mono)
      obtain k where "k < length input" "input ! k = m" using mm(1) by (auto simp: in_set_conv_nth)
      then have "k \<in> {k. k < length input \<and> input ! k < m + 1} - {k. k < length input \<and> input ! k < n}" using mm(2) by simp
      moreover have "{k. k < length input \<and> input ! k < n} \<subseteq> {k. k < length input \<and> input ! k < m + 1}" using mm(2) by auto
      ultimately show "{k. k < length input \<and> input ! k < n} \<subset> {k. k < length input \<and> input ! k < m + 1}" by blast
    qed simp
    then show ?thesis using assms(3) by (simp add: length_filter_conv_card)
  qed
  from that [OF mm(2) m1 this r p D(3,4)] show ?thesis .
qed

lemma loop_decoded:
  assumes "\<forall>c \<in> set input. c < 1114112" and "length input \<le> 63" and "handled = length (filter (\<lambda>c. c < n) input)"
    and "nd * (handled + 1) + i + delta = n * (handled + 1)"
  shows "\<exists>r. punycode_loop input basic n (delta, bias, handled, out) = Some r \<and> r \<noteq> Inl idn_overflow \<and>
    (\<forall>s. r = Inr s \<longrightarrow> (\<exists>D. s = out @ D \<and> CHR ''-'' \<notin> set D \<and> decode_points basic nd i bias (filter (\<lambda>c. c < n) input) D = Some input))"
  using assms(3,4)
proof (induction "length input - handled" arbitrary: n nd i delta bias handled out rule: less_induct)
  case less
  show ?case
  proof (cases "handled < length input")
    case False
    then have "filter (\<lambda>c. c < n) input = input"
      using less.prems(1) length_filter_less [of _ input "\<lambda>c. c < n"] by (metis filter_True)
    then show ?thesis
      using False by (auto simp: punycode_loop.simps decode_points.simps)
  next
    case True
    obtain m delta' bias' D nd' i' where m: "handled < length (filter (\<lambda>c. c < m + 1) input)"
      "punycode_round input basic n (delta, bias, handled, out) =
        (if length (out @ D) > 59 then Inl (Error_New ''IDN DNS label too long'')
         else Inr (m + 1, delta', bias', length (filter (\<lambda>c. c < m + 1) input), out @ D))"
      "nd' * (length (filter (\<lambda>c. c < m + 1) input) + 1) + i' + delta' = (m + 1) * (length (filter (\<lambda>c. c < m + 1) input) + 1)"
      "CHR ''-'' \<notin> set D"
      "\<forall>rest. decode_points basic nd i bias (filter (\<lambda>c. c < n) input) (D @ rest) = decode_points basic nd' i' bias' (filter (\<lambda>c. c < m + 1) input) rest"
      using round_decoded [OF assms(1,2) less.prems True] by metis
    show ?thesis
    proof (cases "length (out @ D) > 59")
      case True': True
      then show ?thesis using True m(2) by (auto simp: punycode_loop.simps [of _ _ n] Let_def idn_overflow_def)
    next
      case short: False
      have "length input - length (filter (\<lambda>c. c < m + 1) input) < length input - handled" using m(1) True by linarith
      from less.hyps [OF this refl m(3), of bias' "out @ D"] obtain r where r:
        "punycode_loop input basic (m + 1) (delta', bias', length (filter (\<lambda>c. c < m + 1) input), out @ D) = Some r" "r \<noteq> Inl idn_overflow"
        "\<forall>s. r = Inr s \<longrightarrow> (\<exists>D'. s = (out @ D) @ D' \<and> CHR ''-'' \<notin> set D' \<and> decode_points basic nd' i' bias' (filter (\<lambda>c. c < m + 1) input) D' = Some input)"
        by blast
      have "punycode_loop input basic n (delta, bias, handled, out) = Some r"
        using True short m(2) r(1) by (subst punycode_loop.simps) (simp add: Let_def)
      moreover have "\<exists>E. s = out @ E \<and> CHR ''-'' \<notin> set E \<and> decode_points basic nd i bias (filter (\<lambda>c. c < n) input) E = Some input" if e: "r = Inr s" for s
      proof -
        obtain D' where "s = out @ D @ D'" "CHR ''-'' \<notin> set D'" "decode_points basic nd' i' bias' (filter (\<lambda>c. c < m + 1) input) D' = Some input"
          using r(3) [rule_format, OF e] by auto
        then show ?thesis using m(4,5) by (intro exI [of _ "D @ D'"]) auto
      qed
      ultimately show ?thesis using r(2) by blast
    qed
  qed
qed

lemma split_last_hyphen:
  assumes "CHR ''-'' \<notin> set D"
  shows "rev (takeWhile (\<lambda>c. c \<noteq> CHR ''-'') (rev (b @ ''-'' @ D))) = D" "rev (tl (dropWhile (\<lambda>c. c \<noteq> CHR ''-'') (rev (b @ ''-'' @ D)))) = b"
    "rev (takeWhile (\<lambda>c. c \<noteq> CHR ''-'') (rev D)) = D" "rev (tl (dropWhile (\<lambda>c. c \<noteq> CHR ''-'') (rev D))) = []"
proof -
  have D: "\<forall>c \<in> set (rev D). c \<noteq> CHR ''-''" using assms by auto
  have t: "takeWhile (\<lambda>c. c \<noteq> CHR ''-'') (rev D) = rev D" "dropWhile (\<lambda>c. c \<noteq> CHR ''-'') (rev D) = []"
    using D by (simp_all add: takeWhile_eq_all_conv dropWhile_eq_Nil_conv)
  then show "rev (takeWhile (\<lambda>c. c \<noteq> CHR ''-'') (rev D)) = D" "rev (tl (dropWhile (\<lambda>c. c \<noteq> CHR ''-'') (rev D))) = []" unfolding t by simp_all
  show "rev (takeWhile (\<lambda>c. c \<noteq> CHR ''-'') (rev (b @ ''-'' @ D))) = D" "rev (tl (dropWhile (\<lambda>c. c \<noteq> CHR ''-'') (rev (b @ ''-'' @ D)))) = b"
    using D t by (simp_all add: takeWhile_append2 dropWhile_append2 del: set_rev)
qed

lemma basic_points: "map of_char (map char_of (filter (\<lambda>c. c < 128) input) :: string) = filter (\<lambda>c. c < (128 :: nat)) input"
  by (induction input) (auto simp: of_char_of)

text \<open>What \<^verbatim>\<open>punycodeLabel\<close> returns; the property below states it.\<close>

lemma punycode_result:
  assumes "list_all (\<lambda>c. c < 1114112) label"
  shows "case punycodeLabel label of None \<Rightarrow> False | Some (Inl e) \<Rightarrow> e \<noteq> Error_New ''IDN overflow'' | Some (Inr s) \<Rightarrow> punycode_decode s = Some label"
proof (cases "length label = 0 \<or> length label > 63 \<or> (\<exists>c \<in> set label. c < 128 \<and> \<not> basic_allowed c)")
  case True
  then show ?thesis by (auto simp: punycodeLabel_def)
next
  case False
  define b where "b = (map char_of (filter (\<lambda>c. c < 128) label) :: string)"
  define out where "out = (if length b > 0 then b @ ''-'' else b)"
  have eq: "punycodeLabel label = punycode_loop label (length b) 128 (0, 72, length b, out)"
    using False by (auto simp: punycodeLabel_def Let_def b_def out_def)
  obtain r where r: "punycodeLabel label = Some r" "r \<noteq> Inl idn_overflow"
    "\<forall>s. r = Inr s \<longrightarrow> (\<exists>D. s = out @ D \<and> CHR ''-'' \<notin> set D \<and> decode_points (length b) 128 0 72 (filter (\<lambda>c. c < 128) label) D = Some label)"
    using loop_decoded [of label "length b" 128 128 0 0 "length b" 72 out] assms False
    by (auto simp: eq b_def list_all_iff)
  show ?thesis
  proof (cases r)
    case (Inl e)
    then show ?thesis using r(1,2) by (simp add: idn_overflow_def)
  next
    case (Inr s)
    then obtain D where D: "s = out @ D" "CHR ''-'' \<notin> set D" "decode_points (length b) 128 0 72 (map of_char b) D = Some label"
      using r(3) by (auto simp: b_def basic_points simp del: map_map)
    have "punycode_decode s = Some label"
      using D split_last_hyphen [OF D(2)] by (cases "b = []") (auto simp: punycode_decode_def Let_def out_def)
    then show ?thesis using r(1) Inr by simp
  qed
qed

lemma punycode_returns: "list_all (\<lambda>c. c < 1114112) label \<Longrightarrow> \<exists>r. punycodeLabel label = Some r"
  using punycode_result [of label] by (auto split: option.splits)

text \<open>
  C23: the Punycode encoder always returns, never reports an overflow, and what it returns decodes, by the
  decoder of RFC 3492, to the label it was given; so no two labels share an encoding.
\<close>

theorem punycode_inverted:
  assumes "list_all (\<lambda>c. c < 1114112) label"
  shows "case punycodeLabel label of None \<Rightarrow> False | Some (Inl e) \<Rightarrow> e \<noteq> Error_New ''IDN overflow'' | Some (Inr s) \<Rightarrow> punycode_decode s = Some label"
  by (rule punycode_result [OF assms])

lemma loop_steps:
  "handled < length input \<Longrightarrow> punycode_round input basic n (delta, bias, handled, out) = Inr (n', s') \<Longrightarrow>
    punycode_loop input basic n (delta, bias, handled, out) = punycode_loop input basic n' s'"
  "\<not> handled < length input \<Longrightarrow> punycode_loop input basic n (delta, bias, handled, out) = Some (Inr out)"
  by (simp_all add: punycode_loop.simps [of input basic n] Let_def)

lemmas punycode_eval = punycodeLabel_def loop_steps punycode_round_def next_point_def encode_delta.simps adapt_def adapt_loop.simps
  threshold_def uint32_max_def Let_def

theorem punycode_inverted_witness:
  "punycodeLabel [1087, 1088, 1080, 1084, 1077, 1088] = Some (Inr ''e1afmkfd'') \<and>
   punycode_decode ''e1afmkfd'' = Some [1087, 1088, 1080, 1084, 1077, 1088]"
proof -
  have "map digit [4, 27, 0, 5, 12, 10, 5, 3] = ''e1afmkfd''" by code_simp
  then have "punycodeLabel [1087, 1088, 1080, 1084, 1077, 1088] = Some (Inr ''e1afmkfd'')"
    by (simp add: punycode_eval del: One_nat_def)
  with punycode_inverted [of "[1087, 1088, 1080, 1084, 1077, 1088]"] show ?thesis by simp
qed

end
