(* ===== verification/Idn.thy ===== *)
theory Idn
  imports Punycode Registry
begin

text \<open>
  The provider's feed of names: \<^verbatim>\<open>registryDomain\<close> of \<^verbatim>\<open>internal/routing/idn.go\<close> and \<^verbatim>\<open>ParseRegistryDomains\<close> of
  \<^verbatim>\<open>snapshot.go\<close>. The tables of package \<^verbatim>\<open>unicode\<close> outside ASCII are a parameter.
\<close>

section \<open>Runes\<close>

text \<open>\<^verbatim>\<open>utf8.ValidString\<close> and the runes of a valid string: the bytes after the first one, and their number.\<close>

definition continues :: "nat \<Rightarrow> bool" where
  "continues b \<longleftrightarrow> 128 \<le> b \<and> b \<le> 191"

definition long_rune :: "nat \<Rightarrow> nat list \<Rightarrow> (nat \<times> nat) option" where
  "long_rune b r =
     (if 194 \<le> b \<and> b \<le> 223 then
        (case r of b1 # _ \<Rightarrow> if continues b1 then Some ((b - 192) * 64 + (b1 - 128), 1) else None | _ \<Rightarrow> None)
      else if 224 \<le> b \<and> b \<le> 239 then
        (case r of b1 # b2 # _ \<Rightarrow>
           if continues b1 \<and> (b = 224 \<longrightarrow> 160 \<le> b1) \<and> (b = 237 \<longrightarrow> b1 \<le> 159) \<and> continues b2
           then Some ((b - 224) * 4096 + (b1 - 128) * 64 + (b2 - 128), 2) else None | _ \<Rightarrow> None)
      else if 240 \<le> b \<and> b \<le> 244 then
        (case r of b1 # b2 # b3 # _ \<Rightarrow>
           if continues b1 \<and> (b = 240 \<longrightarrow> 144 \<le> b1) \<and> (b = 244 \<longrightarrow> b1 \<le> 143) \<and> continues b2 \<and> continues b3
           then Some ((b - 240) * 262144 + (b1 - 128) * 4096 + (b2 - 128) * 64 + (b3 - 128), 3) else None | _ \<Rightarrow> None)
      else None)"

function utf8_runes :: "nat list \<Rightarrow> nat list option" where
  "utf8_runes [] = Some []"
| "utf8_runes (b # r) =
     (if b < 128 then map_option ((#) b) (utf8_runes r)
      else case long_rune b r of None \<Rightarrow> None | Some (c, n) \<Rightarrow> map_option ((#) c) (utf8_runes (drop n r)))"
  by pat_completeness auto
termination by (relation "measure length") auto

record unicode =
  uc_ToLower :: "nat \<Rightarrow> nat"
  uc_ToUpper :: "nat \<Rightarrow> nat"
  uc_IsLetter :: "nat \<Rightarrow> bool"
  uc_IsNumber :: "nat \<Rightarrow> bool"

definition rune_lower :: "unicode \<Rightarrow> nat \<Rightarrow> nat" where
  "rune_lower u c = (if c < 128 then if 65 \<le> c \<and> c \<le> 90 then c + 32 else c else uc_ToLower u c)"

definition rune_upper :: "unicode \<Rightarrow> nat \<Rightarrow> nat" where
  "rune_upper u c = (if c < 128 then if 97 \<le> c \<and> c \<le> 122 then c - 32 else c else uc_ToUpper u c)"

fun split_runes :: "nat list \<Rightarrow> nat list list" where
  "split_runes [] = [[]]"
| "split_runes (c # cs) = (if c = 46 then [] # split_runes cs else case split_runes cs of l # ls \<Rightarrow> (c # l) # ls | [] \<Rightarrow> [[c]])"

fun join_dots :: "string list \<Rightarrow> string" where
  "join_dots [] = []"
| "join_dots [l] = l"
| "join_dots (l # ls) = l @ ''.'' @ join_dots ls"

section \<open>Names of the feed\<close>

definition registry_label :: "unicode \<Rightarrow> nat list \<Rightarrow> string result option" where
  "registry_label u l =
     (if l \<noteq> [] \<and> (hd l = 45 \<or> last l = 45) then Some (Inl (Error_New ''invalid registry label boundary''))
      else if \<exists>c \<in> set l. c > 127 \<and> \<not> uc_IsLetter u c \<and> \<not> uc_IsNumber u c then Some (Inl (Error_New ''unsupported registry Unicode label''))
      else if \<forall>c \<in> set l. c \<le> 127 then Some (Inr (map char_of l))
      else map_option (map_sum id (\<lambda>e. ''xn--'' @ e)) (punycodeLabel l))"

fun registry_labels :: "unicode \<Rightarrow> nat list list \<Rightarrow> string list result option" where
  "registry_labels u [] = Some (Inr [])"
| "registry_labels u (l # ls) =
     (case registry_label u l of
        None \<Rightarrow> None
      | Some (Inl e) \<Rightarrow> Some (Inl e)
      | Some (Inr s) \<Rightarrow> map_option (map_sum id (\<lambda>ss. s # ss)) (registry_labels u ls))"

definition registryDomain :: "unicode \<Rightarrow> string \<Rightarrow> string result option" where
  "registryDomain u raw =
     (case utf8_runes (map of_char raw) of
        None \<Rightarrow> Some (Inl (Error_New ''invalid registry name''))
      | Some runes \<Rightarrow>
          if length raw > 1024 then Some (Inl (Error_New ''invalid registry name''))
          else if \<exists>c \<in> set runes. c > 127 \<and> rune_lower u c \<noteq> c \<and> rune_upper u (rune_lower u c) \<noteq> c
          then Some (Inl (Error_New ''unsupported registry Unicode case fold''))
          else let trimmed = (if runes \<noteq> [] \<and> last runes = 46 then butlast runes else runes) in
            map_option (\<lambda>r. bind_result r (\<lambda>ls. CanonicalDomain (join_dots ls))) (registry_labels u (split_runes (map (rune_lower u) trimmed))))"

section \<open>The feed\<close>

text \<open>\<open>Inl\<close> carries the number of entries rejected so far and the error.\<close>

fun registry_items :: "unicode \<Rightarrow> string list \<Rightarrow> nat \<Rightarrow> string list \<Rightarrow> ((nat \<times> go_error) + (string list \<times> nat)) option" where
  "registry_items u vals rejected [] = Some (Inr (vals, rejected))"
| "registry_items u vals rejected (raw # rest) =
     (let line = trim_space raw in
      if line = '''' \<or> hd line = CHR ''#'' then registry_items u vals rejected rest
      else if length vals \<ge> MaxDomains then Some (Inl (rejected, Error_New ''registry domain limit exceeded''))
      else case registryDomain u line of
        None \<Rightarrow> None
      | Some r \<Rightarrow>
          if (case r of Inl _ \<Rightarrow> True | Inr d \<Rightarrow> LocalDomain d)
          then if int (rejected + 1) > MaxRejectedDomains then Some (Inl (rejected + 1, Error_New ''registry malformed entry limit exceeded''))
               else registry_items u vals (rejected + 1) rest
          else registry_items u (vals @ [projr r]) rejected rest)"

definition ParseRegistryDomains :: "unicode \<Rightarrow> string \<times> go_error option \<Rightarrow> ((nat \<times> go_error) + (string list \<times> nat)) option" where
  "ParseRegistryDomains u r =
     (let scanned = scan_lines (take (MaxListBytes + 1) (fst r)) in
      map_option (\<lambda>x. case x of
          Inl e \<Rightarrow> Inl e
        | Inr (vals, rejected) \<Rightarrow>
            if snd r \<noteq> None \<or> snd scanned \<or> length (fst r) > MaxListBytes
            then Inl (rejected, Error_New ''registry list exceeds size or line limit'')
            else if length vals = 0 \<or> rejected * 1000 > length vals + rejected
            then Inl (rejected, Error_New ''registry malformed entry ratio exceeded'')
            else Inr (uniqueSorted vals, rejected))
        (registry_items u [] 0 (fst scanned)))"

section \<open>Every name is encoded, none by guessing\<close>

definition unicode_ok :: "unicode \<Rightarrow> bool" where
  "unicode_ok u \<longleftrightarrow> (\<forall>c < 1114112. uc_ToLower u c < 1114112)"

lemma long_rune_bound: "long_rune b r = Some (c, n) \<Longrightarrow> c < 1114112"
  by (auto simp: long_rune_def continues_def split: if_splits list.splits)

lemma utf8_runes_bound: "utf8_runes bs = Some rs \<Longrightarrow> \<forall>b \<in> set bs. b < 256 \<Longrightarrow> c \<in> set rs \<Longrightarrow> c < 1114112"
proof (induction bs arbitrary: rs rule: utf8_runes.induct)
  case (2 b r)
  show ?case
  proof (cases "b < 128")
    case True
    then show ?thesis using 2 by auto
  next
    case False
    then obtain x n rs' where x: "long_rune b r = Some (x, n)" "utf8_runes (drop n r) = Some rs'" "rs = x # rs'"
      using "2.prems"(1) by (auto split: option.splits)
    moreover have "\<forall>b \<in> set (drop n r). b < 256" using "2.prems"(2) by (auto dest: in_set_dropD)
    ultimately show ?thesis using 2(2) [OF False x(1) refl x(2)] "2.prems"(3) long_rune_bound [OF x(1)] by auto
  qed
qed simp

lemma split_runes_set: "l \<in> set (split_runes cs) \<Longrightarrow> set l \<subseteq> set cs"
  by (induction cs arbitrary: l rule: split_runes.induct) (fastforce split: if_splits list.splits)+

lemma registry_label_returns:
  assumes "\<forall>c \<in> set l. c < 1114112"
  shows "\<exists>r. registry_label u l = Some r"
  using assms punycode_returns [of l] by (auto simp: registry_label_def list_all_iff)

lemma registry_labels_return: "(\<And>l c. l \<in> set ls \<Longrightarrow> c \<in> set l \<Longrightarrow> c < 1114112) \<Longrightarrow> \<exists>r. registry_labels u ls = Some r"
proof (induction ls)
  case (Cons l ls)
  obtain r where r: "registry_label u l = Some r" using registry_label_returns [of l u] Cons.prems by auto
  show ?case using Cons.IH Cons.prems r by (cases r) auto
qed simp

lemma registryDomain_returns:
  assumes "unicode_ok u"
  shows "\<exists>r. registryDomain u raw = Some r"
proof (cases "utf8_runes (map of_char raw)")
  case None
  then show ?thesis by (simp add: registryDomain_def)
next
  case (Some runes)
  have b: "c < 1114112" if "c \<in> set runes" for c using utf8_runes_bound [OF Some _ that] by auto
  have "\<exists>r. registry_labels u (split_runes (map (rune_lower u) t)) = Some r" if t: "set t \<subseteq> set runes" for t
  proof (rule registry_labels_return)
    fix l c assume "l \<in> set (split_runes (map (rune_lower u) t))" "c \<in> set l"
    then obtain c' where "c' \<in> set t" "c = rune_lower u c'" using split_runes_set by fastforce
    then show "c < 1114112" using b [of c'] t assms by (auto simp: rune_lower_def unicode_ok_def)
  qed
  then show ?thesis using Some by (auto simp: registryDomain_def Let_def dest: in_set_butlastD)
qed

lemma registryDomain_canonical: "registryDomain u raw = Some (Inr d) \<Longrightarrow> CanonicalDomain d = Inr d"
  by (auto simp: registryDomain_def Let_def split: option.splits if_splits dest: canonical_idem)

lemma registry_items_props:
  assumes "registry_items u vals rejected ls = Some (Inr (vs, k))" and "\<forall>v \<in> set vals. good_domain v"
    and "length vals \<le> MaxDomains" and "int rejected \<le> MaxRejectedDomains"
  shows "(\<forall>v \<in> set vs. good_domain v) \<and> length vs \<le> MaxDomains \<and> int k \<le> MaxRejectedDomains"
  using assms
proof (induction u vals rejected ls rule: registry_items.induct)
  case (2 u vals rejected raw rest)
  show ?case
  proof (cases "trim_space raw = [] \<or> hd (trim_space raw) = CHR ''#''")
    case True
    then show ?thesis using 2(1) [OF refl True] "2.prems" by auto
  next
    case False
    then have len: "\<not> MaxDomains \<le> length vals" using "2.prems"(1) by (auto simp: Let_def split: if_splits)
    with False obtain r where r: "registryDomain u (trim_space raw) = Some r" using "2.prems"(1) by (auto simp: Let_def split: option.splits)
    show ?thesis
    proof (cases "case r of Inl _ \<Rightarrow> True | Inr d \<Rightarrow> LocalDomain d")
      case bad: True
      then have "\<not> int (rejected + 1) > MaxRejectedDomains" using "2.prems"(1) False len r by (auto simp: Let_def split: if_splits)
      then show ?thesis using 2(2) [OF refl False len r bad] "2.prems" False len r bad by (auto simp: Let_def)
    next
      case good: False
      then obtain d where d: "r = Inr d" "\<not> LocalDomain d" by (auto split: sum.splits)
      then have "good_domain d" using registryDomain_canonical [of u "trim_space raw" d] r by (simp add: good_domain_def)
      then show ?thesis using 2(3) [OF refl False len r good] "2.prems" False len r good d by (auto simp: Let_def)
    qed
  qed
qed simp

lemma registry_items_return: "unicode_ok u \<Longrightarrow> \<exists>x. registry_items u vals rejected ls = Some x"
proof (induction u vals rejected ls rule: registry_items.induct)
  case (2 u vals rejected raw rest)
  obtain r where "registryDomain u (trim_space raw) = Some r" using registryDomain_returns [OF "2.prems"] by blast
  then show ?case using 2 by (auto simp: Let_def)
qed simp

text \<open>
  C32: reading the provider's feed always ends, and what it yields is fit for a snapshot: together with a
  parsed list of subnets it passes \<^verbatim>\<open>ValidateSnapshot\<close> with the number of rejected entries, that is, every
  name is a canonical A-label form and not local, the list is sorted without repetition, and at most 1024
  entries were left out. For the subnets, reading back a printed prefix must give the same prefix.
\<close>

theorem registry_feed_validates:
  assumes "unicode_ok u" and "ParseSubnets rc = Inr cs" and "generation \<noteq> 0" and "\<not> is_zero created"
    and "\<forall>l p. l \<in> set (list_lines rc) \<and> CanonicalPrefix l = Inr p \<longrightarrow> ParsePrefix (prefix_String p) = Inr p"
  shows "case ParseRegistryDomains u rd of None \<Rightarrow> False | Some (Inl _) \<Rightarrow> True | Some (Inr (ds, rejected)) \<Rightarrow>
    ValidateSnapshot \<lparr>rs_Generation = generation, rs_CreatedAt = created, rs_Domains = ds, rs_CIDRs = cs, rs_RejectedDomains = int rejected\<rparr> = None"
proof -
  obtain x where x: "registry_items u [] 0 (fst (scan_lines (take (MaxListBytes + 1) (fst rd)))) = Some x"
    using registry_items_return [OF assms(1)] by blast
  have "ValidateSnapshot \<lparr>rs_Generation = generation, rs_CreatedAt = created, rs_Domains = uniqueSorted vals, rs_CIDRs = cs, rs_RejectedDomains = int k\<rparr> = None"
    if "x = Inr (vals, k)" for vals k
    using registry_items_props [OF x [unfolded that]] parsed_subnets [OF assms(2,5)] assms(3,4) uniqueSorted_length [of vals]
    by (simp add: ValidateSnapshot_def domains_ok_iff uniqueSorted_set uniqueSorted_sorted MaxRejectedDomains_def)
  then show ?thesis using x by (auto simp: ParseRegistryDomains_def Let_def split: sum.splits)
qed

definition sample_unicode :: unicode where
  "sample_unicode = \<lparr>uc_ToLower = id, uc_ToUpper = id, uc_IsLetter = (\<lambda>c. 1072 \<le> c \<and> c \<le> 1103), uc_IsNumber = (\<lambda>_. False)\<rparr>"

text \<open>A Russian name of eight letters in UTF-8.\<close>

definition sample_idn :: string where
  "sample_idn = map char_of [208, 191, 209, 128, 208, 184, 208, 188, 208, 181, 209, 128, 46, 209, 128, 209, 132 :: nat]"

lemma sample_idn_domain: "registryDomain sample_unicode sample_idn = Some (Inr ''xn--e1afmkfd.xn--p1ai'')"
proof -
  have runes: "utf8_runes (map of_char sample_idn) = Some [1087, 1088, 1080, 1084, 1077, 1088, 46, 1088, 1092]" "length sample_idn = 17"
    by code_simp+
  have "map digit [4, 27, 0, 5, 12, 10, 5, 3] = ''e1afmkfd''" "map digit [15, 27, 0, 8] = ''p1ai''" by code_simp+
  then have p: "punycodeLabel [1087, 1088, 1080, 1084, 1077, 1088] = Some (Inr ''e1afmkfd'')" "punycodeLabel [1088, 1092] = Some (Inr ''p1ai'')"
    by (simp_all add: punycode_eval del: One_nat_def)
  have "CanonicalDomain ''xn--e1afmkfd.xn--p1ai'' = Inr ''xn--e1afmkfd.xn--p1ai''" by code_simp
  then show ?thesis
    by (simp add: registryDomain_def runes rune_lower_def rune_upper_def registry_label_def p sample_unicode_def Let_def)
qed

theorem registry_feed_validates_witness:
  "ParseRegistryDomains sample_unicode (sample_list [sample_idn, ''Example.com'', ''# note'', sample_idn]) =
     Some (Inr ([''example.com'', ''xn--e1afmkfd.xn--p1ai''], 0)) \<and>
   ParseSubnets (sample_list [''8.8.8.0/24'']) = Inr [''8.8.8.0/24''] \<and>
   ValidateSnapshot \<lparr>rs_Generation = 1, rs_CreatedAt = 5, rs_Domains = [''example.com'', ''xn--e1afmkfd.xn--p1ai''],
     rs_CIDRs = [''8.8.8.0/24''], rs_RejectedDomains = 0\<rparr> = None"
proof -
  let ?rd = "sample_list [sample_idn, ''Example.com'', ''# note'', sample_idn]"
  have scan: "scan_lines (fst ?rd) = ([sample_idn, ''Example.com'', ''# note'', sample_idn], False)" by code_simp
  have trim: "trim_space sample_idn = sample_idn" "trim_space ''Example.com'' = ''Example.com''" "trim_space ''# note'' = ''# note''" by code_simp+
  have first: "sample_idn \<noteq> []" "hd sample_idn \<noteq> CHR ''#''" by code_simp+
  have dom: "registryDomain sample_unicode ''Example.com'' = Some (Inr ''example.com'')" by code_simp
  have nonlocal: "\<not> LocalDomain ''example.com''" "\<not> LocalDomain ''xn--e1afmkfd.xn--p1ai''" by code_simp+
  have us: "uniqueSorted [''xn--e1afmkfd.xn--p1ai'', ''example.com'', ''xn--e1afmkfd.xn--p1ai''] = [''example.com'', ''xn--e1afmkfd.xn--p1ai'']" by code_simp
  have small: "length (fst ?rd) \<le> MaxListBytes" "snd ?rd = None" by (simp_all add: sample_list_def MaxListBytes_def sample_idn_def)
  have pd: "ParseRegistryDomains sample_unicode ?rd = Some (Inr ([''example.com'', ''xn--e1afmkfd.xn--p1ai''], 0))"
    using small by (simp add: ParseRegistryDomains_def Let_def scan trim first sample_idn_domain dom nonlocal MaxDomains_def us)
  moreover have "unicode_ok sample_unicode" by (simp add: unicode_ok_def sample_unicode_def)
  ultimately show ?thesis
    using registry_feed_validates [OF _ sample_subnets(1) _ _ sample_subnets(2), of sample_unicode 1 5 ?rd] sample_subnets(1) by (simp add: is_zero_def)
qed

end
