(* ===== verification/Maintenance_Plan.thy ===== *)
theory Maintenance_Plan
  imports Registry Validation "HOL-Library.Multiset"
begin

text \<open>
  The planner of package changes, \<^verbatim>\<open>internal/maintenance/planner.go\<close> with \<^verbatim>\<open>ValidateRequest\<close> of \<^verbatim>\<open>validate.go\<close>: it
  resolves the dependencies of the requested components among the packages of a verified bundle. The
  inventory and the comparison of versions come from the package manager, the hashes from a
  cryptographic library; both are fields of the environment.
\<close>

section \<open>Data\<close>

record maintenance_request =
  rq_Action :: string
  rq_BundleID :: string
  rq_Components :: "string list"
  rq_ExpectedInstalledDigest :: string
  rq_RemovalPolicy :: string

record package =
  pk_Name :: string
  pk_Version :: string
  pk_Architecture :: string
  pk_SHA256 :: string
  pk_Bytes :: int

text \<open>The planner reads of a package's metadata its dependencies and its expanded size.\<close>

record package_metadata =
  pm_Package :: package
  pm_Depends :: string
  pm_ExpandedBytes :: int

record bundle_record =
  bu_Version :: string
  bu_Architecture :: string
  bu_Metadata :: "package_metadata list"

record inventory =
  in_Architecture :: string
  in_Packages :: "(string, string) gomap"
  in_AvailableBytes :: int

record maintenance_plan =
  mp_Request :: maintenance_request
  mp_Digest :: string
  mp_InstalledDigest :: string
  mp_Packages :: "package list"
  mp_Warnings :: "string list"

record dependency =
  dp_Name :: string
  dp_Operator :: string
  dp_Version :: string

record planner_env =
  me_inventory :: "inventory result"
  me_compare :: "string \<Rightarrow> string \<Rightarrow> string \<Rightarrow> bool result"
  me_inventory_hash :: "string \<Rightarrow> (string, string) gomap \<Rightarrow> bytes"
  me_plan_hash :: "maintenance_plan \<Rightarrow> bytes"

definition installed :: "inventory \<Rightarrow> string \<Rightarrow> string" where
  "installed stock name = (case map_of (in_Packages stock) name of None \<Rightarrow> '''' | Some v \<Rightarrow> v)"

section \<open>Requests\<close>

definition hexID :: "string \<Rightarrow> bool" where
  "hexID s = matches is_lower_hex 32 32 s"

definition hashID :: "string \<Rightarrow> bool" where
  "hashID s = matches is_lower_hex 64 64 s"

definition maintained_components :: "string list" where
  "maintained_components = [''routeharbor'', ''routeharbor-sing-box'', ''routeharbor-xray'', ''routeharbor-conntrack'', ''routeharbor-continuity'']"

fun components_error :: "string list \<Rightarrow> string list \<Rightarrow> go_error option" where
  "components_error seen [] = None"
| "components_error seen (c # cs) =
     (if c \<in> set maintained_components then
        if c \<in> set seen then Some (Error_New ''maintenance_duplicate_component'') else components_error (c # seen) cs
      else if c = ''routeharbor-guard'' then Some (Error_New ''maintenance_guard_replacement_unsupported'')
      else Some (Error_New ''maintenance_component_unsupported''))"

definition ValidateRequest :: "maintenance_request \<Rightarrow> bool \<Rightarrow> go_error option" where
  "ValidateRequest q start =
     (if rq_Action q \<noteq> ''install'' \<and> rq_Action q \<noteq> ''upgrade'' \<and> rq_Action q \<noteq> ''remove'' then Some (Error_New ''maintenance_action_invalid'')
      else if length (rq_Components q) = 0 \<or> length (rq_Components q) > 5 then Some (Error_New ''maintenance_components_invalid'')
      else case components_error [] (rq_Components q) of Some e \<Rightarrow> Some e | None \<Rightarrow>
        if rq_Action q = ''remove'' \<and>
          (rq_BundleID q \<noteq> '''' \<or> (rq_RemovalPolicy q \<noteq> ''preserve-closed'' \<and> rq_RemovalPolicy q \<noteq> ''restore-direct''))
        then Some (Error_New ''maintenance_removal_policy_required'')
        else if rq_Action q \<noteq> ''remove'' \<and> (\<not> hexID (rq_BundleID q) \<or> rq_RemovalPolicy q \<noteq> '''')
        then Some (Error_New ''maintenance_bundle_id_invalid'')
        else if (start \<or> rq_ExpectedInstalledDigest q \<noteq> '''') \<and> \<not> hashID (rq_ExpectedInstalledDigest q)
        then Some (Error_New ''maintenance_installed_digest_required'')
        else None)"

record wire_request =
  wr_Action :: string
  wr_ID :: string
  wr_Request :: "maintenance_request option"

definition ValidateWire :: "wire_request \<Rightarrow> go_error option" where
  "ValidateWire w =
     (let invalid = Some (Error_New ''maintenance_request_invalid'') in
      if wr_Action w = ''capabilities'' \<or> wr_Action w = ''bundles''
      then if wr_ID w \<noteq> '''' \<or> wr_Request w \<noteq> None then invalid else None
      else if wr_Action w = ''plan''
      then if wr_ID w \<noteq> '''' then invalid else (case wr_Request w of None \<Rightarrow> invalid | Some q \<Rightarrow> ValidateRequest q False)
      else if wr_Action w = ''start''
      then if \<not> hexID (wr_ID w) then invalid else (case wr_Request w of None \<Rightarrow> invalid | Some q \<Rightarrow> ValidateRequest q True)
      else if wr_Action w = ''status'' then if \<not> hexID (wr_ID w) \<or> wr_Request w \<noteq> None then invalid else None
      else Some (Error_New ''maintenance_action_invalid''))"

section \<open>Dependencies\<close>

definition name_char :: "char \<Rightarrow> bool" where
  "name_char c \<longleftrightarrow> is_lower c \<or> is_digit c \<or> c \<in> set ''+.-''"

definition version_char :: "char \<Rightarrow> bool" where
  "version_char c \<longleftrightarrow> is_lower c \<or> is_upper c \<or> is_digit c \<or> c \<in> set ''.+:~_-''"

definition packageName :: "string \<Rightarrow> bool" where
  "packageName s \<longleftrightarrow> matches name_char 1 80 s \<and> (is_lower (hd s) \<or> is_digit (hd s))"

definition packageVersion :: "string \<Rightarrow> bool" where
  "packageVersion s \<longleftrightarrow> matches version_char 1 128 s \<and> (is_lower (hd s) \<or> is_upper (hd s) \<or> is_digit (hd s))"

definition packageArchitecture :: "string \<Rightarrow> bool" where
  "packageArchitecture s \<longleftrightarrow>
     matches (\<lambda>c. is_lower c \<or> is_upper c \<or> is_digit c \<or> c \<in> set ''_+.-'') 1 64 s \<and> (is_lower (hd s) \<or> is_upper (hd s) \<or> is_digit (hd s))"

definition regex_space :: "char \<Rightarrow> bool" where
  "regex_space c \<longleftrightarrow> (of_char c :: nat) \<in> {9, 10, 12, 13, 32}"

definition dependency_operators :: "string list" where
  "dependency_operators = [''='', ''>='', ''<='', ''>>'', ''<<'', ''>'', ''<'']"

text \<open>
  A match of \<^verbatim>\<open>dependencyPattern\<close>: a name and, in parentheses, an operator and a version. The parts use disjoint
  characters, so that only one split can match.
\<close>

definition dependency_match :: "string \<Rightarrow> dependency option" where
  "dependency_match s =
     (let name = takeWhile name_char s; rest = dropWhile name_char s in
      if \<not> packageName name then None
      else if rest = [] then Some \<lparr>dp_Name = name, dp_Operator = '''', dp_Version = ''''\<rparr>
      else case dropWhile regex_space rest of
        [] \<Rightarrow> None
      | c # r \<Rightarrow>
          if c \<noteq> CHR ''('' then None
          else case find (\<lambda>op. take (length op) r = op) dependency_operators of
            None \<Rightarrow> None
          | Some op \<Rightarrow>
              let v = dropWhile regex_space (drop (length op) r); version = takeWhile version_char v in
              if packageVersion version \<and> dropWhile version_char v = '')''
              then Some \<lparr>dp_Name = name, dp_Operator = op, dp_Version = version\<rparr> else None)"

fun split_commas :: "string \<Rightarrow> string list" where
  "split_commas [] = [[]]"
| "split_commas (c # cs) = (if c = CHR '','' then [] # split_commas cs else case split_commas cs of l # ls \<Rightarrow> (c # l) # ls | [] \<Rightarrow> [[c]])"

fun collect_dependencies :: "dependency list \<Rightarrow> string list \<Rightarrow> dependency list result" where
  "collect_dependencies acc [] = Inr acc"
| "collect_dependencies acc (e # es) =
     (case dependency_match (trim_space e) of
        None \<Rightarrow> Inl (Error_New ''maintenance_dependency_format_unsupported'')
      | Some d \<Rightarrow>
          if length acc \<ge> 64 then Inl (Error_New ''maintenance_dependency_format_unsupported'')
          else collect_dependencies (acc @ [d]) es)"

definition dependencies :: "string \<Rightarrow> dependency list result" where
  "dependencies raw =
     (if raw = '''' then Inr []
      else if length raw > 8192 then Inl (Error_New ''maintenance_dependency_limit'')
      else collect_dependencies [] (split_commas raw))"

definition inventoryDigest :: "planner_env \<Rightarrow> inventory \<Rightarrow> string result" where
  "inventoryDigest env stock =
     (if \<not> packageArchitecture (in_Architecture stock) \<or> length (in_Packages stock) > 4096 then Inl (Error_New ''maintenance_inventory_invalid'')
      else if \<exists>(name, version) \<in> set (in_Packages stock). \<not> packageName name \<or> \<not> packageVersion version
      then Inl (Error_New ''maintenance_inventory_invalid'')
      else Inr (hex_encode (me_inventory_hash env (in_Architecture stock) (in_Packages stock))))"

section \<open>Resolution\<close>

definition candidate :: "bundle_record \<Rightarrow> string \<Rightarrow> package_metadata option" where
  "candidate bu name = map_of (rev (map (\<lambda>m. (pk_Name (pm_Package m), m)) (bu_Metadata bu))) name"

text \<open>An installed package is replaced by the same version or a newer one.\<close>

definition check_upgrade :: "planner_env \<Rightarrow> inventory \<Rightarrow> package_metadata \<Rightarrow> go_error option" where
  "check_upgrade env stock c =
     (let current = installed stock (pk_Name (pm_Package c)) in
      if current = '''' then None
      else case me_compare env (pk_Version (pm_Package c)) ''>='' current of
        Inl e \<Rightarrow> Some e
      | Inr ok \<Rightarrow> if ok then None else Some (Error_New ''maintenance_downgrade_rejected''))"

definition installed_satisfies :: "planner_env \<Rightarrow> inventory \<Rightarrow> dependency \<Rightarrow> bool result" where
  "installed_satisfies env stock d =
     (if installed stock (dp_Name d) = '''' then Inr False
      else if dp_Operator d = '''' then Inr True
      else me_compare env (installed stock (dp_Name d)) (dp_Operator d) (dp_Version d))"

definition candidate_version :: "bundle_record \<Rightarrow> string \<Rightarrow> string" where
  "candidate_version bu name = (case candidate bu name of None \<Rightarrow> '''' | Some c \<Rightarrow> pk_Version (pm_Package c))"

definition candidate_satisfies :: "planner_env \<Rightarrow> bundle_record \<Rightarrow> dependency \<Rightarrow> bool result" where
  "candidate_satisfies env bu d =
     (if dp_Operator d = '''' then Inr True else me_compare env (candidate_version bu (dp_Name d)) (dp_Operator d) (dp_Version d))"

definition source_version :: "string \<Rightarrow> string" where
  "source_version v = takeWhile (\<lambda>c. c \<noteq> CHR ''-'') v"

definition unvisited :: "bundle_record \<Rightarrow> string list \<Rightarrow> nat" where
  "unvisited bu V = card (set (map (\<lambda>m. pk_Name (pm_Package m)) (bu_Metadata bu)) - set V)"

lemma candidate_Some: "candidate bu name = Some c \<Longrightarrow> c \<in> set (bu_Metadata bu) \<and> pk_Name (pm_Package c) = name"
  by (auto simp: candidate_def dest!: map_of_SomeD)

lemma unvisited_less: "name \<notin> set V \<Longrightarrow> candidate bu name = Some c \<Longrightarrow> unvisited bu (name # V) < unvisited bu V"
  unfolding unvisited_def by (rule psubset_card_mono) (use candidate_Some [of bu name c] in auto)

text \<open>
  The recursive closure \<^verbatim>\<open>add\<close>, which marks a name as visited while its dependencies are resolved: \<open>V\<close> holds the
  names marked, which are those of the calls that have not returned. The state is the selected names
  and the packages of the plan.
\<close>

type_synonym selection_state = "string list \<times> package list"

function add :: "planner_env \<Rightarrow> inventory \<Rightarrow> bundle_record \<Rightarrow> string list \<Rightarrow> string \<Rightarrow> selection_state \<Rightarrow> selection_state result"
  and add_deps :: "planner_env \<Rightarrow> inventory \<Rightarrow> bundle_record \<Rightarrow> string list \<Rightarrow> dependency list \<Rightarrow> selection_state \<Rightarrow> selection_state result" where
  "add env stock bu V name st =
     (if name \<in> set (fst st) then Inr st
      else if name \<in> set V then Inl (Error_New ''maintenance_dependency_cycle'')
      else case candidate bu name of
        None \<Rightarrow> Inl (Error_New ''maintenance_dependency_not_staged'')
      | Some c \<Rightarrow>
          if name = ''routeharbor-guard'' \<or> name = ''routeharbor-node'' then Inl (Error_New ''maintenance_guard_or_node_replacement_unsupported'')
          else if name = ''routeharbor'' \<and> source_version (pk_Version (pm_Package c)) \<noteq> bu_Version bu
          then Inl (Error_New ''maintenance_source_version_mismatch'')
          else case check_upgrade env stock c of
            Some e \<Rightarrow> Inl e
          | None \<Rightarrow>
              (case dependencies (pm_Depends c) of
                 Inl e \<Rightarrow> Inl e
               | Inr deps \<Rightarrow>
                   (case add_deps env stock bu (name # V) deps st of
                      Inl e \<Rightarrow> Inl e
                    | Inr (selected, packages) \<Rightarrow> Inr (selected @ [name], packages @ [pm_Package c]))))"
| "add_deps env stock bu V [] st = Inr st"
| "add_deps env stock bu V (d # ds) st =
     (case installed_satisfies env stock d of
        Inl e \<Rightarrow> Inl e
      | Inr satisfied \<Rightarrow>
          if satisfied then add_deps env stock bu V ds st
          else (case add env stock bu V (dp_Name d) st of
                  Inl e \<Rightarrow> Inl e
                | Inr st' \<Rightarrow>
                    (case candidate_satisfies env bu d of
                       Inl e \<Rightarrow> Inl e
                     | Inr ok \<Rightarrow> if ok then add_deps env stock bu V ds st' else Inl (Error_New ''maintenance_dependency_version_mismatch''))))"
  by pat_completeness auto

termination
  by (relation "measures [\<lambda>x. case x of Inl (env, stock, bu, V, name, st) \<Rightarrow> unvisited bu V | Inr (env, stock, bu, V, ds, st) \<Rightarrow> unvisited bu V,
      \<lambda>x. case x of Inl _ \<Rightarrow> 0 | Inr (env, stock, bu, V, ds, st) \<Rightarrow> Suc (length ds)]")
    (auto simp: unvisited_less)

declare add.simps [simp del]

fun add_components :: "planner_env \<Rightarrow> inventory \<Rightarrow> bundle_record \<Rightarrow> string \<Rightarrow> string list \<Rightarrow> selection_state \<Rightarrow> selection_state result" where
  "add_components env stock bu action [] st = Inr st"
| "add_components env stock bu action (c # cs) st =
     (if action = ''upgrade'' \<and> installed stock c = '''' then Inl (Error_New ''maintenance_upgrade_requires_installed_component'')
      else case add env stock bu [] c st of Inl e \<Rightarrow> Inl e | Inr st' \<Rightarrow> add_components env stock bu action cs st')"

definition required_bytes :: "bundle_record \<Rightarrow> string list \<Rightarrow> int" where
  "required_bytes bu names =
     sum_list (map (\<lambda>n. case candidate bu n of None \<Rightarrow> 0 | Some c \<Rightarrow> pm_ExpandedBytes c + pk_Bytes (pm_Package c)) names)"

text \<open>Installing and upgrading; the sum of sizes is an \<^verbatim>\<open>int64\<close>.\<close>

definition install_packages :: "planner_env \<Rightarrow> inventory \<Rightarrow> bundle_record \<Rightarrow> maintenance_request \<Rightarrow> package list result" where
  "install_packages env stock bu q =
     (if bu_Architecture bu \<noteq> in_Architecture stock then Inl (Error_New ''maintenance_architecture_mismatch'')
      else case add_components env stock bu (rq_Action q) (rq_Components q) ([], []) of
        Inl e \<Rightarrow> Inl e
      | Inr (selected, packages) \<Rightarrow>
          if wrap64 (required_bytes bu selected) > in_AvailableBytes stock then Inl (Error_New ''maintenance_insufficient_storage'')
          else Inr packages)"

text \<open>Removing: the controller takes its installed companions along.\<close>

definition companions :: "string list" where
  "companions = [''routeharbor-sing-box'', ''routeharbor-xray'', ''routeharbor-conntrack'', ''routeharbor-continuity'']"

definition remove_packages :: "inventory \<Rightarrow> maintenance_request \<Rightarrow> package list" where
  "remove_packages stock q =
     (let selected = remdups (rq_Components q @
            (if ''routeharbor'' \<in> set (rq_Components q) then filter (\<lambda>n. installed stock n \<noteq> '''') companions else []))
      in map (\<lambda>n. \<lparr>pk_Name = n, pk_Version = installed stock n, pk_Architecture = in_Architecture stock, pk_SHA256 = '''', pk_Bytes = 0\<rparr>)
           (filter (\<lambda>n. installed stock n \<noteq> '''') selected))"

definition plan_warnings :: "maintenance_request \<Rightarrow> string list" where
  "plan_warnings q =
     [if rq_Action q = ''remove'' \<and> rq_RemovalPolicy q = ''restore-direct''
      then ''Explicit removal policy restores ordinary direct routing; the guard package remains installed.''
      else ''Routing remains guarded until a fresh network transaction is confirmed.'',
      ''The guard package and existing native engines are retained on controller removal.'']"

definition makePlan :: "planner_env \<Rightarrow> maintenance_request \<Rightarrow> bundle_record \<Rightarrow> maintenance_plan result" where
  "makePlan env q0 bu =
     (case ValidateRequest q0 False of
        Some e \<Rightarrow> Inl e
      | None \<Rightarrow> bind_result (me_inventory env) (\<lambda>stock. bind_result (inventoryDigest env stock) (\<lambda>digest.
          if rq_ExpectedInstalledDigest q0 \<noteq> '''' \<and> rq_ExpectedInstalledDigest q0 \<noteq> digest
          then Inl (Error_New ''maintenance_installed_state_conflict'')
          else if installed stock ''routeharbor-guard'' = '''' then Inl (Error_New ''maintenance_guard_required'')
          else let q = q0\<lparr>rq_Components := sort (rq_Components q0), rq_ExpectedInstalledDigest := digest\<rparr> in
            bind_result (if rq_Action q = ''remove'' then Inr (remove_packages stock q) else install_packages env stock bu q) (\<lambda>packages.
              let plan = \<lparr>mp_Request = q, mp_Digest = '''', mp_InstalledDigest = digest, mp_Packages = sort_key pk_Name packages,
                mp_Warnings = plan_warnings q\<rparr>
              in Inr (plan\<lparr>mp_Digest := hex_encode (me_plan_hash env plan)\<rparr>)))))"

section \<open>What resolution establishes\<close>

definition met :: "planner_env \<Rightarrow> inventory \<Rightarrow> bundle_record \<Rightarrow> package list \<Rightarrow> dependency \<Rightarrow> bool" where
  "met env stock bu pkgs d \<longleftrightarrow> installed_satisfies env stock d = Inr True \<or>
     (\<exists>p \<in> set pkgs. pk_Name p = dp_Name d) \<and> candidate_satisfies env bu d = Inr True"

definition planned :: "planner_env \<Rightarrow> inventory \<Rightarrow> bundle_record \<Rightarrow> package list \<Rightarrow> package \<Rightarrow> bool" where
  "planned env stock bu pkgs p \<longleftrightarrow> (\<exists>c deps. candidate bu (pk_Name p) = Some c \<and> pm_Package c = p \<and>
     pk_Name p \<noteq> ''routeharbor-guard'' \<and> pk_Name p \<noteq> ''routeharbor-node'' \<and> check_upgrade env stock c = None \<and>
     dependencies (pm_Depends c) = Inr deps \<and> (\<forall>d \<in> set deps. met env stock bu pkgs d))"

definition resolved :: "planner_env \<Rightarrow> inventory \<Rightarrow> bundle_record \<Rightarrow> selection_state \<Rightarrow> bool" where
  "resolved env stock bu st \<longleftrightarrow> fst st = map pk_Name (snd st) \<and> distinct (fst st) \<and> (\<forall>p \<in> set (snd st). planned env stock bu (snd st) p)"

text \<open>A call grows the selection, never by a name that is being visited.\<close>

definition grown :: "string list \<Rightarrow> selection_state \<Rightarrow> selection_state \<Rightarrow> bool" where
  "grown V st st' \<longleftrightarrow> set (snd st) \<subseteq> set (snd st') \<and> (set (fst st') - set (fst st)) \<inter> set V = {}"

lemma met_mono: "met env stock bu pkgs d \<Longrightarrow> set pkgs \<subseteq> set pkgs' \<Longrightarrow> met env stock bu pkgs' d"
  by (auto simp: met_def)

lemma planned_mono: "planned env stock bu pkgs p \<Longrightarrow> set pkgs \<subseteq> set pkgs' \<Longrightarrow> planned env stock bu pkgs' p"
  unfolding planned_def using met_mono by blast

lemma grown_refl: "grown V st st"
  by (simp add: grown_def)

lemma grown_trans: "grown V a b \<Longrightarrow> grown V b c \<Longrightarrow> grown V a c"
  unfolding grown_def by blast

lemma add_resolved:
  "add env stock bu V name st = Inr st' \<Longrightarrow> resolved env stock bu st \<Longrightarrow> resolved env stock bu st' \<and> grown V st st' \<and> name \<in> set (fst st')"
  "add_deps env stock bu V ds st = Inr st' \<Longrightarrow> resolved env stock bu st \<Longrightarrow>
     resolved env stock bu st' \<and> grown V st st' \<and> (\<forall>d \<in> set ds. met env stock bu (snd st') d)"
proof (induction env stock bu V name st and env stock bu V ds st arbitrary: st' and st' rule: add_add_deps.induct)
  case (1 env stock bu V name st)
  show ?case
  proof (cases "name \<in> set (fst st)")
    case True
    then show ?thesis using 1(2,3) by (simp add: add.simps grown_refl)
  next
    case False
    then obtain c deps selected packages where c: "name \<notin> set V" "candidate bu name = Some c"
      "name \<noteq> ''routeharbor-guard''" "name \<noteq> ''routeharbor-node''" "check_upgrade env stock c = None" "dependencies (pm_Depends c) = Inr deps"
      "add_deps env stock bu (name # V) deps st = Inr (selected, packages)" "st' = (selected @ [name], packages @ [pm_Package c])"
      and cond: "\<not> (name = ''routeharbor-guard'' \<or> name = ''routeharbor-node'')" "\<not> (name = ''routeharbor'' \<and> source_version (pk_Version (pm_Package c)) \<noteq> bu_Version bu)"
      using 1(2) by (auto simp: add.simps [of _ _ _ _ name] split: if_splits option.splits sum.splits prod.splits)
    from 1(1) [OF False c(1,2) cond c(5,6,7) 1(3)]
    have d: "resolved env stock bu (selected, packages)" "grown (name # V) st (selected, packages)" "\<forall>d \<in> set deps. met env stock bu packages d"
      by auto
    have n: "pk_Name (pm_Package c) = name" using candidate_Some [OF c(2)] by simp
    have new: "name \<notin> set selected" using d(2) False by (auto simp: grown_def)
    have "\<forall>d \<in> set deps. met env stock bu (packages @ [pm_Package c]) d" using d(3) by (auto intro: met_mono)
    then have "planned env stock bu (packages @ [pm_Package c]) (pm_Package c)"
      unfolding planned_def n using c by (intro exI [of _ c] exI [of _ deps]) simp
    moreover have "\<forall>p \<in> set packages. planned env stock bu (packages @ [pm_Package c]) p"
      using d(1) by (auto simp: resolved_def intro: planned_mono)
    ultimately have "resolved env stock bu st'" using d(1) n new by (auto simp: resolved_def c(8))
    moreover have "grown V st st'" using d(2) c(1) by (auto simp: grown_def c(8))
    ultimately show ?thesis by (simp add: c(8))
  qed
next
  case (2 env stock bu V st)
  then show ?case by (simp add: grown_refl)
next
  case (3 env stock bu V d ds st)
  obtain sat where sat: "installed_satisfies env stock d = Inr sat" using 3(4) by (auto split: sum.splits)
  show ?case
  proof (cases sat)
    case True
    then show ?thesis using 3(1) [OF sat True _ 3(5)] 3(4) sat by (auto simp: met_def)
  next
    case False
    obtain st1 where st1: "add env stock bu V (dp_Name d) st = Inr st1" using 3(4) sat False by (auto split: sum.splits)
    with 3(4) sat False have ok: "candidate_satisfies env bu d = Inr True" "add_deps env stock bu V ds st1 = Inr st'"
      by (auto split: sum.splits if_splits)
    have a: "resolved env stock bu st1" "grown V st st1" "dp_Name d \<in> set (fst st1)" using 3(2) [OF sat False st1 3(5)] by auto
    have b: "resolved env stock bu st'" "grown V st1 st'" "\<forall>d \<in> set ds. met env stock bu (snd st') d"
      using 3(3) [OF sat False st1 ok(1) _ ok(2) a(1)] by auto
    have "met env stock bu (snd st1) d" using a(1,3) ok(1) by (auto simp: met_def resolved_def)
    then have "met env stock bu (snd st') d" using b(2) met_mono by (auto simp: grown_def)
    then show ?thesis using b grown_trans [OF a(2) b(2)] by simp
  qed
qed

lemma add_components_resolved:
  assumes "add_components env stock bu action cs st = Inr st'" and "resolved env stock bu st"
  shows "resolved env stock bu st' \<and> set cs \<subseteq> set (fst st') \<and> set (snd st) \<subseteq> set (snd st')"
  using assms
proof (induction env stock bu action cs st rule: add_components.induct)
  case (2 env stock bu action c cs st)
  obtain st1 where st1: "add env stock bu [] c st = Inr st1" "add_components env stock bu action cs st1 = Inr st'"
    "\<not> (action = ''upgrade'' \<and> installed stock c = '''')"
    using "2.prems"(1) by (auto split: if_splits sum.splits)
  have a: "resolved env stock bu st1" "set (snd st) \<subseteq> set (snd st1)" "c \<in> set (fst st1)"
    using add_resolved(1) [OF st1(1) "2.prems"(2)] by (auto simp: grown_def)
  from 2(1) [OF st1(3,1,2) a(1)] a show ?case by (auto simp: resolved_def)
qed simp

lemma makePlan_packages:
  assumes "makePlan env q bu = Inr plan" and "rq_Action q \<noteq> ''remove''"
  obtains stock selected packages where "me_inventory env = Inr stock" "resolved env stock bu (selected, packages)" "set (rq_Components q) \<subseteq> set selected"
    "wrap64 (required_bytes bu selected) \<le> in_AvailableBytes stock" "mp_Packages plan = sort_key pk_Name packages"
proof -
  define comps where "comps = sort (rq_Components q)"
  obtain stock q' packages where s: "me_inventory env = Inr stock" "install_packages env stock bu q' = Inr packages"
    "mp_Packages plan = sort_key pk_Name packages" and q': "rq_Action q' = rq_Action q" "rq_Components q' = comps"
    using assms unfolding comps_def by (fastforce simp: makePlan_def Let_def split: option.splits if_splits)
  obtain selected where a: "add_components env stock bu (rq_Action q) comps ([], []) = Inr (selected, packages)"
    "\<not> wrap64 (required_bytes bu selected) > in_AvailableBytes stock"
    using s(2) q' by (auto simp: install_packages_def split: if_splits sum.splits)
  have "resolved env stock bu ([], [])" by (simp add: resolved_def)
  from add_components_resolved [OF a(1) this] that [OF s(1) _ _ _ s(3), of selected] a(2) show ?thesis
    by (simp add: comps_def)
qed

text \<open>The version of a package once the plan has been carried out.\<close>

definition version_after :: "inventory \<Rightarrow> maintenance_plan \<Rightarrow> string \<Rightarrow> string option" where
  "version_after stock plan name =
     (case find (\<lambda>p. pk_Name p = name) (mp_Packages plan) of
        Some p \<Rightarrow> Some (pk_Version p)
      | None \<Rightarrow> if installed stock name = '''' then None else Some (installed stock name))"

text \<open>The comparison of the package manager: a newer version satisfies a lower bound that an older one satisfies.\<close>

definition lower_bounds :: "string list" where
  "lower_bounds = [''>='', ''>>'', ''>'']"

definition compare_ok :: "planner_env \<Rightarrow> bool" where
  "compare_ok env \<longleftrightarrow> (\<forall>a b v op. op \<in> set lower_bounds \<and> me_compare env a ''>='' b = Inr True \<and> me_compare env b op v = Inr True \<longrightarrow>
     me_compare env a op v = Inr True)"

definition holds_after :: "planner_env \<Rightarrow> inventory \<Rightarrow> maintenance_plan \<Rightarrow> dependency \<Rightarrow> bool" where
  "holds_after env stock plan d \<longleftrightarrow> (case version_after stock plan (dp_Name d) of None \<Rightarrow> False | Some v \<Rightarrow>
     dp_Operator d = '''' \<or> me_compare env v (dp_Operator d) (dp_Version d) = Inr True)"

lemma find_Some_in: "find P xs = Some x \<Longrightarrow> x \<in> set xs \<and> P x"
  by (induction xs) (auto split: if_splits)

lemma version_after_planned:
  assumes "resolved env stock bu (selected, packages)" and "mp_Packages plan = sort_key pk_Name packages"
    and "p \<in> set packages"
  shows "version_after stock plan (pk_Name p) = Some (pk_Version p)"
proof -
  have d: "distinct (map pk_Name packages)" using assms(1) by (auto simp: resolved_def)
  obtain p' where p': "find (\<lambda>x. pk_Name x = pk_Name p) (mp_Packages plan) = Some p'"
    using assms(2,3) by (cases "find (\<lambda>x. pk_Name x = pk_Name p) (mp_Packages plan)") (auto simp: find_None_iff)
  then have "p' \<in> set (mp_Packages plan)" "pk_Name p' = pk_Name p" using find_Some_in [OF p'] by simp_all
  then have "p' \<in> set packages" "pk_Name p' = pk_Name p" using assms(2) by simp_all
  then have "p' = p" using d assms(3) by (auto simp: distinct_map dest: inj_onD)
  then show ?thesis using p' by (simp add: version_after_def)
qed

lemma planned_version:
  assumes "planned env stock bu pkgs p"
  shows "candidate_version bu (pk_Name p) = pk_Version p" and "installed stock (pk_Name p) \<noteq> '''' \<Longrightarrow> me_compare env (pk_Version p) ''>='' (installed stock (pk_Name p)) = Inr True"
  using assms by (auto simp: planned_def candidate_version_def check_upgrade_def Let_def split: if_splits sum.splits)

lemma version_after_kept:
  assumes "\<forall>p \<in> set (mp_Packages plan). pk_Name p \<noteq> name" and "installed stock name \<noteq> ''''"
  shows "version_after stock plan name = Some (installed stock name)"
proof -
  have "find (\<lambda>p. pk_Name p = name) (mp_Packages plan) = None" using assms(1) by (simp add: find_None_iff)
  then show ?thesis using assms(2) by (simp add: version_after_def)
qed

text \<open>A dependency that was met is met by the version that the plan puts in place.\<close>

lemma met_by_planned:
  assumes "met env stock bu pkgs d" and "planned env stock bu pkgs p" and "pk_Name p = dp_Name d" and "compare_ok env"
    and "dp_Operator d \<in> set lower_bounds"
  shows "me_compare env (pk_Version p) (dp_Operator d) (dp_Version d) = Inr True"
  using assms(1) unfolding met_def
proof
  have ne: "dp_Operator d \<noteq> ''''" using assms(5) by (auto simp: lower_bounds_def)
  assume "installed_satisfies env stock d = Inr True"
  then have i: "installed stock (dp_Name d) \<noteq> ''''" "me_compare env (installed stock (dp_Name d)) (dp_Operator d) (dp_Version d) = Inr True"
    using ne by (auto simp: installed_satisfies_def split: if_splits)
  then have "me_compare env (pk_Version p) ''>='' (installed stock (dp_Name d)) = Inr True"
    using planned_version(2) [OF assms(2)] assms(3) by simp
  with i(2) assms(4,5) show ?thesis unfolding compare_ok_def by blast
next
  have ne: "dp_Operator d \<noteq> ''''" using assms(5) by (auto simp: lower_bounds_def)
  assume "(\<exists>p \<in> set pkgs. pk_Name p = dp_Name d) \<and> candidate_satisfies env bu d = Inr True"
  then show ?thesis using planned_version(1) [OF assms(2)] assms(3) ne by (simp add: candidate_satisfies_def)
qed

text \<open>A device with the guard installed and a bundle of the controller and a package it needs.\<close>

definition sample_stock :: inventory where
  "sample_stock = \<lparr>in_Architecture = ''x86_64'', in_Packages = [(''routeharbor-guard'', ''1.0''), (''ca-bundle'', ''2023'')], in_AvailableBytes = 1000\<rparr>"

definition sample_compare :: "string \<Rightarrow> string \<Rightarrow> string \<Rightarrow> bool result" where
  "sample_compare a op b =
     Inr (if op = ''>='' then b \<le> a else if op = ''>>'' \<or> op = ''>'' then b < a else if op = ''='' then a = b else if op = ''<='' then a \<le> b else a < b)"

definition sample_planner :: planner_env where
  "sample_planner = \<lparr>me_inventory = Inr sample_stock, me_compare = sample_compare, me_inventory_hash = (\<lambda>_ _. replicate 32 1), me_plan_hash = (\<lambda>_. replicate 32 2)\<rparr>"

definition sample_package :: "string \<Rightarrow> string \<Rightarrow> package" where
  "sample_package name version = \<lparr>pk_Name = name, pk_Version = version, pk_Architecture = ''x86_64'', pk_SHA256 = '''', pk_Bytes = 100\<rparr>"

definition sample_bundle :: bundle_record where
  "sample_bundle = \<lparr>bu_Version = ''1.2'', bu_Architecture = ''x86_64'', bu_Metadata =
     [\<lparr>pm_Package = sample_package ''routeharbor'' ''1.2-1'', pm_Depends = ''routeharbor-guard, ca-bundle (>= 2022), conntrack (>= 1)'', pm_ExpandedBytes = 200\<rparr>,
      \<lparr>pm_Package = sample_package ''conntrack'' ''1.4'', pm_Depends = '''', pm_ExpandedBytes = 200\<rparr>]\<rparr>"

definition sample_install :: maintenance_request where
  "sample_install = \<lparr>rq_Action = ''install'', rq_BundleID = replicate 32 (CHR ''a''), rq_Components = [''routeharbor''],
     rq_ExpectedInstalledDigest = '''', rq_RemovalPolicy = ''''\<rparr>"

definition sample_maintenance :: maintenance_plan where
  "sample_maintenance = \<lparr>mp_Request = sample_install\<lparr>rq_ExpectedInstalledDigest := hex_encode (replicate 32 1)\<rparr>, mp_Digest = hex_encode (replicate 32 2),
     mp_InstalledDigest = hex_encode (replicate 32 1), mp_Packages = [sample_package ''conntrack'' ''1.4'', sample_package ''routeharbor'' ''1.2-1''],
     mp_Warnings = plan_warnings sample_install\<rparr>"

lemma sample_makePlan: "makePlan sample_planner sample_install sample_bundle = Inr sample_maintenance"
  by code_simp

text \<open>
  C21: a plan to install or upgrade leaves no dependency behind: after it, every dependency of every planned
  package without a version, or with a lower bound, holds, be it by a package of the plan or by an installed
  one, provided that the package manager's comparison respects lower bounds.
\<close>

theorem plan_meets_dependencies:
  assumes "makePlan env q bu = Inr plan" and "rq_Action q \<noteq> ''remove''" and "me_inventory env = Inr stock" and "compare_ok env"
    and "p \<in> set (mp_Packages plan)" and "candidate bu (pk_Name p) = Some c"
  shows "\<exists>deps. dependencies (pm_Depends c) = Inr deps \<and>
    list_all (\<lambda>d. dp_Operator d \<in> set ('''' # lower_bounds) \<longrightarrow> holds_after env stock plan d) deps"
proof -
  obtain stock' selected packages where s: "me_inventory env = Inr stock'" "resolved env stock' bu (selected, packages)" "mp_Packages plan = sort_key pk_Name packages"
    using makePlan_packages [OF assms(1,2)] by metis
  have st: "stock' = stock" using s(1) assms(3) by simp
  have pl: "\<forall>p \<in> set packages. planned env stock bu packages p" using s(2) st by (simp add: resolved_def)
  obtain deps where deps: "dependencies (pm_Depends c) = Inr deps" "\<forall>d \<in> set deps. met env stock bu packages d"
    using pl assms(5,6) s(3) by (fastforce simp: planned_def)
  have "holds_after env stock plan d" if d: "d \<in> set deps" "dp_Operator d \<in> set ('''' # lower_bounds)" for d
  proof (cases "\<exists>p' \<in> set packages. pk_Name p' = dp_Name d")
    case True
    then obtain p' where p': "p' \<in> set packages" "pk_Name p' = dp_Name d" by blast
    have v: "version_after stock plan (dp_Name d) = Some (pk_Version p')"
      using version_after_planned [OF s(2) [unfolded st] s(3) p'(1)] p'(2) by simp
    have "planned env stock bu packages p'" "met env stock bu packages d" using pl p'(1) deps(2) d(1) by auto
    from met_by_planned [OF this(2,1) p'(2) assms(4)] d(2) v show ?thesis by (auto simp: holds_after_def)
  next
    case False
    then have i: "installed_satisfies env stock d = Inr True" using deps(2) d(1) by (auto simp: met_def)
    then have "version_after stock plan (dp_Name d) = Some (installed stock (dp_Name d))"
      using False s(3) by (intro version_after_kept) (auto simp: installed_satisfies_def)
    then show ?thesis using i by (auto simp: holds_after_def installed_satisfies_def split: if_splits)
  qed
  then show ?thesis using deps(1) by (auto simp: list_all_iff)
qed

theorem plan_meets_dependencies_witness:
  "makePlan sample_planner sample_install sample_bundle = Inr sample_maintenance \<and>
   (\<exists>c deps. candidate sample_bundle ''routeharbor'' = Some c \<and> dependencies (pm_Depends c) = Inr deps \<and> length deps = 3 \<and>
      list_all (\<lambda>d. holds_after sample_planner sample_stock sample_maintenance d) deps)"
proof -
  let ?c = "\<lparr>pm_Package = sample_package ''routeharbor'' ''1.2-1'', pm_Depends = ''routeharbor-guard, ca-bundle (>= 2022), conntrack (>= 1)'', pm_ExpandedBytes = 200\<rparr>"
  let ?deps = "[\<lparr>dp_Name = ''routeharbor-guard'', dp_Operator = '''', dp_Version = ''''\<rparr>,
    \<lparr>dp_Name = ''ca-bundle'', dp_Operator = ''>='', dp_Version = ''2022''\<rparr>, \<lparr>dp_Name = ''conntrack'', dp_Operator = ''>='', dp_Version = ''1''\<rparr>]"
  have c: "candidate sample_bundle ''routeharbor'' = Some ?c" "dependencies (pm_Depends ?c) = Inr ?deps" by code_simp+
  have p: "sample_package ''routeharbor'' ''1.2-1'' \<in> set (mp_Packages sample_maintenance)" "pk_Name (sample_package ''routeharbor'' ''1.2-1'') = ''routeharbor''"
    by (simp_all add: sample_maintenance_def sample_package_def)
  have env: "rq_Action sample_install \<noteq> ''remove''" "me_inventory sample_planner = Inr sample_stock"
    by (simp_all add: sample_install_def sample_planner_def)
  have "compare_ok sample_planner" by (auto simp: compare_ok_def sample_planner_def sample_compare_def lower_bounds_def)
  from plan_meets_dependencies [OF sample_makePlan env this p(1), unfolded p(2), OF c(1)] c(2)
  have "list_all (\<lambda>d. holds_after sample_planner sample_stock sample_maintenance d) ?deps" by (simp add: lower_bounds_def)
  with c sample_makePlan show ?thesis by (intro conjI exI [of _ ?c] exI [of _ ?deps]) simp_all
qed

lemma components_supported: "components_error seen cs = None \<Longrightarrow> set cs \<subseteq> set maintained_components"
  by (induction seen cs rule: components_error.induct) (auto split: if_splits)

lemma sort_key_strict:
  assumes "distinct (map f xs)"
  shows "sorted_wrt (<) (map f (sort_key f xs))"
proof -
  have "mset (map f (sort_key f xs)) = mset (map f xs)" by simp
  then have "distinct (map f (sort_key f xs))" using assms by (metis mset_eq_imp_distinct_iff)
  moreover have "sorted (map f (sort_key f xs))" by simp
  ultimately show ?thesis by (simp add: strict_sorted_iff)
qed

lemma remove_packages_names:
  "map pk_Name (remove_packages stock q) = filter (\<lambda>n. installed stock n \<noteq> '''') (remdups (rq_Components q @
     (if ''routeharbor'' \<in> set (rq_Components q) then filter (\<lambda>n. installed stock n \<noteq> '''') companions else [])))"
  by (simp add: remove_packages_def Let_def comp_def)

lemma companions_maintained: "set companions \<subseteq> set maintained_components"
  by (simp add: companions_def maintained_components_def)

lemma remove_packages_props:
  assumes "set (rq_Components q) \<subseteq> set maintained_components"
  shows "set (map pk_Name (remove_packages stock q)) \<subseteq> set maintained_components" "distinct (map pk_Name (remove_packages stock q))"
    "\<forall>p \<in> set (remove_packages stock q). pk_Version p = installed stock (pk_Name p) \<and> pk_Version p \<noteq> ''''"
proof -
  show "set (map pk_Name (remove_packages stock q)) \<subseteq> set maintained_components"
    unfolding remove_packages_names using assms companions_maintained by auto
  show "distinct (map pk_Name (remove_packages stock q))" unfolding remove_packages_names by simp
  show "\<forall>p \<in> set (remove_packages stock q). pk_Version p = installed stock (pk_Name p) \<and> pk_Version p \<noteq> ''''"
    by (auto simp: remove_packages_def Let_def)
qed

lemma required_bytes_mset:
  assumes "mset xs = mset ys"
  shows "required_bytes bu xs = required_bytes bu ys"
proof -
  have "sum_list (map f zs) = sum_mset (image_mset f (mset zs))" for f :: "string \<Rightarrow> int" and zs by (induction zs) auto
  then show ?thesis using assms by (simp add: required_bytes_def)
qed

lemma guard_not_maintained: "''routeharbor-guard'' \<notin> set maintained_components" "''routeharbor-node'' \<notin> set maintained_components"
  by (simp_all add: maintained_components_def)

text \<open>
  C22: a plan stays within its bounds. Its packages are distinct and sorted by name, and never the guard or
  the node package. A removal lists installed packages only. A plan to install or upgrade contains every
  requested component, takes every package from the bundle, replaces no installed package by an older
  version, and its sizes, added as \<^verbatim>\<open>int64\<close>, fit the available storage.
\<close>

theorem plan_within_bounds:
  assumes "makePlan env q bu = Inr plan" and "me_inventory env = Inr stock"
  shows "sorted_wrt (<) (map pk_Name (mp_Packages plan)) \<and>
    ''routeharbor-guard'' \<notin> set (map pk_Name (mp_Packages plan)) \<and> ''routeharbor-node'' \<notin> set (map pk_Name (mp_Packages plan)) \<and>
    (if rq_Action q = ''remove''
     then list_all (\<lambda>p. pk_Version p = installed stock (pk_Name p) \<and> pk_Version p \<noteq> '''') (mp_Packages plan)
     else set (rq_Components q) \<subseteq> set (map pk_Name (mp_Packages plan)) \<and>
       list_all (\<lambda>p. map_option pm_Package (candidate bu (pk_Name p)) = Some p \<and>
         (installed stock (pk_Name p) = '''' \<or> me_compare env (pk_Version p) ''>='' (installed stock (pk_Name p)) = Inr True)) (mp_Packages plan) \<and>
       wrap64 (required_bytes bu (map pk_Name (mp_Packages plan))) \<le> in_AvailableBytes stock)"
proof (cases "rq_Action q = ''remove''")
  case True
  obtain q' where q': "mp_Packages plan = sort_key pk_Name (remove_packages stock q')" "set (rq_Components q') = set (rq_Components q)"
    using assms True by (fastforce simp: makePlan_def Let_def split: option.splits if_splits)
  have "set (rq_Components q) \<subseteq> set maintained_components"
    using assms(1) components_supported [of "[]"] by (auto simp: makePlan_def ValidateRequest_def split: option.splits if_splits)
  with q'(2) have "set (rq_Components q') \<subseteq> set maintained_components" by simp
  from remove_packages_props [OF this, of stock] True guard_not_maintained show ?thesis
    by (auto simp: q'(1) sort_key_strict list_all_iff simp del: map_map)
next
  case False
  obtain selected packages where s: "resolved env stock bu (selected, packages)" "set (rq_Components q) \<subseteq> set selected"
    "wrap64 (required_bytes bu selected) \<le> in_AvailableBytes stock" "mp_Packages plan = sort_key pk_Name packages"
    using makePlan_packages [OF assms(1) False] assms(2) by (metis Inr_inject)
  have r: "selected = map pk_Name packages" "distinct (map pk_Name packages)" "\<forall>p \<in> set packages. planned env stock bu packages p"
    using s(1) by (auto simp: resolved_def)
  have "required_bytes bu (map pk_Name (mp_Packages plan)) = required_bytes bu selected"
    by (rule required_bytes_mset) (simp add: s(4) r(1))
  moreover have "pk_Name p \<noteq> ''routeharbor-guard'' \<and> pk_Name p \<noteq> ''routeharbor-node'' \<and> map_option pm_Package (candidate bu (pk_Name p)) = Some p \<and>
      (installed stock (pk_Name p) = '''' \<or> me_compare env (pk_Version p) ''>='' (installed stock (pk_Name p)) = Inr True)" if "p \<in> set packages" for p
    using r(3) that planned_version(2) [of env stock bu packages p] by (auto simp: planned_def)
  ultimately show ?thesis
    using False s(2,3) r(1) sort_key_strict [OF r(2)] by (fastforce simp: s(4) list_all_iff)
qed

theorem plan_within_bounds_witness:
  "makePlan sample_planner sample_install sample_bundle = Inr sample_maintenance \<and>
   map pk_Name (mp_Packages sample_maintenance) = [''conntrack'', ''routeharbor''] \<and>
   sorted_wrt (<) (map pk_Name (mp_Packages sample_maintenance)) \<and>
   wrap64 (required_bytes sample_bundle (map pk_Name (mp_Packages sample_maintenance))) \<le> in_AvailableBytes sample_stock"
proof -
  have env: "rq_Action sample_install \<noteq> ''remove''" "me_inventory sample_planner = Inr sample_stock"
    by (simp_all add: sample_install_def sample_planner_def)
  have n: "map pk_Name (mp_Packages sample_maintenance) = [''conntrack'', ''routeharbor'']"
    by (simp add: sample_maintenance_def sample_package_def)
  from plan_within_bounds [OF sample_makePlan env(2), unfolded if_not_P [OF env(1)]] sample_makePlan n show ?thesis by blast
qed

end
