(* ===== verification/Spec2Isabelle.thy ===== *)
theory Spec2Isabelle
  imports Go_Prelude Continuity_Wire Datagram_Window Go_Float Selection_Props Gateway_Props Node_Props
    Netip Routing_Props Detector_Props Registry Dns_Props Peer_Stream Peer_Paths Relay_Props Coverage_Props Punycode Idn Maintenance_Plan
begin

text \<open>
  \<^bold>\<open>RouteHarbor: a verification library.\<close>

  RouteHarbor runs on a home gateway. It measures several uplinks (sources) and selects one, routes
  chosen destinations around restrictions, keeps connections alive across a change of uplink by
  tunnelling them to a relay, and changes the Wi-Fi and network configuration of the gateway and of
  a coverage node by transactions that survive a crash. The library models the Go code of these
  parts under \<^verbatim>\<open>src/internal/\<close> as HOL functions and proves what each promises.

  \<^bold>\<open>Parts and theories.\<close>

  \<^item> \<^verbatim>\<open>Go_Prelude\<close>: what the sources use of Go and its standard library (errors as values, maps as
    association lists without duplicate keys, durations and times in nanoseconds with the saturation
    of \<^verbatim>\<open>time.Sub\<close> and the wrap-around of \<^verbatim>\<open>int64\<close>, characters and strings). \<^verbatim>\<open>Go_Float\<close>: \<^verbatim>\<open>float64\<close> with rounding,
    infinities and NaN. \<^verbatim>\<open>Netip\<close>: addresses, prefixes, parsers and printers of \<^verbatim>\<open>net/netip\<close>.

  \<^item> \<^verbatim>\<open>Continuity_Wire\<close> (\<^verbatim>\<open>continuity/wire.go\<close>): frames and handshake records on a byte stream; the
    writer and the reader of the connection are parameters with the contracts of \<^verbatim>\<open>io.Writer\<close> and
    \<^verbatim>\<open>io.ReadFull\<close>. The locale \<^verbatim>\<open>stream_codec\<close> gives the round trip of a sequence of messages and is
    interpreted for frames and for records. \<^verbatim>\<open>Datagram_Window\<close>: the deduplication bitmap on 64-bit
    words, an implementation of the interface \<^verbatim>\<open>dedup_window\<close> (the set of numbers accepted so far).

  \<^item> \<^verbatim>\<open>Peer_State\<close> and \<^verbatim>\<open>Peer_Flow\<close> (\<^verbatim>\<open>continuity/peer.go\<close>, \<^verbatim>\<open>types.go\<close>, \<^verbatim>\<open>gateway.go\<close>): the continuity peer,
    used by the gateway and by the relay. Segments, carriers and flows, which the code shares by
    pointer, are heaps of records indexed by addresses. One definition per critical section: the
    timer (\<^verbatim>\<open>tick\<close>), the frame handler (\<^verbatim>\<open>handle\<close>, one definition per kind of frame), the reader and the
    writer of a carrier, the two goroutines of an endpoint, the operations of the gateway and
    \<^verbatim>\<open>close\<close>. An \<^verbatim>\<open>event\<close> names a critical section and its inputs (clock, received frame, outcome of
    I/O), \<^verbatim>\<open>peer_step\<close> runs it and \<^verbatim>\<open>peer_run\<close> a sequence of them, so that a statement about every
    list of events is one about every interleaving of the goroutines.
    \<^verbatim>\<open>Peer_Budget\<close>, \<^verbatim>\<open>Peer_Inv\<close>, \<^verbatim>\<open>Peer_Steps\<close>: the byte accounts and their preservation by each operation.
    \<^verbatim>\<open>Peer_Quiet\<close>, \<^verbatim>\<open>Peer_Calm\<close>: what operations leave alone. \<^verbatim>\<open>Peer_Receive\<close>: an abstract receiver as an
    inductive relation, the simulation of every step of the peer by it, and the locale
    \<^verbatim>\<open>flow_property\<close>, which carries properties of single flows along steps.
    \<^verbatim>\<open>Peer_Run\<close>, \<^verbatim>\<open>Peer_Stream\<close>, \<^verbatim>\<open>Peer_Paths\<close>: theorems over whole runs.

  \<^item> \<^verbatim>\<open>Relay\<close>, \<^verbatim>\<open>Relay_Props\<close> (\<^verbatim>\<open>continuity/relay.go\<close>): the sessions of the relay, each with a peer, its
    limits, the reaper and the address policy of its dialler.

  \<^item> \<^verbatim>\<open>Selection\<close>, \<^verbatim>\<open>Selection_Props\<close> (\<^verbatim>\<open>selection/selector.go\<close>, \<^verbatim>\<open>model/model.go\<close>): measurements, health and the
    decision for a source.

  \<^item> \<^verbatim>\<open>Validation\<close>, \<^verbatim>\<open>Gateway_Txn\<close>, \<^verbatim>\<open>Gateway_Props\<close> (\<^verbatim>\<open>coverage/transaction.go\<close>, \<^verbatim>\<open>model.go\<close>) and \<^verbatim>\<open>Node_Txn\<close>,
    \<^verbatim>\<open>Node_Props\<close> (\<^verbatim>\<open>node/transaction.go\<close>, \<^verbatim>\<open>model.go\<close>): the two transaction managers over a journal on disk
    and a device, with the outcome of every file and device operation as an input. \<^verbatim>\<open>Crash_Safety\<close> has
    the runs that may stop at any write and the locale \<^verbatim>\<open>crash_safe\<close>, interpreted for both managers.

  \<^item> \<^verbatim>\<open>Coverage\<close> (\<^verbatim>\<open>node/coverage_coordinator.go\<close>, with \<^verbatim>\<open>ValidatePlan\<close> of \<^verbatim>\<open>model.go\<close>, \<^verbatim>\<open>LocalOperator.Do\<close> of
    \<^verbatim>\<open>protocol.go\<close>, the two authorised routes of \<^verbatim>\<open>server.go\<close>, and \<^verbatim>\<open>node\<close>, \<^verbatim>\<open>Plan\<close> and \<^verbatim>\<open>Operate\<close> of \<^verbatim>\<open>service.go\<close>): the
    coordinator of a wireless change in which the gateway's and the node's transaction take part. Each
    operation is a program, a tree of requests (journal file, gateway, node, clock, randomness) with a
    continuation on the answer. \<^verbatim>\<open>Coverage_Run\<close> runs programs in a world of the journal file, the gateway
    and the nodes: between two steps a participant may recover on its own, an earlier request may
    arrive late or again, an answer may be lost, a participant may stop in the middle of an
    operation, and the coordinator may be restarted. \<^verbatim>\<open>Coverage_Safe\<close> has the contract of the participants, the
    locale \<^verbatim>\<open>coverage_parties\<close>, the invariant of the journal file and a rely-guarantee rule for each kind of
    request; \<^verbatim>\<open>Coverage_Proofs\<close> proves in the locale that every program keeps the invariant.
    \<^verbatim>\<open>Coverage_Laws\<close> interprets the locale on \<^verbatim>\<open>Gateway_Txn\<close> and \<^verbatim>\<open>Node_Txn\<close>. \<^verbatim>\<open>Coverage_Play\<close> computes runs, and
    \<^verbatim>\<open>Coverage_Props\<close> has the theorems.

  \<^item> \<^verbatim>\<open>Routing_Policy\<close>, \<^verbatim>\<open>Routing_Props\<close> (\<^verbatim>\<open>routing/policy.go\<close>, \<^verbatim>\<open>platform/public.go\<close>): canonical names and
    prefixes and the classifier. \<^verbatim>\<open>Detector\<close>, \<^verbatim>\<open>Detector_Props\<close> (\<^verbatim>\<open>routing/detector.go\<close>): learning of
    restricted domains. \<^verbatim>\<open>Registry\<close> (\<^verbatim>\<open>routing/snapshot.go\<close>): provider lists and rule sets. \<^verbatim>\<open>Punycode\<close> and \<^verbatim>\<open>Idn\<close> (\<^verbatim>\<open>routing/idn.go\<close>):
    the encoder of labels, with the decoder of RFC 3492 as its specification, and the provider's feed of names. \<^verbatim>\<open>Dns_Proxy\<close>,
    \<^verbatim>\<open>Dns_Props\<close> (\<^verbatim>\<open>routing/dns.go\<close>): the DNS front end on message bytes.

  \<^item> \<^verbatim>\<open>Maintenance_Plan\<close> (\<^verbatim>\<open>maintenance/planner.go\<close>, \<^verbatim>\<open>validate.go\<close>): the planner of package changes, which resolves
    dependencies among the packages of a bundle by depth-first search.

  \<^bold>\<open>How the parts meet.\<close> The reader loop of \<^verbatim>\<open>Continuity_Wire\<close> delivers to \<^verbatim>\<open>handle\<close> exactly the frames
  that were written on a carrier; the stream theorem of \<^verbatim>\<open>Peer_Stream\<close> then holds for any order and
  repetition in which the carriers deliver them. The peer deduplicates datagrams and flow numbers
  with \<^verbatim>\<open>Datagram_Window\<close>. The relay's bound on memory is the sum of its peers' budget theorems. The
  coordinator of \<^verbatim>\<open>Coverage\<close> rests on the models of the two transaction managers through the contract of
  \<^verbatim>\<open>coverage_parties\<close>. The DNS front end, the registry and the detector use the canonical names and the address policy of
  \<^verbatim>\<open>Routing_Policy\<close>.

  \<^bold>\<open>What is shown.\<close> Wire: round trips, at-most-once datagrams, a window that is exact within its span over every history. Peer: exact and bounded byte accounts
  over every interleaving, nothing reserved after closing, in-order delivery with acknowledged
  data delivered or held, well-formed data structures, path selection, termination of
  reassembly and what it moves. Relay: bounded sessions and memory, the extent to which its address policy agrees
  with the shared one. Selector: only verified sources, an advantage kept over consecutive fresh
  measurements before a switch, recovery only by consecutive successes, bounded state. Transactions: the journal is ahead of the device, recovery from any
  crash, idempotent requests, no secrets in finished journals or replies. Coordinator: over every run
  the node's change is final only while the gateway's is, recorded ends are the participants' ends,
  one change at a time, the recovery never applies, no passphrase in answers. Routing: only public
  prefixes, stable canonical names, exact bypass decisions, learned domains need three rounds,
  bounded candidates and a bounded rate of probes, which keeps the learned domains below their limit, complete rule sets, encoded names that decode to themselves, well-formed DNS answers. Planner: dependencies hold after the plan,
  no downgrade, the guard package stays. Some theorems state what the code
  does where a comment or document says otherwise; they are the findings of the manifest.

  \<^bold>\<open>Bounds.\<close> Runs of a peer have fewer than \<open>2 ^ 64\<close> steps, because a gateway numbers its flows with a
  \<^verbatim>\<open>uint64\<close>; the relay's peers take numbers from their client and need no such bound. Streams are
  shorter than \<open>2 ^ 64\<close> bytes, the range of an offset. Byte counters (\<^verbatim>\<open>int64\<close>) are integers: the budget
  theorem keeps them below \<open>2 ^ 31\<close>. Loops are recursive functions with termination proofs. One takes fuel: the loop behind
  \<^verbatim>\<open>readLoop\<close> of \<^verbatim>\<open>Continuity_Wire\<close> is given one more round than the stream has bytes, which is always enough
  because every round consumes a header. The Punycode encoder's outer loop is a partial function with a proof that it returns. A Go map is traversed in the order of its list, where the code leaves the order open.
  Identifiers of 128 random bits are taken not to repeat one that is in use. The rate of the detector's
  probes is stated for calls that read a clock which does not run backwards.

  \<^bold>\<open>Not modelled.\<close> Sockets, TLS, JSON decoding, processes and external programs (their outcomes are
  inputs or parameters); the tables of package \<^verbatim>\<open>unicode\<close> outside ASCII; the snapshots of the peer and the relay for the API; the UCI back ends, whose
  promises are hypotheses on the device. The upstream of the DNS front end is a function of the query and its
  observer is set; the package manager's version comparison is a function; the relay's reaper closes the
  sessions it removes in the same step. In the coordinator, calls of the service follow one another
  (its mutex and its lock file), the registry of paired nodes is fixed during a run, a request to the
  gateway's helper is over when the call returns, an answer that is not well-formed JSON is an error, the
  node agent has an operator, and \<^verbatim>\<open>recoverCoverage\<close> visits the entries in the order of the journal's list;
  pairing, discovery and the recovery goroutine itself are left out. The control runtime, the helper,
  the engine adapters, the data-plane plan, maintenance jobs and the configuration store are not modelled: they
  mostly start processes, call the operating system and render text for other programs. The parts with
  logic of their own that could follow are the data-plane plan and the helper's journal.
\<close>

end
